(* ===== verification/Prelude.thy ===== *)
theory Prelude
  imports Main "HOL-Library.Word" "HOL-Library.List_Lexorder" "HOL-Library.Product_Lexorder"
    "HOL-Library.AList" "HOL-Library.Multiset"
begin

text \<open>
  Shared ground of the development: JavaScript strings as lists of UTF-16 code units, the
  parts of the standard library the program calls on them, results that carry a thrown error,
  and the insertion-ordered \<open>Map\<close> of JavaScript.

  The collections \<open>result_simps\<close>, \<open>jmap_simps\<close> and \<open>event_simps\<close> gather the rewrite rules the
  component theories use.
\<close>

named_theorems result_simps
named_theorems jmap_simps
named_theorems event_simps

section \<open>Strings\<close>

text \<open>
  A JavaScript string is a sequence of 16-bit code units; lengths, slices and the relational
  operators all count and compare code units.  A literal of the source is written
  \<open>js ''...''\<close>.  The order of \<^typ>\<open>16 word list\<close> is the lexicographic order on code units, which
  is what the source's \<open>a < b ? -1 : a > b ? 1 : 0\<close> compares by.
\<close>

type_synonym jstring = "16 word list"

definition js :: "string \<Rightarrow> jstring" where
  "js s = map of_char s"

lemma unat_of_char [simp]: "unat (of_char c :: 16 word) = of_char c"
proof -
  have "(of_char c :: 16 word) = of_nat (of_char c)"
    by (simp add: of_nat_of_char)
  moreover have "(of_char c :: nat) < 2 ^ LENGTH(16)"
    by (rule order_less_trans [OF nat_of_char_less_256]) simp
  ultimately show ?thesis
    by (simp only: unat_of_nat take_bit_eq_mod mod_less)
qed

lemma of_char_unit_eq [simp]: "(of_char c :: 16 word) = of_char d \<longleftrightarrow> c = d"
  by (metis unat_of_char of_char_eq_iff)

lemma js_eq_iff [simp]: "js s = js t \<longleftrightarrow> s = t"
  unfolding js_def by (rule inj_map_eq_map) (auto intro: injI)

lemma js_Nil_iff [simp]: "js s = [] \<longleftrightarrow> s = []" "[] = js s \<longleftrightarrow> s = []"
  by (auto simp: js_def)

lemma js_empty [simp]: "js '''' = []"
  by (simp add: js_def)

lemma length_js [simp]: "length (js s) = length s"
  by (simp add: js_def)

lemma unat_unit_less: "unat (c :: 16 word) < 65536"
  using unsigned_less [of c] by simp

lemma unat_of_unit: "n < 65536 \<Longrightarrow> unat (of_nat n :: 16 word) = n"
  by (simp add: unat_of_nat take_bit_eq_mod)

definition is_digit :: "16 word \<Rightarrow> bool" where
  "is_digit c \<longleftrightarrow> 0x30 \<le> c \<and> c \<le> 0x39"

definition is_lower :: "16 word \<Rightarrow> bool" where
  "is_lower c \<longleftrightarrow> 0x61 \<le> c \<and> c \<le> 0x7A"

definition is_upper :: "16 word \<Rightarrow> bool" where
  "is_upper c \<longleftrightarrow> 0x41 \<le> c \<and> c \<le> 0x5A"

definition is_alnum :: "16 word \<Rightarrow> bool" where
  "is_alnum c \<longleftrightarrow> is_lower c \<or> is_upper c \<or> is_digit c"

definition is_high_surrogate :: "16 word \<Rightarrow> bool" where
  "is_high_surrogate c \<longleftrightarrow> 0xD800 \<le> c \<and> c \<le> 0xDBFF"

definition is_low_surrogate :: "16 word \<Rightarrow> bool" where
  "is_low_surrogate c \<longleftrightarrow> 0xDC00 \<le> c \<and> c \<le> 0xDFFF"

lemmas char_class_defs = is_digit_def is_lower_def is_upper_def is_alnum_def
  is_high_surrogate_def is_low_surrogate_def

text \<open>
  \<open>Buffer.byteLength(s, 'utf8')\<close>: a surrogate pair is one code point of four bytes, and a
  surrogate without its partner is written as U+FFFD, three bytes.
\<close>

definition unit_bytes :: "16 word \<Rightarrow> nat" where
  "unit_bytes c = (if c < 0x80 then 1 else if c < 0x800 then 2 else 3)"

fun utf8_length :: "jstring \<Rightarrow> nat" where
  "utf8_length [] = 0"
| "utf8_length [c] = unit_bytes c"
| "utf8_length (c # d # s) =
     (if is_high_surrogate c \<and> is_low_surrogate d then 4 + utf8_length s
      else unit_bytes c + utf8_length (d # s))"

lemma unit_bytes_bounds: "1 \<le> unit_bytes c" "unit_bytes c \<le> 3"
  by (simp_all add: unit_bytes_def)

lemma length_le_utf8_length: "length s \<le> utf8_length s"
proof (induction s rule: utf8_length.induct)
  case (3 c d s)
  then show ?case using unit_bytes_bounds(1) [of c] by auto
qed (use unit_bytes_bounds(1) in auto)

lemma utf8_length_le: "utf8_length s \<le> 3 * length s"
proof (induction s rule: utf8_length.induct)
  case (3 c d s)
  then show ?case using unit_bytes_bounds(2) [of c] by auto
qed (use unit_bytes_bounds(2) in auto)

text \<open>\<open>s.trim() === ''\<close>: every code unit is white space or a line terminator.\<close>

definition is_js_space :: "16 word \<Rightarrow> bool" where
  "is_js_space c \<longleftrightarrow>
     (0x09 \<le> c \<and> c \<le> 0x0D) \<or> c = 0x20 \<or> c = 0xA0 \<or> c = 0x1680 \<or>
     (0x2000 \<le> c \<and> c \<le> 0x200A) \<or> c = 0x2028 \<or> c = 0x2029 \<or> c = 0x202F \<or>
     c = 0x205F \<or> c = 0x3000 \<or> c = 0xFEFF"

definition is_blank :: "jstring \<Rightarrow> bool" where
  "is_blank s \<longleftrightarrow> list_all is_js_space s"

text \<open>\<open>s.split(c)\<close> for a one-character separator: always at least one piece.\<close>

fun split_on :: "16 word \<Rightarrow> jstring \<Rightarrow> jstring list" where
  "split_on c [] = [[]]"
| "split_on c (x # xs) =
     (if x = c then [] # split_on c xs
      else case split_on c xs of [] \<Rightarrow> [[x]] | p # ps \<Rightarrow> (x # p) # ps)"

lemma split_on_not_Nil [simp]: "split_on c s \<noteq> []"
  by (induction s) (auto split: list.splits)

lemma split_on_free: "c \<notin> set s \<Longrightarrow> split_on c s = [s]"
  by (induction s) auto

lemma split_on_append: "c \<notin> set s \<Longrightarrow> split_on c (s @ c # t) = s # split_on c t"
  by (induction s) (auto split: list.splits)

fun join_with :: "16 word \<Rightarrow> jstring list \<Rightarrow> jstring" where
  "join_with c [] = []"
| "join_with c [x] = x"
| "join_with c (x # xs) = x @ c # join_with c xs"

lemma split_on_join: "join_with c (split_on c s) = s"
proof (induction s)
  case (Cons x s)
  obtain p ps where "split_on c s = p # ps"
    using split_on_not_Nil by (metis list.exhaust)
  with Cons show ?case by (cases ps) auto
qed simp

text \<open>The decimal text of a whole number, as a template literal inserts it.\<close>

fun show_nat :: "nat \<Rightarrow> jstring" where
  "show_nat n = (if n < 10 then [0x30 + of_nat n]
                 else show_nat (n div 10) @ [0x30 + of_nat (n mod 10)])"

declare show_nat.simps [simp del]

definition show_int :: "int \<Rightarrow> jstring" where
  "show_int i = (if i < 0 then js ''-'' @ show_nat (nat (- i)) else show_nat (nat i))"

lemma show_nat_not_Nil [simp]: "show_nat n \<noteq> []"
  by (subst show_nat.simps) simp

section \<open>Sorting\<close>

text \<open>
  \<open>Array.prototype.sort\<close> with a comparison by a key is stable, as \<^const>\<open>sort_key\<close> is.
\<close>

lemma distinct_map_sort_key [simp]: "distinct (map f (sort_key g xs)) \<longleftrightarrow> distinct (map f xs)"
  by (metis mset_map mset_sort mset_eq_imp_distinct_iff)

text \<open>A list with distinct keys has one sorted order, whatever order it is given in.\<close>

lemma sort_key_unique:
  assumes "mset xs = mset ys" and "distinct (map f xs)"
  shows "sort_key f xs = sort_key f ys"
proof (rule map_sorted_distinct_set_unique [where f = f])
  have set: "set xs = set ys" using assms(1) by (rule mset_eq_setD)
  have "distinct (map f ys)"
    using assms by (metis mset_map mset_eq_imp_distinct_iff)
  with assms(2) show "inj_on f (set (sort_key f xs) \<union> set (sort_key f ys))"
    "distinct (map f (sort_key f xs))" "distinct (map f (sort_key f ys))"
    by (simp_all add: set distinct_map)
  show "set (sort_key f xs) = set (sort_key f ys)" by (simp add: set)
qed simp_all

section \<open>Results\<close>

text \<open>
  A function of the source that may throw returns a sum: \<open>Inl\<close> carries the thrown error.
  \<open>bind_r\<close> is sequencing: the first error wins, as a thrown exception does.
\<close>

fun bind_r :: "'e + 'a \<Rightarrow> ('a \<Rightarrow> 'e + 'b) \<Rightarrow> 'e + 'b" where
  "bind_r (Inl e) f = Inl e"
| "bind_r (Inr a) f = f a"

lemma bind_r_cong [fundef_cong]:
  "m = m' \<Longrightarrow> (\<And>a. m' = Inr a \<Longrightarrow> f a = g a) \<Longrightarrow> bind_r m f = bind_r m' g"
  by (cases m') auto

lemma bind_r_Inr_iff [result_simps]:
  "bind_r m f = Inr b \<longleftrightarrow> (\<exists>a. m = Inr a \<and> f a = Inr b)"
  by (cases m) auto

lemma bind_r_InrE:
  assumes "bind_r m f = Inr b"
  obtains a where "m = Inr a" and "f a = Inr b"
  using assms by (auto simp: result_simps)

lemma bind_r_Inl_iff [result_simps]:
  "bind_r m f = Inl e \<longleftrightarrow> m = Inl e \<or> (\<exists>a. m = Inr a \<and> f a = Inl e)"
  by (cases m) auto

text \<open>\<open>xs.map((x, i) => ...)\<close> with a callback that may throw; \<open>i\<close> is the position.\<close>

fun map_r :: "(nat \<Rightarrow> 'a \<Rightarrow> 'e + 'b) \<Rightarrow> nat \<Rightarrow> 'a list \<Rightarrow> 'e + 'b list" where
  "map_r f i [] = Inr []"
| "map_r f i (x # xs) = bind_r (f i x) (\<lambda>y. bind_r (map_r f (Suc i) xs) (\<lambda>ys. Inr (y # ys)))"

lemma map_r_cong [fundef_cong]:
  "i = j \<Longrightarrow> xs = ys \<Longrightarrow> (\<And>k x. x \<in> set ys \<Longrightarrow> f k x = g k x) \<Longrightarrow> map_r f i xs = map_r g j ys"
  by (induction xs arbitrary: ys i j) auto

lemma map_r_map_Inr:
  "(\<And>k x. x \<in> set xs \<Longrightarrow> f k (g x) = Inr (h x)) \<Longrightarrow> map_r f i (map g xs) = Inr (map h xs)"
  by (induction xs arbitrary: i) auto

lemma map_r_map_id:
  "(\<And>k x. x \<in> set xs \<Longrightarrow> f k (g x) = Inr x) \<Longrightarrow> map_r f i (map g xs) = Inr xs"
  using map_r_map_Inr [of xs f g "\<lambda>x. x"] by simp

lemma map_r_InrD:
  "map_r f i xs = Inr ys \<Longrightarrow>
     length ys = length xs \<and> (\<forall>k < length xs. f (i + k) (xs ! k) = Inr (ys ! k))"
proof (induction xs arbitrary: i ys)
  case Nil
  then show ?case by simp
next
  case (Cons x xs)
  then obtain y zs where y: "f i x = Inr y" and zs: "map_r f (Suc i) xs = Inr zs"
    and ys: "ys = y # zs"
    by (auto simp: result_simps)
  from Cons.IH [OF zs] y ys show ?case
    by (auto simp: nth_Cons split: nat.splits)
qed

lemma map_r_set:
  assumes "map_r f i xs = Inr ys" and "y \<in> set ys"
  shows "\<exists>k x. x \<in> set xs \<and> f k x = Inr y"
proof -
  from assms(2) obtain n where n: "n < length ys" "y = ys ! n"
    by (auto simp: in_set_conv_nth)
  with map_r_InrD [OF assms(1)] show ?thesis
    by (metis nth_mem)
qed

lemma map_r_Inr_Nil_iff [simp]: "map_r f i xs = Inr [] \<longleftrightarrow> xs = []"
  by (cases xs) (auto simp: result_simps)

section \<open>Insertion-ordered maps\<close>

text \<open>
  A JavaScript \<open>Map\<close> (and an object used as a record of data) iterates in insertion order, and
  \<open>set\<close> on a present key keeps the key's place.  The model is an association list with
  distinct keys: \<^const>\<open>map_of\<close> reads, \<^const>\<open>AList.update\<close> writes.
\<close>

type_synonym ('k, 'v) jmap = "('k \<times> 'v) list"

abbreviation jget :: "('k, 'v) jmap \<Rightarrow> 'k \<Rightarrow> 'v option" where
  "jget m k \<equiv> map_of m k"

abbreviation jset :: "'k \<Rightarrow> 'v \<Rightarrow> ('k, 'v) jmap \<Rightarrow> ('k, 'v) jmap" where
  "jset \<equiv> AList.update"

definition jkeys_ok :: "('k, 'v) jmap \<Rightarrow> bool" where
  "jkeys_ok m \<longleftrightarrow> distinct (map fst m)"

text \<open>\<open>Object.fromEntries(entries)\<close>: entries defined one after the other.\<close>

definition from_entries :: "('k \<times> 'v) list \<Rightarrow> ('k, 'v) jmap" where
  "from_entries es = fold (\<lambda>(k, v) m. jset k v m) es []"

text \<open>
  What the program relies on from its maps: a read after a write, keys kept distinct, a fresh
  key appended, and an overwrite in place.
\<close>

locale ordered_map =
  fixes get :: "'m \<Rightarrow> 'k \<Rightarrow> 'v option"
    and set :: "'k \<Rightarrow> 'v \<Rightarrow> 'm \<Rightarrow> 'm"
    and entries :: "'m \<Rightarrow> ('k \<times> 'v) list"
    and ok :: "'m \<Rightarrow> bool"
  assumes get_set: "get (set k v m) k' = (if k' = k then Some v else get m k')"
    and ok_set: "ok m \<Longrightarrow> ok (set k v m)"
    and entries_fresh: "get m k = None \<Longrightarrow> entries (set k v m) = entries m @ [(k, v)]"
    and entries_known: "get m k \<noteq> None \<Longrightarrow> map fst (entries (set k v m)) = map fst (entries m)"
    and get_entries: "ok m \<Longrightarrow> get m k = Some v \<longleftrightarrow> (k, v) \<in> List.set (entries m)"
begin

lemma get_same [simp]: "get (set k v m) k = Some v"
  by (simp add: get_set)

lemma get_other: "k' \<noteq> k \<Longrightarrow> get (set k v m) k' = get m k'"
  by (simp add: get_set)

lemma entries_set_iff:
  assumes "ok m"
  shows "(k', v') \<in> List.set (entries (set k v m)) \<longleftrightarrow>
    (if k' = k then v' = v else (k', v') \<in> List.set (entries m))"
proof -
  have "(k', v') \<in> List.set (entries (set k v m)) \<longleftrightarrow> get (set k v m) k' = Some v'"
    using get_entries [OF ok_set [OF assms], of k v k' v'] by simp
  also have "\<dots> \<longleftrightarrow> (if k' = k then v' = v else (k', v') \<in> List.set (entries m))"
    by (auto simp: get_set get_entries [OF assms])
  finally show ?thesis .
qed

lemma size_fresh: "get m k = None \<Longrightarrow> length (entries (set k v m)) = Suc (length (entries m))"
  by (simp add: entries_fresh)

lemma size_known: "get m k \<noteq> None \<Longrightarrow> length (entries (set k v m)) = length (entries m)"
  by (metis entries_known length_map)

end

lemma update_fresh: "map_of m k = None \<Longrightarrow> AList.update k v m = m @ [(k, v)]"
  by (induction m) (auto split: if_splits)

lemma update_known_keys:
  "map_of m k \<noteq> None \<Longrightarrow> map fst (AList.update k v m) = map fst m"
  by (induction m) (auto split: if_splits)

interpretation jmap: ordered_map map_of AList.update "\<lambda>m. m" jkeys_ok
  by unfold_locales
    (auto simp: update_conv' jkeys_ok_def distinct_update update_fresh update_known_keys
      split: if_splits)

lemmas jmap_get_set [jmap_simps] = jmap.get_set
lemmas jmap_ok_set [jmap_simps] = jmap.ok_set

lemma jkeys_ok_Nil [simp]: "jkeys_ok []"
  by (simp add: jkeys_ok_def)

lemma fold_set_append:
  "distinct (map fst (m @ es)) \<Longrightarrow> fold (\<lambda>(k, v) m. jset k v m) es m = m @ es"
proof (induction es arbitrary: m)
  case Nil
  then show ?case by simp
next
  case (Cons e es)
  obtain k v where e: "e = (k, v)" by (cases e)
  from Cons.prems e have "map_of m k = None"
    by (auto simp: map_of_eq_None_iff)
  with e Cons.IH [of "m @ [(k, v)]"] Cons.prems show ?case
    by (simp add: update_fresh)
qed

lemma from_entries_id: "jkeys_ok es \<Longrightarrow> from_entries es = es"
  using fold_set_append [of "[]" es] by (simp add: from_entries_def jkeys_ok_def)

lemma jkeys_ok_fold: "jkeys_ok m \<Longrightarrow> jkeys_ok (fold (\<lambda>(k, v) m. jset k v m) es m)"
  by (induction es arbitrary: m) (auto simp: jmap_simps split: prod.splits)

lemma jkeys_ok_from_entries [simp]: "jkeys_ok (from_entries es)"
  by (simp add: from_entries_def jkeys_ok_fold)

end
