(* ===== verification/Json.thy ===== *)
theory Json
  imports Prelude
begin

text \<open>
  JSON values as \<open>JSON.parse\<close> returns them, and the two text forms the program derives from
  them: \<open>JSON.stringify\<close> and the validator's \<open>canonical\<close>
  (\<open>src/ts/packages/validator/src/validator.ts\<close>), which is an iterative walk with an explicit
  stack.
\<close>

section \<open>Values\<close>

text \<open>
  A number is a whole number of the safe range, or any other double; the program asks of the
  latter only that it is not a safe integer, so it is kept as the text \<open>JSON.stringify\<close> prints.
  An object is the list of its own properties in property order.
\<close>

datatype jnumber = Whole int | Other jstring

datatype json =
    JNull
  | JBool bool
  | JNum jnumber
  | JStr jstring
  | JArr "json list"
  | JObj "(jstring \<times> json) list"

type_synonym obj = "(jstring \<times> json) list"

definition MAX_SAFE_INTEGER :: int where
  "MAX_SAFE_INTEGER = 2 ^ 53 - 1"

definition is_safe_int :: "int \<Rightarrow> bool" where
  "is_safe_int i \<longleftrightarrow> - MAX_SAFE_INTEGER \<le> i \<and> i \<le> MAX_SAFE_INTEGER"

text \<open>\<open>Number.isSafeInteger(v)\<close>, returning the number it accepts.\<close>

fun safe_integer :: "json \<Rightarrow> int option" where
  "safe_integer (JNum (Whole i)) = (if is_safe_int i then Some i else None)"
| "safe_integer _ = None"

lemma safe_integer_Some_iff: "safe_integer v = Some i \<longleftrightarrow> v = JNum (Whole i) \<and> is_safe_int i"
  by (cases v rule: safe_integer.cases) auto

text \<open>
  What every parsed value satisfies: no object has a key twice, whole numbers are safe.
\<close>

fun wf_json :: "json \<Rightarrow> bool" where
  "wf_json (JArr vs) = list_all wf_json vs"
| "wf_json (JObj ps) = (jkeys_ok ps \<and> list_all (\<lambda>p. wf_json (snd p)) ps)"
| "wf_json (JNum (Whole i)) = is_safe_int i"
| "wf_json _ = True"

lemma wf_json_lookup: "wf_json (JObj ps) \<Longrightarrow> map_of ps k = Some v \<Longrightarrow> wf_json v"
  by (metis list_all_iff map_of_SomeD snd_conv wf_json.simps(2))

section \<open>Text of a value\<close>

text \<open>
  The escapes of a string in \<open>JSON.stringify\<close>: the two characters that need a backslash, the
  short forms of five control characters, \<open>\u\<close> with four hexadecimal digits for the other
  control characters and for a surrogate without its partner.
\<close>

definition hex_digit :: "nat \<Rightarrow> 16 word" where
  "hex_digit n = (if n < 10 then 0x30 + of_nat n else 0x57 + of_nat n)"

definition unicode_escape :: "16 word \<Rightarrow> jstring" where
  "unicode_escape c =
     (let n = unat c in
      [0x5C, 0x75, hex_digit (n div 4096), hex_digit (n div 256 mod 16),
       hex_digit (n div 16 mod 16), hex_digit (n mod 16)])"

definition escape_unit :: "16 word \<Rightarrow> jstring" where
  "escape_unit c =
     (if c = 0x22 then [0x5C, 0x22] else if c = 0x5C then [0x5C, 0x5C]
      else if c = 0x08 then [0x5C, 0x62] else if c = 0x0C then [0x5C, 0x66]
      else if c = 0x0A then [0x5C, 0x6E] else if c = 0x0D then [0x5C, 0x72]
      else if c = 0x09 then [0x5C, 0x74]
      else if c < 0x20 \<or> is_high_surrogate c \<or> is_low_surrogate c then unicode_escape c
      else [c])"

fun escape_string :: "jstring \<Rightarrow> jstring" where
  "escape_string [] = []"
| "escape_string [c] = escape_unit c"
| "escape_string (c # d # s) =
     (if is_high_surrogate c \<and> is_low_surrogate d then c # d # escape_string s
      else escape_unit c @ escape_string (d # s))"

definition quote_string :: "jstring \<Rightarrow> jstring" where
  "quote_string s = js ''\"'' @ escape_string s @ js ''\"''"

fun show_number :: "jnumber \<Rightarrow> jstring" where
  "show_number (Whole i) = show_int i"
| "show_number (Other t) = t"

text \<open>\<open>xs.join(',')\<close>.\<close>

fun join_comma :: "jstring list \<Rightarrow> jstring" where
  "join_comma [] = []"
| "join_comma [x] = x"
| "join_comma (x # xs) = x @ js '','' @ join_comma xs"

fun stringify :: "json \<Rightarrow> jstring" where
  "stringify JNull = js ''null''"
| "stringify (JBool b) = (if b then js ''true'' else js ''false'')"
| "stringify (JNum n) = show_number n"
| "stringify (JStr s) = quote_string s"
| "stringify (JArr vs) = js ''['' @ join_comma (map stringify vs) @ js '']''"
| "stringify (JObj ps) =
     js ''{'' @ join_comma (map (\<lambda>p. quote_string (fst p) @ js '':'' @ stringify (snd p)) ps) @ js ''}''"

end
