(* ===== verification/Canonical.thy ===== *)
theory Canonical
  imports Json
begin

text \<open>
  The validator's \<open>canonical\<close> (\<open>src/ts/packages/validator/src/validator.ts\<close>): the text two
  events are compared by.  The source walks the value with an explicit stack of frames; the
  model keeps the frames, the loop and the output pieces, proves that the loop ends, and that
  its text is the plain recursive text of the value with every object's keys sorted.
\<close>

section \<open>The iterative walk\<close>

datatype frame =
    ArrayFrame "json list" nat
  | ObjectFrame obj "jstring list" nat

type_synonym walk = "jstring list \<times> frame list"

fun canonical_open :: "json \<Rightarrow> walk \<Rightarrow> walk" where
  "canonical_open (JArr vs) (out, stack) = (out @ [js ''[''], ArrayFrame vs 0 # stack)"
| "canonical_open (JObj ps) (out, stack) =
     (out @ [js ''{''], ObjectFrame ps (sort (map fst ps)) 0 # stack)"
| "canonical_open v (out, stack) = (out @ [stringify v], stack)"

text \<open>
  One turn of the loop on the top frame.  A key without a property would print nothing; the
  keys of a frame are the keys of its own object, so this does not happen.
\<close>

fun canonical_turn :: "frame \<Rightarrow> walk \<Rightarrow> walk" where
  "canonical_turn (ArrayFrame vs i) (out, stack) =
     (if i < length vs
      then canonical_open (vs ! i)
             (if 0 < i then out @ [js '',''] else out, ArrayFrame vs (Suc i) # stack)
      else (out @ [js '']''], stack))"
| "canonical_turn (ObjectFrame ps ks i) (out, stack) =
     (if i < length ks
      then let k = ks ! i;
               w = ((if 0 < i then out @ [js '',''] else out) @ [quote_string k @ js '':''],
                    ObjectFrame ps ks (Suc i) # stack)
           in case map_of ps k of None \<Rightarrow> w | Some v \<Rightarrow> canonical_open v w
      else (out @ [js ''}''], stack))"

text \<open>
  An upper bound on the turns a value, a frame and a stack still need; it falls with every
  turn, so the loop ends.
\<close>

fun turns :: "json \<Rightarrow> nat" where
  "turns (JArr vs) = Suc (length vs + sum_list (map turns vs))"
| "turns (JObj ps) = Suc (length ps + length ps * sum_list (map (\<lambda>p. turns (snd p)) ps))"
| "turns _ = 0"

fun key_turns :: "obj \<Rightarrow> jstring \<Rightarrow> nat" where
  "key_turns ps k = (case map_of ps k of None \<Rightarrow> 0 | Some v \<Rightarrow> turns v)"

fun frame_turns :: "frame \<Rightarrow> nat" where
  "frame_turns (ArrayFrame vs i) = Suc (sum_list (map (\<lambda>v. Suc (turns v)) (drop i vs)))"
| "frame_turns (ObjectFrame ps ks i) = Suc (sum_list (map (\<lambda>k. Suc (key_turns ps k)) (drop i ks)))"

definition stack_turns :: "frame list \<Rightarrow> nat" where
  "stack_turns stack = sum_list (map frame_turns stack)"

lemma key_turns_le: "key_turns ps k \<le> sum_list (map (\<lambda>p. turns (snd p)) ps)"
  by (induction ps) (auto split: option.splits)

lemma sum_list_Suc_map: "sum_list (map (\<lambda>x. Suc (f x)) xs) = length xs + sum_list (map f xs)"
  by (induction xs) auto

lemma sum_list_le_times: "(\<And>x. x \<in> set xs \<Longrightarrow> f x \<le> b) \<Longrightarrow> sum_list (map f xs) \<le> length xs * (b::nat)"
  by (induction xs) (auto intro: add_mono)

lemma stack_turns_open: "stack_turns (snd (canonical_open v (out, stack))) \<le> turns v + stack_turns stack"
proof (cases v)
  case (JObj ps)
  have "sum_list (map (key_turns ps) (sort (map fst ps)))
      \<le> length ps * sum_list (map (\<lambda>p. turns (snd p)) ps)"
    using sum_list_le_times [of "sort (map fst ps)" "key_turns ps"] key_turns_le
    by fastforce
  with JObj show ?thesis
    by (simp add: stack_turns_def sum_list_Suc_map del: key_turns.simps)
qed (simp_all add: stack_turns_def sum_list_Suc_map)

lemma stack_turns_turn:
  "stack_turns (snd (canonical_turn f (out, stack))) < frame_turns f + stack_turns stack"
proof (cases f)
  case (ArrayFrame vs i)
  show ?thesis
  proof (cases "i < length vs")
    case True
    then have "drop i vs = vs ! i # drop (Suc i) vs"
      by (rule Cons_nth_drop_Suc [symmetric])
    with True ArrayFrame
      stack_turns_open [of "vs ! i" "if 0 < i then out @ [js '','']else out" "ArrayFrame vs (Suc i) # stack"]
    show ?thesis by (simp add: stack_turns_def)
  qed (simp add: ArrayFrame stack_turns_def)
next
  case (ObjectFrame ps ks i)
  show ?thesis
  proof (cases "i < length ks")
    case True
    let ?out = "(if 0 < i then out @ [js '',''] else out) @ [quote_string (ks ! i) @ js '':'']"
    from True have drop: "drop i ks = ks ! i # drop (Suc i) ks"
      by (rule Cons_nth_drop_Suc [symmetric])
    have "stack_turns (snd (canonical_open v (?out, ObjectFrame ps ks (Suc i) # stack)))
        \<le> turns v + stack_turns (ObjectFrame ps ks (Suc i) # stack)" for v
      by (rule stack_turns_open)
    from this [of "the (map_of ps (ks ! i))"] show ?thesis
      using True drop ObjectFrame
      by (cases "map_of ps (ks ! i)") (simp_all add: stack_turns_def Let_def)
  qed (simp add: ObjectFrame stack_turns_def)
qed

function canonical_loop :: "walk \<Rightarrow> jstring list" where
  "canonical_loop (out, []) = out"
| "canonical_loop (out, f # stack) = canonical_loop (canonical_turn f (out, stack))"
  by pat_completeness auto
termination
  by (relation "measure (\<lambda>w. stack_turns (snd w))")
    (auto simp: stack_turns_def dest: intro: stack_turns_turn [unfolded stack_turns_def])

definition canonical :: "json \<Rightarrow> jstring" where
  "canonical root = concat (canonical_loop (canonical_open root ([], [])))"

section \<open>The text it computes\<close>

fun sort_keys :: "json \<Rightarrow> json" where
  "sort_keys (JArr vs) = JArr (map sort_keys vs)"
| "sort_keys (JObj ps) = JObj (sort_key fst (map (\<lambda>p. (fst p, sort_keys (snd p))) ps))"
| "sort_keys v = v"

lemma sort_key_fst_keys:
  assumes "distinct (map fst ps)"
  shows "sort_key fst (map (\<lambda>p. (fst p, g (snd p))) ps) =
    map (\<lambda>k. (k, g (the (map_of ps k)))) (sort (map fst ps))" (is "?l = ?r")
proof (rule map_sorted_distinct_set_unique [where f = fst])
  show "inj_on fst (set ?l \<union> set ?r)"
    using assms by (auto simp: inj_on_def map_of_eq_Some_iff) (metis map_of_eq_Some_iff option.sel)+
  show "sorted (map fst ?l)" by simp
  show "distinct (map fst ?l)"
    using assms by (simp add: comp_def)
  show "sorted (map fst ?r)" by (simp add: comp_def)
  show "distinct (map fst ?r)" using assms by (simp add: comp_def)
  show "set ?l = set ?r"
    using assms by (auto simp: image_iff)
qed

text \<open>What a frame still has to print.\<close>

fun separated :: "bool \<Rightarrow> jstring list \<Rightarrow> jstring" where
  "separated first [] = []"
| "separated first (x # xs) = (if first then x else js '','' @ x) @ separated False xs"

lemma separated_join: "separated True xs = join_comma xs"
  and separated_False_join: "separated False (x # xs) = js '','' @ join_comma (x # xs)"
proof -
  have F: "separated False xs = concat (map (\<lambda>x. js '','' @ x) xs)" for xs
    by (induction xs) auto
  have J: "join_comma (x # xs) = x @ concat (map (\<lambda>x. js '','' @ x) xs)" for x xs
    by (induction xs arbitrary: x) auto
  show "separated True xs = join_comma xs"
    by (cases xs) (simp_all add: F J)
  show "separated False (x # xs) = js '','' @ join_comma (x # xs)"
    by (simp add: F J)
qed

lemma separated_drop:
  assumes "i < length xs"
  shows "separated (i = 0) (map g (drop i xs)) =
    (if 0 < i then js '','' else []) @ g (xs ! i) @ separated False (map g (drop (Suc i) xs))"
proof -
  from assms have "drop i xs = xs ! i # drop (Suc i) xs"
    by (rule Cons_nth_drop_Suc [symmetric])
  then show ?thesis by (simp only: list.map separated.simps) simp
qed

definition property_text :: "obj \<Rightarrow> jstring \<Rightarrow> jstring" where
  "property_text ps k = quote_string k @ js '':'' @ stringify (sort_keys (the (map_of ps k)))"

fun frame_text :: "frame \<Rightarrow> jstring" where
  "frame_text (ArrayFrame vs i) =
     separated (i = 0) (map (\<lambda>v. stringify (sort_keys v)) (drop i vs)) @ js '']''"
| "frame_text (ObjectFrame ps ks i) =
     separated (i = 0) (map (property_text ps) (drop i ks)) @ js ''}''"

definition walk_text :: "walk \<Rightarrow> jstring" where
  "walk_text w = concat (fst w) @ concat (map frame_text (snd w))"

fun frame_ok :: "frame \<Rightarrow> bool" where
  "frame_ok (ArrayFrame vs i) = list_all wf_json vs"
| "frame_ok (ObjectFrame ps ks i) = (wf_json (JObj ps) \<and> set ks \<subseteq> set (map fst ps))"

lemma stringify_sort_keys_obj:
  "wf_json (JObj ps) \<Longrightarrow>
   stringify (sort_keys (JObj ps)) =
     js ''{'' @ join_comma (map (property_text ps) (sort (map fst ps))) @ js ''}''"
  by (simp add: sort_key_fst_keys jkeys_ok_def property_text_def [abs_def] comp_def)

lemma walk_text_open:
  "wf_json v \<Longrightarrow> walk_text (canonical_open v (out, stack)) =
     concat out @ stringify (sort_keys v) @ concat (map frame_text stack)"
  by (cases v)
    (simp_all add: walk_text_def separated_join stringify_sort_keys_obj comp_def
      del: sort_keys.simps(2))

lemma open_ok:
  "wf_json v \<Longrightarrow> list_all frame_ok stack \<Longrightarrow> list_all frame_ok (snd (canonical_open v (out, stack)))"
  by (cases v) auto

lemma turn_ok:
  assumes "list_all frame_ok (f # stack)"
  shows "list_all frame_ok (snd (canonical_turn f (out, stack)))"
proof (cases f)
  case (ArrayFrame vs i)
  have "list_all frame_ok (snd (canonical_open (vs ! i) (o', ArrayFrame vs (Suc i) # stack)))"
    if "i < length vs" for o'
    using that assms ArrayFrame by (intro open_ok) (simp_all add: list_all_iff)
  with assms ArrayFrame show ?thesis by simp
next
  case (ObjectFrame ps ks i)
  have "list_all frame_ok (snd (canonical_open v (o', ObjectFrame ps ks (Suc i) # stack)))"
    if "map_of ps k = Some v" for o' k v
    using that assms ObjectFrame by (intro open_ok) (auto intro: wf_json_lookup [of ps k])
  with assms ObjectFrame show ?thesis by (auto simp: Let_def split: option.splits)
qed

lemma walk_text_turn:
  assumes "list_all frame_ok (f # stack)"
  shows "walk_text (canonical_turn f (out, stack)) = walk_text (out, f # stack)"
proof (cases f)
  case (ArrayFrame vs i)
  show ?thesis
  proof (cases "i < length vs")
    case True
    with ArrayFrame assms have "wf_json (vs ! i)"
      by (simp add: list_all_iff)
    then show ?thesis
      using True ArrayFrame separated_drop [OF True, of "\<lambda>v. stringify (sort_keys v)"]
      by (cases "i = 0") (simp_all add: walk_text_open, simp_all add: walk_text_def)
  qed (simp add: ArrayFrame walk_text_def)
next
  case (ObjectFrame ps ks i)
  show ?thesis
  proof (cases "i < length ks")
    case True
    with ObjectFrame assms have "ks ! i \<in> fst ` set ps"
      by (auto dest: nth_mem)
    then obtain v where v: "map_of ps (ks ! i) = Some v"
      by (metis map_of_eq_None_iff not_None_eq)
    with ObjectFrame assms have "wf_json v"
      by (auto intro: wf_json_lookup [of ps "ks ! i"])
    then show ?thesis
      using True v ObjectFrame separated_drop [OF True, of "property_text ps"]
      by (cases "i = 0")
        (simp_all add: Let_def walk_text_open, simp_all add: walk_text_def property_text_def)
  qed (simp add: ObjectFrame walk_text_def)
qed

lemma canonical_loop_text:
  "list_all frame_ok (snd w) \<Longrightarrow> concat (canonical_loop w) = walk_text w"
proof (induction w rule: canonical_loop.induct)
  case (1 out)
  then show ?case by (simp add: walk_text_def)
next
  case (2 out f stack)
  from "2.prems" have "concat (canonical_loop (canonical_turn f (out, stack))) =
      walk_text (canonical_turn f (out, stack))"
    by (intro "2.IH" turn_ok) simp
  with "2.prems" show ?case by (simp add: walk_text_turn)
qed

lemma canonical_eq_stringify: "wf_json v \<Longrightarrow> canonical v = stringify (sort_keys v)"
  by (simp add: canonical_def canonical_loop_text open_ok walk_text_open)

section \<open>Property order does not matter\<close>

text \<open>Two values that differ only in the order of the properties of their objects.\<close>

inductive reordered :: "json \<Rightarrow> json \<Rightarrow> bool" where
  same: "reordered v v"
| array: "list_all2 reordered vs ws \<Longrightarrow> reordered (JArr vs) (JArr ws)"
| object: "list_all2 (\<lambda>p q. fst p = fst q \<and> reordered (snd p) (snd q)) ps qs \<Longrightarrow> mset qs = mset rs \<Longrightarrow>
    reordered (JObj ps) (JObj rs)"

inductive_simps reordered_array_iff: "reordered (JArr vs) w"
inductive_simps reordered_object_iff: "reordered (JObj ps) w"

lemma list_all2_keys:
  "list_all2 (\<lambda>p q. fst p = fst q \<and> R (snd p) (snd q)) ps qs \<Longrightarrow> map fst ps = map fst qs"
  by (induction rule: list_all2_induct) auto

lemma list_all2_sorted_values:
  assumes "list_all2 (\<lambda>p q. fst p = fst q \<and> (wf_json (snd p) \<longrightarrow> f (snd p) = f (snd q))) ps qs"
    and "list_all (\<lambda>p. wf_json (snd p)) ps"
  shows "map (\<lambda>p. (fst p, f (snd p))) ps = map (\<lambda>p. (fst p, f (snd p))) qs"
  using assms by (induction rule: list_all2_induct) auto

lemma list_all2_array_values:
  assumes "list_all2 (\<lambda>v w. wf_json v \<longrightarrow> f v = f w) vs ws" and "list_all wf_json vs"
  shows "map f vs = map f ws"
  using assms by (induction rule: list_all2_induct) auto

lemma reordered_sort_keys: "reordered v w \<Longrightarrow> wf_json v \<Longrightarrow> sort_keys v = sort_keys w"
proof (induction rule: reordered.induct)
  case (array vs ws)
  then have "list_all2 (\<lambda>v w. wf_json v \<longrightarrow> sort_keys v = sort_keys w) vs ws"
    by (auto elim: list_all2_mono)
  from list_all2_array_values [OF this] array.prems show ?case by simp
next
  case (object ps qs rs)
  let ?g = "\<lambda>p. (fst p, sort_keys (snd p))"
  have "list_all2 (\<lambda>p q. fst p = fst q \<and> (wf_json (snd p) \<longrightarrow> sort_keys (snd p) = sort_keys (snd q))) ps qs"
    using object.IH by (auto elim: list_all2_mono)
  from list_all2_sorted_values [OF this] object.prems have eq: "map ?g ps = map ?g qs" by simp
  have "mset (map ?g qs) = mset (map ?g rs)"
    using object.hyps by simp
  moreover have "distinct (map fst (map ?g qs))"
    using object.prems by (simp add: eq [symmetric] jkeys_ok_def comp_def)
  ultimately have "sort_key fst (map ?g qs) = sort_key fst (map ?g rs)"
    by (rule sort_key_unique)
  then show ?case by (simp add: eq)
qed simp

lemma reordered_wf: "reordered v w \<Longrightarrow> wf_json v \<Longrightarrow> wf_json w"
proof (induction rule: reordered.induct)
  case (array vs ws)
  have "list_all wf_json ws" if "list_all wf_json vs"
    using array.IH that by (induction rule: list_all2_induct) auto
  with array.prems show ?case by simp
next
  case (object ps qs rs)
  have "list_all (\<lambda>p. wf_json (snd p)) qs" if "list_all (\<lambda>p. wf_json (snd p)) ps"
    using object.IH that by (induction rule: list_all2_induct) auto
  moreover have "map fst ps = map fst qs"
    using object.IH by (induction rule: list_all2_induct) auto
  moreover have "set qs = set rs" "distinct (map fst qs) = distinct (map fst rs)"
    using object.hyps mset_eq_setD by (blast, metis mset_map mset_eq_imp_distinct_iff)
  ultimately show ?case
    using object.prems by (simp add: jkeys_ok_def list_all_iff)
qed simp

text \<open>
  C6. The canonical text of a parsed value, computed by the validator's iterative walk with its
  explicit stack, is \<open>JSON.stringify\<close> of the value with the keys of every object sorted.
\<close>

theorem canonical_is_sorted_text:
  assumes "wf_json v"
  shows "canonical v = stringify (sort_keys v)"
  using assms by (rule canonical_eq_stringify)

definition sample_value :: json where
  "sample_value = JObj [(js ''b'', JArr [JNull, JBool True]), (js ''a'', JObj [(js ''z'', JNum (Whole 1)), (js ''y'', JStr (js ''q''))])]"

definition sample_reordered :: json where
  "sample_reordered = JObj [(js ''a'', JObj [(js ''y'', JStr (js ''q'')), (js ''z'', JNum (Whole 1))]), (js ''b'', JArr [JNull, JBool True])]"

lemma sample_value_wf: "wf_json sample_value"
  by (simp add: sample_value_def jkeys_ok_def is_safe_int_def MAX_SAFE_INTEGER_def)

theorem canonical_is_sorted_text_witness:
  "wf_json sample_value \<and> canonical sample_value = stringify (sort_keys sample_value)"
  using canonical_is_sorted_text [OF sample_value_wf] sample_value_wf by simp

text \<open>
  The order in which a producer writes the properties of an object, at any depth, does not
  change the canonical text: a repeated event is recognised however its properties are ordered.
\<close>

theorem canonical_ignores_property_order:
  assumes "wf_json v" and "reordered v w"
  shows "canonical v = canonical w"
  using assms reordered_sort_keys reordered_wf by (simp add: canonical_eq_stringify)

lemma sample_reordered: "reordered sample_value sample_reordered"
  unfolding sample_value_def sample_reordered_def
  by (rule reordered.object [where qs = "[(js ''b'', JArr [JNull, JBool True]),
      (js ''a'', JObj [(js ''y'', JStr (js ''q'')), (js ''z'', JNum (Whole 1))])]"])
    (auto intro!: reordered.same reordered.object [where qs = "[(js ''z'', JNum (Whole 1)), (js ''y'', JStr (js ''q''))]"])

theorem canonical_ignores_property_order_witness:
  "wf_json sample_value \<and> reordered sample_value sample_reordered \<and>
   canonical sample_value = canonical sample_reordered"
  using canonical_ignores_property_order [OF sample_value_wf sample_reordered] sample_value_wf
    sample_reordered by simp

end
