(* ===== verification/Protocol_Model.thy ===== *)
theory Protocol_Model
  imports Json
begin

text \<open>
  The protocol's data model and versions: \<open>src/ts/packages/protocol/src/model.ts\<close>,
  \<open>version.ts\<close> and \<open>errors.ts\<close>.  Optional properties are \<^typ>\<open>'a option\<close>; an absent and an
  \<open>undefined\<close> property are the same to this code.
\<close>

section \<open>Enumerations\<close>

datatype status = Passed | Failed | Skipped | Inconclusive

datatype session_status = SessionPassed | SessionFailed | SessionInconclusive

datatype expected_status = ExpectPassed | ExpectFailed | ExpectSkipped

datatype stability = Stable | Uncertain | Unavailable

datatype failure_phase = Setup | Test | Teardown

definition STATUSES :: "(jstring \<times> status) list" where
  "STATUSES = [(js ''passed'', Passed), (js ''failed'', Failed), (js ''skipped'', Skipped),
     (js ''inconclusive'', Inconclusive)]"

definition SESSION_STATUSES :: "(jstring \<times> session_status) list" where
  "SESSION_STATUSES = [(js ''passed'', SessionPassed), (js ''failed'', SessionFailed),
     (js ''inconclusive'', SessionInconclusive)]"

definition EXPECTED_STATUSES :: "(jstring \<times> expected_status) list" where
  "EXPECTED_STATUSES = [(js ''passed'', ExpectPassed), (js ''failed'', ExpectFailed),
     (js ''skipped'', ExpectSkipped)]"

definition HISTORICAL_ID_STABILITIES :: "(jstring \<times> stability) list" where
  "HISTORICAL_ID_STABILITIES = [(js ''stable'', Stable), (js ''uncertain'', Uncertain),
     (js ''unavailable'', Unavailable)]"

definition FAILURE_PHASES :: "(jstring \<times> failure_phase) list" where
  "FAILURE_PHASES = [(js ''setup'', Setup), (js ''test'', Test), (js ''teardown'', Teardown)]"

text \<open>The word an enumeration value is in the source.\<close>

fun status_word :: "status \<Rightarrow> jstring" where
  "status_word Passed = js ''passed''"
| "status_word Failed = js ''failed''"
| "status_word Skipped = js ''skipped''"
| "status_word Inconclusive = js ''inconclusive''"

fun session_status_word :: "session_status \<Rightarrow> jstring" where
  "session_status_word SessionPassed = js ''passed''"
| "session_status_word SessionFailed = js ''failed''"
| "session_status_word SessionInconclusive = js ''inconclusive''"

fun expected_word :: "expected_status \<Rightarrow> jstring" where
  "expected_word ExpectPassed = js ''passed''"
| "expected_word ExpectFailed = js ''failed''"
| "expected_word ExpectSkipped = js ''skipped''"

fun stability_word :: "stability \<Rightarrow> jstring" where
  "stability_word Stable = js ''stable''"
| "stability_word Uncertain = js ''uncertain''"
| "stability_word Unavailable = js ''unavailable''"

fun phase_word :: "failure_phase \<Rightarrow> jstring" where
  "phase_word Setup = js ''setup''"
| "phase_word Test = js ''test''"
| "phase_word Teardown = js ''teardown''"

lemma status_word_read [simp]: "map_of STATUSES (status_word s) = Some s"
  by (cases s) (simp_all add: STATUSES_def)

lemma session_status_word_read [simp]:
  "map_of SESSION_STATUSES (session_status_word s) = Some s"
  by (cases s) (simp_all add: SESSION_STATUSES_def)

lemma expected_word_read [simp]: "map_of EXPECTED_STATUSES (expected_word s) = Some s"
  by (cases s) (simp_all add: EXPECTED_STATUSES_def)

lemma stability_word_read [simp]: "map_of HISTORICAL_ID_STABILITIES (stability_word s) = Some s"
  by (cases s) (simp_all add: HISTORICAL_ID_STABILITIES_def)

lemma phase_word_read [simp]: "map_of FAILURE_PHASES (phase_word s) = Some s"
  by (cases s) (simp_all add: FAILURE_PHASES_def)

section \<open>Values of a payload\<close>

type_synonym string_map = "(jstring, jstring) jmap"

record component =
  comp_name :: jstring
  comp_version :: "jstring option"

record executor_info =
  exec_name :: "jstring option"
  exec_buildId :: "jstring option"
  exec_buildUrl :: "jstring option"

record source_info =
  src_repository :: "jstring option"
  src_revision :: "jstring option"
  src_branch :: "jstring option"

record location =
  loc_file :: jstring
  loc_line :: "int option"
  loc_column :: "int option"

record path_segment =
  seg_kind :: jstring
  seg_name :: jstring

record failure =
  fail_message :: jstring
  fail_type :: "jstring option"
  fail_stackTrace :: "jstring option"
  fail_phase :: "failure_phase option"
  fail_location :: "location option"

record test_case =
  executionId :: jstring
  historicalId :: "jstring option"
  historicalIdStability :: stability
  tc_displayName :: jstring
  tc_path :: "path_segment list"
  tc_location :: "location option"
  tc_tags :: "jstring list option"
  tc_labels :: "string_map option"

record session_started_payload =
  ss_producer :: component
  ss_runner :: "component option"
  ss_environment :: "string_map option"
  ss_executor :: "executor_info option"
  ss_source :: "source_info option"
  ss_labels :: "string_map option"

record session_finished_payload =
  sf_status :: "session_status option"
  sf_rawStatus :: "jstring option"
  sf_failures :: "failure list option"

record attempt_started_payload =
  as_attemptId :: jstring
  as_attemptNumber :: int
  as_test :: test_case

record attempt_finished_payload =
  af_attemptId :: jstring
  af_status :: status
  af_rawStatus :: "jstring option"
  af_expectedStatus :: "expected_status option"
  af_durationMs :: "int option"
  af_failures :: "failure list option"

record step_started_payload =
  st_stepId :: jstring
  st_attemptId :: jstring
  st_parentStepId :: "jstring option"
  st_name :: jstring
  st_kind :: "jstring option"
  st_location :: "location option"

record step_finished_payload =
  sp_stepId :: jstring
  sp_attemptId :: jstring
  sp_status :: status
  sp_rawStatus :: "jstring option"
  sp_durationMs :: "int option"
  sp_failures :: "failure list option"

record attachment_added_payload =
  aa_attemptId :: jstring
  aa_stepId :: "jstring option"
  aa_name :: jstring
  aa_mediaType :: jstring
  aa_sizeBytes :: int
  aa_sha256 :: jstring

record scope_failed_payload =
  sc_path :: "path_segment list"
  sc_displayName :: "jstring option"
  sc_rawStatus :: "jstring option"
  sc_location :: "location option"
  sc_failures :: "failure list"

section \<open>Events\<close>

text \<open>
  The union \<open>Event | UnknownEvent\<close>: the payload's constructor is the discriminator
  \<open>eventType\<close>, and an unknown event carries its type word and its payload verbatim.
\<close>

datatype event_payload =
    SessionStarted session_started_payload
  | SessionFinished session_finished_payload
  | RunFinished
  | AttemptStarted attempt_started_payload
  | AttemptFinished attempt_finished_payload
  | StepStarted step_started_payload
  | StepFinished step_finished_payload
  | AttachmentAdded attachment_added_payload
  | ScopeFailed scope_failed_payload
  | UnknownPayload jstring obj

record envelope =
  protocolVersion :: jstring
  eventId :: jstring
  runId :: jstring
  sessionId :: jstring
  sequence :: int
  occurredAt :: jstring
  ignorable :: "bool option"

record event = envelope +
  payload :: event_payload

definition EVENT_TYPES :: "jstring list" where
  "EVENT_TYPES = [js ''session.started'', js ''session.finished'', js ''run.finished'',
     js ''attempt.started'', js ''attempt.finished'', js ''step.started'', js ''step.finished'',
     js ''attachment.added'', js ''scope.failed'']"

definition isKnownEventType :: "jstring \<Rightarrow> bool" where
  "isKnownEventType t \<longleftrightarrow> List.member EVENT_TYPES t"

fun payload_type :: "event_payload \<Rightarrow> jstring" where
  "payload_type (SessionStarted _) = js ''session.started''"
| "payload_type (SessionFinished _) = js ''session.finished''"
| "payload_type RunFinished = js ''run.finished''"
| "payload_type (AttemptStarted _) = js ''attempt.started''"
| "payload_type (AttemptFinished _) = js ''attempt.finished''"
| "payload_type (StepStarted _) = js ''step.started''"
| "payload_type (StepFinished _) = js ''step.finished''"
| "payload_type (AttachmentAdded _) = js ''attachment.added''"
| "payload_type (ScopeFailed _) = js ''scope.failed''"
| "payload_type (UnknownPayload t _) = t"

definition eventType :: "event \<Rightarrow> jstring" where
  "eventType e = payload_type (payload e)"

definition isKnownEvent :: "event \<Rightarrow> bool" where
  "isKnownEvent e \<longleftrightarrow> isKnownEventType (eventType e)"

definition maxEventBytes :: nat where
  "maxEventBytes = 1048576"

section \<open>Versions\<close>

definition PROTOCOL_VERSION :: jstring where
  "PROTOCOL_VERSION = js ''0.3.0''"

record parsed_version =
  major :: nat
  minor :: nat
  patch :: nat

text \<open>\<open>(0|[1-9][0-9]*)\<close>, one component of the version expression.\<close>

definition is_numeral :: "jstring \<Rightarrow> bool" where
  "is_numeral s \<longleftrightarrow> s \<noteq> [] \<and> list_all is_digit s \<and> (hd s = 0x30 \<longrightarrow> tl s = [])"

definition digits_value :: "jstring \<Rightarrow> nat" where
  "digits_value s = foldl (\<lambda>n c. 10 * n + (unat c - 0x30)) 0 s"

definition parseProtocolVersion :: "jstring \<Rightarrow> parsed_version option" where
  "parseProtocolVersion version =
     (case split_on 0x2E version of
        [a, b, c] \<Rightarrow>
          if is_numeral a \<and> is_numeral b \<and> is_numeral c
          then Some \<lparr>major = digits_value a, minor = digits_value b, patch = digits_value c\<rparr>
          else None
      | _ \<Rightarrow> None)"

definition isSupportedProtocolVersion :: "parsed_version \<Rightarrow> bool" where
  "isSupportedProtocolVersion v \<longleftrightarrow> major v = 0 \<and> minor v = 3"

text \<open>The same question asked of the text, as the source's overload does.\<close>

definition isSupportedVersionText :: "jstring \<Rightarrow> bool" where
  "isSupportedVersionText version =
     (case parseProtocolVersion version of None \<Rightarrow> False | Some v \<Rightarrow> isSupportedProtocolVersion v)"

section \<open>Errors\<close>

datatype protocol_error_code =
    MALFORMED_JSON
  | SCHEMA_INVALID
  | UNSUPPORTED_PROTOCOL_VERSION
  | UNSUPPORTED_EVENT_TYPE

record protocol_error =
  err_code :: protocol_error_code
  err_message :: jstring
  err_pointer :: "jstring option"

section \<open>Facts\<close>

lemma known_payload_type [event_simps]:
  "isKnownEventType (payload_type p) \<longleftrightarrow>
     (case p of UnknownPayload t _ \<Rightarrow> isKnownEventType t | _ \<Rightarrow> True)"
  by (cases p) (simp_all add: isKnownEventType_def EVENT_TYPES_def)

text \<open>
  The numeral test accepts exactly the decimal texts without a leading zero, and reading such a
  text gives the number back.
\<close>

lemma digit_unit:
  assumes "n < 10"
  shows "is_digit (0x30 + of_nat n)" and "unat (0x30 + of_nat n :: 16 word) = 0x30 + n"
proof -
  have u: "unat (of_nat n :: 16 word) = n"
    using assms by (simp add: unat_of_nat take_bit_eq_mod)
  show v: "unat (0x30 + of_nat n :: 16 word) = 0x30 + n"
    using assms u by (simp add: unat_word_ariths)
  show "is_digit (0x30 + of_nat n)"
    using assms v by (simp add: is_digit_def word_le_nat_alt)
qed

lemma digits_value_show_nat [simp]: "digits_value (show_nat n) = n"
proof (induction n rule: show_nat.induct)
  case (1 n)
  show ?case
  proof (cases "n < 10")
    case True
    then show ?thesis
      by (simp add: show_nat.simps [of n] digits_value_def digit_unit)
  next
    case False
    then have "digits_value (show_nat (n div 10)) = n div 10"
      by (rule "1.IH")
    with False show ?thesis
      by (simp add: show_nat.simps [of n] digits_value_def digit_unit)
  qed
qed

lemma show_nat_digits: "list_all is_digit (show_nat n)"
proof (induction n rule: show_nat.induct)
  case (1 n)
  show ?case
  proof (cases "n < 10")
    case True
    then show ?thesis by (simp add: show_nat.simps [of n] digit_unit)
  next
    case False
    then show ?thesis
      using "1.IH" by (simp add: show_nat.simps [of n] digit_unit)
  qed
qed

lemma hd_show_nat: "0 < n \<Longrightarrow> hd (show_nat n) \<noteq> 0x30"
proof (induction n rule: show_nat.induct)
  case (1 n)
  show ?case
  proof (cases "n < 10")
    case True
    with "1.prems" have "unat (0x30 + of_nat n :: 16 word) \<noteq> unat (0x30 :: 16 word)"
      by (simp add: digit_unit)
    with True show ?thesis by (auto simp: show_nat.simps [of n])
  next
    case False
    then have "hd (show_nat (n div 10)) \<noteq> 0x30"
      by (intro "1.IH") auto
    with False show ?thesis by (simp add: show_nat.simps [of n])
  qed
qed

lemma is_numeral_show_nat [simp]: "is_numeral (show_nat n)"
proof (cases "n = 0")
  case True
  then show ?thesis by (simp add: is_numeral_def show_nat.simps [of 0] is_digit_def)
next
  case False
  then show ?thesis by (simp add: is_numeral_def show_nat_digits hd_show_nat)
qed

lemma digits_value_snoc: "digits_value (s @ [c]) = 10 * digits_value s + (unat c - 0x30)"
  by (simp add: digits_value_def)

lemma digit_of_unit:
  assumes "is_digit c"
  shows "0x30 + of_nat (unat c - 0x30) = c" and "unat c - 0x30 < 10"
proof -
  have c: "0x30 \<le> unat c" "unat c \<le> 0x39"
    using assms by (simp_all add: is_digit_def word_le_nat_alt)
  then show "unat c - 0x30 < 10" by simp
  have "of_nat (0x30 + (unat c - 0x30)) = c" using c by simp
  then show "0x30 + of_nat (unat c - 0x30) = c" by simp
qed

lemma digits_value_pos:
  assumes "list_all is_digit s" and "s \<noteq> []" and "hd s \<noteq> 0x30"
  shows "0 < digits_value s"
  using assms
proof (induction s rule: rev_induct)
  case (snoc c s)
  show ?case
  proof (cases "s = []")
    case True
    have "0x30 < unat c"
    proof -
      have "0x30 \<le> unat c" using snoc.prems(1) by (simp add: is_digit_def word_le_nat_alt)
      moreover have "unat c \<noteq> 0x30"
        using snoc.prems(3) True by (auto simp: word_unat_eq_iff)
      ultimately show ?thesis by simp
    qed
    with True show ?thesis by (simp add: digits_value_def)
  next
    case False
    with snoc show ?thesis by (simp add: digits_value_snoc)
  qed
qed simp

lemma show_nat_digits_value: "is_numeral s \<Longrightarrow> s = show_nat (digits_value s)"
proof (induction s rule: rev_induct)
  case (snoc c s)
  have digits: "list_all is_digit s" "is_digit c"
    using snoc.prems by (simp_all add: is_numeral_def)
  show ?case
  proof (cases "s = []")
    case True
    then show ?thesis
      using digit_of_unit [OF digits(2)] by (subst show_nat.simps) (simp add: digits_value_def)
  next
    case False
    with snoc.prems have hd: "hd s \<noteq> 0x30"
      by (auto simp: is_numeral_def)
    with digits False have num: "is_numeral s" by (simp add: is_numeral_def)
    have pos: "0 < digits_value s" using digits_value_pos [OF digits(1) False hd] .
    have "show_nat (digits_value (s @ [c])) = show_nat (digits_value s) @ [c]"
      using pos digit_of_unit [OF digits(2)]
      by (subst show_nat.simps) (simp add: digits_value_snoc)
    with snoc.IH [OF num] show ?thesis by simp
  qed
qed (simp add: is_numeral_def)

lemma dot_not_digit: "0x2E \<notin> set s" if "list_all is_digit s"
  using that by (auto simp: list_all_iff is_digit_def)

text \<open>
  Every version of the supported line is read, whatever its patch number, and no other text is
  supported.
\<close>

definition version_text :: "nat \<Rightarrow> nat \<Rightarrow> nat \<Rightarrow> jstring" where
  "version_text a b c = show_nat a @ js ''.'' @ show_nat b @ js ''.'' @ show_nat c"

lemma parse_version_text:
  "parseProtocolVersion (version_text a b c) = Some \<lparr>major = a, minor = b, patch = c\<rparr>"
proof -
  have dot: "js ''.'' = [0x2E]" by (simp add: js_def)
  have free: "0x2E \<notin> set (show_nat n)" for n
    by (rule dot_not_digit) (rule show_nat_digits)
  have "split_on 0x2E (version_text a b c) = [show_nat a, show_nat b, show_nat c]"
    by (simp add: version_text_def dot split_on_append split_on_free free)
  then show ?thesis by (simp add: parseProtocolVersion_def)
qed

end
