(* ===== verification/Timestamp.thy ===== *)
theory Timestamp
  imports Protocol_Model "HOL-Library.Monad_Syntax"
begin

text \<open>
  The protocol's timestamp expression, which the codec
  (\<open>src/ts/packages/protocol/src/codec.ts\<close>) tests and the history order
  (\<open>src/ts/packages/read-model/src/history-order.ts\<close>) reads the groups of:
  four, two and two digits of a date, \<open>T\<close>, two, two and two digits of a time, a fraction of one
  to nine digits, and \<open>Z\<close> or a signed offset.
\<close>

record timestamp_groups =
  ts_year :: jstring
  ts_month :: jstring
  ts_day :: jstring
  ts_hour :: jstring
  ts_minute :: jstring
  ts_second :: jstring
  ts_fraction :: "jstring option"
  ts_offset :: "((16 word) \<times> jstring \<times> jstring) option"

definition scan_digits :: "nat \<Rightarrow> jstring \<Rightarrow> (jstring \<times> jstring) option" where
  "scan_digits n s =
     (if length (take n s) = n \<and> list_all is_digit (take n s) then Some (take n s, drop n s)
      else None)"

fun scan_unit :: "16 word \<Rightarrow> jstring \<Rightarrow> jstring option" where
  "scan_unit c [] = None"
| "scan_unit c (x # s) = (if x = c then Some s else None)"

text \<open>\<open>(\.[0-9]{1,9})?\<close>: the run of digits is taken whole, since no digit may follow it.\<close>

definition scan_fraction :: "jstring \<Rightarrow> (jstring option \<times> jstring) option" where
  "scan_fraction s =
     (case scan_unit 0x2E s of
        None \<Rightarrow> Some (None, s)
      | Some t \<Rightarrow>
          let f = takeWhile is_digit t
          in if 1 \<le> length f \<and> length f \<le> 9 then Some (Some f, dropWhile is_digit t) else None)"

text \<open>\<open>(Z|[+-][0-9]{2}:[0-9]{2})$\<close>.\<close>

definition scan_zone :: "jstring \<Rightarrow> ((16 word) \<times> jstring \<times> jstring) option option" where
  "scan_zone s =
     (if s = js ''Z'' then Some None
      else case s of
        [] \<Rightarrow> None
      | c # t \<Rightarrow>
          if c = 0x2B \<or> c = 0x2D
          then do {
            (h, t) \<leftarrow> scan_digits 2 t;
            t \<leftarrow> scan_unit 0x3A t;
            (m, t) \<leftarrow> scan_digits 2 t;
            if t = [] then Some (Some (c, h, m)) else None
          }
          else None)"

definition match_timestamp :: "jstring \<Rightarrow> timestamp_groups option" where
  "match_timestamp s = do {
     (y, s) \<leftarrow> scan_digits 4 s;
     s \<leftarrow> scan_unit 0x2D s;
     (mo, s) \<leftarrow> scan_digits 2 s;
     s \<leftarrow> scan_unit 0x2D s;
     (d, s) \<leftarrow> scan_digits 2 s;
     s \<leftarrow> scan_unit 0x54 s;
     (h, s) \<leftarrow> scan_digits 2 s;
     s \<leftarrow> scan_unit 0x3A s;
     (mi, s) \<leftarrow> scan_digits 2 s;
     s \<leftarrow> scan_unit 0x3A s;
     (sec, s) \<leftarrow> scan_digits 2 s;
     (f, s) \<leftarrow> scan_fraction s;
     z \<leftarrow> scan_zone s;
     Some \<lparr>ts_year = y, ts_month = mo, ts_day = d, ts_hour = h, ts_minute = mi, ts_second = sec,
       ts_fraction = f, ts_offset = z\<rparr>
   }"

lemma scan_digits_Some_iff:
  "scan_digits n s = Some (d, r) \<longleftrightarrow> s = d @ r \<and> length d = n \<and> list_all is_digit d"
  by (auto simp: scan_digits_def)

lemma scan_unit_Some_iff [simp]: "scan_unit c s = Some r \<longleftrightarrow> s = c # r"
  by (cases s) auto

lemma scan_fraction_Some:
  "scan_fraction s = Some (f, r) \<Longrightarrow>
     (case f of None \<Rightarrow> s = r
      | Some d \<Rightarrow> s = 0x2E # d @ r \<and> list_all is_digit d \<and> 1 \<le> length d \<and> length d \<le> 9)"
  by (auto simp: scan_fraction_def Let_def list_all_iff split: option.splits if_splits
      dest: set_takeWhileD)

lemma scan_zone_Some:
  "scan_zone s = Some z \<Longrightarrow>
     (case z of None \<Rightarrow> s = js ''Z''
      | Some (c, h, m) \<Rightarrow> s = c # h @ 0x3A # m \<and> (c = 0x2B \<or> c = 0x2D) \<and>
          length h = 2 \<and> length m = 2 \<and> list_all is_digit h \<and> list_all is_digit m)"
  by (auto simp: scan_zone_def scan_digits_Some_iff split: if_splits list.splits option.splits bind_splits)

end
