(* ===== verification/Codec_Read.thy ===== *)
theory Codec_Read
  imports Timestamp
begin

text \<open>
  The reading half of the codec, \<open>src/ts/packages/protocol/src/codec.ts\<close>: from a parsed JSON
  value to an event, every \<open>throw\<close> a value \<open>Inl\<close> with the code, message and pointer the source
  throws, and the checks in the order the source evaluates them.
\<close>

type_synonym 'a read = "protocol_error + 'a"

section \<open>Expressions\<close>

definition IDENTIFIER :: "jstring \<Rightarrow> bool" where
  "IDENTIFIER s \<longleftrightarrow> s \<noteq> [] \<and> list_all (\<lambda>c. 0x21 \<le> c \<and> c \<le> 0x7E) s"

definition is_type_word :: "jstring \<Rightarrow> bool" where
  "is_type_word s \<longleftrightarrow> (case s of [] \<Rightarrow> False | c # r \<Rightarrow> is_lower c \<and> list_all is_alnum r)"

definition EVENT_TYPE :: "jstring \<Rightarrow> bool" where
  "EVENT_TYPE s \<longleftrightarrow> (let ws = split_on 0x2E s in 2 \<le> length ws \<and> list_all is_type_word ws)"

definition TIMESTAMP :: "jstring \<Rightarrow> bool" where
  "TIMESTAMP s \<longleftrightarrow> match_timestamp s \<noteq> None"

section \<open>Errors\<close>

definition invalid :: "jstring \<Rightarrow> jstring \<Rightarrow> protocol_error" where
  "invalid pointer message =
     \<lparr>err_code = SCHEMA_INVALID, err_message = pointer @ js '': '' @ message,
      err_pointer = Some pointer\<rparr>"

definition shown :: "jstring \<Rightarrow> jstring" where
  "shown v =
     (let cut = 64 < length v
      in quote_string (if cut then take 64 v else v) @ (if cut then js ''...'' else []))"

section \<open>Properties of an object\<close>

text \<open>\<open>o[field]\<close>, with \<open>undefined\<close> and \<open>null\<close> both absent.\<close>

definition present :: "obj \<Rightarrow> jstring \<Rightarrow> json option" where
  "present obj field =
     (case map_of obj field of None \<Rightarrow> None | Some JNull \<Rightarrow> None | Some v \<Rightarrow> Some v)"

abbreviation at_field :: "jstring \<Rightarrow> jstring \<Rightarrow> jstring" where
  "at_field at field \<equiv> at @ js ''/'' @ field"

definition required :: "obj \<Rightarrow> jstring \<Rightarrow> jstring \<Rightarrow> json read" where
  "required obj field at =
     (case present obj field of
        None \<Rightarrow> Inl (invalid at (js ''missing required property '' @ field))
      | Some v \<Rightarrow> Inr v)"

definition requiredString :: "obj \<Rightarrow> jstring \<Rightarrow> jstring \<Rightarrow> jstring read" where
  "requiredString obj field at =
     bind_r (required obj field at) (\<lambda>v.
       case v of JStr s \<Rightarrow> Inr s
       | _ \<Rightarrow> Inl (invalid (at_field at field) (js ''must be a string'')))"

definition optionalString :: "obj \<Rightarrow> jstring \<Rightarrow> jstring \<Rightarrow> jstring option read" where
  "optionalString obj field at =
     (case present obj field of
        None \<Rightarrow> Inr None
      | Some (JStr s) \<Rightarrow> Inr (Some s)
      | Some _ \<Rightarrow> Inl (invalid (at_field at field) (js ''must be a string'')))"

definition read_identifier :: "obj \<Rightarrow> jstring \<Rightarrow> jstring \<Rightarrow> jstring read" where
  "read_identifier obj field at =
     bind_r (requiredString obj field at) (\<lambda>s.
       if IDENTIFIER s then Inr s
       else Inl (invalid (at_field at field) (js ''must be printable ASCII without spaces'')))"

definition optionalIdentifier :: "obj \<Rightarrow> jstring \<Rightarrow> jstring \<Rightarrow> jstring option read" where
  "optionalIdentifier obj field at =
     bind_r (optionalString obj field at) (\<lambda>r.
       case r of None \<Rightarrow> Inr None
       | Some s \<Rightarrow>
           if IDENTIFIER s then Inr (Some s)
           else Inl (invalid (at_field at field) (js ''must be printable ASCII without spaces'')))"

definition integral :: "obj \<Rightarrow> jstring \<Rightarrow> jstring \<Rightarrow> int read" where
  "integral obj field at =
     bind_r (required obj field at) (\<lambda>v.
       case safe_integer v of Some i \<Rightarrow> Inr i
       | None \<Rightarrow> Inl (invalid (at_field at field) (js ''must be an integer'')))"

definition optionalIntegral :: "obj \<Rightarrow> jstring \<Rightarrow> jstring \<Rightarrow> int option read" where
  "optionalIntegral obj field at =
     (case present obj field of
        None \<Rightarrow> Inr None
      | Some v \<Rightarrow>
          (case safe_integer v of Some i \<Rightarrow> Inr (Some i)
           | None \<Rightarrow> Inl (invalid (at_field at field) (js ''must be an integer''))))"

text \<open>\<open>oneOf\<close>, over a table of the allowed words and the values they stand for.\<close>

definition oneOf :: "jstring \<Rightarrow> (jstring \<times> 'a) list \<Rightarrow> jstring \<Rightarrow> 'a read" where
  "oneOf v allowed at =
     (case map_of allowed v of Some a \<Rightarrow> Inr a
      | None \<Rightarrow> Inl (invalid at (js ''unknown value '' @ shown v)))"

text \<open>The callbacks of the source's loops over entries and items, one name each.\<close>

definition string_entry :: "jstring \<Rightarrow> nat \<Rightarrow> jstring \<times> json \<Rightarrow> (jstring \<times> jstring) read" where
  "string_entry at i p =
     (case snd p of JStr s \<Rightarrow> Inr (fst p, s)
      | _ \<Rightarrow> Inl (invalid (at_field at (fst p)) (js ''must be a string'')))"

definition string_item :: "jstring \<Rightarrow> nat \<Rightarrow> json \<Rightarrow> jstring read" where
  "string_item at i v =
     (case v of JStr s \<Rightarrow> Inr s
      | _ \<Rightarrow> Inl (invalid (at_field at (show_nat i)) (js ''must be a string'')))"

definition stringMap :: "obj \<Rightarrow> jstring \<Rightarrow> jstring \<Rightarrow> string_map option read" where
  "stringMap obj field at =
     (case present obj field of
        None \<Rightarrow> Inr None
      | Some (JObj ps) \<Rightarrow>
          bind_r (map_r (string_entry (at_field at field)) 0 ps)
            (\<lambda>es. Inr (Some (from_entries es)))
      | Some _ \<Rightarrow> Inl (invalid (at_field at field) (js ''must be an object of strings'')))"

definition stringList :: "obj \<Rightarrow> jstring \<Rightarrow> jstring \<Rightarrow> jstring list option read" where
  "stringList obj field at =
     (case present obj field of
        None \<Rightarrow> Inr None
      | Some (JArr vs) \<Rightarrow>
          bind_r (map_r (string_item (at_field at field)) 0 vs)
            (\<lambda>ss. Inr (Some ss))
      | Some _ \<Rightarrow> Inl (invalid (at_field at field) (js ''must be an array of strings'')))"

definition optionalObject ::
    "obj \<Rightarrow> jstring \<Rightarrow> jstring \<Rightarrow> (obj \<Rightarrow> jstring \<Rightarrow> 'a read) \<Rightarrow> 'a option read" where
  "optionalObject obj field at rd =
     (case present obj field of
        None \<Rightarrow> Inr None
      | Some (JObj ps) \<Rightarrow> bind_r (rd ps (at_field at field)) (\<lambda>a. Inr (Some a))
      | Some _ \<Rightarrow> Inl (invalid (at_field at field) (js ''must be an object'')))"

section \<open>Parts of a payload\<close>

definition read_component :: "obj \<Rightarrow> jstring \<Rightarrow> component read" where
  "read_component obj at =
     bind_r (requiredString obj (js ''name'') at) (\<lambda>n.
     bind_r (optionalString obj (js ''version'') at) (\<lambda>v.
     Inr \<lparr>comp_name = n, comp_version = v\<rparr>))"

definition read_executor :: "obj \<Rightarrow> jstring \<Rightarrow> executor_info read" where
  "read_executor obj at =
     bind_r (optionalString obj (js ''name'') at) (\<lambda>n.
     bind_r (optionalString obj (js ''buildId'') at) (\<lambda>b.
     bind_r (optionalString obj (js ''buildUrl'') at) (\<lambda>u.
     Inr \<lparr>exec_name = n, exec_buildId = b, exec_buildUrl = u\<rparr>)))"

definition read_source :: "obj \<Rightarrow> jstring \<Rightarrow> source_info read" where
  "read_source obj at =
     bind_r (optionalString obj (js ''repository'') at) (\<lambda>r.
     bind_r (optionalString obj (js ''revision'') at) (\<lambda>v.
     bind_r (optionalString obj (js ''branch'') at) (\<lambda>b.
     Inr \<lparr>src_repository = r, src_revision = v, src_branch = b\<rparr>)))"

definition read_location :: "obj \<Rightarrow> jstring \<Rightarrow> location read" where
  "read_location obj at =
     bind_r (requiredString obj (js ''file'') at) (\<lambda>f.
     bind_r (optionalIntegral obj (js ''line'') at) (\<lambda>l.
     bind_r (optionalIntegral obj (js ''column'') at) (\<lambda>c.
     Inr \<lparr>loc_file = f, loc_line = l, loc_column = c\<rparr>)))"

definition read_failure :: "obj \<Rightarrow> jstring \<Rightarrow> failure read" where
  "read_failure f at =
     bind_r (optionalString f (js ''phase'') at) (\<lambda>phaseRaw.
     bind_r (requiredString f (js ''message'') at) (\<lambda>m.
     bind_r (optionalString f (js ''type'') at) (\<lambda>t.
     bind_r (optionalString f (js ''stackTrace'') at) (\<lambda>st.
     bind_r (case phaseRaw of None \<Rightarrow> Inr None
             | Some w \<Rightarrow> bind_r (oneOf w FAILURE_PHASES (at_field at (js ''phase''))) (\<lambda>p. Inr (Some p))) (\<lambda>p.
     bind_r (optionalObject f (js ''location'') at read_location) (\<lambda>l.
     Inr \<lparr>fail_message = m, fail_type = t, fail_stackTrace = st, fail_phase = p, fail_location = l\<rparr>))))))"

definition failure_item :: "jstring \<Rightarrow> nat \<Rightarrow> json \<Rightarrow> failure read" where
  "failure_item at i v =
     (let fAt = at_field at (show_nat i)
      in case v of JObj f \<Rightarrow> read_failure f fAt
         | _ \<Rightarrow> Inl (invalid fAt (js ''must be an object'')))"

definition read_failures :: "obj \<Rightarrow> jstring \<Rightarrow> failure list option read" where
  "read_failures obj at =
     (case present obj (js ''failures'') of
        None \<Rightarrow> Inr None
      | Some (JArr vs) \<Rightarrow>
          bind_r (map_r (failure_item (at_field at (js ''failures''))) 0 vs)
            (\<lambda>fs. Inr (Some fs))
      | Some _ \<Rightarrow> Inl (invalid (at_field at (js ''failures'')) (js ''must be an array'')))"

definition segment_item :: "jstring \<Rightarrow> nat \<Rightarrow> json \<Rightarrow> path_segment read" where
  "segment_item at i v =
     (let segAt = at_field at (show_nat i)
      in case v of
           JObj seg \<Rightarrow>
             bind_r (requiredString seg (js ''kind'') segAt) (\<lambda>k.
             bind_r (requiredString seg (js ''name'') segAt) (\<lambda>n.
             Inr \<lparr>seg_kind = k, seg_name = n\<rparr>))
         | _ \<Rightarrow> Inl (invalid segAt (js ''must be an object'')))"

definition pathSegments :: "json \<Rightarrow> jstring \<Rightarrow> path_segment list read" where
  "pathSegments raw at =
     (case raw of
        JArr vs \<Rightarrow> map_r (segment_item at) 0 vs
      | _ \<Rightarrow> Inl (invalid at (js ''must be an array'')))"

definition read_testCase :: "obj \<Rightarrow> jstring \<Rightarrow> test_case read" where
  "read_testCase obj at =
     bind_r (requiredString obj (js ''historicalIdStability'') at) (\<lambda>w.
     bind_r (oneOf w HISTORICAL_ID_STABILITIES (at_field at (js ''historicalIdStability''))) (\<lambda>stab.
     bind_r (optionalString obj (js ''historicalId'') at) (\<lambda>hid.
     if stab = Unavailable \<and> hid \<noteq> None
     then Inl (invalid (at_field at (js ''historicalId''))
            (js ''must be absent when historicalIdStability is unavailable''))
     else if stab \<noteq> Unavailable \<and> hid = None
     then Inl (invalid at (js ''historicalId is required unless historicalIdStability is unavailable''))
     else
     bind_r (required obj (js ''path'') at) (\<lambda>raw.
     bind_r (pathSegments raw (at_field at (js ''path''))) (\<lambda>path.
     bind_r (read_identifier obj (js ''executionId'') at) (\<lambda>eid.
     bind_r (requiredString obj (js ''displayName'') at) (\<lambda>dn.
     bind_r (optionalObject obj (js ''location'') at read_location) (\<lambda>loc.
     bind_r (stringList obj (js ''tags'') at) (\<lambda>tags.
     bind_r (stringMap obj (js ''labels'') at) (\<lambda>labels.
     Inr \<lparr>executionId = eid, historicalId = hid, historicalIdStability = stab,
       tc_displayName = dn, tc_path = path, tc_location = loc, tc_tags = tags,
       tc_labels = labels\<rparr>))))))))))"

section \<open>Payloads\<close>

abbreviation at_payload :: jstring where
  "at_payload \<equiv> js ''/payload''"

definition read_session_started :: "obj \<Rightarrow> event_payload read" where
  "read_session_started p =
     bind_r (required p (js ''producer'') at_payload) (\<lambda>raw.
     case raw of
       JObj producer \<Rightarrow>
         bind_r (read_component producer (at_field at_payload (js ''producer''))) (\<lambda>pr.
         bind_r (optionalObject p (js ''runner'') at_payload read_component) (\<lambda>ru.
         bind_r (stringMap p (js ''environment'') at_payload) (\<lambda>env.
         bind_r (optionalObject p (js ''executor'') at_payload read_executor) (\<lambda>ex.
         bind_r (optionalObject p (js ''source'') at_payload read_source) (\<lambda>so.
         bind_r (stringMap p (js ''labels'') at_payload) (\<lambda>la.
         Inr (SessionStarted \<lparr>ss_producer = pr, ss_runner = ru, ss_environment = env,
           ss_executor = ex, ss_source = so, ss_labels = la\<rparr>)))))))
     | _ \<Rightarrow> Inl (invalid (at_field at_payload (js ''producer'')) (js ''must be an object'')))"

definition read_session_finished :: "obj \<Rightarrow> event_payload read" where
  "read_session_finished p =
     bind_r (optionalString p (js ''status'') at_payload) (\<lambda>w.
     bind_r (case w of None \<Rightarrow> Inr None
             | Some t \<Rightarrow>
                 (case map_of SESSION_STATUSES t of Some s \<Rightarrow> Inr (Some s)
                  | None \<Rightarrow> Inl (invalid (at_field at_payload (js ''status''))
                      (js ''must be passed, failed, or inconclusive'')))) (\<lambda>st.
     bind_r (optionalString p (js ''rawStatus'') at_payload) (\<lambda>raw.
     bind_r (read_failures p at_payload) (\<lambda>fs.
     let some = (case fs of None \<Rightarrow> False | Some l \<Rightarrow> 0 < length l) in
     if st = None \<and> raw \<noteq> None then Inl (invalid at_payload (js ''rawStatus requires status''))
     else if st = None \<and> some then Inl (invalid at_payload (js ''failures require status''))
     else if st = Some SessionPassed \<and> some
     then Inl (invalid at_payload (js ''a passed session carries no failures''))
     else Inr (SessionFinished \<lparr>sf_status = st, sf_rawStatus = raw,
            sf_failures = (if some then fs else None)\<rparr>)))))"

definition read_attempt_started :: "obj \<Rightarrow> event_payload read" where
  "read_attempt_started p =
     bind_r (integral p (js ''attemptNumber'') at_payload) (\<lambda>n.
     if n < 1 \<or> n > 1000
     then Inl (invalid (at_field at_payload (js ''attemptNumber'')) (js ''must be between 1 and 1000''))
     else
     bind_r (required p (js ''test'') at_payload) (\<lambda>raw.
     case raw of
       JObj t \<Rightarrow>
         bind_r (read_identifier p (js ''attemptId'') at_payload) (\<lambda>i.
         bind_r (read_testCase t (at_field at_payload (js ''test''))) (\<lambda>tc.
         Inr (AttemptStarted \<lparr>as_attemptId = i, as_attemptNumber = n, as_test = tc\<rparr>)))
     | _ \<Rightarrow> Inl (invalid (at_field at_payload (js ''test'')) (js ''must be an object''))))"

definition read_attempt_finished :: "obj \<Rightarrow> event_payload read" where
  "read_attempt_finished p =
     bind_r (optionalString p (js ''expectedStatus'') at_payload) (\<lambda>ew.
     bind_r (read_identifier p (js ''attemptId'') at_payload) (\<lambda>i.
     bind_r (requiredString p (js ''status'') at_payload) (\<lambda>sw.
     bind_r (oneOf sw STATUSES (at_field at_payload (js ''status''))) (\<lambda>s.
     bind_r (optionalString p (js ''rawStatus'') at_payload) (\<lambda>raw.
     bind_r (case ew of None \<Rightarrow> Inr None
             | Some w \<Rightarrow> bind_r (oneOf w EXPECTED_STATUSES (at_field at_payload (js ''expectedStatus'')))
                            (\<lambda>x. Inr (Some x))) (\<lambda>ex.
     bind_r (optionalIntegral p (js ''durationMs'') at_payload) (\<lambda>d.
     bind_r (read_failures p at_payload) (\<lambda>fs.
     Inr (AttemptFinished \<lparr>af_attemptId = i, af_status = s, af_rawStatus = raw,
       af_expectedStatus = ex, af_durationMs = d, af_failures = fs\<rparr>)))))))))"

definition read_step_started :: "obj \<Rightarrow> event_payload read" where
  "read_step_started p =
     bind_r (read_identifier p (js ''stepId'') at_payload) (\<lambda>s.
     bind_r (read_identifier p (js ''attemptId'') at_payload) (\<lambda>a.
     bind_r (requiredString p (js ''name'') at_payload) (\<lambda>n.
     bind_r (optionalIdentifier p (js ''parentStepId'') at_payload) (\<lambda>pa.
     bind_r (optionalString p (js ''kind'') at_payload) (\<lambda>k.
     bind_r (optionalObject p (js ''location'') at_payload read_location) (\<lambda>l.
     Inr (StepStarted \<lparr>st_stepId = s, st_attemptId = a, st_parentStepId = pa, st_name = n,
       st_kind = k, st_location = l\<rparr>)))))))"

definition read_step_finished :: "obj \<Rightarrow> event_payload read" where
  "read_step_finished p =
     bind_r (read_identifier p (js ''stepId'') at_payload) (\<lambda>s.
     bind_r (read_identifier p (js ''attemptId'') at_payload) (\<lambda>a.
     bind_r (requiredString p (js ''status'') at_payload) (\<lambda>sw.
     bind_r (oneOf sw STATUSES (at_field at_payload (js ''status''))) (\<lambda>st.
     bind_r (optionalString p (js ''rawStatus'') at_payload) (\<lambda>raw.
     bind_r (optionalIntegral p (js ''durationMs'') at_payload) (\<lambda>d.
     bind_r (read_failures p at_payload) (\<lambda>fs.
     Inr (StepFinished \<lparr>sp_stepId = s, sp_attemptId = a, sp_status = st, sp_rawStatus = raw,
       sp_durationMs = d, sp_failures = fs\<rparr>))))))))"

definition read_attachment_added :: "obj \<Rightarrow> event_payload read" where
  "read_attachment_added p =
     bind_r (read_identifier p (js ''attemptId'') at_payload) (\<lambda>a.
     bind_r (requiredString p (js ''name'') at_payload) (\<lambda>n.
     bind_r (requiredString p (js ''mediaType'') at_payload) (\<lambda>m.
     bind_r (integral p (js ''sizeBytes'') at_payload) (\<lambda>z.
     bind_r (requiredString p (js ''sha256'') at_payload) (\<lambda>h.
     bind_r (optionalIdentifier p (js ''stepId'') at_payload) (\<lambda>s.
     Inr (AttachmentAdded \<lparr>aa_attemptId = a, aa_stepId = s, aa_name = n, aa_mediaType = m,
       aa_sizeBytes = z, aa_sha256 = h\<rparr>)))))))"

definition read_scope_failed :: "obj \<Rightarrow> event_payload read" where
  "read_scope_failed p =
     bind_r (required p (js ''path'') at_payload) (\<lambda>raw.
     bind_r (pathSegments raw (at_field at_payload (js ''path''))) (\<lambda>path.
     if path = []
     then Inl (invalid (at_field at_payload (js ''path'')) (js ''must identify the failing scope''))
     else
     bind_r (read_failures p at_payload) (\<lambda>fs.
     case fs of
       Some (f # r) \<Rightarrow>
         bind_r (optionalString p (js ''displayName'') at_payload) (\<lambda>dn.
         bind_r (optionalString p (js ''rawStatus'') at_payload) (\<lambda>rs.
         bind_r (optionalObject p (js ''location'') at_payload read_location) (\<lambda>l.
         Inr (ScopeFailed \<lparr>sc_path = path, sc_displayName = dn, sc_rawStatus = rs,
           sc_location = l, sc_failures = f # r\<rparr>))))
     | _ \<Rightarrow> Inl (invalid (at_field at_payload (js ''failures''))
              (js ''a scope failure carries at least one failure'')))))"

definition readPayload :: "jstring \<Rightarrow> obj \<Rightarrow> bool \<Rightarrow> event_payload read" where
  "readPayload etype p ign =
     (if etype = js ''session.started'' then read_session_started p
      else if etype = js ''session.finished'' then read_session_finished p
      else if etype = js ''run.finished'' then Inr RunFinished
      else if etype = js ''attempt.started'' then read_attempt_started p
      else if etype = js ''attempt.finished'' then read_attempt_finished p
      else if etype = js ''step.started'' then read_step_started p
      else if etype = js ''step.finished'' then read_step_finished p
      else if etype = js ''attachment.added'' then read_attachment_added p
      else if etype = js ''scope.failed'' then read_scope_failed p
      else if \<not> ign
      then Inl \<lparr>err_code = UNSUPPORTED_EVENT_TYPE,
             err_message = js ''event type '' @ etype @ js '' is not known and not marked ignorable'',
             err_pointer = Some (js ''/eventType'')\<rparr>
      else Inr (UnknownPayload etype p))"

section \<open>Events\<close>

definition read_ignorable :: "obj \<Rightarrow> bool option read" where
  "read_ignorable root =
     (case present root (js ''ignorable'') of
        None \<Rightarrow> Inr None
      | Some (JBool b) \<Rightarrow> Inr (Some b)
      | Some _ \<Rightarrow> Inl (invalid (js ''/ignorable'') (js ''must be a boolean'')))"

definition read_version :: "obj \<Rightarrow> jstring read" where
  "read_version root =
     bind_r (requiredString root (js ''protocolVersion'') []) (\<lambda>v.
     case parseProtocolVersion v of
       None \<Rightarrow> Inl (invalid (js ''/protocolVersion'') (js ''must be a semantic version''))
     | Some parsed \<Rightarrow>
         if \<not> isSupportedProtocolVersion parsed
         then Inl \<lparr>err_code = UNSUPPORTED_PROTOCOL_VERSION,
                err_message = js ''protocol version '' @ v @ js '' is outside the supported line 0.3'',
                err_pointer = Some (js ''/protocolVersion'')\<rparr>
         else Inr v)"

fun eventFromObject :: "json \<Rightarrow> event read" where
  "eventFromObject (JObj root) =
     bind_r (read_version root) (\<lambda>version.
     bind_r (requiredString root (js ''eventType'') []) (\<lambda>etype.
     if \<not> EVENT_TYPE etype
     then Inl (invalid (js ''/eventType'') (js ''must be dotted lower-case words''))
     else
     bind_r (read_identifier root (js ''eventId'') []) (\<lambda>eid.
     bind_r (read_identifier root (js ''runId'') []) (\<lambda>rid.
     bind_r (read_identifier root (js ''sessionId'') []) (\<lambda>sid.
     bind_r (integral root (js ''sequence'') []) (\<lambda>sq.
     if sq < 1 then Inl (invalid (js ''/sequence'') (js ''must be >= 1''))
     else
     bind_r (requiredString root (js ''occurredAt'') []) (\<lambda>time.
     if \<not> TIMESTAMP time
     then Inl (invalid (js ''/occurredAt'') (js ''must be an ISO-8601 timestamp with offset''))
     else
     bind_r (read_ignorable root) (\<lambda>ign.
     case map_of root (js ''payload'') of
       Some (JObj p) \<Rightarrow>
         bind_r (readPayload etype p (ign = Some True)) (\<lambda>pl.
         Inr \<lparr>protocolVersion = version, eventId = eid, runId = rid, sessionId = sid,
           sequence = sq, occurredAt = time, ignorable = ign, payload = pl\<rparr>)
     | _ \<Rightarrow> Inl (invalid (js ''/payload'') (js ''must be an object''))))))))))"
| "eventFromObject _ =
     Inl \<lparr>err_code = MALFORMED_JSON, err_message = js ''event must be a JSON object'',
       err_pointer = Some []\<rparr>"

end
