(* ===== verification/Lifecycle.thy ===== *)
theory Lifecycle
  imports Protocol_Model
begin

text \<open>
  The lifecycle rules of the protocol as a predicate on the history of a run, with no state: for
  each event, what must have happened before it.  This is the specification the validator's
  bookkeeping is proved to decide.  A history lists the new events in the order they are read,
  each with the number of its file.
\<close>

type_synonym history = "(nat \<times> event) list"

section \<open>What an event does\<close>

fun attempt_start :: "event_payload \<Rightarrow> attempt_started_payload option" where
  "attempt_start (AttemptStarted p) = Some p"
| "attempt_start _ = None"

fun attempt_end :: "event_payload \<Rightarrow> attempt_finished_payload option" where
  "attempt_end (AttemptFinished p) = Some p"
| "attempt_end _ = None"

fun session_end :: "event_payload \<Rightarrow> session_finished_payload option" where
  "session_end (SessionFinished p) = Some p"
| "session_end _ = None"

fun attachment_of :: "event_payload \<Rightarrow> attachment_added_payload option" where
  "attachment_of (AttachmentAdded p) = Some p"
| "attachment_of _ = None"

fun is_scope_failure :: "event_payload \<Rightarrow> bool" where
  "is_scope_failure (ScopeFailed _) = True"
| "is_scope_failure _ = False"

fun starts_session :: "event_payload \<Rightarrow> bool" where
  "starts_session (SessionStarted _) = True"
| "starts_session _ = False"

fun starts_step :: "event_payload \<Rightarrow> (jstring \<times> jstring) option" where
  "starts_step (StepStarted p) = Some (st_attemptId p, st_stepId p)"
| "starts_step _ = None"

fun ends_step :: "event_payload \<Rightarrow> (jstring \<times> jstring) option" where
  "ends_step (StepFinished p) = Some (sp_attemptId p, sp_stepId p)"
| "ends_step _ = None"

definition runner_of :: "event_payload \<Rightarrow> jstring option" where
  "runner_of p = (case p of SessionStarted q \<Rightarrow> map_option comp_name (ss_runner q) | _ \<Rightarrow> None)"

section \<open>What has happened\<close>

definition of_session :: "event list \<Rightarrow> jstring \<Rightarrow> event list" where
  "of_session es sid = filter (\<lambda>e. sessionId e = sid) es"

definition session_ended :: "event list \<Rightarrow> jstring \<Rightarrow> bool" where
  "session_ended es sid \<longleftrightarrow> (\<exists>e \<in> set es. sessionId e = sid \<and> session_end (payload e) \<noteq> None)"

definition session_runner :: "event list \<Rightarrow> jstring \<Rightarrow> jstring option" where
  "session_runner es sid = (case of_session es sid of [] \<Rightarrow> None | e # _ \<Rightarrow> runner_of (payload e))"

definition run_ended :: "event list \<Rightarrow> bool" where
  "run_ended es \<longleftrightarrow> (\<exists>e \<in> set es. payload e = RunFinished)"

definition attempt_started :: "event list \<Rightarrow> jstring \<Rightarrow> bool" where
  "attempt_started es a \<longleftrightarrow>
     (\<exists>e \<in> set es. map_option as_attemptId (attempt_start (payload e)) = Some a)"

definition attempt_ended :: "event list \<Rightarrow> jstring \<Rightarrow> bool" where
  "attempt_ended es a \<longleftrightarrow>
     (\<exists>e \<in> set es. map_option af_attemptId (attempt_end (payload e)) = Some a)"

definition step_started :: "event list \<Rightarrow> jstring \<Rightarrow> jstring \<Rightarrow> bool" where
  "step_started es a s \<longleftrightarrow> (\<exists>e \<in> set es. starts_step (payload e) = Some (a, s))"

definition step_ended :: "event list \<Rightarrow> jstring \<Rightarrow> jstring \<Rightarrow> bool" where
  "step_ended es a s \<longleftrightarrow> (\<exists>e \<in> set es. ends_step (payload e) = Some (a, s))"

definition attempt_open :: "event list \<Rightarrow> jstring \<Rightarrow> bool" where
  "attempt_open es a \<longleftrightarrow> attempt_started es a \<and> \<not> attempt_ended es a"

lemmas happened_defs = of_session_def session_ended_def run_ended_def attempt_started_def
  attempt_ended_def step_started_def step_ended_def

section \<open>The rules\<close>

text \<open>The event's place in its session.\<close>

definition place_ok :: "event list \<Rightarrow> event \<Rightarrow> bool" where
  "place_ok past e \<longleftrightarrow>
     (if starts_session (payload e) then of_session past (sessionId e) = []
      else of_session past (sessionId e) \<noteq> []) \<and>
     sequence e = int (length (of_session past (sessionId e))) + 1 \<and>
     (session_ended past (sessionId e) \<longrightarrow> payload e = RunFinished)"

text \<open>Two attempts of one execution agree on who they are and differ in their number.\<close>

definition agrees :: "event list \<Rightarrow> event \<Rightarrow> attempt_started_payload \<Rightarrow> event \<Rightarrow> bool" where
  "agrees past e p d \<longleftrightarrow>
     (case attempt_start (payload d) of
        None \<Rightarrow> True
      | Some q \<Rightarrow>
          executionId (as_test q) = executionId (as_test p) \<longrightarrow>
            as_attemptNumber q \<noteq> as_attemptNumber p \<and>
            historicalId (as_test q) = historicalId (as_test p) \<and>
            historicalIdStability (as_test q) = historicalIdStability (as_test p) \<and>
            session_runner past (sessionId d) = session_runner past (sessionId e))"

definition payload_ok :: "event list \<Rightarrow> event \<Rightarrow> bool" where
  "payload_ok past e =
     (case payload e of
        SessionFinished p \<Rightarrow>
          \<forall>d \<in> set past. sessionId d = sessionId e \<longrightarrow>
            (case attempt_start (payload d) of None \<Rightarrow> True | Some q \<Rightarrow> attempt_ended past (as_attemptId q))
      | RunFinished \<Rightarrow> \<not> run_ended past
      | AttemptStarted p \<Rightarrow>
          (historicalId (as_test p) \<noteq> None \<longrightarrow> session_runner past (sessionId e) \<noteq> None) \<and>
          \<not> attempt_started past (as_attemptId p) \<and> (\<forall>d \<in> set past. agrees past e p d)
      | AttemptFinished p \<Rightarrow>
          attempt_open past (af_attemptId p) \<and>
          (\<forall>d \<in> set past. case starts_step (payload d) of
             Some (a, s) \<Rightarrow> a = af_attemptId p \<longrightarrow> step_ended past a s | None \<Rightarrow> True)
      | StepStarted p \<Rightarrow>
          attempt_open past (st_attemptId p) \<and> \<not> step_started past (st_attemptId p) (st_stepId p) \<and>
          (case st_parentStepId p of None \<Rightarrow> True | Some q \<Rightarrow> step_started past (st_attemptId p) q)
      | StepFinished p \<Rightarrow>
          step_started past (sp_attemptId p) (sp_stepId p) \<and> \<not> step_ended past (sp_attemptId p) (sp_stepId p)
      | AttachmentAdded p \<Rightarrow>
          attempt_open past (aa_attemptId p) \<and>
          (case aa_stepId p of None \<Rightarrow> True | Some s \<Rightarrow> step_started past (aa_attemptId p) s)
      | _ \<Rightarrow> True)"

text \<open>
  The file's own rules: a session file holds one session, and nothing follows the end of the run
  in the file that ends it.
\<close>

definition file_ok :: "bool \<Rightarrow> history \<Rightarrow> nat \<Rightarrow> event \<Rightarrow> bool" where
  "file_ok single past f e \<longleftrightarrow>
     (\<forall>(g, d) \<in> set past. g = f \<longrightarrow>
        (single \<longrightarrow> sessionId d = sessionId e) \<and> payload d \<noteq> RunFinished)"

definition rule_ok :: "bool \<Rightarrow> history \<Rightarrow> nat \<times> event \<Rightarrow> bool" where
  "rule_ok single past x =
     (case x of (f, e) \<Rightarrow>
        (\<forall>d \<in> set (map snd past). runId d = runId e) \<and> file_ok single past f e \<and>
        place_ok (map snd past) e \<and> payload_ok (map snd past) e)"

definition lifecycle_ok :: "bool \<Rightarrow> history \<Rightarrow> bool" where
  "lifecycle_ok single h \<longleftrightarrow> (\<forall>i < length h. rule_ok single (take i h) (h ! i))"

lemma lifecycle_ok_Nil [simp]: "lifecycle_ok single []"
  by (simp add: lifecycle_ok_def)

lemma lifecycle_ok_snoc:
  "lifecycle_ok single (h @ [x]) \<longleftrightarrow> lifecycle_ok single h \<and> rule_ok single h x"
  by (auto simp: lifecycle_ok_def less_Suc_eq nth_append)

lemma lifecycle_ok_append: "lifecycle_ok single (g @ h) \<Longrightarrow> lifecycle_ok single g"
proof -
  assume ok: "lifecycle_ok single (g @ h)"
  have "rule_ok single (take i g) (g ! i)" if "i < length g" for i
    using ok that unfolding lifecycle_ok_def by (force simp: nth_append dest: spec [where x = i])
  then show ?thesis by (simp add: lifecycle_ok_def)
qed

section \<open>One more event\<close>

lemma of_session_Nil [simp]: "of_session [] sid = []"
  by (simp add: of_session_def)

lemma of_session_snoc [event_simps]:
  "of_session (es @ [e]) sid = (if sessionId e = sid then of_session es sid @ [e] else of_session es sid)"
  by (simp add: of_session_def)

lemma session_ended_snoc [event_simps]:
  "session_ended (es @ [e]) sid \<longleftrightarrow>
     session_ended es sid \<or> (sessionId e = sid \<and> session_end (payload e) \<noteq> None)"
  by (auto simp: session_ended_def)

lemma session_runner_snoc [event_simps]:
  "session_runner (es @ [e]) sid =
     (if of_session es sid = [] then if sessionId e = sid then runner_of (payload e) else None
      else session_runner es sid)"
  by (auto simp: session_runner_def event_simps split: list.splits)

lemma run_ended_snoc [event_simps]: "run_ended (es @ [e]) \<longleftrightarrow> run_ended es \<or> payload e = RunFinished"
  by (auto simp: run_ended_def)

lemma attempt_started_snoc [event_simps]:
  "attempt_started (es @ [e]) a \<longleftrightarrow>
     attempt_started es a \<or> map_option as_attemptId (attempt_start (payload e)) = Some a"
  by (auto simp: attempt_started_def)

lemma attempt_ended_snoc [event_simps]:
  "attempt_ended (es @ [e]) a \<longleftrightarrow>
     attempt_ended es a \<or> map_option af_attemptId (attempt_end (payload e)) = Some a"
  by (auto simp: attempt_ended_def)

lemma step_started_snoc [event_simps]:
  "step_started (es @ [e]) a s \<longleftrightarrow> step_started es a s \<or> starts_step (payload e) = Some (a, s)"
  by (auto simp: step_started_def)

lemma step_ended_snoc [event_simps]:
  "step_ended (es @ [e]) a s \<longleftrightarrow> step_ended es a s \<or> ends_step (payload e) = Some (a, s)"
  by (auto simp: step_ended_def)

lemma nothing_happened [simp]:
  "\<not> session_ended [] sid" "\<not> run_ended []" "\<not> attempt_started [] a" "\<not> attempt_ended [] a"
  "\<not> step_started [] a s" "\<not> step_ended [] a s"
  by (simp_all add: happened_defs)

lemma of_session_member: "e \<in> set es \<Longrightarrow> of_session es (sessionId e) \<noteq> []"
  by (auto simp: of_session_def filter_empty_conv)

end
