(* ===== verification/Validator.thy ===== *)
theory Validator
  imports Canonical Codec_Read Lifecycle
begin

text \<open>
  The run validator, \<open>src/ts/packages/validator/src/validator.ts\<close>: class \<open>RunValidator\<close> with
  its whole state, \<open>feed\<close> line by line and handler by handler, \<open>checkExecution\<close>, and the report
  \<open>finish\<close> returns.  The engine's \<open>JSON.parse\<close>, the compiled Ajv schemas, SHA-256 and the
  file system are the arguments collected in \<open>host\<close> and \<open>file_system\<close>.
\<close>

section \<open>Diagnostics\<close>

datatype severity = SevError | SevInfo

datatype diagnostic_code =
    Protocol protocol_error_code
  | EVENT_TOO_LARGE
  | LIFECYCLE_INVALID
  | ATTACHMENT_MISSING
  | ATTACHMENT_SIZE_MISMATCH
  | ATTACHMENT_HASH_MISMATCH
  | UNSAFE_FILESYSTEM_ENTRY
  | IGNORED_EVENT_TYPE
  | DUPLICATE_EVENT
  | INCOMPLETE_RUN

datatype lifecycle_detail =
    RUN_ID_MISMATCH
  | SESSION_NOT_STARTED
  | SESSION_ALREADY_STARTED
  | SESSION_ALREADY_FINISHED
  | SESSION_FILE_MIXED
  | SEQUENCE_GAP
  | DUPLICATE_EVENT_ID
  | EVENT_AFTER_RUN_FINISHED
  | DUPLICATE_RUN_FINISHED
  | SESSION_NOT_FINISHED_AT_RUN_END
  | DUPLICATE_ATTEMPT_ID
  | DUPLICATE_ATTEMPT_NUMBER
  | HISTORICAL_IDENTITY_CHANGED
  | EXECUTION_RUNNER_CHANGED
  | ATTEMPT_NOT_STARTED
  | DUPLICATE_ATTEMPT_FINISHED
  | ATTEMPT_NOT_FINISHED_AT_SESSION_END
  | HISTORICAL_ID_WITHOUT_RUNNER
  | STEP_OUTSIDE_ATTEMPT
  | STEP_PARENT_UNKNOWN
  | DUPLICATE_STEP_ID
  | STEP_NOT_STARTED
  | DUPLICATE_STEP_FINISHED
  | STEP_NOT_FINISHED_AT_ATTEMPT_END
  | ATTACHMENT_ATTEMPT_UNKNOWN
  | ATTACHMENT_AFTER_ATTEMPT_FINISHED
  | ATTACHMENT_STEP_UNKNOWN

record diagnostic =
  dg_severity :: severity
  dg_code :: diagnostic_code
  dg_file :: jstring
  dg_line :: nat
  dg_eventId :: "jstring option"
  dg_pointer :: "jstring option"
  dg_detail :: "lifecycle_detail option"
  dg_message :: jstring

section \<open>What validation keeps\<close>

datatype disposition = Accepted | Ignored | Duplicate

record source_line =
  sl_rawLine :: jstring
  sl_eventId :: jstring
  sl_runId :: jstring
  sl_sessionId :: jstring
  sl_sequence :: int
  sl_protocolVersion :: jstring
  sl_eventType :: jstring
  sl_canonicalSha256 :: jstring
  sl_disposition :: disposition
  sl_sourceFile :: jstring
  sl_sourceLine :: nat

record session_state =
  ses_finished :: bool
  ses_lastSequence :: int
  ses_runnerName :: "jstring option"
  ses_synthesized :: bool

record attempt_state =
  att_session :: jstring
  att_executionId :: jstring
  att_attemptNumber :: int
  att_inconclusive :: bool
  att_finished :: bool
  att_unexpected :: bool
  att_steps :: "(jstring, bool) jmap"

record place =
  pl_file :: jstring
  pl_line :: nat
  pl_eventId :: jstring

record attempt_place = place +
  pl_attemptId :: jstring

record execution_state =
  exe_attemptNumbers :: "(int, attempt_place) jmap"
  exe_historicalId :: "jstring option"
  exe_stability :: stability
  exe_runnerName :: "jstring option"
  exe_runnerKnown :: bool
  exe_reference :: attempt_place

record attachment_place = place +
  pl_sha256 :: jstring
  pl_sizeBytes :: int

record options =
  opt_attachmentsDir :: "jstring option"
  opt_requireComplete :: bool
  opt_maxEventBytes :: "nat option"
  opt_retainEvents :: bool
  opt_retainSourceLines :: bool

record validator =
  diagnostics :: "diagnostic list"
  seen :: "(jstring, jstring) jmap"
  sessions :: "(jstring, session_state) jmap"
  attempts :: "(jstring, attempt_state) jmap"
  executions :: "(jstring, execution_state) jmap"
  attachments :: "attachment_place list"
  accepted :: "event list"
  source_log :: "source_line list"
  attachmentsDirRefused :: bool
  v_runId :: "jstring option"
  runFinished :: "place option"
  n_files :: nat
  n_events :: nat
  n_ignored :: nat
  n_duplicates :: nat
  n_steps :: nat
  n_scopeFailures :: nat
  n_failedAttempts :: nat
  n_failedSessions :: nat
  n_inconclusiveSessions :: nat
  n_sessionFailures :: nat

definition new_validator :: validator where
  "new_validator = \<lparr>diagnostics = [], seen = [], sessions = [], attempts = [], executions = [],
     attachments = [], accepted = [], source_log = [], attachmentsDirRefused = False,
     v_runId = None, runFinished = None, n_files = 0, n_events = 0, n_ignored = 0,
     n_duplicates = 0, n_steps = 0, n_scopeFailures = 0, n_failedAttempts = 0,
     n_failedSessions = 0, n_inconclusiveSessions = 0, n_sessionFailures = 0\<rparr>"

section \<open>What is called from outside\<close>

text \<open>
  One Ajv error object, as far as \<open>firstError\<close> reads it; \<open>ajv_missing\<close> is
  \<open>params.missingProperty\<close> when the parameters have that key.
\<close>

record schema_error =
  ajv_instancePath :: jstring
  ajv_message :: "jstring option"
  ajv_missing :: "jstring option"

text \<open>
  \<open>json_parse\<close> is the engine's \<open>JSON.parse\<close>, with the message of the error it throws;
  \<open>ajv_validate\<close> is the compiled validator of an event type, or of the envelope for \<open>None\<close>:
  \<open>None\<close> when it accepts the value, otherwise its error list; \<open>sha256_text\<close> is the hex digest
  of a text.
\<close>

record host =
  json_parse :: "jstring \<Rightarrow> jstring + json"
  ajv_validate :: "jstring option \<Rightarrow> json \<Rightarrow> schema_error list option"
  sha256_text :: "jstring \<Rightarrow> jstring"

definition firstError :: "schema_error list \<Rightarrow> jstring \<times> jstring" where
  "firstError errors =
     (case errors of
        [] \<Rightarrow> ([], js ''schema violation'')
      | e # _ \<Rightarrow>
          let extra = (case ajv_missing e of None \<Rightarrow> []
                       | Some p \<Rightarrow> js '' '' @ [0x27] @ p @ [0x27])
          in (ajv_instancePath e,
              (if ajv_instancePath e = [] then js ''/'' else ajv_instancePath e) @ js '' '' @
              (case ajv_message e of None \<Rightarrow> js ''invalid'' | Some m \<Rightarrow> m) @ extra))"

section \<open>Recording a diagnostic\<close>

text \<open>\<open>fa_file\<close> and \<open>fa_line\<close> are the file and the line \<open>feed\<close> is at.\<close>

record feed_at =
  fa_file :: jstring
  fa_line :: nat

definition push :: "diagnostic \<Rightarrow> validator \<Rightarrow> validator" where
  "push d st = st\<lparr>diagnostics := diagnostics st @ [d]\<rparr>"

definition error_diagnostic ::
    "feed_at \<Rightarrow> diagnostic_code \<Rightarrow> jstring \<Rightarrow> jstring option \<Rightarrow> jstring option \<Rightarrow> diagnostic" where
  "error_diagnostic at code message pointer eid =
     \<lparr>dg_severity = SevError, dg_code = code, dg_file = fa_file at, dg_line = fa_line at,
      dg_eventId = eid, dg_pointer = pointer, dg_detail = None, dg_message = message\<rparr>"

definition lifecycle_diagnostic :: "feed_at \<Rightarrow> lifecycle_detail \<Rightarrow> jstring \<Rightarrow> jstring \<Rightarrow> diagnostic" where
  "lifecycle_diagnostic at detail message eid =
     (error_diagnostic at LIFECYCLE_INVALID message None (Some eid))\<lparr>dg_detail := Some detail\<rparr>"

definition lifecycle :: "feed_at \<Rightarrow> lifecycle_detail \<Rightarrow> jstring \<Rightarrow> event \<Rightarrow> validator \<Rightarrow> validator" where
  "lifecycle at detail message e st = push (lifecycle_diagnostic at detail message (eventId e)) st"

definition info_diagnostic :: "feed_at \<Rightarrow> diagnostic_code \<Rightarrow> jstring \<Rightarrow> jstring \<Rightarrow> diagnostic" where
  "info_diagnostic at code message eid =
     \<lparr>dg_severity = SevInfo, dg_code = code, dg_file = fa_file at, dg_line = fa_line at,
      dg_eventId = Some eid, dg_pointer = None, dg_detail = None, dg_message = message\<rparr>"

definition where_text :: "'a place_scheme \<Rightarrow> jstring" where
  "where_text at = pl_file at @ js '':'' @ show_nat (pl_line at)"

definition describeIdentity :: "jstring option \<Rightarrow> stability \<Rightarrow> jstring" where
  "describeIdentity hid stab =
     (case hid of None \<Rightarrow> stability_word stab | Some h \<Rightarrow> h @ js '', '' @ stability_word stab)"

section \<open>The relational rules of one execution\<close>

definition or_none :: "jstring option \<Rightarrow> jstring" where
  "or_none n = (case n of None \<Rightarrow> js ''none'' | Some s \<Rightarrow> s)"

definition checkExecution ::
    "feed_at \<Rightarrow> event \<Rightarrow> attempt_started_payload \<Rightarrow> session_state \<Rightarrow> validator \<Rightarrow> validator" where
  "checkExecution at e p ses st =
     (let t = as_test p; x = executionId t; n = as_attemptNumber p;
          here = \<lparr>pl_file = fa_file at, pl_line = fa_line at, pl_eventId = eventId e,
                  pl_attemptId = as_attemptId p\<rparr>
      in case jget (executions st) x of
        None \<Rightarrow>
          st\<lparr>executions := jset x \<lparr>exe_attemptNumbers = [(n, here)], exe_historicalId = historicalId t,
               exe_stability = historicalIdStability t, exe_runnerName = ses_runnerName ses,
               exe_runnerKnown = (\<not> ses_synthesized ses), exe_reference = here\<rparr> (executions st)\<rparr>
      | Some known \<Rightarrow>
          let st1 = (case jget (exe_attemptNumbers known) n of
                Some same \<Rightarrow>
                  lifecycle at DUPLICATE_ATTEMPT_NUMBER
                    (js ''execution '' @ x @ js '' has attempts '' @ pl_attemptId same @ js '' ('' @
                     where_text same @ js '') and '' @ as_attemptId p @ js '' both numbered '' @ show_int n) e st
              | None \<Rightarrow>
                  st\<lparr>executions := jset x
                       (known\<lparr>exe_attemptNumbers := jset n here (exe_attemptNumbers known)\<rparr>) (executions st)\<rparr>);
              st2 = (if exe_historicalId known \<noteq> historicalId t \<or> exe_stability known \<noteq> historicalIdStability t
                then lifecycle at HISTORICAL_IDENTITY_CHANGED
                    (js ''execution '' @ x @ js '' changes history identity between attempts '' @
                     pl_attemptId (exe_reference known) @ js '' ('' @
                     describeIdentity (exe_historicalId known) (exe_stability known) @ js '', '' @
                     where_text (exe_reference known) @ js '') and '' @ as_attemptId p @ js '' ('' @
                     describeIdentity (historicalId t) (historicalIdStability t) @ js '')'') e st1
                else st1)
          in if exe_runnerKnown known \<and> \<not> ses_synthesized ses \<and> exe_runnerName known \<noteq> ses_runnerName ses
             then lifecycle at EXECUTION_RUNNER_CHANGED
                    (js ''execution '' @ x @ js '' spans sessions of different runners: '' @
                     or_none (exe_runnerName known) @ js '' at attempt '' @
                     pl_attemptId (exe_reference known) @ js '' ('' @ where_text (exe_reference known) @
                     js ''), '' @ or_none (ses_runnerName ses) @ js '' at attempt '' @ as_attemptId p) e st2
             else st2)"

section \<open>Handlers\<close>

definition on_session_finished :: "feed_at \<Rightarrow> event \<Rightarrow> session_finished_payload \<Rightarrow> session_state \<Rightarrow> validator \<Rightarrow> validator" where
  "on_session_finished at e p ses st =
     (let st1 = st\<lparr>sessions := jset (sessionId e) (ses\<lparr>ses_finished := True\<rparr>) (sessions st),
            n_failedSessions := n_failedSessions st + (if sf_status p = Some SessionFailed then 1 else 0),
            n_inconclusiveSessions := n_inconclusiveSessions st +
              (if sf_status p = Some SessionInconclusive then 1 else 0),
            n_sessionFailures := n_sessionFailures st +
              (case sf_failures p of None \<Rightarrow> 0 | Some fs \<Rightarrow> length fs)\<rparr>
      in fold (\<lambda>(i, a) s.
           if att_session a = sessionId e \<and> \<not> att_finished a
           then lifecycle at ATTEMPT_NOT_FINISHED_AT_SESSION_END
                  (js ''attempt '' @ i @ js '' still open'') e s
           else s) (attempts st) st1)"

definition on_run_finished :: "feed_at \<Rightarrow> event \<Rightarrow> validator \<Rightarrow> validator" where
  "on_run_finished at e st =
     (case runFinished st of
        Some r \<Rightarrow> lifecycle at DUPLICATE_RUN_FINISHED
            (js ''run.finished seen twice (first in '' @ where_text r @ js '')'') e st
      | None \<Rightarrow> st\<lparr>runFinished := Some \<lparr>pl_file = fa_file at, pl_line = fa_line at,
                     pl_eventId = eventId e\<rparr>\<rparr>)"

definition on_attempt_started :: "feed_at \<Rightarrow> event \<Rightarrow> attempt_started_payload \<Rightarrow> session_state \<Rightarrow> validator \<Rightarrow> validator" where
  "on_attempt_started at e p ses st =
     (let i = as_attemptId p;
          st1 = (if historicalId (as_test p) \<noteq> None \<and> ses_runnerName ses = None
                 then lifecycle at HISTORICAL_ID_WITHOUT_RUNNER
                   (js ''test '' @ i @ js '' carries a historicalId but session '' @ sessionId e @
                    js '' declares no runner'') e st
                 else st)
      in if jget (attempts st1) i \<noteq> None
         then lifecycle at DUPLICATE_ATTEMPT_ID (js ''attempt '' @ i @ js '' started twice'') e st1
         else checkExecution at e p ses
           (st1\<lparr>attempts := jset i \<lparr>att_session = sessionId e, att_executionId = executionId (as_test p),
              att_attemptNumber = as_attemptNumber p, att_inconclusive = False, att_finished = False,
              att_unexpected = False, att_steps = []\<rparr> (attempts st1)\<rparr>))"

definition is_unexpected :: "status \<Rightarrow> expected_status \<Rightarrow> bool" where
  "is_unexpected status ex \<longleftrightarrow>
     (status = Failed \<and> ex \<noteq> ExpectFailed) \<or> (status = Passed \<and> ex = ExpectFailed)"

definition expected_or_passed :: "expected_status option \<Rightarrow> expected_status" where
  "expected_or_passed ex = (case ex of None \<Rightarrow> ExpectPassed | Some x \<Rightarrow> x)"

definition on_attempt_finished :: "feed_at \<Rightarrow> event \<Rightarrow> attempt_finished_payload \<Rightarrow> validator \<Rightarrow> validator" where
  "on_attempt_finished at e p st =
     (case jget (attempts st) (af_attemptId p) of
        None \<Rightarrow> lifecycle at ATTEMPT_NOT_STARTED
            (js ''attempt '' @ af_attemptId p @ js '' finished but never started'') e st
      | Some a \<Rightarrow>
          if att_finished a
          then lifecycle at DUPLICATE_ATTEMPT_FINISHED
              (js ''attempt '' @ af_attemptId p @ js '' finished twice'') e st
          else
            let st1 = st\<lparr>attempts := jset (af_attemptId p)
                    (a\<lparr>att_finished := True,
                       att_unexpected := is_unexpected (af_status p) (expected_or_passed (af_expectedStatus p)),
                       att_inconclusive := (af_status p = Inconclusive)\<rparr>) (attempts st),
                  n_failedAttempts := n_failedAttempts st + (if af_status p = Failed then 1 else 0)\<rparr>
            in fold (\<lambda>(i, fin) s.
                 if \<not> fin then lifecycle at STEP_NOT_FINISHED_AT_ATTEMPT_END
                     (js ''step '' @ i @ js '' still open'') e s
                 else s) (att_steps a) st1)"

definition on_step_started :: "feed_at \<Rightarrow> event \<Rightarrow> step_started_payload \<Rightarrow> validator \<Rightarrow> validator" where
  "on_step_started at e p st =
     (let outside = lifecycle at STEP_OUTSIDE_ATTEMPT
            (js ''step '' @ st_stepId p @ js '' outside an open attempt'') e st
      in case jget (attempts st) (st_attemptId p) of
        None \<Rightarrow> outside
      | Some a \<Rightarrow>
          if att_finished a then outside
          else
            let st1 = (if jget (att_steps a) (st_stepId p) \<noteq> None
                  then lifecycle at DUPLICATE_STEP_ID (js ''step '' @ st_stepId p @ js '' started twice'') e st
                  else st);
                st2 = (case st_parentStepId p of
                    None \<Rightarrow> st1
                  | Some q \<Rightarrow>
                      if jget (att_steps a) q = None
                      then lifecycle at STEP_PARENT_UNKNOWN (js ''parent step '' @ q @ js '' unknown'') e st1
                      else st1)
            in st2\<lparr>attempts := jset (st_attemptId p)
                     (a\<lparr>att_steps := jset (st_stepId p) False (att_steps a)\<rparr>) (attempts st2),
                   n_steps := n_steps st2 + 1\<rparr>)"

definition on_step_finished :: "feed_at \<Rightarrow> event \<Rightarrow> step_finished_payload \<Rightarrow> validator \<Rightarrow> validator" where
  "on_step_finished at e p st =
     (let unknown = lifecycle at STEP_NOT_STARTED
            (js ''step '' @ sp_stepId p @ js '' finished but never started'') e st
      in case jget (attempts st) (sp_attemptId p) of
        None \<Rightarrow> unknown
      | Some a \<Rightarrow>
          (case jget (att_steps a) (sp_stepId p) of
             None \<Rightarrow> unknown
           | Some True \<Rightarrow> lifecycle at DUPLICATE_STEP_FINISHED
               (js ''step '' @ sp_stepId p @ js '' finished twice'') e st
           | Some False \<Rightarrow>
               st\<lparr>attempts := jset (sp_attemptId p)
                    (a\<lparr>att_steps := jset (sp_stepId p) True (att_steps a)\<rparr>) (attempts st)\<rparr>))"

definition on_attachment_added :: "feed_at \<Rightarrow> event \<Rightarrow> attachment_added_payload \<Rightarrow> validator \<Rightarrow> validator" where
  "on_attachment_added at e p st =
     (let st1 = (case jget (attempts st) (aa_attemptId p) of
            None \<Rightarrow> lifecycle at ATTACHMENT_ATTEMPT_UNKNOWN
                (js ''attachment for unknown attempt '' @ aa_attemptId p) e st
          | Some a \<Rightarrow>
              if att_finished a
              then lifecycle at ATTACHMENT_AFTER_ATTEMPT_FINISHED
                (js ''attachment after attempt '' @ aa_attemptId p @ js '' finished'') e st
              else (case aa_stepId p of
                  None \<Rightarrow> st
                | Some s \<Rightarrow>
                    if jget (att_steps a) s = None
                    then lifecycle at ATTACHMENT_STEP_UNKNOWN (js ''attachment for unknown step '' @ s) e st
                    else st))
      in st1\<lparr>attachments := attachments st1 @
              [\<lparr>pl_file = fa_file at, pl_line = fa_line at, pl_eventId = eventId e,
                pl_sha256 = aa_sha256 p, pl_sizeBytes = aa_sizeBytes p\<rparr>]\<rparr>)"

text \<open>The \<open>switch\<close> over the event types.\<close>

definition apply_event :: "feed_at \<Rightarrow> event \<Rightarrow> session_state \<Rightarrow> validator \<Rightarrow> validator" where
  "apply_event at e ses st =
     (case payload e of
        SessionStarted _ \<Rightarrow> st
      | SessionFinished p \<Rightarrow> on_session_finished at e p ses st
      | RunFinished \<Rightarrow> on_run_finished at e st
      | AttemptStarted p \<Rightarrow> on_attempt_started at e p ses st
      | AttemptFinished p \<Rightarrow> on_attempt_finished at e p st
      | StepStarted p \<Rightarrow> on_step_started at e p st
      | StepFinished p \<Rightarrow> on_step_finished at e p st
      | ScopeFailed _ \<Rightarrow> st\<lparr>n_scopeFailures := n_scopeFailures st + 1\<rparr>
      | AttachmentAdded p \<Rightarrow> on_attachment_added at e p st
      | UnknownPayload _ _ \<Rightarrow> st)"

section \<open>Feeding one file\<close>

text \<open>The local variables of the loop over the lines.\<close>

record feed_loop =
  fl_line :: nat
  fl_session :: "jstring option"
  fl_closedHere :: bool
  fl_abandoned :: bool

definition archive ::
    "host \<Rightarrow> options \<Rightarrow> feed_at \<Rightarrow> jstring \<Rightarrow> jstring \<Rightarrow> event \<Rightarrow> disposition \<Rightarrow> validator \<Rightarrow> validator" where
  "archive h opts at raw key e d st =
     (if \<not> opt_retainSourceLines opts then st
      else st\<lparr>source_log := source_log st @
        [\<lparr>sl_rawLine = raw, sl_eventId = eventId e, sl_runId = runId e, sl_sessionId = sessionId e,
          sl_sequence = sequence e, sl_protocolVersion = protocolVersion e, sl_eventType = eventType e,
          sl_canonicalSha256 = sha256_text h key, sl_disposition = d, sl_sourceFile = fa_file at,
          sl_sourceLine = fa_line at\<rparr>]\<rparr>)"

definition max_bytes :: "options \<Rightarrow> nat" where
  "max_bytes opts = (case opt_maxEventBytes opts of None \<Rightarrow> maxEventBytes | Some n \<Rightarrow> n)"

text \<open>
  A line that is not blank, up to the schema: its event and its parsed value, or the error
  diagnostic it gets.
\<close>

definition read_line :: "host \<Rightarrow> options \<Rightarrow> feed_at \<Rightarrow> jstring \<Rightarrow> diagnostic + json \<times> event" where
  "read_line h opts at raw =
     (if utf8_length raw + 1 > max_bytes opts
      then Inl (error_diagnostic at EVENT_TOO_LARGE
             (js ''event is '' @ show_nat (utf8_length raw + 1) @ js '' bytes, limit '' @
              show_nat (max_bytes opts)) None None)
      else case json_parse h raw of
        Inl message \<Rightarrow> Inl (error_diagnostic at (Protocol MALFORMED_JSON) (js ''not JSON: '' @ message) None None)
      | Inr v \<Rightarrow>
          (case eventFromObject v of
             Inl err \<Rightarrow> Inl (error_diagnostic at (Protocol (err_code err)) (err_message err) (err_pointer err) None)
           | Inr e \<Rightarrow>
               (case ajv_validate h (if isKnownEvent e then Some (eventType e) else None) v of
                  Some errors \<Rightarrow>
                    let (pointer, message) = firstError errors
                    in Inl (error_diagnostic at (Protocol SCHEMA_INVALID) message (Some pointer) (Some (eventId e)))
                | None \<Rightarrow> Inr (v, e))))"

text \<open>
  The rules of the event's place in its session, after which the event is ignored (an unknown
  type) or accepted and applied.
\<close>

definition in_session ::
    "host \<Rightarrow> options \<Rightarrow> feed_at \<Rightarrow> jstring \<Rightarrow> jstring \<Rightarrow> event \<Rightarrow> session_state \<Rightarrow> feed_loop \<Rightarrow> validator \<Rightarrow>
     feed_loop \<times> validator" where
  "in_session h opts at raw key e ses ls st =
     (let st1 = (if sequence e \<noteq> ses_lastSequence ses + 1
            then lifecycle at SEQUENCE_GAP
              (js ''sequence '' @ show_int (sequence e) @ js '' follows '' @ show_int (ses_lastSequence ses) @
               js '' in session '' @ sessionId e) e st
            else st);
          ses1 = ses\<lparr>ses_lastSequence := sequence e\<rparr>;
          st2 = st1\<lparr>sessions := jset (sessionId e) ses1 (sessions st1)\<rparr>
      in if ses_finished ses1 \<and> eventType e \<noteq> js ''run.finished''
         then (ls, lifecycle at SESSION_ALREADY_FINISHED (eventType e @ js '' after session.finished'') e st2)
         else if \<not> isKnownEvent e
         then (ls, push (info_diagnostic at IGNORED_EVENT_TYPE
                (js ''unknown ignorable event type '' @ eventType e @ js '' skipped'') (eventId e))
              (archive h opts at raw key e Ignored (st2\<lparr>n_ignored := n_ignored st2 + 1\<rparr>)))
         else
           let st3 = (if opt_retainEvents opts then st2\<lparr>accepted := accepted st2 @ [e]\<rparr> else st2);
               st4 = archive h opts at raw key e Accepted st3
           in (ls\<lparr>fl_closedHere := fl_closedHere ls \<or> payload e = RunFinished\<rparr>,
               apply_event at e ses1 st4))"

definition enter_session ::
    "host \<Rightarrow> options \<Rightarrow> bool \<Rightarrow> feed_at \<Rightarrow> jstring \<Rightarrow> jstring \<Rightarrow> event \<Rightarrow> feed_loop \<Rightarrow> validator \<Rightarrow>
     feed_loop \<times> validator" where
  "enter_session h opts single at raw key e ls st =
     (let known = jget (sessions st) (sessionId e)
      in if eventType e = js ''session.started''
         then (case known of
             Some _ \<Rightarrow>
               (ls\<lparr>fl_abandoned := fl_abandoned ls \<or> single\<rparr>,
                lifecycle at SESSION_ALREADY_STARTED
                  (js ''session '' @ sessionId e @ js '' started twice'') e st)
           | None \<Rightarrow>
               let ses = \<lparr>ses_finished = False, ses_lastSequence = 0,
                     ses_runnerName = runner_of (payload e), ses_synthesized = False\<rparr>
               in in_session h opts at raw key e ses ls
                    (st\<lparr>sessions := jset (sessionId e) ses (sessions st)\<rparr>))
         else (case known of
             Some ses \<Rightarrow> in_session h opts at raw key e ses ls st
           | None \<Rightarrow>
               let st1 = lifecycle at SESSION_NOT_STARTED
                     (eventType e @ js '' before session.started for '' @ sessionId e) e st;
                   ses = \<lparr>ses_finished = False, ses_lastSequence = sequence e - 1,
                     ses_runnerName = None, ses_synthesized = True\<rparr>
               in in_session h opts at raw key e ses ls
                    (st1\<lparr>sessions := jset (sessionId e) ses (sessions st1)\<rparr>)))"

text \<open>The run-wide rules of a new event: its run, its file's session, the end of the run.\<close>

definition new_event ::
    "host \<Rightarrow> options \<Rightarrow> bool \<Rightarrow> feed_at \<Rightarrow> jstring \<Rightarrow> jstring \<Rightarrow> event \<Rightarrow> feed_loop \<Rightarrow> validator \<Rightarrow>
     feed_loop \<times> validator" where
  "new_event h opts single at raw key e ls st =
     (let st1 = st\<lparr>seen := jset (eventId e) key (seen st), n_events := n_events st + 1\<rparr>;
          st2 = (case v_runId st1 of
              None \<Rightarrow> st1\<lparr>v_runId := Some (runId e)\<rparr>
            | Some r \<Rightarrow>
                if r \<noteq> runId e
                then lifecycle at RUN_ID_MISMATCH (js ''runId '' @ runId e @ js '' differs from '' @ r) e st1
                else st1)
      in case (if single then fl_session ls else None) of
           Some fs \<Rightarrow>
             if fs \<noteq> sessionId e
             then (ls, lifecycle at SESSION_FILE_MIXED
                    (js ''session '' @ sessionId e @ js '' in the file of session '' @ fs) e st2)
             else enter_session h opts single at raw key e ls
                 (if fl_closedHere ls
                  then lifecycle at EVENT_AFTER_RUN_FINISHED (eventType e @ js '' after run.finished'') e st2
                  else st2)
         | None \<Rightarrow>
             enter_session h opts single at raw key e
               (if single then ls\<lparr>fl_session := Some (sessionId e)\<rparr> else ls)
               (if fl_closedHere ls
                then lifecycle at EVENT_AFTER_RUN_FINISHED (eventType e @ js '' after run.finished'') e st2
                else st2))"

definition feed_event ::
    "host \<Rightarrow> options \<Rightarrow> bool \<Rightarrow> feed_at \<Rightarrow> jstring \<Rightarrow> json \<Rightarrow> event \<Rightarrow> feed_loop \<Rightarrow> validator \<Rightarrow>
     feed_loop \<times> validator" where
  "feed_event h opts single at raw v e ls st =
     (let key = canonical v in
      case jget (seen st) (eventId e) of
        Some previous \<Rightarrow>
          (ls, if previous = key
               then push (info_diagnostic at DUPLICATE_EVENT (js ''identical duplicate ignored'') (eventId e))
                      (archive h opts at raw key e Duplicate (st\<lparr>n_duplicates := n_duplicates st + 1\<rparr>))
               else lifecycle at DUPLICATE_EVENT_ID
                      (js ''eventId '' @ eventId e @ js '' reused with different content'') e st)
      | None \<Rightarrow> new_event h opts single at raw key e ls st)"

definition feed_line ::
    "host \<Rightarrow> options \<Rightarrow> bool \<Rightarrow> jstring \<Rightarrow> jstring \<Rightarrow> feed_loop \<times> validator \<Rightarrow> feed_loop \<times> validator" where
  "feed_line h opts single file raw s =
     (let ls = (fst s)\<lparr>fl_line := fl_line (fst s) + 1\<rparr>; st = snd s;
          at = \<lparr>fa_file = file, fa_line = fl_line ls\<rparr>
      in if fl_abandoned ls \<or> is_blank raw then (ls, st)
         else case read_line h opts at raw of
           Inl d \<Rightarrow> (ls, push d st)
         | Inr (v, e) \<Rightarrow> feed_event h opts single at raw v e ls st)"

definition feed_start :: feed_loop where
  "feed_start = \<lparr>fl_line = 0, fl_session = None, fl_closedHere = False, fl_abandoned = False\<rparr>"

definition feed :: "host \<Rightarrow> options \<Rightarrow> bool \<Rightarrow> jstring list \<Rightarrow> jstring \<Rightarrow> validator \<Rightarrow> validator" where
  "feed h opts single lines file st =
     snd (fold (feed_line h opts single file) lines (feed_start, st\<lparr>n_files := n_files st + 1\<rparr>))"

end
