(* ===== verification/Codec_Write.thy ===== *)
theory Codec_Write
  imports Codec_Read
begin

text \<open>
  The writing half of the codec, \<open>src/ts/packages/protocol/src/codec.ts\<close>: from an event to the
  plain JSON object with its fields in writing order, and that object's text.
\<close>

definition omitUndefined :: "(jstring \<times> json option) list \<Rightarrow> obj" where
  "omitUndefined ps = List.map_filter (\<lambda>p. map_option (Pair (fst p)) (snd p)) ps"

abbreviation jstr :: "jstring option \<Rightarrow> json option" where
  "jstr \<equiv> map_option JStr"

abbreviation jint :: "int \<Rightarrow> json" where
  "jint i \<equiv> JNum (Whole i)"

definition writeComponent :: "component \<Rightarrow> obj" where
  "writeComponent c = omitUndefined
     [(js ''name'', Some (JStr (comp_name c))), (js ''version'', jstr (comp_version c))]"

definition writeLocation :: "location \<Rightarrow> obj" where
  "writeLocation l = omitUndefined
     [(js ''file'', Some (JStr (loc_file l))), (js ''line'', map_option jint (loc_line l)),
      (js ''column'', map_option jint (loc_column l))]"

definition writeFailure :: "failure \<Rightarrow> obj" where
  "writeFailure f = omitUndefined
     [(js ''message'', Some (JStr (fail_message f))), (js ''type'', jstr (fail_type f)),
      (js ''stackTrace'', jstr (fail_stackTrace f)),
      (js ''phase'', map_option (\<lambda>p. JStr (phase_word p)) (fail_phase f)),
      (js ''location'', map_option (\<lambda>l. JObj (writeLocation l)) (fail_location f))]"

text \<open>An absent and an empty list are both left out.\<close>

definition writeFailures :: "failure list option \<Rightarrow> json option" where
  "writeFailures fs =
     (case fs of None \<Rightarrow> None | Some l \<Rightarrow> if l = [] then None else Some (JArr (map (\<lambda>f. JObj (writeFailure f)) l)))"

definition writeSegment :: "path_segment \<Rightarrow> obj" where
  "writeSegment s = [(js ''kind'', JStr (seg_kind s)), (js ''name'', JStr (seg_name s))]"

text \<open>\<open>nonEmpty(m) ? { ...m } : undefined\<close>.\<close>

definition write_map :: "string_map option \<Rightarrow> json option" where
  "write_map m =
     (case m of None \<Rightarrow> None
      | Some ps \<Rightarrow> if ps = [] then None else Some (JObj (map (\<lambda>p. (fst p, JStr (snd p))) ps)))"

definition write_tags :: "jstring list option \<Rightarrow> json option" where
  "write_tags t =
     (case t of None \<Rightarrow> None | Some l \<Rightarrow> if l = [] then None else Some (JArr (map JStr l)))"

definition write_executor :: "executor_info \<Rightarrow> obj" where
  "write_executor x = omitUndefined
     [(js ''name'', jstr (exec_name x)), (js ''buildId'', jstr (exec_buildId x)),
      (js ''buildUrl'', jstr (exec_buildUrl x))]"

definition write_source :: "source_info \<Rightarrow> obj" where
  "write_source x = omitUndefined
     [(js ''repository'', jstr (src_repository x)), (js ''revision'', jstr (src_revision x)),
      (js ''branch'', jstr (src_branch x))]"

definition write_test :: "test_case \<Rightarrow> obj" where
  "write_test t = omitUndefined
     [(js ''executionId'', Some (JStr (executionId t))),
      (js ''historicalId'', jstr (historicalId t)),
      (js ''historicalIdStability'', Some (JStr (stability_word (historicalIdStability t)))),
      (js ''displayName'', Some (JStr (tc_displayName t))),
      (js ''path'', Some (JArr (map (\<lambda>s. JObj (writeSegment s)) (tc_path t)))),
      (js ''location'', map_option (\<lambda>l. JObj (writeLocation l)) (tc_location t)),
      (js ''tags'', write_tags (tc_tags t)),
      (js ''labels'', write_map (tc_labels t))]"

definition write_session_started :: "session_started_payload \<Rightarrow> obj" where
  "write_session_started p = omitUndefined
     [(js ''producer'', Some (JObj (writeComponent (ss_producer p)))),
      (js ''runner'', map_option (\<lambda>c. JObj (writeComponent c)) (ss_runner p)),
      (js ''environment'', write_map (ss_environment p)),
      (js ''executor'', map_option (\<lambda>x. JObj (write_executor x)) (ss_executor p)),
      (js ''source'', map_option (\<lambda>x. JObj (write_source x)) (ss_source p)),
      (js ''labels'', write_map (ss_labels p))]"

definition write_session_finished :: "session_finished_payload \<Rightarrow> obj" where
  "write_session_finished p = omitUndefined
     [(js ''status'', map_option (\<lambda>s. JStr (session_status_word s)) (sf_status p)),
      (js ''rawStatus'', jstr (sf_rawStatus p)),
      (js ''failures'', writeFailures (sf_failures p))]"

definition write_attempt_started :: "attempt_started_payload \<Rightarrow> obj" where
  "write_attempt_started p =
     [(js ''attemptId'', JStr (as_attemptId p)), (js ''attemptNumber'', jint (as_attemptNumber p)),
      (js ''test'', JObj (write_test (as_test p)))]"

definition write_attempt_finished :: "attempt_finished_payload \<Rightarrow> obj" where
  "write_attempt_finished p = omitUndefined
     [(js ''attemptId'', Some (JStr (af_attemptId p))),
      (js ''status'', Some (JStr (status_word (af_status p)))),
      (js ''rawStatus'', jstr (af_rawStatus p)),
      (js ''expectedStatus'', map_option (\<lambda>s. JStr (expected_word s)) (af_expectedStatus p)),
      (js ''durationMs'', map_option jint (af_durationMs p)),
      (js ''failures'', writeFailures (af_failures p))]"

definition write_step_started :: "step_started_payload \<Rightarrow> obj" where
  "write_step_started p = omitUndefined
     [(js ''stepId'', Some (JStr (st_stepId p))),
      (js ''attemptId'', Some (JStr (st_attemptId p))),
      (js ''parentStepId'', jstr (st_parentStepId p)),
      (js ''name'', Some (JStr (st_name p))),
      (js ''kind'', jstr (st_kind p)),
      (js ''location'', map_option (\<lambda>l. JObj (writeLocation l)) (st_location p))]"

definition write_step_finished :: "step_finished_payload \<Rightarrow> obj" where
  "write_step_finished p = omitUndefined
     [(js ''stepId'', Some (JStr (sp_stepId p))),
      (js ''attemptId'', Some (JStr (sp_attemptId p))),
      (js ''status'', Some (JStr (status_word (sp_status p)))),
      (js ''rawStatus'', jstr (sp_rawStatus p)),
      (js ''durationMs'', map_option jint (sp_durationMs p)),
      (js ''failures'', writeFailures (sp_failures p))]"

definition write_attachment_added :: "attachment_added_payload \<Rightarrow> obj" where
  "write_attachment_added p = omitUndefined
     [(js ''attemptId'', Some (JStr (aa_attemptId p))),
      (js ''stepId'', jstr (aa_stepId p)),
      (js ''name'', Some (JStr (aa_name p))),
      (js ''mediaType'', Some (JStr (aa_mediaType p))),
      (js ''sizeBytes'', Some (jint (aa_sizeBytes p))),
      (js ''sha256'', Some (JStr (aa_sha256 p)))]"

definition write_scope_failed :: "scope_failed_payload \<Rightarrow> obj" where
  "write_scope_failed p = omitUndefined
     [(js ''path'', Some (JArr (map (\<lambda>s. JObj (writeSegment s)) (sc_path p)))),
      (js ''displayName'', jstr (sc_displayName p)),
      (js ''rawStatus'', jstr (sc_rawStatus p)),
      (js ''location'', map_option (\<lambda>l. JObj (writeLocation l)) (sc_location p)),
      (js ''failures'', writeFailures (Some (sc_failures p)))]"

text \<open>
  \<open>writePayload\<close> for a known type; the payload of an unknown event is copied as it is.
\<close>

fun writePayload :: "event_payload \<Rightarrow> obj" where
  "writePayload (SessionStarted p) = write_session_started p"
| "writePayload (SessionFinished p) = write_session_finished p"
| "writePayload RunFinished = []"
| "writePayload (AttemptStarted p) = write_attempt_started p"
| "writePayload (AttemptFinished p) = write_attempt_finished p"
| "writePayload (StepStarted p) = write_step_started p"
| "writePayload (StepFinished p) = write_step_finished p"
| "writePayload (AttachmentAdded p) = write_attachment_added p"
| "writePayload (ScopeFailed p) = write_scope_failed p"
| "writePayload (UnknownPayload _ p) = p"

definition eventToObject :: "event \<Rightarrow> json" where
  "eventToObject e = JObj (
     [(js ''protocolVersion'', JStr (protocolVersion e)),
      (js ''eventId'', JStr (eventId e)),
      (js ''eventType'', JStr (eventType e)),
      (js ''runId'', JStr (runId e)),
      (js ''sessionId'', JStr (sessionId e)),
      (js ''sequence'', jint (sequence e)),
      (js ''occurredAt'', JStr (occurredAt e))] @
     (case ignorable e of None \<Rightarrow> [] | Some b \<Rightarrow> [(js ''ignorable'', JBool b)]) @
     [(js ''payload'', JObj (writePayload (payload e)))])"

definition stringifyEvent :: "event \<Rightarrow> jstring" where
  "stringifyEvent e = stringify (eventToObject e)"

section \<open>Reading a written property\<close>

lemma omitUndefined_simps [simp]:
  "omitUndefined [] = []"
  "omitUndefined ((k, None) # ps) = omitUndefined ps"
  "omitUndefined ((k, Some v) # ps) = (k, v) # omitUndefined ps"
  by (simp_all add: omitUndefined_def)

lemma map_of_omitUndefined:
  "map_of (omitUndefined ((k, v) # ps)) f =
     (if f = k then (case v of Some x \<Rightarrow> Some x | None \<Rightarrow> map_of (omitUndefined ps) f)
      else map_of (omitUndefined ps) f)"
  by (cases v) auto

end
