(* ===== verification/Codec_Roundtrip.thy ===== *)
theory Codec_Roundtrip
  imports Codec_Write
begin

text \<open>
  What the codec promises: everything it reads is well formed, everything well formed is read
  back from what is written, up to the empty collections the writer leaves out.
\<close>

section \<open>Well-formed events\<close>

definition wf_int_opt :: "int option \<Rightarrow> bool" where
  "wf_int_opt i \<longleftrightarrow> (case i of None \<Rightarrow> True | Some n \<Rightarrow> is_safe_int n)"

definition wf_map :: "string_map option \<Rightarrow> bool" where
  "wf_map m \<longleftrightarrow> (case m of None \<Rightarrow> True | Some ps \<Rightarrow> jkeys_ok ps)"

definition wf_id_opt :: "jstring option \<Rightarrow> bool" where
  "wf_id_opt i \<longleftrightarrow> (case i of None \<Rightarrow> True | Some s \<Rightarrow> IDENTIFIER s)"

definition wf_location :: "location \<Rightarrow> bool" where
  "wf_location l \<longleftrightarrow> wf_int_opt (loc_line l) \<and> wf_int_opt (loc_column l)"

definition wf_location_opt :: "location option \<Rightarrow> bool" where
  "wf_location_opt l \<longleftrightarrow> (case l of None \<Rightarrow> True | Some x \<Rightarrow> wf_location x)"

definition wf_failure :: "failure \<Rightarrow> bool" where
  "wf_failure f \<longleftrightarrow> wf_location_opt (fail_location f)"

definition wf_failures :: "failure list option \<Rightarrow> bool" where
  "wf_failures fs \<longleftrightarrow> (case fs of None \<Rightarrow> True | Some l \<Rightarrow> list_all wf_failure l)"

definition wf_test :: "test_case \<Rightarrow> bool" where
  "wf_test t \<longleftrightarrow> IDENTIFIER (executionId t) \<and>
     (historicalIdStability t = Unavailable \<longleftrightarrow> historicalId t = None) \<and>
     wf_location_opt (tc_location t) \<and> wf_map (tc_labels t)"

text \<open>
  The rule \<open>session.finished\<close> keeps in the codec, the SDK and the schema: a raw status and
  failures need a status, and a passed session carries no failures.
\<close>

definition outcome_ok :: "session_finished_payload \<Rightarrow> bool" where
  "outcome_ok p \<longleftrightarrow>
     (let some = (case sf_failures p of None \<Rightarrow> False | Some l \<Rightarrow> l \<noteq> []) in
      (sf_status p = None \<longrightarrow> sf_rawStatus p = None \<and> \<not> some) \<and>
      (sf_status p = Some SessionPassed \<longrightarrow> \<not> some))"

fun wf_payload :: "bool option \<Rightarrow> event_payload \<Rightarrow> bool" where
  "wf_payload ign (SessionStarted p) = (wf_map (ss_environment p) \<and> wf_map (ss_labels p))"
| "wf_payload ign (SessionFinished p) = (outcome_ok p \<and> wf_failures (sf_failures p))"
| "wf_payload ign RunFinished = True"
| "wf_payload ign (AttemptStarted p) =
     (IDENTIFIER (as_attemptId p) \<and> 1 \<le> as_attemptNumber p \<and> as_attemptNumber p \<le> 1000 \<and>
      wf_test (as_test p))"
| "wf_payload ign (AttemptFinished p) =
     (IDENTIFIER (af_attemptId p) \<and> wf_int_opt (af_durationMs p) \<and> wf_failures (af_failures p))"
| "wf_payload ign (StepStarted p) =
     (IDENTIFIER (st_stepId p) \<and> IDENTIFIER (st_attemptId p) \<and> wf_id_opt (st_parentStepId p) \<and>
      wf_location_opt (st_location p))"
| "wf_payload ign (StepFinished p) =
     (IDENTIFIER (sp_stepId p) \<and> IDENTIFIER (sp_attemptId p) \<and> wf_int_opt (sp_durationMs p) \<and>
      wf_failures (sp_failures p))"
| "wf_payload ign (AttachmentAdded p) =
     (IDENTIFIER (aa_attemptId p) \<and> wf_id_opt (aa_stepId p) \<and> is_safe_int (aa_sizeBytes p))"
| "wf_payload ign (ScopeFailed p) =
     (sc_path p \<noteq> [] \<and> wf_location_opt (sc_location p) \<and> sc_failures p \<noteq> [] \<and>
      list_all wf_failure (sc_failures p))"
| "wf_payload ign (UnknownPayload t p) =
     (EVENT_TYPE t \<and> \<not> isKnownEventType t \<and> ign = Some True)"

definition wf_event :: "event \<Rightarrow> bool" where
  "wf_event e \<longleftrightarrow>
     isSupportedVersionText (protocolVersion e) \<and> IDENTIFIER (eventId e) \<and> IDENTIFIER (runId e) \<and>
     IDENTIFIER (sessionId e) \<and> 1 \<le> sequence e \<and> is_safe_int (sequence e) \<and>
     TIMESTAMP (occurredAt e) \<and> wf_payload (ignorable e) (payload e)"

section \<open>The normal form writing leaves\<close>

definition drop_empty :: "'a list option \<Rightarrow> 'a list option" where
  "drop_empty l = (case l of Some [] \<Rightarrow> None | _ \<Rightarrow> l)"

lemma drop_empty_simps [simp]:
  "drop_empty None = None"
  "drop_empty (Some l) = (if l = [] then None else Some l)"
  by (simp_all add: drop_empty_def split: list.splits)

definition normal_test :: "test_case \<Rightarrow> test_case" where
  "normal_test t = t\<lparr>tc_tags := drop_empty (tc_tags t), tc_labels := drop_empty (tc_labels t)\<rparr>"

fun normal_payload :: "event_payload \<Rightarrow> event_payload" where
  "normal_payload (SessionStarted p) =
     SessionStarted (p\<lparr>ss_environment := drop_empty (ss_environment p),
       ss_labels := drop_empty (ss_labels p)\<rparr>)"
| "normal_payload (SessionFinished p) =
     SessionFinished (p\<lparr>sf_failures := drop_empty (sf_failures p)\<rparr>)"
| "normal_payload (AttemptStarted p) = AttemptStarted (p\<lparr>as_test := normal_test (as_test p)\<rparr>)"
| "normal_payload (AttemptFinished p) =
     AttemptFinished (p\<lparr>af_failures := drop_empty (af_failures p)\<rparr>)"
| "normal_payload (StepFinished p) = StepFinished (p\<lparr>sp_failures := drop_empty (sp_failures p)\<rparr>)"
| "normal_payload p = p"

definition normal_event :: "event \<Rightarrow> event" where
  "normal_event e = e\<lparr>payload := normal_payload (payload e)\<rparr>"

section \<open>Reading what was written\<close>

text \<open>
  Each reader, given what \<^const>\<open>present\<close> finds; then what \<^const>\<open>present\<close> finds in an object
  made of optional properties.  The collection \<open>codec_simps\<close> is this little calculus.
\<close>

named_theorems codec_simps

fun found :: "json option \<Rightarrow> json option \<Rightarrow> json option" where
  "found None later = later"
| "found (Some JNull) later = None"
| "found (Some v) later = Some v"

lemma present_omit [codec_simps]:
  "present (omitUndefined ((k, v) # ps)) f =
     (if f = k then found v (present (omitUndefined ps) f) else present (omitUndefined ps) f)"
  by (cases "(v, present (omitUndefined ps) f)" rule: found.cases) (auto simp: present_def)

lemma present_omit_Nil [codec_simps]: "present (omitUndefined []) f = None"
  by (simp add: present_def)

lemma present_Nil [codec_simps]: "present [] f = None"
  by (simp add: present_def)

lemma present_Cons [codec_simps]:
  "present ((k, v) # ps) f = (if f = k then found (Some v) None else present ps f)"
  by (cases v) (auto simp: present_def)

lemma present_append [codec_simps]:
  "present (case b of None \<Rightarrow> [] | Some x \<Rightarrow> [(k, g x)]) f =
     (if f = k then found (map_option g b) None else None)"
  by (auto simp: present_def split: option.splits json.splits)

lemma found_written [codec_simps]:
  "found (jstr s) None = jstr s"
  "found (map_option (\<lambda>a. JStr (w a)) t) None = map_option (\<lambda>a. JStr (w a)) t"
  "found (map_option jint i) None = map_option jint i"
  "found (map_option (\<lambda>x. JObj (g x)) y) None = map_option (\<lambda>x. JObj (g x)) y"
  "found (map_option JBool b) None = map_option JBool b"
  "found (write_map m) None = write_map m"
  "found (write_tags tg) None = write_tags tg"
  "found (writeFailures fs) None = writeFailures fs"
  by (auto simp: write_map_def write_tags_def writeFailures_def option.map_comp
      split: option.splits) (cases s; cases t; cases i; cases y; cases b; simp)+

declare omitUndefined_simps(2,3) [simp del]

lemma read_required [codec_simps]: "present obj f = Some v \<Longrightarrow> required obj f at = Inr v"
  by (simp add: required_def)

lemma read_requiredString [codec_simps]:
  "present obj f = Some (JStr s) \<Longrightarrow> requiredString obj f at = Inr s"
  by (simp add: required_def requiredString_def)

lemma read_optionalString [codec_simps]:
  "present obj f = jstr s \<Longrightarrow> optionalString obj f at = Inr s"
  by (cases s) (simp_all add: optionalString_def)

lemma read_optionalWord [codec_simps]:
  "present obj f = map_option (\<lambda>a. JStr (w a)) s \<Longrightarrow>
   optionalString obj f at = Inr (map_option w s)"
  by (cases s) (simp_all add: optionalString_def)

lemma read_optionalString_cases [codec_simps]:
  "present obj f = None \<Longrightarrow> optionalString obj f at = Inr None"
  "present obj f = Some (JStr s) \<Longrightarrow> optionalString obj f at = Inr (Some s)"
  by (simp_all add: optionalString_def)

lemma read_written_identifier [codec_simps]:
  "present obj f = Some (JStr s) \<Longrightarrow> IDENTIFIER s \<Longrightarrow> read_identifier obj f at = Inr s"
  by (simp add: read_identifier_def codec_simps)

lemma read_optionalIdentifier [codec_simps]:
  "present obj f = jstr s \<Longrightarrow> wf_id_opt s \<Longrightarrow> optionalIdentifier obj f at = Inr s"
  by (cases s) (simp_all add: optionalIdentifier_def optionalString_def wf_id_opt_def)

lemma read_integral [codec_simps]:
  "present obj f = Some (jint i) \<Longrightarrow> is_safe_int i \<Longrightarrow> integral obj f at = Inr i"
  by (simp add: integral_def codec_simps)

lemma read_optionalIntegral [codec_simps]:
  "present obj f = map_option jint i \<Longrightarrow> wf_int_opt i \<Longrightarrow> optionalIntegral obj f at = Inr i"
  by (cases i) (simp_all add: optionalIntegral_def wf_int_opt_def)

lemma read_optionalObject [codec_simps]:
  "present obj f = map_option (\<lambda>x. JObj (g x)) y \<Longrightarrow>
   (\<And>x at. y = Some x \<Longrightarrow> rd (g x) at = Inr x) \<Longrightarrow> optionalObject obj f at rd = Inr y"
  by (cases y) (simp_all add: optionalObject_def)

lemma map_string_entry: "map_r (string_entry at) i (map (\<lambda>p. (fst p, JStr (snd p))) ps) = Inr ps"
  by (rule map_r_map_id) (simp add: string_entry_def)

lemma map_string_item: "map_r (string_item at) i (map JStr ss) = Inr ss"
  by (rule map_r_map_id) (simp add: string_item_def)

lemma read_stringMap [codec_simps]:
  "present obj f = write_map m \<Longrightarrow> wf_map m \<Longrightarrow> stringMap obj f at = Inr (drop_empty m)"
  by (cases m)
    (simp_all add: stringMap_def write_map_def wf_map_def from_entries_id map_string_entry)

lemma read_stringList [codec_simps]:
  "present obj f = write_tags t \<Longrightarrow> stringList obj f at = Inr (drop_empty t)"
  by (cases t) (simp_all add: stringList_def write_tags_def map_string_item)

lemma oneOf_word [codec_simps]:
  "map_of allowed v = Some a \<Longrightarrow> oneOf v allowed at = Inr a"
  by (simp add: oneOf_def)

section \<open>Round trip of the parts\<close>

lemma read_writeComponent [codec_simps]: "read_component (writeComponent c) at = Inr c"
  by (simp add: read_component_def writeComponent_def codec_simps)

lemma read_write_executor [codec_simps]: "read_executor (write_executor x) at = Inr x"
  by (simp add: read_executor_def write_executor_def codec_simps)

lemma read_write_source [codec_simps]: "read_source (write_source x) at = Inr x"
  by (simp add: read_source_def write_source_def codec_simps)

lemma read_writeLocation [codec_simps]:
  "wf_location l \<Longrightarrow> read_location (writeLocation l) at = Inr l"
  by (simp add: read_location_def writeLocation_def wf_location_def codec_simps)

lemma read_location_opt [codec_simps]:
  "present obj f = map_option (\<lambda>l. JObj (writeLocation l)) l \<Longrightarrow> wf_location_opt l \<Longrightarrow>
   optionalObject obj f at read_location = Inr l"
  by (rule read_optionalObject [where g = writeLocation])
    (auto simp: wf_location_opt_def codec_simps)

lemma read_writeFailure [codec_simps]:
  "wf_failure f \<Longrightarrow> read_failure (writeFailure f) at = Inr f"
  by (cases "fail_phase f")
    (simp_all add: read_failure_def writeFailure_def wf_failure_def codec_simps)

lemma map_failure_item:
  "list_all wf_failure l \<Longrightarrow> map_r (failure_item at) i (map (\<lambda>f. JObj (writeFailure f)) l) = Inr l"
  by (rule map_r_map_id) (simp add: failure_item_def list_all_iff codec_simps)

lemma read_writeFailures [codec_simps]:
  "present obj (js ''failures'') = writeFailures fs \<Longrightarrow> wf_failures fs \<Longrightarrow>
   read_failures obj at = Inr (drop_empty fs)"
  by (cases fs) (simp_all add: read_failures_def writeFailures_def wf_failures_def map_failure_item)

lemma read_pathSegments [codec_simps]:
  "pathSegments (JArr (map (\<lambda>s. JObj (writeSegment s)) path)) at = Inr path"
  unfolding pathSegments_def json.case
  by (rule map_r_map_id) (simp add: segment_item_def writeSegment_def codec_simps)

lemma read_write_test [codec_simps]:
  assumes "wf_test t"
  shows "read_testCase (write_test t) at = Inr (normal_test t)"
proof -
  from assms have "\<not> (historicalIdStability t = Unavailable \<and> historicalId t \<noteq> None)"
    "\<not> (historicalIdStability t \<noteq> Unavailable \<and> historicalId t = None)"
    by (auto simp: wf_test_def)
  with assms show ?thesis
    by (simp add: read_testCase_def write_test_def wf_test_def normal_test_def codec_simps)
qed

section \<open>Round trip of the payloads\<close>

lemma read_write_session_started [codec_simps]:
  "wf_payload ign (SessionStarted p) \<Longrightarrow>
   read_session_started (write_session_started p) = Inr (normal_payload (SessionStarted p))"
  by (simp add: read_session_started_def write_session_started_def codec_simps
      read_optionalObject [where g = writeComponent] read_optionalObject [where g = write_executor]
      read_optionalObject [where g = write_source])

lemma read_write_session_finished [codec_simps]:
  assumes "wf_payload ign (SessionFinished p)"
  shows "read_session_finished (write_session_finished p) = Inr (normal_payload (SessionFinished p))"
proof -
  obtain st raw fs where p: "p = \<lparr>sf_status = st, sf_rawStatus = raw, sf_failures = fs\<rparr>"
    by (cases p)
  with assms show ?thesis
    by (cases st; cases fs)
      (auto simp: read_session_finished_def write_session_finished_def outcome_ok_def codec_simps)
qed

lemma read_write_attempt_started [codec_simps]:
  "wf_payload ign (AttemptStarted p) \<Longrightarrow>
   read_attempt_started (write_attempt_started p) = Inr (normal_payload (AttemptStarted p))"
  by (simp add: read_attempt_started_def write_attempt_started_def is_safe_int_def
      MAX_SAFE_INTEGER_def codec_simps)

lemma read_write_attempt_finished [codec_simps]:
  "wf_payload ign (AttemptFinished p) \<Longrightarrow>
   read_attempt_finished (write_attempt_finished p) = Inr (normal_payload (AttemptFinished p))"
  by (cases "af_expectedStatus p")
    (simp_all add: read_attempt_finished_def write_attempt_finished_def codec_simps)

lemma read_write_step_started [codec_simps]:
  "wf_payload ign (StepStarted p) \<Longrightarrow>
   read_step_started (write_step_started p) = Inr (StepStarted p)"
  by (simp add: read_step_started_def write_step_started_def codec_simps)

lemma read_write_step_finished [codec_simps]:
  "wf_payload ign (StepFinished p) \<Longrightarrow>
   read_step_finished (write_step_finished p) = Inr (normal_payload (StepFinished p))"
  by (simp add: read_step_finished_def write_step_finished_def codec_simps)

lemma read_write_attachment_added [codec_simps]:
  "wf_payload ign (AttachmentAdded p) \<Longrightarrow>
   read_attachment_added (write_attachment_added p) = Inr (AttachmentAdded p)"
  by (simp add: read_attachment_added_def write_attachment_added_def codec_simps)

lemma read_write_scope_failed [codec_simps]:
  assumes "wf_payload ign (ScopeFailed p)"
  shows "read_scope_failed (write_scope_failed p) = Inr (ScopeFailed p)"
proof -
  from assms obtain f r where "sc_failures p = f # r"
    by (cases "sc_failures p") auto
  with assms show ?thesis
    by (simp add: read_scope_failed_def write_scope_failed_def wf_failures_def codec_simps)
qed

lemma readPayload_writePayload:
  assumes "wf_payload ign pl"
  shows "readPayload (payload_type pl) (writePayload pl) (ign = Some True) = Inr (normal_payload pl)"
proof (cases pl)
  case (UnknownPayload t p)
  with assms show ?thesis
    by (auto simp: readPayload_def isKnownEventType_def EVENT_TYPES_def)
qed (use assms in \<open>simp_all add: readPayload_def codec_simps\<close>)

section \<open>Round trip of events\<close>

lemma EVENT_TYPE_known: "isKnownEventType t \<Longrightarrow> EVENT_TYPE t"
  by (auto simp: isKnownEventType_def EVENT_TYPES_def EVENT_TYPE_def is_type_word_def js_def
      char_class_defs)

lemma EVENT_TYPE_payload: "wf_payload ign pl \<Longrightarrow> EVENT_TYPE (payload_type pl)"
  by (cases pl) (simp_all add: EVENT_TYPE_known isKnownEventType_def EVENT_TYPES_def)

lemma read_written_version [codec_simps]:
  "present root (js ''protocolVersion'') = Some (JStr v) \<Longrightarrow> isSupportedVersionText v \<Longrightarrow>
   read_version root = Inr v"
  by (auto simp: read_version_def isSupportedVersionText_def codec_simps split: option.splits)

lemma read_written_ignorable [codec_simps]:
  "present root (js ''ignorable'') = map_option JBool b \<Longrightarrow> read_ignorable root = Inr b"
  by (cases b) (simp_all add: read_ignorable_def)

definition envelope_obj :: "event \<Rightarrow> obj" where
  "envelope_obj e = omitUndefined
     [(js ''protocolVersion'', Some (JStr (protocolVersion e))),
      (js ''eventId'', Some (JStr (eventId e))),
      (js ''eventType'', Some (JStr (eventType e))),
      (js ''runId'', Some (JStr (runId e))),
      (js ''sessionId'', Some (JStr (sessionId e))),
      (js ''sequence'', Some (jint (sequence e))),
      (js ''occurredAt'', Some (JStr (occurredAt e))),
      (js ''ignorable'', map_option JBool (ignorable e)),
      (js ''payload'', Some (JObj (writePayload (payload e))))]"

lemma eventToObject_omit: "eventToObject e = JObj (envelope_obj e)"
  by (cases "ignorable e") (simp_all add: eventToObject_def envelope_obj_def omitUndefined_simps)

lemma envelope_payload: "map_of (envelope_obj e) (js ''payload'') = Some (JObj (writePayload (payload e)))"
  by (cases "ignorable e") (simp_all add: envelope_obj_def omitUndefined_simps)

lemma eventFromObject_eventToObject:
  assumes "wf_event e"
  shows "eventFromObject (eventToObject e) = Inr (normal_event e)"
proof -
  let ?root = "envelope_obj e"
  have fields: "read_version ?root = Inr (protocolVersion e)"
    "requiredString ?root (js ''eventType'') [] = Inr (payload_type (payload e))"
    "read_identifier ?root (js ''eventId'') [] = Inr (eventId e)"
    "read_identifier ?root (js ''runId'') [] = Inr (runId e)"
    "read_identifier ?root (js ''sessionId'') [] = Inr (sessionId e)"
    "integral ?root (js ''sequence'') [] = Inr (sequence e)"
    "requiredString ?root (js ''occurredAt'') [] = Inr (occurredAt e)"
    "read_ignorable ?root = Inr (ignorable e)"
    using assms by (simp_all add: wf_event_def envelope_obj_def eventType_def codec_simps)
  from assms have "wf_payload (ignorable e) (payload e)" "1 \<le> sequence e" "TIMESTAMP (occurredAt e)"
    by (simp_all add: wf_event_def)
  then show ?thesis
    using fields EVENT_TYPE_payload readPayload_writePayload
    by (simp add: eventToObject_omit envelope_payload normal_event_def)
qed

section \<open>What is read is well formed\<close>

lemma integral_safe: "integral obj f at = Inr i \<Longrightarrow> is_safe_int i"
  by (auto elim!: bind_r_InrE simp: integral_def safe_integer_Some_iff split: option.split_asm)

lemma optionalIntegral_wf: "optionalIntegral obj f at = Inr i \<Longrightarrow> wf_int_opt i"
  by (auto simp: optionalIntegral_def wf_int_opt_def safe_integer_Some_iff split: option.split_asm)

lemma identifier_wf: "read_identifier obj f at = Inr s \<Longrightarrow> IDENTIFIER s"
  by (auto elim!: bind_r_InrE simp: read_identifier_def split: if_split_asm)

lemma optionalIdentifier_wf: "optionalIdentifier obj f at = Inr s \<Longrightarrow> wf_id_opt s"
  by (auto elim!: bind_r_InrE simp: optionalIdentifier_def wf_id_opt_def split: if_split_asm option.split_asm)

lemma stringMap_wf: "stringMap obj f at = Inr m \<Longrightarrow> wf_map m"
  by (auto elim!: bind_r_InrE simp: stringMap_def wf_map_def split: option.split_asm json.split_asm)

lemma location_wf: "read_location obj at = Inr l \<Longrightarrow> wf_location l"
  by (auto elim!: bind_r_InrE simp: read_location_def wf_location_def intro: optionalIntegral_wf)

lemma location_opt_wf: "optionalObject obj f at read_location = Inr l \<Longrightarrow> wf_location_opt l"
  by (auto elim!: bind_r_InrE simp: optionalObject_def wf_location_opt_def location_wf
      split: option.split_asm json.split_asm)

lemma failure_wf: "read_failure f at = Inr x \<Longrightarrow> wf_failure x"
  by (auto elim!: bind_r_InrE simp: read_failure_def wf_failure_def intro: location_opt_wf)

lemma failures_wf:
  assumes "read_failures obj at = Inr fs"
  shows "wf_failures fs"
proof (cases fs)
  case (Some l)
  with assms obtain vs a where "map_r (failure_item a) 0 vs = Inr l"
    by (auto elim!: bind_r_InrE simp: read_failures_def split: option.split_asm json.split_asm)
  then have "wf_failure x" if "x \<in> set l" for x
  proof -
    from map_r_set [OF \<open>map_r (failure_item a) 0 vs = Inr l\<close> that] obtain k v
      where "failure_item a k v = Inr x" by blast
    then show ?thesis
      by (cases v) (auto simp: failure_item_def Let_def intro: failure_wf)
  qed
  with Some show ?thesis by (simp add: wf_failures_def list_all_iff)
qed (simp add: wf_failures_def)

lemma testCase_wf: "read_testCase obj at = Inr t \<Longrightarrow> wf_test t"
  by (auto elim!: bind_r_InrE simp: read_testCase_def wf_test_def split: if_split_asm
      dest!: identifier_wf location_opt_wf stringMap_wf)

lemmas part_wf = integral_safe optionalIntegral_wf identifier_wf optionalIdentifier_wf stringMap_wf
  location_opt_wf failures_wf testCase_wf

lemma session_started_wf: "read_session_started p = Inr pl \<Longrightarrow> wf_payload ign pl"
  by (auto elim!: bind_r_InrE simp: read_session_started_def split: json.split_asm dest!: part_wf)

lemma session_finished_wf: "read_session_finished p = Inr pl \<Longrightarrow> wf_payload ign pl"
  by (auto elim!: bind_r_InrE simp: read_session_finished_def outcome_ok_def wf_failures_def Let_def
      split: option.split_asm if_split_asm dest!: failures_wf)

lemma attempt_started_wf: "read_attempt_started p = Inr pl \<Longrightarrow> wf_payload ign pl"
  by (auto elim!: bind_r_InrE simp: read_attempt_started_def split: json.split_asm if_split_asm dest!: part_wf)

lemma attempt_finished_wf: "read_attempt_finished p = Inr pl \<Longrightarrow> wf_payload ign pl"
  by (auto elim!: bind_r_InrE simp: read_attempt_finished_def dest!: part_wf)

lemma step_started_wf: "read_step_started p = Inr pl \<Longrightarrow> wf_payload ign pl"
  by (auto elim!: bind_r_InrE simp: read_step_started_def dest!: part_wf)

lemma step_finished_wf: "read_step_finished p = Inr pl \<Longrightarrow> wf_payload ign pl"
  by (auto elim!: bind_r_InrE simp: read_step_finished_def dest!: part_wf)

lemma attachment_added_wf: "read_attachment_added p = Inr pl \<Longrightarrow> wf_payload ign pl"
  by (auto elim!: bind_r_InrE simp: read_attachment_added_def dest!: part_wf)

lemma scope_failed_wf: "read_scope_failed p = Inr pl \<Longrightarrow> wf_payload ign pl"
  by (auto elim!: bind_r_InrE simp: read_scope_failed_def wf_failures_def
      split: option.split_asm list.split_asm if_split_asm dest!: location_opt_wf failures_wf)

lemmas payload_readers_wf = session_started_wf session_finished_wf attempt_started_wf
  attempt_finished_wf step_started_wf step_finished_wf attachment_added_wf scope_failed_wf

lemma readPayload_wf:
  assumes "readPayload t p (ign = Some True) = Inr pl" and "EVENT_TYPE t"
  shows "wf_payload ign pl"
  using assms
  by (auto simp: readPayload_def isKnownEventType_def EVENT_TYPES_def
      split: if_split_asm intro: payload_readers_wf)

lemma version_supported: "read_version root = Inr v \<Longrightarrow> isSupportedVersionText v"
  by (auto elim!: bind_r_InrE simp: read_version_def isSupportedVersionText_def
      split: option.split_asm if_split_asm)

lemma eventFromObject_wf:
  assumes "eventFromObject j = Inr e"
  shows "wf_event e"
proof -
  from assms obtain root where j: "j = JObj root"
    by (cases j) auto
  show ?thesis
    using assms unfolding j
    by (auto elim!: bind_r_InrE split: if_split_asm option.split_asm json.split_asm
        simp: wf_event_def
        dest!: version_supported identifier_wf integral_safe readPayload_wf)
qed

section \<open>Properties of the codec\<close>

definition sample_test :: test_case where
  "sample_test = \<lparr>executionId = js ''exec-1'', historicalId = Some (js ''h1''), historicalIdStability = Stable,
     tc_displayName = js ''adds'', tc_path = [\<lparr>seg_kind = js ''file'', seg_name = js ''a.spec.ts''\<rparr>],
     tc_location = Some \<lparr>loc_file = js ''a.spec.ts'', loc_line = Some 7, loc_column = None\<rparr>,
     tc_tags = Some [], tc_labels = Some [(js ''issue'', js ''QE-1'')]\<rparr>"

definition sample_event :: event where
  "sample_event = \<lparr>protocolVersion = js ''0.3.0'', eventId = js ''e2'', runId = js ''r'', sessionId = js ''s'',
     sequence = 2, occurredAt = js ''2026-09-11T10:00:30.000+00:00'', ignorable = None,
     payload = AttemptStarted \<lparr>as_attemptId = js ''a1'', as_attemptNumber = 1, as_test = sample_test\<rparr>\<rparr>"

lemma sample_event_wf: "wf_event sample_event"
  unfolding wf_event_def sample_event_def by code_simp

text \<open>
  C4. Writing an event and reading it back gives the event again, except that empty tags, labels,
  environments and failure lists, which the writer leaves out, come back absent.
\<close>

theorem codec_roundtrip:
  assumes "wf_event e"
  shows "eventFromObject (eventToObject e) = Inr (normal_event e)"
  using assms by (rule eventFromObject_eventToObject)

theorem codec_roundtrip_witness:
  "wf_event sample_event \<and> eventFromObject (eventToObject sample_event) = Inr (normal_event sample_event)"
  using codec_roundtrip [OF sample_event_wf] sample_event_wf by simp

text \<open>
  C5. Whatever JSON value is given, an event that is read from it is well formed: a version of the
  supported line, printable identifiers, a positive safe sequence number, an RFC 3339 timestamp,
  a payload that obeys the rules of its type; and it survives being written and read again.
\<close>

theorem codec_reads_well_formed:
  assumes "eventFromObject j = Inr e"
  shows "wf_event e \<and> eventFromObject (eventToObject e) = Inr (normal_event e)"
  using eventFromObject_wf [OF assms] eventFromObject_eventToObject by blast

theorem codec_reads_well_formed_witness:
  "eventFromObject (eventToObject sample_event) = Inr (normal_event sample_event) \<and>
   wf_event (normal_event sample_event)"
  using codec_reads_well_formed [OF eventFromObject_eventToObject [OF sample_event_wf]]
    eventFromObject_eventToObject [OF sample_event_wf] by simp

lemma drop_empty_idem [simp]: "drop_empty (drop_empty l) = drop_empty l"
  by (cases l) simp_all

lemma normal_payload_idem: "normal_payload (normal_payload p) = normal_payload p"
  by (cases p) (simp_all add: normal_test_def)

lemma write_drop_empty:
  "writeFailures (drop_empty fs) = writeFailures fs" "write_map (drop_empty m) = write_map m"
  "write_tags (drop_empty t) = write_tags t"
  by (simp_all add: writeFailures_def write_map_def write_tags_def split: option.splits)

lemma writePayload_normal: "writePayload (normal_payload p) = writePayload p"
  by (cases p) (simp_all add: write_drop_empty normal_test_def write_session_started_def
      write_session_finished_def write_attempt_started_def write_attempt_finished_def
      write_step_finished_def write_test_def)

lemma normal_payload_type: "payload_type (normal_payload p) = payload_type p"
  by (cases p) simp_all

text \<open>
  The normal form is canonical for writing: it writes the same object as the event it comes
  from and is its own normal form, so every further trip through the codec changes nothing.
\<close>

theorem codec_normal_form_stable:
  "eventToObject (normal_event e) = eventToObject e \<and> normal_event (normal_event e) = normal_event e"
  by (simp add: eventToObject_def normal_event_def eventType_def writePayload_normal
      normal_payload_type normal_payload_idem)

text \<open>
  The supported protocol versions are exactly the texts \<open>0.3.n\<close> with a decimal patch number
  without leading zeros.
\<close>

theorem supported_version_line:
  "isSupportedVersionText v \<longleftrightarrow> (\<exists>n. v = version_text 0 3 n)"
proof
  assume "isSupportedVersionText v"
  then obtain a b c where abc: "split_on 0x2E v = [a, b, c]" "is_numeral a" "is_numeral b" "is_numeral c"
    "digits_value a = 0" "digits_value b = 3"
    by (auto simp: isSupportedVersionText_def parseProtocolVersion_def isSupportedProtocolVersion_def
        split: option.splits list.splits if_splits)
  have "v = a @ [0x2E] @ b @ [0x2E] @ c"
    using split_on_join [where c = "0x2E" and s = v] abc(1) by simp
  moreover have "a = show_nat 0" "b = show_nat 3" "c = show_nat (digits_value c)"
    using abc show_nat_digits_value by metis+
  ultimately have "v = version_text 0 3 (digits_value c)"
    by (simp add: version_text_def js_def)
  then show "\<exists>n. v = version_text 0 3 n" ..
next
  assume "\<exists>n. v = version_text 0 3 n"
  then show "isSupportedVersionText v"
    by (auto simp: isSupportedVersionText_def parse_version_text isSupportedProtocolVersion_def)
qed

text \<open>
  An event of a type this binding does not know is read only if its producer marked it
  ignorable, and then its payload is kept exactly as it was written.
\<close>

theorem unknown_event_kept_verbatim:
  assumes "eventFromObject j = Inr e" and "\<not> isKnownEvent e"
  shows "ignorable e = Some True \<and>
    (\<exists>root p root'. j = JObj root \<and> map_of root (js ''payload'') = Some (JObj p) \<and>
       eventToObject e = JObj root' \<and> map_of root' (js ''payload'') = Some (JObj p))"
proof -
  have "wf_event e" by (rule eventFromObject_wf [OF assms(1)])
  with assms(2) obtain t q where q: "payload e = UnknownPayload t q" and ign: "ignorable e = Some True"
    using known_payload_type [of "payload e"]
    by (cases "payload e") (auto simp: isKnownEvent_def eventType_def wf_event_def)
  from assms(1) obtain root where j: "j = JObj root" by (cases j) auto
  have pl: "readPayload u p b = Inr (UnknownPayload t q) \<Longrightarrow> p = q" for u p b
    by (auto simp: readPayload_def read_session_started_def read_session_finished_def
        read_attempt_started_def read_attempt_finished_def read_step_started_def read_step_finished_def
        read_attachment_added_def read_scope_failed_def Let_def
        elim!: bind_r_InrE split: if_split_asm json.split_asm option.split_asm list.split_asm)
  have "map_of root (js ''payload'') = Some (JObj q)"
    using assms(1) q unfolding j
    by (auto elim!: bind_r_InrE split: if_split_asm option.split_asm json.split_asm dest!: pl)
  then show ?thesis
    using ign j q envelope_payload [of e] by (auto simp: eventToObject_omit)
qed

definition sample_unknown :: event where
  "sample_unknown = sample_event\<lparr>ignorable := Some True,
     payload := UnknownPayload (js ''worker.idle'') [(js ''note'', JStr (js ''kept''))]\<rparr>"

lemma sample_unknown_read: "eventFromObject (eventToObject sample_unknown) = Inr sample_unknown"
proof -
  have "wf_event sample_unknown"
    unfolding wf_event_def sample_unknown_def sample_event_def by code_simp
  moreover have "normal_event sample_unknown = sample_unknown"
    by (simp add: sample_unknown_def normal_event_def)
  ultimately show ?thesis using eventFromObject_eventToObject [of sample_unknown] by simp
qed

lemma sample_unknown_type: "\<not> isKnownEvent sample_unknown"
  by (simp add: sample_unknown_def isKnownEvent_def eventType_def isKnownEventType_def EVENT_TYPES_def)

theorem unknown_event_kept_verbatim_witness:
  "ignorable sample_unknown = Some True \<and>
    (\<exists>root p root'. eventToObject sample_unknown = JObj root \<and> map_of root (js ''payload'') = Some (JObj p) \<and>
       eventToObject sample_unknown = JObj root' \<and> map_of root' (js ''payload'') = Some (JObj p))"
  by (rule unknown_event_kept_verbatim [OF sample_unknown_read sample_unknown_type])

definition envelope_fields :: "jstring list" where
  "envelope_fields = [js ''protocolVersion'', js ''eventType'', js ''eventId'', js ''runId'',
     js ''sessionId'', js ''sequence'', js ''occurredAt'', js ''ignorable'', js ''payload'']"

lemma envelope_readers_cong:
  assumes "map (map_of r) envelope_fields = map (map_of s) envelope_fields"
  shows "eventFromObject (JObj r) = eventFromObject (JObj s)"
proof -
  have fields: "map_of r f = map_of s f" if "f \<in> set envelope_fields" for f
    using assms that by simp
  then have pres: "present r f = present s f" if "f \<in> set envelope_fields" for f
    using that by (simp add: present_def)
  have get: "map_of r (js ''payload'') = map_of s (js ''payload'')"
    by (rule fields) (simp add: envelope_fields_def)
  have str: "requiredString r f at = requiredString s f at"
    and idf: "read_identifier r f at = read_identifier s f at"
    and int: "integral r f at = integral s f at" if "f \<in> set envelope_fields" for f at
    using pres [OF that] by (simp_all add: required_def requiredString_def read_identifier_def integral_def)
  have "read_version r = read_version s" "read_ignorable r = read_ignorable s"
    "requiredString r (js ''eventType'') [] = requiredString s (js ''eventType'') []"
    "requiredString r (js ''occurredAt'') [] = requiredString s (js ''occurredAt'') []"
    "read_identifier r (js ''eventId'') [] = read_identifier s (js ''eventId'') []"
    "read_identifier r (js ''runId'') [] = read_identifier s (js ''runId'') []"
    "read_identifier r (js ''sessionId'') [] = read_identifier s (js ''sessionId'') []"
    "integral r (js ''sequence'') [] = integral s (js ''sequence'') []"
    using pres by (simp_all add: str idf int read_version_def read_ignorable_def envelope_fields_def)
  then show ?thesis
    by (simp only: eventFromObject.simps get)
qed

text \<open>
  Reading an event looks at its nine envelope properties only: any further property, and the
  order of the properties, makes no difference to the event or to the error.
\<close>

theorem unknown_properties_ignored:
  assumes "map (map_of r) envelope_fields = map (map_of s) envelope_fields"
  shows "eventFromObject (JObj r) = eventFromObject (JObj s)"
  using assms by (rule envelope_readers_cong)

definition sample_root :: obj where
  "sample_root = [(js ''protocolVersion'', JStr (js ''0.3.7'')), (js ''eventType'', JStr (js ''run.finished'')),
     (js ''eventId'', JStr (js ''e9'')), (js ''runId'', JStr (js ''r'')), (js ''sessionId'', JStr (js ''s'')),
     (js ''sequence'', JNum (Whole 9)), (js ''occurredAt'', JStr (js ''2026-09-11T10:00:30Z'')),
     (js ''payload'', JObj [])]"

lemma sample_root_fields:
  "map (map_of (sample_root @ [(js ''extra'', JNull)])) envelope_fields = map (map_of sample_root) envelope_fields"
  by (simp add: envelope_fields_def sample_root_def)

theorem unknown_properties_ignored_witness:
  "eventFromObject (JObj (sample_root @ [(js ''extra'', JNull)])) = eventFromObject (JObj sample_root)"
  by (rule unknown_properties_ignored [OF sample_root_fields])

end
