(* ===== verification/Validator_Rules.thy ===== *)
theory Validator_Rules
  imports Validator Codec_Roundtrip
begin

text \<open>
  Each handler of the validator in the absence of an error: the condition under which it records
  none, and the state it then leaves.  \<open>clean\<close> says that no error diagnostic has been recorded,
  which is what a valid report means.
\<close>

section \<open>States without an error\<close>

definition clean :: "validator \<Rightarrow> bool" where
  "clean st \<longleftrightarrow> list_all (\<lambda>d. dg_severity d \<noteq> SevError) (diagnostics st)"

named_theorems clean_simps

lemma clean_push [clean_simps]: "clean (push d st) \<longleftrightarrow> clean st \<and> dg_severity d \<noteq> SevError"
  by (simp add: clean_def push_def)

lemma error_severity [clean_simps]: "dg_severity (error_diagnostic at c m p i) = SevError"
  by (simp add: error_diagnostic_def)

lemma info_severity [clean_simps]: "dg_severity (info_diagnostic at c m i) = SevInfo"
  by (simp add: info_diagnostic_def)

lemma lifecycle_severity [clean_simps]: "dg_severity (lifecycle_diagnostic at x m i) = SevError"
  by (simp add: lifecycle_diagnostic_def clean_simps)

lemma clean_lifecycle [clean_simps]: "\<not> clean (lifecycle at x m e st)"
  by (simp add: lifecycle_def clean_simps)

lemma lifecycle_select [simp]:
  "attempts (lifecycle at x m e st) = attempts st" "executions (lifecycle at x m e st) = executions st"
  "sessions (lifecycle at x m e st) = sessions st"
  by (simp_all add: lifecycle_def push_def)

text \<open>\<open>clean\<close> reads the diagnostics only.\<close>

lemma clean_updates [clean_simps]:
  "clean (st\<lparr>seen := a\<rparr>) = clean st" "clean (st\<lparr>sessions := b\<rparr>) = clean st"
  "clean (st\<lparr>attempts := c\<rparr>) = clean st" "clean (st\<lparr>executions := d\<rparr>) = clean st"
  "clean (st\<lparr>attachments := f\<rparr>) = clean st" "clean (st\<lparr>accepted := g\<rparr>) = clean st"
  "clean (st\<lparr>source_log := h\<rparr>) = clean st" "clean (st\<lparr>v_runId := i\<rparr>) = clean st"
  "clean (st\<lparr>runFinished := j\<rparr>) = clean st" "clean (st\<lparr>n_events := k\<rparr>) = clean st"
  "clean (st\<lparr>n_ignored := l\<rparr>) = clean st" "clean (st\<lparr>n_duplicates := m\<rparr>) = clean st"
  "clean (st\<lparr>n_steps := n\<rparr>) = clean st" "clean (st\<lparr>n_scopeFailures := p\<rparr>) = clean st"
  "clean (st\<lparr>n_failedAttempts := q\<rparr>) = clean st" "clean (st\<lparr>n_failedSessions := r\<rparr>) = clean st"
  "clean (st\<lparr>n_inconclusiveSessions := s\<rparr>) = clean st" "clean (st\<lparr>n_sessionFailures := t\<rparr>) = clean st"
  "clean (st\<lparr>n_files := u\<rparr>) = clean st" "clean (st\<lparr>attachmentsDirRefused := w\<rparr>) = clean st"
  by (simp_all add: clean_def)

lemma fold_skip:
  "\<forall>(i, a) \<in> set xs. \<not> P i a \<Longrightarrow> fold (\<lambda>(i, a) s. if P i a then g i a s else s) xs st = st"
  by (induction xs) auto

lemma clean_fold [clean_simps]:
  "clean (fold (\<lambda>(i, a) s. if P i a then lifecycle at x (m i a) e s else s) xs st) \<longleftrightarrow>
     clean st \<and> (\<forall>(i, a) \<in> set xs. \<not> P i a)"
proof (induction xs arbitrary: st)
  case (Cons y xs)
  show ?case
  proof (cases "P (fst y) (snd y)")
    case True
    with Cons.IH [of "lifecycle at x (m (fst y) (snd y)) e st"] show ?thesis
      by (auto simp: clean_simps case_prod_beta)
  qed (use Cons in \<open>auto simp: case_prod_beta\<close>)
qed simp

section \<open>The handlers\<close>

definition execution_agrees :: "attempt_started_payload \<Rightarrow> session_state \<Rightarrow> execution_state \<Rightarrow> bool" where
  "execution_agrees p ses known \<longleftrightarrow>
     jget (exe_attemptNumbers known) (as_attemptNumber p) = None \<and>
     exe_historicalId known = historicalId (as_test p) \<and>
     exe_stability known = historicalIdStability (as_test p) \<and>
     (exe_runnerKnown known \<and> \<not> ses_synthesized ses \<longrightarrow> exe_runnerName known = ses_runnerName ses)"

lemma clean_checkExecution:
  "clean (checkExecution at e p ses st) \<longleftrightarrow>
     clean st \<and> (case jget (executions st) (executionId (as_test p)) of
       None \<Rightarrow> True | Some known \<Rightarrow> execution_agrees p ses known)"
  by (auto simp: checkExecution_def execution_agrees_def Let_def clean_simps split: option.splits)

definition attempt_here :: "feed_at \<Rightarrow> event \<Rightarrow> attempt_started_payload \<Rightarrow> attempt_place" where
  "attempt_here at e p = \<lparr>pl_file = fa_file at, pl_line = fa_line at, pl_eventId = eventId e,
     pl_attemptId = as_attemptId p\<rparr>"

definition execution_after :: "feed_at \<Rightarrow> event \<Rightarrow> attempt_started_payload \<Rightarrow> session_state \<Rightarrow>
    execution_state option \<Rightarrow> execution_state" where
  "execution_after at e p ses known =
     (case known of
        None \<Rightarrow> \<lparr>exe_attemptNumbers = [(as_attemptNumber p, attempt_here at e p)],
            exe_historicalId = historicalId (as_test p),
            exe_stability = historicalIdStability (as_test p), exe_runnerName = ses_runnerName ses,
            exe_runnerKnown = (\<not> ses_synthesized ses), exe_reference = attempt_here at e p\<rparr>
      | Some k \<Rightarrow> k\<lparr>exe_attemptNumbers :=
            jset (as_attemptNumber p) (attempt_here at e p) (exe_attemptNumbers k)\<rparr>)"

lemma checkExecution_clean:
  assumes "clean (checkExecution at e p ses st)"
  shows "checkExecution at e p ses st = st\<lparr>executions := jset (executionId (as_test p))
    (execution_after at e p ses (jget (executions st) (executionId (as_test p)))) (executions st)\<rparr>"
  using assms unfolding clean_checkExecution
  by (auto simp: checkExecution_def execution_agrees_def execution_after_def attempt_here_def
      Let_def split: option.splits)

definition fresh_attempt :: "event \<Rightarrow> attempt_started_payload \<Rightarrow> attempt_state" where
  "fresh_attempt e p = \<lparr>att_session = sessionId e, att_executionId = executionId (as_test p),
     att_attemptNumber = as_attemptNumber p, att_inconclusive = False, att_finished = False,
     att_unexpected = False, att_steps = []\<rparr>"

lemma clean_on_attempt_started:
  "clean (on_attempt_started at e p ses st) \<longleftrightarrow>
     clean st \<and> (historicalId (as_test p) \<noteq> None \<longrightarrow> ses_runnerName ses \<noteq> None) \<and>
     jget (attempts st) (as_attemptId p) = None \<and>
     (case jget (executions st) (executionId (as_test p)) of
        None \<Rightarrow> True | Some known \<Rightarrow> execution_agrees p ses known)"
  by (auto simp: on_attempt_started_def Let_def clean_simps clean_checkExecution)

lemma on_attempt_started_clean:
  assumes "clean (on_attempt_started at e p ses st)"
  shows "on_attempt_started at e p ses st = st\<lparr>
    attempts := jset (as_attemptId p) (fresh_attempt e p) (attempts st),
    executions := jset (executionId (as_test p))
      (execution_after at e p ses (jget (executions st) (executionId (as_test p)))) (executions st)\<rparr>"
  using assms unfolding clean_on_attempt_started
  by (subst on_attempt_started_def)
    (auto simp: Let_def checkExecution_clean clean_checkExecution clean_simps fresh_attempt_def)

definition ended_attempt :: "attempt_finished_payload \<Rightarrow> attempt_state \<Rightarrow> attempt_state" where
  "ended_attempt p a = a\<lparr>att_finished := True,
     att_unexpected := is_unexpected (af_status p) (expected_or_passed (af_expectedStatus p)),
     att_inconclusive := (af_status p = Inconclusive)\<rparr>"

lemma clean_on_attempt_finished:
  "clean (on_attempt_finished at e p st) \<longleftrightarrow>
     clean st \<and> (\<exists>a. jget (attempts st) (af_attemptId p) = Some a \<and> \<not> att_finished a \<and>
       (\<forall>(i, fin) \<in> set (att_steps a). fin))"
  by (auto simp: on_attempt_finished_def Let_def clean_simps split: option.splits)

lemma on_attempt_finished_clean:
  assumes "clean (on_attempt_finished at e p st)"
  obtains a where "jget (attempts st) (af_attemptId p) = Some a" "\<not> att_finished a"
    "\<forall>(i, fin) \<in> set (att_steps a). fin"
    "on_attempt_finished at e p st = st\<lparr>
       attempts := jset (af_attemptId p) (ended_attempt p a) (attempts st),
       n_failedAttempts := n_failedAttempts st + (if af_status p = Failed then 1 else 0)\<rparr>"
  using assms unfolding clean_on_attempt_finished
  by (auto simp: on_attempt_finished_def Let_def fold_skip ended_attempt_def)

lemma clean_on_session_finished:
  "clean (on_session_finished at e p ses st) \<longleftrightarrow>
     clean st \<and> (\<forall>(i, a) \<in> set (attempts st). att_session a = sessionId e \<longrightarrow> att_finished a)"
  by (auto simp: on_session_finished_def Let_def clean_simps)

lemma on_session_finished_clean:
  assumes "clean (on_session_finished at e p ses st)"
  shows "on_session_finished at e p ses st = st\<lparr>
    sessions := jset (sessionId e) (ses\<lparr>ses_finished := True\<rparr>) (sessions st),
    n_failedSessions := n_failedSessions st + (if sf_status p = Some SessionFailed then 1 else 0),
    n_inconclusiveSessions := n_inconclusiveSessions st +
      (if sf_status p = Some SessionInconclusive then 1 else 0),
    n_sessionFailures := n_sessionFailures st +
      (case sf_failures p of None \<Rightarrow> 0 | Some fs \<Rightarrow> length fs)\<rparr>"
  using assms unfolding clean_on_session_finished
  by (auto simp: on_session_finished_def Let_def fold_skip)

lemma clean_on_run_finished:
  "clean (on_run_finished at e st) \<longleftrightarrow> clean st \<and> runFinished st = None"
  by (auto simp: on_run_finished_def clean_simps split: option.splits)

lemma on_run_finished_clean:
  assumes "clean (on_run_finished at e st)"
  shows "on_run_finished at e st = st\<lparr>runFinished :=
    Some \<lparr>pl_file = fa_file at, pl_line = fa_line at, pl_eventId = eventId e\<rparr>\<rparr>"
  using assms unfolding clean_on_run_finished by (simp add: on_run_finished_def)

lemma clean_on_step_started:
  "clean (on_step_started at e p st) \<longleftrightarrow>
     clean st \<and> (\<exists>a. jget (attempts st) (st_attemptId p) = Some a \<and> \<not> att_finished a \<and>
       jget (att_steps a) (st_stepId p) = None \<and>
       (case st_parentStepId p of None \<Rightarrow> True | Some q \<Rightarrow> jget (att_steps a) q \<noteq> None))"
  by (auto simp: on_step_started_def Let_def clean_simps split: option.splits if_splits)

lemma on_step_started_clean:
  assumes "clean (on_step_started at e p st)"
  obtains a where "jget (attempts st) (st_attemptId p) = Some a" "\<not> att_finished a"
    "jget (att_steps a) (st_stepId p) = None"
    "on_step_started at e p st = st\<lparr>
       attempts := jset (st_attemptId p)
         (a\<lparr>att_steps := jset (st_stepId p) False (att_steps a)\<rparr>) (attempts st),
       n_steps := n_steps st + 1\<rparr>"
  using assms unfolding clean_on_step_started
  by (cases "st_parentStepId p") (auto simp: on_step_started_def Let_def)

lemma clean_on_step_finished:
  "clean (on_step_finished at e p st) \<longleftrightarrow>
     clean st \<and> (\<exists>a. jget (attempts st) (sp_attemptId p) = Some a \<and>
       jget (att_steps a) (sp_stepId p) = Some False)"
  by (auto simp: on_step_finished_def Let_def clean_simps split: option.splits bool.splits)

lemma on_step_finished_clean:
  assumes "clean (on_step_finished at e p st)"
  obtains a where "jget (attempts st) (sp_attemptId p) = Some a"
    "jget (att_steps a) (sp_stepId p) = Some False"
    "on_step_finished at e p st = st\<lparr>attempts := jset (sp_attemptId p)
       (a\<lparr>att_steps := jset (sp_stepId p) True (att_steps a)\<rparr>) (attempts st)\<rparr>"
  using assms unfolding clean_on_step_finished by (auto simp: on_step_finished_def)

lemma clean_on_attachment_added:
  "clean (on_attachment_added at e p st) \<longleftrightarrow>
     clean st \<and> (\<exists>a. jget (attempts st) (aa_attemptId p) = Some a \<and> \<not> att_finished a \<and>
       (case aa_stepId p of None \<Rightarrow> True | Some s \<Rightarrow> jget (att_steps a) s \<noteq> None))"
  by (auto simp: on_attachment_added_def Let_def clean_simps split: option.splits if_splits)

lemma on_attachment_added_clean:
  assumes "clean (on_attachment_added at e p st)"
  shows "on_attachment_added at e p st = st\<lparr>attachments := attachments st @
    [\<lparr>pl_file = fa_file at, pl_line = fa_line at, pl_eventId = eventId e,
      pl_sha256 = aa_sha256 p, pl_sizeBytes = aa_sizeBytes p\<rparr>]\<rparr>"
  using assms unfolding clean_on_attachment_added
  by (auto simp: on_attachment_added_def Let_def split: option.splits)

end
