(* ===== verification/Validator_Invariant.thy ===== *)
theory Validator_Invariant
  imports Validator_Rules
begin

text \<open>
  What the validator's maps and counters mean: as long as no error has been recorded, each of
  them is a function of the history of events read so far.  With that, the condition under which
  a handler stays silent is the lifecycle rule of its event, and handling the event keeps the
  meaning.
\<close>

section \<open>The meaning of the state\<close>

definition spec_session :: "event list \<Rightarrow> jstring \<Rightarrow> session_state option" where
  "spec_session es sid =
     (if of_session es sid = [] then None
      else Some \<lparr>ses_finished = session_ended es sid,
             ses_lastSequence = int (length (of_session es sid)),
             ses_runnerName = session_runner es sid, ses_synthesized = False\<rparr>)"

definition sessions_inv :: "(jstring, session_state) jmap \<Rightarrow> event list \<Rightarrow> bool" where
  "sessions_inv m es \<longleftrightarrow> jkeys_ok m \<and> (\<forall>sid. jget m sid = spec_session es sid)"

definition untouched :: "event list \<Rightarrow> jstring \<Rightarrow> bool" where
  "untouched es a \<longleftrightarrow> \<not> attempt_started es a \<and> \<not> attempt_ended es a \<and>
     (\<forall>s. \<not> step_started es a s \<and> \<not> step_ended es a s)"

definition spec_step :: "event list \<Rightarrow> jstring \<Rightarrow> jstring \<Rightarrow> bool option" where
  "spec_step es a s = (if step_started es a s then Some (step_ended es a s) else None)"

definition steps_inv :: "(jstring, bool) jmap \<Rightarrow> event list \<Rightarrow> jstring \<Rightarrow> bool" where
  "steps_inv m es a \<longleftrightarrow> jkeys_ok m \<and> (\<forall>s. jget m s = spec_step es a s) \<and>
     (\<forall>s. step_ended es a s \<longrightarrow> step_started es a s)"

definition start_matches :: "attempt_state \<Rightarrow> jstring \<Rightarrow> event \<Rightarrow> bool" where
  "start_matches x a e \<longleftrightarrow>
     (\<forall>p. payload e = AttemptStarted p \<and> as_attemptId p = a \<longrightarrow>
        att_session x = sessionId e \<and> att_executionId x = executionId (as_test p) \<and>
        att_attemptNumber x = as_attemptNumber p)"

definition end_matches :: "attempt_state \<Rightarrow> jstring \<Rightarrow> event \<Rightarrow> bool" where
  "end_matches x a e \<longleftrightarrow>
     (\<forall>p. payload e = AttemptFinished p \<and> af_attemptId p = a \<longrightarrow>
        att_unexpected x = is_unexpected (af_status p) (expected_or_passed (af_expectedStatus p)) \<and>
        att_inconclusive x = (af_status p = Inconclusive))"

definition attempt_inv :: "event list \<Rightarrow> jstring \<Rightarrow> attempt_state \<Rightarrow> bool" where
  "attempt_inv es a x \<longleftrightarrow> attempt_started es a \<and> (\<forall>e \<in> set es. start_matches x a e \<and> end_matches x a e) \<and>
     (att_finished x \<longleftrightarrow> attempt_ended es a) \<and>
     (\<not> attempt_ended es a \<longrightarrow> \<not> att_unexpected x \<and> \<not> att_inconclusive x) \<and>
     steps_inv (att_steps x) es a"

definition attempts_inv :: "(jstring, attempt_state) jmap \<Rightarrow> event list \<Rightarrow> bool" where
  "attempts_inv m es \<longleftrightarrow> jkeys_ok m \<and>
     (\<forall>a. case jget m a of None \<Rightarrow> untouched es a | Some x \<Rightarrow> attempt_inv es a x)"

definition of_execution :: "jstring \<Rightarrow> event \<Rightarrow> attempt_started_payload \<Rightarrow> bool" where
  "of_execution x e p \<longleftrightarrow> payload e = AttemptStarted p \<and> executionId (as_test p) = x"

definition execution_inv :: "event list \<Rightarrow> jstring \<Rightarrow> execution_state \<Rightarrow> bool" where
  "execution_inv es x k \<longleftrightarrow> exe_runnerKnown k \<and> (\<exists>e \<in> set es. \<exists>p. of_execution x e p) \<and>
     (\<forall>e \<in> set es. \<forall>p. of_execution x e p \<longrightarrow>
        exe_historicalId k = historicalId (as_test p) \<and>
        exe_stability k = historicalIdStability (as_test p) \<and>
        exe_runnerName k = session_runner es (sessionId e)) \<and>
     (\<forall>n. jget (exe_attemptNumbers k) n \<noteq> None \<longleftrightarrow>
        (\<exists>e \<in> set es. \<exists>p. of_execution x e p \<and> as_attemptNumber p = n))"

definition executions_inv :: "(jstring, execution_state) jmap \<Rightarrow> event list \<Rightarrow> bool" where
  "executions_inv m es \<longleftrightarrow>
     (\<forall>x. case jget m x of None \<Rightarrow> \<forall>e \<in> set es. \<forall>p. \<not> of_execution x e p
        | Some k \<Rightarrow> execution_inv es x k)"

definition session_count :: "session_status \<Rightarrow> event list \<Rightarrow> nat" where
  "session_count s es =
     length (filter (\<lambda>e. case session_end (payload e) of None \<Rightarrow> False | Some p \<Rightarrow> sf_status p = Some s) es)"

definition attachment_inv :: "attachment_place list \<Rightarrow> event list \<Rightarrow> bool" where
  "attachment_inv as es \<longleftrightarrow>
     map (\<lambda>a. (pl_eventId a, pl_sha256 a, pl_sizeBytes a)) as =
     map (\<lambda>e. case attachment_of (payload e) of
            Some p \<Rightarrow> (eventId e, aa_sha256 p, aa_sizeBytes p) | None \<Rightarrow> ([], [], 0))
       (filter (\<lambda>e. attachment_of (payload e) \<noteq> None) es)"

section \<open>One more event\<close>

text \<open>An event the \<open>switch\<close> does not know does not start or end anything.\<close>

definition typed :: "event \<Rightarrow> bool" where
  "typed e \<longleftrightarrow> (case payload e of UnknownPayload t _ \<Rightarrow> \<not> isKnownEventType t | _ \<Rightarrow> True)"

lemma wf_typed: "wf_event e \<Longrightarrow> typed e"
  by (auto simp: wf_event_def typed_def split: event_payload.splits)

lemma typed_facts:
  assumes "typed e"
  shows "eventType e = js ''session.started'' \<longleftrightarrow> starts_session (payload e)"
    and "eventType e = js ''run.finished'' \<longleftrightarrow> payload e = RunFinished"
    and "isKnownEvent e \<longleftrightarrow> (\<forall>t p. payload e \<noteq> UnknownPayload t p)"
  using assms
  by (auto simp: typed_def eventType_def isKnownEvent_def isKnownEventType_def EVENT_TYPES_def
      split: event_payload.splits)

text \<open>The attempt an event reports on, if any, and maps that grow with an event of no concern to them.\<close>

fun attempt_of :: "event_payload \<Rightarrow> jstring option" where
  "attempt_of (AttemptStarted p) = Some (as_attemptId p)"
| "attempt_of (AttemptFinished p) = Some (af_attemptId p)"
| "attempt_of (StepStarted p) = Some (st_attemptId p)"
| "attempt_of (StepFinished p) = Some (sp_attemptId p)"
| "attempt_of _ = None"

lemma unconcerned:
  assumes "attempt_of (payload e) \<noteq> Some a"
  shows "attempt_started (es @ [e]) a = attempt_started es a"
    "attempt_ended (es @ [e]) a = attempt_ended es a"
    "step_started (es @ [e]) a s = step_started es a s"
    "step_ended (es @ [e]) a s = step_ended es a s"
    "start_matches x a e" "end_matches x a e"
  using assms by (cases "payload e"; simp add: event_simps start_matches_def end_matches_def)+

lemma untouched_other:
  "untouched es a \<Longrightarrow> attempt_of (payload e) \<noteq> Some a \<Longrightarrow> untouched (es @ [e]) a"
  by (simp add: untouched_def unconcerned)

lemma attempt_inv_other:
  "attempt_inv es a x \<Longrightarrow> attempt_of (payload e) \<noteq> Some a \<Longrightarrow> attempt_inv (es @ [e]) a x"
  by (simp add: attempt_inv_def steps_inv_def spec_step_def unconcerned)

lemma attempts_inv_get: "attempts_inv m es \<Longrightarrow> jget m a = Some x \<Longrightarrow> attempt_inv es a x"
  by (auto simp: attempts_inv_def dest!: spec [where x = a])

lemma attempts_inv_none: "attempts_inv m es \<Longrightarrow> jget m a = None \<Longrightarrow> untouched es a"
  by (auto simp: attempts_inv_def dest!: spec [where x = a])

lemma attempts_inv_keys: "attempts_inv m es \<Longrightarrow> jkeys_ok m"
  by (simp add: attempts_inv_def)

lemma attempts_invI:
  assumes "jkeys_ok m" and "\<And>a. jget m a = None \<Longrightarrow> untouched es a"
    and "\<And>a x. jget m a = Some x \<Longrightarrow> attempt_inv es a x"
  shows "attempts_inv m es"
  using assms by (auto simp: attempts_inv_def split: option.splits)

lemma attempts_inv_other:
  assumes "attempts_inv m es" and "attempt_of (payload e) = None"
  shows "attempts_inv m (es @ [e])"
  using assms
  by (intro attempts_invI)
    (auto intro: untouched_other attempt_inv_other dest: attempts_inv_get attempts_inv_none attempts_inv_keys)

text \<open>Changing the entry of the one attempt the event concerns.\<close>

lemma attempts_inv_change:
  assumes "attempts_inv m es" and "attempt_of (payload e) = Some a"
    and "attempt_inv (es @ [e]) a x"
  shows "attempts_inv (jset a x m) (es @ [e])"
proof (rule attempts_invI)
  show "jkeys_ok (jset a x m)"
    using assms(1) by (simp add: attempts_inv_keys jmap_simps)
next
  fix b
  assume "jget (jset a x m) b = None"
  with assms(1,2) show "untouched (es @ [e]) b"
    by (intro untouched_other) (auto simp: jmap_simps split: if_splits dest: attempts_inv_none)
next
  fix b y
  assume y: "jget (jset a x m) b = Some y"
  show "attempt_inv (es @ [e]) b y"
  proof (cases "b = a")
    case False
    with y assms(1,2) show ?thesis
      by (intro attempt_inv_other) (auto simp: jmap_simps dest: attempts_inv_get)
  qed (use y assms(3) in \<open>simp add: jmap_simps\<close>)
qed

lemma executions_inv_get: "executions_inv m es \<Longrightarrow> jget m x = Some k \<Longrightarrow> execution_inv es x k"
  by (auto simp: executions_inv_def dest!: spec [where x = x])

lemma executions_inv_none:
  "executions_inv m es \<Longrightarrow> jget m x = None \<Longrightarrow> e \<in> set es \<Longrightarrow> \<not> of_execution x e p"
  by (auto simp: executions_inv_def dest!: spec [where x = x])

lemma executions_invI:
  assumes "\<And>x e p. jget m x = None \<Longrightarrow> e \<in> set es \<Longrightarrow> \<not> of_execution x e p"
    and "\<And>x k. jget m x = Some k \<Longrightarrow> execution_inv es x k"
  shows "executions_inv m es"
  using assms by (auto simp: executions_inv_def split: option.splits)

lemma session_runner_past:
  "d \<in> set es \<Longrightarrow> session_runner (es @ [e]) (sessionId d) = session_runner es (sessionId d)"
  using of_session_member [of d es] by (simp add: event_simps)

lemma execution_inv_other:
  assumes "execution_inv es x k" and "\<And>p. \<not> of_execution x e p"
  shows "execution_inv (es @ [e]) x k"
  using assms by (auto simp: execution_inv_def session_runner_past)

lemma executions_inv_other:
  assumes "executions_inv m es" and "attempt_start (payload e) = None"
  shows "executions_inv m (es @ [e])"
proof -
  have none: "\<not> of_execution x e p" for x p
    using assms(2) by (auto simp: of_execution_def)
  show ?thesis
    using assms(1)
    by (intro executions_invI) (auto simp: none intro: execution_inv_other
        dest: executions_inv_get executions_inv_none)
qed

lemma session_count_snoc [event_simps]:
  "session_count s (es @ [e]) = session_count s es +
     (case session_end (payload e) of None \<Rightarrow> 0 | Some p \<Rightarrow> if sf_status p = Some s then 1 else 0)"
  by (simp add: session_count_def split: option.splits)

lemma attachment_inv_snoc:
  "attachment_inv as es \<Longrightarrow> attachment_of (payload e) = None \<Longrightarrow> attachment_inv as (es @ [e])"
  by (simp add: attachment_inv_def)

section \<open>The maps after each handler\<close>

lemma attempts_inv_start:
  assumes inv: "attempts_inv m es" and p: "payload e = AttemptStarted p"
    and fresh: "jget m (as_attemptId p) = None"
  shows "attempts_inv (jset (as_attemptId p) (fresh_attempt e p) m) (es @ [e])"
proof (rule attempts_inv_change [OF inv])
  from attempts_inv_none [OF inv fresh]
  show "attempt_inv (es @ [e]) (as_attemptId p) (fresh_attempt e p)"
    using p by (auto simp: attempt_inv_def untouched_def fresh_attempt_def start_matches_def
        end_matches_def steps_inv_def spec_step_def event_simps attempt_started_def attempt_ended_def)
qed (simp add: p)

lemma attempts_inv_end:
  assumes inv: "attempts_inv m es" and p: "payload e = AttemptFinished p"
    and x: "jget m (af_attemptId p) = Some x" "\<not> att_finished x"
  shows "attempts_inv (jset (af_attemptId p) (ended_attempt p x) m) (es @ [e])"
proof (rule attempts_inv_change [OF inv])
  from attempts_inv_get [OF inv x(1)] x(2)
  show "attempt_inv (es @ [e]) (af_attemptId p) (ended_attempt p x)"
    using p by (auto simp: attempt_inv_def ended_attempt_def start_matches_def end_matches_def
        steps_inv_def spec_step_def event_simps attempt_ended_def)
qed (simp add: p)

lemma steps_inv_start:
  assumes "steps_inv m es a" and "starts_step (payload e) = Some (a, s)" and "jget m s = None"
  shows "steps_inv (jset s False m) (es @ [e]) a"
proof -
  have "ends_step (payload e) = None"
    using assms(2) by (cases "payload e") simp_all
  with assms show ?thesis
    by (auto simp: steps_inv_def spec_step_def event_simps jmap_simps split: if_splits)
qed

lemma steps_inv_end:
  assumes "steps_inv m es a" and "ends_step (payload e) = Some (a, s)" and "jget m s = Some False"
  shows "steps_inv (jset s True m) (es @ [e]) a"
proof -
  have "starts_step (payload e) = None"
    using assms(2) by (cases "payload e") simp_all
  with assms show ?thesis
    by (auto simp: steps_inv_def spec_step_def event_simps jmap_simps split: if_splits)
qed

lemma matches_none:
  "attempt_start (payload e) = None \<Longrightarrow> start_matches x a e"
  "attempt_end (payload e) = None \<Longrightarrow> end_matches x a e"
  by (auto simp: start_matches_def end_matches_def)

lemma matches_steps [simp]:
  "start_matches (x\<lparr>att_steps := m\<rparr>) a e = start_matches x a e"
  "end_matches (x\<lparr>att_steps := m\<rparr>) a e = end_matches x a e"
  by (simp_all add: start_matches_def end_matches_def)

lemma attempts_inv_step_start:
  assumes inv: "attempts_inv m es" and p: "payload e = StepStarted p"
    and x: "jget m (st_attemptId p) = Some x" "jget (att_steps x) (st_stepId p) = None"
  shows "attempts_inv (jset (st_attemptId p)
    (x\<lparr>att_steps := jset (st_stepId p) False (att_steps x)\<rparr>) m) (es @ [e])"
proof (rule attempts_inv_change [OF inv])
  from attempts_inv_get [OF inv x(1)] x(2)
  show "attempt_inv (es @ [e]) (st_attemptId p) (x\<lparr>att_steps := jset (st_stepId p) False (att_steps x)\<rparr>)"
    using p steps_inv_start [of "att_steps x" es "st_attemptId p" e "st_stepId p"]
    by (simp add: attempt_inv_def matches_none event_simps)
qed (simp add: p)

lemma attempts_inv_step_end:
  assumes inv: "attempts_inv m es" and p: "payload e = StepFinished p"
    and x: "jget m (sp_attemptId p) = Some x" "jget (att_steps x) (sp_stepId p) = Some False"
  shows "attempts_inv (jset (sp_attemptId p)
    (x\<lparr>att_steps := jset (sp_stepId p) True (att_steps x)\<rparr>) m) (es @ [e])"
proof (rule attempts_inv_change [OF inv])
  from attempts_inv_get [OF inv x(1)] x(2)
  show "attempt_inv (es @ [e]) (sp_attemptId p) (x\<lparr>att_steps := jset (sp_stepId p) True (att_steps x)\<rparr>)"
    using p steps_inv_end [of "att_steps x" es "sp_attemptId p" e "sp_stepId p"]
    by (simp add: attempt_inv_def matches_none event_simps)
qed (simp add: p)

text \<open>The session the event belongs to, as the handlers see it.\<close>

definition sees_session :: "session_state \<Rightarrow> event list \<Rightarrow> event \<Rightarrow> bool" where
  "sees_session ses es e \<longleftrightarrow> of_session es (sessionId e) \<noteq> [] \<and> \<not> ses_synthesized ses \<and>
     ses_runnerName ses = session_runner es (sessionId e)"

lemma execution_agrees_iff:
  assumes "execution_inv es (executionId (as_test p)) k" and "sees_session ses es e"
  shows "execution_agrees p ses k \<longleftrightarrow> (\<forall>d \<in> set es. agrees es e p d)"
proof
  assume *: "execution_agrees p ses k"
  show "\<forall>d \<in> set es. agrees es e p d"
  proof
    fix d assume d: "d \<in> set es"
    show "agrees es e p d"
    proof (cases "payload d")
      case (AttemptStarted q)
      have "as_attemptNumber q \<noteq> as_attemptNumber p"
        if "executionId (as_test q) = executionId (as_test p)"
        using * assms(1) d AttemptStarted that
        unfolding execution_agrees_def execution_inv_def of_execution_def by metis
      with AttemptStarted * assms d show ?thesis
        by (auto simp: agrees_def execution_agrees_def execution_inv_def sees_session_def of_execution_def)
    qed (simp_all add: agrees_def)
  qed
next
  assume *: "\<forall>d \<in> set es. agrees es e p d"
  from assms(1) obtain d q where d: "d \<in> set es" "of_execution (executionId (as_test p)) d q"
    by (auto simp: execution_inv_def)
  with * have "agrees es e p d" by simp
  moreover have "jget (exe_attemptNumbers k) (as_attemptNumber p) = None"
  proof (rule ccontr)
    assume "jget (exe_attemptNumbers k) (as_attemptNumber p) \<noteq> None"
    with assms(1) obtain d' q' where "d' \<in> set es" "of_execution (executionId (as_test p)) d' q'"
      "as_attemptNumber q' = as_attemptNumber p"
      unfolding execution_inv_def by blast
    with * show False by (auto simp: agrees_def of_execution_def)
  qed
  ultimately show "execution_agrees p ses k"
    using assms d by (auto simp: agrees_def execution_agrees_def execution_inv_def sees_session_def
        of_execution_def)
qed

lemma executions_agree_iff:
  assumes "executions_inv m es" and "sees_session ses es e"
  shows "(case jget m (executionId (as_test p)) of None \<Rightarrow> True | Some k \<Rightarrow> execution_agrees p ses k) \<longleftrightarrow>
    (\<forall>d \<in> set es. agrees es e p d)"
proof (cases "jget m (executionId (as_test p))")
  case None
  have "agrees es e p d" if "d \<in> set es" for d
    using executions_inv_none [OF assms(1) None that]
    by (cases "payload d") (auto simp: agrees_def of_execution_def)
  with None show ?thesis by simp
next
  case (Some k)
  with executions_inv_get [OF assms(1) Some] assms(2) show ?thesis
    by (simp add: execution_agrees_iff)
qed

lemma execution_inv_after:
  assumes inv: "executions_inv m es" and ses: "sees_session ses es e" and p: "payload e = AttemptStarted p"
    and ok: "\<forall>d \<in> set es. agrees es e p d" and x: "x = executionId (as_test p)"
  shows "execution_inv (es @ [e]) x (execution_after at e p ses (jget m x))"
proof (cases "jget m x")
  case None
  have "\<not> of_execution x d q" if "d \<in> set es" for d q
    using executions_inv_none [OF inv None that] .
  with None ses p x show ?thesis
    by (auto simp: execution_inv_def execution_after_def sees_session_def of_execution_def event_simps)
next
  case (Some k)
  from executions_inv_get [OF inv Some] have k: "execution_inv es x k" .
  with ses ok x have "execution_agrees p ses k" by (simp add: execution_agrees_iff)
  moreover have "session_runner (es @ [e]) (sessionId e) = session_runner es (sessionId e)"
    using ses by (simp add: sees_session_def event_simps)
  ultimately show ?thesis
    using k ses p x Some
    by (auto simp: execution_inv_def execution_after_def execution_agrees_def sees_session_def
        session_runner_past of_execution_def jmap_simps)
qed

lemma executions_inv_start:
  assumes inv: "executions_inv m es" and ses: "sees_session ses es e" and p: "payload e = AttemptStarted p"
    and ok: "\<forall>d \<in> set es. agrees es e p d"
  shows "executions_inv (jset (executionId (as_test p))
    (execution_after at e p ses (jget m (executionId (as_test p)))) m) (es @ [e])"
proof (rule executions_invI)
  fix x d q
  assume "jget (jset (executionId (as_test p))
    (execution_after at e p ses (jget m (executionId (as_test p)))) m) x = None" "d \<in> set (es @ [e])"
  with inv p show "\<not> of_execution x d q"
    by (auto simp: jmap_simps of_execution_def split: if_splits dest: executions_inv_none)
next
  fix x k
  assume k: "jget (jset (executionId (as_test p))
    (execution_after at e p ses (jget m (executionId (as_test p)))) m) x = Some k"
  show "execution_inv (es @ [e]) x k"
  proof (cases "x = executionId (as_test p)")
    case True
    with k execution_inv_after [OF inv ses p ok True, of at] show ?thesis by (simp add: jmap_simps)
  next
    case False
    with k inv p show ?thesis
      by (intro execution_inv_other) (auto simp: jmap_simps of_execution_def dest: executions_inv_get)
  qed
qed

end
