(* ===== verification/Validator_Sound.thy ===== *)
theory Validator_Sound
  imports Validator_Invariant
begin

text \<open>
  The validator decides the lifecycle rules: feeding one new event records no error exactly when
  the rules allow the event after the history read so far.
\<close>

section \<open>Silence of a handler is the rule of its event\<close>

definition silent :: "event \<Rightarrow> session_state \<Rightarrow> validator \<Rightarrow> bool" where
  "silent e ses st =
     (case payload e of
        SessionFinished p \<Rightarrow> \<forall>(i, a) \<in> set (attempts st). att_session a = sessionId e \<longrightarrow> att_finished a
      | RunFinished \<Rightarrow> runFinished st = None
      | AttemptStarted p \<Rightarrow>
          (historicalId (as_test p) \<noteq> None \<longrightarrow> ses_runnerName ses \<noteq> None) \<and>
          jget (attempts st) (as_attemptId p) = None \<and>
          (case jget (executions st) (executionId (as_test p)) of
             None \<Rightarrow> True | Some known \<Rightarrow> execution_agrees p ses known)
      | AttemptFinished p \<Rightarrow>
          \<exists>a. jget (attempts st) (af_attemptId p) = Some a \<and> \<not> att_finished a \<and>
            (\<forall>(i, fin) \<in> set (att_steps a). fin)
      | StepStarted p \<Rightarrow>
          \<exists>a. jget (attempts st) (st_attemptId p) = Some a \<and> \<not> att_finished a \<and>
            jget (att_steps a) (st_stepId p) = None \<and>
            (case st_parentStepId p of None \<Rightarrow> True | Some q \<Rightarrow> jget (att_steps a) q \<noteq> None)
      | StepFinished p \<Rightarrow>
          \<exists>a. jget (attempts st) (sp_attemptId p) = Some a \<and> jget (att_steps a) (sp_stepId p) = Some False
      | AttachmentAdded p \<Rightarrow>
          \<exists>a. jget (attempts st) (aa_attemptId p) = Some a \<and> \<not> att_finished a \<and>
            (case aa_stepId p of None \<Rightarrow> True | Some s \<Rightarrow> jget (att_steps a) s \<noteq> None)
      | _ \<Rightarrow> True)"

lemma clean_apply_event: "clean (apply_event at e ses st) \<longleftrightarrow> clean st \<and> silent e ses st"
  by (cases "payload e")
    (simp_all add: apply_event_def silent_def clean_simps clean_on_session_finished
      clean_on_run_finished clean_on_attempt_started clean_on_attempt_finished clean_on_step_started
      clean_on_step_finished clean_on_attachment_added)

lemma attempt_known_iff:
  assumes "attempts_inv m es"
  shows "jget m a = None \<longleftrightarrow> \<not> attempt_started es a"
  using assms attempts_inv_get [of m es a] attempts_inv_none [of m es a]
  by (cases "jget m a") (auto simp: attempt_inv_def untouched_def)

lemma attempt_open_iff:
  assumes "attempts_inv m es"
  shows "attempt_open es a \<longleftrightarrow> (\<exists>x. jget m a = Some x \<and> \<not> att_finished x)"
  using assms attempts_inv_get [of m es a] attempts_inv_none [of m es a]
  by (cases "jget m a") (auto simp: attempt_open_def attempt_inv_def untouched_def)

lemma steps_get: "attempt_inv es a x \<Longrightarrow> jget (att_steps x) s = spec_step es a s"
  by (simp add: attempt_inv_def steps_inv_def)

lemma steps_all_iff:
  assumes "attempt_inv es a x"
  shows "(\<forall>(i, fin) \<in> set (att_steps x). fin) \<longleftrightarrow>
    (\<forall>d \<in> set es. case starts_step (payload d) of
       Some (b, s) \<Rightarrow> b = a \<longrightarrow> step_ended es b s | None \<Rightarrow> True)" (is "?l \<longleftrightarrow> ?r")
proof -
  have keys: "jkeys_ok (att_steps x)"
    using assms by (simp add: attempt_inv_def steps_inv_def)
  have "?l \<longleftrightarrow> (\<forall>s fin. jget (att_steps x) s = Some fin \<longrightarrow> fin)"
    using jmap.get_entries [OF keys] by auto
  also have "\<dots> \<longleftrightarrow> (\<forall>s. step_started es a s \<longrightarrow> step_ended es a s)"
    using steps_get [OF assms] by (auto simp: spec_step_def)
  also have "\<dots> \<longleftrightarrow> ?r"
    by (force simp: step_started_def split: option.splits)
  finally show ?thesis .
qed

lemma session_attempts_iff:
  assumes "attempts_inv m es"
  shows "(\<forall>(i, a) \<in> set m. att_session a = sid \<longrightarrow> att_finished a) \<longleftrightarrow>
    (\<forall>d \<in> set es. sessionId d = sid \<longrightarrow>
       (case attempt_start (payload d) of None \<Rightarrow> True | Some q \<Rightarrow> attempt_ended es (as_attemptId q)))"
    (is "?l \<longleftrightarrow> ?r")
proof
  assume ?l
  show ?r
  proof (intro ballI impI)
    fix d assume d: "d \<in> set es" "sessionId d = sid"
    show "case attempt_start (payload d) of None \<Rightarrow> True | Some q \<Rightarrow> attempt_ended es (as_attemptId q)"
    proof (cases "payload d")
      case (AttemptStarted q)
      with d have started: "attempt_started es (as_attemptId q)"
        by (force simp: attempt_started_def)
      with attempt_known_iff [OF assms] obtain x where x: "jget m (as_attemptId q) = Some x" by blast
      with attempts_inv_get [OF assms x] d AttemptStarted have "att_session x = sid"
        by (auto simp: attempt_inv_def start_matches_def)
      with \<open>?l\<close> x attempts_inv_get [OF assms x] AttemptStarted show ?thesis
        by (auto simp: attempt_inv_def dest!: map_of_SomeD)
    qed simp_all
  qed
next
  assume r: ?r
  show ?l
  proof (clarify)
    fix i x assume x: "(i, x) \<in> set m"
    then have g: "jget m i = Some x"
      using jmap.get_entries [OF attempts_inv_keys [OF assms]] by simp
    from attempts_inv_get [OF assms g] have inv: "attempt_inv es i x" .
    then obtain d p where d: "d \<in> set es" "payload d = AttemptStarted p" "as_attemptId p = i"
      by (auto simp: attempt_inv_def attempt_started_def elim!: attempt_start.elims)
    with inv have "att_session x = sessionId d"
      by (auto simp: attempt_inv_def start_matches_def)
    moreover assume "sid = att_session x"
    ultimately show "att_finished x" using r d inv by (force simp: attempt_inv_def)
  qed
qed

definition runs_inv :: "validator \<Rightarrow> event list \<Rightarrow> bool" where
  "runs_inv st es \<longleftrightarrow> attempts_inv (attempts st) es \<and> executions_inv (executions st) es \<and>
     (runFinished st = None \<longleftrightarrow> \<not> run_ended es)"

lemma silent_iff:
  assumes inv: "runs_inv st es" and ses: "starts_session (payload e) \<or> sees_session ses es e"
  shows "silent e ses st \<longleftrightarrow> payload_ok es e"
proof -
  have a: "attempts_inv (attempts st) es" and x: "executions_inv (executions st) es"
    using inv by (simp_all add: runs_inv_def)
  have get: "jget (attempts st) i = Some y \<Longrightarrow> jget (att_steps y) s = spec_step es i s" for i y s
    using attempts_inv_get [OF a] steps_get by blast
  show ?thesis
  proof (cases "payload e")
    case (SessionFinished p)
    then show ?thesis by (simp add: silent_def payload_ok_def session_attempts_iff [OF a])
  next
    case RunFinished
    with inv show ?thesis by (simp add: silent_def payload_ok_def runs_inv_def)
  next
    case (AttemptStarted p)
    with ses have sees: "sees_session ses es e" by simp
    then have "ses_runnerName ses = session_runner es (sessionId e)" by (simp add: sees_session_def)
    with AttemptStarted executions_agree_iff [OF x sees, of p] show ?thesis
      by (simp add: silent_def payload_ok_def attempt_known_iff [OF a])
  next
    case (AttemptFinished p)
    have "(\<forall>(i, fin) \<in> set (att_steps y). fin) \<longleftrightarrow>
        (\<forall>d \<in> set es. case starts_step (payload d) of
           Some (b, s) \<Rightarrow> b = af_attemptId p \<longrightarrow> step_ended es b s | None \<Rightarrow> True)"
      if "jget (attempts st) (af_attemptId p) = Some y" for y
      by (rule steps_all_iff [OF attempts_inv_get [OF a that]])
    with AttemptFinished show ?thesis
      unfolding silent_def payload_ok_def attempt_open_iff [OF a] by auto
  next
    case (StepStarted p)
    then show ?thesis
      using get [of "st_attemptId p"]
      by (auto simp: silent_def payload_ok_def attempt_open_iff [OF a] spec_step_def split: option.splits if_splits)
  next
    case (StepFinished p)
    have "step_started es (sp_attemptId p) s \<Longrightarrow> jget (attempts st) (sp_attemptId p) \<noteq> None" for s
      using attempts_inv_none [OF a] by (auto simp: untouched_def)
    with StepFinished show ?thesis
      using get [of "sp_attemptId p" _ "sp_stepId p"]
      by (fastforce simp: silent_def payload_ok_def spec_step_def split: if_splits)
  next
    case (AttachmentAdded p)
    then show ?thesis
      using get [of "aa_attemptId p"]
      by (auto simp: silent_def payload_ok_def attempt_open_iff [OF a] spec_step_def split: option.splits if_splits)
  qed (simp_all add: silent_def payload_ok_def)
qed

section \<open>The state after an event\<close>

definition tallies :: "validator \<Rightarrow> event list \<Rightarrow> bool" where
  "tallies st es \<longleftrightarrow>
     n_scopeFailures st = length (filter (\<lambda>e. is_scope_failure (payload e)) es) \<and>
     n_failedSessions st = session_count SessionFailed es \<and>
     n_inconclusiveSessions st = session_count SessionInconclusive es \<and>
     attachment_inv (attachments st) es \<and> \<not> attachmentsDirRefused st"

lemma apply_clean:
  assumes "clean (apply_event at e ses st)"
  obtains
    (other) "apply_event at e ses st = st" "attempt_of (payload e) = None"
      "attempt_start (payload e) = None" "session_end (payload e) = None"
      "attachment_of (payload e) = None" "\<not> is_scope_failure (payload e)" "payload e \<noteq> RunFinished"
  | (session_end) p where "payload e = SessionFinished p"
      "apply_event at e ses st = st\<lparr>
        sessions := jset (sessionId e) (ses\<lparr>ses_finished := True\<rparr>) (sessions st),
        n_failedSessions := n_failedSessions st + (if sf_status p = Some SessionFailed then 1 else 0),
        n_inconclusiveSessions := n_inconclusiveSessions st +
          (if sf_status p = Some SessionInconclusive then 1 else 0),
        n_sessionFailures := n_sessionFailures st +
          (case sf_failures p of None \<Rightarrow> 0 | Some fs \<Rightarrow> length fs)\<rparr>"
  | (run_end) "payload e = RunFinished"
      "apply_event at e ses st = st\<lparr>runFinished :=
         Some \<lparr>pl_file = fa_file at, pl_line = fa_line at, pl_eventId = eventId e\<rparr>\<rparr>"
  | (start) p where "payload e = AttemptStarted p"
      "apply_event at e ses st = st\<lparr>
         attempts := jset (as_attemptId p) (fresh_attempt e p) (attempts st),
         executions := jset (executionId (as_test p))
           (execution_after at e p ses (jget (executions st) (executionId (as_test p)))) (executions st)\<rparr>"
  | (finish) p a where "payload e = AttemptFinished p"
      "jget (attempts st) (af_attemptId p) = Some a" "\<not> att_finished a"
      "apply_event at e ses st = st\<lparr>
         attempts := jset (af_attemptId p) (ended_attempt p a) (attempts st),
         n_failedAttempts := n_failedAttempts st + (if af_status p = Failed then 1 else 0)\<rparr>"
  | (step_start) p a where "payload e = StepStarted p"
      "jget (attempts st) (st_attemptId p) = Some a" "jget (att_steps a) (st_stepId p) = None"
      "apply_event at e ses st = st\<lparr>
         attempts := jset (st_attemptId p)
           (a\<lparr>att_steps := jset (st_stepId p) False (att_steps a)\<rparr>) (attempts st),
         n_steps := n_steps st + 1\<rparr>"
  | (step_end) p a where "payload e = StepFinished p"
      "jget (attempts st) (sp_attemptId p) = Some a" "jget (att_steps a) (sp_stepId p) = Some False"
      "apply_event at e ses st = st\<lparr>attempts := jset (sp_attemptId p)
         (a\<lparr>att_steps := jset (sp_stepId p) True (att_steps a)\<rparr>) (attempts st)\<rparr>"
  | (scope) q where "payload e = ScopeFailed q"
      "apply_event at e ses st = st\<lparr>n_scopeFailures := n_scopeFailures st + 1\<rparr>"
  | (attachment) p where "payload e = AttachmentAdded p"
      "apply_event at e ses st = st\<lparr>attachments := attachments st @
         [\<lparr>pl_file = fa_file at, pl_line = fa_line at, pl_eventId = eventId e,
           pl_sha256 = aa_sha256 p, pl_sizeBytes = aa_sizeBytes p\<rparr>]\<rparr>"
proof (cases "payload e")
  case (SessionFinished p)
  then have eq: "apply_event at e ses st = on_session_finished at e p ses st"
    by (simp add: apply_event_def)
  show ?thesis
    by (rule session_end [OF SessionFinished]) (rule trans [OF eq on_session_finished_clean [OF assms [unfolded eq]]])
next
  case RunFinished
  then have eq: "apply_event at e ses st = on_run_finished at e st"
    by (simp add: apply_event_def)
  show ?thesis
    by (rule run_end [OF RunFinished]) (rule trans [OF eq on_run_finished_clean [OF assms [unfolded eq]]])
next
  case (AttemptStarted p)
  then have eq: "apply_event at e ses st = on_attempt_started at e p ses st"
    by (simp add: apply_event_def)
  show ?thesis
    by (rule start [OF AttemptStarted]) (rule trans [OF eq on_attempt_started_clean [OF assms [unfolded eq]]])
next
  case (AttemptFinished p)
  then have eq: "apply_event at e ses st = on_attempt_finished at e p st"
    by (simp add: apply_event_def)
  show ?thesis
  proof (rule on_attempt_finished_clean [OF assms [unfolded eq]])
    fix a
    assume a: "jget (attempts st) (af_attemptId p) = Some a" "\<not> att_finished a"
      and after: "on_attempt_finished at e p st = st\<lparr>
        attempts := jset (af_attemptId p) (ended_attempt p a) (attempts st),
        n_failedAttempts := n_failedAttempts st + (if af_status p = Failed then 1 else 0)\<rparr>"
    show ?thesis
      by (rule finish [OF AttemptFinished a]) (rule trans [OF eq after])
  qed
next
  case (StepStarted p)
  then have eq: "apply_event at e ses st = on_step_started at e p st"
    by (simp add: apply_event_def)
  show ?thesis
  proof (rule on_step_started_clean [OF assms [unfolded eq]])
    fix a
    assume a: "jget (attempts st) (st_attemptId p) = Some a" "jget (att_steps a) (st_stepId p) = None"
      and after: "on_step_started at e p st = st\<lparr>
        attempts := jset (st_attemptId p)
          (a\<lparr>att_steps := jset (st_stepId p) False (att_steps a)\<rparr>) (attempts st),
        n_steps := n_steps st + 1\<rparr>"
    show ?thesis
      by (rule step_start [OF StepStarted a]) (rule trans [OF eq after])
  qed
next
  case (StepFinished p)
  then have eq: "apply_event at e ses st = on_step_finished at e p st"
    by (simp add: apply_event_def)
  show ?thesis
  proof (rule on_step_finished_clean [OF assms [unfolded eq]])
    fix a
    assume a: "jget (attempts st) (sp_attemptId p) = Some a" "jget (att_steps a) (sp_stepId p) = Some False"
      and after: "on_step_finished at e p st = st\<lparr>attempts := jset (sp_attemptId p)
        (a\<lparr>att_steps := jset (sp_stepId p) True (att_steps a)\<rparr>) (attempts st)\<rparr>"
    show ?thesis
      by (rule step_end [OF StepFinished a]) (rule trans [OF eq after])
  qed
next
  case (AttachmentAdded p)
  then have eq: "apply_event at e ses st = on_attachment_added at e p st"
    by (simp add: apply_event_def)
  show ?thesis
    by (rule attachment [OF AttachmentAdded]) (rule trans [OF eq on_attachment_added_clean [OF assms [unfolded eq]]])
next
  case (ScopeFailed q)
  then have "apply_event at e ses st = st\<lparr>n_scopeFailures := n_scopeFailures st + 1\<rparr>"
    by (simp add: apply_event_def)
  then show ?thesis by (rule scope [OF ScopeFailed])
next
  case (SessionStarted q)
  then have "apply_event at e ses st = st" by (simp add: apply_event_def)
  then show ?thesis by (rule other) (simp_all add: SessionStarted)
next
  case (UnknownPayload t q)
  then have "apply_event at e ses st = st" by (simp add: apply_event_def)
  then show ?thesis by (rule other) (simp_all add: UnknownPayload)
qed

lemma apply_runs_inv:
  assumes clean: "clean (apply_event at e ses st)" and inv: "runs_inv st es"
    and ses: "starts_session (payload e) \<or> sees_session ses es e"
  shows "runs_inv (apply_event at e ses st) (es @ [e])"
proof -
  have a: "attempts_inv (attempts st) es" and x: "executions_inv (executions st) es"
    and r: "runFinished st = None \<longleftrightarrow> \<not> run_ended es"
    using inv by (simp_all add: runs_inv_def)
  note other = attempts_inv_other [OF a] executions_inv_other [OF x]
  from clean have silent: "silent e ses st" by (simp add: clean_apply_event)
  from clean show ?thesis
  proof (cases rule: apply_clean)
    case (start p)
    with ses have sees: "sees_session ses es e" by simp
    from silent start executions_agree_iff [OF x sees, of p]
    have "jget (attempts st) (as_attemptId p) = None" "\<forall>d \<in> set es. agrees es e p d"
      by (simp_all add: silent_def)
    with start r attempts_inv_start [OF a] executions_inv_start [OF x sees] show ?thesis
      by (simp add: runs_inv_def event_simps)
  qed (use r other attempts_inv_end [OF a] attempts_inv_step_start [OF a] attempts_inv_step_end [OF a]
      in \<open>simp_all add: runs_inv_def event_simps\<close>)
qed

lemma apply_tallies:
  assumes "clean (apply_event at e ses st)" and "tallies st es"
  shows "tallies (apply_event at e ses st) (es @ [e])"
  using assms(1)
  by (cases rule: apply_clean)
    (use assms(2) in \<open>simp_all add: tallies_def event_simps attachment_inv_def\<close>)

text \<open>What a handler does to the sessions and what it leaves alone.\<close>

lemma apply_sessions:
  assumes "clean (apply_event at e ses st)"
  shows "sessions (apply_event at e ses st) =
    (if session_end (payload e) = None then sessions st
     else jset (sessionId e) (ses\<lparr>ses_finished := True\<rparr>) (sessions st))"
  using assms by (cases rule: apply_clean) simp_all

lemma apply_keeps:
  assumes "clean (apply_event at e ses st)"
  shows "v_runId (apply_event at e ses st) = v_runId st"
    "accepted (apply_event at e ses st) = accepted st"
    "seen (apply_event at e ses st) = seen st"
    "source_log (apply_event at e ses st) = source_log st"
    "n_files (apply_event at e ses st) = n_files st"
  using assms by (cases rule: apply_clean; simp)+

end
