(* ===== verification/Validator_Feed.thy ===== *)
theory Validator_Feed
  imports Validator_Sound
begin

text \<open>
  Feeding a new event, from the run-wide rules to the handler: it records no error exactly when
  \<^const>\<open>rule_ok\<close> holds of the history and the event, and then the state means the longer history.
\<close>

section \<open>The invariant of a clean state\<close>

definition envelope_facts :: "event \<Rightarrow> jstring \<times> jstring \<times> int \<times> jstring \<times> jstring" where
  "envelope_facts e = (eventId e, sessionId e, sequence e, runId e, eventType e)"

definition line_facts :: "source_line \<Rightarrow> jstring \<times> jstring \<times> int \<times> jstring \<times> jstring" where
  "line_facts l = (sl_eventId l, sl_sessionId l, sl_sequence l, sl_runId l, sl_eventType l)"

definition kept :: "options \<Rightarrow> validator \<Rightarrow> event list \<Rightarrow> bool" where
  "kept opts st es \<longleftrightarrow>
     accepted st = (if opt_retainEvents opts then filter isKnownEvent es else []) \<and>
     map line_facts (filter (\<lambda>l. sl_disposition l \<noteq> Duplicate) (source_log st)) =
       (if opt_retainSourceLines opts then map envelope_facts es else [])"

definition run_inv :: "validator \<Rightarrow> event list \<Rightarrow> bool" where
  "run_inv st es \<longleftrightarrow> (es = [] \<longrightarrow> v_runId st = None) \<and> (\<forall>e \<in> set es. v_runId st = Some (runId e))"

definition full_inv :: "options \<Rightarrow> validator \<Rightarrow> event list \<Rightarrow> bool" where
  "full_inv opts st es \<longleftrightarrow> sessions_inv (sessions st) es \<and> runs_inv st es \<and> tallies st es \<and>
     run_inv st es \<and> kept opts st es"

definition loop_inv :: "bool \<Rightarrow> nat \<Rightarrow> feed_loop \<Rightarrow> history \<Rightarrow> bool" where
  "loop_inv single f ls h \<longleftrightarrow>
     (single \<longrightarrow> (\<forall>(g, d) \<in> set h. g = f \<longrightarrow> fl_session ls = Some (sessionId d))) \<and>
     ((\<not> single \<or> (\<forall>(g, d) \<in> set h. g \<noteq> f)) \<longrightarrow> fl_session ls = None) \<and>
     (fl_closedHere ls \<longleftrightarrow> (\<exists>(g, d) \<in> set h. g = f \<and> payload d = RunFinished)) \<and>
     \<not> fl_abandoned ls"

lemma full_inv_new: "full_inv opts new_validator []"
  by (simp add: full_inv_def sessions_inv_def spec_session_def runs_inv_def attempts_inv_def
      untouched_def executions_inv_def tallies_def session_count_def attachment_inv_def run_inv_def
      kept_def new_validator_def)

section \<open>In its session\<close>

definition entered :: "event list \<Rightarrow> event \<Rightarrow> session_state" where
  "entered es e = \<lparr>ses_finished = session_ended es (sessionId e),
     ses_lastSequence = int (length (of_session es (sessionId e))),
     ses_runnerName = session_runner (es @ [e]) (sessionId e), ses_synthesized = False\<rparr>"

text \<open>The state with the event's session at hand, and the event not yet entered in it.\<close>

definition mid_inv :: "options \<Rightarrow> validator \<Rightarrow> event list \<Rightarrow> event \<Rightarrow> bool" where
  "mid_inv opts st es e \<longleftrightarrow>
     jkeys_ok (sessions st) \<and>
     (\<forall>sid. jget (sessions st) sid = (if sid = sessionId e then Some (entered es e) else spec_session es sid)) \<and>
     (starts_session (payload e) \<longleftrightarrow> of_session es (sessionId e) = []) \<and>
     runs_inv st es \<and> tallies st es \<and> kept opts st es \<and> v_runId st = Some (runId e) \<and>
     (\<forall>d \<in> set es. v_runId st = Some (runId d))"

lemma mid_sees:
  assumes "mid_inv opts st es e"
  shows "starts_session (payload e) \<or> sees_session (entered es e\<lparr>ses_lastSequence := n\<rparr>) es e"
  using assms by (auto simp: mid_inv_def sees_session_def entered_def event_simps)

text \<open>Where the event goes: to the ignored lines, or to the accepted ones and its handler.\<close>

lemma archive_keeps:
  "clean (archive h opts at raw key e d st) = clean st"
  "attempts (archive h opts at raw key e d st) = attempts st"
  "executions (archive h opts at raw key e d st) = executions st"
  "sessions (archive h opts at raw key e d st) = sessions st"
  "runFinished (archive h opts at raw key e d st) = runFinished st"
  "accepted (archive h opts at raw key e d st) = accepted st"
  "v_runId (archive h opts at raw key e d st) = v_runId st"
  "seen (archive h opts at raw key e d st) = seen st"
  "n_files (archive h opts at raw key e d st) = n_files st"
  "tallies (archive h opts at raw key e d st) = tallies st"
  "runs_inv (archive h opts at raw key e d st) = runs_inv st"
  by (simp_all add: archive_def clean_simps tallies_def runs_inv_def fun_eq_iff)

lemma archive_kept:
  assumes "d \<noteq> Duplicate"
  shows "map line_facts (filter (\<lambda>l. sl_disposition l \<noteq> Duplicate)
      (source_log (archive h opts at raw key e d st))) =
    map line_facts (filter (\<lambda>l. sl_disposition l \<noteq> Duplicate) (source_log st)) @
      (if opt_retainSourceLines opts then [envelope_facts e] else [])"
  using assms by (simp add: archive_def line_facts_def envelope_facts_def)

definition session_end_state :: "event list \<Rightarrow> event \<Rightarrow> session_state" where
  "session_end_state es e = (entered es e)\<lparr>ses_lastSequence := sequence e,
     ses_finished := session_ended es (sessionId e) \<or> session_end (payload e) \<noteq> None\<rparr>"

lemma sessions_inv_after:
  assumes "jkeys_ok m"
    and "\<And>sid. jget m sid = (if sid = sessionId e then Some (session_end_state es e) else spec_session es sid)"
    and "sequence e = int (length (of_session es (sessionId e))) + 1"
  shows "sessions_inv m (es @ [e])"
  using assms
  by (auto simp: sessions_inv_def spec_session_def session_end_state_def entered_def event_simps)

definition ready :: "options \<Rightarrow> event \<Rightarrow> session_state \<Rightarrow> validator \<Rightarrow> validator" where
  "ready opts e ses st =
     (let st2 = st\<lparr>sessions := jset (sessionId e) ses (sessions st)\<rparr>
      in if opt_retainEvents opts then st2\<lparr>accepted := accepted st2 @ [e]\<rparr> else st2)"

lemma ready_keeps:
  "clean (ready opts e ses st) = clean st" "attempts (ready opts e ses st) = attempts st"
  "sessions (ready opts e ses st) = jset (sessionId e) ses (sessions st)"
  "v_runId (ready opts e ses st) = v_runId st" "seen (ready opts e ses st) = seen st"
  "n_files (ready opts e ses st) = n_files st" "source_log (ready opts e ses st) = source_log st"
  "accepted (ready opts e ses st) = accepted st @ (if opt_retainEvents opts then [e] else [])"
  "tallies (ready opts e ses st) = tallies st" "runs_inv (ready opts e ses st) = runs_inv st"
  by (simp_all add: ready_def clean_simps tallies_def runs_inv_def fun_eq_iff Let_def)

lemma entered_session:
  "ses_finished ((entered es e)\<lparr>ses_lastSequence := n\<rparr>) = session_ended es (sessionId e)"
  "ses_lastSequence (entered es e) = int (length (of_session es (sessionId e)))"
  by (simp_all add: entered_def)

lemma in_session_entry:
  "snd (in_session h opts at raw key e (entered es e) ls st) =
     (let st1 = (if sequence e \<noteq> int (length (of_session es (sessionId e))) + 1
            then lifecycle at SEQUENCE_GAP
              (js ''sequence '' @ show_int (sequence e) @ js '' follows '' @
               show_int (int (length (of_session es (sessionId e)))) @ js '' in session '' @ sessionId e) e st
            else st);
          ses1 = (entered es e)\<lparr>ses_lastSequence := sequence e\<rparr>;
          st2 = st1\<lparr>sessions := jset (sessionId e) ses1 (sessions st1)\<rparr>
      in if session_ended es (sessionId e) \<and> eventType e \<noteq> js ''run.finished''
         then lifecycle at SESSION_ALREADY_FINISHED (eventType e @ js '' after session.finished'') e st2
         else if \<not> isKnownEvent e
         then push (info_diagnostic at IGNORED_EVENT_TYPE
                (js ''unknown ignorable event type '' @ eventType e @ js '' skipped'') (eventId e))
              (archive h opts at raw key e Ignored (st2\<lparr>n_ignored := n_ignored st2 + 1\<rparr>))
         else
           apply_event at e ses1 (archive h opts at raw key e Accepted (ready opts e ses1 st1)))"
  unfolding in_session_def ready_def Let_def entered_session
  by (simp only: if_distrib [of snd] snd_conv)

lemma payload_ok_unknown: "typed e \<Longrightarrow> \<not> isKnownEvent e \<Longrightarrow> payload_ok es e"
  using typed_facts(3) [of e] by (auto simp: payload_ok_def)

lemma clean_in_session:
  assumes mid: "mid_inv opts st es e" and typed: "typed e"
  shows "clean (snd (in_session h opts at raw key e (entered es e) ls st)) \<longleftrightarrow>
    clean st \<and> place_ok es e \<and> payload_ok es e"
proof -
  let ?ses = "(entered es e)\<lparr>ses_lastSequence := sequence e\<rparr>"
  let ?st = "archive h opts at raw key e Accepted (ready opts e ?ses st)"
  have "runs_inv ?st es"
    using mid by (simp add: archive_keeps ready_keeps mid_inv_def)
  then have silent: "silent e ?ses ?st \<longleftrightarrow> payload_ok es e"
    by (rule silent_iff) (rule mid_sees [OF mid])
  have start: "starts_session (payload e) \<longleftrightarrow> of_session es (sessionId e) = []"
    using mid by (simp add: mid_inv_def)
  show ?thesis
  proof (cases "sequence e = int (length (of_session es (sessionId e))) + 1")
    case True
    have "clean (snd (in_session h opts at raw key e (entered es e) ls st)) \<longleftrightarrow>
      clean st \<and> (session_ended es (sessionId e) \<longrightarrow> payload e = RunFinished) \<and>
      (isKnownEvent e \<longrightarrow> payload_ok es e)"
      unfolding in_session_entry Let_def silent [symmetric]
      using True typed_facts(2) [OF typed]
      by (auto simp: clean_simps archive_keeps ready_keeps clean_apply_event)
    with True start payload_ok_unknown [OF typed] show ?thesis by (auto simp: place_ok_def)
  next
    case False
    then show ?thesis
      by (simp add: in_session_entry Let_def clean_simps archive_keeps ready_keeps clean_apply_event
          place_ok_def)
  qed
qed

lemma in_session_loop:
  assumes "mid_inv opts st es e" and "typed e"
    and "clean (snd (in_session h opts at raw key e (entered es e) ls st))"
  shows "fst (in_session h opts at raw key e (entered es e) ls st) =
    ls\<lparr>fl_closedHere := fl_closedHere ls \<or> payload e = RunFinished\<rparr>"
proof -
  have "place_ok es e" using assms by (simp add: clean_in_session)
  then have "session_ended es (sessionId e) \<longrightarrow> payload e = RunFinished" by (simp add: place_ok_def)
  moreover have "\<not> isKnownEvent e \<longrightarrow> payload e \<noteq> RunFinished"
    using typed_facts(3) [OF assms(2)] by auto
  ultimately show ?thesis
    using typed_facts(2) [OF assms(2)]
    by (auto simp: in_session_def entered_def Let_def)
qed

lemma sessions_after:
  assumes mid: "mid_inv opts st es e" and seq: "sequence e = int (length (of_session es (sessionId e))) + 1"
    and fin: "session_ended es (sessionId e) \<longrightarrow> payload e = RunFinished"
  shows "sessions_inv (if session_end (payload e) = None
      then jset (sessionId e) ((entered es e)\<lparr>ses_lastSequence := sequence e\<rparr>) (sessions st)
      else jset (sessionId e) ((entered es e)\<lparr>ses_lastSequence := sequence e, ses_finished := True\<rparr>)
        (sessions st)) (es @ [e])"
    (is "sessions_inv ?m _")
proof (rule sessions_inv_after [OF _ _ seq])
  show "jkeys_ok ?m"
    using mid by (simp add: mid_inv_def jmap_simps)
  show "jget ?m sid = (if sid = sessionId e then Some (session_end_state es e) else spec_session es sid)" for sid
    using mid fin by (auto simp: mid_inv_def jmap_simps session_end_state_def entered_def)
qed

lemma unknown_inv:
  assumes "typed e" and "\<not> isKnownEvent e"
  shows "runs_inv st es \<Longrightarrow> runs_inv st (es @ [e])" and "tallies st es \<Longrightarrow> tallies st (es @ [e])"
proof -
  from assms typed_facts(3) obtain t p where p: "payload e = UnknownPayload t p" by blast
  then show "runs_inv st es \<Longrightarrow> runs_inv st (es @ [e])"
    by (auto simp: runs_inv_def event_simps intro: attempts_inv_other executions_inv_other)
  show "tallies st es \<Longrightarrow> tallies st (es @ [e])"
    by (simp add: tallies_def p event_simps attachment_inv_snoc)
qed

lemma push_select [simp]:
  "attempts (push d st) = attempts st" "executions (push d st) = executions st"
  "sessions (push d st) = sessions st" "v_runId (push d st) = v_runId st" "seen (push d st) = seen st"
  "accepted (push d st) = accepted st" "source_log (push d st) = source_log st"
  "runFinished (push d st) = runFinished st" "n_files (push d st) = n_files st"
  "runs_inv (push d st) = runs_inv st" "tallies (push d st) = tallies st"
  by (simp_all add: push_def runs_inv_def tallies_def fun_eq_iff)

lemma in_session_inv:
  assumes mid: "mid_inv opts st es e" and typed: "typed e"
    and clean: "clean (snd (in_session h opts at raw key e (entered es e) ls st))"
  shows "full_inv opts (snd (in_session h opts at raw key e (entered es e) ls st)) (es @ [e]) \<and>
    seen (snd (in_session h opts at raw key e (entered es e) ls st)) = seen st \<and>
    n_files (snd (in_session h opts at raw key e (entered es e) ls st)) = n_files st"
proof -
  let ?ses = "(entered es e)\<lparr>ses_lastSequence := sequence e\<rparr>"
  let ?st' = "snd (in_session h opts at raw key e (entered es e) ls st)"
  have place: "place_ok es e"
    using mid typed clean by (simp add: clean_in_session)
  then have seq: "sequence e = int (length (of_session es (sessionId e))) + 1"
    and fin: "session_ended es (sessionId e) \<longrightarrow> payload e = RunFinished"
    by (simp_all add: place_ok_def)
  note after = sessions_after [OF mid seq fin]
  show ?thesis
  proof (cases "isKnownEvent e")
    case True
    let ?st = "archive h opts at raw key e Accepted (ready opts e ?ses st)"
    have st': "?st' = apply_event at e ?ses ?st"
      using seq fin True typed_facts(2) [OF typed] by (auto simp: in_session_entry Let_def)
    have c: "clean (apply_event at e ?ses ?st)" using clean by (simp only: st')
    have pre: "runs_inv ?st es" "tallies ?st es"
      using mid by (simp_all add: archive_keeps ready_keeps mid_inv_def)
    note keeps = apply_keeps [OF c] apply_sessions [OF c]
    have "runs_inv ?st' (es @ [e])" "tallies ?st' (es @ [e])"
      unfolding st' using apply_runs_inv [OF c pre(1) mid_sees [OF mid]] apply_tallies [OF c pre(2)]
      by simp_all
    moreover have "sessions_inv (sessions ?st') (es @ [e])"
      using after by (auto simp: st' keeps archive_keeps ready_keeps split: if_splits)
    moreover have "run_inv ?st' (es @ [e])"
      using mid by (auto simp: run_inv_def mid_inv_def st' keeps archive_keeps ready_keeps)
    moreover have "kept opts ?st' (es @ [e])"
      using mid True
      by (simp add: kept_def mid_inv_def st' keeps archive_keeps ready_keeps archive_kept)
    ultimately show ?thesis
      by (simp add: full_inv_def st' keeps archive_keeps ready_keeps)
  next
    case False
    let ?st = "archive h opts at raw key e Ignored
      (st\<lparr>sessions := jset (sessionId e) ?ses (sessions st), n_ignored := n_ignored st + 1\<rparr>)"
    from typed_facts(3) [OF typed] False have p: "session_end (payload e) = None" by auto
    have st': "?st' = push (info_diagnostic at IGNORED_EVENT_TYPE
        (js ''unknown ignorable event type '' @ eventType e @ js '' skipped'') (eventId e)) ?st"
      using seq fin False typed_facts(2) [OF typed] typed_facts(3) [OF typed]
      by (auto simp: in_session_entry Let_def)
    have "runs_inv st (es @ [e])" "tallies st (es @ [e])"
      using mid by (auto simp: mid_inv_def intro!: unknown_inv [OF typed False])
    then have "runs_inv ?st (es @ [e])" "tallies ?st (es @ [e])"
      by (simp_all add: archive_keeps runs_inv_def tallies_def)
    then have "runs_inv ?st' (es @ [e])" "tallies ?st' (es @ [e])" by (simp_all add: st')
    moreover have "sessions_inv (sessions ?st') (es @ [e])"
      using after p by (simp add: st' archive_keeps)
    moreover have "run_inv ?st' (es @ [e])"
      using mid by (auto simp: run_inv_def mid_inv_def st' archive_keeps)
    moreover have "kept opts ?st' (es @ [e])"
      using mid False by (simp add: kept_def mid_inv_def st' archive_keeps archive_kept)
    ultimately show ?thesis
      by (simp add: full_inv_def st' archive_keeps)
  qed
qed

section \<open>Entering its session\<close>

definition pre_inv :: "options \<Rightarrow> validator \<Rightarrow> event list \<Rightarrow> event \<Rightarrow> bool" where
  "pre_inv opts st es e \<longleftrightarrow> sessions_inv (sessions st) es \<and> runs_inv st es \<and> tallies st es \<and>
     kept opts st es \<and> v_runId st = Some (runId e) \<and> (\<forall>d \<in> set es. v_runId st = Some (runId d))"

lemma clean_in_session_mono:
  "clean (snd (in_session h opts at raw key e ses ls st)) \<Longrightarrow> clean st"
  by (auto simp: in_session_def Let_def clean_simps archive_keeps clean_apply_event split: if_splits)

lemma no_session_end: "of_session es sid = [] \<Longrightarrow> \<not> session_ended es sid"
  by (auto simp: of_session_def session_ended_def filter_empty_conv)

lemma enter_session_enters:
  assumes pre: "pre_inv opts st es e" and typed: "typed e"
    and start: "starts_session (payload e) \<longleftrightarrow> of_session es (sessionId e) = []"
  obtains st' where
    "enter_session h opts single at raw key e ls st = in_session h opts at raw key e (entered es e) ls st'"
    "mid_inv opts st' es e" "clean st' = clean st" "seen st' = seen st" "n_files st' = n_files st"
proof (cases "starts_session (payload e)")
  case True
  let ?st = "st\<lparr>sessions := jset (sessionId e) (entered es e) (sessions st)\<rparr>"
  have none: "of_session es (sessionId e) = []" using True start by simp
  then have fresh: "entered es e = \<lparr>ses_finished = False, ses_lastSequence = 0,
      ses_runnerName = runner_of (payload e), ses_synthesized = False\<rparr>"
    by (simp add: entered_def no_session_end event_simps)
  have get: "jget (sessions st) (sessionId e) = None"
    using pre none by (simp add: pre_inv_def sessions_inv_def spec_session_def)
  show ?thesis
  proof (rule that [of ?st])
    show "enter_session h opts single at raw key e ls st = in_session h opts at raw key e (entered es e) ls ?st"
      using True typed_facts(1) [OF typed] get by (simp add: enter_session_def fresh Let_def)
    show "mid_inv opts ?st es e"
      using pre start
      by (auto simp: pre_inv_def mid_inv_def sessions_inv_def jmap_simps runs_inv_def tallies_def kept_def)
  qed (simp_all add: clean_simps)
next
  case False
  then have some: "of_session es (sessionId e) \<noteq> []" using start by simp
  then have get: "jget (sessions st) (sessionId e) = Some (entered es e)"
    using pre by (simp add: pre_inv_def sessions_inv_def spec_session_def entered_def event_simps)
  show ?thesis
  proof (rule that [of st])
    show "enter_session h opts single at raw key e ls st = in_session h opts at raw key e (entered es e) ls st"
      using False typed_facts(1) [OF typed] get by (simp add: enter_session_def)
    show "mid_inv opts st es e"
      using pre start get by (auto simp: pre_inv_def mid_inv_def sessions_inv_def)
  qed simp_all
qed

lemma enter_session_refuses:
  assumes pre: "pre_inv opts st es e" and typed: "typed e"
    and start: "starts_session (payload e) \<longleftrightarrow> of_session es (sessionId e) \<noteq> []"
  shows "\<not> clean (snd (enter_session h opts single at raw key e ls st))"
proof (cases "starts_session (payload e)")
  case True
  with start pre have "jget (sessions st) (sessionId e) \<noteq> None"
    by (simp add: pre_inv_def sessions_inv_def spec_session_def)
  with True typed_facts(1) [OF typed] show ?thesis
    by (auto simp: enter_session_def clean_simps)
next
  case False
  with start pre have "jget (sessions st) (sessionId e) = None"
    by (simp add: pre_inv_def sessions_inv_def spec_session_def)
  with False typed_facts(1) [OF typed] show ?thesis
    by (auto simp: enter_session_def Let_def clean_simps dest!: clean_in_session_mono)
qed

lemma clean_enter_session:
  assumes "pre_inv opts st es e" and "typed e"
  shows "clean (snd (enter_session h opts single at raw key e ls st)) \<longleftrightarrow>
    clean st \<and> place_ok es e \<and> payload_ok es e"
proof (cases "starts_session (payload e) \<longleftrightarrow> of_session es (sessionId e) = []")
  case True
  obtain st' where st': "enter_session h opts single at raw key e ls st =
      in_session h opts at raw key e (entered es e) ls st'" "mid_inv opts st' es e" "clean st' = clean st"
    by (rule enter_session_enters [OF assms True])
  with assms(2) show ?thesis by (simp add: clean_in_session)
next
  case False
  then have "starts_session (payload e) \<longleftrightarrow> of_session es (sessionId e) \<noteq> []" by blast
  with enter_session_refuses [OF assms this] show ?thesis by (auto simp: place_ok_def)
qed

lemma enter_session_inv:
  assumes pre: "pre_inv opts st es e" and typed: "typed e"
    and clean: "clean (snd (enter_session h opts single at raw key e ls st))"
  shows "full_inv opts (snd (enter_session h opts single at raw key e ls st)) (es @ [e]) \<and>
    seen (snd (enter_session h opts single at raw key e ls st)) = seen st \<and>
    n_files (snd (enter_session h opts single at raw key e ls st)) = n_files st \<and>
    fst (enter_session h opts single at raw key e ls st) =
      ls\<lparr>fl_closedHere := fl_closedHere ls \<or> payload e = RunFinished\<rparr>"
proof -
  have "place_ok es e" using assms by (simp add: clean_enter_session)
  then have "starts_session (payload e) \<longleftrightarrow> of_session es (sessionId e) = []"
    by (auto simp: place_ok_def split: if_splits)
  from enter_session_enters [OF pre typed this, of h single at raw key ls] obtain st' where
    st': "enter_session h opts single at raw key e ls st = in_session h opts at raw key e (entered es e) ls st'"
      "mid_inv opts st' es e" "seen st' = seen st" "n_files st' = n_files st" by blast
  from in_session_inv [OF st'(2) typed clean [unfolded st'(1)]]
    in_session_loop [OF st'(2) typed clean [unfolded st'(1)]] show ?thesis
    by (simp add: st')
qed

section \<open>A new event of the run\<close>

definition numbered :: "validator \<Rightarrow> jstring \<Rightarrow> event \<Rightarrow> validator" where
  "numbered st key e =
     (if v_runId st = None
      then st\<lparr>seen := jset (eventId e) key (seen st), n_events := n_events st + 1,
             v_runId := Some (runId e)\<rparr>
      else st\<lparr>seen := jset (eventId e) key (seen st), n_events := n_events st + 1\<rparr>)"

lemma numbered_keeps:
  "clean (numbered st key e) = clean st" "n_files (numbered st key e) = n_files st"
  "seen (numbered st key e) = jset (eventId e) key (seen st)"
  "sessions (numbered st key e) = sessions st"
  "v_runId (numbered st key e) = (if v_runId st = None then Some (runId e) else v_runId st)"
  "runs_inv (numbered st key e) es = runs_inv st es" "tallies (numbered st key e) es = tallies st es"
  "kept opts (numbered st key e) es = kept opts st es"
  by (simp_all add: numbered_def clean_simps runs_inv_def tallies_def kept_def)

lemma run_inv_id: "run_inv st es \<Longrightarrow> d \<in> set es \<Longrightarrow> v_runId st = Some (runId d)"
  by (simp add: run_inv_def)

lemma numbered_pre:
  assumes inv: "full_inv opts st es" and run: "\<forall>d \<in> set es. runId d = runId e"
  shows "pre_inv opts (numbered st key e) es e"
proof -
  have r: "run_inv st es" using inv by (simp add: full_inv_def)
  have "v_runId st = None \<and> es = [] \<or> v_runId st = Some (runId e)"
  proof (cases es)
    case Nil
    with r show ?thesis by (simp add: run_inv_def)
  next
    case (Cons d ds)
    with run_inv_id [OF r, of d] run show ?thesis by simp
  qed
  then have "v_runId (numbered st key e) = Some (runId e)"
    by (auto simp: numbered_keeps)
  with inv run show ?thesis
    by (simp add: pre_inv_def full_inv_def numbered_keeps)
qed

definition file_step :: "bool \<Rightarrow> event \<Rightarrow> feed_loop \<Rightarrow> feed_loop" where
  "file_step single e ls =
     (if single \<and> fl_session ls = None then ls\<lparr>fl_session := Some (sessionId e)\<rparr> else ls)"

text \<open>A new event that the run and the file allow goes on to its session.\<close>

lemma new_event_enters:
  assumes inv: "full_inv opts st es" and run: "\<forall>d \<in> set es. runId d = runId e"
    and single: "single \<longrightarrow> fl_session ls = None \<or> fl_session ls = Some (sessionId e)"
    and closed: "\<not> fl_closedHere ls"
  shows "new_event h opts single at raw key e ls st =
    enter_session h opts single at raw key e (file_step single e ls) (numbered st key e)"
proof -
  have r: "run_inv st es" using inv by (simp add: full_inv_def)
  consider "v_runId st = None" | "v_runId st = Some (runId e)"
  proof (cases es)
    case Nil
    with r that(1) show ?thesis by (simp add: run_inv_def)
  next
    case (Cons d ds)
    with run_inv_id [OF r, of d] run that(2) show ?thesis by simp
  qed
  then show ?thesis
  proof cases
    case 1
    with single closed show ?thesis
      by (auto simp: new_event_def file_step_def numbered_def Let_def)
  next
    case 2
    with single closed show ?thesis
      by (auto simp: new_event_def file_step_def numbered_def Let_def)
  qed
qed

lemma clean_enter_session_mono:
  "clean (snd (enter_session h opts single at raw key e ls st)) \<Longrightarrow> clean st"
  by (auto simp: enter_session_def Let_def clean_simps split: option.splits if_splits
      dest!: clean_in_session_mono)

lemma clean_new_event_mono:
  assumes "clean (snd (new_event h opts single at raw key e ls st))"
  shows "clean st" and "\<not> fl_closedHere ls"
    and "single \<longrightarrow> fl_session ls = None \<or> fl_session ls = Some (sessionId e)"
    and "v_runId st = None \<or> v_runId st = Some (runId e)"
  using assms
  by (auto simp: new_event_def Let_def clean_simps split: option.splits if_splits
      dest!: clean_enter_session_mono)

lemma loop_inv_file:
  assumes "loop_inv single f ls h"
  shows "file_ok single h f e \<longleftrightarrow>
    \<not> fl_closedHere ls \<and> (single \<longrightarrow> fl_session ls = None \<or> fl_session ls = Some (sessionId e))"
  using assms by (fastforce simp: loop_inv_def file_ok_def)

lemma clean_new_event:
  assumes inv: "full_inv opts st (map snd past)" and loop: "loop_inv single f ls past" and typed: "typed e"
  shows "clean (snd (new_event h opts single at raw key e ls st)) \<longleftrightarrow>
    clean st \<and> rule_ok single past (f, e)"
proof (cases "(\<forall>d \<in> set (map snd past). runId d = runId e) \<and> file_ok single past f e")
  case True
  then have run: "\<forall>d \<in> set (map snd past). runId d = runId e"
    and single: "single \<longrightarrow> fl_session ls = None \<or> fl_session ls = Some (sessionId e)"
    and closed: "\<not> fl_closedHere ls"
    using loop_inv_file [OF loop] by blast+
  show ?thesis
    using True
    by (simp add: new_event_enters [OF inv run single closed] numbered_keeps rule_ok_def
        clean_enter_session [OF numbered_pre [OF inv run] typed])
next
  case False
  have r: "run_inv st (map snd past)" using inv by (simp add: full_inv_def)
  have "\<not> clean (snd (new_event h opts single at raw key e ls st))"
  proof
    assume c: "clean (snd (new_event h opts single at raw key e ls st))"
    from clean_new_event_mono [OF c] loop_inv_file [OF loop] have "file_ok single past f e" by blast
    moreover have "runId d = runId e" if "d \<in> set (map snd past)" for d
      using run_inv_id [OF r that] clean_new_event_mono(4) [OF c] by simp
    ultimately show False using False by blast
  qed
  with False show ?thesis by (auto simp: rule_ok_def)
qed

lemma new_event_inv:
  assumes inv: "full_inv opts st (map snd past)" and loop: "loop_inv single f ls past" and typed: "typed e"
    and clean: "clean (snd (new_event h opts single at raw key e ls st))"
  shows "full_inv opts (snd (new_event h opts single at raw key e ls st)) (map snd (past @ [(f, e)]))"
    and "loop_inv single f (fst (new_event h opts single at raw key e ls st)) (past @ [(f, e)])"
    and "seen (snd (new_event h opts single at raw key e ls st)) = jset (eventId e) key (seen st)"
    and "n_files (snd (new_event h opts single at raw key e ls st)) = n_files st"
proof -
  from clean have "rule_ok single past (f, e)" by (simp add: clean_new_event [OF inv loop typed])
  then have run: "\<forall>d \<in> set (map snd past). runId d = runId e" and ok: "file_ok single past f e"
    by (simp_all add: rule_ok_def)
  from ok have single: "single \<longrightarrow> fl_session ls = None \<or> fl_session ls = Some (sessionId e)"
    and closed: "\<not> fl_closedHere ls"
    using loop_inv_file [OF loop] by blast+
  note enters = new_event_enters [OF inv run single closed, of h at raw key]
  from enter_session_inv [OF numbered_pre [OF inv run] typed clean [unfolded enters]]
  show "full_inv opts (snd (new_event h opts single at raw key e ls st)) (map snd (past @ [(f, e)]))"
    "seen (snd (new_event h opts single at raw key e ls st)) = jset (eventId e) key (seen st)"
    "n_files (snd (new_event h opts single at raw key e ls st)) = n_files st"
    "loop_inv single f (fst (new_event h opts single at raw key e ls st)) (past @ [(f, e)])"
    using loop single closed
    by (auto simp: enters numbered_keeps loop_inv_def file_step_def)
qed

end
