(* ===== verification/Validator_Report.thy ===== *)
theory Validator_Report
  imports Validator
begin

text \<open>
  The end of a validation, \<open>src/ts/packages/validator/src/validator.ts\<close>: the file-system entries
  the validator will read, the attachment bytes it checks, the report of \<open>finish\<close>, the three
  entry points \<open>validateLines\<close>, \<open>validateFile\<close> and \<open>validateRunDirectorySnapshot\<close>, and the text
  of a diagnostic.
\<close>

section \<open>The file system\<close>

datatype io_error = ENOENT | ENOTDIR | ELOOP | EMLINK | OtherErrno jstring | Thrown jstring

record stats =
  isSymbolicLink :: bool
  isFile :: bool
  isDirectory :: bool
  stat_size :: int

text \<open>
  The calls of \<open>node:fs\<close> and \<open>node:path\<close> that are made.  A path may change its nature between
  \<open>lstat\<close> and \<open>open\<close>, so the answers are independent of each other.
\<close>

record file_system =
  lstatSync :: "jstring \<Rightarrow> io_error + stats"
  openSync :: "jstring \<Rightarrow> io_error + nat"
  fstatSync :: "nat \<Rightarrow> io_error + stats"
  readDescriptor :: "nat \<Rightarrow> io_error + jstring"
  hashDescriptor :: "nat \<Rightarrow> io_error + jstring"
  readFileSync :: "jstring \<Rightarrow> io_error + jstring"
  readdirSync :: "jstring \<Rightarrow> io_error + jstring list"
  realpathSync :: "jstring \<Rightarrow> io_error + jstring"
  path_join :: "jstring list \<Rightarrow> jstring"

text \<open>
  A call that may throw and that opens and closes descriptors: the list is what is open.
\<close>

type_synonym 'a io = "nat list \<Rightarrow> (io_error + 'a) \<times> nat list"

definition return_io :: "'a \<Rightarrow> 'a io" where
  "return_io a = (\<lambda>fds. (Inr a, fds))"

definition lift_io :: "io_error + 'a \<Rightarrow> 'a io" where
  "lift_io r = (\<lambda>fds. (r, fds))"

definition bind_io :: "'a io \<Rightarrow> ('a \<Rightarrow> 'b io) \<Rightarrow> 'b io" where
  "bind_io m f = (\<lambda>fds. case m fds of (Inl e, fds') \<Rightarrow> (Inl e, fds') | (Inr a, fds') \<Rightarrow> f a fds')"

definition open_io :: "file_system \<Rightarrow> jstring \<Rightarrow> (io_error + nat) io" where
  "open_io fs path = (\<lambda>fds. case openSync fs path of
     Inl e \<Rightarrow> (Inr (Inl e), fds) | Inr fd \<Rightarrow> (Inr (Inr fd), fd # fds))"

definition close_io :: "nat \<Rightarrow> unit io" where
  "close_io fd = (\<lambda>fds. (Inr (), remove1 fd fds))"

datatype entry_kind = Missing | Regular | Folder | Symlink | Special

definition kindOf :: "stats \<Rightarrow> entry_kind" where
  "kindOf s = (if isSymbolicLink s then Symlink else if isFile s then Regular
     else if isDirectory s then Folder else Special)"

definition entryKind :: "file_system \<Rightarrow> jstring \<Rightarrow> io_error + entry_kind" where
  "entryKind fs path =
     (case lstatSync fs path of
        Inl ENOENT \<Rightarrow> Inr Missing
      | Inl ENOTDIR \<Rightarrow> Inr Missing
      | Inl e \<Rightarrow> Inl e
      | Inr s \<Rightarrow> Inr (kindOf s))"

definition trustedDirectory :: "file_system \<Rightarrow> jstring \<Rightarrow> io_error + jstring" where
  "trustedDirectory fs path =
     (case realpathSync fs path of Inl ENOENT \<Rightarrow> Inr path | r \<Rightarrow> r)"

fun REFUSAL :: "entry_kind \<Rightarrow> jstring" where
  "REFUSAL Symlink = js ''a symbolic link''"
| "REFUSAL Folder = js ''a directory''"
| "REFUSAL Special = js ''not a regular file''"
| "REFUSAL Regular = js ''a regular file''"
| "REFUSAL Missing = js ''undefined''"

text \<open>\<open>Inr fd\<close> is \<open>{ fd }\<close>, \<open>Inl k\<close> is \<open>{ refused: k }\<close>.\<close>

definition openRegular :: "file_system \<Rightarrow> jstring \<Rightarrow> (entry_kind + nat) io" where
  "openRegular fs path =
     bind_io (open_io fs path) (\<lambda>r.
     case r of
       Inl ELOOP \<Rightarrow> return_io (Inl Symlink)
     | Inl EMLINK \<Rightarrow> return_io (Inl Symlink)
     | Inl ENOENT \<Rightarrow> return_io (Inl Missing)
     | Inl e \<Rightarrow> lift_io (Inl e)
     | Inr fd \<Rightarrow>
         (case fstatSync fs fd of
            Inl e \<Rightarrow> bind_io (close_io fd) (\<lambda>_. lift_io (Inl e))
          | Inr s \<Rightarrow>
              if kindOf s \<noteq> Regular
              then bind_io (close_io fd) (\<lambda>_. return_io (Inl (kindOf s)))
              else return_io (Inr fd)))"

text \<open>The read stream owns the descriptor and closes it when it ends, in an error too.\<close>

definition sha256Fd :: "file_system \<Rightarrow> nat \<Rightarrow> jstring io" where
  "sha256Fd fs fd = bind_io (close_io fd) (\<lambda>_. lift_io (hashDescriptor fs fd))"

definition refuseEntry :: "jstring \<Rightarrow> entry_kind \<Rightarrow> entry_kind \<Rightarrow> validator \<Rightarrow> validator" where
  "refuseEntry path reason wanted st =
     push \<lparr>dg_severity = SevError, dg_code = UNSAFE_FILESYSTEM_ENTRY, dg_file = path, dg_line = 0,
       dg_eventId = None, dg_pointer = None, dg_detail = None,
       dg_message = (if wanted = Folder
         then REFUSAL reason @ js '' where a directory is required; nothing below it is read''
         else REFUSAL reason @ js ''; only regular files are read'')\<rparr> st"

section \<open>Attachment bytes\<close>

definition attachment_error :: "attachment_place \<Rightarrow> diagnostic_code \<Rightarrow> jstring \<Rightarrow> validator \<Rightarrow> validator" where
  "attachment_error a code message st =
     push (error_diagnostic \<lparr>fa_file = pl_file a, fa_line = pl_line a\<rparr> code message None
       (Some (pl_eventId a))) st"

definition attachment_unreadable :: "attachment_place \<Rightarrow> entry_kind \<Rightarrow> validator \<Rightarrow> validator" where
  "attachment_unreadable a kind st =
     (if kind = Missing
      then attachment_error a ATTACHMENT_MISSING (js ''no file for sha256 '' @ pl_sha256 a) st
      else attachment_error a UNSAFE_FILESYSTEM_ENTRY
        (js ''attachment '' @ pl_sha256 a @ js '' is '' @ REFUSAL kind @ js ''; only regular files are read'') st)"

definition check_attachment :: "file_system \<Rightarrow> jstring \<Rightarrow> attachment_place \<Rightarrow> validator \<Rightarrow> validator io" where
  "check_attachment fs dir a st =
     (let path = path_join fs [dir, pl_sha256 a] in
      bind_io (lift_io (entryKind fs path)) (\<lambda>kind.
      if kind \<noteq> Regular then return_io (attachment_unreadable a kind st)
      else bind_io (openRegular fs path) (\<lambda>opened.
      case opened of
        Inl kind' \<Rightarrow> return_io (attachment_unreadable a kind' st)
      | Inr fd \<Rightarrow>
          (case fstatSync fs fd of
             Inl e \<Rightarrow> bind_io (close_io fd) (\<lambda>_. lift_io (Inl e))
           | Inr s \<Rightarrow>
               let st1 = (if stat_size s \<noteq> pl_sizeBytes a
                     then attachment_error a ATTACHMENT_SIZE_MISMATCH
                       (js ''declared '' @ show_int (pl_sizeBytes a) @ js '' bytes, file has '' @
                        show_int (stat_size s)) st
                     else st)
               in bind_io (sha256Fd fs fd) (\<lambda>actual.
                  return_io (if actual \<noteq> pl_sha256 a
                     then attachment_error a ATTACHMENT_HASH_MISMATCH
                       (js ''declared '' @ pl_sha256 a @ js '', file hashes to '' @ actual) st1
                     else st1))))))"

fun check_attachment_list :: "file_system \<Rightarrow> jstring \<Rightarrow> attachment_place list \<Rightarrow> validator \<Rightarrow> validator io" where
  "check_attachment_list fs dir [] st = return_io st"
| "check_attachment_list fs dir (a # as) st =
     bind_io (check_attachment fs dir a st) (check_attachment_list fs dir as)"

definition check_attachments :: "file_system \<Rightarrow> options \<Rightarrow> validator \<Rightarrow> validator io" where
  "check_attachments fs opts st =
     (case opt_attachmentsDir opts of
        None \<Rightarrow> return_io st
      | Some dir \<Rightarrow>
          bind_io (lift_io (entryKind fs dir)) (\<lambda>kind.
          if kind = Symlink \<or> kind = Special \<or> kind = Regular
          then return_io (if attachments st \<noteq> [] \<and> \<not> attachmentsDirRefused st
                 then (refuseEntry dir kind Folder st)\<lparr>attachmentsDirRefused := True\<rparr>
                 else st)
          else check_attachment_list fs dir (attachments st) st))"

section \<open>The report\<close>

datatype verdict = VPassed | VFailed | VInconclusive | VIncomplete

record summary =
  sum_files :: nat
  sum_events :: nat
  sum_sessions :: nat
  sum_attempts :: nat
  sum_steps :: nat
  sum_attachments :: nat
  sum_failedAttempts :: nat
  sum_scopeFailures :: nat
  sum_failedSessions :: nat
  sum_inconclusiveSessions :: nat
  sum_sessionFailures :: nat
  sum_ignored :: nat
  sum_duplicates :: nat
  sum_complete :: bool
  sum_closed :: bool
  sum_verdict :: verdict

record report =
  rep_valid :: bool
  rep_diagnostics :: "diagnostic list"
  rep_summary :: summary

definition check_run_end :: "validator \<Rightarrow> validator" where
  "check_run_end st =
     (case runFinished st of
        None \<Rightarrow> st
      | Some r \<Rightarrow>
          fold (\<lambda>(i, s) v.
            if \<not> ses_finished s
            then push (lifecycle_diagnostic \<lparr>fa_file = pl_file r, fa_line = pl_line r\<rparr>
                   SESSION_NOT_FINISHED_AT_RUN_END
                   (js ''run.finished while session '' @ i @ js '' is still open'') (pl_eventId r)) v
            else v) (sessions st) st)"

definition is_complete :: "validator \<Rightarrow> bool" where
  "is_complete st \<longleftrightarrow>
     list_all (\<lambda>(_, s). ses_finished s) (sessions st) \<and>
     list_all (\<lambda>(_, a). att_finished a \<and> list_all snd (att_steps a)) (attempts st)"

definition check_complete :: "options \<Rightarrow> validator \<Rightarrow> validator" where
  "check_complete opts st =
     (if is_complete st then st
      else push \<lparr>dg_severity = (if opt_requireComplete opts then SevError else SevInfo),
             dg_code = INCOMPLETE_RUN, dg_file = [], dg_line = 0, dg_eventId = None,
             dg_pointer = None, dg_detail = None,
             dg_message = js ''a session, attempt, or step started but never finished''\<rparr> st)"

definition final_attempts :: "validator \<Rightarrow> (jstring, attempt_state) jmap" where
  "final_attempts st =
     fold (\<lambda>(_, a) m.
       case jget m (att_executionId a) of
         None \<Rightarrow> jset (att_executionId a) a m
       | Some current \<Rightarrow>
           if att_attemptNumber a > att_attemptNumber current then jset (att_executionId a) a m else m)
       (attempts st) []"

definition run_verdict :: "validator \<Rightarrow> verdict" where
  "run_verdict st =
     (let finals = map snd (final_attempts st) in
      if \<not> is_complete st then VIncomplete
      else if list_ex att_unexpected finals \<or> n_scopeFailures st > 0 \<or> n_failedSessions st > 0 then VFailed
      else if list_ex att_inconclusive finals \<or> n_inconclusiveSessions st > 0 then VInconclusive
      else VPassed)"

definition make_report :: "validator \<Rightarrow> report" where
  "make_report st =
     \<lparr>rep_valid = (\<not> list_ex (\<lambda>d. dg_severity d = SevError) (diagnostics st)),
      rep_diagnostics = diagnostics st,
      rep_summary = \<lparr>sum_files = n_files st, sum_events = n_events st,
        sum_sessions = length (sessions st), sum_attempts = length (attempts st),
        sum_steps = n_steps st, sum_attachments = length (attachments st),
        sum_failedAttempts = n_failedAttempts st, sum_scopeFailures = n_scopeFailures st,
        sum_failedSessions = n_failedSessions st, sum_inconclusiveSessions = n_inconclusiveSessions st,
        sum_sessionFailures = n_sessionFailures st, sum_ignored = n_ignored st,
        sum_duplicates = n_duplicates st, sum_complete = is_complete st,
        sum_closed = (runFinished st \<noteq> None), sum_verdict = run_verdict st\<rparr>\<rparr>"

definition finish :: "file_system \<Rightarrow> options \<Rightarrow> validator \<Rightarrow> (report \<times> validator) io" where
  "finish fs opts st =
     bind_io (check_attachments fs opts (check_run_end st)) (\<lambda>st1.
     let st2 = check_complete opts st1 in return_io (make_report st2, st2))"

section \<open>Entry points\<close>

definition validateLines :: "host \<Rightarrow> file_system \<Rightarrow> options \<Rightarrow> jstring list \<Rightarrow> jstring \<Rightarrow> report io" where
  "validateLines h fs opts lines file =
     bind_io (finish fs opts (feed h opts False lines file new_validator)) (\<lambda>r. return_io (fst r))"

definition validateFile :: "host \<Rightarrow> file_system \<Rightarrow> options \<Rightarrow> jstring \<Rightarrow> report io" where
  "validateFile h fs opts path =
     bind_io (lift_io (readFileSync fs path)) (\<lambda>text.
     bind_io (lift_io (case opt_attachmentsDir opts of
         None \<Rightarrow> Inr (path_join fs [path, js ''..'', js ''..'', js ''attachments''])
       | Some d \<Rightarrow> trustedDirectory fs d)) (\<lambda>dir.
     validateLines h fs (opts\<lparr>opt_attachmentsDir := Some dir\<rparr>) (split_on 0x0A text) path))"

definition ends_with :: "jstring \<Rightarrow> jstring \<Rightarrow> bool" where
  "ends_with s suffix \<longleftrightarrow> length suffix \<le> length s \<and> drop (length s - length suffix) s = suffix"

record validated_run =
  vr_report :: report
  vr_events :: "event list"
  vr_sourceLines :: "source_line list"

definition feed_entry :: "host \<Rightarrow> file_system \<Rightarrow> options \<Rightarrow> jstring \<Rightarrow> validator \<Rightarrow> validator io" where
  "feed_entry h fs opts file st =
     bind_io (lift_io (entryKind fs file)) (\<lambda>kind.
     if kind = Missing then return_io st
     else if kind \<noteq> Regular then return_io (refuseEntry file kind Regular st)
     else bind_io (openRegular fs file) (\<lambda>opened.
     case opened of
       Inl k \<Rightarrow> return_io (if k \<noteq> Missing then refuseEntry file k Regular st else st)
     | Inr fd \<Rightarrow>
         bind_io (close_io fd) (\<lambda>_.
         bind_io (lift_io (readDescriptor fs fd)) (\<lambda>text.
         return_io (feed h opts True (split_on 0x0A text) file st)))))"

fun feed_entries :: "host \<Rightarrow> file_system \<Rightarrow> options \<Rightarrow> jstring list \<Rightarrow> validator \<Rightarrow> validator io" where
  "feed_entries h fs opts [] st = return_io st"
| "feed_entries h fs opts (f # files) st =
     bind_io (feed_entry h fs opts f st) (feed_entries h fs opts files)"

text \<open>
  \<open>retain\<close> is \<open>options.retainEvents\<close> with its third value, absent, which means to retain.
\<close>

definition validateRunDirectorySnapshot ::
    "host \<Rightarrow> file_system \<Rightarrow> options \<Rightarrow> bool option \<Rightarrow> jstring \<Rightarrow> validated_run io" where
  "validateRunDirectorySnapshot h fs opts retain dir =
     (let eventsDir = path_join fs [dir, js ''events''] in
      bind_io (lift_io (entryKind fs eventsDir)) (\<lambda>eventsKind.
      if eventsKind = Missing then lift_io (Inl (Thrown (dir @ js '' has no events directory'')))
      else
      bind_io (lift_io (case opt_attachmentsDir opts of
          None \<Rightarrow> Inr (path_join fs [dir, js ''attachments''])
        | Some d \<Rightarrow> trustedDirectory fs d)) (\<lambda>attachmentsDir.
      let opts' = opts\<lparr>opt_attachmentsDir := Some attachmentsDir,
            opt_retainEvents := (case retain of None \<Rightarrow> True | Some b \<Rightarrow> b)\<rparr> in
      if eventsKind \<noteq> Folder
      then bind_io (finish fs opts' (refuseEntry eventsDir eventsKind Folder new_validator)) (\<lambda>(r, st).
           return_io \<lparr>vr_report = r, vr_events = accepted st, vr_sourceLines = []\<rparr>)
      else
        bind_io (lift_io (readdirSync fs eventsDir)) (\<lambda>names.
        bind_io (feed_entries h fs opts'
            (map (\<lambda>n. path_join fs [eventsDir, n])
               (sort (filter (\<lambda>n. ends_with n (js ''.ndjson'')) names))) new_validator) (\<lambda>st.
        bind_io (finish fs opts' st) (\<lambda>(r, st').
        return_io \<lparr>vr_report = r, vr_events = accepted st', vr_sourceLines = source_log st'\<rparr>))))))"

definition validateRunDirectory :: "host \<Rightarrow> file_system \<Rightarrow> options \<Rightarrow> jstring \<Rightarrow> report io" where
  "validateRunDirectory h fs opts dir =
     bind_io (validateRunDirectorySnapshot h fs opts (Some False) dir) (\<lambda>r. return_io (vr_report r))"

section \<open>The text of a diagnostic\<close>

fun protocol_code_word :: "protocol_error_code \<Rightarrow> jstring" where
  "protocol_code_word MALFORMED_JSON = js ''MALFORMED_JSON''"
| "protocol_code_word SCHEMA_INVALID = js ''SCHEMA_INVALID''"
| "protocol_code_word UNSUPPORTED_PROTOCOL_VERSION = js ''UNSUPPORTED_PROTOCOL_VERSION''"
| "protocol_code_word UNSUPPORTED_EVENT_TYPE = js ''UNSUPPORTED_EVENT_TYPE''"

fun code_word :: "diagnostic_code \<Rightarrow> jstring" where
  "code_word (Protocol c) = protocol_code_word c"
| "code_word EVENT_TOO_LARGE = js ''EVENT_TOO_LARGE''"
| "code_word LIFECYCLE_INVALID = js ''LIFECYCLE_INVALID''"
| "code_word ATTACHMENT_MISSING = js ''ATTACHMENT_MISSING''"
| "code_word ATTACHMENT_SIZE_MISMATCH = js ''ATTACHMENT_SIZE_MISMATCH''"
| "code_word ATTACHMENT_HASH_MISMATCH = js ''ATTACHMENT_HASH_MISMATCH''"
| "code_word UNSAFE_FILESYSTEM_ENTRY = js ''UNSAFE_FILESYSTEM_ENTRY''"
| "code_word IGNORED_EVENT_TYPE = js ''IGNORED_EVENT_TYPE''"
| "code_word DUPLICATE_EVENT = js ''DUPLICATE_EVENT''"
| "code_word INCOMPLETE_RUN = js ''INCOMPLETE_RUN''"

fun detail_word :: "lifecycle_detail \<Rightarrow> jstring" where
  "detail_word RUN_ID_MISMATCH = js ''RUN_ID_MISMATCH''"
| "detail_word SESSION_NOT_STARTED = js ''SESSION_NOT_STARTED''"
| "detail_word SESSION_ALREADY_STARTED = js ''SESSION_ALREADY_STARTED''"
| "detail_word SESSION_ALREADY_FINISHED = js ''SESSION_ALREADY_FINISHED''"
| "detail_word SESSION_FILE_MIXED = js ''SESSION_FILE_MIXED''"
| "detail_word SEQUENCE_GAP = js ''SEQUENCE_GAP''"
| "detail_word DUPLICATE_EVENT_ID = js ''DUPLICATE_EVENT_ID''"
| "detail_word EVENT_AFTER_RUN_FINISHED = js ''EVENT_AFTER_RUN_FINISHED''"
| "detail_word DUPLICATE_RUN_FINISHED = js ''DUPLICATE_RUN_FINISHED''"
| "detail_word SESSION_NOT_FINISHED_AT_RUN_END = js ''SESSION_NOT_FINISHED_AT_RUN_END''"
| "detail_word DUPLICATE_ATTEMPT_ID = js ''DUPLICATE_ATTEMPT_ID''"
| "detail_word DUPLICATE_ATTEMPT_NUMBER = js ''DUPLICATE_ATTEMPT_NUMBER''"
| "detail_word HISTORICAL_IDENTITY_CHANGED = js ''HISTORICAL_IDENTITY_CHANGED''"
| "detail_word EXECUTION_RUNNER_CHANGED = js ''EXECUTION_RUNNER_CHANGED''"
| "detail_word ATTEMPT_NOT_STARTED = js ''ATTEMPT_NOT_STARTED''"
| "detail_word DUPLICATE_ATTEMPT_FINISHED = js ''DUPLICATE_ATTEMPT_FINISHED''"
| "detail_word ATTEMPT_NOT_FINISHED_AT_SESSION_END = js ''ATTEMPT_NOT_FINISHED_AT_SESSION_END''"
| "detail_word HISTORICAL_ID_WITHOUT_RUNNER = js ''HISTORICAL_ID_WITHOUT_RUNNER''"
| "detail_word STEP_OUTSIDE_ATTEMPT = js ''STEP_OUTSIDE_ATTEMPT''"
| "detail_word STEP_PARENT_UNKNOWN = js ''STEP_PARENT_UNKNOWN''"
| "detail_word DUPLICATE_STEP_ID = js ''DUPLICATE_STEP_ID''"
| "detail_word STEP_NOT_STARTED = js ''STEP_NOT_STARTED''"
| "detail_word DUPLICATE_STEP_FINISHED = js ''DUPLICATE_STEP_FINISHED''"
| "detail_word STEP_NOT_FINISHED_AT_ATTEMPT_END = js ''STEP_NOT_FINISHED_AT_ATTEMPT_END''"
| "detail_word ATTACHMENT_ATTEMPT_UNKNOWN = js ''ATTACHMENT_ATTEMPT_UNKNOWN''"
| "detail_word ATTACHMENT_AFTER_ATTEMPT_FINISHED = js ''ATTACHMENT_AFTER_ATTEMPT_FINISHED''"
| "detail_word ATTACHMENT_STEP_UNKNOWN = js ''ATTACHMENT_STEP_UNKNOWN''"

fun severity_word :: "severity \<Rightarrow> jstring" where
  "severity_word SevError = js ''ERROR''"
| "severity_word SevInfo = js ''INFO''"

definition is_line_break :: "16 word \<Rightarrow> bool" where
  "is_line_break c \<longleftrightarrow> c = 0x0A \<or> c = 0x0D"

definition formatDiagnostic :: "diagnostic \<Rightarrow> jstring" where
  "formatDiagnostic d =
     (if dg_file d \<noteq> [] then dg_file d @ js '':'' @ show_nat (dg_line d) else js ''run'') @
     (case dg_eventId d of None \<Rightarrow> [] | Some i \<Rightarrow> js '' ['' @ i @ js '']'') @
     js '' '' @ severity_word (dg_severity d) @ js '' '' @ code_word (dg_code d) @
     (case dg_detail d of None \<Rightarrow> [] | Some x \<Rightarrow> js ''('' @ detail_word x @ js '')'') @
     js '': '' @ map (\<lambda>c. if is_line_break c then 0x20 else c) (dg_message d) @
     (case dg_pointer d of None \<Rightarrow> [] | Some p \<Rightarrow> if p \<noteq> [] then js '' at '' @ p else [])"

end
