(* ===== verification/Validator_Decides.thy ===== *)
theory Validator_Decides
  imports Validator_Feed Validator_Report
begin

text \<open>
  From lines to reports.  The lines of all files decode to a list of events; repetitions of an
  event are dropped; what is left is the history.  The validator reports a run valid exactly when
  every line decodes, repetitions are identical, the history obeys the lifecycle rules, a closed
  run has no open session, and the attachments and completeness that were asked for are in order.
\<close>

section \<open>The history of a set of files\<close>

text \<open>A decoded line: the number of its file, its parsed value, its event.\<close>

type_synonym decoded = "nat \<times> json \<times> event"

definition dec_id :: "decoded \<Rightarrow> jstring" where
  "dec_id x = eventId (snd (snd x))"

definition dec_key :: "decoded \<Rightarrow> jstring" where
  "dec_key x = canonical (fst (snd x))"

text \<open>First occurrences, as a history.\<close>

fun new_only :: "jstring list \<Rightarrow> decoded list \<Rightarrow> history" where
  "new_only ids [] = []"
| "new_only ids (x # xs) =
     (if List.member ids (dec_id x) then new_only ids xs
      else (fst x, snd (snd x)) # new_only (dec_id x # ids) xs)"

abbreviation history_of :: "decoded list \<Rightarrow> history" where
  "history_of xs \<equiv> new_only [] xs"

definition repeats_ok :: "decoded list \<Rightarrow> bool" where
  "repeats_ok xs \<longleftrightarrow> (\<forall>x \<in> set xs. \<forall>y \<in> set xs. dec_id x = dec_id y \<longrightarrow> dec_key x = dec_key y)"

definition read_value :: "host \<Rightarrow> options \<Rightarrow> jstring \<Rightarrow> (json \<times> event) option" where
  "read_value h opts raw =
     (case read_line h opts \<lparr>fa_file = [], fa_line = 0\<rparr> raw of Inl _ \<Rightarrow> None | Inr x \<Rightarrow> Some x)"

definition line_ok :: "host \<Rightarrow> options \<Rightarrow> jstring \<Rightarrow> bool" where
  "line_ok h opts raw \<longleftrightarrow> is_blank raw \<or> read_value h opts raw \<noteq> None"

fun decode_lines :: "host \<Rightarrow> options \<Rightarrow> nat \<Rightarrow> jstring list \<Rightarrow> decoded list" where
  "decode_lines h opts f [] = []"
| "decode_lines h opts f (raw # lines) =
     (case (if is_blank raw then None else read_value h opts raw) of
        None \<Rightarrow> decode_lines h opts f lines
      | Some x \<Rightarrow> (f, x) # decode_lines h opts f lines)"

text \<open>The files are numbered from \<open>f\<close> on, each a name and its lines.\<close>

fun decode_files :: "host \<Rightarrow> options \<Rightarrow> nat \<Rightarrow> (jstring \<times> jstring list) list \<Rightarrow> decoded list" where
  "decode_files h opts f [] = []"
| "decode_files h opts f (x # xs) = decode_lines h opts f (snd x) @ decode_files h opts (Suc f) xs"

definition feed_files :: "host \<Rightarrow> options \<Rightarrow> bool \<Rightarrow> (jstring \<times> jstring list) list \<Rightarrow> validator \<Rightarrow> validator" where
  "feed_files h opts single files st = fold (\<lambda>(file, lines). feed h opts single lines file) files st"

section \<open>Lists of decoded lines\<close>

lemma new_only_snoc:
  "new_only ids (xs @ [x]) =
     new_only ids xs @ (if dec_id x \<in> set ids \<union> dec_id ` set xs then [] else [(fst x, snd (snd x))])"
  by (induction xs arbitrary: ids) (auto)

lemma new_only_set: "set (new_only ids xs) \<subseteq> (\<lambda>x. (fst x, snd (snd x))) ` set xs"
  by (induction xs arbitrary: ids) auto

lemma new_only_append: "\<exists>r. new_only ids (xs @ ys) = new_only ids xs @ r"
proof (induction ys rule: rev_induct)
  case (snoc y ys)
  then obtain r where "new_only ids (xs @ ys) = new_only ids xs @ r" by blast
  with new_only_snoc [of ids "xs @ ys" y] show ?case by (auto simp: append_assoc)
qed simp

lemma repeats_ok_append: "repeats_ok (xs @ ys) \<Longrightarrow> repeats_ok xs"
  by (auto simp: repeats_ok_def)

lemma repeats_ok_snoc:
  "repeats_ok (xs @ [x]) \<longleftrightarrow> repeats_ok xs \<and> (\<forall>y \<in> set xs. dec_id y = dec_id x \<longrightarrow> dec_key y = dec_key x)"
  by (auto simp: repeats_ok_def)

definition seen_inv :: "(jstring, jstring) jmap \<Rightarrow> decoded list \<Rightarrow> bool" where
  "seen_inv m xs \<longleftrightarrow> (\<forall>i. jget m i = None \<longleftrightarrow> i \<notin> dec_id ` set xs) \<and>
     (\<forall>x \<in> set xs. jget m (dec_id x) = Some (dec_key x))"

section \<open>One line\<close>

text \<open>What a line that decodes is, whatever file and line number it has.\<close>

lemma read_line_Inr:
  "read_line h opts at raw = Inr (v, e) \<longleftrightarrow>
     utf8_length raw + 1 \<le> max_bytes opts \<and> json_parse h raw = Inr v \<and> eventFromObject v = Inr e \<and>
     ajv_validate h (if isKnownEvent e then Some (eventType e) else None) v = None"
proof (cases "utf8_length raw + 1 \<le> max_bytes opts")
  case True
  show ?thesis
  proof (cases "json_parse h raw")
    case (Inr w)
    show ?thesis
    proof (cases "eventFromObject w")
      case (Inr d)
      with True \<open>json_parse h raw = Inr w\<close> show ?thesis
        by (cases "ajv_validate h (if isKnownEvent d then Some (eventType d) else None) w")
          (auto simp: read_line_def Let_def case_prod_beta simp del: eventFromObject.simps)
    qed (use True Inr in \<open>auto simp: read_line_def simp del: eventFromObject.simps\<close>)
  qed (use True in \<open>auto simp: read_line_def\<close>)
qed (simp add: read_line_def)

lemma read_value_Some: "read_value h opts raw = Some (v, e) \<longleftrightarrow> read_line h opts at raw = Inr (v, e)"
proof -
  have "read_value h opts raw = Some (v, e) \<longleftrightarrow> read_line h opts \<lparr>fa_file = [], fa_line = 0\<rparr> raw = Inr (v, e)"
    by (auto simp: read_value_def split: sum.splits)
  then show ?thesis by (simp only: read_line_Inr)
qed

lemma read_value_None: "read_value h opts raw = None \<longleftrightarrow> (\<exists>d. read_line h opts at raw = Inl d)"
proof (cases "read_line h opts at raw")
  case (Inr x)
  then show ?thesis
    using read_value_Some [of h opts raw "fst x" "snd x" at] by simp
next
  case (Inl d)
  then have "read_value h opts raw \<noteq> Some x" for x
    using read_value_Some [of h opts raw "fst x" "snd x" at] by simp
  with Inl show ?thesis by (cases "read_value h opts raw") auto
qed

lemma read_line_severity:
  assumes "read_line h opts at raw = Inl d"
  shows "dg_severity d = SevError"
proof (rule ccontr)
  assume "dg_severity d \<noteq> SevError"
  with assms show False
    by (simp add: read_line_def Let_def case_prod_beta clean_simps del: eventFromObject.simps
        split: if_split_asm sum.split_asm option.split_asm)
      (auto simp: error_diagnostic_def)
qed

lemma read_value_typed: "read_value h opts raw = Some (v, e) \<Longrightarrow> typed e"
  using read_value_Some [of h opts raw v e] read_line_Inr [of h opts _ raw v e]
  by (blast intro: wf_typed eventFromObject_wf)

definition feed_inv :: "options \<Rightarrow> bool \<Rightarrow> nat \<Rightarrow> decoded list \<Rightarrow> feed_loop \<Rightarrow> validator \<Rightarrow> bool" where
  "feed_inv opts single f xs ls st \<longleftrightarrow>
     full_inv opts st (map snd (history_of xs)) \<and> loop_inv single f ls (history_of xs) \<and>
     seen_inv (seen st) xs \<and> repeats_ok xs \<and> lifecycle_ok single (history_of xs) \<and> clean st"

lemma clean_feed_event_mono:
  "clean (snd (feed_event h opts single at raw v e ls st)) \<Longrightarrow> clean st"
  by (cases "jget (seen st) (eventId e)")
    (auto simp: feed_event_def Let_def clean_simps archive_keeps dest: clean_new_event_mono(1) split: if_splits)

lemma loop_inv_line: "loop_inv single f (ls\<lparr>fl_line := n\<rparr>) h = loop_inv single f ls h"
  by (simp add: loop_inv_def)

lemma feed_invD:
  assumes "feed_inv opts single f xs ls st"
  shows "full_inv opts st (map snd (history_of xs))" "loop_inv single f ls (history_of xs)"
    "seen_inv (seen st) xs" "repeats_ok xs" "lifecycle_ok single (history_of xs)" "clean st"
  using assms by (simp_all add: feed_inv_def)

lemma feed_event_known:
  assumes "feed_inv opts single f xs ls st" and "x \<in> set xs" "dec_id x = eventId e"
  shows "feed_event h opts single at raw v e ls st =
    (ls, if dec_key x = canonical v
         then push (info_diagnostic at DUPLICATE_EVENT (js ''identical duplicate ignored'') (eventId e))
           (archive h opts at raw (canonical v) e Duplicate (st\<lparr>n_duplicates := n_duplicates st + 1\<rparr>))
         else lifecycle at DUPLICATE_EVENT_ID
           (js ''eventId '' @ eventId e @ js '' reused with different content'') e st)"
    and "repeats_ok (xs @ [(f, v, e)]) \<longleftrightarrow> dec_key x = canonical v"
    and "history_of (xs @ [(f, v, e)]) = history_of xs"
proof -
  have "jget (seen st) (dec_id x) = Some (dec_key x)"
    using feed_invD(3) [OF assms(1)] assms(2) by (simp add: seen_inv_def)
  then show "feed_event h opts single at raw v e ls st =
    (ls, if dec_key x = canonical v
         then push (info_diagnostic at DUPLICATE_EVENT (js ''identical duplicate ignored'') (eventId e))
           (archive h opts at raw (canonical v) e Duplicate (st\<lparr>n_duplicates := n_duplicates st + 1\<rparr>))
         else lifecycle at DUPLICATE_EVENT_ID
           (js ''eventId '' @ eventId e @ js '' reused with different content'') e st)"
    by (simp only: assms(3) feed_event_def Let_def option.case)
  have id: "dec_id (f, v, e) = eventId e" "dec_key (f, v, e) = canonical v"
    by (simp_all add: dec_id_def dec_key_def)
  show "repeats_ok (xs @ [(f, v, e)]) \<longleftrightarrow> dec_key x = canonical v"
    using feed_invD(4) [OF assms(1)] assms(2,3) unfolding repeats_ok_snoc id
    by (metis repeats_ok_def)
  show "history_of (xs @ [(f, v, e)]) = history_of xs"
    using assms(2,3) by (simp add: new_only_snoc id) (metis imageI)
qed

lemma feed_event_new:
  assumes "feed_inv opts single f xs ls st" and "eventId e \<notin> dec_id ` set xs"
  shows "feed_event h opts single at raw v e ls st = new_event h opts single at raw (canonical v) e ls st"
    and "repeats_ok (xs @ [(f, v, e)])"
    and "history_of (xs @ [(f, v, e)]) = history_of xs @ [(f, e)]"
proof -
  have "jget (seen st) (eventId e) = None"
    using feed_invD(3) [OF assms(1)] assms(2) by (simp add: seen_inv_def)
  then show "feed_event h opts single at raw v e ls st = new_event h opts single at raw (canonical v) e ls st"
    by (simp only: feed_event_def Let_def option.case)
  have id: "dec_id (f, v, e) = eventId e" by (simp add: dec_id_def)
  show "repeats_ok (xs @ [(f, v, e)])"
    using feed_invD(4) [OF assms(1)] assms(2) unfolding repeats_ok_snoc id by (metis imageI)
  show "history_of (xs @ [(f, v, e)]) = history_of xs @ [(f, e)]"
    using assms(2) by (simp add: new_only_snoc id)
qed

lemma clean_feed_event:
  assumes inv: "feed_inv opts single f xs ls st" and typed: "typed e"
  shows "clean (snd (feed_event h opts single at raw v e ls st)) \<longleftrightarrow>
    repeats_ok (xs @ [(f, v, e)]) \<and> lifecycle_ok single (history_of (xs @ [(f, v, e)]))"
proof (cases "eventId e \<in> dec_id ` set xs")
  case True
  then obtain x where x: "x \<in> set xs" "dec_id x = eventId e" by (metis imageE)
  show ?thesis
    unfolding feed_event_known [OF inv x]
    by (simp add: clean_simps archive_keeps feed_invD [OF inv])
next
  case False
  show ?thesis
    unfolding feed_event_new [OF inv False] lifecycle_ok_snoc
      clean_new_event [OF feed_invD(1,2) [OF inv] typed]
    by (simp add: feed_invD [OF inv] feed_event_new [OF inv False])
qed

lemma duplicate_full_inv:
  assumes "full_inv opts st es"
  shows "full_inv opts (push d (archive h opts at raw key e Duplicate
    (st\<lparr>n_duplicates := n_duplicates st + 1\<rparr>))) es"
proof -
  let ?st = "push d (archive h opts at raw key e Duplicate (st\<lparr>n_duplicates := n_duplicates st + 1\<rparr>))"
  have "kept opts ?st es \<longleftrightarrow> kept opts st es"
    by (simp add: kept_def archive_keeps) (simp add: archive_def)
  moreover have "runs_inv ?st es \<longleftrightarrow> runs_inv st es" "tallies ?st es \<longleftrightarrow> tallies st es"
    by (simp_all add: archive_keeps) (simp_all add: runs_inv_def tallies_def)
  ultimately show ?thesis
    using assms by (simp add: full_inv_def run_inv_def archive_keeps)
qed

lemma feed_event_inv:
  assumes inv: "feed_inv opts single f xs ls st" and typed: "typed e"
    and clean: "clean (snd (feed_event h opts single at raw v e ls st))"
  shows "feed_inv opts single f (xs @ [(f, v, e)]) (fst (feed_event h opts single at raw v e ls st))
      (snd (feed_event h opts single at raw v e ls st)) \<and>
    n_files (snd (feed_event h opts single at raw v e ls st)) = n_files st"
proof -
  have ok: "repeats_ok (xs @ [(f, v, e)])" "lifecycle_ok single (history_of (xs @ [(f, v, e)]))"
    using clean clean_feed_event [OF inv typed] by simp_all
  have id: "dec_id (f, v, e) = eventId e" "dec_key (f, v, e) = canonical v"
    by (simp_all add: dec_id_def dec_key_def)
  show ?thesis
  proof (cases "eventId e \<in> dec_id ` set xs")
    case True
    then obtain x where x: "x \<in> set xs" "dec_id x = eventId e" by (metis imageE)
    note known = feed_event_known [OF inv x]
    have key: "dec_key x = canonical v" using ok(1) known(2) by simp
    have "seen_inv (seen st) (xs @ [(f, v, e)])"
      using feed_invD(3) [OF inv] x True key by (auto simp: seen_inv_def id)
    with ok clean duplicate_full_inv [OF feed_invD(1) [OF inv]] feed_invD(2) [OF inv] show ?thesis
      unfolding feed_inv_def known by (simp add: key archive_keeps)
  next
    case False
    note new = feed_event_new [OF inv False]
    note after = new_event_inv [OF feed_invD(1,2) [OF inv] typed clean [unfolded new(1)]]
    have "dec_id y \<noteq> eventId e" if "y \<in> set xs" for y using False that by (metis imageI)
    then have "seen_inv (jset (eventId e) (canonical v) (seen st)) (xs @ [(f, v, e)])"
      using feed_invD(3) [OF inv] by (simp add: seen_inv_def jmap_simps id)
    with after ok clean show ?thesis
      unfolding feed_inv_def new by simp
  qed
qed

section \<open>The lines of a file\<close>

lemma decode_lines_append:
  "decode_lines h opts f (xs @ ys) = decode_lines h opts f xs @ decode_lines h opts f ys"
  by (induction xs) (auto split: option.splits)

lemma clean_feed_line_mono: "clean (snd (feed_line h opts single file raw s)) \<Longrightarrow> clean (snd s)"
  by (auto simp: feed_line_def Let_def clean_simps dest: clean_feed_event_mono
      split: if_splits sum.splits prod.splits)

lemma clean_feed_lines_mono:
  "clean (snd (fold (feed_line h opts single file) lines s)) \<Longrightarrow> clean (snd s)"
proof (induction lines arbitrary: s)
  case (Cons raw lines)
  from Cons.IH [of "feed_line h opts single file raw s"] Cons.prems
  show ?case by (intro clean_feed_line_mono [of h opts single "file" raw s]) simp
qed simp

lemma feed_line_blank:
  "feed_inv opts single f xs ls st \<Longrightarrow> is_blank raw \<Longrightarrow>
   feed_line h opts single file raw (ls, st) = (ls\<lparr>fl_line := fl_line ls + 1\<rparr>, st)"
  by (simp add: feed_line_def)

lemma feed_line_bad:
  assumes "feed_inv opts single f xs ls st" and "\<not> is_blank raw" and "read_value h opts raw = None"
  shows "\<not> clean (snd (feed_line h opts single file raw (ls, st)))"
proof -
  let ?at = "\<lparr>fa_file = file, fa_line = fl_line ls + 1\<rparr>"
  obtain d where d: "read_line h opts ?at raw = Inl d"
    using assms(3) read_value_None [of h opts raw ?at] by blast
  have "\<not> fl_abandoned ls" using feed_invD(2) [OF assms(1)] by (simp add: loop_inv_def)
  then show ?thesis
    using assms(2) d read_line_severity [OF d] by (simp add: feed_line_def clean_simps)
qed

lemma feed_line_good:
  assumes "feed_inv opts single f xs ls st" and "\<not> is_blank raw" and "read_value h opts raw = Some (v, e)"
  shows "feed_line h opts single file raw (ls, st) =
    feed_event h opts single \<lparr>fa_file = file, fa_line = fl_line ls + 1\<rparr> raw v e
      (ls\<lparr>fl_line := fl_line ls + 1\<rparr>) st"
proof -
  have "\<not> fl_abandoned ls" using feed_invD(2) [OF assms(1)] by (simp add: loop_inv_def)
  moreover have "read_line h opts \<lparr>fa_file = file, fa_line = fl_line ls + 1\<rparr> raw = Inr (v, e)"
    using assms(3) read_value_Some by blast
  ultimately show ?thesis using assms(2) by (simp add: feed_line_def)
qed

lemma feed_inv_line: "feed_inv opts single f xs (ls\<lparr>fl_line := n\<rparr>) st = feed_inv opts single f xs ls st"
  by (simp add: feed_inv_def loop_inv_line)

lemma feed_lines_inv:
  assumes "feed_inv opts single f xs ls st"
    and "clean (snd (fold (feed_line h opts single file) lines (ls, st)))"
  shows "list_all (line_ok h opts) lines \<and>
    (\<exists>ls'. feed_inv opts single f (xs @ decode_lines h opts f lines) ls'
       (snd (fold (feed_line h opts single file) lines (ls, st)))) \<and>
    n_files (snd (fold (feed_line h opts single file) lines (ls, st))) = n_files st"
  using assms
proof (induction lines arbitrary: xs ls st)
  case Nil
  then show ?case by auto
next
  case (Cons raw lines)
  show ?case
  proof (cases "is_blank raw")
    case True
    with Cons.IH [of xs "ls\<lparr>fl_line := fl_line ls + 1\<rparr>" st] Cons.prems show ?thesis
      by (simp add: feed_line_blank feed_inv_line line_ok_def)
  next
    case False
    show ?thesis
    proof (cases "read_value h opts raw")
      case None
      with Cons.prems feed_line_bad [OF Cons.prems(1) False] show ?thesis
        by (auto dest: clean_feed_lines_mono)
    next
      case (Some x)
      obtain v e where x: "x = (v, e)" by (cases x)
      note line = feed_line_good [OF Cons.prems(1) False Some [unfolded x], of "file"]
      let ?at = "\<lparr>fa_file = file, fa_line = fl_line ls + 1\<rparr>"
      let ?s = "feed_event h opts single ?at raw v e (ls\<lparr>fl_line := fl_line ls + 1\<rparr>) st"
      have clean: "clean (snd ?s)"
        using Cons.prems(2) by (auto simp: line dest: clean_feed_lines_mono)
      have typed: "typed e" by (rule read_value_typed [OF Some [unfolded x]])
      have inv: "feed_inv opts single f xs (ls\<lparr>fl_line := fl_line ls + 1\<rparr>) st"
        using Cons.prems(1) by (simp add: feed_inv_line)
      from feed_event_inv [OF inv typed clean] have
        after: "feed_inv opts single f (xs @ [(f, v, e)]) (fst ?s) (snd ?s)" "n_files (snd ?s) = n_files st"
        by simp_all
      have "clean (snd (fold (feed_line h opts single file) lines (fst ?s, snd ?s)))"
        using Cons.prems(2) by (simp add: line)
      from Cons.IH [OF after(1) this] after(2) show ?thesis
        by (simp add: line False Some x line_ok_def)
    qed
  qed
qed

lemma feed_lines_clean:
  assumes "feed_inv opts single f xs ls st"
    and "list_all (line_ok h opts) lines" and "repeats_ok (xs @ decode_lines h opts f lines)"
    and "lifecycle_ok single (history_of (xs @ decode_lines h opts f lines))"
  shows "clean (snd (fold (feed_line h opts single file) lines (ls, st)))"
  using assms
proof (induction lines arbitrary: xs ls st)
  case Nil
  then show ?case by (simp add: feed_invD)
next
  case (Cons raw lines)
  show ?case
  proof (cases "is_blank raw")
    case True
    with Cons.IH [of xs "ls\<lparr>fl_line := fl_line ls + 1\<rparr>" st] Cons.prems show ?thesis
      by (simp add: feed_line_blank feed_inv_line)
  next
    case False
    with Cons.prems(2) obtain v e where ve: "read_value h opts raw = Some (v, e)"
      by (auto simp: line_ok_def)
    note line = feed_line_good [OF Cons.prems(1) False ve, of "file"]
    let ?at = "\<lparr>fa_file = file, fa_line = fl_line ls + 1\<rparr>"
    let ?s = "feed_event h opts single ?at raw v e (ls\<lparr>fl_line := fl_line ls + 1\<rparr>) st"
    have typed: "typed e" by (rule read_value_typed [OF ve])
    have inv: "feed_inv opts single f xs (ls\<lparr>fl_line := fl_line ls + 1\<rparr>) st"
      using Cons.prems(1) by (simp add: feed_inv_line)
    have all: "xs @ decode_lines h opts f (raw # lines) = (xs @ [(f, v, e)]) @ decode_lines h opts f lines"
      using False ve by simp
    obtain r where r: "history_of ((xs @ [(f, v, e)]) @ decode_lines h opts f lines) =
        history_of (xs @ [(f, v, e)]) @ r"
      using new_only_append by blast
    have "repeats_ok (xs @ [(f, v, e)])" "lifecycle_ok single (history_of (xs @ [(f, v, e)]))"
      using Cons.prems(3,4) repeats_ok_append lifecycle_ok_append unfolding all r by blast+
    then have "clean (snd ?s)" using clean_feed_event [OF inv typed] by simp
    from feed_event_inv [OF inv typed this] have
      "feed_inv opts single f (xs @ [(f, v, e)]) (fst ?s) (snd ?s)" by simp
    from Cons.IH [OF this] Cons.prems(2-4) show ?thesis
      unfolding all by (simp add: line)
  qed
qed

section \<open>The files of a run\<close>

text \<open>Between two files: what has been read bears the numbers of the files fed so far.\<close>

definition between_inv :: "options \<Rightarrow> bool \<Rightarrow> decoded list \<Rightarrow> validator \<Rightarrow> bool" where
  "between_inv opts single xs st \<longleftrightarrow>
     full_inv opts st (map snd (history_of xs)) \<and> seen_inv (seen st) xs \<and> repeats_ok xs \<and>
     lifecycle_ok single (history_of xs) \<and> clean st \<and> (\<forall>x \<in> set xs. fst x \<le> n_files st)"

lemma between_new: "between_inv opts single [] new_validator"
  using full_inv_new [of opts]
  by (simp add: between_inv_def seen_inv_def repeats_ok_def) (simp add: new_validator_def clean_def)

lemma between_start:
  assumes "between_inv opts single xs st"
  shows "feed_inv opts single (Suc (n_files st)) xs feed_start (st\<lparr>n_files := n_files st + 1\<rparr>)"
proof -
  have "g \<le> n_files st" if "(g, d) \<in> set (history_of xs)" for g d
    using that new_only_set [of "[]" xs] assms by (fastforce simp: between_inv_def)
  then have "loop_inv single (Suc (n_files st)) feed_start (history_of xs)"
    by (force simp: loop_inv_def feed_start_def)
  moreover have "full_inv opts (st\<lparr>n_files := n_files st + 1\<rparr>) es = full_inv opts st es" for es
    by (simp add: full_inv_def runs_inv_def tallies_def run_inv_def kept_def)
  ultimately show ?thesis
    using assms by (simp add: between_inv_def feed_inv_def clean_simps)
qed

lemma feed_inv_between:
  assumes "feed_inv opts single f xs ls st" and "\<forall>x \<in> set xs. fst x \<le> n_files st"
  shows "between_inv opts single xs st"
  using assms by (simp add: feed_inv_def between_inv_def)

lemma decode_lines_file: "x \<in> set (decode_lines h opts f lines) \<Longrightarrow> fst x = f"
  by (induction lines) (auto split: option.splits if_splits)

lemma clean_feed_mono: "clean (feed h opts single lines file st) \<Longrightarrow> clean st"
  by (auto simp: feed_def clean_simps dest!: clean_feed_lines_mono)

lemma feed_between:
  assumes "between_inv opts single xs st" and "clean (feed h opts single lines file st)"
  shows "list_all (line_ok h opts) lines"
    and "between_inv opts single (xs @ decode_lines h opts (Suc (n_files st)) lines)
      (feed h opts single lines file st)"
    and "n_files (feed h opts single lines file st) = Suc (n_files st)"
proof -
  from feed_lines_inv [OF between_start [OF assms(1)], of h "file" lines] assms(2)
  obtain ls' where *: "list_all (line_ok h opts) lines"
    "feed_inv opts single (Suc (n_files st)) (xs @ decode_lines h opts (Suc (n_files st)) lines) ls'
       (feed h opts single lines file st)"
    "n_files (feed h opts single lines file st) = Suc (n_files st)"
    by (auto simp: feed_def)
  show "list_all (line_ok h opts) lines" "n_files (feed h opts single lines file st) = Suc (n_files st)"
    by (rule *)+
  show "between_inv opts single (xs @ decode_lines h opts (Suc (n_files st)) lines)
      (feed h opts single lines file st)"
    using assms(1) *(3)
    by (intro feed_inv_between [OF *(2)]) (auto simp: between_inv_def dest: decode_lines_file)
qed

lemma feed_files_Cons [simp]:
  "feed_files h opts single ((n, lines) # files) st =
     feed_files h opts single files (feed h opts single lines n st)"
  by (simp add: feed_files_def)

lemma clean_feed_files_mono: "clean (feed_files h opts single files st) \<Longrightarrow> clean st"
  by (induction files arbitrary: st)
    (auto simp: feed_files_def dest: clean_feed_mono)

lemma feed_files_between:
  assumes "between_inv opts single xs st" and "clean (feed_files h opts single files st)"
  shows "list_all (\<lambda>x. list_all (line_ok h opts) (snd x)) files \<and>
    between_inv opts single (xs @ decode_files h opts (Suc (n_files st)) files)
      (feed_files h opts single files st)"
  using assms
proof (induction files arbitrary: xs st)
  case Nil
  then show ?case by (simp add: feed_files_def)
next
  case (Cons x files)
  obtain n lines where x: "x = (n, lines)" by (cases x)
  have "clean (feed h opts single lines n st)"
    using Cons.prems(2) by (auto simp: x dest: clean_feed_files_mono)
  note after = feed_between [OF Cons.prems(1) this]
  from Cons.IH [OF after(2)] Cons.prems(2) after(1,3) show ?case by (simp add: x)
qed

lemma feed_files_clean:
  assumes "between_inv opts single xs st"
    and "list_all (\<lambda>x. list_all (line_ok h opts) (snd x)) files"
    and "repeats_ok (xs @ decode_files h opts (Suc (n_files st)) files)"
    and "lifecycle_ok single (history_of (xs @ decode_files h opts (Suc (n_files st)) files))"
  shows "clean (feed_files h opts single files st)"
  using assms
proof (induction files arbitrary: xs st)
  case Nil
  then show ?case by (simp add: feed_files_def between_inv_def)
next
  case (Cons x files)
  obtain n lines where x: "x = (n, lines)" by (cases x)
  let ?ys = "xs @ decode_lines h opts (Suc (n_files st)) lines"
  have all: "xs @ decode_files h opts (Suc (n_files st)) (x # files) =
      ?ys @ decode_files h opts (Suc (Suc (n_files st))) files"
    by (simp add: x)
  obtain r where r: "history_of (?ys @ decode_files h opts (Suc (Suc (n_files st))) files) =
      history_of ?ys @ r"
    using new_only_append by blast
  have "repeats_ok ?ys" "lifecycle_ok single (history_of ?ys)"
    using Cons.prems(3,4) repeats_ok_append lifecycle_ok_append unfolding all r by blast+
  then have "clean (feed h opts single lines n st)"
    using Cons.prems(2) feed_lines_clean [OF between_start [OF Cons.prems(1)], of h lines n]
    by (simp add: feed_def x)
  note after = feed_between [OF Cons.prems(1) this]
  from Cons.IH [OF after(2)] Cons.prems(2-4) after(3) show ?case
    unfolding all by (simp add: x)
qed

text \<open>
  Reading the files of a run records no error exactly when the lines decode, repeated events are
  repeated identically, and the history obeys the rules; and then the state means the history.
\<close>

definition run_lines_ok :: "host \<Rightarrow> options \<Rightarrow> bool \<Rightarrow> (jstring \<times> jstring list) list \<Rightarrow> bool" where
  "run_lines_ok h opts single files \<longleftrightarrow>
     list_all (\<lambda>x. list_all (line_ok h opts) (snd x)) files \<and>
     repeats_ok (decode_files h opts 1 files) \<and>
     lifecycle_ok single (history_of (decode_files h opts 1 files))"

lemma n_files_new [simp]: "n_files new_validator = 0"
  by (simp add: new_validator_def)

theorem feed_files_iff:
  "clean (feed_files h opts single files new_validator) \<longleftrightarrow> run_lines_ok h opts single files"
proof
  assume "clean (feed_files h opts single files new_validator)"
  from feed_files_between [OF between_new this] show "run_lines_ok h opts single files"
    by (simp add: run_lines_ok_def between_inv_def)
next
  assume "run_lines_ok h opts single files"
  with feed_files_clean [OF between_new, of h opts files single] show
    "clean (feed_files h opts single files new_validator)"
    by (simp add: run_lines_ok_def)
qed

lemma feed_files_inv:
  assumes "clean (feed_files h opts single files new_validator)"
  shows "full_inv opts (feed_files h opts single files new_validator)
    (map snd (history_of (decode_files h opts 1 files)))"
  using feed_files_between [OF between_new assms] by (simp add: between_inv_def)

end
