(* ===== verification/Validator_Verdict.thy ===== *)
theory Validator_Verdict
  imports Validator_Decides
begin

text \<open>
  The report against the history: completeness and the derived verdict as the protocol's text
  defines them, and the end of a validation with its attachment bytes.
\<close>

section \<open>The verdict as the protocol words it\<close>

definition history_complete :: "event list \<Rightarrow> bool" where
  "history_complete es \<longleftrightarrow>
     (\<forall>e \<in> set es. session_ended es (sessionId e) \<and>
        (case attempt_start (payload e) of None \<Rightarrow> True | Some p \<Rightarrow> attempt_ended es (as_attemptId p)) \<and>
        (case starts_step (payload e) of None \<Rightarrow> True | Some (a, s) \<Rightarrow> step_ended es a s))"

text \<open>The final attempt of an execution has its highest attempt number.\<close>

definition is_final :: "event list \<Rightarrow> attempt_started_payload \<Rightarrow> bool" where
  "is_final es p \<longleftrightarrow>
     (\<forall>d \<in> set es. case attempt_start (payload d) of None \<Rightarrow> True
        | Some q \<Rightarrow> executionId (as_test q) = executionId (as_test p) \<longrightarrow> as_attemptNumber q \<le> as_attemptNumber p)"

text \<open>Some execution's final attempt ended in a way of the kind \<open>P\<close>.\<close>

definition final_outcome :: "event list \<Rightarrow> (attempt_finished_payload \<Rightarrow> bool) \<Rightarrow> bool" where
  "final_outcome es P \<longleftrightarrow>
     (\<exists>d \<in> set es. \<exists>e \<in> set es. case (attempt_start (payload d), attempt_end (payload e)) of
        (Some p, Some q) \<Rightarrow> is_final es p \<and> af_attemptId q = as_attemptId p \<and> P q
      | _ \<Rightarrow> False)"

definition session_outcome :: "event list \<Rightarrow> session_status \<Rightarrow> bool" where
  "session_outcome es s \<longleftrightarrow>
     (\<exists>e \<in> set es. case session_end (payload e) of None \<Rightarrow> False | Some p \<Rightarrow> sf_status p = Some s)"

definition unexpected_outcome :: "attempt_finished_payload \<Rightarrow> bool" where
  "unexpected_outcome q \<longleftrightarrow>
     (if af_expectedStatus q = Some ExpectFailed then af_status q = Passed else af_status q = Failed)"

definition history_verdict :: "event list \<Rightarrow> verdict" where
  "history_verdict es =
     (if \<not> history_complete es then VIncomplete
      else if final_outcome es unexpected_outcome \<or> (\<exists>e \<in> set es. is_scope_failure (payload e)) \<or>
        session_outcome es SessionFailed then VFailed
      else if final_outcome es (\<lambda>q. af_status q = Inconclusive) \<or> session_outcome es SessionInconclusive
      then VInconclusive
      else VPassed)"

section \<open>Completeness\<close>

lemma attempt_inv_start:
  assumes "attempt_inv es a x"
  obtains e p where "e \<in> set es" "payload e = AttemptStarted p" "as_attemptId p = a"
    "att_executionId x = executionId (as_test p)" "att_attemptNumber x = as_attemptNumber p"
proof -
  from assms obtain e p where e: "e \<in> set es" "payload e = AttemptStarted p" "as_attemptId p = a"
    by (auto simp: attempt_inv_def attempt_started_def elim!: attempt_start.elims)
  with assms have "att_executionId x = executionId (as_test p)" "att_attemptNumber x = as_attemptNumber p"
    by (auto simp: attempt_inv_def start_matches_def)
  with e that show ?thesis by blast
qed

lemma attempt_of_start:
  assumes "attempts_inv m es" and "e \<in> set es" "payload e = AttemptStarted p"
  obtains x where "jget m (as_attemptId p) = Some x" "attempt_inv es (as_attemptId p) x"
    "att_executionId x = executionId (as_test p)" "att_attemptNumber x = as_attemptNumber p"
proof -
  have "attempt_started es (as_attemptId p)"
    using assms(2,3) by (force simp: attempt_started_def)
  with attempt_known_iff [OF assms(1)] obtain x where x: "jget m (as_attemptId p) = Some x" by blast
  from attempts_inv_get [OF assms(1) x] have inv: "attempt_inv es (as_attemptId p) x" .
  with assms(2,3) have "att_executionId x = executionId (as_test p)" "att_attemptNumber x = as_attemptNumber p"
    by (auto simp: attempt_inv_def start_matches_def)
  with x inv that show ?thesis by blast
qed

lemma all_entries: "jkeys_ok m \<Longrightarrow> list_all (\<lambda>(k, v). P k v) m \<longleftrightarrow> (\<forall>k v. jget m k = Some v \<longrightarrow> P k v)"
  using jmap.get_entries [of m] by (auto simp: list_all_iff)

lemma ex_entries: "jkeys_ok m \<Longrightarrow> list_ex P (map snd m) \<longleftrightarrow> (\<exists>k v. jget m k = Some v \<and> P v)"
  using jmap.get_entries [of m] by (force simp: list_ex_iff)

lemma sessions_complete:
  assumes "sessions_inv m es"
  shows "list_all (\<lambda>(_, s). ses_finished s) m \<longleftrightarrow> (\<forall>e \<in> set es. session_ended es (sessionId e))"
proof -
  have "list_all (\<lambda>(_, s). ses_finished s) m \<longleftrightarrow> (\<forall>sid s. jget m sid = Some s \<longrightarrow> ses_finished s)"
    using assms by (subst all_entries) (simp_all add: sessions_inv_def)
  also have "\<dots> \<longleftrightarrow> (\<forall>sid. of_session es sid \<noteq> [] \<longrightarrow> session_ended es sid)"
    using assms by (auto simp: sessions_inv_def spec_session_def)
  also have "\<dots> \<longleftrightarrow> (\<forall>e \<in> set es. session_ended es (sessionId e))"
    by (auto simp: of_session_def filter_empty_conv)
  finally show ?thesis .
qed

lemma attempt_complete:
  assumes "attempt_inv es a x"
  shows "att_finished x \<and> list_all snd (att_steps x) \<longleftrightarrow>
    attempt_ended es a \<and> (\<forall>s. step_started es a s \<longrightarrow> step_ended es a s)"
proof -
  have steps: "steps_inv (att_steps x) es a" and fin: "att_finished x \<longleftrightarrow> attempt_ended es a"
    using assms by (simp_all add: attempt_inv_def)
  have "list_all snd (att_steps x) \<longleftrightarrow> (\<forall>s b. jget (att_steps x) s = Some b \<longrightarrow> b)"
    using jmap.get_entries [of "att_steps x"] steps by (force simp: steps_inv_def list_all_iff)
  also have "\<dots> \<longleftrightarrow> (\<forall>s. step_started es a s \<longrightarrow> step_ended es a s)"
    using steps by (auto simp: steps_inv_def spec_step_def)
  finally show ?thesis using fin by simp
qed

lemma attempts_complete:
  assumes inv: "attempts_inv m es"
  shows "list_all (\<lambda>(_, a). att_finished a \<and> list_all snd (att_steps a)) m \<longleftrightarrow>
    (\<forall>a. (attempt_started es a \<longrightarrow> attempt_ended es a) \<and> (\<forall>s. step_started es a s \<longrightarrow> step_ended es a s))"
proof -
  have "list_all (\<lambda>(_, a). att_finished a \<and> list_all snd (att_steps a)) m \<longleftrightarrow>
      (\<forall>a x. jget m a = Some x \<longrightarrow> att_finished x \<and> list_all snd (att_steps x))"
    using inv by (subst all_entries) (simp_all add: attempts_inv_def)
  also have "\<dots> \<longleftrightarrow> (\<forall>a x. jget m a = Some x \<longrightarrow>
      attempt_ended es a \<and> (\<forall>s. step_started es a s \<longrightarrow> step_ended es a s))"
    by (intro arg_cong [where f = All] ext imp_cong refl) (simp add: attempt_complete attempts_inv_get [OF inv])
  also have "\<dots> \<longleftrightarrow> (\<forall>a. (attempt_started es a \<longrightarrow> attempt_ended es a) \<and>
      (\<forall>s. step_started es a s \<longrightarrow> step_ended es a s))" (is "?l \<longleftrightarrow> ?r")
  proof
    assume l: ?l
    show ?r
    proof
      fix a
      show "(attempt_started es a \<longrightarrow> attempt_ended es a) \<and> (\<forall>s. step_started es a s \<longrightarrow> step_ended es a s)"
      proof (cases "jget m a")
        case None
        then show ?thesis using attempts_inv_none [OF inv] by (simp add: untouched_def)
      qed (use l in blast)
    qed
  next
    assume r: ?r
    have "attempt_started es a" if "jget m a = Some x" for a x
      using attempts_inv_get [OF inv that] by (simp add: attempt_inv_def)
    with r show ?l by blast
  qed
  finally show ?thesis .
qed

lemma is_complete_iff:
  assumes "full_inv opts st es"
  shows "is_complete st \<longleftrightarrow> history_complete es"
proof -
  have "sessions_inv (sessions st) es" "attempts_inv (attempts st) es"
    using assms by (simp_all add: full_inv_def runs_inv_def)
  then have "is_complete st \<longleftrightarrow> (\<forall>e \<in> set es. session_ended es (sessionId e)) \<and>
      (\<forall>a. (attempt_started es a \<longrightarrow> attempt_ended es a) \<and> (\<forall>s. step_started es a s \<longrightarrow> step_ended es a s))"
    by (simp add: is_complete_def sessions_complete attempts_complete)
  also have "\<dots> \<longleftrightarrow> history_complete es"
  proof -
    have "(\<forall>a. attempt_started es a \<longrightarrow> attempt_ended es a) \<longleftrightarrow>
      (\<forall>e \<in> set es. case attempt_start (payload e) of None \<Rightarrow> True | Some p \<Rightarrow> attempt_ended es (as_attemptId p))"
      by (force simp: attempt_started_def split: option.splits)
    moreover have "(\<forall>a s. step_started es a s \<longrightarrow> step_ended es a s) \<longleftrightarrow>
      (\<forall>e \<in> set es. case starts_step (payload e) of None \<Rightarrow> True | Some (a, s) \<Rightarrow> step_ended es a s)"
      by (force simp: step_started_def split: option.splits)
    ultimately show ?thesis unfolding history_complete_def by blast
  qed
  finally show ?thesis .
qed

section \<open>Final attempts\<close>

definition finals_inv :: "(jstring \<times> attempt_state) list \<Rightarrow> (jstring, attempt_state) jmap \<Rightarrow> bool" where
  "finals_inv l m \<longleftrightarrow> jkeys_ok m \<and>
     (\<forall>x. case jget m x of None \<Rightarrow> \<forall>a \<in> snd ` set l. att_executionId a \<noteq> x
        | Some a \<Rightarrow> a \<in> snd ` set l \<and> att_executionId a = x \<and>
            (\<forall>b \<in> snd ` set l. att_executionId b = x \<longrightarrow> att_attemptNumber b \<le> att_attemptNumber a))"

lemma finals_inv_snoc:
  assumes "finals_inv l m"
  shows "finals_inv (l @ [(i, a)])
    (case jget m (att_executionId a) of None \<Rightarrow> jset (att_executionId a) a m
     | Some c \<Rightarrow> if att_attemptNumber a > att_attemptNumber c then jset (att_executionId a) a m else m)"
    (is "finals_inv _ ?m")
proof -
  have keys: "jkeys_ok m" using assms by (simp add: finals_inv_def)
  have at: "case jget m x of None \<Rightarrow> \<forall>b \<in> snd ` set l. att_executionId b \<noteq> x
      | Some c \<Rightarrow> c \<in> snd ` set l \<and> att_executionId c = x \<and>
          (\<forall>b \<in> snd ` set l. att_executionId b = x \<longrightarrow> att_attemptNumber b \<le> att_attemptNumber c)" for x
    using assms by (simp add: finals_inv_def)
  have "jkeys_ok ?m" using keys by (simp add: jmap_simps split: option.split)
  moreover have "case jget ?m x of None \<Rightarrow> \<forall>b \<in> snd ` set (l @ [(i, a)]). att_executionId b \<noteq> x
      | Some c \<Rightarrow> c \<in> snd ` set (l @ [(i, a)]) \<and> att_executionId c = x \<and>
          (\<forall>b \<in> snd ` set (l @ [(i, a)]). att_executionId b = x \<longrightarrow> att_attemptNumber b \<le> att_attemptNumber c)"
    for x
  proof (cases "x = att_executionId a")
    case True
    with at [of x] show ?thesis
      by (cases "jget m x") (force simp: jmap_simps)+
  next
    case False
    then have "jget ?m x = jget m x" by (simp add: jmap_simps split: option.split)
    with at [of x] False show ?thesis by (cases "jget m x") auto
  qed
  ultimately show ?thesis by (simp add: finals_inv_def)
qed

lemma finals_inv_fold:
  "finals_inv l (fold (\<lambda>(_, a) m.
     case jget m (att_executionId a) of None \<Rightarrow> jset (att_executionId a) a m
     | Some c \<Rightarrow> if att_attemptNumber a > att_attemptNumber c then jset (att_executionId a) a m else m) l [])"
proof (induction l rule: rev_induct)
  case Nil
  then show ?case by (simp add: finals_inv_def)
next
  case (snoc y l)
  obtain i a where y: "y = (i, a)" by (cases y)
  from finals_inv_snoc [OF snoc, of i a] show ?case by (simp add: y)
qed

lemma final_attempts_inv: "finals_inv (attempts st) (final_attempts st)"
  unfolding final_attempts_def by (rule finals_inv_fold)

text \<open>Attempt numbers tell the attempts of an execution apart.\<close>

lemma lifecycle_rule:
  assumes "lifecycle_ok single h" and "j < length h"
  shows "rule_ok single (take j h) (h ! j)"
  using assms by (simp add: lifecycle_ok_def)

lemma attempts_differ:
  assumes ok: "lifecycle_ok single h" and ij: "i < j" "j < length h"
    and p: "payload (snd (h ! i)) = AttemptStarted p" and q: "payload (snd (h ! j)) = AttemptStarted q"
    and x: "executionId (as_test p) = executionId (as_test q)"
  shows "as_attemptNumber p \<noteq> as_attemptNumber q"
proof -
  have "payload_ok (map snd (take j h)) (snd (h ! j))"
    using lifecycle_rule [OF ok ij(2)] by (simp add: rule_ok_def case_prod_beta)
  moreover have "h ! i \<in> set (take j h)"
    using ij by (force simp: in_set_conv_nth)
  ultimately have "agrees (map snd (take j h)) (snd (h ! j)) q (snd (h ! i))"
    using q unfolding payload_ok_def by simp
  then show ?thesis using p x by (simp add: agrees_def)
qed

lemma start_unique:
  assumes ok: "lifecycle_ok single h" and d: "d \<in> set (map snd h)" "payload d = AttemptStarted p"
    and e: "e \<in> set (map snd h)" "payload e = AttemptStarted q"
    and same: "executionId (as_test p) = executionId (as_test q)" "as_attemptNumber p = as_attemptNumber q"
  shows "p = q"
proof -
  from d(1) obtain i where i: "i < length h" "d = snd (h ! i)" by (auto simp: in_set_conv_nth)
  from e(1) obtain j where j: "j < length h" "e = snd (h ! j)" by (auto simp: in_set_conv_nth)
  have "\<not> i < j" "\<not> j < i"
    using attempts_differ [OF ok] i j d(2) e(2) same by metis+
  with i j d e show ?thesis by simp
qed

definition ended_as :: "event list \<Rightarrow> jstring \<Rightarrow> (attempt_finished_payload \<Rightarrow> bool) \<Rightarrow> bool" where
  "ended_as es a P \<longleftrightarrow> (\<exists>e \<in> set es. \<exists>q. payload e = AttemptFinished q \<and> af_attemptId q = a \<and> P q)"

lemma ended_as_marks:
  assumes "attempt_inv es a x"
  shows "att_unexpected x \<longleftrightarrow> ended_as es a unexpected_outcome"
    and "att_inconclusive x \<longleftrightarrow> ended_as es a (\<lambda>q. af_status q = Inconclusive)"
proof -
  have unex: "is_unexpected (af_status q) (expected_or_passed (af_expectedStatus q)) \<longleftrightarrow> unexpected_outcome q" for q
    by (auto simp: is_unexpected_def expected_or_passed_def unexpected_outcome_def split: option.splits)
  have ended: "attempt_ended es a \<longleftrightarrow> (\<exists>e \<in> set es. \<exists>q. payload e = AttemptFinished q \<and> af_attemptId q = a)"
    by (force simp: attempt_ended_def elim!: attempt_end.elims)
  show "att_unexpected x \<longleftrightarrow> ended_as es a unexpected_outcome"
    "att_inconclusive x \<longleftrightarrow> ended_as es a (\<lambda>q. af_status q = Inconclusive)"
    using assms ended unfolding attempt_inv_def end_matches_def ended_as_def unex by blast+
qed

lemma final_outcome_iff:
  "final_outcome es P \<longleftrightarrow>
     (\<exists>d \<in> set es. \<exists>p. payload d = AttemptStarted p \<and> is_final es p \<and> ended_as es (as_attemptId p) P)"
proof
  assume "final_outcome es P"
  then show "\<exists>d \<in> set es. \<exists>p. payload d = AttemptStarted p \<and> is_final es p \<and> ended_as es (as_attemptId p) P"
    unfolding final_outcome_def ended_as_def
    by (fastforce split: option.splits elim!: attempt_start.elims attempt_end.elims)
next
  assume "\<exists>d \<in> set es. \<exists>p. payload d = AttemptStarted p \<and> is_final es p \<and> ended_as es (as_attemptId p) P"
  then obtain d p e q where *: "d \<in> set es" "payload d = AttemptStarted p" "is_final es p"
    "e \<in> set es" "payload e = AttemptFinished q" "af_attemptId q = as_attemptId p" "P q"
    by (auto simp: ended_as_def)
  show "final_outcome es P"
    unfolding final_outcome_def
    by (intro bexI [OF _ *(1)] bexI [OF _ *(4)]) (simp add: *)
qed

lemma final_attempts_iff:
  assumes inv: "attempts_inv (attempts st) es" and ok: "lifecycle_ok single h" and es: "es = map snd h"
    and mark: "\<And>a x. attempt_inv es a x \<Longrightarrow> M x \<longleftrightarrow> ended_as es a P"
  shows "list_ex M (map snd (final_attempts st)) \<longleftrightarrow> final_outcome es P"
proof -
  let ?m = "final_attempts st"
  have keys: "jkeys_ok ?m" using final_attempts_inv [of st] by (simp add: finals_inv_def)
  have entry: "attempt_inv es i a" if "(i, a) \<in> set (attempts st)" for i a
    using that jmap.get_entries [OF attempts_inv_keys [OF inv]] attempts_inv_get [OF inv] by blast
  have final: "case jget ?m x of None \<Rightarrow> \<forall>a \<in> snd ` set (attempts st). att_executionId a \<noteq> x
      | Some a \<Rightarrow> a \<in> snd ` set (attempts st) \<and> att_executionId a = x \<and>
          (\<forall>b \<in> snd ` set (attempts st). att_executionId b = x \<longrightarrow> att_attemptNumber b \<le> att_attemptNumber a)" for x
    using final_attempts_inv [of st] by (simp add: finals_inv_def)
  have "(\<exists>k v. jget ?m k = Some v \<and> M v) \<longleftrightarrow>
      (\<exists>d \<in> set es. \<exists>p. payload d = AttemptStarted p \<and> is_final es p \<and> ended_as es (as_attemptId p) P)"
  proof
    assume "\<exists>k v. jget ?m k = Some v \<and> M v"
    then obtain k a where a: "jget ?m k = Some a" "M a" by blast
    with final [of k] obtain i where i: "(i, a) \<in> set (attempts st)" "att_executionId a = k"
      and top: "\<forall>b \<in> snd ` set (attempts st). att_executionId b = k \<longrightarrow> att_attemptNumber b \<le> att_attemptNumber a"
      by auto
    from attempt_inv_start [OF entry [OF i(1)]] obtain d p where
      d: "d \<in> set es" "payload d = AttemptStarted p" "as_attemptId p = i"
        "att_executionId a = executionId (as_test p)" "att_attemptNumber a = as_attemptNumber p" by blast
    have "is_final es p"
      unfolding is_final_def
    proof
      fix e assume e: "e \<in> set es"
      show "case attempt_start (payload e) of None \<Rightarrow> True
        | Some q \<Rightarrow> executionId (as_test q) = executionId (as_test p) \<longrightarrow> as_attemptNumber q \<le> as_attemptNumber p"
      proof (cases "payload e")
        case (AttemptStarted q)
        from attempt_of_start [OF inv e AttemptStarted] obtain b where
          b: "jget (attempts st) (as_attemptId q) = Some b" "att_executionId b = executionId (as_test q)"
            "att_attemptNumber b = as_attemptNumber q" by blast
        have "b \<in> snd ` set (attempts st)" using map_of_SomeD [OF b(1)] by force
        with top b i(2) d AttemptStarted show ?thesis by auto
      qed simp_all
    qed
    with d a(2) mark [OF entry [OF i(1)]]
    show "\<exists>d \<in> set es. \<exists>p. payload d = AttemptStarted p \<and> is_final es p \<and> ended_as es (as_attemptId p) P"
      by blast
  next
    assume "\<exists>d \<in> set es. \<exists>p. payload d = AttemptStarted p \<and> is_final es p \<and> ended_as es (as_attemptId p) P"
    then obtain d p where d: "d \<in> set es" "payload d = AttemptStarted p" "is_final es p"
      "ended_as es (as_attemptId p) P" by blast
    from attempt_of_start [OF inv d(1,2)] obtain x where
      x: "jget (attempts st) (as_attemptId p) = Some x" "attempt_inv es (as_attemptId p) x"
        "att_executionId x = executionId (as_test p)" "att_attemptNumber x = as_attemptNumber p" by blast
    have xin: "x \<in> snd ` set (attempts st)" using map_of_SomeD [OF x(1)] by force
    with final [of "executionId (as_test p)"] x(3) obtain a where
      a: "jget ?m (executionId (as_test p)) = Some a" "a \<in> snd ` set (attempts st)"
        "att_executionId a = executionId (as_test p)" "att_attemptNumber x \<le> att_attemptNumber a"
      by (auto split: option.splits)
    from a(2) obtain i where i: "(i, a) \<in> set (attempts st)" by auto
    from attempt_inv_start [OF entry [OF i]] obtain e q where
      e: "e \<in> set es" "payload e = AttemptStarted q" "as_attemptId q = i"
        "att_executionId a = executionId (as_test q)" "att_attemptNumber a = as_attemptNumber q" by blast
    have "as_attemptNumber q \<le> as_attemptNumber p"
      using d(3) e(1,2,4) a(3) by (auto simp: is_final_def dest!: bspec [OF _ e(1)])
    with a(4) x(4) e(5) have "as_attemptNumber p = as_attemptNumber q" by simp
    moreover have "executionId (as_test p) = executionId (as_test q)" using a(3) e(4) by simp
    ultimately have "p = q"
      using start_unique [OF ok] d(1,2) e(1,2) es by blast
    moreover have "jget (attempts st) i = Some a"
      using i jmap.get_entries [OF attempts_inv_keys [OF inv]] by blast
    ultimately have "a = x" using e(3) x(1) by simp
    with a(1) mark [OF x(2)] d(4) show "\<exists>k v. jget ?m k = Some v \<and> M v" by blast
  qed
  then show ?thesis by (simp only: ex_entries [OF keys] final_outcome_iff)
qed

section \<open>The verdict\<close>

lemma session_outcome_count: "session_outcome es s \<longleftrightarrow> session_count s es > 0"
  by (auto simp: session_outcome_def session_count_def filter_empty_conv)

lemma run_verdict_history:
  assumes inv: "full_inv opts st es" and ok: "lifecycle_ok single h" and es: "es = map snd h"
  shows "run_verdict st = history_verdict es"
proof -
  have a: "attempts_inv (attempts st) es" and t: "tallies st es"
    using inv by (simp_all add: full_inv_def runs_inv_def)
  have "list_ex att_unexpected (map snd (final_attempts st)) \<longleftrightarrow> final_outcome es unexpected_outcome"
    by (rule final_attempts_iff [OF a ok es]) (rule ended_as_marks)
  moreover have "list_ex att_inconclusive (map snd (final_attempts st)) \<longleftrightarrow>
      final_outcome es (\<lambda>q. af_status q = Inconclusive)"
    by (rule final_attempts_iff [OF a ok es]) (rule ended_as_marks)
  moreover have "n_scopeFailures st > 0 \<longleftrightarrow> (\<exists>e \<in> set es. is_scope_failure (payload e))"
    using t by (auto simp: tallies_def filter_empty_conv)
  moreover have "n_failedSessions st > 0 \<longleftrightarrow> session_outcome es SessionFailed"
    "n_inconclusiveSessions st > 0 \<longleftrightarrow> session_outcome es SessionInconclusive"
    using t by (simp_all add: tallies_def session_outcome_count)
  ultimately show ?thesis
    by (simp only: run_verdict_def Let_def history_verdict_def is_complete_iff [OF inv])
qed

end
