(* ===== verification/Validator_Finish.thy ===== *)
theory Validator_Finish
  imports Validator_Verdict
begin

text \<open>
  The end of a validation: what \<open>finish\<close> adds to the diagnostics, what its report says of the
  history, and that no descriptor stays open.
\<close>

section \<open>Descriptors\<close>

text \<open>A call that leaves the open descriptors as they were, whether it returns or throws.\<close>

definition tidy :: "'a io \<Rightarrow> bool" where
  "tidy m \<longleftrightarrow> (\<forall>fds. snd (m fds) = fds)"

lemma tidy_return [simp]: "tidy (return_io a)"
  by (simp add: tidy_def return_io_def)

lemma tidy_lift [simp]: "tidy (lift_io r)"
  by (simp add: tidy_def lift_io_def)

lemma tidy_bind: "tidy m \<Longrightarrow> (\<And>a. tidy (f a)) \<Longrightarrow> tidy (bind_io m f)"
  by (auto simp: tidy_def bind_io_def split: prod.splits sum.splits) (metis snd_conv)+

text \<open>
  An opened regular file is the one open descriptor more; closing it restores the list, and
  every refusal has closed it already.
\<close>

lemma openRegular_cases:
  obtains
    (threw) e where "openRegular fs path fds = (Inl e, fds)"
  | (refused) k where "openRegular fs path fds = (Inr (Inl k), fds)" "k \<noteq> Regular"
      "\<not> (\<exists>fd s. openSync fs path = Inr fd \<and> fstatSync fs fd = Inr s \<and> kindOf s = Regular)"
  | (opened) fd s where "openRegular fs path fds = (Inr (Inr fd), fd # fds)"
      "openSync fs path = Inr fd" "fstatSync fs fd = Inr s" "kindOf s = Regular"
proof (cases "openSync fs path")
  case (Inl e)
  then show ?thesis
    using threw refused
    by (cases e) (simp_all add: openRegular_def bind_io_def open_io_def return_io_def lift_io_def)
next
  case (Inr fd)
  show ?thesis
  proof (cases "fstatSync fs fd")
    case (Inl e)
    with Inr threw show ?thesis
      by (simp add: openRegular_def bind_io_def open_io_def lift_io_def close_io_def)
  next
    case (Inr s)
    with \<open>openSync fs path = Inr fd\<close> refused opened show ?thesis
      by (cases "kindOf s = Regular")
        (simp_all add: openRegular_def bind_io_def open_io_def return_io_def close_io_def)
  qed
qed

section \<open>Attachment bytes\<close>

definition bytes_ok :: "file_system \<Rightarrow> jstring \<Rightarrow> jstring \<Rightarrow> int \<Rightarrow> bool" where
  "bytes_ok fs dir sha n \<longleftrightarrow>
     entryKind fs (path_join fs [dir, sha]) = Inr Regular \<and>
     (\<exists>fd s. openSync fs (path_join fs [dir, sha]) = Inr fd \<and> fstatSync fs fd = Inr s \<and>
        kindOf s = Regular \<and> stat_size s = n \<and> hashDescriptor fs fd = Inr sha)"

definition only_diagnostics :: "validator \<Rightarrow> validator \<Rightarrow> bool" where
  "only_diagnostics st st' \<longleftrightarrow> (\<exists>ds b. st' = st\<lparr>diagnostics := ds, attachmentsDirRefused := b\<rparr>)"

lemma only_diagnostics_refl [simp]: "only_diagnostics st st"
  unfolding only_diagnostics_def
  by (intro exI [of _ "diagnostics st"] exI [of _ "attachmentsDirRefused st"]) simp

lemma only_diagnostics_trans [trans]:
  "only_diagnostics a b \<Longrightarrow> only_diagnostics b c \<Longrightarrow> only_diagnostics a c"
  by (auto simp: only_diagnostics_def) (metis validator.update_convs(1,9))

lemma only_diagnostics_push: "only_diagnostics st (push d st)"
  unfolding only_diagnostics_def push_def
  by (intro exI [of _ "diagnostics st @ [d]"] exI [of _ "attachmentsDirRefused st"]) simp

lemma attachment_error_unclean:
  "\<not> clean (attachment_error a c m st)" "only_diagnostics st (attachment_error a c m st)"
  by (simp_all add: attachment_error_def clean_simps only_diagnostics_push)

lemma attachment_error_twice:
  "only_diagnostics st (attachment_error a c m (attachment_error b d n st))"
  by (rule only_diagnostics_trans; rule attachment_error_unclean)

lemma attachment_unreadable_unclean:
  "\<not> clean (attachment_unreadable a k st)" "only_diagnostics st (attachment_unreadable a k st)"
  by (simp_all add: attachment_unreadable_def attachment_error_unclean)

lemma check_attachment_spec:
  "snd (check_attachment fs dir a st fds) = fds \<and>
   (\<forall>st'. fst (check_attachment fs dir a st fds) = Inr st' \<longrightarrow>
      only_diagnostics st st' \<and> (clean st' \<longleftrightarrow> clean st \<and> bytes_ok fs dir (pl_sha256 a) (pl_sizeBytes a)))"
proof (cases "entryKind fs (path_join fs [dir, pl_sha256 a])")
  case (Inl e)
  then show ?thesis by (simp add: check_attachment_def bind_io_def lift_io_def)
next
  case (Inr kind)
  note kind = this
  show ?thesis
  proof (cases "kind = Regular")
    case False
    with kind show ?thesis
      by (simp add: check_attachment_def bind_io_def lift_io_def return_io_def bytes_ok_def
          attachment_unreadable_unclean)
  next
    case True
    note regular = kind [unfolded True]
    show ?thesis
    proof (cases rule: openRegular_cases [of fs "path_join fs [dir, pl_sha256 a]" fds])
      case (threw e)
      with regular show ?thesis by (simp add: check_attachment_def bind_io_def lift_io_def)
    next
      case (refused k)
      with regular show ?thesis
        by (auto simp: check_attachment_def bind_io_def lift_io_def return_io_def bytes_ok_def
            attachment_unreadable_unclean)
    next
      case (opened fd s)
      show ?thesis
      proof (cases "hashDescriptor fs fd")
        case (Inl e)
        with opened regular show ?thesis
          by (simp add: check_attachment_def bind_io_def lift_io_def sha256Fd_def close_io_def)
      next
        case (Inr actual)
        with opened regular show ?thesis
          by (auto simp: check_attachment_def bind_io_def lift_io_def return_io_def sha256Fd_def
              close_io_def bytes_ok_def attachment_error_unclean attachment_error_twice)
      qed
    qed
  qed
qed

lemma tidy_check_attachment: "tidy (check_attachment fs dir a st)"
  using check_attachment_spec by (simp add: tidy_def)

lemma tidy_check_attachment_list: "tidy (check_attachment_list fs dir as st)"
  by (induction as arbitrary: st) (auto intro: tidy_bind tidy_check_attachment)

lemma tidy_check_attachments: "tidy (check_attachments fs opts st)"
  by (cases "opt_attachmentsDir opts")
    (auto simp: check_attachments_def intro!: tidy_bind tidy_check_attachment_list)

lemma check_attachment_list_spec:
  "fst (check_attachment_list fs dir as st fds) = Inr st' \<Longrightarrow>
     only_diagnostics st st' \<and>
     (clean st' \<longleftrightarrow> clean st \<and> (\<forall>a \<in> set as. bytes_ok fs dir (pl_sha256 a) (pl_sizeBytes a)))"
proof (induction as arbitrary: st)
  case Nil
  then show ?case by (simp add: return_io_def)
next
  case (Cons a as)
  obtain r where r: "check_attachment fs dir a st fds = (r, fds)"
    using check_attachment_spec [of fs dir a st fds] by (metis prod.collapse)
  show ?case
  proof (cases r)
    case (Inl e)
    with Cons.prems r show ?thesis by (simp add: bind_io_def)
  next
    case (Inr st1)
    with Cons.prems r have "fst (check_attachment_list fs dir as st1 fds) = Inr st'"
      by (simp add: bind_io_def)
    from Cons.IH [OF this] check_attachment_spec [of fs dir a st fds] r Inr show ?thesis
      by (auto intro: only_diagnostics_trans)
  qed
qed

definition attachments_ok :: "file_system \<Rightarrow> options \<Rightarrow> (jstring \<times> int) list \<Rightarrow> bool" where
  "attachments_ok fs opts declared \<longleftrightarrow>
     (case opt_attachmentsDir opts of
        None \<Rightarrow> True
      | Some dir \<Rightarrow> declared = [] \<or>
          (entryKind fs dir \<in> {Inr Folder, Inr Missing} \<and>
           (\<forall>(sha, n) \<in> set declared. bytes_ok fs dir sha n)))"

definition declared_of :: "attachment_place list \<Rightarrow> (jstring \<times> int) list" where
  "declared_of as = map (\<lambda>a. (pl_sha256 a, pl_sizeBytes a)) as"

lemma check_attachments_spec:
  assumes "fst (check_attachments fs opts st fds) = Inr st'" and "\<not> attachmentsDirRefused st"
  shows "only_diagnostics st st'"
    and "clean st' \<longleftrightarrow> clean st \<and> attachments_ok fs opts (declared_of (attachments st))"
proof -
  have "only_diagnostics st st' \<and>
    (clean st' \<longleftrightarrow> clean st \<and> attachments_ok fs opts (declared_of (attachments st)))"
  proof (cases "opt_attachmentsDir opts")
    case None
    with assms(1) show ?thesis by (simp add: check_attachments_def return_io_def attachments_ok_def)
  next
    case (Some dir)
    show ?thesis
    proof (cases "entryKind fs dir")
      case (Inl e)
      with Some assms(1) show ?thesis by (simp add: check_attachments_def bind_io_def lift_io_def)
    next
      case (Inr kind)
      show ?thesis
      proof (cases "kind = Folder \<or> kind = Missing")
        case True
        then have "fst (check_attachment_list fs dir (attachments st) st fds) = Inr st'"
          using assms(1) Some Inr by (auto simp: check_attachments_def bind_io_def lift_io_def)
        from check_attachment_list_spec [OF this] True Some Inr show ?thesis
          by (auto simp: attachments_ok_def declared_of_def)
      next
        case False
        then have *: "kind = Symlink \<or> kind = Special \<or> kind = Regular" by (cases kind) simp_all
        have "only_diagnostics st ((refuseEntry dir kind Folder st)\<lparr>attachmentsDirRefused := True\<rparr>)"
          by (auto simp: only_diagnostics_def refuseEntry_def push_def)
        moreover have "\<not> clean ((refuseEntry dir kind Folder st)\<lparr>attachmentsDirRefused := True\<rparr>)"
          by (simp add: refuseEntry_def clean_simps)
        ultimately show ?thesis
          using * assms Some Inr False
          by (cases "attachments st = []") (auto simp: check_attachments_def bind_io_def lift_io_def
              return_io_def attachments_ok_def declared_of_def)
      qed
    qed
  qed
  then show "only_diagnostics st st'"
    "clean st' \<longleftrightarrow> clean st \<and> attachments_ok fs opts (declared_of (attachments st))" by simp_all
qed

section \<open>The run-level rules\<close>

lemma fold_push_skip:
  "clean (fold (\<lambda>(i, s) v. if P i s then push (lifecycle_diagnostic at x (m i s) d) v else v) l st) \<longleftrightarrow>
     clean st \<and> (\<forall>(i, s) \<in> set l. \<not> P i s)"
proof (induction l arbitrary: st)
  case (Cons y l)
  show ?case
  proof (cases "P (fst y) (snd y)")
    case True
    with Cons.IH [of "push (lifecycle_diagnostic at x (m (fst y) (snd y)) d) st"] show ?thesis
      by (auto simp: clean_simps case_prod_beta)
  qed (use Cons in \<open>auto simp: case_prod_beta\<close>)
qed simp

lemma only_diagnostics_fold:
  "only_diagnostics st (fold (\<lambda>(i, s) v. if P i s then push (g i s) v else v) l st)"
proof (induction l arbitrary: st)
  case (Cons y l)
  then show ?case
    by (auto simp: case_prod_beta intro: only_diagnostics_trans only_diagnostics_push)
qed simp

lemma push_refused [simp]: "attachmentsDirRefused (push d v) = attachmentsDirRefused v"
  by (simp add: push_def)

lemma fold_push_refused:
  "attachmentsDirRefused (fold (\<lambda>(i, s) v. if P i s then push (g i s) v else v) l v) = attachmentsDirRefused v"
proof (induction l arbitrary: v)
  case (Cons y l)
  then show ?case by (cases y) simp
qed simp

lemma check_run_end_Some:
  assumes "runFinished st = Some r"
  shows "check_run_end st = fold (\<lambda>(i, s) v.
      if \<not> ses_finished s
      then push (lifecycle_diagnostic \<lparr>fa_file = pl_file r, fa_line = pl_line r\<rparr>
             SESSION_NOT_FINISHED_AT_RUN_END
             (js ''run.finished while session '' @ i @ js '' is still open'') (pl_eventId r)) v
      else v) (sessions st) st"
  by (simp add: check_run_end_def assms)

lemma check_run_end_only: "only_diagnostics st (check_run_end st)"
proof (cases "runFinished st")
  case (Some r)
  show ?thesis unfolding check_run_end_Some [OF Some] by (rule only_diagnostics_fold)
qed (simp add: check_run_end_def)

lemma check_run_end_refused: "attachmentsDirRefused (check_run_end st) = attachmentsDirRefused st"
proof (cases "runFinished st")
  case (Some r)
  show ?thesis unfolding check_run_end_Some [OF Some] by (rule fold_push_refused)
qed (simp add: check_run_end_def)

lemma clean_check_run_end:
  "clean (check_run_end st) \<longleftrightarrow> clean st \<and>
     (runFinished st \<noteq> None \<longrightarrow> list_all (\<lambda>(_, s). ses_finished s) (sessions st))"
proof (cases "runFinished st")
  case (Some r)
  show ?thesis unfolding check_run_end_Some [OF Some] fold_push_skip by (simp add: Some list_all_iff)
qed (simp add: check_run_end_def)

lemma only_diagnostics_same:
  assumes "only_diagnostics st st'"
  shows "attachments st' = attachments st" "runFinished st' = runFinished st"
    "sessions st' = sessions st" "accepted st' = accepted st" "source_log st' = source_log st"
    "attempts st' = attempts st" "n_scopeFailures st' = n_scopeFailures st"
    "n_failedSessions st' = n_failedSessions st" "n_inconclusiveSessions st' = n_inconclusiveSessions st"
  using assms unfolding only_diagnostics_def by auto

lemma only_diagnostics_verdict:
  assumes "only_diagnostics st st'"
  shows "is_complete st' = is_complete st" and "run_verdict st' = run_verdict st"
proof -
  note same = only_diagnostics_same [OF assms]
  show c: "is_complete st' = is_complete st" by (simp only: is_complete_def same)
  show "run_verdict st' = run_verdict st" by (simp only: run_verdict_def final_attempts_def same c)
qed

section \<open>What the report says\<close>

lemma clean_check_complete:
  "clean (check_complete opts st) \<longleftrightarrow> clean st \<and> (opt_requireComplete opts \<longrightarrow> is_complete st)"
  by (simp add: check_complete_def clean_simps)

lemma check_complete_only: "only_diagnostics st (check_complete opts st)"
  by (simp add: check_complete_def only_diagnostics_push)

lemma rep_valid_clean: "rep_valid (make_report st) \<longleftrightarrow> clean st"
  by (auto simp: make_report_def clean_def list_all_iff list_ex_iff)

definition declared_attachments :: "event list \<Rightarrow> (jstring \<times> int) list" where
  "declared_attachments es =
     List.map_filter (\<lambda>e. map_option (\<lambda>p. (aa_sha256 p, aa_sizeBytes p)) (attachment_of (payload e))) es"

lemma declared_of_history:
  assumes "attachment_inv as es"
  shows "declared_of as = declared_attachments es"
proof -
  have "declared_of as = map snd (map (\<lambda>a. (pl_eventId a, pl_sha256 a, pl_sizeBytes a)) as)"
    by (simp add: declared_of_def)
  also have "\<dots> = declared_attachments es"
    unfolding assms [unfolded attachment_inv_def] declared_attachments_def
    by (induction es) (auto simp: map_filter_simps)
  finally show ?thesis .
qed

lemma finish_result:
  assumes "fst (finish fs opts st fds) = Inr (r, st')"
  obtains st1 where "fst (check_attachments fs opts (check_run_end st) fds) = Inr st1"
    "st' = check_complete opts st1" "r = make_report st'"
  using assms
  by (auto simp: finish_def bind_io_def return_io_def Let_def split: prod.splits sum.splits)

lemma tidy_finish: "tidy (finish fs opts st)"
  by (auto simp: finish_def Let_def intro!: tidy_bind tidy_check_attachments)

lemma finish_only:
  assumes "fst (finish fs opts st fds) = Inr (r, st')" and "\<not> attachmentsDirRefused st"
  shows "only_diagnostics st st'"
    and "rep_valid r \<longleftrightarrow> clean st \<and>
      (runFinished st \<noteq> None \<longrightarrow> list_all (\<lambda>(_, s). ses_finished s) (sessions st)) \<and>
      attachments_ok fs opts (declared_of (attachments st)) \<and> (opt_requireComplete opts \<longrightarrow> is_complete st)"
proof -
  from finish_result [OF assms(1)] obtain st1 where
    st1: "fst (check_attachments fs opts (check_run_end st) fds) = Inr st1"
      "st' = check_complete opts st1" "r = make_report st'" by blast
  have ref: "\<not> attachmentsDirRefused (check_run_end st)"
    using assms(2) by (simp add: check_run_end_refused)
  note att = check_attachments_spec [OF st1(1) ref]
  have one: "only_diagnostics st st1"
    by (rule only_diagnostics_trans [OF check_run_end_only att(1)])
  then show "only_diagnostics st st'"
    unfolding st1(2) by (rule only_diagnostics_trans) (rule check_complete_only)
  show "rep_valid r \<longleftrightarrow> clean st \<and>
      (runFinished st \<noteq> None \<longrightarrow> list_all (\<lambda>(_, s). ses_finished s) (sessions st)) \<and>
      attachments_ok fs opts (declared_of (attachments st)) \<and> (opt_requireComplete opts \<longrightarrow> is_complete st)"
    unfolding st1(3) rep_valid_clean st1(2) clean_check_complete att(2) clean_check_run_end
      only_diagnostics_verdict [OF one] only_diagnostics_same [OF check_run_end_only]
    by blast
qed

lemma check_attachments_mono:
  assumes "fst (check_attachments fs opts st fds) = Inr st'" and "clean st'"
  shows "clean st"
proof (cases "opt_attachmentsDir opts")
  case None
  with assms show ?thesis by (simp add: check_attachments_def return_io_def)
next
  case (Some dir)
  show ?thesis
  proof (cases "entryKind fs dir")
    case (Inl e)
    with Some assms(1) show ?thesis by (simp add: check_attachments_def bind_io_def lift_io_def)
  next
    case (Inr kind)
    show ?thesis
    proof (cases "kind = Symlink \<or> kind = Special \<or> kind = Regular")
      case True
      with assms Some Inr show ?thesis
        by (auto simp: check_attachments_def bind_io_def lift_io_def return_io_def refuseEntry_def
            clean_simps split: if_splits)
    next
      case False
      then have "fst (check_attachment_list fs dir (attachments st) st fds) = Inr st'"
        using assms(1) Some Inr by (simp add: check_attachments_def bind_io_def lift_io_def)
      from check_attachment_list_spec [OF this] assms(2) show ?thesis by simp
    qed
  qed
qed

lemma finish_mono:
  assumes "fst (finish fs opts st fds) = Inr (r, st')" and "rep_valid r"
  shows "clean st"
proof -
  from finish_result [OF assms(1)] obtain st1 where
    st1: "fst (check_attachments fs opts (check_run_end st) fds) = Inr st1"
      "st' = check_complete opts st1" "r = make_report st'" by blast
  then have "clean st1" using assms(2) by (simp add: rep_valid_clean clean_check_complete)
  from check_attachments_mono [OF st1(1) this] show ?thesis by (simp add: clean_check_run_end)
qed

end
