(* ===== verification/Validator_Properties.thy ===== *)
theory Validator_Properties
  imports Validator_Finish
begin

text \<open>
  What the validator promises, stated of whole validations: a list of files is fed to a new
  validator and finished.  A sample run of one session with one attempt shows that the promises
  are not empty.
\<close>

section \<open>A sample run\<close>

definition sample_envelope :: "string \<Rightarrow> int \<Rightarrow> event_payload \<Rightarrow> event" where
  "sample_envelope i n p = \<lparr>protocolVersion = js ''0.3.0'', eventId = js i, runId = js ''r'',
     sessionId = js ''s'', sequence = n, occurredAt = js ''2026-09-11T10:00:30Z'', ignorable = None,
     payload = p\<rparr>"

definition run_started :: event where
  "run_started = sample_envelope ''e1'' 1 (SessionStarted
     \<lparr>ss_producer = \<lparr>comp_name = js ''p'', comp_version = None\<rparr>,
      ss_runner = Some \<lparr>comp_name = js ''pw'', comp_version = None\<rparr>, ss_environment = None,
      ss_executor = None, ss_source = None, ss_labels = None\<rparr>)"

definition run_attempt :: event where
  "run_attempt = sample_envelope ''e2'' 2 (AttemptStarted
     \<lparr>as_attemptId = js ''a'', as_attemptNumber = 1, as_test = sample_test\<lparr>tc_tags := None\<rparr>\<rparr>)"

definition run_result :: event where
  "run_result = sample_envelope ''e3'' 3 (AttemptFinished
     \<lparr>af_attemptId = js ''a'', af_status = Failed, af_rawStatus = None, af_expectedStatus = None,
      af_durationMs = None, af_failures = None\<rparr>)"

definition run_finished :: event where
  "run_finished = sample_envelope ''e4'' 4 (SessionFinished
     \<lparr>sf_status = None, sf_rawStatus = None, sf_failures = None\<rparr>)"

definition sample_host :: host where
  "sample_host = \<lparr>json_parse = (\<lambda>raw.
      if raw = js ''1'' then Inr (eventToObject run_started)
      else if raw = js ''2'' then Inr (eventToObject run_attempt)
      else if raw = js ''3'' then Inr (eventToObject run_result)
      else if raw = js ''4'' then Inr (eventToObject run_finished)
      else Inl (js ''Unexpected token'')),
    ajv_validate = (\<lambda>_ _. None), sha256_text = (\<lambda>t. t)\<rparr>"

definition sample_options :: options where
  "sample_options = \<lparr>opt_attachmentsDir = None, opt_requireComplete = True, opt_maxEventBytes = None,
     opt_retainEvents = True, opt_retainSourceLines = True\<rparr>"

definition sample_files :: "(jstring \<times> jstring list) list" where
  "sample_files = [(js ''s.ndjson'', [js ''1'', js ''2'', js ''2'', js ''3'', [], js ''4'', []])]"

definition sample_history :: history where
  "sample_history = [(1, run_started), (1, run_attempt), (1, run_result), (1, run_finished)]"

lemmas sample_run_defs = run_started_def run_attempt_def run_result_def run_finished_def
  sample_envelope_def sample_test_def

lemma sample_run_read:
  "eventFromObject (eventToObject run_started) = Inr run_started"
  "eventFromObject (eventToObject run_attempt) = Inr run_attempt"
  "eventFromObject (eventToObject run_result) = Inr run_result"
  "eventFromObject (eventToObject run_finished) = Inr run_finished"
proof -
  have "wf_event run_started" "wf_event run_attempt" "wf_event run_result" "wf_event run_finished"
    unfolding wf_event_def sample_run_defs by code_simp+
  moreover have "normal_event run_started = run_started" "normal_event run_attempt = run_attempt"
    "normal_event run_result = run_result" "normal_event run_finished = run_finished"
    by (simp_all add: sample_run_defs normal_event_def normal_test_def)
  ultimately show "eventFromObject (eventToObject run_started) = Inr run_started"
    "eventFromObject (eventToObject run_attempt) = Inr run_attempt"
    "eventFromObject (eventToObject run_result) = Inr run_result"
    "eventFromObject (eventToObject run_finished) = Inr run_finished"
    using eventFromObject_eventToObject by metis+
qed

lemma read_valueI:
  assumes "length raw = 1" and "json_parse h raw = Inr v" and "eventFromObject v = Inr e"
    and "ajv_validate h = (\<lambda>_ _. None)" and "opt_maxEventBytes opts = None"
  shows "read_value h opts raw = Some (v, e)"
proof -
  have "utf8_length raw + 1 \<le> max_bytes opts"
    using utf8_length_le [of raw] assms(1,5) by (simp add: max_bytes_def maxEventBytes_def)
  then show ?thesis
    unfolding read_value_Some [where at = "\<lparr>fa_file = [], fa_line = 0\<rparr>"] read_line_Inr
    using assms by simp
qed

lemma sample_line_read:
  "read_value sample_host sample_options (js ''1'') = Some (eventToObject run_started, run_started)"
  "read_value sample_host sample_options (js ''2'') = Some (eventToObject run_attempt, run_attempt)"
  "read_value sample_host sample_options (js ''3'') = Some (eventToObject run_result, run_result)"
  "read_value sample_host sample_options (js ''4'') = Some (eventToObject run_finished, run_finished)"
  by (rule read_valueI; simp add: sample_host_def sample_options_def sample_run_read)+

lemma sample_line_blank:
  "is_blank []" "\<not> is_blank (js ''1'')" "\<not> is_blank (js ''2'')" "\<not> is_blank (js ''3'')"
  "\<not> is_blank (js ''4'')"
  by (simp_all add: is_blank_def is_js_space_def js_def)

lemma sample_decoded:
  "decode_files sample_host sample_options 1 sample_files =
     [(1, eventToObject run_started, run_started), (1, eventToObject run_attempt, run_attempt),
      (1, eventToObject run_attempt, run_attempt), (1, eventToObject run_result, run_result),
      (1, eventToObject run_finished, run_finished)]"
  by (simp add: sample_files_def sample_line_read sample_line_blank)

lemma sample_history_of:
  "history_of (decode_files sample_host sample_options 1 sample_files) = sample_history"
  unfolding sample_decoded by (simp add: sample_history_def dec_id_def sample_run_defs)

lemma sample_lifecycle: "lifecycle_ok True sample_history"
  unfolding sample_history_def sample_run_defs by code_simp

lemma sample_lines_ok: "run_lines_ok sample_host sample_options True sample_files"
proof -
  have "list_all (\<lambda>x. list_all (line_ok sample_host sample_options) (snd x)) sample_files"
    by (simp add: sample_files_def line_ok_def sample_line_read sample_line_blank)
  moreover have "repeats_ok (decode_files sample_host sample_options 1 sample_files)"
    unfolding sample_decoded by (simp add: repeats_ok_def dec_id_def dec_key_def sample_run_defs)
  ultimately show ?thesis
    unfolding run_lines_ok_def sample_history_of by (simp add: sample_lifecycle)
qed

section \<open>Whole validations\<close>

text \<open>The history of a run's files, and what the protocol asks of it as a whole.\<close>

definition run_history :: "host \<Rightarrow> options \<Rightarrow> (jstring \<times> jstring list) list \<Rightarrow> event list" where
  "run_history h opts files = map snd (history_of (decode_files h opts 1 files))"

definition run_end_ok :: "event list \<Rightarrow> bool" where
  "run_end_ok es \<longleftrightarrow> (run_ended es \<longrightarrow> (\<forall>e \<in> set es. session_ended es (sessionId e)))"

definition run_is_valid ::
    "host \<Rightarrow> file_system \<Rightarrow> options \<Rightarrow> bool \<Rightarrow> (jstring \<times> jstring list) list \<Rightarrow> bool" where
  "run_is_valid h fs opts single files \<longleftrightarrow>
     run_lines_ok h opts single files \<and>
     (let es = run_history h opts files in
      run_end_ok es \<and> attachments_ok fs opts (declared_attachments es) \<and>
      (opt_requireComplete opts \<longrightarrow> history_complete es))"

lemma fed_inv:
  assumes "run_lines_ok h opts single files"
  shows "full_inv opts (feed_files h opts single files new_validator) (run_history h opts files)"
    and "clean (feed_files h opts single files new_validator)"
    and "lifecycle_ok single (history_of (decode_files h opts 1 files))"
  using assms feed_files_inv [of h opts single files] feed_files_iff [of h opts single files]
  by (simp_all add: run_history_def run_lines_ok_def del: One_nat_def)

lemma full_inv_facts:
  assumes "full_inv opts st es"
  shows "\<not> attachmentsDirRefused st" and "runFinished st \<noteq> None \<longleftrightarrow> run_ended es"
    and "list_all (\<lambda>(_, s). ses_finished s) (sessions st) \<longleftrightarrow> (\<forall>e \<in> set es. session_ended es (sessionId e))"
    and "declared_of (attachments st) = declared_attachments es"
  using assms by (simp_all add: full_inv_def tallies_def runs_inv_def sessions_complete declared_of_history)

lemma finish_valid_iff:
  assumes "fst (finish fs opts (feed_files h opts single files new_validator) fds) = Inr (r, st)"
  shows "rep_valid r \<longleftrightarrow> run_is_valid h fs opts single files"
proof (cases "run_lines_ok h opts single files")
  case True
  note inv = fed_inv [OF True]
  note facts = full_inv_facts [OF inv(1)]
  show ?thesis
    unfolding finish_only(2) [OF assms facts(1)] facts is_complete_iff [OF inv(1)]
    by (simp add: True inv(2) run_is_valid_def run_end_ok_def Let_def)
next
  case False
  with finish_mono [OF assms] feed_files_iff [of h opts single files] show ?thesis
    by (auto simp: run_is_valid_def)
qed

lemma valid_run_state:
  assumes "fst (finish fs opts (feed_files h opts single files new_validator) fds) = Inr (r, st)"
    and "rep_valid r"
  shows "run_lines_ok h opts single files"
    and "full_inv opts (feed_files h opts single files new_validator) (run_history h opts files)"
    and "lifecycle_ok single (history_of (decode_files h opts 1 files))"
    and "only_diagnostics (feed_files h opts single files new_validator) st"
    and "r = make_report st"
proof -
  show ok: "run_lines_ok h opts single files"
    using assms finish_valid_iff by (simp add: run_is_valid_def)
  note inv = fed_inv [OF ok]
  show "full_inv opts (feed_files h opts single files new_validator) (run_history h opts files)"
    "lifecycle_ok single (history_of (decode_files h opts 1 files))"
    by (rule inv)+
  show "only_diagnostics (feed_files h opts single files new_validator) st"
    by (rule finish_only(1) [OF assms(1) full_inv_facts(1) [OF inv(1)]])
  show "r = make_report st"
    using finish_result [OF assms(1)] by blast
qed

lemma finish_without_directory:
  assumes "opt_attachmentsDir opts = None"
  shows "\<exists>r st'. fst (finish fs opts st fds) = Inr (r, st')"
  using assms by (simp add: finish_def check_attachments_def bind_io_def return_io_def Let_def)

text \<open>The sample run, finished.\<close>

lemma sample_finish:
  obtains r st where "fst (finish fs sample_options
      (feed_files sample_host sample_options True sample_files new_validator) fds) = Inr (r, st)"
    and "rep_valid r"
proof -
  have none: "opt_attachmentsDir sample_options = None" by (simp add: sample_options_def)
  obtain r st where rs: "fst (finish fs sample_options
      (feed_files sample_host sample_options True sample_files new_validator) fds) = Inr (r, st)"
    using finish_without_directory [OF none] by blast
  have es: "run_history sample_host sample_options sample_files =
      [run_started, run_attempt, run_result, run_finished]"
    unfolding run_history_def sample_history_of by (simp add: sample_history_def)
  have "run_end_ok [run_started, run_attempt, run_result, run_finished]"
    "history_complete [run_started, run_attempt, run_result, run_finished]"
    unfolding sample_run_defs by code_simp+
  then have "run_is_valid sample_host fs sample_options True sample_files"
    unfolding run_is_valid_def es Let_def
    using sample_lines_ok none by (simp add: attachments_ok_def)
  with finish_valid_iff [OF rs] rs that show ?thesis by blast
qed

text \<open>
  C1. The validator decides the protocol.  When a validation of any files returns, its report is
  valid if and only if every line decodes (size, JSON, structure, schema), repeated event ids are
  identical repetitions, the history obeys every lifecycle rule event by event, a closed run has no
  open session, the declared attachments have the bytes they declare where a directory was given,
  and the run is complete where that was required.  The maps and counters of the implementation
  do not occur on the right-hand side.
\<close>

theorem validator_decides:
  assumes "fst (finish fs opts (feed_files h opts single files new_validator) fds) = Inr (r, st)"
  shows "rep_valid r \<longleftrightarrow> run_is_valid h fs opts single files"
  using assms by (rule finish_valid_iff)

theorem validator_decides_witness:
  "\<exists>fs fds r st. fst (finish fs sample_options
      (feed_files sample_host sample_options True sample_files new_validator) fds) = Inr (r, st) \<and>
     rep_valid r \<and> run_is_valid sample_host fs sample_options True sample_files"
proof -
  obtain r st where "fst (finish undefined sample_options
      (feed_files sample_host sample_options True sample_files new_validator) []) = Inr (r, st)" "rep_valid r"
    by (rule sample_finish)
  with validator_decides [OF this(1)] show ?thesis by blast
qed

text \<open>
  C2. The verdict of a valid run is the one the protocol derives from the events alone, in its
  order of precedence: \<open>incomplete\<close> while a session, attempt or step is open; \<open>failed\<close> on an
  unexpected outcome of an execution's final attempt, a scope failure or a failed session;
  \<open>inconclusive\<close> on an inconclusive final attempt or session; otherwise \<open>passed\<close>.
\<close>

theorem validator_verdict:
  assumes "fst (finish fs opts (feed_files h opts single files new_validator) fds) = Inr (r, st)"
    and "rep_valid r"
  shows "sum_verdict (rep_summary r) = history_verdict (run_history h opts files) \<and>
    sum_complete (rep_summary r) = history_complete (run_history h opts files) \<and>
    sum_closed (rep_summary r) = run_ended (run_history h opts files)"
proof -
  note v = valid_run_state [OF assms]
  show ?thesis
    using run_verdict_history [OF v(2,3)] is_complete_iff [OF v(2)] full_inv_facts(2) [OF v(2)]
      only_diagnostics_verdict [OF v(4)] only_diagnostics_same(2) [OF v(4)]
    by (simp add: v(5) make_report_def run_history_def)
qed

theorem validator_verdict_witness:
  "\<exists>fs fds r st. fst (finish fs sample_options
      (feed_files sample_host sample_options True sample_files new_validator) fds) = Inr (r, st) \<and>
     rep_valid r \<and> sum_verdict (rep_summary r) = VFailed"
proof -
  obtain r st where rs: "fst (finish undefined sample_options
      (feed_files sample_host sample_options True sample_files new_validator) []) = Inr (r, st)" "rep_valid r"
    by (rule sample_finish)
  have "history_verdict [run_started, run_attempt, run_result, run_finished] = VFailed"
    unfolding sample_run_defs by code_simp
  then have "history_verdict (run_history sample_host sample_options sample_files) = VFailed"
    unfolding run_history_def sample_history_of by (simp add: sample_history_def)
  with rs validator_verdict [OF rs] show ?thesis by metis
qed

section \<open>What a valid run guarantees\<close>

lemma lifecycle_place:
  assumes "lifecycle_ok single (h @ [(f, e)])"
  shows "sequence e = int (length (of_session (map snd h) (sessionId e))) + 1"
    and "\<forall>d \<in> set (map snd h). runId d = runId e"
  using assms by (simp_all add: lifecycle_ok_snoc rule_ok_def place_ok_def)

lemma lifecycle_sequences:
  "lifecycle_ok single h \<Longrightarrow>
   map sequence (of_session (map snd h) sid) = map int [1..<Suc (length (of_session (map snd h) sid))]"
proof (induction h rule: rev_induct)
  case (snoc x h)
  obtain f e where x: "x = (f, e)" by (cases x)
  from snoc.prems have "lifecycle_ok single h" by (simp add: lifecycle_ok_snoc)
  from snoc.IH [OF this] lifecycle_place(1) [OF snoc.prems [unfolded x]] show ?case
    by (auto simp: x event_simps)
qed simp

lemma lifecycle_one_run:
  assumes "lifecycle_ok single h" and "d \<in> set (map snd h)" and "e \<in> set (map snd h)"
  shows "runId d = runId e"
proof (cases h rule: rev_cases)
  case (snoc g x)
  obtain f y where x: "x = (f, y)" by (cases x)
  have "runId c = runId y" if "c \<in> set (map snd h)" for c
    using lifecycle_place(2) [of single g f y] assms(1) that by (auto simp: snoc x)
  with assms(2,3) show ?thesis by metis
qed (use assms in simp)

lemma new_only_ids:
  "distinct (map (\<lambda>x. eventId (snd x)) (new_only ids xs)) \<and>
   (\<lambda>x. eventId (snd x)) ` set (new_only ids xs) \<inter> set ids = {}"
  by (induction xs arbitrary: ids) (auto simp: dec_id_def, (force simp: dec_id_def)+)

definition start_key :: "event \<Rightarrow> (jstring \<times> int) option" where
  "start_key e = map_option (\<lambda>p. (executionId (as_test p), as_attemptNumber p)) (attempt_start (payload e))"

lemma map_filter_known: "List.map_filter start_key (filter isKnownEvent es) = List.map_filter start_key es"
proof (induction es)
  case (Cons e es)
  have "isKnownEvent e" if "start_key e \<noteq> None"
    using that known_payload_type [of "payload e"]
    by (cases "payload e") (auto simp: start_key_def isKnownEvent_def eventType_def)
  with Cons show ?case by (cases "start_key e") (auto simp: map_filter_simps)
qed simp

lemma lifecycle_start_keys:
  assumes "lifecycle_ok single h"
  shows "distinct (List.map_filter start_key (map snd h))"
  using assms
proof (induction h rule: rev_induct)
  case (snoc x h)
  obtain f e where x: "x = (f, e)" by (cases x)
  from snoc.prems have ok: "lifecycle_ok single h" and rule: "payload_ok (map snd h) e"
    by (simp_all add: lifecycle_ok_snoc rule_ok_def x)
  have "k \<notin> set (List.map_filter start_key (map snd h))" if "start_key e = Some k" for k
  proof
    from that obtain p where p: "payload e = AttemptStarted p"
      "k = (executionId (as_test p), as_attemptNumber p)"
      by (auto simp: start_key_def elim!: attempt_start.elims)
    assume "k \<in> set (List.map_filter start_key (map snd h))"
    then obtain d q where d: "d \<in> set (map snd h)" "payload d = AttemptStarted q"
      "k = (executionId (as_test q), as_attemptNumber q)"
      by (force simp: List.map_filter_def start_key_def elim!: attempt_start.elims)
    from rule d(1) have "agrees (map snd h) e p d" by (simp add: payload_ok_def p) blast
    with d p show False by (simp add: agrees_def)
  qed
  with snoc.IH [OF ok] show ?case
    by (cases "start_key e") (auto simp: x map_filter_simps List.map_filter_def)
qed (simp add: map_filter_simps)

text \<open>
  C3. The source lines a valid run keeps, repetitions apart, carry in each session the sequence
  numbers 1, 2, ... without a gap, in the order they were read.
\<close>

theorem valid_run_sequences:
  assumes "fst (finish fs opts (feed_files h opts single files new_validator) fds) = Inr (r, st)"
    and "rep_valid r" and "opt_retainSourceLines opts"
  shows "\<exists>n. map sl_sequence (filter (\<lambda>l. sl_sessionId l = sid) (filter (\<lambda>l. sl_disposition l \<noteq> Duplicate)
    (source_log st))) = map int [1..<Suc n]"
proof -
  note v = valid_run_state [OF assms(1,2)]
  let ?ls = "filter (\<lambda>l. sl_disposition l \<noteq> Duplicate) (source_log st)"
  have facts: "map line_facts ?ls = map envelope_facts (run_history h opts files)"
    using v(2) assms(3) by (simp add: full_inv_def kept_def only_diagnostics_same [OF v(4)])
  have "map sl_sequence (filter (\<lambda>l. sl_sessionId l = sid) ?ls) =
      map (\<lambda>t. fst (snd (snd t))) (filter (\<lambda>t. fst (snd t) = sid) (map line_facts ?ls))"
    by (simp add: line_facts_def filter_map comp_def)
  also have "\<dots> = map sequence (of_session (run_history h opts files) sid)"
    unfolding facts by (simp add: envelope_facts_def filter_map comp_def of_session_def)
  also have "\<dots> = map int [1..<Suc (length (of_session (run_history h opts files) sid))]"
    using lifecycle_sequences [OF v(3)] by (simp add: run_history_def)
  finally show ?thesis by blast
qed

theorem valid_run_sequences_witness:
  "\<exists>fs fds r st. fst (finish fs sample_options
      (feed_files sample_host sample_options True sample_files new_validator) fds) = Inr (r, st) \<and>
     rep_valid r \<and> (\<exists>n. map sl_sequence (filter (\<lambda>l. sl_sessionId l = js ''s'')
       (filter (\<lambda>l. sl_disposition l \<noteq> Duplicate) (source_log st))) = map int [1..<Suc n])"
proof -
  obtain r st where rs: "fst (finish undefined sample_options
      (feed_files sample_host sample_options True sample_files new_validator) []) = Inr (r, st)" "rep_valid r"
    by (rule sample_finish)
  have "opt_retainSourceLines sample_options" by (simp add: sample_options_def)
  from rs valid_run_sequences [OF rs this] show ?thesis by blast
qed

text \<open>
  The events a valid run keeps for its consumers have distinct event ids and one run id, and
  no two attempts of one execution share an attempt number: the final attempt of every execution
  is determined by the events, whatever order the files were read in.
\<close>

theorem valid_run_identities:
  assumes "fst (finish fs opts (feed_files h opts single files new_validator) fds) = Inr (r, st)"
    and "rep_valid r"
  shows "distinct (map eventId (accepted st)) \<and>
    distinct (List.map_filter start_key (accepted st)) \<and>
    (\<forall>d \<in> set (accepted st). \<forall>e \<in> set (accepted st). runId d = runId e)"
proof -
  note v = valid_run_state [OF assms]
  let ?es = "run_history h opts files"
  have acc: "accepted st = (if opt_retainEvents opts then filter isKnownEvent ?es else [])"
    using v(2) by (simp add: full_inv_def kept_def only_diagnostics_same [OF v(4)])
  have "distinct (map eventId ?es)"
    using new_only_ids [of "[]" "decode_files h opts 1 files"] by (simp add: run_history_def comp_def)
  then have "distinct (map eventId (filter isKnownEvent ?es))"
    by (simp add: distinct_map inj_on_def)
  moreover have "List.map_filter start_key (filter isKnownEvent ?es) = List.map_filter start_key ?es"
    by (rule map_filter_known)
  ultimately show ?thesis
    using lifecycle_start_keys [OF v(3)] lifecycle_one_run [OF v(3)]
    by (auto simp: acc run_history_def map_filter_simps)
qed

theorem valid_run_identities_witness:
  "\<exists>fs fds r st. fst (finish fs sample_options
      (feed_files sample_host sample_options True sample_files new_validator) fds) = Inr (r, st) \<and>
     rep_valid r \<and> distinct (map eventId (accepted st))"
proof -
  obtain r st where rs: "fst (finish undefined sample_options
      (feed_files sample_host sample_options True sample_files new_validator) []) = Inr (r, st)" "rep_valid r"
    by (rule sample_finish)
  from rs valid_run_identities [OF rs] show ?thesis by blast
qed

section \<open>Delivering a file twice\<close>

lemma decode_lines_values:
  "(\<lambda>x. snd x) ` set (decode_lines h opts f lines) = (\<lambda>x. snd x) ` set (decode_lines h opts g lines)"
  by (induction lines) (auto split: option.splits)

lemma decode_files_append:
  "decode_files h opts f (xs @ ys) = decode_files h opts f xs @ decode_files h opts (f + length xs) ys"
  by (induction xs arbitrary: f) auto

lemma decode_files_member:
  "(n, lines) \<in> set files \<Longrightarrow> snd ` set (decode_lines h opts g lines) \<subseteq> snd ` set (decode_files h opts f files)"
proof (induction files arbitrary: f)
  case (Cons x files)
  then show ?case
    using decode_lines_values [of h opts g lines f] by (cases x) (auto simp: image_Un)
qed simp

lemma new_only_repeats:
  assumes "\<And>y. y \<in> set ys \<Longrightarrow> dec_id y \<in> dec_id ` set xs"
  shows "history_of (xs @ ys) = history_of xs"
  using assms
proof (induction ys rule: rev_induct)
  case (snoc y ys)
  from snoc.prems [of y] have "dec_id y \<in> dec_id ` set (xs @ ys)" by (simp add: image_Un)
  with snoc new_only_snoc [of "[]" "xs @ ys" y] show ?case by (simp add: append_assoc)
qed simp

lemma redelivered:
  assumes ok: "run_lines_ok h opts single files" and mem: "(n, lines) \<in> set files"
  shows "run_lines_ok h opts single (files @ [(m, lines)])"
    and "run_history h opts (files @ [(m, lines)]) = run_history h opts files"
proof -
  let ?xs = "decode_files h opts 1 files" and ?ys = "decode_lines h opts (1 + length files) lines"
  have all: "decode_files h opts 1 (files @ [(m, lines)]) = ?xs @ ?ys"
    by (simp add: decode_files_append)
  have again: "\<exists>x \<in> set ?xs. snd x = snd y" if "y \<in> set ?ys" for y
    using subsetD [OF decode_files_member [OF mem, of h opts "1 + length files" 1] imageI [OF that]]
    by (metis imageE)
  have same: "snd x = snd y \<Longrightarrow> dec_id x = dec_id y \<and> dec_key x = dec_key y" for x y
    by (simp add: dec_id_def dec_key_def)
  have "dec_id y \<in> dec_id ` set ?xs" if "y \<in> set ?ys" for y
    using again [OF that] same by (metis imageI)
  then have hist: "history_of (?xs @ ?ys) = history_of ?xs" by (rule new_only_repeats)
  have "repeats_ok ?xs" using ok by (simp add: run_lines_ok_def)
  moreover have "\<exists>x' \<in> set ?xs. dec_id x' = dec_id x \<and> dec_key x' = dec_key x" if "x \<in> set (?xs @ ?ys)" for x
    using that again same by (metis Un_iff set_append)
  ultimately have "repeats_ok (?xs @ ?ys)"
    unfolding repeats_ok_def by metis
  moreover have "list_all (line_ok h opts) lines"
    using ok mem by (force simp: run_lines_ok_def list_all_iff)
  ultimately show "run_lines_ok h opts single (files @ [(m, lines)])"
    using ok hist by (simp add: run_lines_ok_def all del: One_nat_def)
  show "run_history h opts (files @ [(m, lines)]) = run_history h opts files"
    by (simp add: run_history_def all hist del: One_nat_def)
qed

text \<open>
  Delivering one of a valid run's files a second time, under any name, does no harm: the run
  is still valid, and its history, hence its verdict and the events it hands on, are the same.
\<close>

theorem redelivery_harmless:
  assumes "run_is_valid h fs opts single files" and "(n, lines) \<in> set files"
  shows "run_is_valid h fs opts single (files @ [(m, lines)]) \<and>
    run_history h opts (files @ [(m, lines)]) = run_history h opts files"
  using assms redelivered [of h opts single files n lines m] by (simp add: run_is_valid_def)

theorem redelivery_harmless_witness:
  "run_is_valid sample_host undefined sample_options True
     (sample_files @ [(js ''copy.ndjson'', [js ''1'', js ''2'', js ''2'', js ''3'', [], js ''4'', []])])"
proof -
  obtain r st where rs: "fst (finish undefined sample_options
      (feed_files sample_host sample_options True sample_files new_validator) []) = Inr (r, st)" "rep_valid r"
    by (rule sample_finish)
  with finish_valid_iff [OF rs(1)] have "run_is_valid sample_host undefined sample_options True sample_files"
    by simp
  from redelivery_harmless [OF this, of "js ''s.ndjson''"] show ?thesis
    by (simp add: sample_files_def)
qed

section \<open>Descriptors\<close>

lemma tidy_feed_entry: "tidy (feed_entry h fs opts path st)"
  unfolding tidy_def
proof
  fix fds
  show "snd (feed_entry h fs opts path st fds) = fds"
  proof (cases rule: openRegular_cases [of fs path fds])
    case (threw e)
    then show ?thesis
      by (cases "entryKind fs path") (auto simp: feed_entry_def bind_io_def lift_io_def return_io_def)
  next
    case (refused k)
    then show ?thesis
      by (cases "entryKind fs path") (auto simp: feed_entry_def bind_io_def lift_io_def return_io_def)
  next
    case (opened fd s)
    then show ?thesis
      by (cases "entryKind fs path"; cases "readDescriptor fs fd")
        (auto simp: feed_entry_def bind_io_def lift_io_def return_io_def close_io_def)
  qed
qed

lemma tidy_feed_entries: "tidy (feed_entries h fs opts names st)"
  by (induction names arbitrary: st) (auto intro: tidy_bind tidy_feed_entry)

text \<open>
  Validating a run directory leaves no descriptor open: whatever the file system answers, and
  whether the call returns or throws, the open descriptors are those there were before.
\<close>

theorem no_descriptor_leaks:
  "snd (validateRunDirectorySnapshot h fs opts retain dir fds) = fds"
proof -
  have "tidy (validateRunDirectorySnapshot h fs opts retain dir)"
    unfolding validateRunDirectorySnapshot_def Let_def
    by (intro tidy_bind tidy_lift)
      (auto intro!: tidy_bind tidy_finish tidy_feed_entries split: prod.splits)
  then show ?thesis by (simp add: tidy_def)
qed

section \<open>The text of a diagnostic\<close>

definition one_line :: "jstring \<Rightarrow> bool" where
  "one_line s \<longleftrightarrow> \<not> list_ex is_line_break s"

lemma one_line_append [simp]: "one_line (s @ t) \<longleftrightarrow> one_line s \<and> one_line t"
  by (simp add: one_line_def)

lemma one_line_Nil [simp]: "one_line []"
  by (simp add: one_line_def)

lemma one_line_map [simp]: "one_line (map (\<lambda>c. if is_line_break c then 0x20 else c) s)"
  by (auto simp: one_line_def list_ex_iff is_line_break_def)

lemma one_line_digits: "one_line (show_nat n)"
proof -
  have "\<not> is_line_break c" if "is_digit c" for c
    using that by (auto simp: is_digit_def is_line_break_def)
  with show_nat_digits [of n] show ?thesis by (auto simp: one_line_def list_ex_iff list_all_iff)
qed

lemma one_line_js: "one_line (js s) \<longleftrightarrow> CHR 0x0A \<notin> set s \<and> CHR 0x0D \<notin> set s"
proof -
  have "is_line_break (of_char c) \<longleftrightarrow> c = CHR 0x0A \<or> c = CHR 0x0D" for c
  proof -
    have "(of_char c :: 16 word) = of_char (CHR 0x0A) \<longleftrightarrow> c = CHR 0x0A"
      "(of_char c :: 16 word) = of_char (CHR 0x0D) \<longleftrightarrow> c = CHR 0x0D"
      by (simp_all only: of_char_unit_eq)
    then show ?thesis by (simp add: is_line_break_def)
  qed
  then show ?thesis by (auto simp: one_line_def js_def list_ex_iff)
qed

lemma one_line_words:
  "one_line (severity_word x)" "one_line (protocol_code_word k)" "one_line (code_word c)"
  "one_line (detail_word d)"
proof -
  show k: "one_line (protocol_code_word k)" for k by (cases k) (simp_all add: one_line_js)
  show "one_line (severity_word x)" by (cases x) (simp_all add: one_line_js)
  show "one_line (code_word c)" by (cases c) (simp_all add: one_line_js k)
  show "one_line (detail_word d)" by (cases d) (simp_all add: one_line_js)
qed

text \<open>
  A diagnostic is printed on one line, whatever its message holds, as long as its file name,
  event id and pointer have no line break.
\<close>

theorem diagnostic_on_one_line:
  assumes "one_line (dg_file d)" and "\<forall>i. dg_eventId d = Some i \<longrightarrow> one_line i"
    and "\<forall>p. dg_pointer d = Some p \<longrightarrow> one_line p"
  shows "one_line (formatDiagnostic d)"
  using assms
  by (auto simp: formatDiagnostic_def one_line_words one_line_js one_line_digits split: option.splits)

definition noisy_diagnostic :: diagnostic where
  "noisy_diagnostic = \<lparr>dg_severity = SevError, dg_code = Protocol MALFORMED_JSON, dg_file = js ''a.ndjson'',
     dg_line = 3, dg_eventId = None, dg_pointer = None, dg_detail = None,
     dg_message = js ''not JSON: '' @ [0x0A] @ js ''x''\<rparr>"

theorem diagnostic_on_one_line_witness:
  "\<not> one_line (dg_message noisy_diagnostic) \<and> one_line (formatDiagnostic noisy_diagnostic)"
proof -
  have "one_line (formatDiagnostic noisy_diagnostic)"
    by (rule diagnostic_on_one_line) (simp_all add: noisy_diagnostic_def one_line_js)
  then show ?thesis by (simp add: noisy_diagnostic_def one_line_def is_line_break_def)
qed

end
