(* ===== verification/Validator_Findings.thy ===== *)
theory Validator_Findings
  imports Validator_Properties
begin

text \<open>
  Two places where the validator does not do what its comments say, each as a theorem about the
  model: a diagnostic that prints on two lines, and a pair of session files whose order decides
  whether the run is valid.
\<close>

section \<open>A pointer with a line break\<close>

text \<open>
  \<open>formatDiagnostic\<close> is documented as one line per diagnostic and replaces line breaks in the
  message, but not in the pointer; the codec's pointers contain the keys of the producer's maps.
\<close>

definition broken_root :: obj where
  "broken_root = [(js ''protocolVersion'', JStr (js ''0.3.0'')), (js ''eventType'', JStr (js ''session.started'')),
     (js ''eventId'', JStr (js ''e'')), (js ''runId'', JStr (js ''r'')), (js ''sessionId'', JStr (js ''s'')),
     (js ''sequence'', JNum (Whole 1)), (js ''occurredAt'', JStr (js ''2026-09-11T10:00:30Z'')),
     (js ''payload'', JObj [(js ''producer'', JObj [(js ''name'', JStr (js ''p''))]),
        (js ''labels'', JObj [(js ''a'' @ [0x0A] @ js ''b'', JNull)])])]"

definition broken_host :: host where
  "broken_host = \<lparr>json_parse = (\<lambda>_. Inr (JObj broken_root)), ajv_validate = (\<lambda>_ _. None), sha256_text = (\<lambda>t. t)\<rparr>"

lemma broken_fields:
  "parseProtocolVersion (js ''0.3.0'') = Some \<lparr>major = 0, minor = 3, patch = 0\<rparr>"
  "EVENT_TYPE (js ''session.started'')" "IDENTIFIER (js ''e'')" "IDENTIFIER (js ''r'')"
  "IDENTIFIER (js ''s'')" "TIMESTAMP (js ''2026-09-11T10:00:30Z'')"
  by code_simp+

lemma broken_read:
  "eventFromObject (JObj broken_root) =
     Inl (invalid (js ''/payload/labels/'' @ js ''a'' @ [0x0A] @ js ''b'') (js ''must be a string''))"
  by (simp add: broken_root_def read_version_def requiredString_def required_def present_def broken_fields
      isSupportedProtocolVersion_def read_identifier_def integral_def is_safe_int_def MAX_SAFE_INTEGER_def
      read_ignorable_def readPayload_def read_session_started_def read_component_def optionalString_def
      optionalObject_def stringMap_def string_entry_def)
    (simp add: js_def)

text \<open>
  A label whose key has a line break and whose value is not a string yields a diagnostic that
  is printed on two lines.
\<close>

theorem pointer_breaks_the_line:
  "\<exists>d. read_line broken_host sample_options \<lparr>fa_file = js ''s.ndjson'', fa_line = 1\<rparr> (js ''x'') = Inl d \<and>
     \<not> one_line (formatDiagnostic d)"
proof -
  have "utf8_length (js ''x'') + 1 \<le> max_bytes sample_options"
    using utf8_length_le [of "js ''x''"] by (simp add: max_bytes_def maxEventBytes_def sample_options_def)
  then have "read_line broken_host sample_options \<lparr>fa_file = js ''s.ndjson'', fa_line = 1\<rparr> (js ''x'') =
      Inl (error_diagnostic \<lparr>fa_file = js ''s.ndjson'', fa_line = 1\<rparr> (Protocol SCHEMA_INVALID)
        (js ''/payload/labels/'' @ js ''a'' @ [0x0A] @ js ''b'' @ js '': '' @ js ''must be a string'')
        (Some (js ''/payload/labels/'' @ js ''a'' @ [0x0A] @ js ''b'')) None)"
    by (simp add: read_line_def broken_host_def broken_read invalid_def del: eventFromObject.simps)
  moreover have "\<not> one_line (formatDiagnostic (error_diagnostic \<lparr>fa_file = js ''s.ndjson'', fa_line = 1\<rparr>
      (Protocol SCHEMA_INVALID) m (Some (js ''/payload/labels/'' @ js ''a'' @ [0x0A] @ js ''b'')) None))" for m
    by (simp add: formatDiagnostic_def error_diagnostic_def) (simp add: one_line_def is_line_break_def)
  ultimately show ?thesis by blast
qed

section \<open>Files that are not independent\<close>

text \<open>
  \<open>RunValidator\<close> is documented to treat files as independent except for run-level facts.  An
  attempt that starts in one session and ends in another makes them dependent: no rule ties the
  end of an attempt to the session it started in, and the attempt must have been started by a file
  read earlier.
\<close>

definition other_started :: event where
  "other_started = run_started\<lparr>eventId := js ''e5'', sessionId := js ''b''\<rparr>"

definition other_result :: event where
  "other_result = run_result\<lparr>eventId := js ''e6'', sessionId := js ''b'', sequence := 2\<rparr>"

definition other_finished :: event where
  "other_finished = run_finished\<lparr>eventId := js ''e7'', sessionId := js ''b'', sequence := 3\<rparr>"

definition crossing_host :: host where
  "crossing_host = \<lparr>json_parse = (\<lambda>raw.
      if raw = js ''1'' then Inr (eventToObject run_started)
      else if raw = js ''2'' then Inr (eventToObject run_attempt)
      else if raw = js ''5'' then Inr (eventToObject other_started)
      else if raw = js ''6'' then Inr (eventToObject other_result)
      else if raw = js ''7'' then Inr (eventToObject other_finished)
      else Inl (js ''Unexpected token'')),
    ajv_validate = (\<lambda>_ _. None), sha256_text = (\<lambda>t. t)\<rparr>"

definition crossing_options :: options where
  "crossing_options = sample_options\<lparr>opt_requireComplete := False\<rparr>"

definition file_a :: "jstring \<times> jstring list" where
  "file_a = (js ''a.ndjson'', [js ''1'', js ''2''])"

definition file_b :: "jstring \<times> jstring list" where
  "file_b = (js ''b.ndjson'', [js ''5'', js ''6'', js ''7''])"

lemmas other_defs = other_started_def other_result_def other_finished_def

lemma other_read:
  "eventFromObject (eventToObject other_started) = Inr other_started"
  "eventFromObject (eventToObject other_result) = Inr other_result"
  "eventFromObject (eventToObject other_finished) = Inr other_finished"
proof -
  have "wf_event run_started" "wf_event run_result" "wf_event run_finished"
    using sample_run_read eventFromObject_wf by blast+
  moreover have "IDENTIFIER (js ''e5'')" "IDENTIFIER (js ''e6'')" "IDENTIFIER (js ''e7'')" "IDENTIFIER (js ''b'')"
    by code_simp+
  ultimately have "wf_event other_started" "wf_event other_result" "wf_event other_finished"
    by (simp_all add: wf_event_def other_defs is_safe_int_def MAX_SAFE_INTEGER_def)
  moreover have "normal_event other_started = other_started" "normal_event other_result = other_result"
    "normal_event other_finished = other_finished"
    by (simp_all add: other_defs sample_run_defs normal_event_def)
  ultimately show "eventFromObject (eventToObject other_started) = Inr other_started"
    "eventFromObject (eventToObject other_result) = Inr other_result"
    "eventFromObject (eventToObject other_finished) = Inr other_finished"
    using eventFromObject_eventToObject by metis+
qed

lemma crossing_line_read:
  "read_value crossing_host crossing_options (js ''1'') = Some (eventToObject run_started, run_started)"
  "read_value crossing_host crossing_options (js ''2'') = Some (eventToObject run_attempt, run_attempt)"
  "read_value crossing_host crossing_options (js ''5'') = Some (eventToObject other_started, other_started)"
  "read_value crossing_host crossing_options (js ''6'') = Some (eventToObject other_result, other_result)"
  "read_value crossing_host crossing_options (js ''7'') = Some (eventToObject other_finished, other_finished)"
  by (rule read_valueI; simp add: crossing_host_def crossing_options_def sample_options_def
      sample_run_read other_read)+

lemma crossing_line_blank:
  "\<not> is_blank (js ''1'')" "\<not> is_blank (js ''2'')" "\<not> is_blank (js ''5'')" "\<not> is_blank (js ''6'')"
  "\<not> is_blank (js ''7'')"
  by (simp_all add: is_blank_def is_js_space_def js_def)

lemmas crossing_read = crossing_line_read crossing_line_blank file_a_def file_b_def

lemma crossing_ab: "run_lines_ok crossing_host crossing_options True [file_a, file_b]"
proof -
  have d: "decode_files crossing_host crossing_options 1 [file_a, file_b] =
      [(1, eventToObject run_started, run_started), (1, eventToObject run_attempt, run_attempt),
       (2, eventToObject other_started, other_started), (2, eventToObject other_result, other_result),
       (2, eventToObject other_finished, other_finished)]"
    by (simp add: crossing_read)
  have "history_of (decode_files crossing_host crossing_options 1 [file_a, file_b]) =
      [(1, run_started), (1, run_attempt), (2, other_started), (2, other_result), (2, other_finished)]"
    unfolding d by (simp add: dec_id_def other_defs sample_run_defs)
  moreover have "lifecycle_ok True
      [(1, run_started), (1, run_attempt), (2, other_started), (2, other_result), (2, other_finished)]"
    unfolding other_defs sample_run_defs by code_simp
  moreover have "repeats_ok (decode_files crossing_host crossing_options 1 [file_a, file_b])"
    unfolding d by (simp add: repeats_ok_def dec_id_def dec_key_def other_defs sample_run_defs)
  moreover have "list_all (\<lambda>x. list_all (line_ok crossing_host crossing_options) (snd x)) [file_a, file_b]"
    by (simp add: line_ok_def crossing_read)
  ultimately show ?thesis by (simp add: run_lines_ok_def del: One_nat_def)
qed

lemma crossing_ba: "\<not> run_lines_ok crossing_host crossing_options True [file_b, file_a]"
proof -
  have d: "decode_files crossing_host crossing_options 1 [file_b, file_a] =
      [(1, eventToObject other_started, other_started), (1, eventToObject other_result, other_result),
       (1, eventToObject other_finished, other_finished),
       (2, eventToObject run_started, run_started), (2, eventToObject run_attempt, run_attempt)]"
    by (simp add: crossing_read)
  have "history_of (decode_files crossing_host crossing_options 1 [file_b, file_a]) =
      [(1, other_started)] @ [(1, other_result)] @ [(1, other_finished), (2, run_started), (2, run_attempt)]"
    unfolding d by (simp add: dec_id_def other_defs sample_run_defs)
  moreover have "\<not> rule_ok True [(1, other_started)] (1, other_result)"
    by (simp add: rule_ok_def payload_ok_def attempt_open_def attempt_started_def other_defs sample_run_defs)
  ultimately show ?thesis
    using lifecycle_ok_append [of True "[(1, other_started), (1, other_result)]"
        "[(1, other_finished), (2, run_started), (2, run_attempt)]"]
      lifecycle_ok_snoc [of True "[(1, other_started)]" "(1, other_result)"]
    by (auto simp: run_lines_ok_def simp del: One_nat_def)
qed

text \<open>
  Two session files of one run, read in one order, record no error; read in the other order,
  they do.
\<close>

theorem file_order_decides_validity:
  "clean (feed_files crossing_host crossing_options True [file_a, file_b] new_validator) \<and>
   \<not> clean (feed_files crossing_host crossing_options True [file_b, file_a] new_validator)"
  by (simp add: feed_files_iff crossing_ab crossing_ba)

end
