(* ===== verification/Projector.thy ===== *)
theory Projector
  imports Validator_Report
begin

text \<open>
  The projector of the read model (\<open>read-model/src/projector.ts\<close> and the types of
  \<open>read-model/src/model.ts\<close>): from the accepted events of one valid run to its sessions, its test
  executions with their attempts and steps, its scope failures and its attachments.

  The bookkeeping of \<open>projectRun\<close> is a record threaded through the events.  A step object is shared
  between the list \<open>steps\<close> and the map \<open>stepsById\<close>; the model keeps the list and makes the map
  point into it by position.
\<close>

section \<open>Projected values\<close>

record validator_facts =
  vf_complete :: bool
  vf_closed :: bool
  vf_verdict :: verdict
  vf_ignoredEvents :: nat
  vf_duplicateEvents :: nat

record attachment_reference =
  ref_sessionId :: jstring
  ref_attemptId :: jstring
  ref_stepId :: "jstring option"
  ref_name :: jstring
  ref_mediaType :: jstring
  ref_sizeBytes :: int
  ref_sha256 :: jstring

record scope_failure =
  scf_sessionId :: jstring
  scf_occurredAt :: jstring
  scf_path :: "path_segment list"
  scf_displayName :: "jstring option"
  scf_rawStatus :: "jstring option"
  scf_location :: "location option"
  scf_failures :: "failure list"

record projected_session =
  ps_sessionId :: jstring
  ps_startedAt :: jstring
  ps_producer :: component
  ps_runner :: "component option"
  ps_environment :: "string_map option"
  ps_executor :: "executor_info option"
  ps_source :: "source_info option"
  ps_labels :: "string_map option"
  ps_finished :: bool
  ps_finishedAt :: "jstring option"
  ps_status :: "session_status option"
  ps_rawStatus :: "jstring option"
  ps_failures :: "failure list"
  ps_executionIds :: "jstring list"

record projected_step =
  psp_stepId :: jstring
  psp_parentStepId :: "jstring option"
  psp_name :: jstring
  psp_kind :: "jstring option"
  psp_location :: "location option"
  psp_startedAt :: jstring
  psp_finished :: bool
  psp_finishedAt :: "jstring option"
  psp_status :: "status option"
  psp_rawStatus :: "jstring option"
  psp_durationMs :: "int option"
  psp_failures :: "failure list"

record projected_attempt =
  pa_attemptId :: jstring
  pa_attemptNumber :: int
  pa_sessionId :: jstring
  pa_startedAt :: jstring
  pa_test :: test_case
  pa_finished :: bool
  pa_finishedAt :: "jstring option"
  pa_status :: "status option"
  pa_rawStatus :: "jstring option"
  pa_expectedStatus :: "expected_status option"
  pa_durationMs :: "int option"
  pa_failures :: "failure list"
  pa_steps :: "projected_step list"
  pa_attachments :: "attachment_reference list"

record test_execution =
  te_executionId :: jstring
  te_runnerName :: "jstring option"
  te_test :: test_case
  te_attempts :: "projected_attempt list"
  te_finalAttempt :: projected_attempt
  te_complete :: bool
  te_finalStatus :: "status option"
  te_flaky :: bool

record projected_run =
  run_projectId :: jstring
  run_runId :: jstring
  run_directory :: jstring
  run_validator :: validator_facts
  run_sessions :: "projected_session list"
  run_executions :: "test_execution list"
  run_scopeFailures :: "scope_failure list"
  run_attachments :: "attachment_reference list"

datatype ambiguity_detail =
    Duplicate_Attempt_Number
  | Historical_Identity_Changed
  | Execution_Runner_Changed

text \<open>What \<open>projectRun\<close> throws: a plain \<open>Error\<close> or an \<open>AmbiguousRunError\<close>.\<close>

datatype project_error =
    Plain_Error jstring
  | Ambiguous_Run (amb_detail: ambiguity_detail) (amb_executionId: jstring) (amb_message: jstring)

section \<open>Bookkeeping\<close>

record session_entry =
  se_event :: event
  se_started :: session_started_payload
  se_finished :: "(event \<times> session_finished_payload) option"
  se_executionIds :: "jstring list"

record step_entry =
  sn_event :: event
  sn_started :: step_started_payload
  sn_finished :: "(event \<times> step_finished_payload) option"

record attempt_entry =
  an_event :: event
  an_started :: attempt_started_payload
  an_finished :: "(event \<times> attempt_finished_payload) option"
  an_steps :: "step_entry list"
  an_stepsById :: "(jstring, nat) jmap"
  an_attachments :: "attachment_reference list"

record emitted_entry =
  em_sessionId :: jstring
  em_sequence :: int
  em_reference :: attachment_reference

record projection =
  pj_sessions :: "(jstring, session_entry) jmap"
  pj_attempts :: "(jstring, attempt_entry) jmap"
  pj_scopeFailures :: "scope_failure list"
  pj_emitted :: "emitted_entry list"
  pj_runId :: "jstring option"

definition new_projection :: projection where
  "new_projection = \<lparr>pj_sessions = [], pj_attempts = [], pj_scopeFailures = [], pj_emitted = [],
     pj_runId = None\<rparr>"

text \<open>A JavaScript \<open>Set\<close>: \<open>add\<close> keeps the place of a value that is there.\<close>

definition set_add :: "'a \<Rightarrow> 'a list \<Rightarrow> 'a list" where
  "set_add x s = (if List.member s x then s else s @ [x])"

definition set_of :: "'a list \<Rightarrow> 'a list" where
  "set_of xs = fold set_add xs []"

text \<open>Mutation of an entry that a map may hold: \<open>const a = m.get(k); if (a) ...\<close>.\<close>

definition jmodify :: "'k \<Rightarrow> ('v \<Rightarrow> 'v) \<Rightarrow> ('k, 'v) jmap \<Rightarrow> ('k, 'v) jmap" where
  "jmodify k f m = (case jget m k of None \<Rightarrow> m | Some v \<Rightarrow> jset k (f v) m)"

definition reference :: "event \<Rightarrow> attachment_added_payload \<Rightarrow> attachment_reference" where
  "reference e p = \<lparr>ref_sessionId = sessionId e, ref_attemptId = aa_attemptId p, ref_stepId = aa_stepId p,
     ref_name = aa_name p, ref_mediaType = aa_mediaType p, ref_sizeBytes = aa_sizeBytes p,
     ref_sha256 = aa_sha256 p\<rparr>"

definition scopeFailure :: "event \<Rightarrow> scope_failed_payload \<Rightarrow> scope_failure" where
  "scopeFailure e p = \<lparr>scf_sessionId = sessionId e, scf_occurredAt = occurredAt e, scf_path = sc_path p,
     scf_displayName = sc_displayName p, scf_rawStatus = sc_rawStatus p, scf_location = sc_location p,
     scf_failures = sc_failures p\<rparr>"

definition start_step :: "event \<Rightarrow> step_started_payload \<Rightarrow> attempt_entry \<Rightarrow> attempt_entry" where
  "start_step e p a =
     a\<lparr>an_steps := an_steps a @ [\<lparr>sn_event = e, sn_started = p, sn_finished = None\<rparr>],
       an_stepsById := jset (st_stepId p) (length (an_steps a)) (an_stepsById a)\<rparr>"

definition finish_step :: "event \<Rightarrow> step_finished_payload \<Rightarrow> attempt_entry \<Rightarrow> attempt_entry" where
  "finish_step e p a =
     (case jget (an_stepsById a) (sp_stepId p) of
        None \<Rightarrow> a
      | Some i \<Rightarrow> a\<lparr>an_steps := (an_steps a)[i := (an_steps a ! i)\<lparr>sn_finished := Some (e, p)\<rparr>]\<rparr>)"

fun project_payload :: "event \<Rightarrow> event_payload \<Rightarrow> projection \<Rightarrow> projection" where
  "project_payload e (SessionStarted p) s =
     s\<lparr>pj_sessions := jset (sessionId e)
         \<lparr>se_event = e, se_started = p, se_finished = None, se_executionIds = []\<rparr> (pj_sessions s)\<rparr>"
| "project_payload e (SessionFinished p) s =
     s\<lparr>pj_sessions := jmodify (sessionId e) (\<lambda>x. x\<lparr>se_finished := Some (e, p)\<rparr>) (pj_sessions s)\<rparr>"
| "project_payload e RunFinished s = s"
| "project_payload e (AttemptStarted p) s =
     s\<lparr>pj_attempts := jset (as_attemptId p)
         \<lparr>an_event = e, an_started = p, an_finished = None, an_steps = [], an_stepsById = [],
          an_attachments = []\<rparr> (pj_attempts s),
       pj_sessions := jmodify (sessionId e)
         (\<lambda>x. x\<lparr>se_executionIds := set_add (executionId (as_test p)) (se_executionIds x)\<rparr>) (pj_sessions s)\<rparr>"
| "project_payload e (AttemptFinished p) s =
     s\<lparr>pj_attempts := jmodify (af_attemptId p) (\<lambda>a. a\<lparr>an_finished := Some (e, p)\<rparr>) (pj_attempts s)\<rparr>"
| "project_payload e (StepStarted p) s =
     s\<lparr>pj_attempts := jmodify (st_attemptId p) (start_step e p) (pj_attempts s)\<rparr>"
| "project_payload e (StepFinished p) s =
     s\<lparr>pj_attempts := jmodify (sp_attemptId p) (finish_step e p) (pj_attempts s)\<rparr>"
| "project_payload e (AttachmentAdded p) s =
     s\<lparr>pj_attempts := jmodify (aa_attemptId p)
         (\<lambda>a. a\<lparr>an_attachments := an_attachments a @ [reference e p]\<rparr>) (pj_attempts s),
       pj_emitted := pj_emitted s @ [\<lparr>em_sessionId = sessionId e, em_sequence = sequence e,
         em_reference = reference e p\<rparr>]\<rparr>"
| "project_payload e (ScopeFailed p) s =
     s\<lparr>pj_scopeFailures := pj_scopeFailures s @ [scopeFailure e p]\<rparr>"
| "project_payload e (UnknownPayload t q) s = s"

text \<open>\<open>runId ??= event.runId\<close>, then the switch.\<close>

definition project_event :: "event \<Rightarrow> projection \<Rightarrow> projection" where
  "project_event e s =
     project_payload e (payload e)
       (s\<lparr>pj_runId := (case pj_runId s of None \<Rightarrow> Some (runId e) | Some r \<Rightarrow> Some r)\<rparr>)"

definition ordered :: "event list \<Rightarrow> event list" where
  "ordered events = sort_key (\<lambda>e. (sessionId e, sequence e)) events"

section \<open>Views\<close>

definition opt_failures :: "failure list option option \<Rightarrow> failure list" where
  "opt_failures f = (case f of Some (Some fs) \<Rightarrow> fs | _ \<Rightarrow> [])"

definition project_session :: "session_entry \<Rightarrow> projected_session" where
  "project_session s =
     (let p = se_started s; f = map_option snd (se_finished s) in
      \<lparr>ps_sessionId = sessionId (se_event s), ps_startedAt = occurredAt (se_event s),
       ps_producer = ss_producer p, ps_runner = ss_runner p, ps_environment = ss_environment p,
       ps_executor = ss_executor p, ps_source = ss_source p, ps_labels = ss_labels p,
       ps_finished = (se_finished s \<noteq> None),
       ps_finishedAt = map_option (\<lambda>x. occurredAt (fst x)) (se_finished s),
       ps_status = Option.bind f sf_status, ps_rawStatus = Option.bind f sf_rawStatus,
       ps_failures = opt_failures (map_option sf_failures f),
       ps_executionIds = sort (se_executionIds s)\<rparr>)"

definition project_step :: "step_entry \<Rightarrow> projected_step" where
  "project_step s =
     (let p = sn_started s; f = map_option snd (sn_finished s) in
      \<lparr>psp_stepId = st_stepId p, psp_parentStepId = st_parentStepId p, psp_name = st_name p,
       psp_kind = st_kind p, psp_location = st_location p, psp_startedAt = occurredAt (sn_event s),
       psp_finished = (sn_finished s \<noteq> None),
       psp_finishedAt = map_option (\<lambda>x. occurredAt (fst x)) (sn_finished s),
       psp_status = map_option sp_status f, psp_rawStatus = Option.bind f sp_rawStatus,
       psp_durationMs = Option.bind f sp_durationMs,
       psp_failures = opt_failures (map_option sp_failures f)\<rparr>)"

definition project_attempt :: "attempt_entry \<Rightarrow> projected_attempt" where
  "project_attempt a =
     (let p = an_started a; f = map_option snd (an_finished a) in
      \<lparr>pa_attemptId = as_attemptId p, pa_attemptNumber = as_attemptNumber p,
       pa_sessionId = sessionId (an_event a), pa_startedAt = occurredAt (an_event a), pa_test = as_test p,
       pa_finished = (an_finished a \<noteq> None),
       pa_finishedAt = map_option (\<lambda>x. occurredAt (fst x)) (an_finished a),
       pa_status = map_option af_status f, pa_rawStatus = Option.bind f af_rawStatus,
       pa_expectedStatus = Option.bind f af_expectedStatus,
       pa_durationMs = Option.bind f af_durationMs,
       pa_failures = opt_failures (map_option af_failures f),
       pa_steps = map project_step (an_steps a), pa_attachments = an_attachments a\<rparr>)"

definition expected :: "projected_attempt \<Rightarrow> expected_status" where
  "expected a = (case pa_expectedStatus a of None \<Rightarrow> ExpectPassed | Some x \<Rightarrow> x)"

section \<open>Flakiness\<close>

fun latest :: "projected_attempt \<Rightarrow> projected_attempt list \<Rightarrow> projected_attempt" where
  "latest f [] = f"
| "latest f (a # rest) = latest (if pa_attemptNumber a > pa_attemptNumber f then a else f) rest"

text \<open>
  The source excludes the final attempt by object identity.  A final attempt that has passed has
  not failed, so leaving out every attempt equal to it leaves out the same candidates.
\<close>

definition isFlaky :: "projected_attempt list \<Rightarrow> bool" where
  "isFlaky list =
     (case list of
        a # b # rest \<Rightarrow>
          let finalAttempt = latest a (b # rest) in
          pa_finished finalAttempt \<and>
          pa_status finalAttempt = Some Passed \<and> expected finalAttempt = ExpectPassed \<and>
          list_ex (\<lambda>x. x \<noteq> finalAttempt \<and> pa_finished x \<and> pa_status x = Some Failed \<and>
            expected x = ExpectPassed) list
      | _ \<Rightarrow> False)"

section \<open>Executions\<close>

text \<open>The loop over neighbours in attempt-number order: the first pair with one number.\<close>

fun same_number :: "projected_attempt list \<Rightarrow> (projected_attempt \<times> projected_attempt) option" where
  "same_number (a # b # rest) =
     (if pa_attemptNumber a = pa_attemptNumber b then Some (a, b) else same_number (b # rest))"
| "same_number _ = None"

definition other_identity :: "projected_attempt \<Rightarrow> projected_attempt \<Rightarrow> bool" where
  "other_identity first a \<longleftrightarrow>
     historicalId (pa_test a) \<noteq> historicalId (pa_test first) \<or>
     historicalIdStability (pa_test a) \<noteq> historicalIdStability (pa_test first)"

definition declared_runner :: "(jstring, session_entry) jmap \<Rightarrow> projected_attempt \<Rightarrow> jstring option" where
  "declared_runner ses a =
     Option.bind (jget ses (pa_sessionId a)) (\<lambda>s. map_option comp_name (ss_runner (se_started s)))"

definition group_attempts :: "attempt_entry list \<Rightarrow> (jstring, attempt_entry list) jmap" where
  "group_attempts as = fold (\<lambda>a groups.
     let k = executionId (as_test (an_started a));
         known = (case jget groups k of None \<Rightarrow> [] | Some l \<Rightarrow> l)
     in jset k (known @ [a]) groups) as []"

definition project_execution ::
    "(jstring, session_entry) jmap \<Rightarrow> jstring \<times> attempt_entry list \<Rightarrow> project_error + test_execution" where
  "project_execution ses x =
     (case x of (exec, states) \<Rightarrow>
      let attempts = sort_key pa_attemptNumber (map project_attempt states) in
      case same_number attempts of
        Some (previous, current) \<Rightarrow>
          Inl (Ambiguous_Run Duplicate_Attempt_Number exec
            (js ''execution '' @ exec @ js '' has two attempts numbered '' @ show_int (pa_attemptNumber current) @
             js '' ('' @ pa_attemptId previous @ js '', '' @ pa_attemptId current @
             js ''); the final attempt is undefined''))
      | None \<Rightarrow>
          let first = hd attempts in
          case find (other_identity first) attempts of
            Some a \<Rightarrow>
              Inl (Ambiguous_Run Historical_Identity_Changed exec
                (js ''execution '' @ exec @ js '' changes historical identity between attempts '' @
                 pa_attemptId first @ js '' and '' @ pa_attemptId a))
          | None \<Rightarrow>
              let runnerNames = set_of (map (declared_runner ses) attempts) in
              if 1 < length runnerNames
              then Inl (Ambiguous_Run Execution_Runner_Changed exec
                (js ''execution '' @ exec @ js '' spans sessions that declare different runners''))
              else
                let finalAttempt = last attempts in
                Inr \<lparr>te_executionId = exec, te_runnerName = hd runnerNames, te_test = pa_test first,
                  te_attempts = attempts, te_finalAttempt = finalAttempt,
                  te_complete = list_all pa_finished attempts, te_finalStatus = pa_status finalAttempt,
                  te_flaky = isFlaky attempts\<rparr>)"

definition groupExecutions ::
    "(jstring, attempt_entry) jmap \<Rightarrow> (jstring, session_entry) jmap \<Rightarrow> project_error + test_execution list" where
  "groupExecutions atts ses =
     map_r (\<lambda>_. project_execution ses) 0 (sort_key fst (group_attempts (map snd atts)))"

section \<open>The run\<close>

definition projectRun :: "jstring \<Rightarrow> jstring \<Rightarrow> validated_run \<Rightarrow> project_error + projected_run" where
  "projectRun projectId dir snapshot =
     (if \<not> rep_valid (vr_report snapshot)
      then Inl (Plain_Error (js ''only a valid run can be projected''))
      else
        let s = fold project_event (ordered (vr_events snapshot)) new_projection;
            sum = rep_summary (vr_report snapshot)
        in case pj_runId s of
             None \<Rightarrow> Inl (Plain_Error (js ''a valid run carries at least one event''))
           | Some rid \<Rightarrow>
               bind_r (groupExecutions (pj_attempts s) (pj_sessions s)) (\<lambda>executions.
               Inr \<lparr>run_projectId = projectId, run_runId = rid, run_directory = dir,
                 run_validator = \<lparr>vf_complete = sum_complete sum, vf_closed = sum_closed sum,
                   vf_verdict = sum_verdict sum, vf_ignoredEvents = sum_ignored sum,
                   vf_duplicateEvents = sum_duplicates sum\<rparr>,
                 run_sessions = sort_key ps_sessionId (map (\<lambda>x. project_session (snd x)) (pj_sessions s)),
                 run_executions = executions, run_scopeFailures = pj_scopeFailures s,
                 run_attachments = map em_reference
                   (sort_key (\<lambda>x. (em_sessionId x, em_sequence x)) (pj_emitted s))\<rparr>))"

end
