(* ===== verification/Projector_Replay.thy ===== *)
theory Projector_Replay
  imports Projector Lifecycle
begin

text \<open>
  What the projector's bookkeeping holds after a list of events, one key at a time: the entry of
  an attempt and the entry of a session are each a replay of the events on that key alone.
\<close>

section \<open>Sets and entries\<close>

lemma set_set_add [simp]: "set (set_add x s) = insert x (set s)"
  by (auto simp: set_add_def)

lemma distinct_set_add: "distinct s \<Longrightarrow> distinct (set_add x s)"
  by (simp add: set_add_def)

lemma set_fold_add: "set (fold set_add xs s) = set xs \<union> set s"
  by (induction xs arbitrary: s) auto

lemma distinct_fold_add: "distinct s \<Longrightarrow> distinct (fold set_add xs s)"
  by (induction xs arbitrary: s) (auto simp: distinct_set_add)

lemma set_set_of [simp]: "set (set_of xs) = set xs" and distinct_set_of [simp]: "distinct (set_of xs)"
  by (simp_all add: set_of_def set_fold_add distinct_fold_add)

lemma set_of_constant:
  assumes "xs \<noteq> []" and "\<And>x. x \<in> set xs \<Longrightarrow> x = c"
  shows "set_of xs = [c]"
proof -
  have "set (set_of xs) = {c}" using assms by (cases xs) auto
  then have "length (set_of xs) = 1"
    using distinct_card [OF distinct_set_of, of xs] by simp
  then obtain d where "set_of xs = [d]" by (auto simp: length_Suc_conv)
  with \<open>set (set_of xs) = {c}\<close> show ?thesis by simp
qed

lemma jget_jmodify [jmap_simps]:
  "jget (jmodify k f m) k' = (if k' = k then map_option f (jget m k) else jget m k')"
  by (auto simp: jmodify_def jmap_simps split: option.splits)

lemma jkeys_ok_jmodify [jmap_simps]: "jkeys_ok m \<Longrightarrow> jkeys_ok (jmodify k f m)"
  by (auto simp: jmodify_def jmap_simps split: option.splits)

section \<open>One attempt\<close>

definition new_attempt :: "event \<Rightarrow> attempt_started_payload \<Rightarrow> attempt_entry" where
  "new_attempt e p = \<lparr>an_event = e, an_started = p, an_finished = None, an_steps = [], an_stepsById = [],
     an_attachments = []\<rparr>"

definition on_attempt :: "jstring \<Rightarrow> event \<Rightarrow> attempt_entry option \<Rightarrow> attempt_entry option" where
  "on_attempt k e x =
     (case payload e of
        AttemptStarted p \<Rightarrow> if as_attemptId p = k then Some (new_attempt e p) else x
      | AttemptFinished p \<Rightarrow>
          if af_attemptId p = k then map_option (\<lambda>a. a\<lparr>an_finished := Some (e, p)\<rparr>) x else x
      | StepStarted p \<Rightarrow> if st_attemptId p = k then map_option (start_step e p) x else x
      | StepFinished p \<Rightarrow> if sp_attemptId p = k then map_option (finish_step e p) x else x
      | AttachmentAdded p \<Rightarrow>
          if aa_attemptId p = k
          then map_option (\<lambda>a. a\<lparr>an_attachments := an_attachments a @ [reference e p]\<rparr>) x else x
      | _ \<Rightarrow> x)"

lemma attempt_after_event:
  "jget (pj_attempts (project_event e s)) k = on_attempt k e (jget (pj_attempts s) k)"
  by (cases "payload e") (auto simp: project_event_def on_attempt_def new_attempt_def jmap_simps)

lemma attempt_after:
  "jget (pj_attempts (fold project_event xs s)) k = fold (on_attempt k) xs (jget (pj_attempts s) k)"
  by (induction xs arbitrary: s) (simp_all add: attempt_after_event)

lemma attempt_keys_event: "jkeys_ok (pj_attempts s) \<Longrightarrow> jkeys_ok (pj_attempts (project_event e s))"
  by (cases "payload e") (auto simp: project_event_def jmap_simps)

lemma attempt_keys: "jkeys_ok (pj_attempts s) \<Longrightarrow> jkeys_ok (pj_attempts (fold project_event xs s))"
  by (induction xs arbitrary: s) (simp_all add: attempt_keys_event)

lemma start_step_same [simp]:
  "an_event (start_step e p a) = an_event a" "an_started (start_step e p a) = an_started a"
  "an_finished (start_step e p a) = an_finished a" "an_attachments (start_step e p a) = an_attachments a"
  by (simp_all add: start_step_def)

lemma finish_step_same [simp]:
  "an_event (finish_step e p a) = an_event a" "an_started (finish_step e p a) = an_started a"
  "an_finished (finish_step e p a) = an_finished a" "an_attachments (finish_step e p a) = an_attachments a"
  by (simp_all add: finish_step_def split: option.splits)

text \<open>The entry an attempt has comes from its start event.\<close>

definition attempt_entry_ok :: "event list \<Rightarrow> jstring \<Rightarrow> attempt_entry option \<Rightarrow> bool" where
  "attempt_entry_ok xs k x \<longleftrightarrow>
     (x \<noteq> None \<longleftrightarrow> attempt_started xs k) \<and>
     (\<forall>a. x = Some a \<longrightarrow> an_event a \<in> set xs \<and> payload (an_event a) = AttemptStarted (an_started a) \<and>
        as_attemptId (an_started a) = k)"

lemma attempt_entry_ok_event:
  assumes "attempt_entry_ok xs k x"
  shows "attempt_entry_ok (xs @ [e]) k (on_attempt k e x)"
  using assms by (cases "payload e") (auto simp: attempt_entry_ok_def on_attempt_def event_simps new_attempt_def)

lemma attempt_entry_replay: "attempt_entry_ok xs k (fold (on_attempt k) xs None)"
proof (induction xs rule: rev_induct)
  case (snoc e xs)
  then show ?case using attempt_entry_ok_event by simp
qed (simp add: attempt_entry_ok_def)

section \<open>One session\<close>

definition on_session :: "jstring \<Rightarrow> event \<Rightarrow> session_entry option \<Rightarrow> session_entry option" where
  "on_session k e x =
     (if sessionId e = k then
        case payload e of
          SessionStarted p \<Rightarrow>
            Some \<lparr>se_event = e, se_started = p, se_finished = None, se_executionIds = []\<rparr>
        | SessionFinished p \<Rightarrow> map_option (\<lambda>s. s\<lparr>se_finished := Some (e, p)\<rparr>) x
        | AttemptStarted p \<Rightarrow>
            map_option (\<lambda>s. s\<lparr>se_executionIds := set_add (executionId (as_test p)) (se_executionIds s)\<rparr>) x
        | _ \<Rightarrow> x
      else x)"

lemma session_after_event:
  "jget (pj_sessions (project_event e s)) k = on_session k e (jget (pj_sessions s) k)"
  by (cases "payload e") (auto simp: project_event_def on_session_def jmap_simps)

lemma session_after:
  "jget (pj_sessions (fold project_event xs s)) k = fold (on_session k) xs (jget (pj_sessions s) k)"
  by (induction xs arbitrary: s) (simp_all add: session_after_event)

lemma session_keys_event: "jkeys_ok (pj_sessions s) \<Longrightarrow> jkeys_ok (pj_sessions (project_event e s))"
  by (cases "payload e") (auto simp: project_event_def jmap_simps)

lemma session_keys: "jkeys_ok (pj_sessions s) \<Longrightarrow> jkeys_ok (pj_sessions (fold project_event xs s))"
  by (induction xs arbitrary: s) (simp_all add: session_keys_event)

definition session_begun :: "event list \<Rightarrow> jstring \<Rightarrow> bool" where
  "session_begun xs k \<longleftrightarrow> (\<exists>e \<in> set xs. sessionId e = k \<and> starts_session (payload e))"

definition session_entry_ok :: "event list \<Rightarrow> jstring \<Rightarrow> session_entry option \<Rightarrow> bool" where
  "session_entry_ok xs k x \<longleftrightarrow>
     (x \<noteq> None \<longleftrightarrow> session_begun xs k) \<and>
     (\<forall>s. x = Some s \<longrightarrow> se_event s \<in> set xs \<and> sessionId (se_event s) = k \<and>
        payload (se_event s) = SessionStarted (se_started s))"

lemma session_entry_ok_event:
  assumes "session_entry_ok xs k x"
  shows "session_entry_ok (xs @ [e]) k (on_session k e x)"
  using assms by (cases "payload e") (auto simp: session_entry_ok_def on_session_def session_begun_def)

lemma session_entry_replay: "session_entry_ok xs k (fold (on_session k) xs None)"
proof (induction xs rule: rev_induct)
  case (snoc e xs)
  then show ?case using session_entry_ok_event by simp
qed (simp add: session_entry_ok_def session_begun_def)

section \<open>The whole bookkeeping\<close>

definition projected :: "event list \<Rightarrow> projection" where
  "projected es = fold project_event (ordered es) new_projection"

lemma set_ordered [simp]: "set (ordered es) = set es"
  by (simp add: ordered_def)

lemma ordered_Nil_iff [simp]: "ordered es = [] \<longleftrightarrow> es = []"
  by (metis set_ordered set_empty)

lemma run_id_after:
  "pj_runId (fold project_event xs s) =
     (case pj_runId s of None \<Rightarrow> (case xs of [] \<Rightarrow> None | e # _ \<Rightarrow> Some (runId e)) | Some r \<Rightarrow> Some r)"
proof (induction xs arbitrary: s)
  case (Cons e xs)
  have "pj_runId (project_payload e p s) = pj_runId s" for p s
    by (cases p) simp_all
  then have "pj_runId (project_event e s) = (case pj_runId s of None \<Rightarrow> Some (runId e) | Some r \<Rightarrow> Some r)"
    by (simp add: project_event_def)
  with Cons show ?case by (simp split: option.splits)
qed (simp split: option.splits)

lemma happened_set:
  assumes "set xs = set ys"
  shows "attempt_started xs = attempt_started ys" "attempt_ended xs = attempt_ended ys"
    "session_begun xs = session_begun ys" "step_started xs = step_started ys" "step_ended xs = step_ended ys"
    "session_ended xs = session_ended ys"
  using assms by (simp_all add: happened_defs session_begun_def fun_eq_iff)

lemma projected_attempt:
  assumes "jget (pj_attempts (projected es)) k = Some a"
  shows "an_event a \<in> set es" and "payload (an_event a) = AttemptStarted (an_started a)"
    and "as_attemptId (an_started a) = k"
proof -
  have "attempt_entry_ok (ordered es) k (jget (pj_attempts (projected es)) k)"
    using attempt_entry_replay by (simp add: projected_def attempt_after new_projection_def)
  with assms show "an_event a \<in> set es" "payload (an_event a) = AttemptStarted (an_started a)"
    "as_attemptId (an_started a) = k"
    by (simp_all add: attempt_entry_ok_def)
qed

lemma projected_attempt_iff: "jget (pj_attempts (projected es)) k \<noteq> None \<longleftrightarrow> attempt_started es k"
  using attempt_entry_replay [of "ordered es" k] happened_set(1) [OF set_ordered]
  by (simp add: projected_def attempt_after new_projection_def attempt_entry_ok_def)

lemma projected_session:
  assumes "jget (pj_sessions (projected es)) k = Some s"
  shows "se_event s \<in> set es" and "payload (se_event s) = SessionStarted (se_started s)"
    and "sessionId (se_event s) = k"
proof -
  have "session_entry_ok (ordered es) k (jget (pj_sessions (projected es)) k)"
    using session_entry_replay by (simp add: projected_def session_after new_projection_def)
  with assms show "se_event s \<in> set es" "payload (se_event s) = SessionStarted (se_started s)"
    "sessionId (se_event s) = k"
    by (simp_all add: session_entry_ok_def)
qed

lemma projected_session_iff: "jget (pj_sessions (projected es)) k \<noteq> None \<longleftrightarrow> session_begun es k"
  using session_entry_replay [of "ordered es" k] happened_set(3) [OF set_ordered]
  by (simp add: projected_def session_after new_projection_def session_entry_ok_def)

lemma projected_keys:
  "jkeys_ok (pj_attempts (projected es))" "jkeys_ok (pj_sessions (projected es))"
  by (simp_all add: projected_def attempt_keys session_keys new_projection_def)

text \<open>The entries in the map, with distinct start events.\<close>

lemma projected_entry:
  assumes "(k, a) \<in> set (pj_attempts (projected es))"
  shows "jget (pj_attempts (projected es)) k = Some a"
  using assms projected_keys(1) by (simp add: jkeys_ok_def)

lemma projected_events_distinct: "distinct (map (\<lambda>x. an_event (snd x)) (pj_attempts (projected es)))"
proof -
  let ?id = "\<lambda>e. case payload e of AttemptStarted p \<Rightarrow> as_attemptId p | _ \<Rightarrow> []"
  have eq: "map fst (pj_attempts (projected es)) = map ?id (map (\<lambda>x. an_event (snd x)) (pj_attempts (projected es)))"
    using projected_attempt [OF projected_entry] by fastforce
  have "distinct (map ?id (map (\<lambda>x. an_event (snd x)) (pj_attempts (projected es))))"
    unfolding eq [symmetric] using projected_keys(1) [of es] by (simp add: jkeys_ok_def)
  then show ?thesis by (rule distinct_map [THEN iffD1, THEN conjunct1])
qed

end
