(* ===== verification/Projector_Valid.thy ===== *)
theory Projector_Valid
  imports Projector_Replay Validator_Properties
begin

text \<open>
  The projection of a run that obeys the lifecycle rules: the defensive checks of
  \<open>groupExecutions\<close> never fire, and each execution holds exactly its attempts.
\<close>

section \<open>Two attempts of one execution\<close>

lemma lifecycle_at:
  assumes "lifecycle_ok single h" and "i < length h"
  shows "place_ok (map snd (take i h)) (snd (h ! i))" and "payload_ok (map snd (take i h)) (snd (h ! i))"
  using assms by (auto simp: lifecycle_ok_def rule_ok_def case_prod_beta)

lemma session_runner_later:
  assumes "of_session es sid \<noteq> []"
  shows "session_runner (es @ ds) sid = session_runner es sid"
  using assms by (auto simp: session_runner_def of_session_def split: list.splits)

lemma session_runner_take:
  assumes "j < length h" and "of_session (map snd (take j h)) sid \<noteq> []"
  shows "session_runner (map snd (take j h)) sid = session_runner (map snd h) sid"
  using session_runner_later [OF assms(2), of "map snd (drop j h)"]
  by (metis append_take_drop_id map_append)

text \<open>Neither order of the two events matters: the rule is symmetric.\<close>

definition one_meaning :: "event list \<Rightarrow> event \<Rightarrow> event \<Rightarrow> bool" where
  "one_meaning es d e \<longleftrightarrow>
     (case (attempt_start (payload d), attempt_start (payload e)) of
        (Some q, Some p) \<Rightarrow>
          executionId (as_test q) = executionId (as_test p) \<longrightarrow>
            as_attemptNumber q \<noteq> as_attemptNumber p \<and>
            historicalId (as_test q) = historicalId (as_test p) \<and>
            historicalIdStability (as_test q) = historicalIdStability (as_test p) \<and>
            session_runner es (sessionId d) = session_runner es (sessionId e)
      | _ \<Rightarrow> True)"

lemma one_meaning_sym: "one_meaning es d e \<Longrightarrow> one_meaning es e d"
  by (auto simp: one_meaning_def split: option.splits)

lemma of_session_take:
  assumes "i < j" and "j < length h"
  shows "of_session (map snd (take j h)) (sessionId (snd (h ! i))) \<noteq> []"
proof -
  have "snd (h ! i) \<in> set (map snd (take j h))"
    using assms by (force simp: in_set_conv_nth)
  then show ?thesis by (rule of_session_member)
qed

lemma lifecycle_pair:
  assumes ok: "lifecycle_ok single h" and "i < j" and j: "j < length h"
  shows "one_meaning (map snd h) (snd (h ! i)) (snd (h ! j))"
proof (cases "attempt_start (payload (snd (h ! j)))")
  case (Some p)
  then have p: "payload (snd (h ! j)) = AttemptStarted p" by (auto elim: attempt_start.elims)
  let ?past = "map snd (take j h)"
  have mem: "snd (h ! i) \<in> set ?past" using assms by (force simp: in_set_conv_nth)
  have "agrees ?past (snd (h ! j)) p (snd (h ! i))"
    using lifecycle_at(2) [OF ok j] mem by (auto simp: payload_ok_def p)
  moreover have "of_session ?past (sessionId (snd (h ! j))) \<noteq> []"
    using lifecycle_at(1) [OF ok j] by (simp add: place_ok_def p)
  note runners = session_runner_take [OF j this] session_runner_take [OF j of_session_take [OF assms(2) j]]
  ultimately show ?thesis
    by (auto simp: agrees_def one_meaning_def Some runners split: option.splits)
qed (simp add: one_meaning_def split: option.splits)

lemma lifecycle_one_meaning:
  assumes ok: "lifecycle_ok single h" and mem: "d \<in> set (map snd h)" "e \<in> set (map snd h)" and "d \<noteq> e"
  shows "one_meaning (map snd h) d e"
proof -
  from mem obtain i j where i: "i < length h" "d = snd (h ! i)" and j: "j < length h" "e = snd (h ! j)"
    by (force simp: in_set_conv_nth)
  with \<open>d \<noteq> e\<close> have "i < j \<or> j < i" by (metis nat_neq_iff)
  with lifecycle_pair [OF ok] i j one_meaning_sym show ?thesis by blast
qed

section \<open>One start per session\<close>

lemma lifecycle_first_starts:
  assumes "lifecycle_ok single h"
  shows "case of_session (map snd h) sid of [] \<Rightarrow> True
    | e # es \<Rightarrow> starts_session (payload e) \<and> (\<forall>d \<in> set es. \<not> starts_session (payload d))"
  using assms
proof (induction h rule: rev_induct)
  case (snoc x h)
  have ok: "lifecycle_ok single h" and "place_ok (map snd h) (snd x)"
    using snoc.prems by (auto simp: lifecycle_ok_snoc rule_ok_def split: prod.splits)
  with snoc.IH [OF ok] show ?case
    by (auto simp: place_ok_def event_simps split: list.splits if_splits)
qed simp

lemma session_start_unique:
  assumes "lifecycle_ok single h" and "d \<in> set (map snd h)" and "payload d = SessionStarted p"
  shows "session_runner (map snd h) (sessionId d) = map_option comp_name (ss_runner p)"
    and "e \<in> set (map snd h) \<Longrightarrow> sessionId e = sessionId d \<Longrightarrow> starts_session (payload e) \<Longrightarrow> e = d"
proof -
  have mem: "d \<in> set (of_session (map snd h) (sessionId d))"
    using assms(2) by (simp add: of_session_def)
  then obtain c cs where c: "of_session (map snd h) (sessionId d) = c # cs"
    by (cases "of_session (map snd h) (sessionId d)") auto
  from lifecycle_first_starts [OF assms(1), of "sessionId d"]
  have later: "\<forall>b \<in> set cs. \<not> starts_session (payload b)" by (simp add: c)
  with mem assms(3) have d: "d = c" by (auto simp: c)
  show "session_runner (map snd h) (sessionId d) = map_option comp_name (ss_runner p)"
    using assms(3) by (simp add: session_runner_def c d [symmetric] runner_of_def)
  assume "e \<in> set (map snd h)" "sessionId e = sessionId d" "starts_session (payload e)"
  then have "e \<in> set (c # cs)" unfolding c [symmetric] by (simp add: of_session_def)
  with later d \<open>starts_session (payload e)\<close> show "e = d" by auto
qed

lemma attempt_session_begun:
  assumes "lifecycle_ok single h" and "e \<in> set (map snd h)"
  shows "session_begun (map snd h) (sessionId e)"
proof -
  from assms(2) have "of_session (map snd h) (sessionId e) \<noteq> []" by (rule of_session_member)
  then obtain c cs where c: "of_session (map snd h) (sessionId e) = c # cs" by (cases "of_session (map snd h) (sessionId e)") auto
  from lifecycle_first_starts [OF assms(1), of "sessionId e"] have "starts_session (payload c)" by (simp add: c)
  moreover have "c \<in> set (map snd h)" "sessionId c = sessionId e"
    using list.set_intros(1) [of c cs] unfolding c [symmetric] of_session_def by auto
  ultimately show ?thesis by (auto simp: session_begun_def)
qed

section \<open>Groups\<close>

lemma group_attempts_snoc:
  "group_attempts (as @ [a]) =
     (let k = executionId (as_test (an_started a));
          known = (case jget (group_attempts as) k of None \<Rightarrow> [] | Some l \<Rightarrow> l)
      in jset k (known @ [a]) (group_attempts as))"
  by (simp add: group_attempts_def)

lemma group_attempts_get:
  "jkeys_ok (group_attempts as) \<and>
   jget (group_attempts as) k =
     (case filter (\<lambda>a. executionId (as_test (an_started a)) = k) as of [] \<Rightarrow> None | l \<Rightarrow> Some l)"
proof (induction as arbitrary: k rule: rev_induct)
  case (snoc a as)
  then show ?case
    by (auto simp: group_attempts_snoc Let_def jmap_simps split: list.splits option.splits)
qed (simp add: group_attempts_def)

lemma group_attempts_entry:
  assumes "(k, l) \<in> set (group_attempts as)"
  shows "l = filter (\<lambda>a. executionId (as_test (an_started a)) = k) as" and "l \<noteq> []"
proof -
  have "jget (group_attempts as) k = Some l"
    using assms group_attempts_get [of as k] by (metis jkeys_ok_def map_of_is_SomeI)
  then show "l = filter (\<lambda>a. executionId (as_test (an_started a)) = k) as" "l \<noteq> []"
    using group_attempts_get [of as k] by (auto split: list.splits)
qed

section \<open>No ambiguity\<close>

lemma same_number_None: "same_number as = None \<longleftrightarrow> successively (\<lambda>a b. pa_attemptNumber a \<noteq> pa_attemptNumber b) as"
  by (induction as rule: same_number.induct) auto

lemma same_number_distinct: "distinct (map pa_attemptNumber as) \<Longrightarrow> same_number as = None"
  by (induction as rule: same_number.induct) auto

lemma project_attempt_sel [simp]:
  "pa_attemptNumber (project_attempt a) = as_attemptNumber (an_started a)"
  "pa_attemptId (project_attempt a) = as_attemptId (an_started a)"
  "pa_test (project_attempt a) = as_test (an_started a)"
  "pa_sessionId (project_attempt a) = sessionId (an_event a)"
  "pa_finished (project_attempt a) \<longleftrightarrow> an_finished a \<noteq> None"
  by (simp_all add: project_attempt_def Let_def)

text \<open>What a group has to satisfy to become an execution, and the execution it becomes.\<close>

definition consistent_group ::
    "(jstring, session_entry) jmap \<Rightarrow> attempt_entry list \<Rightarrow> bool" where
  "consistent_group ses l \<longleftrightarrow>
     distinct (map (\<lambda>a. as_attemptNumber (an_started a)) l) \<and>
     (\<forall>a \<in> set l. \<forall>b \<in> set l.
        historicalId (as_test (an_started a)) = historicalId (as_test (an_started b)) \<and>
        historicalIdStability (as_test (an_started a)) = historicalIdStability (as_test (an_started b)) \<and>
        declared_runner ses (project_attempt a) = declared_runner ses (project_attempt b))"

definition group_attempts_sorted :: "attempt_entry list \<Rightarrow> projected_attempt list" where
  "group_attempts_sorted l = sort_key pa_attemptNumber (map project_attempt l)"

definition execution_of ::
    "(jstring, session_entry) jmap \<Rightarrow> jstring \<times> attempt_entry list \<Rightarrow> test_execution" where
  "execution_of ses x =
     (let as = group_attempts_sorted (snd x) in
      \<lparr>te_executionId = fst x, te_runnerName = declared_runner ses (hd as), te_test = pa_test (hd as),
       te_attempts = as, te_finalAttempt = last as, te_complete = list_all pa_finished as,
       te_finalStatus = pa_status (last as), te_flaky = isFlaky as\<rparr>)"

lemma set_group_attempts_sorted [simp]: "set (group_attempts_sorted l) = project_attempt ` set l"
  by (simp add: group_attempts_sorted_def)

lemma group_attempts_sorted_Nil [simp]: "group_attempts_sorted l = [] \<longleftrightarrow> l = []"
  by (metis set_group_attempts_sorted set_empty image_is_empty)

lemma consistent_groupD:
  assumes "consistent_group ses l" and "x \<in> project_attempt ` set l" and "y \<in> project_attempt ` set l"
  shows "historicalId (pa_test x) = historicalId (pa_test y)"
    and "historicalIdStability (pa_test x) = historicalIdStability (pa_test y)"
    and "declared_runner ses x = declared_runner ses y"
proof -
  from assms obtain a b where a: "a \<in> set l" "x = project_attempt a" and b: "b \<in> set l" "y = project_attempt b"
    by blast
  show "historicalId (pa_test x) = historicalId (pa_test y)"
    "historicalIdStability (pa_test x) = historicalIdStability (pa_test y)"
    "declared_runner ses x = declared_runner ses y"
    using assms(1) a(1) b(1) unfolding consistent_group_def a(2) b(2) project_attempt_sel by blast+
qed

lemma project_consistent:
  assumes "consistent_group ses l" and "l \<noteq> []"
  shows "project_execution ses (k, l) = Inr (execution_of ses (k, l))"
proof -
  let ?as = "group_attempts_sorted l"
  have ne: "?as \<noteq> []" using assms(2) by simp
  then have hd: "hd ?as \<in> project_attempt ` set l" by (metis hd_in_set set_group_attempts_sorted)
  have "distinct (map pa_attemptNumber ?as)"
    using assms(1) by (simp add: group_attempts_sorted_def consistent_group_def comp_def)
  then have num: "same_number ?as = None" by (rule same_number_distinct)
  have idn: "find (other_identity (hd ?as)) ?as = None"
    unfolding find_None_iff other_identity_def set_group_attempts_sorted
    using consistent_groupD(1,2) [OF assms(1) _ hd] by blast
  have "set_of (map (declared_runner ses) ?as) = [declared_runner ses (hd ?as)]"
  proof (rule set_of_constant)
    fix r assume "r \<in> set (map (declared_runner ses) ?as)"
    then obtain x where "x \<in> project_attempt ` set l" "r = declared_runner ses x" by auto
    with consistent_groupD(3) [OF assms(1) _ hd] show "r = declared_runner ses (hd ?as)" by blast
  qed (use ne in simp)
  note facts = num idn this
  show ?thesis
    unfolding project_execution_def execution_of_def group_attempts_sorted_def [symmetric] Let_def
      prod.case fst_conv snd_conv facts
    by simp
qed

section \<open>The accepted events of a valid history\<close>

lemma attempt_start_iff: "attempt_start p = Some q \<longleftrightarrow> p = AttemptStarted q"
  by (cases p) auto

lemma starts_session_iff: "starts_session p \<longleftrightarrow> (\<exists>q. p = SessionStarted q)"
  by (cases p) auto

lemma known_payload [simp]: "payload e = AttemptStarted p \<Longrightarrow> isKnownEvent e"
  "payload e = SessionStarted q \<Longrightarrow> isKnownEvent e"
  by (simp_all add: isKnownEvent_def eventType_def known_payload_type del: payload_type.simps)

definition accepted_of :: "history \<Rightarrow> event list" where
  "accepted_of h = filter isKnownEvent (map snd h)"

lemma accepted_of_mem: "e \<in> set (accepted_of h) \<Longrightarrow> e \<in> set (map snd h)"
  by (simp add: accepted_of_def)

lemma accepted_of_start:
  "payload e = AttemptStarted p \<Longrightarrow> e \<in> set (accepted_of h) \<longleftrightarrow> e \<in> set (map snd h)"
  by (auto simp: accepted_of_def)

lemma accepted_of_session_begun: "session_begun (accepted_of h) = session_begun (map snd h)"
proof
  fix k
  have "isKnownEvent e" if "starts_session (payload e)" for e
    using that by (auto simp: starts_session_iff)
  then show "session_begun (accepted_of h) k = session_begun (map snd h) k"
    by (auto simp: session_begun_def accepted_of_def)
qed

lemma accepted_of_session:
  assumes "lifecycle_ok single h" and "e \<in> set (map snd h)"
  obtains s where "jget (pj_sessions (projected (accepted_of h))) (sessionId e) = Some s"
    "map_option comp_name (ss_runner (se_started s)) = session_runner (map snd h) (sessionId e)"
proof -
  have "session_begun (accepted_of h) (sessionId e)"
    using attempt_session_begun [OF assms] by (simp add: accepted_of_session_begun)
  then obtain s where s: "jget (pj_sessions (projected (accepted_of h))) (sessionId e) = Some s"
    using projected_session_iff by fastforce
  note p = projected_session [OF s]
  have "session_runner (map snd h) (sessionId (se_event s)) = map_option comp_name (ss_runner (se_started s))"
    using session_start_unique(1) [OF assms(1) accepted_of_mem [OF p(1)] p(2)] .
  with s p(3) that show thesis by simp
qed

lemma accepted_of_runner:
  assumes "lifecycle_ok single h" and "an_event a \<in> set (map snd h)"
  shows "declared_runner (pj_sessions (projected (accepted_of h))) (project_attempt a) =
    session_runner (map snd h) (sessionId (an_event a))"
  by (rule accepted_of_session [OF assms]) (simp add: declared_runner_def)

lemma attempt_start_unique:
  assumes ok: "lifecycle_ok single h" and "d \<in> set (map snd h)" "e \<in> set (map snd h)"
    and "payload d = AttemptStarted p" "payload e = AttemptStarted q" "as_attemptId p = as_attemptId q"
  shows "d = e"
proof (rule ccontr)
  assume "d \<noteq> e"
  from assms obtain i j where i: "i < length h" "d = snd (h ! i)" and j: "j < length h" "e = snd (h ! j)"
    by (force simp: in_set_conv_nth)
  have no: "\<not> m < n" if "n < length h" "payload (snd (h ! m)) = AttemptStarted p'"
      "payload (snd (h ! n)) = AttemptStarted q'" "as_attemptId p' = as_attemptId q'" for m n p' q'
  proof
    assume "m < n"
    then have "snd (h ! m) \<in> set (map snd (take n h))" using that(1) by (force simp: in_set_conv_nth)
    then have "attempt_started (map snd (take n h)) (as_attemptId q')"
      using that by (force simp: attempt_started_def)
    with lifecycle_at(2) [OF ok that(1)] that(3) show False by (simp add: payload_ok_def)
  qed
  have "i \<noteq> j" using \<open>d \<noteq> e\<close> i j by blast
  with no [of j i p q] no [of i j q p] i j assms(4-6) show False by (metis nat_neq_iff)
qed

text \<open>The attempt entries are the start events of the history, each once.\<close>

definition attempt_entries :: "history \<Rightarrow> attempt_entry list" where
  "attempt_entries h = map snd (pj_attempts (projected (accepted_of h)))"

lemma attempt_entry_event:
  assumes "a \<in> set (attempt_entries h)"
  shows "an_event a \<in> set (map snd h)" and "payload (an_event a) = AttemptStarted (an_started a)"
  using assms projected_attempt [OF projected_entry] accepted_of_mem
  by (fastforce simp: attempt_entries_def)+

lemma distinct_attempt_events: "distinct (map an_event (attempt_entries h))"
  using projected_events_distinct [of "accepted_of h"] by (simp add: attempt_entries_def comp_def)

lemma attempt_entry_of_event:
  assumes ok: "lifecycle_ok single h" and e: "e \<in> set (map snd h)" "payload e = AttemptStarted p"
  obtains a where "a \<in> set (attempt_entries h)" "an_event a = e" "an_started a = p"
proof -
  have "attempt_started (accepted_of h) (as_attemptId p)"
    using e by (force simp: attempt_started_def accepted_of_def)
  then obtain a where a: "jget (pj_attempts (projected (accepted_of h))) (as_attemptId p) = Some a"
    using projected_attempt_iff by fastforce
  note s = projected_attempt [OF a]
  have "an_event a = e"
    using attempt_start_unique [OF ok accepted_of_mem [OF s(1)] e(1) s(2) e(2) s(3)] .
  moreover have "a \<in> set (attempt_entries h)"
    using map_of_SomeD [OF a] by (force simp: attempt_entries_def)
  ultimately show thesis using that s(2) e(2) by simp
qed

lemma groups_consistent:
  assumes ok: "lifecycle_ok single h" and x: "(k, l) \<in> set (group_attempts (attempt_entries h))"
  shows "consistent_group (pj_sessions (projected (accepted_of h))) l" and "l \<noteq> []"
proof -
  note l = group_attempts_entry [OF x]
  show "l \<noteq> []" by (rule l(2))
  have mem: "a \<in> set (attempt_entries h)" "executionId (as_test (an_started a)) = k" if "a \<in> set l" for a
    using that l(1) by auto
  have eq: "one_meaning (map snd h) (an_event a) (an_event b)" if "a \<in> set l" "b \<in> set l" "an_event a \<noteq> an_event b" for a b
    using lifecycle_one_meaning [OF ok] attempt_entry_event(1) mem that by blast
  have starts: "attempt_start (payload (an_event a)) = Some (an_started a)" if "a \<in> set l" for a
    using attempt_entry_event(2) [OF mem(1) [OF that]] by simp
  have dist: "distinct (map an_event l)"
    using distinct_attempt_events [of h] l(1) by (simp add: distinct_map inj_on_def)
  have "inj_on (\<lambda>a. as_attemptNumber (an_started a)) (set l)"
  proof (rule inj_onI, rule ccontr)
    fix a b assume ab: "a \<in> set l" "b \<in> set l" "as_attemptNumber (an_started a) = as_attemptNumber (an_started b)" "a \<noteq> b"
    with dist have "an_event a \<noteq> an_event b" by (auto simp: distinct_map dest: inj_onD)
    from eq [OF ab(1,2) this] ab starts [OF ab(1)] starts [OF ab(2)] mem(2) show False
      by (simp add: one_meaning_def)
  qed
  moreover have "distinct l" using dist by (simp add: distinct_map)
  ultimately have nums: "distinct (map (\<lambda>a. as_attemptNumber (an_started a)) l)" by (simp add: distinct_map)
  have runner: "declared_runner (pj_sessions (projected (accepted_of h))) (project_attempt a) =
      session_runner (map snd h) (sessionId (an_event a))" if "a \<in> set l" for a
    using accepted_of_runner [OF ok] attempt_entry_event(1) mem(1) [OF that] by blast
  have same: "historicalId (as_test (an_started a)) = historicalId (as_test (an_started b)) \<and>
      historicalIdStability (as_test (an_started a)) = historicalIdStability (as_test (an_started b)) \<and>
      declared_runner (pj_sessions (projected (accepted_of h))) (project_attempt a) =
      declared_runner (pj_sessions (projected (accepted_of h))) (project_attempt b)"
    if ab: "a \<in> set l" "b \<in> set l" for a b
  proof (cases "an_event a = an_event b")
    case True
    then have "a = b" using dist ab by (auto simp: distinct_map dest: inj_onD)
    then show ?thesis by simp
  next
    case False
    from eq [OF ab False] mem(2) ab show ?thesis
      by (simp add: one_meaning_def starts [OF ab(1)] starts [OF ab(2)] runner)
  qed
  with nums show "consistent_group (pj_sessions (projected (accepted_of h))) l"
    unfolding consistent_group_def by blast
qed

end
