(* ===== verification/Projector_Complete.thy ===== *)
theory Projector_Complete
  imports Projector_Valid
begin

text \<open>
  Ends in the projection: a session, an attempt or a step is projected as finished exactly when
  the history ends it.  For attempts and steps this needs every event of an attempt to be in the
  session that started it, because the projector replays the sessions one after the other.
\<close>

section \<open>Order of replay\<close>

abbreviation replay_key :: "event \<Rightarrow> jstring \<times> int" where
  "replay_key e \<equiv> (sessionId e, sequence e)"

lemma of_session_length_mono:
  assumes "i < j" and "j \<le> length h"
  shows "length (of_session (map snd (take i h)) (sessionId (snd (h ! i)))) <
    length (of_session (map snd (take j h)) (sessionId (snd (h ! i))))"
proof -
  have "take j h = take i h @ h ! i # drop (Suc i) (take j h)"
    using assms id_take_nth_drop [of i "take j h"] by (simp add: min_absorb1)
  then have "map snd (take j h) = map snd (take i h) @ snd (h ! i) # map snd (drop (Suc i) (take j h))"
    by (metis list.simps(9) map_append)
  then show ?thesis by (simp add: of_session_def)
qed

lemma sequence_increases:
  assumes ok: "lifecycle_ok single h" and ij: "i < j" "j < length h"
    and same: "sessionId (snd (h ! i)) = sessionId (snd (h ! j))"
  shows "replay_key (snd (h ! i)) < replay_key (snd (h ! j))"
proof -
  have "i < length h" using ij by simp
  from lifecycle_at(1) [OF ok this] lifecycle_at(1) [OF ok ij(2)]
  have "sequence (snd (h ! i)) = int (length (of_session (map snd (take i h)) (sessionId (snd (h ! i))))) + 1"
    "sequence (snd (h ! j)) = int (length (of_session (map snd (take j h)) (sessionId (snd (h ! j))))) + 1"
    by (simp_all add: place_ok_def)
  with of_session_length_mono [OF ij(1) less_imp_le [OF ij(2)]] same show ?thesis by (simp add: less_prod_def)
qed

lemma replay_keys_distinct:
  assumes "lifecycle_ok single h"
  shows "distinct (map replay_key (map snd h))"
proof -
  have "replay_key (snd (h ! i)) \<noteq> replay_key (snd (h ! j))" if "i < j" "j < length h" for i j
    using sequence_increases [OF assms that] by (metis less_irrefl prod.inject)
  then show ?thesis
    by (simp add: distinct_conv_nth) (metis nat_neq_iff)
qed

lemma ordered_before:
  assumes sorted: "sorted (map f (us @ e # ws))" and "d \<in> set (us @ e # ws)" and "f d < (f e :: 'k :: linorder)"
  shows "d \<in> set us"
proof -
  from sorted have "\<forall>w \<in> set ws. f e \<le> f w" by (simp add: sorted_append)
  with assms show ?thesis by auto
qed

lemma sorted_ordered: "sorted (map replay_key (ordered es))"
  by (simp add: ordered_def)

section \<open>Attempts within one session\<close>

fun attempt_of :: "event_payload \<Rightarrow> jstring option" where
  "attempt_of (AttemptFinished p) = Some (af_attemptId p)"
| "attempt_of (StepStarted p) = Some (st_attemptId p)"
| "attempt_of (StepFinished p) = Some (sp_attemptId p)"
| "attempt_of (AttachmentAdded p) = Some (aa_attemptId p)"
| "attempt_of _ = None"

definition one_session_attempts :: "event list \<Rightarrow> bool" where
  "one_session_attempts es \<longleftrightarrow>
     (\<forall>d \<in> set es. \<forall>e \<in> set es. \<forall>p. payload d = AttemptStarted p \<longrightarrow>
        attempt_of (payload e) = Some (as_attemptId p) \<longrightarrow> sessionId e = sessionId d)"

text \<open>Nothing happens to an attempt before its start.\<close>

lemma happened_before:
  assumes "j < length h"
  shows "attempt_started (map snd (take j h)) k \<Longrightarrow>
      \<exists>i < j. \<exists>p. payload (snd (h ! i)) = AttemptStarted p \<and> as_attemptId p = k"
    and "step_started (map snd (take j h)) k s \<Longrightarrow>
      \<exists>i < j. \<exists>p. payload (snd (h ! i)) = StepStarted p \<and> st_attemptId p = k \<and> st_stepId p = s"
proof -
  show "\<exists>i < j. \<exists>p. payload (snd (h ! i)) = AttemptStarted p \<and> as_attemptId p = k"
    if "attempt_started (map snd (take j h)) k"
    using that assms by (fastforce simp: attempt_started_def in_set_conv_nth attempt_start_iff)
  have "starts_step q = Some (k, s) \<Longrightarrow> \<exists>p. q = StepStarted p \<and> st_attemptId p = k \<and> st_stepId p = s" for q
    by (cases q) auto
  then show "\<exists>i < j. \<exists>p. payload (snd (h ! i)) = StepStarted p \<and> st_attemptId p = k \<and> st_stepId p = s"
    if "step_started (map snd (take j h)) k s"
    using that assms by (fastforce simp: step_started_def in_set_conv_nth)
qed

lemma attempt_before:
  assumes ok: "lifecycle_ok single h" and j: "j < length h" and k: "attempt_of (payload (snd (h ! j))) = Some k"
  shows "\<exists>i < j. \<exists>p. payload (snd (h ! i)) = AttemptStarted p \<and> as_attemptId p = k"
proof -
  note rule = lifecycle_at(2) [OF ok j]
  show ?thesis
  proof (cases "payload (snd (h ! j))")
    case (StepFinished q)
    with k rule have "step_started (map snd (take j h)) k (sp_stepId q)" by (simp add: payload_ok_def)
    from happened_before(2) [OF j this] obtain i p where i: "i < j"
      "payload (snd (h ! i)) = StepStarted p" "st_attemptId p = k" by blast
    with j have il: "i < length h" by simp
    from lifecycle_at(2) [OF ok il] i have "attempt_started (map snd (take i h)) k"
      by (simp add: payload_ok_def attempt_open_def)
    from happened_before(1) [OF il this] obtain m p' where "m < i" "payload (snd (h ! m)) = AttemptStarted p'"
      "as_attemptId p' = k" by blast
    with i(1) show ?thesis by (intro exI [of _ m] conjI exI [of _ p']) auto
  qed (use rule k happened_before(1) [OF j] in \<open>simp_all add: payload_ok_def attempt_open_def\<close>)
qed

lemma attempt_key_before:
  assumes ok: "lifecycle_ok single h" and one: "one_session_attempts (map snd h)"
    and d: "d \<in> set (map snd h)" "payload d = AttemptStarted p"
    and e: "e \<in> set (map snd h)" "attempt_of (payload e) = Some (as_attemptId p)"
  shows "replay_key d < replay_key e"
proof -
  from e(1) obtain j where j: "j < length h" "e = snd (h ! j)" by (force simp: in_set_conv_nth)
  from attempt_before [OF ok j(1)] e j obtain i q where i: "i < j" "payload (snd (h ! i)) = AttemptStarted q"
    "as_attemptId q = as_attemptId p" by blast
  then have mem: "snd (h ! i) \<in> set (map snd h)" using j(1) by force
  with attempt_start_unique [OF ok d(1) mem d(2) i(2)] i(3) have "d = snd (h ! i)" by simp
  moreover have "sessionId d = sessionId e"
    using one d e unfolding one_session_attempts_def by metis
  ultimately show ?thesis using sequence_increases [OF ok i(1) j(1)] j(2) by simp
qed

section \<open>Replay of one attempt after its start\<close>

definition no_start :: "jstring \<Rightarrow> event list \<Rightarrow> bool" where
  "no_start k vs \<longleftrightarrow> \<not> attempt_started vs k"

lemma on_attempt_keeps:
  assumes "map_option as_attemptId (attempt_start (payload e)) \<noteq> Some k"
  shows "\<exists>b. on_attempt k e (Some a) = Some b \<and>
    (an_finished b \<noteq> None \<longleftrightarrow> an_finished a \<noteq> None \<or> map_option af_attemptId (attempt_end (payload e)) = Some k)"
  using assms by (cases "payload e") (auto simp: on_attempt_def)

lemma replay_finished:
  assumes "\<not> attempt_started vs k"
  shows "\<exists>b. fold (on_attempt k) vs (Some a) = Some b \<and>
    (an_finished b \<noteq> None \<longleftrightarrow> an_finished a \<noteq> None \<or> attempt_ended vs k)"
  using assms
proof (induction vs rule: rev_induct)
  case (snoc e vs)
  then obtain b where b: "fold (on_attempt k) vs (Some a) = Some b"
    "an_finished b \<noteq> None \<longleftrightarrow> an_finished a \<noteq> None \<or> attempt_ended vs k"
    by (auto simp: event_simps)
  from on_attempt_keeps [of e k b] snoc.prems b show ?case by (auto simp: event_simps)
qed simp

lemma sorted_after:
  assumes "sorted (map f (us @ d # vs))" and "distinct (map f (us @ d # vs))"
  shows "set vs = {e \<in> set (us @ d # vs). f d < f e}"
proof -
  have "f u \<le> f d" if "u \<in> set us" for u using assms(1) that by (auto simp: sorted_append)
  moreover have "f d < f v" if "v \<in> set vs" for v
    using assms that by (auto simp: sorted_append order.strict_iff_order)
  ultimately show ?thesis by (auto simp: leD)
qed

lemma attempt_split_order:
  assumes ok: "lifecycle_ok single h" and d: "d \<in> set (map snd h)" "payload d = AttemptStarted p"
  obtains us vs where "ordered (accepted_of h) = us @ d # vs"
    "\<not> attempt_started vs (as_attemptId p)" "set vs = {e \<in> set (accepted_of h). replay_key d < replay_key e}"
proof -
  have "d \<in> set (ordered (accepted_of h))" using d by (simp add: accepted_of_start)
  then obtain us vs where split: "ordered (accepted_of h) = us @ d # vs" by (meson split_list)
  have sorted: "sorted (map replay_key (us @ d # vs))" using sorted_ordered [of "accepted_of h"] by (simp add: split)
  have mem: "set (us @ d # vs) = set (accepted_of h)"
    using set_ordered [of "accepted_of h"] by (simp only: split)
  have "distinct (map replay_key (accepted_of h))"
    unfolding accepted_of_def by (rule distinct_map_filter [OF replay_keys_distinct [OF ok]])
  then have "distinct (map replay_key (ordered (accepted_of h)))"
    unfolding ordered_def by (simp only: distinct_map distinct_sort set_sort)
  then have keys: "distinct (map replay_key (us @ d # vs))" by (simp only: split)
  from keys have dist: "distinct (us @ d # vs)" by (rule distinct_map [THEN iffD1, THEN conjunct1])
  have "\<not> attempt_started vs (as_attemptId p)"
  proof
    assume "attempt_started vs (as_attemptId p)"
    then obtain e q where e: "e \<in> set vs" "payload e = AttemptStarted q" "as_attemptId q = as_attemptId p"
      by (auto simp: attempt_started_def attempt_start_iff)
    then have "e \<in> set (map snd h)" using mem by (intro accepted_of_mem) auto
    from attempt_start_unique [OF ok this d(1) e(2) d(2) e(3)] e(1) dist show False by simp
  qed
  moreover have "set vs = {e \<in> set (accepted_of h). replay_key d < replay_key e}"
    using sorted_after [OF sorted keys] unfolding mem .
  ultimately show thesis by (rule that [OF split])
qed

lemma attempt_split:
  assumes ok: "lifecycle_ok single h" and one: "one_session_attempts (map snd h)"
    and d: "d \<in> set (map snd h)" "payload d = AttemptStarted p"
  obtains us vs where "ordered (accepted_of h) = us @ d # vs"
    "\<not> attempt_started vs (as_attemptId p)"
    "\<And>e. e \<in> set (accepted_of h) \<Longrightarrow> attempt_of (payload e) = Some (as_attemptId p) \<Longrightarrow> e \<in> set vs"
proof (rule attempt_split_order [OF ok d])
  fix us vs
  assume s: "ordered (accepted_of h) = us @ d # vs" "\<not> attempt_started vs (as_attemptId p)"
    "set vs = {e \<in> set (accepted_of h). replay_key d < replay_key e}"
  have "e \<in> set vs" if e: "e \<in> set (accepted_of h)" "attempt_of (payload e) = Some (as_attemptId p)" for e
    using attempt_key_before [OF ok one d accepted_of_mem [OF e(1)] e(2)] e(1) by (simp add: s(3))
  then show thesis by (rule that [OF s(1,2)])
qed

lemma attempt_end_of: "attempt_end q = Some p \<Longrightarrow> attempt_of q = Some (af_attemptId p)"
  by (cases q) auto

lemma known_end: "attempt_end (payload e) = Some p \<Longrightarrow> isKnownEvent e"
  by (cases "payload e")
    (auto simp: isKnownEvent_def eventType_def known_payload_type simp del: payload_type.simps)

lemma entry_replay:
  assumes a: "a \<in> set (attempt_entries h)" and s: "ordered (accepted_of h) = us @ an_event a # vs"
  shows "fold (on_attempt (as_attemptId (an_started a))) vs (Some (new_attempt (an_event a) (an_started a))) = Some a"
proof -
  let ?k = "as_attemptId (an_started a)"
  have get: "jget (pj_attempts (projected (accepted_of h))) ?k = Some a"
    using a projected_attempt(3) [OF projected_entry] projected_entry by (fastforce simp: attempt_entries_def)
  have "on_attempt ?k (an_event a) x = Some (new_attempt (an_event a) (an_started a))" for x
    by (simp add: on_attempt_def attempt_entry_event(2) [OF a])
  with get show ?thesis
    by (simp add: projected_def attempt_after attempt_after_event new_projection_def s)
qed

lemma entry_finished_iff:
  assumes ok: "lifecycle_ok single h" and one: "one_session_attempts (map snd h)"
    and a: "a \<in> set (attempt_entries h)"
  shows "an_finished a \<noteq> None \<longleftrightarrow> attempt_ended (map snd h) (as_attemptId (an_started a))"
proof -
  let ?k = "as_attemptId (an_started a)"
  note d = attempt_entry_event [OF a]
  obtain us vs where s: "ordered (accepted_of h) = us @ an_event a # vs" "\<not> attempt_started vs ?k"
    "\<And>e. e \<in> set (accepted_of h) \<Longrightarrow> attempt_of (payload e) = Some ?k \<Longrightarrow> e \<in> set vs"
    by (rule attempt_split [OF ok one d]) blast
  note replay = entry_replay [OF a s(1)]
  from replay_finished [OF s(2), of "new_attempt (an_event a) (an_started a)"] replay
  have "an_finished a \<noteq> None \<longleftrightarrow> attempt_ended vs ?k" by (auto simp: new_attempt_def)
  also have "\<dots> \<longleftrightarrow> attempt_ended (map snd h) ?k"
  proof
    assume "attempt_ended vs ?k"
    moreover have "set vs \<subseteq> set (map snd h)"
      using set_ordered [of "accepted_of h"] accepted_of_mem by (auto simp: s(1))
    ultimately show "attempt_ended (map snd h) ?k" unfolding attempt_ended_def by blast
  next
    assume "attempt_ended (map snd h) ?k"
    then obtain e q where e: "e \<in> set (map snd h)" "attempt_end (payload e) = Some q" "af_attemptId q = ?k"
      by (auto simp: attempt_ended_def)
    then have "e \<in> set vs" using s(3) [of e] attempt_end_of known_end by (auto simp: accepted_of_def)
    with e show "attempt_ended vs ?k" by (force simp: attempt_ended_def)
  qed
  finally show ?thesis .
qed

end
