(* ===== verification/Projector_Steps.thy ===== *)
theory Projector_Steps
  imports Projector_Complete
begin

text \<open>Steps and sessions in the projection.\<close>

section \<open>Steps of one attempt\<close>

text \<open>A step ends only after it has started and starts once.\<close>

definition step_rule :: "jstring \<Rightarrow> event list \<Rightarrow> event \<Rightarrow> bool" where
  "step_rule k us e \<longleftrightarrow>
     (case payload e of
        StepStarted p \<Rightarrow> st_attemptId p = k \<longrightarrow> \<not> step_started us k (st_stepId p)
      | StepFinished p \<Rightarrow> sp_attemptId p = k \<longrightarrow> step_started us k (sp_stepId p)
      | _ \<Rightarrow> True)"

definition steps_in_order :: "jstring \<Rightarrow> event list \<Rightarrow> bool" where
  "steps_in_order k vs \<longleftrightarrow> (\<forall>us e ws. vs = us @ e # ws \<longrightarrow> step_rule k us e)"

lemma steps_in_order_snoc:
  assumes "steps_in_order k (vs @ [e])"
  shows "steps_in_order k vs" and "step_rule k vs e"
  using assms by (force simp: steps_in_order_def)+

definition step_id :: "step_entry \<Rightarrow> jstring" where
  "step_id s = st_stepId (sn_started s)"

definition steps_ok :: "jstring \<Rightarrow> event list \<Rightarrow> attempt_entry \<Rightarrow> bool" where
  "steps_ok k vs a \<longleftrightarrow>
     (\<forall>s. step_started vs k s \<longleftrightarrow> s \<in> step_id ` set (an_steps a)) \<and>
     (\<forall>s. step_ended vs k s \<longrightarrow> step_started vs k s) \<and>
     (\<forall>s i. jget (an_stepsById a) s = Some i \<longleftrightarrow> i < length (an_steps a) \<and> step_id (an_steps a ! i) = s) \<and>
     (\<forall>i < length (an_steps a).
        sn_finished (an_steps a ! i) \<noteq> None \<longleftrightarrow> step_ended vs k (step_id (an_steps a ! i)))"

lemma steps_ok_start:
  assumes ok: "steps_ok k vs a" and p: "payload e = StepStarted p" "st_attemptId p = k"
    and fresh: "\<not> step_started vs k (st_stepId p)"
  shows "steps_ok k (vs @ [e]) (start_step e p a)"
proof -
  have new: "st_stepId p \<notin> step_id ` set (an_steps a)" and open_: "\<not> step_ended vs k (st_stepId p)"
    using ok fresh by (auto simp: steps_ok_def)
  have nth: "step_id (an_steps a ! i) \<noteq> st_stepId p" if "i < length (an_steps a)" for i
    using new that by (metis image_eqI nth_mem)
  show ?thesis
    using ok p open_ new nth
    by (auto simp: steps_ok_def start_step_def event_simps jmap_simps step_id_def nth_append less_Suc_eq
        split: if_splits)
qed

lemma steps_ok_finish:
  assumes ok: "steps_ok k vs a" and p: "payload e = StepFinished p" "sp_attemptId p = k"
    and known: "step_started vs k (sp_stepId p)"
  shows "steps_ok k (vs @ [e]) (finish_step e p a)"
proof -
  obtain i where i: "i < length (an_steps a)" "step_id (an_steps a ! i) = sp_stepId p"
    using ok known by (auto simp: steps_ok_def in_set_conv_nth)
  then have get: "jget (an_stepsById a) (sp_stepId p) = Some i" using ok by (simp add: steps_ok_def)
  let ?steps = "(an_steps a)[i := (an_steps a ! i)\<lparr>sn_finished := Some (e, p)\<rparr>]"
  have fin: "finish_step e p a = a\<lparr>an_steps := ?steps\<rparr>" by (simp add: finish_step_def get)
  have id: "step_id (?steps ! j) = step_id (an_steps a ! j)" for j
    using i(1) by (cases "j = i") (simp_all add: step_id_def)
  have ids: "step_id ` set ?steps = step_id ` set (an_steps a)"
  proof -
    have "map step_id ?steps = map step_id (an_steps a)"
      by (rule nth_equalityI) (use id in auto)
    then show ?thesis by (metis list.set_map)
  qed
  have only: "step_id (an_steps a ! j) = sp_stepId p \<longleftrightarrow> j = i" if "j < length (an_steps a)" for j
    using ok that get unfolding steps_ok_def by (metis option.inject)
  have done_iff: "sn_finished (?steps ! j) \<noteq> None \<longleftrightarrow> j = i \<or> sn_finished (an_steps a ! j) \<noteq> None"
    if "j < length (an_steps a)" for j
    using i(1) that by (auto simp: nth_list_update)
  have started: "step_started (vs @ [e]) k = step_started vs k"
    and ended: "step_ended (vs @ [e]) k s \<longleftrightarrow> step_ended vs k s \<or> s = sp_stepId p" for s
    using p by (auto simp: fun_eq_iff event_simps)
  have "(sn_finished (?steps ! j) \<noteq> None) = step_ended (vs @ [e]) k (step_id (?steps ! j))"
    if "j < length (an_steps a)" for j
    unfolding done_iff [OF that] ended id only [OF that] using ok that by (simp add: steps_ok_def) blast
  moreover have "step_ended (vs @ [e]) k s \<longrightarrow> step_started vs k s" for s
    using ok known unfolding ended steps_ok_def by blast
  ultimately show ?thesis
    using ok unfolding steps_ok_def fin started by (simp add: id ids del: step_ended_snoc)
qed

lemma steps_ok_other:
  assumes "steps_ok k vs a" and "\<And>s. starts_step (payload e) \<noteq> Some (k, s)" "\<And>s. ends_step (payload e) \<noteq> Some (k, s)"
    and "an_steps b = an_steps a" "an_stepsById b = an_stepsById a"
  shows "steps_ok k (vs @ [e]) b"
proof -
  have eq: "step_started (vs @ [e]) k = step_started vs k" "step_ended (vs @ [e]) k = step_ended vs k"
    using assms(2,3) by (simp_all add: fun_eq_iff event_simps)
  show ?thesis using assms(1) unfolding steps_ok_def assms(4,5) eq .
qed

lemma steps_ok_event:
  assumes "steps_ok k vs a" and "step_rule k vs e" and "on_attempt k e (Some a) = Some b"
    and "map_option as_attemptId (attempt_start (payload e)) \<noteq> Some k"
  shows "steps_ok k (vs @ [e]) b"
proof (cases "attempt_of (payload e) = Some k \<and> (\<exists>s. starts_step (payload e) = Some (k, s) \<or> ends_step (payload e) = Some (k, s))")
  case True
  then show ?thesis
    using assms(1-3) steps_ok_start [OF assms(1)] steps_ok_finish [OF assms(1)]
    by (cases "payload e") (auto simp: on_attempt_def step_rule_def)
next
  case False
  have "an_steps b = an_steps a \<and> an_stepsById b = an_stepsById a"
    using False assms(3,4) by (cases "payload e") (auto simp: on_attempt_def split: if_splits)
  moreover have "starts_step (payload e) \<noteq> Some (k, s)" "ends_step (payload e) \<noteq> Some (k, s)" for s
    using False by (cases "payload e"; force)+
  ultimately show ?thesis using steps_ok_other [OF assms(1)] by blast
qed

lemma replay_steps:
  assumes "\<not> attempt_started vs k" and "steps_in_order k vs"
    and "fold (on_attempt k) vs (Some (new_attempt d p)) = Some a"
  shows "steps_ok k vs a"
  using assms
proof (induction vs arbitrary: a rule: rev_induct)
  case Nil
  then show ?case by (auto simp: steps_ok_def new_attempt_def)
next
  case (snoc e vs)
  have no: "\<not> attempt_started vs k" "map_option as_attemptId (attempt_start (payload e)) \<noteq> Some k"
    using snoc.prems(1) by (simp_all add: event_simps)
  obtain b where b: "fold (on_attempt k) vs (Some (new_attempt d p)) = Some b"
    using replay_finished [OF no(1)] by blast
  from snoc.IH [OF no(1) steps_in_order_snoc(1) [OF snoc.prems(2)] b] snoc.prems(3) b
  show ?case using steps_ok_event steps_in_order_snoc(2) [OF snoc.prems(2)] no(2) by simp
qed

text \<open>In a history that obeys the rules, the replayed steps are in order.\<close>

lemma known_attempt_of: "attempt_of (payload e) = Some k \<Longrightarrow> isKnownEvent e"
  by (cases "payload e")
    (auto simp: isKnownEvent_def eventType_def known_payload_type simp del: payload_type.simps)

lemma step_pair:
  assumes ok: "lifecycle_ok single h" and ij: "i < j" "j < length h"
    and "payload (snd (h ! j)) = StepStarted p" "starts_step (payload (snd (h ! i))) = Some (st_attemptId p, st_stepId p)"
  shows False
proof -
  have "snd (h ! i) \<in> set (map snd (take j h))" using ij by (force simp: in_set_conv_nth)
  then have "step_started (map snd (take j h)) (st_attemptId p) (st_stepId p)"
    using assms(5) unfolding step_started_def by blast
  with lifecycle_at(2) [OF ok ij(2)] assms(4) show False by (simp add: payload_ok_def)
qed

lemma step_start_unique:
  assumes ok: "lifecycle_ok single h" and mem: "d \<in> set (map snd h)" "e \<in> set (map snd h)"
    and "starts_step (payload d) = Some x" "starts_step (payload e) = Some x"
  shows "d = e"
proof -
  from mem obtain i j where i: "i < length h" "d = snd (h ! i)" and j: "j < length h" "e = snd (h ! j)"
    by (force simp: in_set_conv_nth)
  obtain p q where "payload d = StepStarted p" "payload e = StepStarted q"
    "x = (st_attemptId p, st_stepId p)" "x = (st_attemptId q, st_stepId q)"
    using assms(4,5) by (cases "payload d"; cases "payload e") auto
  with step_pair [OF ok, of i j q] step_pair [OF ok, of j i p] i j have "i = j"
    by (metis nat_neq_iff starts_step.simps(1))
  with i j show ?thesis by simp
qed

lemma step_key_before:
  assumes ok: "lifecycle_ok single h" and one: "one_session_attempts (map snd h)"
    and e: "e \<in> set (map snd h)" "payload e = StepFinished q"
  obtains d where "d \<in> set (map snd h)" "starts_step (payload d) = Some (sp_attemptId q, sp_stepId q)"
    "replay_key d < replay_key e"
proof -
  from e(1) obtain j where j: "j < length h" "e = snd (h ! j)" by (force simp: in_set_conv_nth)
  from lifecycle_at(2) [OF ok j(1)] e(2) j(2) have "step_started (map snd (take j h)) (sp_attemptId q) (sp_stepId q)"
    by (simp add: payload_ok_def)
  from happened_before(2) [OF j(1) this] obtain i p where i: "i < j" "payload (snd (h ! i)) = StepStarted p"
    "st_attemptId p = sp_attemptId q" "st_stepId p = sp_stepId q" by blast
  have mem: "snd (h ! i) \<in> set (map snd h)" using i(1) j(1) by force
  have "attempt_of (payload (snd (h ! j))) = Some (sp_attemptId q)" using e(2) j(2) by simp
  from attempt_before [OF ok j(1) this] obtain m a where m: "m < j" "payload (snd (h ! m)) = AttemptStarted a"
    "as_attemptId a = sp_attemptId q" by blast
  have memm: "snd (h ! m) \<in> set (map snd h)" using m(1) j(1) by force
  have "sessionId (snd (h ! i)) = sessionId (snd (h ! m))" "sessionId e = sessionId (snd (h ! m))"
    using one memm mem e m i unfolding one_session_attempts_def by (metis attempt_of.simps(2,3))+
  with sequence_increases [OF ok i(1) j(1)] j(2) have "replay_key (snd (h ! i)) < replay_key e" by simp
  with mem i that show thesis by simp
qed

lemma ordered_steps:
  assumes ok: "lifecycle_ok single h" and one: "one_session_attempts (map snd h)"
    and split: "ordered (accepted_of h) = pre @ vs"
    and all: "\<And>e. e \<in> set (accepted_of h) \<Longrightarrow> attempt_of (payload e) = Some k \<Longrightarrow> e \<in> set vs"
  shows "steps_in_order k vs"
  unfolding steps_in_order_def
proof (intro allI impI)
  fix us e ws assume vs: "vs = us @ e # ws"
  have sorted: "sorted (map replay_key (us @ e # ws))"
    using sorted_ordered [of "accepted_of h"] by (simp add: split vs sorted_append)
  have mem: "x \<in> set (us @ e # ws) \<Longrightarrow> x \<in> set (map snd h)" for x
    using set_ordered [of "accepted_of h"] accepted_of_mem by (auto simp: split vs)
  have "distinct (ordered (accepted_of h))"
    using distinct_map_filter [OF replay_keys_distinct [OF ok], of isKnownEvent]
    by (auto simp: ordered_def accepted_of_def distinct_map)
  then have dist: "distinct (us @ e # ws)" by (simp add: split vs)
  show "step_rule k us e"
  proof (cases "payload e")
    case (StepStarted p)
    have "\<not> step_started us k (st_stepId p)" if k: "st_attemptId p = k"
    proof
      assume "step_started us k (st_stepId p)"
      then obtain d where d: "d \<in> set us" "starts_step (payload d) = Some (k, st_stepId p)"
        by (auto simp: step_started_def)
      with step_start_unique [OF ok mem mem, of d e] StepStarted k have "d = e" by simp
      with d(1) dist show False by simp
    qed
    then show ?thesis by (simp add: step_rule_def StepStarted)
  next
    case (StepFinished p)
    have "step_started us k (sp_stepId p)" if k: "sp_attemptId p = k"
    proof -
      obtain d where d: "d \<in> set (map snd h)" "starts_step (payload d) = Some (k, sp_stepId p)"
        "replay_key d < replay_key e"
        using step_key_before [OF ok one mem StepFinished] k by auto
      then have "attempt_of (payload d) = Some k" by (cases "payload d") auto
      with d(1) have "d \<in> set (us @ e # ws)"
        using all [of d] known_attempt_of by (auto simp: accepted_of_def vs)
      from ordered_before [OF sorted this d(3)] d(2) show ?thesis by (auto simp: step_started_def)
    qed
    then show ?thesis by (simp add: step_rule_def StepFinished)
  qed (simp_all add: step_rule_def)
qed

lemma happened_of_replay:
  assumes "set vs \<subseteq> set es"
    and "\<And>e. e \<in> set es \<Longrightarrow> attempt_of (payload e) = Some k \<Longrightarrow> e \<in> set vs"
  shows "step_started vs k s \<longleftrightarrow> step_started es k s" and "step_ended vs k s \<longleftrightarrow> step_ended es k s"
proof -
  have "starts_step q = Some (k, s) \<Longrightarrow> attempt_of q = Some k"
    "ends_step q = Some (k, s) \<Longrightarrow> attempt_of q = Some k" for q
    by (cases q; simp)+
  with assms show "step_started vs k s \<longleftrightarrow> step_started es k s" "step_ended vs k s \<longleftrightarrow> step_ended es k s"
    unfolding step_started_def step_ended_def by blast+
qed

lemma steps_ok_all:
  assumes "steps_ok k vs a"
  shows "list_all (\<lambda>s. sn_finished s \<noteq> None) (an_steps a) \<longleftrightarrow> (\<forall>s. step_started vs k s \<longrightarrow> step_ended vs k s)"
proof -
  have "list_all (\<lambda>s. sn_finished s \<noteq> None) (an_steps a) \<longleftrightarrow> (\<forall>x \<in> set (an_steps a). step_ended vs k (step_id x))"
    using assms by (auto simp: list_all_length steps_ok_def all_set_conv_all_nth)
  also have "\<dots> \<longleftrightarrow> (\<forall>s \<in> step_id ` set (an_steps a). step_ended vs k s)" by simp
  also have "\<dots> \<longleftrightarrow> (\<forall>s. step_started vs k s \<longrightarrow> step_ended vs k s)"
    using assms unfolding steps_ok_def by blast
  finally show ?thesis .
qed

lemma entry_steps:
  assumes ok: "lifecycle_ok single h" and one: "one_session_attempts (map snd h)"
    and a: "a \<in> set (attempt_entries h)"
  shows "list_all (\<lambda>s. sn_finished s \<noteq> None) (an_steps a) \<longleftrightarrow>
    (\<forall>s. step_started (map snd h) (as_attemptId (an_started a)) s \<longrightarrow>
       step_ended (map snd h) (as_attemptId (an_started a)) s)"
proof -
  let ?k = "as_attemptId (an_started a)"
  note d = attempt_entry_event [OF a]
  obtain us vs where s: "ordered (accepted_of h) = us @ an_event a # vs" "\<not> attempt_started vs ?k"
    "\<And>e. e \<in> set (accepted_of h) \<Longrightarrow> attempt_of (payload e) = Some ?k \<Longrightarrow> e \<in> set vs"
    by (rule attempt_split [OF ok one d]) blast
  have order: "steps_in_order ?k vs"
    by (rule ordered_steps [OF ok one _ s(3), of "us @ [an_event a]"]) (simp_all add: s(1))
  have "steps_ok ?k vs a" by (rule replay_steps [OF s(2) order entry_replay [OF a s(1)]])
  from steps_ok_all [OF this] have "list_all (\<lambda>s. sn_finished s \<noteq> None) (an_steps a) \<longleftrightarrow>
      (\<forall>s. step_started vs ?k s \<longrightarrow> step_ended vs ?k s)" .
  moreover have "set vs \<subseteq> set (map snd h)"
    using set_ordered [of "accepted_of h"] accepted_of_mem by (auto simp: s(1))
  note happened_of_replay [OF this, of ?k]
  ultimately show ?thesis using s(3) known_attempt_of by (simp add: accepted_of_def)
qed

section \<open>Sessions\<close>

lemma on_session_keeps:
  assumes "\<not> (sessionId e = k \<and> starts_session (payload e))"
  shows "\<exists>t. on_session k e (Some s) = Some t \<and>
    (se_finished t \<noteq> None \<longleftrightarrow> se_finished s \<noteq> None \<or> (sessionId e = k \<and> session_end (payload e) \<noteq> None))"
  using assms by (cases "payload e") (auto simp: on_session_def)

lemma replay_session_finished:
  assumes "\<not> session_begun vs k"
  shows "\<exists>t. fold (on_session k) vs (Some s) = Some t \<and>
    (se_finished t \<noteq> None \<longleftrightarrow> se_finished s \<noteq> None \<or> session_ended vs k)"
  using assms
proof (induction vs rule: rev_induct)
  case (snoc e vs)
  then obtain t where t: "fold (on_session k) vs (Some s) = Some t"
    "se_finished t \<noteq> None \<longleftrightarrow> se_finished s \<noteq> None \<or> session_ended vs k"
    by (auto simp: session_begun_def)
  from on_session_keeps [of e k t] snoc.prems t show ?case by (auto simp: event_simps session_begun_def)
qed simp

lemma session_key_before:
  assumes ok: "lifecycle_ok single h" and d: "d \<in> set (map snd h)" "payload d = SessionStarted p"
    and e: "e \<in> set (map snd h)" "sessionId e = sessionId d" "e \<noteq> d"
  shows "replay_key d < replay_key e"
proof -
  from d e obtain i j where i: "i < length h" "d = snd (h ! i)" and j: "j < length h" "e = snd (h ! j)"
    by (force simp: in_set_conv_nth)
  have "\<not> j < i"
  proof
    assume "j < i"
    from of_session_take [OF this i(1)] have "of_session (map snd (take i h)) (sessionId d) \<noteq> []"
      using e(2) j(2) by simp
    with lifecycle_at(1) [OF ok i(1)] i(2) d(2) show False by (simp add: place_ok_def)
  qed
  with e(3) i j have "i < j" by (metis nat_neq_iff)
  from sequence_increases [OF ok this j(1)] e(2) i(2) j(2) show ?thesis by simp
qed

lemma session_split:
  assumes ok: "lifecycle_ok single h" and d: "d \<in> set (accepted_of h)" "payload d = SessionStarted p"
  obtains us vs where "ordered (accepted_of h) = us @ d # vs" "\<not> session_begun vs (sessionId d)"
    "\<And>e. e \<in> set (accepted_of h) \<Longrightarrow> sessionId e = sessionId d \<Longrightarrow> e \<noteq> d \<Longrightarrow> e \<in> set vs"
proof -
  from d(1) have "d \<in> set (ordered (accepted_of h))" by simp
  then obtain us vs where split: "ordered (accepted_of h) = us @ d # vs" by (meson split_list)
  have sorted: "sorted (map replay_key (us @ d # vs))" using sorted_ordered [of "accepted_of h"] by (simp add: split)
  have mem: "e \<in> set (us @ d # vs) \<longleftrightarrow> e \<in> set (accepted_of h)" for e
    using set_ordered [of "accepted_of h"] by (simp add: split [symmetric])
  have "distinct (ordered (accepted_of h))"
    using distinct_map_filter [OF replay_keys_distinct [OF ok], of isKnownEvent]
    by (auto simp: ordered_def accepted_of_def distinct_map)
  then have "d \<notin> set vs" by (simp add: split)
  moreover have "e = d" if "e \<in> set vs" "sessionId e = sessionId d" "starts_session (payload e)" for e
    using session_start_unique(2) [OF ok accepted_of_mem [OF d(1)] d(2), of e] that mem [of e] accepted_of_mem by auto
  ultimately have "\<not> session_begun vs (sessionId d)" unfolding session_begun_def by metis
  moreover have "e \<in> set vs" if e: "e \<in> set (accepted_of h)" "sessionId e = sessionId d" "e \<noteq> d" for e
  proof -
    have "replay_key d < replay_key e"
      using session_key_before [OF ok accepted_of_mem [OF d(1)] d(2) accepted_of_mem [OF e(1)] e(2,3)] .
    moreover have "replay_key e \<le> replay_key d" if "e \<in> set us"
      using sorted that by (simp add: sorted_append)
    ultimately show ?thesis using mem [of e] e by auto
  qed
  ultimately show thesis by (rule that [OF split])
qed

lemma session_entry_finished:
  assumes ok: "lifecycle_ok single h" and s: "jget (pj_sessions (projected (accepted_of h))) k = Some s"
  shows "se_finished s \<noteq> None \<longleftrightarrow> session_ended (map snd h) k"
proof -
  note p = projected_session [OF s]
  obtain us vs where v: "ordered (accepted_of h) = us @ se_event s # vs" "\<not> session_begun vs k"
    "\<And>e. e \<in> set (accepted_of h) \<Longrightarrow> sessionId e = k \<Longrightarrow> e \<noteq> se_event s \<Longrightarrow> e \<in> set vs"
    by (rule session_split [OF ok p(1,2), unfolded p(3)]) blast
  let ?new = "\<lparr>se_event = se_event s, se_started = se_started s, se_finished = None, se_executionIds = []\<rparr>"
  have "on_session k (se_event s) x = Some ?new" for x by (simp add: on_session_def p)
  with s have "fold (on_session k) vs (Some ?new) = Some s"
    by (simp add: projected_def session_after session_after_event new_projection_def v(1))
  with replay_session_finished [OF v(2), of ?new] have "se_finished s \<noteq> None \<longleftrightarrow> session_ended vs k" by auto
  also have "\<dots> \<longleftrightarrow> session_ended (map snd h) k"
  proof
    assume "session_ended vs k"
    moreover have "set vs \<subseteq> set (map snd h)"
      using set_ordered [of "accepted_of h"] accepted_of_mem by (auto simp: v(1))
    ultimately show "session_ended (map snd h) k" unfolding session_ended_def by blast
  next
    assume "session_ended (map snd h) k"
    then obtain e where e: "e \<in> set (map snd h)" "sessionId e = k" "session_end (payload e) \<noteq> None"
      unfolding session_ended_def by blast
    then obtain q where q: "payload e = SessionFinished q" by (cases "payload e") auto
    then have "isKnownEvent e" "e \<noteq> se_event s" using p(2)
      by (auto simp: isKnownEvent_def eventType_def known_payload_type simp del: payload_type.simps)
    with e(1,2) v(3) [of e] have "e \<in> set vs" by (simp add: accepted_of_def)
    with e(2,3) show "session_ended vs k" unfolding session_ended_def by blast
  qed
  finally show ?thesis .
qed

end
