(* ===== verification/Projector_Properties.thy ===== *)
theory Projector_Properties
  imports Projector_Steps
begin

text \<open>
  What the projector promises of the runs the validator accepts: the projection exists and loses
  no attempt, does not depend on the order of the events, and agrees with the validator on what
  is complete.
\<close>

section \<open>The projection of a valid history\<close>

definition run_snapshot :: "report \<Rightarrow> validator \<Rightarrow> validated_run" where
  "run_snapshot r st = \<lparr>vr_report = r, vr_events = accepted st, vr_sourceLines = source_log st\<rparr>"

definition projected_executions :: "history \<Rightarrow> test_execution list" where
  "projected_executions h =
     map (execution_of (pj_sessions (projected (accepted_of h))))
       (sort_key fst (group_attempts (attempt_entries h)))"

lemma groupExecutions_valid:
  assumes ok: "lifecycle_ok single h"
  shows "groupExecutions (pj_attempts (projected (accepted_of h))) (pj_sessions (projected (accepted_of h))) =
    Inr (projected_executions h)"
proof -
  have "project_execution (pj_sessions (projected (accepted_of h))) x =
      Inr (execution_of (pj_sessions (projected (accepted_of h))) x)"
    if x: "x \<in> set (sort_key fst (group_attempts (attempt_entries h)))" for x
  proof -
    obtain k l where kl: "x = (k, l)" by (cases x)
    with x have "(k, l) \<in> set (group_attempts (attempt_entries h))" by simp
    from project_consistent [OF groups_consistent [OF ok this]] show ?thesis by (simp add: kl)
  qed
  note each = this
  show ?thesis
    unfolding groupExecutions_def projected_executions_def attempt_entries_def [symmetric]
    using map_r_map_Inr [where g = "\<lambda>x. x" and f = "\<lambda>_. project_execution (pj_sessions (projected (accepted_of h)))"
        and xs = "sort_key fst (group_attempts (attempt_entries h))", OF each] by simp
qed

lemma project_valid_history:
  assumes ok: "lifecycle_ok single h" and ne: "accepted_of h \<noteq> []" and valid: "rep_valid r"
    and acc: "accepted st = accepted_of h"
  obtains run where "projectRun pid dir (run_snapshot r st) = Inr run"
    "run_executions run = projected_executions h" "run_runId run = runId (hd (ordered (accepted_of h)))"
    "run_sessions run = sort_key ps_sessionId (map (\<lambda>x. project_session (snd x)) (pj_sessions (projected (accepted_of h))))"
    "vf_complete (run_validator run) = sum_complete (rep_summary r)"
proof -
  have "pj_runId (projected (accepted_of h)) = Some (runId (hd (ordered (accepted_of h))))"
    using ne ordered_Nil_iff [of "accepted_of h"]
    by (simp add: projected_def run_id_after new_projection_def del: ordered_Nil_iff split: list.splits)
  note facts = this groupExecutions_valid [OF ok] projected_def [symmetric]
  show thesis
    by (rule that, (simp add: projectRun_def run_snapshot_def valid acc facts Let_def)+)
qed

lemma valid_run_history:
  assumes "fst (finish fs opts (feed_files h opts single files new_validator) fds) = Inr (r, st)"
    and "rep_valid r" and "opt_retainEvents opts"
  defines "H \<equiv> history_of (decode_files h opts 1 files)"
  shows "lifecycle_ok single H" and "accepted st = accepted_of H" and "run_history h opts files = map snd H"
    and "sum_complete (rep_summary r) = history_complete (map snd H)"
proof -
  note v = valid_run_state [OF assms(1,2)]
  show "lifecycle_ok single H" using v(3) by (simp add: H_def)
  show eq: "run_history h opts files = map snd H" by (simp add: run_history_def H_def)
  show "accepted st = accepted_of H"
    using v(2) assms(3) by (simp add: full_inv_def kept_def only_diagnostics_same [OF v(4)] accepted_of_def eq)
  show "sum_complete (rep_summary r) = history_complete (map snd H)"
    using is_complete_iff [OF v(2)] only_diagnostics_verdict [OF v(4)]
    by (simp add: v(5) make_report_def eq)
qed

section \<open>The executions\<close>

lemma execution_attempts:
  assumes "x \<in> set (projected_executions h)"
  obtains k l where "x = execution_of (pj_sessions (projected (accepted_of h))) (k, l)"
    "(k, l) \<in> set (group_attempts (attempt_entries h))"
  using assms by (auto simp: projected_executions_def)

lemma execution_of_sel [simp]:
  "te_executionId (execution_of ses (k, l)) = k" "te_attempts (execution_of ses (k, l)) = group_attempts_sorted l"
  "te_finalAttempt (execution_of ses (k, l)) = last (group_attempts_sorted l)"
  "te_complete (execution_of ses (k, l)) = list_all pa_finished (group_attempts_sorted l)"
  by (simp_all add: execution_of_def Let_def)

lemma strictly_sorted: "sorted (map f xs) \<Longrightarrow> distinct (map f xs) \<Longrightarrow> sorted_wrt (<) (map f xs)"
  by (simp add: strict_sorted_iff)

lemma executions_sorted: "sorted_wrt (<) (map te_executionId (projected_executions h))"
proof -
  have "map te_executionId (projected_executions h) = map fst (sort_key fst (group_attempts (attempt_entries h)))"
    by (auto simp: projected_executions_def)
  then show ?thesis
    using group_attempts_get [of "attempt_entries h"] by (auto simp: jkeys_ok_def intro: strictly_sorted)
qed

lemma execution_attempts_sorted:
  assumes ok: "lifecycle_ok single h" and x: "x \<in> set (projected_executions h)"
  shows "sorted_wrt (<) (map pa_attemptNumber (te_attempts x))" and "te_attempts x \<noteq> []"
    and "te_finalAttempt x = last (te_attempts x)"
proof -
  obtain k l where kl: "x = execution_of (pj_sessions (projected (accepted_of h))) (k, l)"
    "(k, l) \<in> set (group_attempts (attempt_entries h))"
    using execution_attempts [OF x] by blast
  note g = groups_consistent [OF ok kl(2)]
  show "sorted_wrt (<) (map pa_attemptNumber (te_attempts x))"
    using g(1) by (auto simp: kl(1) group_attempts_sorted_def consistent_group_def comp_def intro!: strictly_sorted)
  show "te_attempts x \<noteq> []" "te_finalAttempt x = last (te_attempts x)" using g(2) by (simp_all add: kl(1))
qed

lemma group_of_entry:
  assumes "a \<in> set as"
  shows "\<exists>l. (executionId (as_test (an_started a)), l) \<in> set (group_attempts as) \<and> a \<in> set l"
proof -
  let ?k = "executionId (as_test (an_started a))"
  let ?l = "filter (\<lambda>b. executionId (as_test (an_started b)) = ?k) as"
  have mem: "a \<in> set ?l" using assms by simp
  then have "?l \<noteq> []" by (metis list.distinct(1) list.set_cases)
  then have "jget (group_attempts as) ?k = Some ?l"
    using group_attempts_get [of as ?k] by (auto split: list.splits)
  with mem show ?thesis by (blast dest: map_of_SomeD)
qed

definition attempt_facts :: "projected_attempt \<Rightarrow> jstring \<times> jstring \<times> int \<times> test_case" where
  "attempt_facts a = (pa_sessionId a, pa_attemptId a, pa_attemptNumber a, pa_test a)"

definition start_facts :: "event list \<Rightarrow> jstring \<Rightarrow> (jstring \<times> jstring \<times> int \<times> test_case) set" where
  "start_facts es k = {(sessionId e, as_attemptId p, as_attemptNumber p, as_test p) | e p.
     e \<in> set es \<and> payload e = AttemptStarted p \<and> executionId (as_test p) = k}"

lemma execution_facts:
  assumes ok: "lifecycle_ok single h" and x: "x \<in> set (projected_executions h)"
  shows "attempt_facts ` set (te_attempts x) = start_facts (accepted_of h) (te_executionId x)"
proof -
  obtain k l where kl: "x = execution_of (pj_sessions (projected (accepted_of h))) (k, l)"
    "(k, l) \<in> set (group_attempts (attempt_entries h))"
    using execution_attempts [OF x] by blast
  have l: "set l = {a \<in> set (attempt_entries h). executionId (as_test (an_started a)) = k}"
    using group_attempts_entry(1) [OF kl(2)] by auto
  have iff: "(\<exists>a \<in> set (attempt_entries h). an_event a = e \<and> an_started a = p) \<longleftrightarrow>
      e \<in> set (accepted_of h) \<and> payload e = AttemptStarted p" for e p
    using attempt_entry_event attempt_entry_of_event [OF ok] accepted_of_start by metis
  have "attempt_facts ` set (te_attempts x) =
      {(sessionId e, as_attemptId p, as_attemptNumber p, as_test p) | e p.
        (\<exists>a \<in> set (attempt_entries h). an_event a = e \<and> an_started a = p) \<and> executionId (as_test p) = k}"
    unfolding kl(1) execution_of_sel set_group_attempts_sorted l image_image attempt_facts_def project_attempt_sel by blast
  then show ?thesis unfolding iff by (auto simp: start_facts_def kl(1))
qed

lemma execution_exists:
  assumes ok: "lifecycle_ok single h" and e: "e \<in> set (accepted_of h)" "payload e = AttemptStarted p"
  shows "executionId (as_test p) \<in> te_executionId ` set (projected_executions h)"
proof -
  obtain a where a: "a \<in> set (attempt_entries h)" "an_started a = p"
    using attempt_entry_of_event [OF ok accepted_of_mem [OF e(1)] e(2)] by blast
  from group_of_entry [OF a(1)] a(2) show ?thesis
    by (force simp: projected_executions_def)
qed

text \<open>
  C31. A run the validator accepts is always projected: the checks for a reused attempt number, a
  changed identity or a changed runner cannot fire, and the projection neither invents nor loses an
  attempt.  Executions come in strictly ascending execution ids, the attempts of each in strictly
  ascending attempt numbers with the highest as the final one, and together they are the attempts
  the accepted events start, with their sessions and tests.
\<close>

theorem valid_run_projects:
  assumes "fst (finish fs opts (feed_files h opts single files new_validator) fds) = Inr (r, st)"
    and "rep_valid r" and "opt_retainEvents opts" and "accepted st \<noteq> []"
  shows "\<exists>run. projectRun pid dir (run_snapshot r st) = Inr run \<and>
    (\<forall>e \<in> set (accepted st). runId e = run_runId run) \<and>
    sorted_wrt (<) (map te_executionId (run_executions run)) \<and>
    te_executionId ` set (run_executions run) =
      {executionId (as_test p) | e p. e \<in> set (accepted st) \<and> payload e = AttemptStarted p} \<and>
    (\<forall>x \<in> set (run_executions run). te_attempts x \<noteq> [] \<and> te_finalAttempt x = last (te_attempts x) \<and>
       sorted_wrt (<) (map pa_attemptNumber (te_attempts x)) \<and>
       attempt_facts ` set (te_attempts x) = start_facts (accepted st) (te_executionId x))"
proof -
  note v = valid_run_history [OF assms(1-3)]
  let ?H = "history_of (decode_files h opts 1 files)"
  have ne: "accepted_of ?H \<noteq> []" using assms(4) v(2) by simp
  from project_valid_history [OF v(1) ne assms(2) v(2)] obtain run where run:
    "projectRun pid dir (run_snapshot r st) = Inr run" "run_executions run = projected_executions ?H"
    "run_runId run = runId (hd (ordered (accepted_of ?H)))" by blast
  have "hd (ordered (accepted_of ?H)) \<in> set (map snd ?H)"
    using ne accepted_of_mem by (metis hd_in_set ordered_Nil_iff set_ordered)
  note first = this
  have one: "runId e = run_runId run" if "e \<in> set (accepted st)" for e
    unfolding run(3) by (rule lifecycle_one_run [OF v(1) accepted_of_mem first]) (use that in \<open>simp only: v(2)\<close>)
  have "te_executionId x \<in> {executionId (as_test p) | e p. e \<in> set (accepted st) \<and> payload e = AttemptStarted p}"
    if "x \<in> set (projected_executions ?H)" for x
  proof -
    from execution_attempts_sorted(2) [OF v(1) that] have "start_facts (accepted_of ?H) (te_executionId x) \<noteq> {}"
      unfolding execution_facts [OF v(1) that, symmetric] by simp
    then obtain e p where "e \<in> set (accepted_of ?H)" "payload e = AttemptStarted p"
      "executionId (as_test p) = te_executionId x"
      unfolding start_facts_def by blast
    then show ?thesis unfolding mem_Collect_eq v(2) by metis
  qed
  with execution_exists [OF v(1)]
  have ids: "te_executionId ` set (projected_executions ?H) =
      {executionId (as_test p) | e p. e \<in> set (accepted st) \<and> payload e = AttemptStarted p}"
    unfolding v(2) by blast
  have each: "te_attempts x \<noteq> [] \<and> te_finalAttempt x = last (te_attempts x) \<and>
      sorted_wrt (<) (map pa_attemptNumber (te_attempts x)) \<and>
      attempt_facts ` set (te_attempts x) = start_facts (accepted st) (te_executionId x)"
    if "x \<in> set (run_executions run)" for x
    using that execution_attempts_sorted [OF v(1), of x] execution_facts [OF v(1), of x] unfolding run(2) v(2) by blast
  have "sorted_wrt (<) (map te_executionId (run_executions run))"
    unfolding run(2) by (rule executions_sorted)
  with run(1) one ids [folded run(2)] each show ?thesis
    by (intro exI [of _ run] conjI ballI) blast+
qed

lemma sample_accepted:
  assumes "fst (finish fs sample_options
      (feed_files sample_host sample_options True sample_files new_validator) fds) = Inr (r, st)" and "rep_valid r"
  shows "accepted st = [run_started, run_attempt, run_result, run_finished]"
proof -
  have "opt_retainEvents sample_options" by (simp add: sample_options_def)
  from valid_run_history(2) [OF assms this] show ?thesis
    unfolding sample_history_of
    by (simp add: accepted_of_def sample_history_def isKnownEvent_def eventType_def sample_run_defs
        isKnownEventType_def EVENT_TYPES_def)
qed

theorem valid_run_projects_witness:
  "\<exists>fs fds r st run. fst (finish fs sample_options
      (feed_files sample_host sample_options True sample_files new_validator) fds) = Inr (r, st) \<and>
     rep_valid r \<and> projectRun (js ''p'') (js ''d'') (run_snapshot r st) = Inr run \<and>
     te_executionId ` set (run_executions run) = {executionId sample_test}"
proof -
  obtain r st where rs: "fst (finish undefined sample_options
      (feed_files sample_host sample_options True sample_files new_validator) []) = Inr (r, st)" "rep_valid r"
    by (rule sample_finish)
  note acc = sample_accepted [OF rs]
  have opts: "opt_retainEvents sample_options" by (simp add: sample_options_def)
  have ne: "accepted st \<noteq> []" by (simp add: acc)
  have "executionId (as_test p) = executionId sample_test" if "e \<in> set (accepted st)" "payload e = AttemptStarted p" for e p
    using that by (auto simp: acc sample_run_defs)
  moreover have "run_attempt \<in> set (accepted st)" "\<exists>p. payload run_attempt = AttemptStarted p" by (simp_all add: acc sample_run_defs)
  ultimately have "{executionId (as_test p) | e p. e \<in> set (accepted st) \<and> payload e = AttemptStarted p} =
      {executionId sample_test}"
    unfolding set_eq_iff mem_Collect_eq singleton_iff by metis
  note ids = this
  obtain run where "projectRun (js ''p'') (js ''d'') (run_snapshot r st) = Inr run"
    "te_executionId ` set (run_executions run) =
      {executionId (as_test p) | e p. e \<in> set (accepted st) \<and> payload e = AttemptStarted p}"
    using valid_run_projects [OF rs opts ne, of "js ''p''" "js ''d''"] by (elim exE conjE) (rule that)
  with rs show ?thesis unfolding ids by (intro exI conjI)
qed

text \<open>
  C32. The projection of a run the validator accepted does not depend on the order of the events in
  its snapshot: any permutation of the accepted events projects to the same run.
\<close>

theorem projection_ignores_event_order:
  assumes "fst (finish fs opts (feed_files h opts single files new_validator) fds) = Inr (r, st)"
    and "rep_valid r" and "opt_retainEvents opts" and "mset es = mset (accepted st)"
  shows "projectRun pid dir ((run_snapshot r st)\<lparr>vr_events := es\<rparr>) = projectRun pid dir (run_snapshot r st)"
proof -
  note v = valid_run_history [OF assms(1-3)]
  have "distinct (map replay_key (accepted st))"
    unfolding v(2) accepted_of_def by (rule distinct_map_filter [OF replay_keys_distinct [OF v(1)]])
  from sort_key_unique [OF assms(4) [symmetric] this] have "ordered es = ordered (accepted st)"
    by (simp add: ordered_def)
  then show ?thesis by (simp add: projectRun_def run_snapshot_def)
qed

theorem projection_ignores_event_order_witness:
  "\<exists>fs fds r st. fst (finish fs sample_options
      (feed_files sample_host sample_options True sample_files new_validator) fds) = Inr (r, st) \<and>
     rep_valid r \<and>
     projectRun (js ''p'') (js ''d'')
       ((run_snapshot r st)\<lparr>vr_events := [run_finished, run_result, run_attempt, run_started]\<rparr>) =
     projectRun (js ''p'') (js ''d'') (run_snapshot r st)"
proof -
  obtain r st where rs: "fst (finish undefined sample_options
      (feed_files sample_host sample_options True sample_files new_validator) []) = Inr (r, st)" "rep_valid r"
    by (rule sample_finish)
  have opts: "opt_retainEvents sample_options" by (simp add: sample_options_def)
  have "mset [run_finished, run_result, run_attempt, run_started] = mset (accepted st)"
    by (simp add: sample_accepted [OF rs])
  with projection_ignores_event_order [OF rs opts this] rs show ?thesis by blast
qed

section \<open>Completeness\<close>

lemma one_session_accepted: "one_session_attempts (accepted_of h) \<longleftrightarrow> one_session_attempts (map snd h)"
proof -
  have "isKnownEvent e" if "payload e = AttemptStarted p \<or> attempt_of (payload e) = Some k" for e p k
    using that known_attempt_of by auto
  then show ?thesis
    unfolding one_session_attempts_def accepted_of_def set_filter Ball_def mem_Collect_eq by blast
qed

lemma sessions_complete_iff:
  assumes ok: "lifecycle_ok single h"
  shows "(\<forall>s \<in> set (pj_sessions (projected (accepted_of h))). se_finished (snd s) \<noteq> None) \<longleftrightarrow>
    (\<forall>e \<in> set (map snd h). session_ended (map snd h) (sessionId e))"
proof -
  let ?ses = "pj_sessions (projected (accepted_of h))"
  have get: "(k, s) \<in> set ?ses \<longleftrightarrow> jget ?ses k = Some s" for k s
    using projected_keys(2) [of "accepted_of h"] by (simp add: jkeys_ok_def)
  have "(\<forall>s \<in> set ?ses. se_finished (snd s) \<noteq> None) \<longleftrightarrow>
      (\<forall>k s. jget ?ses k = Some s \<longrightarrow> se_finished s \<noteq> None)"
    unfolding get [symmetric] by auto
  also have "\<dots> \<longleftrightarrow> (\<forall>k s. jget ?ses k = Some s \<longrightarrow> session_ended (map snd h) k)"
    using session_entry_finished [OF ok] by blast
  also have "\<dots> \<longleftrightarrow> (\<forall>k. jget ?ses k \<noteq> None \<longrightarrow> session_ended (map snd h) k)" by auto
  also have "\<dots> \<longleftrightarrow> (\<forall>e \<in> set (map snd h). session_ended (map snd h) (sessionId e))"
    unfolding projected_session_iff accepted_of_session_begun
    using attempt_session_begun [OF ok] unfolding session_begun_def by blast
  finally show ?thesis .
qed

lemma attempts_complete_iff:
  assumes ok: "lifecycle_ok single h" and one: "one_session_attempts (map snd h)"
  shows "(\<forall>a \<in> set (attempt_entries h). an_finished a \<noteq> None \<and> list_all (\<lambda>s. sn_finished s \<noteq> None) (an_steps a)) \<longleftrightarrow>
    (\<forall>e \<in> set (map snd h).
       (case attempt_start (payload e) of None \<Rightarrow> True | Some p \<Rightarrow> attempt_ended (map snd h) (as_attemptId p)) \<and>
       (case starts_step (payload e) of None \<Rightarrow> True | Some (a, s) \<Rightarrow> step_ended (map snd h) a s))" (is "?L \<longleftrightarrow> ?R")
proof
  assume L: ?L
  show ?R
  proof (intro ballI conjI)
    fix e assume e: "e \<in> set (map snd h)"
    have ended: "attempt_ended (map snd h) k" "step_started (map snd h) k s \<Longrightarrow> step_ended (map snd h) k s"
      if d: "d \<in> set (map snd h)" "payload d = AttemptStarted p" "as_attemptId p = k" for d p k s
    proof -
      obtain a where "a \<in> set (attempt_entries h)" "an_started a = p"
        using attempt_entry_of_event [OF ok d(1,2)] by blast
      with L entry_finished_iff [OF ok one] entry_steps [OF ok one] d(3)
      show "attempt_ended (map snd h) k" "step_started (map snd h) k s \<Longrightarrow> step_ended (map snd h) k s"
        by auto
    qed
    show "case attempt_start (payload e) of None \<Rightarrow> True | Some p \<Rightarrow> attempt_ended (map snd h) (as_attemptId p)"
      using ended(1) [OF e] by (auto simp: attempt_start_iff split: option.splits)
    show "case starts_step (payload e) of None \<Rightarrow> True | Some (a, s) \<Rightarrow> step_ended (map snd h) a s"
    proof (cases "payload e")
      case (StepStarted p)
      from e obtain j where j: "j < length h" "e = snd (h ! j)" by (force simp: in_set_conv_nth)
      with StepStarted have "attempt_of (payload (snd (h ! j))) = Some (st_attemptId p)" by simp
      from attempt_before [OF ok j(1) this] j(1) obtain i q where
        i: "i < length h" "payload (snd (h ! i)) = AttemptStarted q" "as_attemptId q = st_attemptId p"
        by (meson order_less_trans)
      have "step_started (map snd h) (st_attemptId p) (st_stepId p)"
        using e StepStarted unfolding step_started_def by (metis starts_step.simps(1))
      with ended(2) [OF _ i(2,3)] i(1) show ?thesis by (simp add: StepStarted)
    qed simp_all
  qed
next
  assume R: ?R
  show ?L
  proof
    fix a assume a: "a \<in> set (attempt_entries h)"
    note s = attempt_entry_event [OF a]
    have "attempt_ended (map snd h) (as_attemptId (an_started a))" using R s by fastforce
    moreover have "step_ended (map snd h) k x" if "step_started (map snd h) k x" for k x
      using R that unfolding step_started_def by fastforce
    ultimately show "an_finished a \<noteq> None \<and> list_all (\<lambda>s. sn_finished s \<noteq> None) (an_steps a)"
      using entry_finished_iff [OF ok one a] entry_steps [OF ok one a] by blast
  qed
qed

lemma project_step_finished: "psp_finished (project_step s) \<longleftrightarrow> sn_finished s \<noteq> None"
  by (simp add: project_step_def Let_def)

lemma project_session_finished: "ps_finished (project_session s) \<longleftrightarrow> se_finished s \<noteq> None"
  by (simp add: project_session_def Let_def)

lemma project_attempt_steps: "pa_steps (project_attempt a) = map project_step (an_steps a)"
  by (simp add: project_attempt_def Let_def)

definition execution_finished :: "test_execution \<Rightarrow> bool" where
  "execution_finished x \<longleftrightarrow> te_complete x \<and> list_all (\<lambda>a. list_all psp_finished (pa_steps a)) (te_attempts x)"

lemma executions_finished_iff:
  "list_all execution_finished (projected_executions h) \<longleftrightarrow>
     (\<forall>a \<in> set (attempt_entries h). an_finished a \<noteq> None \<and> list_all (\<lambda>s. sn_finished s \<noteq> None) (an_steps a))"
    (is "_ \<longleftrightarrow> (\<forall>a \<in> _. ?P a)")
proof -
  let ?ses = "pj_sessions (projected (accepted_of h))"
  have "execution_finished (execution_of ?ses (k, l)) \<longleftrightarrow> (\<forall>a \<in> set l. ?P a)" for k l
    by (auto simp: execution_finished_def list_all_iff project_attempt_steps project_step_finished)
  then have "list_all execution_finished (projected_executions h) \<longleftrightarrow>
      (\<forall>(k, l) \<in> set (group_attempts (attempt_entries h)). \<forall>a \<in> set l. ?P a)"
    by (auto simp: projected_executions_def list_all_iff)
  also have "\<dots> \<longleftrightarrow> (\<forall>a \<in> set (attempt_entries h). ?P a)"
  proof
    assume all: "\<forall>(k, l) \<in> set (group_attempts (attempt_entries h)). \<forall>a \<in> set l. ?P a"
    show "\<forall>a \<in> set (attempt_entries h). ?P a"
    proof
      fix a assume "a \<in> set (attempt_entries h)"
      from group_of_entry [OF this] all show "?P a" by blast
    qed
  next
    assume all: "\<forall>a \<in> set (attempt_entries h). ?P a"
    have "?P a" if "(k, l) \<in> set (group_attempts (attempt_entries h))" "a \<in> set l" for k l a
      using all that(2) group_attempts_entry(1) [OF that(1)] by auto
    then show "\<forall>(k, l) \<in> set (group_attempts (attempt_entries h)). \<forall>a \<in> set l. ?P a" by blast
  qed
  finally show ?thesis .
qed

text \<open>
  C33. Where every event of an attempt is in the session that started the attempt, the projection
  and the validator agree on completeness: the flag the validator computed from its own state is
  set exactly when every projected session, every attempt of every execution and every step of
  every attempt is projected as finished.
\<close>

theorem projection_agrees_on_completeness:
  assumes "fst (finish fs opts (feed_files h opts single files new_validator) fds) = Inr (r, st)"
    and "rep_valid r" and "opt_retainEvents opts" and "accepted st \<noteq> []"
    and "one_session_attempts (accepted st)"
    and "projectRun pid dir (run_snapshot r st) = Inr run"
  shows "vf_complete (run_validator run) \<longleftrightarrow>
    list_all ps_finished (run_sessions run) \<and> list_all execution_finished (run_executions run)"
proof -
  note v = valid_run_history [OF assms(1-3)]
  let ?H = "history_of (decode_files h opts 1 files)"
  have ne: "accepted_of ?H \<noteq> []" using assms(4) v(2) by simp
  have one: "one_session_attempts (map snd ?H)" using assms(5) by (simp only: v(2) one_session_accepted)
  obtain run' where run': "projectRun pid dir (run_snapshot r st) = Inr run'"
    "run_executions run' = projected_executions ?H"
    "run_sessions run' = sort_key ps_sessionId (map (\<lambda>x. project_session (snd x)) (pj_sessions (projected (accepted_of ?H))))"
    "vf_complete (run_validator run') = sum_complete (rep_summary r)"
    by (rule project_valid_history [OF v(1) ne assms(2) v(2)])
  have "run' = run" using run'(1) assms(6) by simp
  note run = run'(2-4) [unfolded this]
  have "list_all ps_finished (run_sessions run) \<longleftrightarrow>
      (\<forall>s \<in> set (pj_sessions (projected (accepted_of ?H))). se_finished (snd s) \<noteq> None)"
    by (simp add: run(2) list_all_iff project_session_finished)
  also note sessions_complete_iff [OF v(1)]
  finally have ses: "list_all ps_finished (run_sessions run) \<longleftrightarrow>
      (\<forall>e \<in> set (map snd ?H). session_ended (map snd ?H) (sessionId e))" .
  show ?thesis
    unfolding run(1,3) ses executions_finished_iff attempts_complete_iff [OF v(1) one] v(4) history_complete_def
    by blast
qed

theorem projection_agrees_on_completeness_witness:
  "\<exists>fs fds r st run. fst (finish fs sample_options
      (feed_files sample_host sample_options True sample_files new_validator) fds) = Inr (r, st) \<and>
     rep_valid r \<and> one_session_attempts (accepted st) \<and>
     projectRun (js ''p'') (js ''d'') (run_snapshot r st) = Inr run \<and>
     (vf_complete (run_validator run) \<longleftrightarrow>
       list_all ps_finished (run_sessions run) \<and> list_all execution_finished (run_executions run))"
proof -
  obtain r st where rs: "fst (finish undefined sample_options
      (feed_files sample_host sample_options True sample_files new_validator) []) = Inr (r, st)" "rep_valid r"
    by (rule sample_finish)
  note acc = sample_accepted [OF rs]
  have opts: "opt_retainEvents sample_options" by (simp add: sample_options_def)
  have ne: "accepted st \<noteq> []" by (simp add: acc)
  have one: "one_session_attempts (accepted st)"
    by (simp add: acc one_session_attempts_def sample_run_defs)
  note v = valid_run_history [OF rs opts]
  have "accepted_of (history_of (decode_files sample_host sample_options 1 sample_files)) \<noteq> []"
    using ne v(2) by simp
  from project_valid_history [OF v(1) this rs(2) v(2)]
  obtain run where run: "projectRun (js ''p'') (js ''d'') (run_snapshot r st) = Inr run" by blast
  from projection_agrees_on_completeness [OF rs opts ne one run] rs one run show ?thesis
    by (intro exI conjI)
qed

section \<open>Flakiness\<close>

definition passed_as_expected :: "projected_attempt \<Rightarrow> bool" where
  "passed_as_expected a \<longleftrightarrow> pa_finished a \<and> pa_status a = Some Passed \<and> expected a = ExpectPassed"

definition failed_unexpectedly :: "projected_attempt \<Rightarrow> bool" where
  "failed_unexpectedly a \<longleftrightarrow> pa_finished a \<and> pa_status a = Some Failed \<and> expected a = ExpectPassed"

lemma latest_mem: "latest f as \<in> set (f # as)"
proof (induction as arbitrary: f)
  case (Cons b as)
  show ?case using Cons.IH [of b] Cons.IH [of f] by (simp del: set_simps) (auto simp: set_simps)
qed simp

lemma latest_max: "a \<in> set (f # as) \<Longrightarrow> pa_attemptNumber a \<le> pa_attemptNumber (latest f as)"
proof (induction as arbitrary: f a)
  case (Cons b as)
  let ?g = "if pa_attemptNumber b > pa_attemptNumber f then b else f"
  have step: "latest f (b # as) = latest ?g as" by simp
  have up: "pa_attemptNumber f \<le> pa_attemptNumber ?g" "pa_attemptNumber b \<le> pa_attemptNumber ?g" by simp_all
  have top: "pa_attemptNumber ?g \<le> pa_attemptNumber (latest ?g as)" by (rule Cons.IH) simp
  consider "a = f" | "a = b" | "a \<in> set as" using Cons.prems by auto
  then show ?case
  proof cases
    case 3
    then show ?thesis unfolding step by (intro Cons.IH) simp
  next
    case 1
    then show ?thesis unfolding step using order_trans [OF up(1) top] by (simp only:)
  next
    case 2
    then show ?thesis unfolding step using order_trans [OF up(2) top] by (simp only:)
  qed
qed simp

text \<open>
  An execution whose attempts have distinct numbers is flaky exactly when its highest-numbered
  attempt passed as expected and a lower-numbered one finished as an unexpected failure; in which
  order the attempts are given does not matter.
\<close>

theorem flaky_iff:
  assumes "distinct (map pa_attemptNumber as)"
  shows "isFlaky as \<longleftrightarrow>
    (\<exists>f \<in> set as. passed_as_expected f \<and> (\<forall>a \<in> set as. pa_attemptNumber a \<le> pa_attemptNumber f) \<and>
       (\<exists>a \<in> set as. pa_attemptNumber a < pa_attemptNumber f \<and> failed_unexpectedly a))"
proof (cases "\<exists>a b rest. as = a # b # rest")
  case True
  then obtain a b rest where as: "as = a # b # rest" by blast
  define f where "f = latest a (b # rest)"
  have f: "f \<in> set as" "\<forall>x \<in> set as. pa_attemptNumber x \<le> pa_attemptNumber f"
    unfolding f_def as using latest_mem latest_max by blast+
  have uniq: "x = f" if "x \<in> set as" "pa_attemptNumber x = pa_attemptNumber f" for x
    using assms f(1) that by (auto simp: distinct_map dest: inj_onD)
  have "isFlaky as \<longleftrightarrow> passed_as_expected f \<and> (\<exists>x \<in> set as. x \<noteq> f \<and> failed_unexpectedly x)"
    unfolding isFlaky_def passed_as_expected_def failed_unexpectedly_def list_ex_iff as list.case Let_def f_def [symmetric] by blast
  also have "\<dots> \<longleftrightarrow> passed_as_expected f \<and>
      (\<exists>x \<in> set as. pa_attemptNumber x < pa_attemptNumber f \<and> failed_unexpectedly x)"
  proof -
    have "x \<noteq> f \<longleftrightarrow> pa_attemptNumber x < pa_attemptNumber f" if "x \<in> set as" for x
    proof
      assume "x \<noteq> f"
      then have "pa_attemptNumber x \<noteq> pa_attemptNumber f" using uniq [OF that] by blast
      moreover have "pa_attemptNumber x \<le> pa_attemptNumber f" using f(2) that by blast
      ultimately show "pa_attemptNumber x < pa_attemptNumber f" by (rule le_neq_trans [rotated])
    next
      assume "pa_attemptNumber x < pa_attemptNumber f"
      then show "x \<noteq> f" by auto
    qed
    then show ?thesis by blast
  qed
  finally have flaky: "isFlaky as \<longleftrightarrow> passed_as_expected f \<and>
      (\<exists>x \<in> set as. pa_attemptNumber x < pa_attemptNumber f \<and> failed_unexpectedly x)" .
  have "g = f" if "g \<in> set as" "\<forall>x \<in> set as. pa_attemptNumber x \<le> pa_attemptNumber g" for g
    using that f by (intro uniq order_antisym) blast+
  then show ?thesis unfolding flaky using f by blast
next
  case False
  then have "as = [] \<or> (\<exists>a. as = [a])" by (metis neq_Nil_conv)
  then show ?thesis by (auto simp: isFlaky_def)
qed

definition sample_try :: "int \<Rightarrow> status \<Rightarrow> projected_attempt" where
  "sample_try n s = \<lparr>pa_attemptId = js ''a'', pa_attemptNumber = n, pa_sessionId = js ''s'',
     pa_startedAt = js ''2026-09-11T10:00:30Z'', pa_test = sample_test, pa_finished = True,
     pa_finishedAt = None, pa_status = Some s, pa_rawStatus = None, pa_expectedStatus = None,
     pa_durationMs = None, pa_failures = [], pa_steps = [], pa_attachments = []\<rparr>"

theorem flaky_iff_witness: "isFlaky [sample_try 2 Passed, sample_try 1 Failed]"
proof -
  have "distinct (map pa_attemptNumber [sample_try 2 Passed, sample_try 1 Failed])"
    by (simp add: sample_try_def)
  then show ?thesis
    by (simp add: flaky_iff passed_as_expected_def failed_unexpectedly_def expected_def sample_try_def)
qed

end
