(* ===== verification/Projector_Findings.thy ===== *)
theory Projector_Findings
  imports Projector_Properties Validator_Findings
begin

text \<open>
  Which results the projector keeps.  It replays the events by session id and sequence, so a result
  that sorts before the start of its attempt is dropped.  The validator has no rule against one: a
  run it reports as valid and complete may be projected with an open execution.
\<close>

section \<open>Results before their start\<close>

lemma ends_attempt:
  "map_option af_attemptId (attempt_end q) = Some k \<longleftrightarrow> (\<exists>r. q = AttemptFinished r \<and> af_attemptId r = k)"
  by (cases q) auto

lemma entry_finished_order:
  assumes ok: "lifecycle_ok single h" and a: "a \<in> set (attempt_entries h)"
  shows "an_finished a \<noteq> None \<longleftrightarrow> (\<exists>d \<in> set (accepted_of h). \<exists>q. payload d = AttemptFinished q \<and>
    af_attemptId q = as_attemptId (an_started a) \<and> replay_key (an_event a) < replay_key d)"
proof -
  let ?k = "as_attemptId (an_started a)"
  note d = attempt_entry_event [OF a]
  obtain us vs where s: "ordered (accepted_of h) = us @ an_event a # vs" "\<not> attempt_started vs ?k"
    "set vs = {e \<in> set (accepted_of h). replay_key (an_event a) < replay_key e}"
    by (rule attempt_split_order [OF ok d])
  from replay_finished [OF s(2), of "new_attempt (an_event a) (an_started a)"] entry_replay [OF a s(1)]
  have "an_finished a \<noteq> None \<longleftrightarrow> attempt_ended vs ?k" by (auto simp: new_attempt_def)
  also have "\<dots> \<longleftrightarrow> (\<exists>d \<in> set vs. \<exists>q. payload d = AttemptFinished q \<and> af_attemptId q = ?k)"
    unfolding attempt_ended_def ends_attempt ..
  finally show ?thesis unfolding s(3) by blast
qed

text \<open>
  C39. A result is kept exactly when it sorts after the start of its attempt: in the projection of any
  valid run, an attempt is finished if and only if one of its results comes after its start by session
  id and then by sequence number.  So when every result stands in a session whose id sorts before the
  session of the start, the attempt is projected as open and its execution as not complete, while the
  completeness of the run is still the one the validator reported.
\<close>

theorem cross_session_end_lost:
  assumes "fst (finish fs opts (feed_files h opts single files new_validator) fds) = Inr (r, st)"
    and "rep_valid r" and "opt_retainEvents opts" and "projectRun pid dir (run_snapshot r st) = Inr run"
    and "e \<in> set (accepted st)" and "payload e = AttemptStarted p"
  shows "vf_complete (run_validator run) = sum_complete (rep_summary r) \<and>
    (\<exists>x \<in> set (run_executions run). \<exists>a \<in> set (te_attempts x).
       te_executionId x = executionId (as_test p) \<and> pa_attemptId a = as_attemptId p \<and> pa_sessionId a = sessionId e \<and>
       (pa_finished a \<longleftrightarrow> (\<exists>d \<in> set (accepted st). \<exists>q. payload d = AttemptFinished q \<and>
          af_attemptId q = as_attemptId p \<and> (sessionId e, sequence e) < (sessionId d, sequence d))) \<and>
       ((\<forall>d \<in> set (accepted st). \<forall>q. payload d = AttemptFinished q \<longrightarrow> af_attemptId q = as_attemptId p \<longrightarrow>
          sessionId d < sessionId e) \<longrightarrow> \<not> pa_finished a \<and> \<not> te_complete x))"
proof -
  note v = valid_run_history [OF assms(1-3)]
  let ?H = "history_of (decode_files h opts 1 files)"
  have e: "e \<in> set (accepted_of ?H)" using assms(5) by (simp only: v(2))
  then have "accepted_of ?H \<noteq> []" by auto
  from project_valid_history [OF v(1) this assms(2) v(2)] assms(4)
  have run: "run_executions run = projected_executions ?H" "vf_complete (run_validator run) = sum_complete (rep_summary r)"
    by (metis sum.inject(2))+
  obtain b where b: "b \<in> set (attempt_entries ?H)" "an_event b = e" "an_started b = p"
    by (rule attempt_entry_of_event [OF v(1) accepted_of_mem [OF e] assms(6)])
  obtain l where l: "(executionId (as_test p), l) \<in> set (group_attempts (attempt_entries ?H))" "b \<in> set l"
    using group_of_entry [OF b(1)] b(3) by auto
  let ?x = "execution_of (pj_sessions (projected (accepted_of ?H))) (executionId (as_test p), l)" and ?a = "project_attempt b"
  have x: "?x \<in> set (run_executions run)" using l(1) by (force simp: run(1) projected_executions_def)
  have a: "?a \<in> set (te_attempts ?x)" using l(2) by simp
  have fin: "pa_finished ?a \<longleftrightarrow> (\<exists>d \<in> set (accepted st). \<exists>q. payload d = AttemptFinished q \<and>
      af_attemptId q = as_attemptId p \<and> (sessionId e, sequence e) < (sessionId d, sequence d))"
    using entry_finished_order [OF v(1) b(1)] by (simp only: project_attempt_sel b(2,3) v(2))
  have "\<not> pa_finished ?a" if "\<forall>d \<in> set (accepted st). \<forall>q. payload d = AttemptFinished q \<longrightarrow>
      af_attemptId q = as_attemptId p \<longrightarrow> sessionId d < sessionId e"
    unfolding fin using that by (auto simp: less_prod_def')
  moreover have "te_complete ?x \<Longrightarrow> pa_finished ?a" using l(2) by (simp add: list_all_iff)
  ultimately show ?thesis
    using x a fin run(2) b by (intro conjI bexI [of _ ?x] bexI [of _ ?a]) auto
qed

section \<open>A complete run with an open execution\<close>

definition home_finished :: event where
  "home_finished = run_finished\<lparr>sequence := 3\<rparr>"

definition split_host :: host where
  "split_host = crossing_host\<lparr>json_parse := (\<lambda>raw.
     if raw = js ''8'' then Inr (eventToObject home_finished) else json_parse crossing_host raw)\<rparr>"

definition split_files :: "(jstring \<times> jstring list) list" where
  "split_files = [file_a, file_b, (js ''c.ndjson'', [js ''8''])]"

definition split_history :: history where
  "split_history = [(1, run_started), (1, run_attempt), (2, other_started), (2, other_result), (2, other_finished),
     (3, home_finished)]"

lemmas split_defs = home_finished_def other_defs sample_run_defs

lemma home_read: "eventFromObject (eventToObject home_finished) = Inr home_finished"
proof -
  have "wf_event run_finished" using sample_run_read eventFromObject_wf by blast
  then have "wf_event home_finished" by (simp add: wf_event_def home_finished_def is_safe_int_def MAX_SAFE_INTEGER_def)
  moreover have "normal_event home_finished = home_finished" by (simp add: split_defs normal_event_def)
  ultimately show ?thesis using eventFromObject_eventToObject by metis
qed

lemma split_line_read:
  "read_value split_host sample_options (js ''1'') = Some (eventToObject run_started, run_started)"
  "read_value split_host sample_options (js ''2'') = Some (eventToObject run_attempt, run_attempt)"
  "read_value split_host sample_options (js ''5'') = Some (eventToObject other_started, other_started)"
  "read_value split_host sample_options (js ''6'') = Some (eventToObject other_result, other_result)"
  "read_value split_host sample_options (js ''7'') = Some (eventToObject other_finished, other_finished)"
  "read_value split_host sample_options (js ''8'') = Some (eventToObject home_finished, home_finished)"
  by (rule read_valueI; simp add: split_host_def crossing_host_def sample_options_def sample_run_read other_read home_read)+

lemma split_line_blank: "\<not> is_blank (js ''8'')"
  by (simp add: is_blank_def is_js_space_def js_def)

lemmas split_read = split_line_read split_line_blank crossing_line_blank split_files_def file_a_def file_b_def

lemma split_decoded:
  "decode_files split_host sample_options 1 split_files =
     [(1, eventToObject run_started, run_started), (1, eventToObject run_attempt, run_attempt),
      (2, eventToObject other_started, other_started), (2, eventToObject other_result, other_result),
      (2, eventToObject other_finished, other_finished), (3, eventToObject home_finished, home_finished)]"
  by (simp add: split_read)

lemma split_history_of: "history_of (decode_files split_host sample_options 1 split_files) = split_history"
  unfolding split_decoded by (simp add: split_history_def dec_id_def split_defs)

lemma split_valid: "run_is_valid split_host fs sample_options True split_files"
proof -
  have es: "run_history split_host sample_options split_files = map snd split_history"
    unfolding run_history_def split_history_of ..
  have "list_all (\<lambda>x. list_all (line_ok split_host sample_options) (snd x)) split_files"
    by (simp add: line_ok_def split_read)
  moreover have "repeats_ok (decode_files split_host sample_options 1 split_files)"
    unfolding split_decoded by (simp add: repeats_ok_def dec_id_def dec_key_def split_defs)
  moreover have "lifecycle_ok True split_history" "run_end_ok (map snd split_history)" "history_complete (map snd split_history)"
    unfolding split_history_def split_defs by code_simp+
  ultimately show ?thesis
    unfolding run_is_valid_def run_lines_ok_def split_history_of es Let_def
    by (simp add: attachments_ok_def sample_options_def)
qed

theorem cross_session_end_lost_witness:
  "\<exists>fs fds r st run. fst (finish fs sample_options
      (feed_files split_host sample_options True split_files new_validator) fds) = Inr (r, st) \<and>
     rep_valid r \<and> projectRun (js ''p'') (js ''d'') (run_snapshot r st) = Inr run \<and>
     vf_complete (run_validator run) \<and> (\<exists>x \<in> set (run_executions run). \<not> te_complete x)"
proof -
  have none: "opt_attachmentsDir sample_options = None" and opts: "opt_retainEvents sample_options"
    by (simp_all add: sample_options_def)
  obtain r st where rs: "fst (finish undefined sample_options
      (feed_files split_host sample_options True split_files new_validator) []) = Inr (r, st)"
    using finish_without_directory [OF none] by blast
  have valid: "rep_valid r" using finish_valid_iff [OF rs] split_valid by blast
  note v = valid_run_history [OF rs valid opts, unfolded split_history_of]
  have acc: "accepted st = [run_started, run_attempt, other_started, other_result, other_finished, home_finished]"
    unfolding v(2) by (simp add: accepted_of_def split_history_def isKnownEvent_def eventType_def split_defs
        isKnownEventType_def EVENT_TYPES_def)
  have complete: "sum_complete (rep_summary r)"
    unfolding v(4) split_history_def split_defs by code_simp
  have "accepted_of split_history \<noteq> []" using acc v(2) by simp
  from project_valid_history [OF v(1) this valid v(2)]
  obtain run where run: "projectRun (js ''p'') (js ''d'') (run_snapshot r st) = Inr run" by blast
  obtain p where p: "payload run_attempt = AttemptStarted p" "as_attemptId p = js ''a''" by (simp add: sample_run_defs)
  have "js ''b'' < js ''s''" "\<not> js ''s'' < js ''b''" by code_simp+
  note order = this
  have "run_attempt \<in> set (accepted st)" by (simp add: acc)
  from cross_session_end_lost [OF rs valid opts run this p(1)]
  have "vf_complete (run_validator run)" "\<exists>x \<in> set (run_executions run). \<not> te_complete x"
    using complete order by (auto simp: acc split_defs)
  with rs valid run show ?thesis by blast
qed

end
