(* ===== verification/History_Order.thy ===== *)
theory History_Order
  imports Timestamp Json
begin

text \<open>
  The order of histories (\<open>read-model/src/history-order.ts\<close>): a producer timestamp is read to a
  position, the millisecond of its instant and, for a leap second, the place inside it.

  \<open>Date.parse\<close> belongs to the language: the model computes the time value of ECMAScript
  (\<open>MakeDay\<close>, \<open>MakeTime\<close>) for the one format the source passes to it.
\<close>

section \<open>The calendar\<close>

definition leap_year :: "int \<Rightarrow> bool" where
  "leap_year y \<longleftrightarrow> y mod 4 = 0 \<and> (y mod 100 \<noteq> 0 \<or> y mod 400 = 0)"

definition DAYS_IN_MONTH :: "int list" where
  "DAYS_IN_MONTH = [0, 31, 28, 31, 30, 31, 30, 31, 31, 30, 31, 30, 31]"

text \<open>\<open>month === 2 && leapYear ? 29 : (DAYS_IN_MONTH[month] ?? 0)\<close>.\<close>

definition month_days :: "int \<Rightarrow> nat \<Rightarrow> int" where
  "month_days year month =
     (if month = 2 \<and> leap_year year then 29
      else if month < length DAYS_IN_MONTH then DAYS_IN_MONTH ! month else 0)"

definition day_from_year :: "int \<Rightarrow> int" where
  "day_from_year y = 365 * (y - 1970) + (y - 1969) div 4 - (y - 1901) div 100 + (y - 1601) div 400"

definition day_number :: "int \<Rightarrow> nat \<Rightarrow> int \<Rightarrow> int" where
  "day_number y m d = day_from_year y + sum_list (map (month_days y) [1..<m]) + d - 1"

section \<open>Reading a timestamp\<close>

record history_instant =
  epochMs :: int
  leap :: int

definition is_negative :: "timestamp_groups \<Rightarrow> bool" where
  "is_negative g = (case ts_offset g of Some (c, _) \<Rightarrow> c = 0x2D | None \<Rightarrow> False)"

definition offset_hour :: "timestamp_groups \<Rightarrow> nat" where
  "offset_hour g = (case ts_offset g of Some (_, h, _) \<Rightarrow> digits_value h | None \<Rightarrow> 0)"

definition offset_minute :: "timestamp_groups \<Rightarrow> nat" where
  "offset_minute g = (case ts_offset g of Some (_, _, m) \<Rightarrow> digits_value m | None \<Rightarrow> 0)"

definition offset_minutes :: "timestamp_groups \<Rightarrow> int" where
  "offset_minutes g = (if is_negative g then -1 else 1) * int (offset_hour g * 60 + offset_minute g)"

text \<open>\<open>Number((fraction ?? '').padEnd(3, '0').slice(0, 3))\<close>.\<close>

definition millisecond :: "timestamp_groups \<Rightarrow> nat" where
  "millisecond g =
     (let f = (case ts_fraction g of None \<Rightarrow> [] | Some f \<Rightarrow> f)
      in digits_value (take 3 (f @ replicate (3 - length f) 0x30)))"

definition calendar_ok :: "timestamp_groups \<Rightarrow> bool" where
  "calendar_ok g =
     (let year = int (digits_value (ts_year g)); month = digits_value (ts_month g);
          day = int (digits_value (ts_day g))
      in \<not> (month < 1 \<or> 12 < month \<or> day < 1 \<or> month_days year month < day))"

definition clock_ok :: "timestamp_groups \<Rightarrow> bool" where
  "clock_ok g \<longleftrightarrow>
     \<not> (23 < digits_value (ts_hour g) \<or> 59 < digits_value (ts_minute g) \<or> 60 < digits_value (ts_second g) \<or>
        23 < offset_hour g \<or> 59 < offset_minute g)"

text \<open>
  \<open>Date.parse\<close> of a date-time with an offset, in milliseconds since the epoch; \<open>None\<close> is \<open>NaN\<close>.
  A second of 60 is not a legal element of the format.
\<close>

definition utc_minute :: "timestamp_groups \<Rightarrow> int" where
  "utc_minute g =
     day_number (int (digits_value (ts_year g))) (digits_value (ts_month g)) (int (digits_value (ts_day g))) * 1440 +
     int (digits_value (ts_hour g) * 60 + digits_value (ts_minute g)) - offset_minutes g"

definition Date_parse :: "jstring \<Rightarrow> int option" where
  "Date_parse s =
     (case match_timestamp s of
        None \<Rightarrow> None
      | Some g \<Rightarrow>
          if calendar_ok g \<and> clock_ok g \<and> digits_value (ts_second g) < 60
          then Some (utc_minute g * 60000 + int (digits_value (ts_second g) * 1000 + millisecond g))
          else None)"

definition invalid_timestamp :: "jstring \<Rightarrow> jstring" where
  "invalid_timestamp s = js ''not a protocol timestamp: '' @ quote_string (take 64 s)"

definition zone_text :: "timestamp_groups \<Rightarrow> jstring" where
  "zone_text g = (case ts_offset g of None \<Rightarrow> js ''Z'' | Some (c, h, m) \<Rightarrow> c # h @ js '':'' @ m)"

text \<open>The template of the leap-second branch: the second before, to its last millisecond.\<close>

definition before_leap :: "timestamp_groups \<Rightarrow> jstring" where
  "before_leap g =
     ts_year g @ js ''-'' @ ts_month g @ js ''-'' @ ts_day g @ js ''T'' @ ts_hour g @ js '':'' @ ts_minute g @
     js '':59.999'' @ zone_text g"

definition utc_minute_of_day :: "timestamp_groups \<Rightarrow> int" where
  "utc_minute_of_day g =
     (int (digits_value (ts_hour g) * 60 + digits_value (ts_minute g)) - offset_minutes g) mod 1440"

definition historyInstant :: "jstring \<Rightarrow> jstring + history_instant" where
  "historyInstant s =
     (case match_timestamp s of
        None \<Rightarrow> Inl (invalid_timestamp s)
      | Some g \<Rightarrow>
          if \<not> calendar_ok g then Inl (invalid_timestamp s)
          else if \<not> clock_ok g then Inl (invalid_timestamp s)
          else if digits_value (ts_second g) < 60
          then (case Date_parse s of
                  None \<Rightarrow> Inl (invalid_timestamp s)
                | Some t \<Rightarrow> Inr \<lparr>epochMs = t, leap = 0\<rparr>)
          else if utc_minute_of_day g \<noteq> 1439 then Inl (invalid_timestamp s)
          else (case Date_parse (before_leap g) of
                  None \<Rightarrow> Inl (invalid_timestamp s)
                | Some t \<Rightarrow> Inr \<lparr>epochMs = t, leap = 1 + int (millisecond g)\<rparr>))"

text \<open>\<open>a.epochMs - b.epochMs || a.leap - b.leap\<close>.\<close>

definition compareHistoryInstants :: "history_instant \<Rightarrow> history_instant \<Rightarrow> int" where
  "compareHistoryInstants a b =
     (if epochMs a - epochMs b \<noteq> 0 then epochMs a - epochMs b else leap a - leap b)"

definition compare :: "jstring \<Rightarrow> jstring \<Rightarrow> int" where
  "compare a b = (if a < b then -1 else if b < a then 1 else 0)"

section \<open>Facts of the calendar\<close>

lemma int_div_Suc:
  assumes "0 < (k :: int)"
  shows "(n + 1) div k = n div k + (if (n + 1) mod k = 0 then 1 else 0)"
proof (cases "n mod k + 1 = k")
  case True
  then have "n + 1 = k * (n div k) + k" using mult_div_mod_eq [of k n] by linarith
  then have "n + 1 = k * (n div k + 1)" by (simp add: distrib_left)
  then show ?thesis using assms by simp
next
  case False
  then have less: "n mod k + 1 < k" using assms pos_mod_bound [of k n] by linarith
  have n: "n + 1 = k * (n div k) + (n mod k + 1)" using mult_div_mod_eq [of k n] by simp
  have r: "0 \<le> n mod k" using assms by simp
  have "(n + 1) div k = n div k" by (rule int_div_pos_eq [OF n]) (use less r in simp_all)
  moreover have "(n + 1) mod k = n mod k + 1" by (rule int_mod_pos_eq [OF n]) (use less r in simp_all)
  ultimately show ?thesis using r by simp
qed

lemma mod_shift: "k dvd c \<Longrightarrow> (y - c) mod k = y mod (k :: int)"
  using mod_diff_right_eq [of y c k] by simp

lemma day_from_year_Suc: "day_from_year (y + 1) = day_from_year y + (if leap_year y then 366 else 365)"
proof -
  define a b c where abc: "a = (y - 1969) div 4" "b = (y - 1901) div 100" "c = (y - 1601) div 400"
  have "(y + 1 - 1969) div 4 = a + (if y mod 4 = 0 then 1 else 0)"
    using int_div_Suc [of 4 "y - 1969"] mod_shift [of 4 1968 y] by (simp add: abc)
  moreover have "(y + 1 - 1901) div 100 = b + (if y mod 100 = 0 then 1 else 0)"
    using int_div_Suc [of 100 "y - 1901"] mod_shift [of 100 1900 y] by (simp add: abc)
  moreover have "(y + 1 - 1601) div 400 = c + (if y mod 400 = 0 then 1 else 0)"
    using int_div_Suc [of 400 "y - 1601"] mod_shift [of 400 1600 y] by (simp add: abc)
  moreover have "y mod 100 = 0" if "y mod 400 = 0"
    using that mod_mod_cancel [of 100 400 y] by simp
  moreover have "y mod 4 = 0" if "y mod 100 = 0"
    using that mod_mod_cancel [of 4 100 y] by simp
  moreover define p q r where pqr: "p = (y mod 4 = 0)" "q = (y mod 100 = 0)" "r = (y mod 400 = 0)"
  ultimately show ?thesis unfolding day_from_year_def leap_year_def abc [symmetric] pqr [symmetric]
    by (cases p; cases q; cases r) simp_all
qed

lemma month_days_values:
  "month_days y 1 = 31" "month_days y 2 = (if leap_year y then 29 else 28)" "month_days y 3 = 31"
  "month_days y 4 = 30" "month_days y 5 = 31" "month_days y 6 = 30" "month_days y 7 = 31"
  "month_days y 8 = 31" "month_days y 9 = 30" "month_days y 10 = 31" "month_days y 11 = 30"
  "month_days y 12 = 31"
  by (simp_all add: month_days_def DAYS_IN_MONTH_def)

lemma month_days_nonneg: "0 \<le> month_days y m"
proof -
  have "list_all (\<lambda>d. 0 \<le> d) DAYS_IN_MONTH" by (simp add: DAYS_IN_MONTH_def)
  then show ?thesis by (simp add: month_days_def list_all_length)
qed

lemma month_sum_mono: "m \<le> n \<Longrightarrow> sum_list (map (month_days y) [1..<m]) \<le> sum_list (map (month_days y) [1..<n])"
proof (induction n rule: dec_induct)
  case (step n)
  then show ?case using month_days_nonneg [of y n] by (cases "n = 0") auto
qed simp

definition date_ok :: "int \<Rightarrow> nat \<Rightarrow> int \<Rightarrow> bool" where
  "date_ok y m d \<longleftrightarrow> 1 \<le> m \<and> m \<le> 12 \<and> 1 \<le> d \<and> d \<le> month_days y m"

lemma month_sum_Suc: "1 \<le> m \<Longrightarrow> sum_list (map (month_days y) [1..<Suc m]) = sum_list (map (month_days y) [1..<m]) + month_days y m"
  by simp

lemma year_sum: "sum_list (map (month_days y) [1..<13]) = (if leap_year y then 366 else 365)"
proof -
  have "[1..<13] = [1, 2, 3, 4, 5, 6, 7, 8, 9, 10, 11, 12::nat]" by code_simp
  then show ?thesis by (simp only: list.map sum_list.Cons sum_list.Nil month_days_values) simp
qed

lemma day_in_year:
  assumes "date_ok y m d"
  shows "day_from_year y \<le> day_number y m d" and "day_number y m d < day_from_year (y + 1)"
proof -
  have m: "1 \<le> m" "m \<le> 12" "1 \<le> d" "d \<le> month_days y m" using assms by (simp_all add: date_ok_def)
  have "0 \<le> sum_list (map (month_days y) [1..<m])"
    using month_sum_mono [of 1 m y] m(1) by simp
  with m(3) show "day_from_year y \<le> day_number y m d" by (simp add: day_number_def)
  have "sum_list (map (month_days y) [1..<m]) + month_days y m \<le> sum_list (map (month_days y) [1..<13])"
    unfolding month_sum_Suc [OF m(1), symmetric] by (rule month_sum_mono) (use m(2) in simp)
  with m(4) show "day_number y m d < day_from_year (y + 1)"
    by (simp add: day_number_def day_from_year_Suc year_sum del: One_nat_def)
qed

lemma day_from_year_mono: "y \<le> z \<Longrightarrow> day_from_year y \<le> day_from_year z"
proof (induction z rule: int_ge_induct)
  case (step z)
  then show ?case using day_from_year_Suc [of z] by (simp split: if_splits)
qed simp

text \<open>Later dates have greater day numbers.\<close>

lemma day_number_mono:
  assumes ok: "date_ok y m d" "date_ok y' m' d'" and less: "(y, m, d) < (y', m', d')"
  shows "day_number y m d < day_number y' m' d'"
proof -
  consider "y < y'" | "y = y'" "m < m'" | "y = y'" "m = m'" "d < d'"
    using less by (auto simp: less_prod_def order_le_less)
  then show ?thesis
  proof cases
    case 1
    then have "day_from_year (y + 1) \<le> day_from_year y'" by (intro day_from_year_mono) simp
    with day_in_year(2) [OF ok(1)] day_in_year(1) [OF ok(2)] show ?thesis by simp
  next
    case 2
    then have "sum_list (map (month_days y) [1..<m]) + month_days y m \<le> sum_list (map (month_days y) [1..<m'])"
      using ok(1) month_sum_Suc [of m y] month_sum_mono [of "Suc m" m' y] by (simp add: date_ok_def)
    with ok 2 show ?thesis by (simp add: day_number_def date_ok_def)
  next
    case 3
    then show ?thesis by (simp add: day_number_def)
  qed
qed

end
