(* ===== verification/Json_String.thy ===== *)
theory Json_String
  imports Json
begin

text \<open>
  \<open>JSON.stringify\<close> of strings loses nothing: a reader of the quoted form gives the string and
  the rest of the text back, so texts that begin with a quoted string determine it.  The program
  uses such texts as the keys of its maps.
\<close>

definition hex_value :: "16 word \<Rightarrow> nat" where
  "hex_value c = (if c < 0x3A then unat c - 0x30 else unat c - 0x57)"

definition hex_unit :: "16 word \<Rightarrow> 16 word \<Rightarrow> 16 word \<Rightarrow> 16 word \<Rightarrow> 16 word" where
  "hex_unit a b c d = of_nat (((hex_value a * 16 + hex_value b) * 16 + hex_value c) * 16 + hex_value d)"

definition short_escape :: "16 word \<Rightarrow> 16 word" where
  "short_escape c =
     (if c = 0x62 then 0x08 else if c = 0x66 then 0x0C else if c = 0x6E then 0x0A
      else if c = 0x72 then 0x0D else if c = 0x74 then 0x09 else c)"

text \<open>The characters up to the closing quote, and what follows it.\<close>

fun read_quoted :: "jstring \<Rightarrow> (jstring \<times> jstring) option" where
  "read_quoted [] = None"
| "read_quoted (c # s) =
     (if c = 0x22 then Some ([], s)
      else if c = 0x5C then
        (case s of
           [] \<Rightarrow> None
         | e # t \<Rightarrow>
             if e = 0x75 then
               (case t of
                  w # x # y # z # r \<Rightarrow> map_option (apfst ((#) (hex_unit w x y z))) (read_quoted r)
                | _ \<Rightarrow> None)
             else map_option (apfst ((#) (short_escape e))) (read_quoted t))
      else map_option (apfst ((#) c)) (read_quoted s))"

lemma hex_value_digit: "n < 16 \<Longrightarrow> hex_value (hex_digit n) = n"
proof -
  assume n: "n < 16"
  have u: "unat (of_nat n :: 16 word) = n" using n by (simp add: unat_of_nat take_bit_eq_mod)
  have "unat (0x30 + of_nat n :: 16 word) = 0x30 + n" "unat (0x57 + of_nat n :: 16 word) = 0x57 + n"
    using n u by (simp_all add: unat_word_ariths)
  then show ?thesis by (simp add: hex_value_def hex_digit_def word_less_nat_alt)
qed

lemma hex_unit_escape:
  "hex_unit (hex_digit (unat c div 4096)) (hex_digit (unat c div 256 mod 16))
     (hex_digit (unat c div 16 mod 16)) (hex_digit (unat c mod 16)) = c"
proof -
  note unat_unit_less [of c]
  then have "unat c div 4096 < 16" by (simp add: div_less_iff_less_mult)
  moreover have "((unat c div 4096 * 16 + unat c div 256 mod 16) * 16 + unat c div 16 mod 16) * 16 + unat c mod 16 = unat c"
  proof -
    have "unat c div 4096 * 16 + unat c div 256 mod 16 = unat c div 256"
      using div_mult_mod_eq [of "unat c div 256" 16] by (simp add: div_mult2_eq [symmetric])
    moreover have "unat c div 256 * 16 + unat c div 16 mod 16 = unat c div 16"
      using div_mult_mod_eq [of "unat c div 16" 16] by (simp add: div_mult2_eq [symmetric])
    ultimately show ?thesis using div_mult_mod_eq [of "unat c" 16] by simp
  qed
  ultimately show ?thesis by (simp add: hex_unit_def hex_value_digit)
qed

lemma read_quoted_unit:
  "read_quoted (escape_unit c @ t) = map_option (apfst ((#) c)) (read_quoted t)"
  by (auto simp: escape_unit_def unicode_escape_def hex_unit_escape short_escape_def Let_def)

lemma surrogate_plain: "is_high_surrogate c \<or> is_low_surrogate c \<Longrightarrow> c \<noteq> 0x22 \<and> c \<noteq> 0x5C"
  by (auto simp: is_high_surrogate_def is_low_surrogate_def)

lemma read_quoted_escape: "read_quoted (escape_string s @ 0x22 # r) = Some (s, r)"
proof (induction s rule: escape_string.induct)
  case (3 c d s)
  then show ?case using surrogate_plain [of c] surrogate_plain [of d] by (simp add: read_quoted_unit)
qed (simp_all add: read_quoted_unit)

lemma quote_string_eq: "quote_string s = 0x22 # escape_string s @ [0x22]"
  by (simp add: quote_string_def js_def)

lemma quote_string_append_inj: "quote_string s @ r = quote_string t @ q \<longleftrightarrow> s = t \<and> r = q"
proof
  assume "quote_string s @ r = quote_string t @ q"
  then have "read_quoted (escape_string s @ 0x22 # r) = read_quoted (escape_string t @ 0x22 # q)"
    by (simp add: quote_string_eq)
  then show "s = t \<and> r = q" by (simp add: read_quoted_escape)
qed simp

lemma quote_string_inj [simp]: "quote_string s = quote_string t \<longleftrightarrow> s = t"
  using quote_string_append_inj [of s "[]" t "[]"] by simp

end
