(* ===== verification/Project_Id.thy ===== *)
theory Project_Id
  imports Prelude
begin

text \<open>
  The project id contract (\<open>read-model/src/project-id.ts\<close>): the check made at every entrance, and
  the set of ids it admits, described by the code points they encode.
\<close>

definition MAX_PROJECT_ID_UTF8_BYTES :: nat where
  "MAX_PROJECT_ID_UTF8_BYTES = 512"

text \<open>
  \<open>LONE_SURROGATE.test(s)\<close>: the expression runs over code points, so a high surrogate followed by
  a low one is a single code point that it does not match.
\<close>

fun LONE_SURROGATE :: "jstring \<Rightarrow> bool" where
  "LONE_SURROGATE [] = False"
| "LONE_SURROGATE [c] = (is_high_surrogate c \<or> is_low_surrogate c)"
| "LONE_SURROGATE (c # d # s) =
     (if is_high_surrogate c \<and> is_low_surrogate d then LONE_SURROGATE s
      else is_high_surrogate c \<or> is_low_surrogate c \<or> LONE_SURROGATE (d # s))"

definition checkProjectId :: "jstring \<Rightarrow> jstring + unit" where
  "checkProjectId projectId =
     (if projectId = [] then Inl (js ''projectId must be a non-empty string'')
      else if LONE_SURROGATE projectId
      then Inl (js ''projectId must be well-formed Unicode: it holds an unpaired surrogate'')
      else if List.member projectId 0 then Inl (js ''projectId must not contain U+0000'')
      else if MAX_PROJECT_ID_UTF8_BYTES < utf8_length projectId
      then Inl (js ''projectId must be at most '' @ show_nat MAX_PROJECT_ID_UTF8_BYTES @ js '' bytes in UTF-8'')
      else Inr ())"

section \<open>Code points\<close>

definition scalar_value :: "nat \<Rightarrow> bool" where
  "scalar_value n \<longleftrightarrow> n < 0xD800 \<or> 0xE000 \<le> n \<and> n < 0x110000"

definition utf16 :: "nat \<Rightarrow> jstring" where
  "utf16 n =
     (if n < 0x10000 then [of_nat n]
      else [of_nat (0xD800 + (n - 0x10000) div 0x400), of_nat (0xDC00 + (n - 0x10000) mod 0x400)])"

definition utf8_bytes :: "nat \<Rightarrow> nat" where
  "utf8_bytes n = (if n < 0x80 then 1 else if n < 0x800 then 2 else if n < 0x10000 then 3 else 4)"

definition encode16 :: "nat list \<Rightarrow> jstring" where
  "encode16 ns = concat (map utf16 ns)"

lemma surrogate_unat:
  "is_high_surrogate c \<longleftrightarrow> 0xD800 \<le> unat c \<and> unat c \<le> 0xDBFF"
  "is_low_surrogate c \<longleftrightarrow> 0xDC00 \<le> unat c \<and> unat c \<le> 0xDFFF"
  by (simp_all add: is_high_surrogate_def is_low_surrogate_def word_le_nat_alt)

lemma utf16_basic:
  assumes "scalar_value n" and "n < 0x10000"
  shows "utf16 n = [of_nat n]" "\<not> is_high_surrogate (of_nat n)" "\<not> is_low_surrogate (of_nat n)"
    "unit_bytes (of_nat n) = utf8_bytes n" "(of_nat n :: 16 word) = 0 \<longleftrightarrow> n = 0"
  using assms unat_of_unit [of n]
  by (auto simp: utf16_def surrogate_unat scalar_value_def unit_bytes_def utf8_bytes_def word_less_nat_alt
      word_unat_eq_iff)

lemma utf16_pair:
  assumes "scalar_value n" and "\<not> n < 0x10000"
  obtains c d where "utf16 n = [c, d]" "is_high_surrogate c" "is_low_surrogate d" "c \<noteq> 0" "d \<noteq> 0"
    "n = 0x10000 + (unat c - 0xD800) * 0x400 + (unat d - 0xDC00)"
proof -
  let ?c = "of_nat (0xD800 + (n - 0x10000) div 0x400) :: 16 word"
  let ?d = "of_nat (0xDC00 + (n - 0x10000) mod 0x400) :: 16 word"
  have n: "n < 0x110000" "0x10000 \<le> n" using assms by (auto simp: scalar_value_def)
  then have q: "(n - 0x10000) div 0x400 < 0x400" by (simp add: div_less_iff_less_mult)
  have u: "unat ?c = 0xD800 + (n - 0x10000) div 0x400" "unat ?d = 0xDC00 + (n - 0x10000) mod 0x400"
    using q by (auto simp: unat_of_unit simp del: of_nat_add)
  have "n = 0x10000 + (unat ?c - 0xD800) * 0x400 + (unat ?d - 0xDC00)"
    unfolding u using n(2) div_mult_mod_eq [of "n - 0x10000" "0x400"] by simp
  moreover have "is_high_surrogate ?c" "is_low_surrogate ?d"
    unfolding surrogate_unat u using q by auto
  moreover have "?c \<noteq> 0" "?d \<noteq> 0" unfolding word_unat_eq_iff u by simp_all
  moreover have "utf16 n = [?c, ?d]" using assms(2) by (simp add: utf16_def)
  ultimately show thesis using that by blast
qed

text \<open>What the check reads of an encoded text.\<close>

lemma encode16_Cons: "encode16 (n # ns) = utf16 n @ encode16 ns"
  by (simp add: encode16_def)

lemma encode16_all:
  "list_all scalar_value ns \<Longrightarrow> \<not> LONE_SURROGATE (encode16 ns) \<and>
     utf8_length (encode16 ns) = sum_list (map utf8_bytes ns) \<and> (0 \<in> set (encode16 ns) \<longleftrightarrow> 0 \<in> set ns)"
proof (induction ns)
  case (Cons n ns)
  have sv: "scalar_value n" using Cons.prems by simp
  have IH: "\<not> LONE_SURROGATE (encode16 ns)" "utf8_length (encode16 ns) = sum_list (map utf8_bytes ns)"
    "0 \<in> set (encode16 ns) \<longleftrightarrow> 0 \<in> set ns"
    using Cons by simp_all
  show ?case
  proof (cases "n < 0x10000")
    case True
    note b = utf16_basic [OF sv True]
    show ?thesis
      using IH b by (cases "encode16 ns") (auto simp: encode16_Cons)
  next
    case False
    obtain c d where p: "utf16 n = [c, d]" "is_high_surrogate c" "is_low_surrogate d" "c \<noteq> 0" "d \<noteq> 0"
      by (rule utf16_pair [OF sv False])
    have "utf8_bytes n = 4" "n \<noteq> 0" using False by (simp_all add: utf8_bytes_def)
    with IH p show ?thesis by (auto simp: encode16_Cons)
  qed
qed (simp add: encode16_def)

lemma encode16_facts:
  assumes "list_all scalar_value ns"
  shows "\<not> LONE_SURROGATE (encode16 ns)" and "utf8_length (encode16 ns) = sum_list (map utf8_bytes ns)"
    and "0 \<in> set (encode16 ns) \<longleftrightarrow> 0 \<in> set ns"
  using encode16_all [OF assms] by blast+

lemma well_formed_encodes: "\<not> LONE_SURROGATE s \<Longrightarrow> \<exists>ns. list_all scalar_value ns \<and> s = encode16 ns"
proof (induction s rule: LONE_SURROGATE.induct)
  case 1
  show ?case by (rule exI [of _ "[]"]) (simp add: encode16_def)
next
  case (2 c)
  then show ?case
    by (intro exI [of _ "[unat c]"])
      (use unat_unit_less [of c] in \<open>auto simp: encode16_def utf16_def scalar_value_def surrogate_unat\<close>)
next
  case (3 c d s)
  show ?case
  proof (cases "is_high_surrogate c \<and> is_low_surrogate d")
    case True
    with 3 obtain ns where ns: "list_all scalar_value ns" "s = encode16 ns" by auto
    let ?n = "0x10000 + (unat c - 0xD800) * 0x400 + (unat d - 0xDC00)"
    have d: "unat d - 0xDC00 < 0x400" and c: "unat c - 0xD800 < 0x400"
      using True by (auto simp: surrogate_unat)
    have "utf16 ?n = [c, d]"
    proof -
      have "(?n - 0x10000) div 0x400 = unat c - 0xD800" "(?n - 0x10000) mod 0x400 = unat d - 0xDC00"
        using d by simp_all
      moreover have "0xD800 + (unat c - 0xD800) = unat c" "0xDC00 + (unat d - 0xDC00) = unat d"
        using True by (auto simp: surrogate_unat)
      ultimately show ?thesis by (simp add: utf16_def del: of_nat_add)
    qed
    moreover have "scalar_value ?n" using c d by (simp add: scalar_value_def)
    ultimately show ?thesis using ns by (intro exI [of _ "?n # ns"]) (simp add: encode16_Cons)
  next
    case False
    with 3 obtain ns where ns: "list_all scalar_value ns" "d # s = encode16 ns" by auto
    have "\<not> is_high_surrogate c" "\<not> is_low_surrogate c" using 3(3) False by auto
    then have "scalar_value (unat c)" "utf16 (unat c) = [c]"
      using unat_unit_less [of c] by (auto simp: scalar_value_def surrogate_unat utf16_def)
    with ns show ?thesis by (intro exI [of _ "unat c # ns"]) (simp add: encode16_Cons)
  qed
qed

text \<open>
  The check admits exactly the project ids of the contract: the UTF-16 texts of non-empty
  sequences of Unicode scalar values without U+0000 that take at most 512 bytes in UTF-8.
\<close>

theorem project_id_contract:
  "checkProjectId s = Inr () \<longleftrightarrow>
     (\<exists>ns. s = encode16 ns \<and> ns \<noteq> [] \<and> list_all scalar_value ns \<and> 0 \<notin> set ns \<and>
        sum_list (map utf8_bytes ns) \<le> 512)"
proof
  assume "checkProjectId s = Inr ()"
  then have ok: "s \<noteq> []" "\<not> LONE_SURROGATE s" "0 \<notin> set s" "utf8_length s \<le> 512"
    by (auto simp: checkProjectId_def MAX_PROJECT_ID_UTF8_BYTES_def not_less split: if_splits)
  from well_formed_encodes [OF ok(2)] obtain ns where ns: "list_all scalar_value ns" "s = encode16 ns" by blast
  with encode16_facts(2,3) [OF ns(1)] ok have "0 \<notin> set ns" "sum_list (map utf8_bytes ns) \<le> 512" "ns \<noteq> []"
    by (auto simp: encode16_def)
  with ns show "\<exists>ns. s = encode16 ns \<and> ns \<noteq> [] \<and> list_all scalar_value ns \<and> 0 \<notin> set ns \<and>
      sum_list (map utf8_bytes ns) \<le> 512" by blast
next
  assume "\<exists>ns. s = encode16 ns \<and> ns \<noteq> [] \<and> list_all scalar_value ns \<and> 0 \<notin> set ns \<and>
      sum_list (map utf8_bytes ns) \<le> 512"
  then obtain ns where ns: "s = encode16 ns" "ns \<noteq> []" "list_all scalar_value ns" "0 \<notin> set ns"
    "sum_list (map utf8_bytes ns) \<le> 512" by blast
  have "s \<noteq> []" using ns(1,2) by (cases ns) (auto simp: encode16_Cons utf16_def)
  with encode16_facts [OF ns(3)] ns show "checkProjectId s = Inr ()"
    by (simp add: checkProjectId_def MAX_PROJECT_ID_UTF8_BYTES_def)
qed

end
