(* ===== verification/Read_Model.thy ===== *)
theory Read_Model
  imports Projector History_Order Json_String Project_Id
begin

text \<open>
  The read model (\<open>read-model/src/read-model.ts\<close>): an immutable snapshot assembled from projected
  runs, with the queries over it.  The maps are keyed by the JSON text of a pair or a triple of
  strings; a locale states what this relies on.
\<close>

section \<open>Values\<close>

record occurrence =
  oc_projectId :: jstring
  oc_runnerName :: jstring
  oc_historicalId :: jstring
  oc_runId :: jstring
  oc_executionId :: jstring
  oc_sessionIds :: "jstring list"
  oc_stability :: stability
  oc_occurredAt :: jstring
  oc_attemptCount :: nat
  oc_complete :: bool
  oc_finalStatus :: "status option"
  oc_expectedStatus :: "expected_status option"
  oc_flaky :: bool
  oc_runVerdict :: verdict
  oc_runComplete :: bool
  oc_sessionStatus :: "session_status option"

record test_history =
  th_projectId :: jstring
  th_runnerName :: jstring
  th_historicalId :: jstring
  th_occurrences :: "occurrence list"

record flakiness =
  fl_projectId :: jstring
  fl_runnerName :: jstring
  fl_historicalId :: jstring
  fl_totalOccurrences :: nat
  fl_flakyOccurrences :: nat
  fl_everFlaky :: bool
  fl_flaky :: "occurrence list"

record blob_source =
  bs_projectId :: jstring
  bs_runId :: jstring
  bs_runDirectory :: jstring

record blob_reference =
  br_projectId :: jstring
  br_runId :: jstring
  br_reference :: attachment_reference

record blob =
  bl_sha256 :: jstring
  bl_sizeBytes :: int
  bl_sources :: "blob_source list"
  bl_references :: "blob_reference list"

datatype problem_code =
    RUNS_DIRECTORY_MISSING | SYMLINK_SKIPPED | NOT_A_DIRECTORY | NO_EVENTS_DIRECTORY
  | NOT_A_RUN_DIRECTORY | NOT_A_REGULAR_FILE | VALIDATION_ERROR | EMPTY_RUN | RUN_INVALID
  | PROJECTION_AMBIGUOUS | DUPLICATE_RUN | BLOB_SIZE_CONFLICT

record ingestion_problem =
  ip_code :: problem_code
  ip_projectId :: jstring
  ip_runDirectory :: jstring
  ip_runId :: "jstring option"
  ip_detail :: "ambiguity_detail option"
  ip_message :: jstring
  ip_diagnostics :: "diagnostic list"

record read_model =
  rm_runsByKey :: "(jstring, projected_run) jmap"
  rm_history :: "(jstring, occurrence list) jmap"
  rm_blobsBySha :: "(jstring, blob) jmap"

text \<open>What the operations throw: a \<open>TypeError\<close>, or the \<open>RangeError\<close> of the comparison in a sort.\<close>

datatype read_error = Type_Error jstring | Range_Error

section \<open>Keys\<close>

definition runKey :: "jstring \<Rightarrow> jstring \<Rightarrow> jstring" where
  "runKey projectId rid = stringify (JArr [JStr projectId, JStr rid])"

definition historyKey :: "jstring \<Rightarrow> jstring \<Rightarrow> jstring \<Rightarrow> jstring" where
  "historyKey projectId runnerName hid = stringify (JArr [JStr projectId, JStr runnerName, JStr hid])"

section \<open>Occurrences\<close>

definition occurrence_of :: "projected_run \<Rightarrow> (jstring, projected_session) jmap \<Rightarrow> test_execution \<Rightarrow> occurrence option" where
  "occurrence_of run ses e =
     (case (historicalId (te_test e), te_runnerName e) of
        (Some hid, Some runner) \<Rightarrow>
          Some \<lparr>oc_projectId = run_projectId run, oc_runnerName = runner, oc_historicalId = hid,
            oc_runId = run_runId run, oc_executionId = te_executionId e,
            oc_sessionIds = sort (set_of (map pa_sessionId (te_attempts e))),
            oc_stability = historicalIdStability (te_test e),
            oc_occurredAt = pa_startedAt (hd (te_attempts e)), oc_attemptCount = length (te_attempts e),
            oc_complete = te_complete e, oc_finalStatus = te_finalStatus e,
            oc_expectedStatus = pa_expectedStatus (te_finalAttempt e), oc_flaky = te_flaky e,
            oc_runVerdict = vf_verdict (run_validator run), oc_runComplete = vf_complete (run_validator run),
            oc_sessionStatus = Option.bind (jget ses (pa_sessionId (te_finalAttempt e))) ps_status\<rparr>
      | _ \<Rightarrow> None)"

definition historyOccurrencesOf :: "projected_run \<Rightarrow> occurrence list" where
  "historyOccurrencesOf run =
     (let ses = from_entries (map (\<lambda>s. (ps_sessionId s, s)) (run_sessions run))
      in List.map_filter (occurrence_of run ses) (run_executions run))"

text \<open>The comparison of a sort; it throws when a timestamp has no position.\<close>

definition compareHistoryOccurrences :: "occurrence \<Rightarrow> occurrence \<Rightarrow> jstring + int" where
  "compareHistoryOccurrences a b =
     bind_r (historyInstant (oc_occurredAt a)) (\<lambda>x.
     bind_r (historyInstant (oc_occurredAt b)) (\<lambda>y.
     Inr (if compareHistoryInstants x y \<noteq> 0 then compareHistoryInstants x y
          else if compare (oc_runId a) (oc_runId b) \<noteq> 0 then compare (oc_runId a) (oc_runId b)
          else compare (oc_executionId a) (oc_executionId b))))"

definition occurrence_key :: "history_instant \<Rightarrow> occurrence \<Rightarrow> (int \<times> int) \<times> jstring \<times> jstring" where
  "occurrence_key x o' = ((epochMs x, leap x), oc_runId o', oc_executionId o')"

text \<open>
  \<open>list.sort(compareHistoryOccurrences)\<close>.  A list of two or more compares each of its elements at
  least once, so one timestamp without a position makes the sort throw.
\<close>

definition sort_occurrences :: "occurrence list \<Rightarrow> read_error + occurrence list" where
  "sort_occurrences xs =
     (if length xs < 2 then Inr xs
      else case map_r (\<lambda>_ x. historyInstant (oc_occurredAt x)) 0 xs of
             Inl _ \<Rightarrow> Inl Range_Error
           | Inr is \<Rightarrow>
               Inr (map snd (sort_key (\<lambda>(i, x). occurrence_key i x) (zip is xs))))"

section \<open>Assembly\<close>

definition collect_run :: "projected_run \<Rightarrow> (jstring, projected_run list) jmap \<Rightarrow> (jstring, projected_run list) jmap" where
  "collect_run run byKey =
     (let key = runKey (run_projectId run) (run_runId run) in
      case jget byKey key of
        None \<Rightarrow> jset key [run] byKey
      | Some known \<Rightarrow>
          if list_ex (\<lambda>r. run_directory r = run_directory run) known then byKey
          else jset key (known @ [run]) byKey)"

record assembly =
  ay_accepted :: "(jstring, projected_run) jmap"
  ay_blobs :: "(jstring, blob) jmap"
  ay_problems :: "ingestion_problem list"

fun join_list :: "jstring \<Rightarrow> jstring list \<Rightarrow> jstring" where
  "join_list sep [] = []"
| "join_list sep [x] = x"
| "join_list sep (x # xs) = x @ sep @ join_list sep xs"

definition duplicate_problem :: "projected_run list \<Rightarrow> projected_run \<Rightarrow> ingestion_problem" where
  "duplicate_problem candidates run =
     (let directories = sort (map run_directory candidates) in
      \<lparr>ip_code = DUPLICATE_RUN, ip_projectId = run_projectId run, ip_runDirectory = run_directory run,
       ip_runId = Some (run_runId run), ip_detail = None,
       ip_message = js ''run '' @ run_runId run @ js '' of project '' @ run_projectId run @ js '' was found in '' @
         show_nat (length directories) @ js '' run directories: '' @ join_list (js '', '') directories,
       ip_diagnostics = []\<rparr>)"

definition size_conflict :: "(jstring, blob) jmap \<Rightarrow> attachment_reference \<Rightarrow> bool" where
  "size_conflict blobs a =
     (case jget blobs (ref_sha256 a) of None \<Rightarrow> False | Some known \<Rightarrow> bl_sizeBytes known \<noteq> ref_sizeBytes a)"

definition conflict_problem :: "(jstring, blob) jmap \<Rightarrow> projected_run \<Rightarrow> attachment_reference \<Rightarrow> ingestion_problem" where
  "conflict_problem blobs run a =
     \<lparr>ip_code = BLOB_SIZE_CONFLICT, ip_projectId = run_projectId run, ip_runDirectory = run_directory run,
      ip_runId = Some (run_runId run), ip_detail = None,
      ip_message = js ''attachment '' @ ref_sha256 a @ js '' is '' @ show_int (ref_sizeBytes a) @
        js '' bytes here and '' @
        show_int (case jget blobs (ref_sha256 a) of None \<Rightarrow> 0 | Some b \<Rightarrow> bl_sizeBytes b) @
        js '' bytes in an earlier run'',
      ip_diagnostics = []\<rparr>"

definition add_reference :: "projected_run \<Rightarrow> attachment_reference \<Rightarrow> (jstring, blob) jmap \<Rightarrow> (jstring, blob) jmap" where
  "add_reference run a blobs =
     (let b = (case jget blobs (ref_sha256 a) of
                 None \<Rightarrow> \<lparr>bl_sha256 = ref_sha256 a, bl_sizeBytes = ref_sizeBytes a, bl_sources = [], bl_references = []\<rparr>
               | Some b \<Rightarrow> b);
          b1 = (if list_ex (\<lambda>s. bs_projectId s = run_projectId run \<and> bs_runId s = run_runId run) (bl_sources b) then b
                else b\<lparr>bl_sources := bl_sources b @ [\<lparr>bs_projectId = run_projectId run, bs_runId = run_runId run,
                  bs_runDirectory = run_directory run\<rparr>]\<rparr>);
          b2 = b1\<lparr>bl_references := bl_references b1 @ [\<lparr>br_projectId = run_projectId run, br_runId = run_runId run,
            br_reference = a\<rparr>]\<rparr>
      in jset (ref_sha256 a) b2 blobs)"

definition accept_run :: "jstring \<Rightarrow> projected_run \<Rightarrow> assembly \<Rightarrow> assembly" where
  "accept_run key run st =
     (case find (size_conflict (ay_blobs st)) (run_attachments run) of
        Some a \<Rightarrow> st\<lparr>ay_problems := ay_problems st @ [conflict_problem (ay_blobs st) run a]\<rparr>
      | None \<Rightarrow>
          st\<lparr>ay_accepted := jset key run (ay_accepted st),
            ay_blobs := fold (add_reference run) (run_attachments run) (ay_blobs st)\<rparr>)"

definition assemble_key :: "jstring \<times> projected_run list \<Rightarrow> assembly \<Rightarrow> assembly" where
  "assemble_key x st =
     (case x of (key, candidates) \<Rightarrow>
      if 1 < length candidates
      then st\<lparr>ay_problems := ay_problems st @ map (duplicate_problem candidates) candidates\<rparr>
      else accept_run key (hd candidates) st)"

definition add_occurrence :: "occurrence \<Rightarrow> (jstring, occurrence list) jmap \<Rightarrow> (jstring, occurrence list) jmap" where
  "add_occurrence x m =
     (let key = historyKey (oc_projectId x) (oc_runnerName x) (oc_historicalId x) in
      case jget m key of None \<Rightarrow> jset key [x] m | Some l \<Rightarrow> jset key (l @ [x]) m)"

definition freeze_blob :: "blob \<Rightarrow> blob" where
  "freeze_blob b = b\<lparr>bl_sources := sort_key (\<lambda>s. (bs_projectId s, bs_runId s)) (bl_sources b),
     bl_references := sort_key (\<lambda>r. (br_projectId r, br_runId r)) (bl_references b)\<rparr>"

definition assemble :: "projected_run list \<Rightarrow> read_error + read_model \<times> ingestion_problem list" where
  "assemble runs =
     (let byKey = fold collect_run runs [];
          st = fold assemble_key (sort_key fst byKey) \<lparr>ay_accepted = [], ay_blobs = [], ay_problems = []\<rparr>;
          history = fold add_occurrence (concat (map (\<lambda>x. historyOccurrencesOf (snd x)) (ay_accepted st))) []
      in bind_r (map_r (\<lambda>_ (k, l). bind_r (sort_occurrences l) (\<lambda>l'. Inr (k, l'))) 0 history) (\<lambda>sorted.
         Inr (\<lparr>rm_runsByKey = ay_accepted st, rm_history = sorted,
               rm_blobsBySha = map (\<lambda>(k, b). (k, freeze_blob b)) (sort_key fst (ay_blobs st))\<rparr>, ay_problems st)))"

section \<open>Queries\<close>

definition check_project :: "jstring \<Rightarrow> read_error + unit" where
  "check_project p = (case checkProjectId p of Inl m \<Rightarrow> Inl (Type_Error m) | Inr u \<Rightarrow> Inr u)"

definition getRun :: "read_model \<Rightarrow> jstring \<Rightarrow> jstring \<Rightarrow> read_error + projected_run option" where
  "getRun m projectId rid = bind_r (check_project projectId) (\<lambda>_. Inr (jget (rm_runsByKey m) (runKey projectId rid)))"

definition all_runs :: "read_model \<Rightarrow> projected_run list" where
  "all_runs m = sort_key (\<lambda>r. (run_projectId r, run_runId r)) (map snd (rm_runsByKey m))"

definition getTestHistory :: "read_model \<Rightarrow> jstring \<Rightarrow> jstring \<Rightarrow> jstring \<Rightarrow> read_error + test_history" where
  "getTestHistory m projectId runnerName hid =
     bind_r (check_project projectId) (\<lambda>_. Inr
       \<lparr>th_projectId = projectId, th_runnerName = runnerName, th_historicalId = hid,
        th_occurrences = (case jget (rm_history m) (historyKey projectId runnerName hid) of None \<Rightarrow> [] | Some l \<Rightarrow> l)\<rparr>)"

definition getFlakiness :: "read_model \<Rightarrow> jstring \<Rightarrow> jstring \<Rightarrow> jstring \<Rightarrow> read_error + flakiness" where
  "getFlakiness m projectId runnerName hid =
     bind_r (getTestHistory m projectId runnerName hid) (\<lambda>h.
     let flaky = filter oc_flaky (th_occurrences h) in Inr
       \<lparr>fl_projectId = projectId, fl_runnerName = runnerName, fl_historicalId = hid,
        fl_totalOccurrences = length (th_occurrences h), fl_flakyOccurrences = length flaky,
        fl_everFlaky = (0 < length flaky), fl_flaky = flaky\<rparr>)"

definition getBlob :: "read_model \<Rightarrow> jstring \<Rightarrow> blob option" where
  "getBlob m sha256 = jget (rm_blobsBySha m) sha256"

definition all_blobs :: "read_model \<Rightarrow> blob list" where
  "all_blobs m = map snd (rm_blobsBySha m)"

end
