(* ===== verification/Ingest.thy ===== *)
theory Ingest
  imports Read_Model
begin

text \<open>
  From directories to the read model: discovery (\<open>read-model/src/discovery.ts\<close>), ingestion of one
  run directory (\<open>ingest.ts\<close>) and the whole build (\<open>buildReadModel\<close> of \<open>read-model.ts\<close>).

  Beside the file system of the validator the code asks whether a path exists, lists a directory
  with the kinds of its entries, and prints the message of a caught error.
\<close>

record ingest_env =
  existsSync :: "jstring \<Rightarrow> bool"
  readdirKinds :: "jstring \<Rightarrow> io_error + (jstring \<times> entry_kind) list"
  error_message :: "io_error \<Rightarrow> jstring"

section \<open>Discovery\<close>

definition RUNS_DIR :: jstring where
  "RUNS_DIR = js ''runs''"

record discovery_problem =
  dp_code :: problem_code
  dp_path :: jstring
  dp_message :: jstring

record discovery =
  di_outputRoot :: jstring
  di_runsDirectory :: jstring
  di_runDirectories :: "jstring list"
  di_problems :: "discovery_problem list"

definition statOrUndefined :: "file_system \<Rightarrow> jstring \<Rightarrow> stats option" where
  "statOrUndefined fs path = (case lstatSync fs path of Inl _ \<Rightarrow> None | Inr s \<Rightarrow> Some s)"

definition is_link :: "stats option \<Rightarrow> bool" where
  "is_link s = (case s of None \<Rightarrow> False | Some x \<Rightarrow> isSymbolicLink x)"

definition is_directory :: "stats option \<Rightarrow> bool" where
  "is_directory s = (case s of None \<Rightarrow> False | Some x \<Rightarrow> isDirectory x)"

definition problem :: "problem_code \<Rightarrow> jstring \<Rightarrow> jstring \<Rightarrow> discovery_problem" where
  "problem c p m = \<lparr>dp_code = c, dp_path = p, dp_message = m\<rparr>"

text \<open>One entry of the collection: a problem or a run directory.\<close>

definition discover_entry :: "file_system \<Rightarrow> jstring \<Rightarrow> jstring \<times> entry_kind \<Rightarrow> discovery_problem + jstring" where
  "discover_entry fs runsDirectory entry =
     (let path = path_join fs [runsDirectory, fst entry] in
      if snd entry = Symlink then Inl (problem SYMLINK_SKIPPED path (js ''symbolic link not followed''))
      else if snd entry \<noteq> Folder then Inl (problem NOT_A_DIRECTORY path (js ''not a directory''))
      else
        let eventsPath = path_join fs [path, js ''events'']; eventsStat = statOrUndefined fs eventsPath in
        if is_link eventsStat
        then Inl (problem SYMLINK_SKIPPED eventsPath (js ''events directory is a symbolic link, not followed''))
        else if \<not> is_directory eventsStat
        then Inl (problem NO_EVENTS_DIRECTORY path (js ''no events directory''))
        else Inr path)"

fun split_entries :: "('a + 'b) list \<Rightarrow> 'a list \<times> 'b list" where
  "split_entries [] = ([], [])"
| "split_entries (Inl a # xs) = (let (as, bs) = split_entries xs in (a # as, bs))"
| "split_entries (Inr b # xs) = (let (as, bs) = split_entries xs in (as, b # bs))"

definition discoverRunDirectories :: "file_system \<Rightarrow> ingest_env \<Rightarrow> jstring \<Rightarrow> io_error + discovery" where
  "discoverRunDirectories fs env outputRoot =
     (let runsDirectory = path_join fs [outputRoot, RUNS_DIR];
          runsStat = statOrUndefined fs runsDirectory;
          result = (\<lambda>dirs problems. \<lparr>di_outputRoot = outputRoot, di_runsDirectory = runsDirectory,
            di_runDirectories = dirs, di_problems = problems\<rparr>)
      in if is_link runsStat
         then Inr (result [] [problem SYMLINK_SKIPPED runsDirectory (RUNS_DIR @ js '' is a symbolic link, not followed'')])
         else if \<not> is_directory runsStat
         then Inr (result [] [problem RUNS_DIRECTORY_MISSING runsDirectory
                (js ''no '' @ RUNS_DIR @ js '' directory below the output root'')])
         else bind_r (readdirKinds env runsDirectory) (\<lambda>entries.
           let found = split_entries (map (discover_entry fs runsDirectory) (sort_key fst entries))
           in Inr (result (snd found) (fst found))))"

section \<open>One run directory\<close>

datatype projection_result = Projected projected_run | Rejected ingestion_problem

text \<open>The first entry of a list that is not a regular file; \<open>True\<close> marks a symbolic link.\<close>

fun first_irregular :: "file_system \<Rightarrow> jstring list \<Rightarrow> io_error + (jstring \<times> bool) option" where
  "first_irregular fs [] = Inr None"
| "first_irregular fs (path # paths) =
     bind_r (lstatSync fs path) (\<lambda>stat.
     if isSymbolicLink stat then Inr (Some (path, True))
     else if \<not> isFile stat then Inr (Some (path, False))
     else first_irregular fs paths)"

definition irregular_in :: "file_system \<Rightarrow> jstring \<Rightarrow> io_error + (jstring \<times> bool) option" where
  "irregular_in fs dir =
     (case readdirSync fs dir of
        Inl _ \<Rightarrow> Inr None
      | Inr names \<Rightarrow> first_irregular fs (map (\<lambda>n. path_join fs [dir, n]) (sort names)))"

definition irregularEntry :: "file_system \<Rightarrow> jstring \<Rightarrow> io_error + (jstring \<times> bool) option" where
  "irregularEntry fs runDirectory =
     bind_r (irregular_in fs (path_join fs [runDirectory, js ''events''])) (\<lambda>r.
     case r of
       Some x \<Rightarrow> Inr (Some x)
     | None \<Rightarrow> irregular_in fs (path_join fs [runDirectory, js ''attachments'']))"

definition rejection ::
    "problem_code \<Rightarrow> jstring \<Rightarrow> jstring \<Rightarrow> jstring option \<Rightarrow> ambiguity_detail option \<Rightarrow> jstring \<Rightarrow> diagnostic list \<Rightarrow> projection_result" where
  "rejection code projectId dir rid detail message ds =
     Rejected \<lparr>ip_code = code, ip_projectId = projectId, ip_runDirectory = dir, ip_runId = rid,
       ip_detail = detail, ip_message = message, ip_diagnostics = ds\<rparr>"

definition default_options :: options where
  "default_options = \<lparr>opt_attachmentsDir = None, opt_requireComplete = False, opt_maxEventBytes = None,
     opt_retainEvents = False, opt_retainSourceLines = False\<rparr>"

text \<open>\<open>try ... catch\<close>: an error becomes a value.\<close>

definition try_io :: "'a io \<Rightarrow> (io_error + 'a) io" where
  "try_io m = (\<lambda>fds. case m fds of (r, fds') \<Rightarrow> (Inr r, fds'))"

definition first_run_id :: "event list \<Rightarrow> jstring option" where
  "first_run_id es = (case es of [] \<Rightarrow> None | e # _ \<Rightarrow> Some (runId e))"

definition project_snapshot :: "jstring \<Rightarrow> jstring \<Rightarrow> validated_run \<Rightarrow> io_error + projection_result" where
  "project_snapshot projectId dir snapshot =
     (if \<not> rep_valid (vr_report snapshot)
      then Inr (rejection RUN_INVALID projectId dir (first_run_id (vr_events snapshot)) None
             (js ''the validator rejected the run'')
             (filter (\<lambda>d. dg_severity d = SevError) (rep_diagnostics (vr_report snapshot))))
      else if vr_events snapshot = []
      then Inr (rejection EMPTY_RUN projectId dir None None
             (js ''no event was accepted, so the directory names no run'') [])
      else case projectRun projectId dir snapshot of
             Inr run \<Rightarrow> Inr (Projected run)
           | Inl (Ambiguous_Run detail exec message) \<Rightarrow>
               Inr (rejection PROJECTION_AMBIGUOUS projectId dir (first_run_id (vr_events snapshot)) (Some detail) message [])
           | Inl (Plain_Error message) \<Rightarrow> Inl (Thrown message))"

definition projectRunDirectory ::
    "host \<Rightarrow> file_system \<Rightarrow> ingest_env \<Rightarrow> jstring \<Rightarrow> jstring \<Rightarrow> projection_result io" where
  "projectRunDirectory h fs env projectId dir =
     bind_io (lift_io (case checkProjectId projectId of Inl m \<Rightarrow> Inl (Thrown m) | Inr u \<Rightarrow> Inr u)) (\<lambda>_.
     if \<not> existsSync env (path_join fs [dir, js ''events''])
     then return_io (rejection NOT_A_RUN_DIRECTORY projectId dir None None (js ''no events directory'') [])
     else bind_io (lift_io (irregularEntry fs dir)) (\<lambda>irregular.
     case irregular of
       Some (path, symlink) \<Rightarrow>
         return_io (rejection (if symlink then SYMLINK_SKIPPED else NOT_A_REGULAR_FILE) projectId dir None None
           (path @ js '' is not a regular file'') [])
     | None \<Rightarrow>
         bind_io (try_io (validateRunDirectorySnapshot h fs default_options None dir)) (\<lambda>result.
         case result of
           Inl e \<Rightarrow> return_io (rejection VALIDATION_ERROR projectId dir None None
             (js ''the validator failed: '' @ error_message env e) [])
         | Inr snapshot \<Rightarrow> lift_io (project_snapshot projectId dir snapshot))))"

section \<open>The whole build\<close>

datatype model_source =
    Output_Root (src_project: jstring) jstring
  | Run_Directory (src_project: jstring) jstring
  | Both_Given (src_project: jstring) jstring jstring

definition source_problem :: "jstring \<Rightarrow> discovery_problem \<Rightarrow> ingestion_problem" where
  "source_problem projectId p =
     \<lparr>ip_code = dp_code p, ip_projectId = projectId, ip_runDirectory = dp_path p, ip_runId = None,
      ip_detail = None, ip_message = dp_message p, ip_diagnostics = []\<rparr>"

definition source_directories ::
    "file_system \<Rightarrow> ingest_env \<Rightarrow> model_source \<Rightarrow> io_error + jstring list \<times> ingestion_problem list" where
  "source_directories fs env source =
     (case source of
        Both_Given _ _ _ \<Rightarrow> Inl (Thrown (js ''a source names either an output root or a run directory, not both''))
      | Run_Directory _ dir \<Rightarrow> Inr ([dir], [])
      | Output_Root projectId root \<Rightarrow>
          bind_r (discoverRunDirectories fs env root) (\<lambda>d.
          Inr (di_runDirectories d, map (source_problem projectId) (di_problems d))))"

fun ingest_directories ::
    "host \<Rightarrow> file_system \<Rightarrow> ingest_env \<Rightarrow> jstring \<Rightarrow> jstring list \<Rightarrow> projected_run list \<times> ingestion_problem list \<Rightarrow>
     (projected_run list \<times> ingestion_problem list) io" where
  "ingest_directories h fs env projectId [] acc = return_io acc"
| "ingest_directories h fs env projectId (d # ds) acc =
     bind_io (projectRunDirectory h fs env projectId d) (\<lambda>result.
     ingest_directories h fs env projectId ds
       (case result of
          Projected run \<Rightarrow> (fst acc @ [run], snd acc)
        | Rejected p \<Rightarrow> (fst acc, snd acc @ [p])))"

fun ingest_sources ::
    "host \<Rightarrow> file_system \<Rightarrow> ingest_env \<Rightarrow> model_source list \<Rightarrow> projected_run list \<times> ingestion_problem list \<Rightarrow>
     (projected_run list \<times> ingestion_problem list) io" where
  "ingest_sources h fs env [] acc = return_io acc"
| "ingest_sources h fs env (s # ss) acc =
     bind_io (lift_io (case checkProjectId (src_project s) of Inl m \<Rightarrow> Inl (Thrown m) | Inr u \<Rightarrow> Inr u)) (\<lambda>_.
     bind_io (lift_io (source_directories fs env s)) (\<lambda>(dirs, problems).
     bind_io (ingest_directories h fs env (src_project s) dirs (fst acc, snd acc @ problems))
       (ingest_sources h fs env ss)))"

definition buildReadModel ::
    "host \<Rightarrow> file_system \<Rightarrow> ingest_env \<Rightarrow> model_source list \<Rightarrow> (read_model \<times> ingestion_problem list) io" where
  "buildReadModel h fs env sources =
     bind_io (ingest_sources h fs env sources ([], [])) (\<lambda>(runs, problems).
     case assemble runs of
       Inl (Type_Error m) \<Rightarrow> lift_io (Inl (Thrown m))
     | Inl Range_Error \<Rightarrow> lift_io (Inl (Thrown (js ''not a protocol timestamp'')))
     | Inr (m, conflicts) \<Rightarrow> return_io (m, problems @ conflicts))"

end
