(* ===== verification/Read_Model_Facts.thy ===== *)
theory Read_Model_Facts
  imports Read_Model Projector_Replay
begin

text \<open>
  Lemmas about the assembly of the read model: the keys identify what they are made of, every run
  given is either in the model or named by a problem, and the catalog of bytes holds the
  references of the runs in the model.
\<close>

section \<open>Keys\<close>

text \<open>
  What the program relies on when it uses a text as a key for a tuple: different tuples have
  different texts, so the map behaves like one keyed by the tuple.
\<close>

locale text_key =
  fixes key :: "'a \<Rightarrow> jstring"
  assumes key_eq_iff: "key a = key b \<longleftrightarrow> a = b"
begin

lemma get_set_key: "jget (jset (key a) v m) (key b) = (if b = a then Some v else jget m (key b))"
  by (simp add: jmap_simps key_eq_iff)

lemma filter_key: "filter (\<lambda>x. key (f x) = key a) xs = filter (\<lambda>x. f x = a) xs"
  by (simp add: key_eq_iff)

end

interpretation run_key: text_key "\<lambda>(p, r). runKey p r"
  by unfold_locales
    (auto simp: runKey_def quote_string_append_inj js_def split: prod.splits)

interpretation history_key: text_key "\<lambda>(p, n, i). historyKey p n i"
  by unfold_locales
    (auto simp: historyKey_def quote_string_append_inj js_def split: prod.splits)

lemma runKey_eq [simp]: "runKey p r = runKey p' r' \<longleftrightarrow> p = p' \<and> r = r'"
  using run_key.key_eq_iff [of "(p, r)" "(p', r')"] by simp

lemma historyKey_eq [simp]: "historyKey p n i = historyKey p' n' i' \<longleftrightarrow> p = p' \<and> n = n' \<and> i = i'"
  using history_key.key_eq_iff [of "(p, n, i)" "(p', n', i')"] by simp

section \<open>Candidates\<close>

definition ids_of :: "projected_run \<Rightarrow> jstring \<times> jstring" where
  "ids_of run = (run_projectId run, run_runId run)"

definition key_of :: "projected_run \<Rightarrow> jstring" where
  "key_of run = runKey (run_projectId run) (run_runId run)"

lemma key_of_eq: "key_of a = key_of b \<longleftrightarrow> ids_of a = ids_of b"
  by (simp add: key_of_def ids_of_def)

definition add_candidate :: "projected_run \<Rightarrow> projected_run list \<Rightarrow> projected_run list" where
  "add_candidate run known =
     (if list_ex (\<lambda>r. run_directory r = run_directory run) known then known else known @ [run])"

definition candidates :: "projected_run list \<Rightarrow> jstring \<Rightarrow> projected_run list" where
  "candidates runs k = fold add_candidate (filter (\<lambda>r. key_of r = k) runs) []"

lemma collect_run_get:
  "jget (collect_run run m) k =
     (if k = key_of run then Some (add_candidate run (case jget m k of None \<Rightarrow> [] | Some l \<Rightarrow> l)) else jget m k)"
  by (auto simp: collect_run_def key_of_def add_candidate_def Let_def jmap_simps split: option.splits)

lemma add_candidate_not_Nil [simp]: "add_candidate run l \<noteq> []"
  by (auto simp: add_candidate_def)

lemma candidates_snoc:
  "candidates (runs @ [run]) k = (if key_of run = k then add_candidate run (candidates runs k) else candidates runs k)"
  by (simp add: candidates_def)

lemma collected_get:
  "jget (fold collect_run runs []) k = (if candidates runs k = [] then None else Some (candidates runs k))"
proof (induction runs rule: rev_induct)
  case (snoc run runs)
  then show ?case by (auto simp: collect_run_get candidates_snoc)
qed (simp add: candidates_def)

lemma collected_keys: "jkeys_ok (fold collect_run runs [])"
proof -
  have "jkeys_ok (collect_run run m)" if "jkeys_ok m" for run m
    using that by (auto simp: collect_run_def Let_def jmap_simps split: option.splits)
  then have "jkeys_ok m \<Longrightarrow> jkeys_ok (fold collect_run runs m)" for m
    by (induction runs arbitrary: m) auto
  then show ?thesis by simp
qed

lemma candidates_facts:
  "set (candidates runs k) \<subseteq> {r \<in> set runs. key_of r = k}"
  "distinct (map run_directory (candidates runs k))"
  "run_directory ` set (candidates runs k) = run_directory ` {r \<in> set runs. key_of r = k}"
proof -
  have "set (candidates runs k) \<subseteq> {r \<in> set runs. key_of r = k} \<and>
      distinct (map run_directory (candidates runs k)) \<and>
      run_directory ` set (candidates runs k) = run_directory ` {r \<in> set runs. key_of r = k}"
  proof (induction runs rule: rev_induct)
    case (snoc run runs)
    have split: "{r \<in> set (runs @ [run]). key_of r = k} =
        (if key_of run = k then insert run {r \<in> set runs. key_of r = k} else {r \<in> set runs. key_of r = k})" by auto
    show ?case
    proof (cases "key_of run = k")
      case True
      let ?c = "candidates runs k"
      have IH: "set ?c \<subseteq> {r \<in> set runs. key_of r = k}" "distinct (map run_directory ?c)"
        "run_directory ` set ?c = run_directory ` {r \<in> set runs. key_of r = k}"
        using snoc by blast+
      show ?thesis
      proof (cases "run_directory run \<in> run_directory ` set ?c")
        case known: True
        then have eq: "add_candidate run ?c = ?c" by (auto simp: add_candidate_def list_ex_iff)
        have "run_directory ` insert run {r \<in> set runs. key_of r = k} = run_directory ` set ?c"
          using known unfolding image_insert IH(3) [symmetric] by blast
        with True IH eq show ?thesis unfolding split candidates_snoc by auto
      next
        case False
        then have "\<not> (\<exists>r \<in> set ?c. run_directory r = run_directory run)" by (metis image_eqI)
        then have eq: "add_candidate run ?c = ?c @ [run]" by (simp add: add_candidate_def list_ex_iff)
        with True False IH(1,2) IH(3) [symmetric] show ?thesis
          unfolding split candidates_snoc eq by auto
      qed
    qed (use snoc split in \<open>simp add: candidates_snoc\<close>)
  qed (simp add: candidates_def)
  then show "set (candidates runs k) \<subseteq> {r \<in> set runs. key_of r = k}"
    "distinct (map run_directory (candidates runs k))"
    "run_directory ` set (candidates runs k) = run_directory ` {r \<in> set runs. key_of r = k}" by blast+
qed

lemma collected_entry:
  assumes "(k, l) \<in> set (sort_key fst (fold collect_run runs []))"
  shows "l = candidates runs k" and "l \<noteq> []"
proof -
  have "jget (fold collect_run runs []) k = Some l"
    using assms collected_keys [of runs] by (simp add: jkeys_ok_def)
  then show "l = candidates runs k" "l \<noteq> []" using collected_get [of runs k] by (auto split: if_splits)
qed

section \<open>The loop over keys\<close>

definition assembled :: "projected_run list \<Rightarrow> assembly" where
  "assembled runs = fold assemble_key (sort_key fst (fold collect_run runs []))
     \<lparr>ay_accepted = [], ay_blobs = [], ay_problems = []\<rparr>"

lemma assemble_key_problems: "\<exists>new. ay_problems (assemble_key x st) = ay_problems st @ new"
  by (auto simp: assemble_key_def accept_run_def split: prod.splits option.splits)

lemma assemble_problems_kept:
  "set (ay_problems st) \<subseteq> set (ay_problems (fold assemble_key xs st))"
proof (induction xs arbitrary: st)
  case (Cons x xs)
  from assemble_key_problems [of x st] Cons [of "assemble_key x st"] show ?case by auto
qed simp

lemma assemble_key_accepted:
  "jget (ay_accepted (assemble_key (k, l) st)) k' =
     (if k' = k \<and> \<not> 1 < length l \<and> find (size_conflict (ay_blobs st)) (run_attachments (hd l)) = None
      then Some (hd l) else jget (ay_accepted st) k')"
  by (auto simp: assemble_key_def accept_run_def jmap_simps split: option.splits)

lemma assemble_other_keys:
  "k \<notin> fst ` set xs \<Longrightarrow> jget (ay_accepted (fold assemble_key xs st)) k = jget (ay_accepted st) k"
proof (induction xs arbitrary: st)
  case (Cons x xs)
  then show ?case by (cases x) (simp add: assemble_key_accepted)
qed simp

text \<open>What becomes of one key.\<close>

lemma assemble_entry:
  assumes "(k, l) \<in> set xs" and "distinct (map fst xs)" and "jget (ay_accepted st) k = None"
  shows "if 1 < length l
    then jget (ay_accepted (fold assemble_key xs st)) k = None \<and>
      duplicate_problem l ` set l \<subseteq> set (ay_problems (fold assemble_key xs st))
    else jget (ay_accepted (fold assemble_key xs st)) k = Some (hd l) \<or>
      jget (ay_accepted (fold assemble_key xs st)) k = None \<and>
      (\<exists>blobs a. conflict_problem blobs (hd l) a \<in> set (ay_problems (fold assemble_key xs st)))"
  using assms
proof (induction xs arbitrary: st)
  case (Cons x xs)
  show ?case
  proof (cases "x = (k, l)")
    case True
    then have out: "k \<notin> fst ` set xs" using Cons.prems(2) by force
    let ?st = "assemble_key (k, l) st"
    have acc: "jget (ay_accepted (fold assemble_key (x # xs) st)) k = jget (ay_accepted ?st) k"
      using assemble_other_keys [OF out] True by simp
    have kept: "p \<in> set (ay_problems (fold assemble_key (x # xs) st))" if "p \<in> set (ay_problems ?st)" for p
      using assemble_problems_kept [of ?st xs] that True by auto
    show ?thesis
    proof (cases "1 < length l")
      case True
      have "duplicate_problem l ` set l \<subseteq> set (ay_problems ?st)"
        using True by (auto simp: assemble_key_def)
      with True acc kept Cons.prems(3) show ?thesis by (auto simp: assemble_key_accepted)
    next
      case False
      show ?thesis
      proof (cases "find (size_conflict (ay_blobs st)) (run_attachments (hd l))")
        case None
        with False acc show ?thesis by (simp add: assemble_key_accepted)
      next
        case (Some a)
        then have "conflict_problem (ay_blobs st) (hd l) a \<in> set (ay_problems ?st)"
          using False by (simp add: assemble_key_def accept_run_def)
        with False Some acc kept Cons.prems(3) show ?thesis by (auto simp: assemble_key_accepted)
      qed
    qed
  next
    case False
    with Cons.prems(1) have mem: "(k, l) \<in> set xs" by simp
    then have "k \<in> set (map fst xs)" by force
    with Cons.prems(2) have "fst x \<noteq> k" by auto
    then have "jget (ay_accepted (assemble_key x st)) k = None"
      using Cons.prems(3) by (cases x) (simp add: assemble_key_accepted)
    from Cons.IH [OF mem _ this] Cons.prems(2) show ?thesis by simp
  qed
qed simp

lemma assembled_run:
  assumes "run \<in> set runs"
  defines "cs \<equiv> candidates runs (key_of run)"
  shows "if 1 < length cs
    then jget (ay_accepted (assembled runs)) (key_of run) = None \<and>
      duplicate_problem cs ` set cs \<subseteq> set (ay_problems (assembled runs))
    else jget (ay_accepted (assembled runs)) (key_of run) = Some (hd cs) \<or>
      jget (ay_accepted (assembled runs)) (key_of run) = None \<and>
      (\<exists>blobs a. conflict_problem blobs (hd cs) a \<in> set (ay_problems (assembled runs)))"
proof -
  have "run_directory run \<in> run_directory ` set cs"
    unfolding cs_def candidates_facts(3) using assms(1) by blast
  then have "cs \<noteq> []" by auto
  then have "jget (fold collect_run runs []) (key_of run) = Some cs"
    by (simp add: collected_get cs_def)
  then have mem: "(key_of run, cs) \<in> set (sort_key fst (fold collect_run runs []))"
    by (simp add: map_of_SomeD)
  have dist: "distinct (map fst (sort_key fst (fold collect_run runs [])))"
    using collected_keys [of runs] by (simp add: jkeys_ok_def)
  from assemble_entry [OF mem dist, of "\<lparr>ay_accepted = [], ay_blobs = [], ay_problems = []\<rparr>"]
  show ?thesis unfolding assembled_def [symmetric] by simp
qed

lemma assembled_accepted:
  assumes "jget (ay_accepted (assembled runs)) k = Some run"
  shows "run \<in> set runs" and "key_of run = k"
    and "\<And>r. r \<in> set runs \<Longrightarrow> key_of r = k \<Longrightarrow> run_directory r = run_directory run"
proof -
  have "k \<in> fst ` set (sort_key fst (fold collect_run runs []))"
  proof (rule ccontr)
    assume "k \<notin> fst ` set (sort_key fst (fold collect_run runs []))"
    from assemble_other_keys [OF this] assms show False by (simp add: assembled_def)
  qed
  then obtain l where l: "(k, l) \<in> set (sort_key fst (fold collect_run runs []))" by auto
  note c = collected_entry [OF l]
  then have "hd l \<in> set (candidates runs k)" by simp
  with candidates_facts(1) have hd: "hd l \<in> set runs" "key_of (hd l) = k" by blast+
  from assembled_run [OF hd(1), unfolded hd(2), folded c(1)] assms have one: "\<not> 1 < length l" and run: "run = hd l"
    by (auto split: if_splits)
  then show "run \<in> set runs" "key_of run = k" using hd by simp_all
  from one c(2) have "l = [hd l]" by (cases l) auto
  then have "run_directory ` {r \<in> set runs. key_of r = k} = {run_directory run}"
    unfolding candidates_facts(3) [symmetric] c(1) [symmetric] run by (metis image_empty image_insert list.set(1) list.set(2))
  then show "run_directory r = run_directory run" if "r \<in> set runs" "key_of r = k" for r
    using that by blast
qed

end
