(* ===== verification/Read_Model_Catalog.thy ===== *)
theory Read_Model_Catalog
  imports Read_Model_Facts
begin

text \<open>
  The catalog of bytes of the read model: after the assembly it holds, under each hash, exactly the
  references of the runs in the model, and one size.
\<close>

section \<open>The catalog of bytes\<close>

type_synonym uses = "(projected_run \<times> attachment_reference) set"

definition reference_of :: "projected_run \<Rightarrow> attachment_reference \<Rightarrow> blob_reference" where
  "reference_of run a = \<lparr>br_projectId = run_projectId run, br_runId = run_runId run, br_reference = a\<rparr>"

definition references_to :: "uses \<Rightarrow> jstring \<Rightarrow> blob_reference set" where
  "references_to S k = {reference_of run a | run a. (run, a) \<in> S \<and> ref_sha256 a = k}"

definition catalog_ok :: "uses \<Rightarrow> (jstring, blob) jmap \<Rightarrow> bool" where
  "catalog_ok S blobs \<longleftrightarrow> jkeys_ok blobs \<and>
     (\<forall>k. case jget blobs k of None \<Rightarrow> references_to S k = {}
        | Some b \<Rightarrow> bl_sha256 b = k \<and> set (bl_references b) = references_to S k) \<and>
     (\<forall>k b. jget blobs k = Some b \<longrightarrow> bl_references b \<noteq> [])"

definition sizes_ok :: "uses \<Rightarrow> (jstring, blob) jmap \<Rightarrow> bool" where
  "sizes_ok S blobs \<longleftrightarrow>
     (\<forall>(run, a) \<in> S. \<forall>b. jget blobs (ref_sha256 a) = Some b \<longrightarrow> bl_sizeBytes b = ref_sizeBytes a)"

lemma references_to_insert:
  "references_to (insert (run, a) S) k =
     (if ref_sha256 a = k then insert (reference_of run a) (references_to S k) else references_to S k)"
  by (auto simp: references_to_def)

lemma add_reference_get:
  "jget (add_reference run a blobs) k =
     (if k = ref_sha256 a
      then Some (let b = (case jget blobs (ref_sha256 a) of
             None \<Rightarrow> \<lparr>bl_sha256 = ref_sha256 a, bl_sizeBytes = ref_sizeBytes a, bl_sources = [], bl_references = []\<rparr>
           | Some b \<Rightarrow> b);
         b1 = (if list_ex (\<lambda>s. bs_projectId s = run_projectId run \<and> bs_runId s = run_runId run) (bl_sources b) then b
               else b\<lparr>bl_sources := bl_sources b @ [\<lparr>bs_projectId = run_projectId run, bs_runId = run_runId run,
                 bs_runDirectory = run_directory run\<rparr>]\<rparr>)
         in b1\<lparr>bl_references := bl_references b1 @ [reference_of run a]\<rparr>)
      else jget blobs k)"
  unfolding add_reference_def reference_of_def Let_def jmap_simps by (simp only: if_distrib)

lemma add_reference_facts:
  obtains b where "jget (add_reference run a blobs) (ref_sha256 a) = Some b"
    "bl_sizeBytes b = (case jget blobs (ref_sha256 a) of None \<Rightarrow> ref_sizeBytes a | Some c \<Rightarrow> bl_sizeBytes c)"
    "bl_sha256 b = (case jget blobs (ref_sha256 a) of None \<Rightarrow> ref_sha256 a | Some c \<Rightarrow> bl_sha256 c)"
    "set (bl_references b) = insert (reference_of run a)
       (case jget blobs (ref_sha256 a) of None \<Rightarrow> {} | Some c \<Rightarrow> set (bl_references c))"
  by (cases "jget blobs (ref_sha256 a)") (auto simp: add_reference_get Let_def)

lemma catalog_ok_add:
  assumes ok: "catalog_ok S blobs"
  shows "catalog_ok (insert (run, a) S) (add_reference run a blobs)"
proof -
  obtain b where b: "jget (add_reference run a blobs) (ref_sha256 a) = Some b"
    "bl_sha256 b = (case jget blobs (ref_sha256 a) of None \<Rightarrow> ref_sha256 a | Some c \<Rightarrow> bl_sha256 c)"
    "set (bl_references b) = insert (reference_of run a)
       (case jget blobs (ref_sha256 a) of None \<Rightarrow> {} | Some c \<Rightarrow> set (bl_references c))"
    by (rule add_reference_facts)
  have other: "jget (add_reference run a blobs) k = jget blobs k" if "k \<noteq> ref_sha256 a" for k
    using that by (simp add: add_reference_get)
  have "jkeys_ok (add_reference run a blobs)"
    using ok by (simp add: catalog_ok_def add_reference_def Let_def jmap_simps)
  moreover have "case jget (add_reference run a blobs) k of None \<Rightarrow> references_to (insert (run, a) S) k = {}
      | Some b \<Rightarrow> bl_sha256 b = k \<and> set (bl_references b) = references_to (insert (run, a) S) k" for k
  proof (cases "k = ref_sha256 a")
    case True
    from ok have "case jget blobs k of None \<Rightarrow> references_to S k = {}
        | Some b \<Rightarrow> bl_sha256 b = k \<and> set (bl_references b) = references_to S k"
      by (simp add: catalog_ok_def)
    with b True show ?thesis by (auto simp: references_to_insert split: option.splits)
  next
    case False
    then have same: "references_to (insert (run, a) S) k = references_to S k" by (simp add: references_to_insert)
    show ?thesis unfolding same other [OF False] using ok unfolding catalog_ok_def by blast
  qed
  moreover have "bl_references c \<noteq> []" if c: "jget (add_reference run a blobs) k = Some c" for k c
  proof (cases "k = ref_sha256 a")
    case True
    with b c have "reference_of run a \<in> set (bl_references c)" by simp
    then show ?thesis by auto
  next
    case False
    then show ?thesis using ok c unfolding other [OF False] catalog_ok_def by blast
  qed
  ultimately show ?thesis by (simp add: catalog_ok_def)
qed

lemma catalog_ok_fold:
  "catalog_ok S blobs \<Longrightarrow> catalog_ok (Pair run ` set as \<union> S) (fold (add_reference run) as blobs)"
proof (induction as arbitrary: S blobs)
  case (Cons a as)
  from Cons.IH [OF catalog_ok_add [OF Cons.prems]] show ?case by (simp add: Un_commute)
qed simp

definition consistent_run :: "projected_run \<Rightarrow> bool" where
  "consistent_run run \<longleftrightarrow>
     (\<forall>a \<in> set (run_attachments run). \<forall>b \<in> set (run_attachments run).
        ref_sha256 a = ref_sha256 b \<longrightarrow> ref_sizeBytes a = ref_sizeBytes b)"

lemma sizes_ok_add:
  assumes "sizes_ok S blobs" and "\<not> size_conflict blobs a"
    and "\<And>r b. (r, b) \<in> S \<Longrightarrow> ref_sha256 b = ref_sha256 a \<Longrightarrow> jget blobs (ref_sha256 a) \<noteq> None"
  shows "sizes_ok (insert (run, a) S) (add_reference run a blobs)"
proof -
  obtain b where b: "jget (add_reference run a blobs) (ref_sha256 a) = Some b"
    "bl_sizeBytes b = (case jget blobs (ref_sha256 a) of None \<Rightarrow> ref_sizeBytes a | Some c \<Rightarrow> bl_sizeBytes c)"
    by (rule add_reference_facts)
  have size: "bl_sizeBytes b = ref_sizeBytes a"
    using assms(2) b(2) by (auto simp: size_conflict_def split: option.splits)
  have "bl_sizeBytes c = ref_sizeBytes y"
    if "(r, y) \<in> S" "jget (add_reference run a blobs) (ref_sha256 y) = Some c" for r y c
  proof (cases "ref_sha256 y = ref_sha256 a")
    case True
    with assms(3) that obtain d where "jget blobs (ref_sha256 a) = Some d" by blast
    with assms(1) that True b show ?thesis by (fastforce simp: sizes_ok_def)
  next
    case False
    with assms(1) that show ?thesis by (fastforce simp: sizes_ok_def add_reference_get)
  qed
  with b(1) size show ?thesis by (auto simp: sizes_ok_def)
qed

lemma size_conflict_add:
  assumes "\<not> size_conflict blobs b" and "ref_sha256 a = ref_sha256 b \<longrightarrow> ref_sizeBytes a = ref_sizeBytes b"
  shows "\<not> size_conflict (add_reference run a blobs) b"
proof (cases "ref_sha256 b = ref_sha256 a")
  case True
  obtain c where c: "jget (add_reference run a blobs) (ref_sha256 a) = Some c"
    "bl_sizeBytes c = (case jget blobs (ref_sha256 a) of None \<Rightarrow> ref_sizeBytes a | Some c \<Rightarrow> bl_sizeBytes c)"
    by (rule add_reference_facts)
  with assms True show ?thesis by (auto simp: size_conflict_def split: option.splits)
qed (use assms in \<open>simp add: size_conflict_def add_reference_get\<close>)

lemma catalog_known:
  assumes "catalog_ok S blobs" and "(r, b) \<in> S"
  shows "jget blobs (ref_sha256 b) \<noteq> None"
proof
  assume none: "jget blobs (ref_sha256 b) = None"
  from assms(1) have "case jget blobs (ref_sha256 b) of None \<Rightarrow> references_to S (ref_sha256 b) = {}
      | Some c \<Rightarrow> bl_sha256 c = ref_sha256 b \<and> set (bl_references c) = references_to S (ref_sha256 b)"
    unfolding catalog_ok_def by blast
  then have "references_to S (ref_sha256 b) = {}" by (simp add: none)
  with assms(2) show False by (auto simp: references_to_def)
qed

lemma sizes_ok_fold:
  assumes "catalog_ok S blobs" and "sizes_ok S blobs" and "\<forall>a \<in> set as. \<not> size_conflict blobs a"
    and "\<forall>a \<in> set as. \<forall>b \<in> set as. ref_sha256 a = ref_sha256 b \<longrightarrow> ref_sizeBytes a = ref_sizeBytes b"
  shows "sizes_ok (Pair run ` set as \<union> S) (fold (add_reference run) as blobs)"
  using assms
proof (induction as arbitrary: S blobs)
  case (Cons a as)
  have no: "\<not> size_conflict blobs a" using Cons.prems(3) by simp
  have known: "jget blobs (ref_sha256 a) \<noteq> None" if "(r, b) \<in> S" "ref_sha256 b = ref_sha256 a" for r b
    using catalog_known [OF Cons.prems(1) that(1)] that(2) by simp
  note sizes = sizes_ok_add [OF Cons.prems(2) no known]
  have conflicts: "\<forall>b \<in> set as. \<not> size_conflict (add_reference run a blobs) b"
  proof
    fix b assume b: "b \<in> set as"
    then have "ref_sha256 a = ref_sha256 b \<longrightarrow> ref_sizeBytes a = ref_sizeBytes b"
      using Cons.prems(4) list.set_intros(1) [of a as] list.set_intros(2) [OF b, of a] by blast
    moreover have "\<not> size_conflict blobs b" using b Cons.prems(3) by simp
    ultimately show "\<not> size_conflict (add_reference run a blobs) b" by (rule size_conflict_add [rotated])
  qed
  have "\<forall>a \<in> set as. \<forall>b \<in> set as. ref_sha256 a = ref_sha256 b \<longrightarrow> ref_sizeBytes a = ref_sizeBytes b"
    using Cons.prems(4) by (meson list.set_intros(2))
  note IH = Cons.IH [OF catalog_ok_add [OF Cons.prems(1)] sizes conflicts this]
  show ?case using IH by (simp add: Un_commute)
qed simp

text \<open>The catalog after the loop over keys.\<close>

definition uses_of :: "(jstring, projected_run) jmap \<Rightarrow> uses" where
  "uses_of acc = {(run, a) | k run a. (k, run) \<in> set acc \<and> a \<in> set (run_attachments run)}"

lemma uses_of_fresh:
  "jget acc k = None \<Longrightarrow> uses_of (jset k run acc) = Pair run ` set (run_attachments run) \<union> uses_of acc"
  by (auto simp: uses_of_def update_fresh)

lemma assemble_key_catalog:
  assumes "catalog_ok (uses_of (ay_accepted st)) (ay_blobs st)" and "jget (ay_accepted st) k = None"
  shows "catalog_ok (uses_of (ay_accepted (assemble_key (k, l) st))) (ay_blobs (assemble_key (k, l) st))"
  using assms catalog_ok_fold [OF assms(1)]
  by (auto simp: assemble_key_def accept_run_def uses_of_fresh split: option.splits)

lemma assemble_key_sizes:
  assumes "catalog_ok (uses_of (ay_accepted st)) (ay_blobs st)" and "sizes_ok (uses_of (ay_accepted st)) (ay_blobs st)"
    and "jget (ay_accepted st) k = None" and "consistent_run (hd l)"
  shows "sizes_ok (uses_of (ay_accepted (assemble_key (k, l) st))) (ay_blobs (assemble_key (k, l) st))"
proof (cases "\<not> 1 < length l \<and> find (size_conflict (ay_blobs st)) (run_attachments (hd l)) = None")
  case True
  then have "\<forall>a \<in> set (run_attachments (hd l)). \<not> size_conflict (ay_blobs st) a"
    by (simp add: find_None_iff)
  note sizes = sizes_ok_fold [OF assms(1,2) this assms(4) [unfolded consistent_run_def]]
  from True have "ay_accepted (assemble_key (k, l) st) = jset k (hd l) (ay_accepted st)"
    "ay_blobs (assemble_key (k, l) st) = fold (add_reference (hd l)) (run_attachments (hd l)) (ay_blobs st)"
    by (simp_all add: assemble_key_def accept_run_def)
  with sizes assms(3) show ?thesis by (simp add: uses_of_fresh)
next
  case False
  then have "ay_accepted (assemble_key (k, l) st) = ay_accepted st" "ay_blobs (assemble_key (k, l) st) = ay_blobs st"
    by (auto simp: assemble_key_def accept_run_def)
  with assms(2) show ?thesis by simp
qed

lemma assemble_fold_catalog:
  assumes "catalog_ok (uses_of (ay_accepted st)) (ay_blobs st)" and "distinct (map fst xs)"
    and "\<forall>k \<in> fst ` set xs. jget (ay_accepted st) k = None"
  shows "catalog_ok (uses_of (ay_accepted (fold assemble_key xs st))) (ay_blobs (fold assemble_key xs st)) \<and>
    (sizes_ok (uses_of (ay_accepted st)) (ay_blobs st) \<longrightarrow> (\<forall>x \<in> set xs. consistent_run (hd (snd x))) \<longrightarrow>
     sizes_ok (uses_of (ay_accepted (fold assemble_key xs st))) (ay_blobs (fold assemble_key xs st)))"
  using assms
proof (induction xs arbitrary: st)
  case (Cons x xs)
  obtain k l where x: "x = (k, l)" by (cases x)
  have none: "jget (ay_accepted st) k = None" using Cons.prems(3) x by simp
  have cat: "catalog_ok (uses_of (ay_accepted (assemble_key x st))) (ay_blobs (assemble_key x st))"
    using assemble_key_catalog [OF Cons.prems(1) none] x by simp
  have rest: "\<forall>k' \<in> fst ` set xs. jget (ay_accepted (assemble_key x st)) k' = None"
    using Cons.prems(2,3) x by (auto simp: assemble_key_accepted)
  have dist: "distinct (map fst xs)" using Cons.prems(2) by simp
  have "sizes_ok (uses_of (ay_accepted (assemble_key x st))) (ay_blobs (assemble_key x st))"
    if "sizes_ok (uses_of (ay_accepted st)) (ay_blobs st)" "consistent_run (hd (snd x))"
    using assemble_key_sizes [OF Cons.prems(1) that(1) none] that(2) x by simp
  with Cons.IH [OF cat dist rest] show ?case by simp
qed simp

lemma assembled_catalog:
  "catalog_ok (uses_of (ay_accepted (assembled runs))) (ay_blobs (assembled runs))"
  "\<forall>run \<in> set runs. consistent_run run \<Longrightarrow>
     sizes_ok (uses_of (ay_accepted (assembled runs))) (ay_blobs (assembled runs))"
proof -
  let ?st = "\<lparr>ay_accepted = [], ay_blobs = [], ay_problems = []\<rparr>"
  let ?xs = "sort_key fst (fold collect_run runs [])"
  have dist: "distinct (map fst ?xs)" using collected_keys [of runs] by (simp add: jkeys_ok_def)
  have empty: "uses_of [] = {}" by (simp add: uses_of_def)
  have "catalog_ok (uses_of (ay_accepted ?st)) (ay_blobs ?st)"
    by (simp add: empty catalog_ok_def references_to_def)
  note all = assemble_fold_catalog [OF this dist]
  show "catalog_ok (uses_of (ay_accepted (assembled runs))) (ay_blobs (assembled runs))"
    unfolding assembled_def using all by simp
  assume ok: "\<forall>run \<in> set runs. consistent_run run"
  have "consistent_run (hd (snd x))" if "x \<in> set ?xs" for x
  proof -
    have "hd (snd x) \<in> set (candidates runs (fst x))"
      using collected_entry [of "fst x" "snd x" runs] that by simp
    with candidates_facts(1) ok show ?thesis by blast
  qed
  then show "sizes_ok (uses_of (ay_accepted (assembled runs))) (ay_blobs (assembled runs))"
    unfolding assembled_def using all by (simp add: empty sizes_ok_def)
qed

lemma assembled_references:
  assumes "jget (ay_blobs (assembled runs)) k = Some b"
  shows "bl_references b \<noteq> []"
  using assembled_catalog(1) [of runs] assms unfolding catalog_ok_def by blast

end
