(* ===== verification/History_Properties.thy ===== *)
theory History_Properties
  imports History_Order
begin

text \<open>
  The position of a timestamp is its place on a clock that has leap seconds: the order of
  positions is the order of the UTC minute, the second within it and the millisecond.
\<close>

section \<open>Texts and groups\<close>

definition wf_groups :: "timestamp_groups \<Rightarrow> bool" where
  "wf_groups g \<longleftrightarrow>
     length (ts_year g) = 4 \<and> length (ts_month g) = 2 \<and> length (ts_day g) = 2 \<and> length (ts_hour g) = 2 \<and>
     length (ts_minute g) = 2 \<and> length (ts_second g) = 2 \<and>
     list_all (list_all is_digit)
       [ts_year g, ts_month g, ts_day g, ts_hour g, ts_minute g, ts_second g] \<and>
     (case ts_fraction g of None \<Rightarrow> True | Some f \<Rightarrow> list_all is_digit f \<and> 1 \<le> length f \<and> length f \<le> 9) \<and>
     (case ts_offset g of None \<Rightarrow> True
      | Some (c, h, m) \<Rightarrow> (c = 0x2B \<or> c = 0x2D) \<and> length h = 2 \<and> length m = 2 \<and> list_all is_digit h \<and> list_all is_digit m)"

definition fraction_text :: "timestamp_groups \<Rightarrow> jstring" where
  "fraction_text g = (case ts_fraction g of None \<Rightarrow> [] | Some f \<Rightarrow> 0x2E # f)"

definition timestamp_text :: "timestamp_groups \<Rightarrow> jstring" where
  "timestamp_text g =
     ts_year g @ [0x2D] @ ts_month g @ [0x2D] @ ts_day g @ [0x54] @ ts_hour g @ [0x3A] @ ts_minute g @ [0x3A] @
     ts_second g @ fraction_text g @ zone_text g"

lemma punctuation: "js ''-'' = [0x2D]" "js ''T'' = [0x54]" "js '':'' = [0x3A]" "js ''Z'' = [0x5A]"
  "js '':59.999'' = 0x3A # [0x35, 0x39] @ 0x2E # [0x39, 0x39, 0x39]"
  by (simp_all add: js_def)

lemma match_timestamp_text:
  assumes "match_timestamp s = Some g"
  shows "wf_groups g" and "s = timestamp_text g"
  using assms
  by (auto simp: match_timestamp_def scan_digits_Some_iff wf_groups_def timestamp_text_def fraction_text_def
      zone_text_def punctuation split: bind_splits option.splits prod.splits
      dest!: scan_fraction_Some scan_zone_Some)

lemma scan_digits_append: "length d = n \<Longrightarrow> list_all is_digit d \<Longrightarrow> scan_digits n (d @ r) = Some (d, r)"
  by (simp add: scan_digits_def)

lemma zone_text_start: "zone_text g = c # r \<Longrightarrow> wf_groups g \<Longrightarrow> \<not> is_digit c \<and> c \<noteq> 0x2E"
  by (auto simp: zone_text_def wf_groups_def is_digit_def punctuation split: option.splits prod.splits)

lemma zone_text_cases:
  assumes "wf_groups g"
  obtains c r where "zone_text g = c # r" "\<not> is_digit c" "c \<noteq> 0x2E"
proof -
  obtain c r where "zone_text g = c # r" by (cases "ts_offset g") (auto simp: zone_text_def punctuation)
  with zone_text_start [OF this assms] that show thesis by blast
qed

lemma scan_zone_text: "wf_groups g \<Longrightarrow> scan_zone (zone_text g) = Some (ts_offset g)"
  by (auto simp: zone_text_def scan_zone_def wf_groups_def punctuation scan_digits_append scan_digits_def
      split: option.splits prod.splits)

lemma scan_fraction_text:
  assumes "wf_groups g"
  shows "scan_fraction (fraction_text g @ zone_text g) = Some (ts_fraction g, zone_text g)"
proof -
  obtain c r where z: "zone_text g = c # r" "\<not> is_digit c" "c \<noteq> 0x2E" by (rule zone_text_cases [OF assms])
  show ?thesis
  proof (cases "ts_fraction g")
    case (Some f)
    then have "\<forall>x \<in> set f. is_digit x" "1 \<le> length f" "length f \<le> 9"
      using assms by (auto simp: wf_groups_def list_all_iff)
    with z Some show ?thesis
      by (simp add: fraction_text_def scan_fraction_def takeWhile_append2 dropWhile_append2 Let_def)
  qed (use z in \<open>simp add: fraction_text_def scan_fraction_def\<close>)
qed

lemma match_timestamp_of_text:
  assumes "wf_groups g"
  shows "match_timestamp (timestamp_text g) = Some g"
proof -
  have "length (ts_year g) = 4" "length (ts_month g) = 2" "length (ts_day g) = 2" "length (ts_hour g) = 2"
    "length (ts_minute g) = 2" "length (ts_second g) = 2" "list_all is_digit (ts_year g)"
    "list_all is_digit (ts_month g)" "list_all is_digit (ts_day g)" "list_all is_digit (ts_hour g)"
    "list_all is_digit (ts_minute g)" "list_all is_digit (ts_second g)"
    using assms by (simp_all add: wf_groups_def)
  then show ?thesis
    by (simp add: match_timestamp_def timestamp_text_def scan_digits_append scan_fraction_text [OF assms]
        scan_zone_text [OF assms])
qed

section \<open>Positions\<close>

lemma before_leap_text:
  "before_leap g = timestamp_text (g\<lparr>ts_second := [0x35, 0x39], ts_fraction := Some [0x39, 0x39, 0x39]\<rparr>)"
  by (simp add: before_leap_def timestamp_text_def fraction_text_def punctuation zone_text_def)

lemma same_clock:
  "utc_minute (g\<lparr>ts_second := s, ts_fraction := f\<rparr>) = utc_minute g"
  "calendar_ok (g\<lparr>ts_second := s, ts_fraction := f\<rparr>) = calendar_ok g"
  by (simp_all add: utc_minute_def offset_minutes_def is_negative_def offset_hour_def offset_minute_def calendar_ok_def)

lemma Date_parse_before_leap:
  assumes "wf_groups g" and "calendar_ok g" and "clock_ok g"
  shows "Date_parse (before_leap g) = Some (utc_minute g * 60000 + 59999)"
proof -
  let ?g = "g\<lparr>ts_second := [0x35, 0x39], ts_fraction := Some [0x39, 0x39, 0x39]\<rparr>"
  have "wf_groups ?g" using assms(1) by (simp add: wf_groups_def is_digit_def)
  note match = match_timestamp_of_text [OF this]
  have sec: "digits_value [0x35, 0x39] = 59" and ms: "millisecond ?g = 999"
    by (simp_all add: digits_value_def millisecond_def)
  have "clock_ok ?g"
    using assms(3) sec by (simp add: clock_ok_def offset_hour_def offset_minute_def)
  then show ?thesis
    using assms(2) by (simp add: Date_parse_def before_leap_text match same_clock sec ms)
qed

text \<open>The place of a timestamp on a clock with leap seconds.\<close>

definition clock_place :: "timestamp_groups \<Rightarrow> int \<times> nat \<times> nat" where
  "clock_place g = (utc_minute g, digits_value (ts_second g), millisecond g)"

definition legal_time :: "timestamp_groups \<Rightarrow> bool" where
  "legal_time g \<longleftrightarrow> calendar_ok g \<and> clock_ok g \<and> (digits_value (ts_second g) = 60 \<longrightarrow> utc_minute g mod 1440 = 1439)"

lemma utc_minute_of_day_mod: "utc_minute_of_day g = utc_minute g mod 1440"
proof -
  have "utc_minute g = int (digits_value (ts_hour g) * 60 + digits_value (ts_minute g)) - offset_minutes g +
      day_number (int (digits_value (ts_year g))) (digits_value (ts_month g)) (int (digits_value (ts_day g))) * 1440"
    unfolding utc_minute_def by (simp only: add.commute add_diff_eq)
  then show ?thesis unfolding utc_minute_of_day_def by (simp only: mod_mult_self1)
qed

definition instant_of :: "timestamp_groups \<Rightarrow> history_instant" where
  "instant_of g =
     (if digits_value (ts_second g) < 60
      then \<lparr>epochMs = utc_minute g * 60000 + int (digits_value (ts_second g) * 1000 + millisecond g), leap = 0\<rparr>
      else \<lparr>epochMs = utc_minute g * 60000 + 59999, leap = 1 + int (millisecond g)\<rparr>)"

lemma historyInstant_match:
  assumes match: "match_timestamp s = Some g"
  shows "historyInstant s = (if legal_time g then Inr (instant_of g) else Inl (invalid_timestamp s))"
proof (cases "calendar_ok g \<and> clock_ok g")
  case True
  then have ok: "calendar_ok g" "clock_ok g" by blast+
  show ?thesis
  proof (cases "digits_value (ts_second g) < 60")
    case sec: True
    have "Date_parse s = Some (utc_minute g * 60000 + int (digits_value (ts_second g) * 1000 + millisecond g))"
      unfolding Date_parse_def match option.case using ok sec by presburger
    with ok sec show ?thesis
      unfolding historyInstant_def match option.case legal_time_def instant_of_def by simp
  next
    case False
    with ok(2) have sec: "digits_value (ts_second g) = 60" unfolding clock_ok_def by linarith
    note parse = Date_parse_before_leap [OF match_timestamp_text(1) [OF match] ok]
    show ?thesis
      unfolding historyInstant_def match option.case legal_time_def instant_of_def parse utc_minute_of_day_mod sec
      using ok by simp
  qed
next
  case False
  then show ?thesis unfolding historyInstant_def match option.case legal_time_def by auto
qed

lemma historyInstant_Inr:
  assumes "historyInstant s = Inr x"
  obtains g where "match_timestamp s = Some g" "legal_time g" "x = instant_of g"
  using assms historyInstant_match [of s]
  by (cases "match_timestamp s") (auto simp: historyInstant_def split: if_splits)

lemma digits_value_bound: "list_all is_digit s \<Longrightarrow> digits_value s < 10 ^ length s"
proof (induction s rule: rev_induct)
  case (snoc c s)
  then have "digits_value s + 1 \<le> 10 ^ length s" and "unat c - 0x30 < 10"
    using digit_of_unit(2) by auto
  then show ?case unfolding digits_value_snoc length_append by simp
qed (simp add: digits_value_def)

lemma millisecond_bound:
  assumes "wf_groups g"
  shows "millisecond g < 1000"
proof -
  obtain f where f: "f = (case ts_fraction g of None \<Rightarrow> [] | Some f \<Rightarrow> f)" "list_all is_digit f"
    using assms by (cases "ts_fraction g") (auto simp: wf_groups_def)
  have "is_digit 0x30" by (simp add: is_digit_def)
  with f(2) have "list_all is_digit (take 3 (f @ replicate (3 - length f) 0x30))"
    by (auto simp: list_all_iff dest: in_set_takeD)
  from digits_value_bound [OF this] have "digits_value (take 3 (f @ replicate (3 - length f) 0x30)) < 10 ^ 3"
    by (auto simp: min_def split: if_splits)
  then show ?thesis by (simp add: millisecond_def f(1) [symmetric])
qed

lemma place_order:
  assumes "(s :: nat) \<le> 60" "s' \<le> 60" "f < 1000" "f' < 1000"
    and "s = 60 \<longrightarrow> m mod 1440 = 1439" "s' = 60 \<longrightarrow> m' mod 1440 = (1439 :: int)"
  defines "E \<equiv> \<lambda>(m :: int) s f. if s < 60 then m * 60000 + int (s * 1000 + f) else m * 60000 + 59999"
    and "L \<equiv> \<lambda>(s :: nat) f. if s < 60 then 0 else 1 + int f"
  shows "(E m s f < E m' s' f' \<or> E m s f = E m' s' f' \<and> L s f < L s' f') \<longleftrightarrow>
    m < m' \<or> m = m' \<and> (s < s' \<or> s = s' \<and> f < f')"
proof -
  have b: "m * 60000 \<le> E m s f" "E m s f \<le> m * 60000 + 59999" if "s \<le> 60" "f < 1000" for m s and f :: nat
    using that by (auto simp: E_def)
  show ?thesis
  proof (cases "m = m'")
    case True
    then show ?thesis using assms(1-4) by (cases "s < 60"; cases "s' < 60") (auto simp: E_def L_def)
  next
    case False
    then show ?thesis using b [OF assms(1,3), of m] b [OF assms(2,4), of m'] by auto
  qed
qed

lemma instant_of_order:
  assumes "wf_groups g" "legal_time g" "wf_groups k" "legal_time k"
  shows "compareHistoryInstants (instant_of g) (instant_of k) < 0 \<longleftrightarrow> clock_place g < clock_place k"
proof -
  have sec: "digits_value (ts_second g) \<le> 60" "digits_value (ts_second k) \<le> 60"
    using assms by (simp_all add: legal_time_def clock_ok_def)
  have leap: "digits_value (ts_second g) = 60 \<longrightarrow> utc_minute g mod 1440 = 1439"
    "digits_value (ts_second k) = 60 \<longrightarrow> utc_minute k mod 1440 = 1439"
    using assms by (simp_all add: legal_time_def)
  have "compareHistoryInstants x y < 0 \<longleftrightarrow> epochMs x < epochMs y \<or> epochMs x = epochMs y \<and> leap x < leap y" for x y
    by (auto simp: compareHistoryInstants_def)
  moreover have "epochMs (instant_of g) = (if digits_value (ts_second g) < 60
      then utc_minute g * 60000 + int (digits_value (ts_second g) * 1000 + millisecond g) else utc_minute g * 60000 + 59999)"
    "leap (instant_of g) = (if digits_value (ts_second g) < 60 then 0 else 1 + int (millisecond g))" for g
    by (simp_all add: instant_of_def)
  ultimately show ?thesis
    using place_order [OF sec millisecond_bound [OF assms(1)] millisecond_bound [OF assms(3)] leap]
    by (auto simp: clock_place_def less_prod_def order_le_less)
qed

text \<open>
  C38. History order is the order of a clock with leap seconds: of two timestamps that have a
  position, the first sorts before the second exactly when its UTC minute, then its second (0 to
  60), then its millisecond is smaller.  A leap second therefore follows every instant of the
  second 59 and precedes the next minute, and equal positions are equal clock readings.
\<close>

theorem history_order_is_clock_order:
  assumes "historyInstant s = Inr x" and "historyInstant t = Inr y"
  shows "\<exists>g k. match_timestamp s = Some g \<and> match_timestamp t = Some k \<and>
    (compareHistoryInstants x y < 0 \<longleftrightarrow> clock_place g < clock_place k) \<and>
    (compareHistoryInstants x y = 0 \<longleftrightarrow> clock_place g = clock_place k) \<and>
    (compareHistoryInstants x y > 0 \<longleftrightarrow> clock_place g > clock_place k)"
proof -
  obtain g where g: "match_timestamp s = Some g" "legal_time g" "x = instant_of g"
    by (rule historyInstant_Inr [OF assms(1)])
  obtain k where k: "match_timestamp t = Some k" "legal_time k" "y = instant_of k"
    by (rule historyInstant_Inr [OF assms(2)])
  note wf = match_timestamp_text(1) [OF g(1)] match_timestamp_text(1) [OF k(1)]
  have lt: "compareHistoryInstants x y < 0 \<longleftrightarrow> clock_place g < clock_place k"
    unfolding g(3) k(3) by (rule instant_of_order [OF wf(1) g(2) wf(2) k(2)])
  have gt: "compareHistoryInstants y x < 0 \<longleftrightarrow> clock_place k < clock_place g"
    unfolding g(3) k(3) by (rule instant_of_order [OF wf(2) k(2) wf(1) g(2)])
  have "compareHistoryInstants x y > 0 \<longleftrightarrow> compareHistoryInstants y x < 0"
    by (auto simp: compareHistoryInstants_def)
  with gt have gt': "compareHistoryInstants x y > 0 \<longleftrightarrow> clock_place g > clock_place k" by blast
  with lt have "compareHistoryInstants x y = 0 \<longleftrightarrow> clock_place g = clock_place k"
    by (metis linorder_less_linear less_irrefl)
  with g(1) k(1) lt gt' show ?thesis by blast
qed

definition leap_groups :: timestamp_groups where
  "leap_groups = \<lparr>ts_year = js ''2016'', ts_month = js ''12'', ts_day = js ''31'', ts_hour = js ''23'',
     ts_minute = js ''59'', ts_second = js ''60'', ts_fraction = Some (js ''5''), ts_offset = None\<rparr>"

definition next_groups :: timestamp_groups where
  "next_groups = \<lparr>ts_year = js ''2017'', ts_month = js ''01'', ts_day = js ''01'', ts_hour = js ''00'',
     ts_minute = js ''00'', ts_second = js ''00'', ts_fraction = None, ts_offset = None\<rparr>"

lemma sample_digits:
  "digits_value (js ''2016'') = 2016" "digits_value (js ''2017'') = 2017" "digits_value (js ''12'') = 12"
  "digits_value (js ''31'') = 31" "digits_value (js ''01'') = 1" "digits_value (js ''00'') = 0"
  "digits_value (js ''23'') = 23" "digits_value (js ''59'') = 59" "digits_value (js ''60'') = 60"
  by (simp_all add: digits_value_def js_def)

lemma sample_match:
  "match_timestamp (js ''2016-12-31T23:59:60.5Z'') = Some leap_groups"
  "match_timestamp (js ''2017-01-01T00:00:00Z'') = Some next_groups"
proof -
  have "wf_groups leap_groups" "wf_groups next_groups"
    by (simp_all add: wf_groups_def leap_groups_def next_groups_def js_def is_digit_def)
  moreover have "js ''2016-12-31T23:59:60.5Z'' = timestamp_text leap_groups"
    "js ''2017-01-01T00:00:00Z'' = timestamp_text next_groups"
    by (simp_all add: timestamp_text_def leap_groups_def next_groups_def js_def fraction_text_def zone_text_def)
  ultimately show "match_timestamp (js ''2016-12-31T23:59:60.5Z'') = Some leap_groups"
    "match_timestamp (js ''2017-01-01T00:00:00Z'') = Some next_groups"
    using match_timestamp_of_text by simp_all
qed

lemma sample_days: "day_number 2016 12 31 = 17166" "day_number 2017 1 1 = 17167"
proof -
  have "sum_list (map (month_days 2016) [1..<13]) = 366" by (simp only: year_sum) (simp add: leap_year_def)
  then have "sum_list (map (month_days 2016) [1..<12]) = 335"
    using month_sum_Suc [of 12 2016] by (simp add: month_days_values)
  then show "day_number 2016 12 31 = 17166" by (simp add: day_number_def day_from_year_def)
  show "day_number 2017 1 1 = 17167" by (simp add: day_number_def day_from_year_def)
qed

lemma replicate_numeral: "replicate 2 x = [x, x]" "replicate 3 x = [x, x, x]"
  by (simp_all add: numeral_2_eq_2 numeral_3_eq_3)

lemmas sample_group_defs = leap_groups_def next_groups_def sample_digits sample_days offset_minutes_def
  is_negative_def offset_hour_def offset_minute_def

lemma sample_places:
  "utc_minute leap_groups = 24720479" "utc_minute next_groups = 24720480"
  "millisecond leap_groups = 500" "millisecond next_groups = 0"
  "legal_time leap_groups" "legal_time next_groups"
proof -
  show um: "utc_minute leap_groups = 24720479" "utc_minute next_groups = 24720480"
    by (simp_all add: utc_minute_def sample_group_defs del: One_nat_def)
  show "millisecond leap_groups = 500" "millisecond next_groups = 0"
    by (simp_all add: millisecond_def sample_group_defs digits_value_def js_def replicate_numeral)
  show "legal_time leap_groups" "legal_time next_groups"
    by (simp_all add: legal_time_def um calendar_ok_def clock_ok_def)
      (simp_all add: sample_group_defs month_days_values del: One_nat_def)
qed

lemma leap_sample:
  "historyInstant (js ''2016-12-31T23:59:60.5Z'') = Inr \<lparr>epochMs = 1483228799999, leap = 501\<rparr>"
  "historyInstant (js ''2017-01-01T00:00:00Z'') = Inr \<lparr>epochMs = 1483228800000, leap = 0\<rparr>"
  unfolding historyInstant_match [OF sample_match(1)] historyInstant_match [OF sample_match(2)]
  by (simp_all add: sample_places instant_of_def) (simp_all add: sample_group_defs)

theorem history_order_is_clock_order_witness:
  "\<exists>g k. match_timestamp (js ''2016-12-31T23:59:60.5Z'') = Some g \<and>
     match_timestamp (js ''2017-01-01T00:00:00Z'') = Some k \<and> clock_place g < clock_place k"
proof -
  have "compareHistoryInstants \<lparr>epochMs = 1483228799999, leap = 501\<rparr> \<lparr>epochMs = 1483228800000, leap = 0\<rparr> < 0"
    by (simp add: compareHistoryInstants_def)
  with history_order_is_clock_order [OF leap_sample] show ?thesis by blast
qed

section \<open>Calendar order\<close>

definition reading :: "timestamp_groups \<Rightarrow> (int \<times> nat \<times> int) \<times> nat \<times> nat \<times> nat \<times> nat" where
  "reading g = ((int (digits_value (ts_year g)), digits_value (ts_month g), int (digits_value (ts_day g))),
     digits_value (ts_hour g), digits_value (ts_minute g), digits_value (ts_second g), millisecond g)"

lemma calendar_ok_date: "calendar_ok g \<Longrightarrow>
  date_ok (int (digits_value (ts_year g))) (digits_value (ts_month g)) (int (digits_value (ts_day g)))"
  by (simp add: calendar_ok_def date_ok_def Let_def not_less)

lemma reading_place:
  assumes "legal_time g" "legal_time k" and off: "offset_minutes g = offset_minutes k" and less: "reading g < reading k"
  shows "clock_place g < clock_place k"
proof -
  define D where "D g = day_number (int (digits_value (ts_year g))) (digits_value (ts_month g)) (int (digits_value (ts_day g)))" for g :: timestamp_groups
  have um: "utc_minute g = D g * 1440 + int (digits_value (ts_hour g) * 60 + digits_value (ts_minute g)) - offset_minutes g" for g :: timestamp_groups
    by (simp add: utc_minute_def D_def)
  have clock: "digits_value (ts_hour g) \<le> 23" "digits_value (ts_minute g) \<le> 59"
    "digits_value (ts_hour k) \<le> 23" "digits_value (ts_minute k) \<le> 59"
    using assms(1,2) by (simp_all add: legal_time_def clock_ok_def)
  consider "fst (reading g) < fst (reading k)" | "fst (reading g) = fst (reading k)" "snd (reading g) < snd (reading k)"
    using less by (cases "reading g"; cases "reading k") (auto simp: less_prod_def order_le_less)
  then show ?thesis
  proof cases
    case 1
    then have "D g < D k"
      unfolding D_def using assms(1,2) calendar_ok_date
      by (intro day_number_mono) (simp_all add: legal_time_def reading_def)
    then have "utc_minute g < utc_minute k" unfolding um off using clock by simp
    then show ?thesis by (simp add: clock_place_def less_prod_def)
  next
    case 2
    then have "D g = D k" by (simp add: D_def reading_def)
    with 2(2) clock show ?thesis
      by (auto simp: clock_place_def reading_def um off less_prod_def order_le_less)
  qed
qed

text \<open>
  The calendar is read correctly: of two timestamps with positions and the same UTC offset, the
  one with the earlier date and time of day, compared as year, month, day, hour, minute, second and
  millisecond, sorts earlier, across month lengths, leap years and leap seconds.
\<close>

theorem earlier_reading_sorts_earlier:
  assumes "historyInstant s = Inr x" and "historyInstant t = Inr y"
    and "match_timestamp s = Some g" and "match_timestamp t = Some k"
    and "offset_minutes g = offset_minutes k" and "reading g < reading k"
  shows "compareHistoryInstants x y < 0"
proof -
  obtain g' where g: "match_timestamp s = Some g'" "legal_time g'" "x = instant_of g'"
    by (rule historyInstant_Inr [OF assms(1)])
  obtain k' where k: "match_timestamp t = Some k'" "legal_time k'" "y = instant_of k'"
    by (rule historyInstant_Inr [OF assms(2)])
  have eq: "g' = g" "k' = k" using g(1) k(1) assms(3,4) by simp_all
  note wf = match_timestamp_text(1) [OF assms(3)] match_timestamp_text(1) [OF assms(4)]
  show ?thesis
    unfolding g(3) k(3) eq
    using instant_of_order [OF wf(1) g(2) [unfolded eq] wf(2) k(2) [unfolded eq]]
      reading_place [OF g(2) [unfolded eq] k(2) [unfolded eq] assms(5,6)] by blast
qed

theorem earlier_reading_sorts_earlier_witness:
  "\<exists>x y. historyInstant (js ''2016-12-31T23:59:60.5Z'') = Inr x \<and>
     historyInstant (js ''2017-01-01T00:00:00Z'') = Inr y \<and> compareHistoryInstants x y < 0"
proof -
  have "offset_minutes leap_groups = offset_minutes next_groups" by (simp add: sample_group_defs)
  moreover have "reading leap_groups < reading next_groups"
    by (simp add: reading_def less_prod_def) (simp add: sample_group_defs)
  ultimately have "offset_minutes leap_groups = offset_minutes next_groups" "reading leap_groups < reading next_groups"
    by blast+
  from earlier_reading_sorts_earlier [OF leap_sample sample_match this] leap_sample show ?thesis by blast
qed

text \<open>
  The timestamp expression and its groups determine each other: a text matches with given
  groups exactly when the groups have the expression's digits and the text is their concatenation.
\<close>

theorem timestamp_roundtrip:
  "match_timestamp s = Some g \<longleftrightarrow> wf_groups g \<and> s = timestamp_text g"
  using match_timestamp_text match_timestamp_of_text by blast

end
