(* ===== verification/Read_Model_Properties.thy ===== *)
theory Read_Model_Properties
  imports Read_Model_Catalog History_Properties
begin

text \<open>
  What the read model promises: no run is lost silently, queries are exact, histories are complete
  and in clock order, the catalog of bytes holds every reference, and the order of the input does
  not matter.
\<close>

section \<open>Histories\<close>

definition occurrence_ids :: "occurrence \<Rightarrow> jstring \<times> jstring \<times> jstring" where
  "occurrence_ids x = (oc_projectId x, oc_runnerName x, oc_historicalId x)"

lemma add_occurrence_get:
  "jget (add_occurrence x m) (historyKey p n i) =
     (if occurrence_ids x = (p, n, i)
      then Some ((case jget m (historyKey p n i) of None \<Rightarrow> [] | Some l \<Rightarrow> l) @ [x])
      else jget m (historyKey p n i))"
  by (auto simp: add_occurrence_def occurrence_ids_def Let_def jmap_simps split: option.splits)

lemma history_get:
  "jget (fold add_occurrence xs []) (historyKey p n i) =
     (case filter (\<lambda>x. occurrence_ids x = (p, n, i)) xs of [] \<Rightarrow> None | l \<Rightarrow> Some l)"
proof (induction xs rule: rev_induct)
  case (snoc x xs)
  then show ?case by (auto simp: add_occurrence_get split: list.splits option.splits)
qed simp

lemma history_keys: "jkeys_ok (fold add_occurrence xs [])"
proof -
  have "jkeys_ok m \<Longrightarrow> jkeys_ok (fold add_occurrence xs m)" for m
    by (induction xs arbitrary: m) (auto simp: add_occurrence_def Let_def jmap_simps split: option.splits)
  then show ?thesis by simp
qed

definition in_history_order :: "occurrence \<Rightarrow> occurrence \<Rightarrow> bool" where
  "in_history_order a b \<longleftrightarrow> (\<exists>c \<le> 0. compareHistoryOccurrences a b = Inr c)"

lemma compare_sign: "compare a b \<le> 0 \<longleftrightarrow> a \<le> b" "compare a b = 0 \<longleftrightarrow> a = b"
  by (auto simp: compare_def)

lemma occurrence_key_order:
  assumes "historyInstant (oc_occurredAt a) = Inr x" and "historyInstant (oc_occurredAt b) = Inr y"
    and "occurrence_key x a \<le> occurrence_key y b"
  shows "in_history_order a b"
proof -
  have "compareHistoryInstants x y < 0 \<or> compareHistoryInstants x y = 0 \<and>
      (oc_runId a < oc_runId b \<or> oc_runId a = oc_runId b \<and> oc_executionId a \<le> oc_executionId b)"
    using assms(3) by (auto simp: occurrence_key_def less_eq_prod_def less_prod_def compareHistoryInstants_def)
  then show ?thesis
    unfolding in_history_order_def compareHistoryOccurrences_def
    by (auto simp: assms(1,2) compare_def)
qed

lemma sort_occurrences_facts:
  assumes "sort_occurrences xs = Inr ys"
  shows "mset ys = mset xs" and "sorted_wrt in_history_order ys"
proof -
  have "mset ys = mset xs \<and> sorted_wrt in_history_order ys"
  proof (cases "length xs < 2")
    case True
    then have "xs = [] \<or> (\<exists>x. xs = [x])" by (cases xs) (auto simp: less_Suc_eq numeral_2_eq_2)
    with True assms show ?thesis by (auto simp: sort_occurrences_def)
  next
    case False
    then obtain is' where is': "map_r (\<lambda>_ x. historyInstant (oc_occurredAt x)) 0 xs = Inr is'"
      "ys = map snd (sort_key (\<lambda>(i, x). occurrence_key i x) (zip is' xs))"
      using assms by (auto simp: sort_occurrences_def split: sum.splits)
    from map_r_InrD [OF is'(1)] have len: "length is' = length xs"
      and nth: "\<forall>k < length xs. historyInstant (oc_occurredAt (xs ! k)) = Inr (is' ! k)" by simp_all
    have "mset ys = mset (map snd (zip is' xs))" by (simp add: is'(2))
    then have "mset ys = mset xs" using len by simp
    moreover have pos: "historyInstant (oc_occurredAt (snd p)) = Inr (fst p)" if "p \<in> set (zip is' xs)" for p
      using that nth len by (auto simp: set_zip)
    have "sorted_wrt (\<lambda>p q. (case p of (i, x) \<Rightarrow> occurrence_key i x) \<le> (case q of (i, x) \<Rightarrow> occurrence_key i x))
        (sort_key (\<lambda>(i, x). occurrence_key i x) (zip is' xs))"
      using sorted_sort_key [of "\<lambda>(i, x). occurrence_key i x" "zip is' xs"] by (simp add: sorted_map)
    then have "sorted_wrt (\<lambda>p q. in_history_order (snd p) (snd q))
        (sort_key (\<lambda>(i, x). occurrence_key i x) (zip is' xs))"
      by (rule sorted_wrt_mono_rel [rotated])
        (use occurrence_key_order [OF pos pos] in \<open>auto simp: case_prod_beta\<close>)
    ultimately show ?thesis by (simp add: is'(2) sorted_wrt_map)
  qed
  then show "mset ys = mset xs" "sorted_wrt in_history_order ys" by blast+
qed

definition accepted_occurrences :: "(jstring, projected_run) jmap \<Rightarrow> occurrence list" where
  "accepted_occurrences acc = concat (map (\<lambda>x. historyOccurrencesOf (snd x)) acc)"

lemma assemble_parts:
  assumes "assemble runs = Inr (m, problems)"
  shows "rm_runsByKey m = ay_accepted (assembled runs)" and "problems = ay_problems (assembled runs)"
    and "rm_blobsBySha m = map (\<lambda>(k, b). (k, freeze_blob b)) (sort_key fst (ay_blobs (assembled runs)))"
    and "map_r (\<lambda>_ (k, l). bind_r (sort_occurrences l) (\<lambda>l'. Inr (k, l'))) 0
      (fold add_occurrence (accepted_occurrences (ay_accepted (assembled runs))) []) = Inr (rm_history m)"
  using assms
  by (auto simp: assemble_def Let_def assembled_def [symmetric] accepted_occurrences_def result_simps)

lemma sorted_history_get:
  assumes "map_r (\<lambda>_ (k, l). bind_r (sort_occurrences l) (\<lambda>l'. Inr (k, l'))) i h = Inr h'"
  shows "case jget h k of None \<Rightarrow> jget h' k = None
    | Some l \<Rightarrow> \<exists>l'. sort_occurrences l = Inr l' \<and> jget h' k = Some l'"
  using assms
proof (induction h arbitrary: i h')
  case (Cons x h)
  obtain k' l where x: "x = (k', l)" by (cases x)
  from Cons.prems x obtain l' h'' where l': "sort_occurrences l = Inr l'"
    "map_r (\<lambda>_ (k, l). bind_r (sort_occurrences l) (\<lambda>l'. Inr (k, l'))) (Suc i) h = Inr h''" "h' = (k', l') # h''"
    by (auto simp: result_simps)
  from Cons.IH [OF l'(2)] l' x show ?case by (cases "k = k'") (auto split: option.splits)
qed simp

lemma test_history_of:
  assumes "assemble runs = Inr (m, problems)" and "getTestHistory m p n i = Inr th"
  shows "mset (th_occurrences th) =
      mset (filter (\<lambda>x. occurrence_ids x = (p, n, i)) (accepted_occurrences (ay_accepted (assembled runs))))"
    and "sorted_wrt in_history_order (th_occurrences th)"
proof -
  let ?l = "filter (\<lambda>x. occurrence_ids x = (p, n, i)) (accepted_occurrences (ay_accepted (assembled runs)))"
  have th: "th_occurrences th = (case jget (rm_history m) (historyKey p n i) of None \<Rightarrow> [] | Some l \<Rightarrow> l)"
    using assms(2) by (auto simp: getTestHistory_def result_simps)
  note sorted = sorted_history_get [OF assemble_parts(4) [OF assms(1)], of "historyKey p n i", unfolded history_get]
  have "mset (th_occurrences th) = mset ?l \<and> sorted_wrt in_history_order (th_occurrences th)"
  proof (cases ?l)
    case Nil
    with sorted th show ?thesis by simp
  next
    case (Cons x xs)
    with sorted obtain l' where l': "sort_occurrences ?l = Inr l'" "jget (rm_history m) (historyKey p n i) = Some l'"
      by auto
    from sort_occurrences_facts [OF l'(1)] th l'(2) show ?thesis by simp
  qed
  then show "mset (th_occurrences th) = mset ?l" "sorted_wrt in_history_order (th_occurrences th)" by blast+
qed

section \<open>Runs\<close>

lemma getRun_assembled:
  assumes "assemble runs = Inr (m, problems)" and "checkProjectId p = Inr ()"
  shows "getRun m p r = Inr (jget (ay_accepted (assembled runs)) (runKey p r))"
  using assemble_parts(1) [OF assms(1)] assms(2) by (simp add: getRun_def check_project_def)

lemma problem_ids:
  "ip_projectId (duplicate_problem cs run) = run_projectId run" "ip_runId (duplicate_problem cs run) = Some (run_runId run)"
  "ip_runDirectory (duplicate_problem cs run) = run_directory run" "ip_code (duplicate_problem cs run) = DUPLICATE_RUN"
  "ip_projectId (conflict_problem bs run a) = run_projectId run" "ip_runId (conflict_problem bs run a) = Some (run_runId run)"
  "ip_runDirectory (conflict_problem bs run a) = run_directory run" "ip_code (conflict_problem bs run a) = BLOB_SIZE_CONFLICT"
  by (simp_all add: duplicate_problem_def conflict_problem_def Let_def)

definition names_run :: "ingestion_problem \<Rightarrow> projected_run \<Rightarrow> bool" where
  "names_run q run \<longleftrightarrow> ip_projectId q = run_projectId run \<and> ip_runId q = Some (run_runId run) \<and>
     ip_runDirectory q = run_directory run \<and> ip_code q \<in> {DUPLICATE_RUN, BLOB_SIZE_CONFLICT}"

lemma ids_of_key: "key_of a = key_of b \<Longrightarrow> run_projectId a = run_projectId b \<and> run_runId a = run_runId b"
  by (simp add: key_of_def)

lemma run_accounted:
  assumes "run \<in> set runs"
  shows "(\<exists>kept. jget (ay_accepted (assembled runs)) (key_of run) = Some kept \<and> run_directory kept = run_directory run) \<or>
    jget (ay_accepted (assembled runs)) (key_of run) = None \<and> (\<exists>q \<in> set (ay_problems (assembled runs)). names_run q run)"
proof -
  let ?cs = "candidates runs (key_of run)"
  have "run_directory run \<in> run_directory ` set ?cs"
    unfolding candidates_facts(3) using assms by blast
  then obtain c where c: "c \<in> set ?cs" "run_directory c = run_directory run" by auto
  then have key: "key_of c = key_of run" using candidates_facts(1) by blast
  note all = assembled_run [OF assms]
  show ?thesis
  proof (cases "1 < length ?cs")
    case True
    with all have "jget (ay_accepted (assembled runs)) (key_of run) = None"
      and dup: "duplicate_problem ?cs c \<in> set (ay_problems (assembled runs))" using c(1) by auto
    moreover have "names_run (duplicate_problem ?cs c) run"
      using ids_of_key [OF key] c(2) by (simp add: names_run_def problem_ids)
    ultimately show ?thesis by blast
  next
    case False
    with c(1) have one: "?cs = [c]" by (cases ?cs) auto
    from all False have "jget (ay_accepted (assembled runs)) (key_of run) = Some c \<or>
        jget (ay_accepted (assembled runs)) (key_of run) = None \<and>
        (\<exists>blobs a. conflict_problem blobs c a \<in> set (ay_problems (assembled runs)))"
      by (simp add: one)
    moreover have "names_run (conflict_problem blobs c a) run" for blobs a
      using ids_of_key [OF key] c(2) by (simp add: names_run_def problem_ids)
    ultimately show ?thesis using c(2) by blast
  qed
qed

text \<open>
  No run is lost silently: every run given to the assembly is either the one the model returns
  for its project and run id, and then no other directory held a run of that name, or the model
  returns nothing for that name and a problem names the run's own directory.  What the model returns
  carries exactly the project and run id it was asked for.
\<close>

theorem every_run_accounted_for:
  assumes "assemble runs = Inr (m, problems)" and "run \<in> set runs"
    and "checkProjectId (run_projectId run) = Inr ()"
  shows "(\<exists>kept \<in> set runs. getRun m (run_projectId run) (run_runId run) = Inr (Some kept) \<and>
       run_projectId kept = run_projectId run \<and> run_runId kept = run_runId run \<and>
       (\<forall>r \<in> set runs. run_projectId r = run_projectId run \<longrightarrow> run_runId r = run_runId run \<longrightarrow>
          run_directory r = run_directory kept)) \<or>
    getRun m (run_projectId run) (run_runId run) = Inr None \<and> (\<exists>q \<in> set problems. names_run q run)"
proof -
  note get = getRun_assembled [OF assms(1,3), of "run_runId run", folded key_of_def]
  from run_accounted [OF assms(2)] show ?thesis
  proof
    assume "\<exists>kept. jget (ay_accepted (assembled runs)) (key_of run) = Some kept \<and> run_directory kept = run_directory run"
    then obtain kept where kept: "jget (ay_accepted (assembled runs)) (key_of run) = Some kept" by blast
    note a = assembled_accepted [OF kept]
    have "run_directory r = run_directory kept" if "r \<in> set runs" "run_projectId r = run_projectId run"
      "run_runId r = run_runId run" for r
      using a(3) [OF that(1)] that(2,3) by (simp add: key_of_def)
    moreover have "getRun m (run_projectId run) (run_runId run) = Inr (Some kept)" unfolding get kept ..
    ultimately show ?thesis using a(1) ids_of_key [OF a(2)] by blast
  next
    assume "jget (ay_accepted (assembled runs)) (key_of run) = None \<and>
      (\<exists>q \<in> set (ay_problems (assembled runs)). names_run q run)"
    then show ?thesis unfolding get assemble_parts(2) [OF assms(1)] by auto
  qed
qed

definition sample_run :: "string \<Rightarrow> string \<Rightarrow> attachment_reference list \<Rightarrow> projected_run" where
  "sample_run r d as = \<lparr>run_projectId = js ''p'', run_runId = js r, run_directory = js d,
     run_validator = \<lparr>vf_complete = True, vf_closed = True, vf_verdict = VPassed, vf_ignoredEvents = 0,
       vf_duplicateEvents = 0\<rparr>,
     run_sessions = [], run_executions = [], run_scopeFailures = [], run_attachments = as\<rparr>"

lemma sample_project: "checkProjectId (js ''p'') = Inr ()"
  by (simp add: checkProjectId_def js_def is_high_surrogate_def is_low_surrogate_def unit_bytes_def
      MAX_PROJECT_ID_UTF8_BYTES_def)

lemma no_occurrences: "run_executions r = [] \<Longrightarrow> historyOccurrencesOf r = []"
  by (simp add: historyOccurrencesOf_def map_filter_simps)

lemma sample_assemble:
  assumes "\<forall>r \<in> set runs. run_executions r = []"
  shows "\<exists>m problems. assemble runs = Inr (m, problems)"
proof -
  have "run_executions (snd x) = []" if "x \<in> set (ay_accepted (assembled runs))" for x
  proof -
    obtain k r where x: "x = (k, r)" by (cases x)
    have "jkeys_ok (ay_accepted (fold assemble_key xs st))" if "jkeys_ok (ay_accepted st)" for xs st
      using that by (induction xs arbitrary: st)
        (auto simp: assemble_key_def accept_run_def jmap_simps split: prod.splits option.splits)
    then have "jkeys_ok (ay_accepted (assembled runs))" by (simp add: assembled_def)
    then have "jget (ay_accepted (assembled runs)) k = Some r" using that x by (simp add: jkeys_ok_def)
    from assembled_accepted(1) [OF this] assms x show ?thesis by simp
  qed
  then have "accepted_occurrences (ay_accepted (assembled runs)) = []"
    by (simp add: accepted_occurrences_def no_occurrences)
  then show ?thesis
    by (simp add: assemble_def Let_def assembled_def [symmetric] accepted_occurrences_def [symmetric])
qed

theorem every_run_accounted_for_witness:
  "\<exists>m problems. assemble [sample_run ''r'' ''d'' [], sample_run ''r'' ''e'' []] = Inr (m, problems) \<and>
     getRun m (js ''p'') (js ''r'') = Inr None \<and>
     (\<exists>q \<in> set problems. names_run q (sample_run ''r'' ''e'' []))"
proof -
  let ?runs = "[sample_run ''r'' ''d'' [], sample_run ''r'' ''e'' []]"
  obtain m problems where m: "assemble ?runs = Inr (m, problems)"
    using sample_assemble [of ?runs] by (auto simp: sample_run_def)
  have "sample_run ''r'' ''e'' [] \<in> set ?runs" by simp
  from every_run_accounted_for [OF m this] sample_project m show ?thesis by (auto simp: sample_run_def)
qed

section \<open>Histories, flakiness\<close>

text \<open>
  C35. The history of a test is complete and in order: its occurrences are exactly those the runs of
  the model have for the project, runner and historical id asked for, each as often as it occurs,
  and no later one sorts before an earlier one; the flakiness counts are counts over the same list.
\<close>

theorem test_history_complete_and_ordered:
  assumes "assemble runs = Inr (m, problems)" and "getTestHistory m p n i = Inr th" and "getFlakiness m p n i = Inr f"
  shows "mset (th_occurrences th) =
      mset (filter (\<lambda>x. oc_projectId x = p \<and> oc_runnerName x = n \<and> oc_historicalId x = i)
        (concat (map historyOccurrencesOf (all_runs m)))) \<and>
    sorted_wrt in_history_order (th_occurrences th) \<and>
    fl_totalOccurrences f = length (th_occurrences th) \<and> fl_flaky f = filter oc_flaky (th_occurrences th) \<and>
    fl_flakyOccurrences f = length (fl_flaky f) \<and> (fl_everFlaky f \<longleftrightarrow> fl_flaky f \<noteq> [])"
proof -
  note h = test_history_of [OF assms(1,2)]
  let ?acc = "ay_accepted (assembled runs)"
  have "mset (concat (map historyOccurrencesOf (all_runs m))) = mset (accepted_occurrences ?acc)"
  proof -
    have "mset (all_runs m) = mset (map snd ?acc)"
      by (simp add: all_runs_def assemble_parts(1) [OF assms(1)])
    then have "mset (map historyOccurrencesOf (all_runs m)) = mset (map historyOccurrencesOf (map snd ?acc))"
      by (metis mset_map)
    then have "mset (map mset (map historyOccurrencesOf (all_runs m))) =
        mset (map mset (map historyOccurrencesOf (map snd ?acc)))" by (metis mset_map)
    then have "sum_mset (mset (map mset (map historyOccurrencesOf (all_runs m)))) =
        sum_mset (mset (map mset (map historyOccurrencesOf (map snd ?acc))))" by simp
    then show ?thesis
      unfolding mset_concat accepted_occurrences_def sum_mset_sum_list by (simp add: comp_def)
  qed
  then have "mset (filter (\<lambda>x. occurrence_ids x = (p, n, i)) (concat (map historyOccurrencesOf (all_runs m)))) =
      mset (filter (\<lambda>x. occurrence_ids x = (p, n, i)) (accepted_occurrences ?acc))"
    by (metis mset_filter)
  moreover have "f = \<lparr>fl_projectId = p, fl_runnerName = n, fl_historicalId = i,
      fl_totalOccurrences = length (th_occurrences th), fl_flakyOccurrences = length (filter oc_flaky (th_occurrences th)),
      fl_everFlaky = (0 < length (filter oc_flaky (th_occurrences th))), fl_flaky = filter oc_flaky (th_occurrences th)\<rparr>"
    using assms(2,3) by (simp add: getFlakiness_def Let_def)
  ultimately show ?thesis using h by (simp add: occurrence_ids_def)
qed

theorem test_history_complete_and_ordered_witness:
  "\<exists>m problems th f. assemble [sample_run ''r'' ''d'' []] = Inr (m, problems) \<and>
     getTestHistory m (js ''p'') (js ''n'') (js ''i'') = Inr th \<and> getFlakiness m (js ''p'') (js ''n'') (js ''i'') = Inr f \<and>
     fl_totalOccurrences f = length (th_occurrences th)"
proof -
  obtain m problems where m: "assemble [sample_run ''r'' ''d'' []] = Inr (m, problems)"
    using sample_assemble [of "[sample_run ''r'' ''d'' []]"] by (auto simp: sample_run_def)
  obtain th where th: "getTestHistory m (js ''p'') (js ''n'') (js ''i'') = Inr th"
    by (simp add: getTestHistory_def check_project_def sample_project)
  obtain f where f: "getFlakiness m (js ''p'') (js ''n'') (js ''i'') = Inr f"
    by (simp add: getFlakiness_def th Let_def)
  from test_history_complete_and_ordered [OF m th f] m th f show ?thesis by blast
qed

end
