(* ===== verification/Ingest_Properties.thy ===== *)
theory Ingest_Properties
  imports Ingest Projector_Properties Read_Model_Properties
begin

text \<open>
  Ingestion end to end: a valid snapshot of a run directory is the validation of some files, so its
  projection cannot fail; every outcome of \<open>projectRunDirectory\<close>; what discovery finds; and
  that a build accounts for every directory it was given.
\<close>

section \<open>A valid snapshot comes from files\<close>

lemma clean_refuseEntry [clean_simps]: "\<not> clean (refuseEntry path reason wanted st)"
  by (simp add: refuseEntry_def clean_push)

lemma refuseEntry_refused [simp]: "attachmentsDirRefused (refuseEntry path reason wanted st) = attachmentsDirRefused st"
  by (simp add: refuseEntry_def push_def)

lemma bind_io_Inr:
  assumes "fst (bind_io m f fds) = Inr b"
  obtains a fds' where "m fds = (Inr a, fds')" "fst (f a fds') = Inr b"
  using assms by (cases "m fds") (auto simp: bind_io_def split: sum.splits)

lemma feed_entry_clean:
  assumes "fst (feed_entry h fs opts f st fds) = Inr st'" and "clean st'"
  shows "\<exists>files. st' = feed_files h opts True files st"
proof -
  have "st' = st \<or> (\<exists>path k w. st' = refuseEntry path k w st) \<or> (\<exists>lines. st' = feed h opts True lines f st)"
    using assms(1)
    by (auto simp: feed_entry_def return_io_def lift_io_def split: if_splits sum.splits elim!: bind_io_Inr) blast+
  then show ?thesis
  proof (elim disjE exE)
    assume "st' = st"
    then have "st' = feed_files h opts True [] st" by (simp add: feed_files_def)
    then show ?thesis ..
  next
    fix lines assume "st' = feed h opts True lines f st"
    then have "st' = feed_files h opts True [(f, lines)] st" by (simp add: feed_files_def)
    then show ?thesis ..
  qed (use assms(2) in \<open>simp add: clean_simps\<close>)
qed

lemma feed_entries_mono:
  assumes "fst (feed_entries h fs opts names st fds) = Inr st'" and "clean st'"
  shows "clean st \<and> (\<exists>files. st' = feed_files h opts True files st)"
  using assms(1)
proof (induction names arbitrary: st fds)
  case Nil
  then have "st' = feed_files h opts True [] st" by (simp add: return_io_def feed_files_def)
  then show ?case using assms(2) Nil by (auto simp: return_io_def)
next
  case (Cons f names)
  from Cons.prems obtain st1 fds1 where s: "feed_entry h fs opts f st fds = (Inr st1, fds1)"
    "fst (feed_entries h fs opts names st1 fds1) = Inr st'" by (auto elim!: bind_io_Inr)
  from Cons.IH [OF s(2)] obtain more where ih: "clean st1" "st' = feed_files h opts True more st1" by blast
  from feed_entry_clean [of h fs opts f st fds, OF _ ih(1)] s(1) obtain some
    where some: "st1 = feed_files h opts True some st" by auto
  have "st' = feed_files h opts True (some @ more) st" by (simp add: ih(2) some feed_files_def)
  moreover have "clean st" using ih(1) unfolding some by (rule clean_feed_files_mono)
  ultimately show ?case by blast
qed

lemma snapshot_cases:
  assumes "fst (validateRunDirectorySnapshot h fs opts None dir fds) = Inr s"
  shows "\<exists>opts' st0 fds' st. opt_retainEvents opts' \<and> fst (finish fs opts' st0 fds') = Inr (vr_report s, st) \<and>
    vr_events s = accepted st \<and> ((\<exists>path k w. st0 = refuseEntry path k w new_validator) \<or>
      vr_sourceLines s = source_log st \<and> (\<exists>names fds0. fst (feed_entries h fs opts' names new_validator fds0) = Inr st0))"
    (is "\<exists>opts' st0 fds' st. ?P opts' st0 fds' st")
proof -
  let ?events = "path_join fs [dir, js ''events'']"
  let ?base = "case opt_attachmentsDir opts of None \<Rightarrow> Inr (path_join fs [dir, js ''attachments'']) | Some d \<Rightarrow> trustedDirectory fs d"
  note parts = assms [unfolded validateRunDirectorySnapshot_def Let_def]
  obtain kind base where kb: "entryKind fs ?events = Inr kind" "kind \<noteq> Missing" "?base = Inr base"
    using parts by (cases "entryKind fs ?events"; cases ?base) (auto simp: bind_io_def lift_io_def split: if_splits)
  let ?opts = "opts\<lparr>opt_attachmentsDir := Some base, opt_retainEvents := True\<rparr>"
  show ?thesis
  proof (cases "kind = Folder")
    case False
    then have "fst (bind_io (finish fs ?opts (refuseEntry ?events kind Folder new_validator)) (\<lambda>(r, st).
        return_io \<lparr>vr_report = r, vr_events = accepted st, vr_sourceLines = []\<rparr>) fds) = Inr s"
      using parts kb by (simp add: bind_io_def lift_io_def)
    then obtain st where "?P ?opts (refuseEntry ?events kind Folder new_validator) fds st"
      by (rule bind_io_Inr) (auto simp: return_io_def, blast)
    then show ?thesis by blast
  next
    case True
    then obtain names where "fst (bind_io (feed_entries h fs ?opts names new_validator) (\<lambda>st.
        bind_io (finish fs ?opts st) (\<lambda>(r, st'). return_io \<lparr>vr_report = r, vr_events = accepted st',
          vr_sourceLines = source_log st'\<rparr>)) fds) = Inr s"
      using parts kb by (cases "readdirSync fs ?events") (auto simp: bind_io_def lift_io_def)
    then obtain st0 fds' where fed: "feed_entries h fs ?opts names new_validator fds = (Inr st0, fds')"
      and "fst (bind_io (finish fs ?opts st0) (\<lambda>(r, st'). return_io \<lparr>vr_report = r, vr_events = accepted st',
          vr_sourceLines = source_log st'\<rparr>) fds') = Inr s" by (rule bind_io_Inr)
    from this(2) obtain st where "fst (finish fs ?opts st0 fds') = Inr (vr_report s, st)"
      "vr_events s = accepted st" "vr_sourceLines s = source_log st"
      by (rule bind_io_Inr) (auto simp: return_io_def)
    moreover have "fst (feed_entries h fs ?opts names new_validator fds) = Inr st0" by (simp add: fed)
    ultimately have "?P ?opts st0 fds' st" by auto
    then show ?thesis by blast
  qed
qed

lemma snapshot_of_files:
  assumes "fst (validateRunDirectorySnapshot h fs opts None dir fds) = Inr s" and "rep_valid (vr_report s)"
  obtains opts' files fds' st where "opt_retainEvents opts'"
    "fst (finish fs opts' (feed_files h opts' True files new_validator) fds') = Inr (vr_report s, st)"
    "s = run_snapshot (vr_report s) st"
proof -
  from snapshot_cases [OF assms(1)] obtain opts' st0 fds' st where o: "opt_retainEvents opts'"
    and f: "fst (finish fs opts' st0 fds') = Inr (vr_report s, st)"
    and s: "vr_events s = accepted st" "(\<exists>path k w. st0 = refuseEntry path k w new_validator) \<or>
      vr_sourceLines s = source_log st \<and> (\<exists>names fds0. fst (feed_entries h fs opts' names new_validator fds0) = Inr st0)"
    by blast
  note clean = finish_mono [OF f assms(2)]
  from s(2) clean obtain names fds0 where n: "vr_sourceLines s = source_log st"
    "fst (feed_entries h fs opts' names new_validator fds0) = Inr st0" by (auto simp: clean_simps)
  from feed_entries_mono [OF n(2) clean] obtain files where "st0 = feed_files h opts' True files new_validator" by blast
  with f o s(1) n(1) show thesis by (intro that [of opts' files fds' st]) (simp_all add: run_snapshot_def)
qed

lemma valid_snapshot_projects:
  assumes "fst (validateRunDirectorySnapshot h fs opts None dir fds) = Inr s" and "rep_valid (vr_report s)"
    and "vr_events s \<noteq> []"
  shows "\<exists>run. projectRun pid rd s = Inr run"
proof -
  obtain opts' files fds' st where c: "opt_retainEvents opts'"
    "fst (finish fs opts' (feed_files h opts' True files new_validator) fds') = Inr (vr_report s, st)"
    "s = run_snapshot (vr_report s) st"
    by (rule snapshot_of_files [OF assms(1,2)])
  have "vr_events s = accepted st" by (subst c(3)) (simp add: run_snapshot_def)
  with assms(3) have ne: "accepted st \<noteq> []" by simp
  note v = valid_run_history [OF c(2) assms(2) c(1)]
  have ne': "accepted_of (history_of (decode_files h opts' 1 files)) \<noteq> []" using ne unfolding v(2) .
  from project_valid_history [OF v(1) ne' assms(2) v(2), of pid rd] c(3) show ?thesis by metis
qed

section \<open>Outcomes of the ingestion of a directory\<close>

lemma tidy_try [intro]: "tidy m \<Longrightarrow> tidy (try_io m)"
  by (auto simp: tidy_def try_io_def split: prod.splits) (metis snd_conv)

lemma tidy_snapshot: "tidy (validateRunDirectorySnapshot h fs opts retain dir)"
  unfolding validateRunDirectorySnapshot_def Let_def
  by (cases "opt_attachmentsDir opts") (auto intro!: tidy_bind tidy_finish tidy_feed_entries split: prod.splits)

lemma tidy_projectRunDirectory: "tidy (projectRunDirectory h fs env pid dir)"
  unfolding projectRunDirectory_def
  by (auto intro!: tidy_bind tidy_try tidy_snapshot split: option.splits sum.splits)

lemma project_snapshot_outcome:
  assumes "fst (validateRunDirectorySnapshot h fs opts None dir fds) = Inr s"
  obtains (ok) run where "rep_valid (vr_report s)" "vr_events s \<noteq> []" "projectRun pid rd s = Inr run"
      "project_snapshot pid rd s = Inr (Projected run)"
    | (invalid) rid ds m where "project_snapshot pid rd s = Inr (rejection RUN_INVALID pid rd rid None m ds)"
    | (empty) m where "project_snapshot pid rd s = Inr (rejection EMPTY_RUN pid rd None None m [])"
proof (cases "rep_valid (vr_report s)")
  case False
  then show thesis by (intro invalid) (simp add: project_snapshot_def)
next
  case True
  note valid = this
  show thesis
  proof (cases "vr_events s = []")
    case True
    with valid show thesis by (intro empty) (simp add: project_snapshot_def)
  next
    case False
    with valid_snapshot_projects [OF assms valid] obtain run where "projectRun pid rd s = Inr run" by blast
    with valid False show thesis by (intro ok [of run]) (simp_all add: project_snapshot_def)
  qed
qed

lemma project_directory_outcome:
  "case fst (projectRunDirectory h fs env pid dir fds) of
      Inl e \<Rightarrow> (\<exists>m. checkProjectId pid = Inl m \<and> e = Thrown m) \<or> irregularEntry fs dir = Inl e
    | Inr (Rejected q) \<Rightarrow> ip_projectId q = pid \<and> ip_runDirectory q = dir \<and> ip_detail q = None \<and>
        ip_code q \<in> {NOT_A_RUN_DIRECTORY, SYMLINK_SKIPPED, NOT_A_REGULAR_FILE, VALIDATION_ERROR, RUN_INVALID, EMPTY_RUN}
    | Inr (Projected run) \<Rightarrow> irregularEntry fs dir = Inr None \<and>
        (\<exists>s. fst (validateRunDirectorySnapshot h fs default_options None dir fds) = Inr s \<and>
           rep_valid (vr_report s) \<and> vr_events s \<noteq> [] \<and> projectRun pid dir s = Inr run)"
proof (cases "fst (validateRunDirectorySnapshot h fs default_options None dir fds)")
  note parts = projectRunDirectory_def bind_io_def lift_io_def return_io_def try_io_def
  case (Inl e)
  then show ?thesis
    by (auto simp: parts rejection_def split: sum.splits option.splits prod.splits)
next
  note parts = projectRunDirectory_def bind_io_def lift_io_def return_io_def try_io_def
  case (Inr s)
  then obtain fds' where v: "validateRunDirectorySnapshot h fs default_options None dir fds = (Inr s, fds')"
    by (metis prod.collapse)
  from Inr show ?thesis
    by (cases rule: project_snapshot_outcome [where pid = pid and rd = dir])
      (auto simp: parts v rejection_def split: sum.splits option.splits prod.splits)
qed

text \<open>
  C34. The outcomes of \<open>projectRunDirectory\<close>.  It throws only for a project id outside the
  contract or when an entry of the directory cannot be examined; otherwise it returns, and its
  descriptors are closed.  A rejection names the project and directory and carries one of six codes:
  the projector's own checks cannot fire, so \<open>PROJECTION_AMBIGUOUS\<close> is unreachable.  A run
  is returned only when every entry was a regular file and the validator accepted a non-empty
  snapshot, and it is the projection of that snapshot.
\<close>

theorem ingestion_outcomes:
  "snd (projectRunDirectory h fs env pid dir fds) = fds \<and>
   (case fst (projectRunDirectory h fs env pid dir fds) of
      Inl e \<Rightarrow> (\<exists>m. checkProjectId pid = Inl m \<and> e = Thrown m) \<or> irregularEntry fs dir = Inl e
    | Inr (Rejected q) \<Rightarrow> ip_projectId q = pid \<and> ip_runDirectory q = dir \<and> ip_detail q = None \<and>
        ip_code q \<in> {NOT_A_RUN_DIRECTORY, SYMLINK_SKIPPED, NOT_A_REGULAR_FILE, VALIDATION_ERROR, RUN_INVALID, EMPTY_RUN}
    | Inr (Projected run) \<Rightarrow> irregularEntry fs dir = Inr None \<and>
        (\<exists>s. fst (validateRunDirectorySnapshot h fs default_options None dir fds) = Inr s \<and>
           rep_valid (vr_report s) \<and> vr_events s \<noteq> [] \<and> projectRun pid dir s = Inr run))"
  using tidy_projectRunDirectory project_directory_outcome by (simp add: tidy_def)

section \<open>Discovery\<close>

definition holds_run :: "file_system \<Rightarrow> jstring \<Rightarrow> jstring \<times> entry_kind \<Rightarrow> bool" where
  "holds_run fs runs entry \<longleftrightarrow> snd entry = Folder \<and>
     (\<exists>s. lstatSync fs (path_join fs [path_join fs [runs, fst entry], js ''events'']) = Inr s \<and>
        \<not> isSymbolicLink s \<and> isDirectory s)"

lemma discover_entry_Inr:
  "discover_entry fs runs entry = Inr p \<longleftrightarrow> holds_run fs runs entry \<and> p = path_join fs [runs, fst entry]"
  by (cases "lstatSync fs (path_join fs [path_join fs [runs, fst entry], js ''events''])")
    (auto simp: discover_entry_def holds_run_def Let_def is_link_def is_directory_def statOrUndefined_def)

lemma discovered_list:
  "snd (split_entries (map (discover_entry fs runs) es)) =
     map (\<lambda>e. path_join fs [runs, fst e]) (filter (holds_run fs runs) es)"
proof (induction es)
  case (Cons e es)
  then show ?case using discover_entry_Inr [of fs runs e]
    by (cases "discover_entry fs runs e") (auto simp: Let_def case_prod_beta)
qed simp

text \<open>
  Discovery finds the run directories and nothing else: exactly the real directories of the
  collection that hold a real events directory, in the order of their names, every other entry
  giving one problem; and the order in which the file system lists the entries does not show.
\<close>

theorem discovery_exact:
  assumes "discoverRunDirectories fs env root = Inr d"
    and "readdirKinds env (di_runsDirectory d) = Inr es" and "distinct (map fst es)"
    and "mset es = mset es'" and "readdirKinds env' (di_runsDirectory d) = Inr es'"
    and "statOrUndefined fs (di_runsDirectory d) = Some s" and "isDirectory s" and "\<not> isSymbolicLink s"
  shows "di_runDirectories d = map (\<lambda>e. path_join fs [di_runsDirectory d, fst e])
      (filter (holds_run fs (di_runsDirectory d)) (sort_key fst es)) \<and>
    length (di_problems d) + length (di_runDirectories d) = length es \<and>
    discoverRunDirectories fs env' root = Inr d"
proof -
  let ?runs = "path_join fs [root, RUNS_DIR]"
  have r: "di_runsDirectory d = ?runs"
    using assms(1) by (cases "readdirKinds env ?runs") (auto simp: discoverRunDirectories_def Let_def split: if_splits)
  let ?skipped = "split_entries (map (discover_entry fs ?runs) (sort_key fst es))"
  have d: "d = \<lparr>di_outputRoot = root, di_runsDirectory = ?runs, di_runDirectories = snd ?skipped, di_problems = fst ?skipped\<rparr>"
    using assms(1,2,6-8) unfolding r by (simp add: discoverRunDirectories_def Let_def is_link_def is_directory_def)
  have len: "length (fst (split_entries xs)) + length (snd (split_entries xs)) = length xs" for xs :: "(discovery_problem + jstring) list"
    by (induction xs rule: split_entries.induct) (simp_all add: Let_def case_prod_beta)
  have "discoverRunDirectories fs env' root = Inr d"
    using assms(5-8) sort_key_unique [OF assms(4,3)] d unfolding r
    by (simp add: discoverRunDirectories_def Let_def is_link_def is_directory_def)
  moreover have "di_runDirectories d = map (\<lambda>e. path_join fs [?runs, fst e]) (filter (holds_run fs ?runs) (sort_key fst es))"
    by (simp add: d discovered_list)
  moreover have "length (di_problems d) + length (di_runDirectories d) = length es"
    using len [of "map (discover_entry fs ?runs) (sort_key fst es)"] by (simp add: d)
  ultimately show ?thesis unfolding r by blast
qed

definition sample_fs :: file_system where
  "sample_fs = \<lparr>lstatSync = (\<lambda>_. Inr \<lparr>isSymbolicLink = False, isFile = False, isDirectory = True, stat_size = 0\<rparr>),
     openSync = (\<lambda>_. Inl (Thrown [])), fstatSync = (\<lambda>_. Inl (Thrown [])), readDescriptor = (\<lambda>_. Inl (Thrown [])),
     hashDescriptor = (\<lambda>_. Inl (Thrown [])), readFileSync = (\<lambda>_. Inl (Thrown [])), readdirSync = (\<lambda>_. Inr []),
     realpathSync = (\<lambda>p. Inr p), path_join = concat\<rparr>"

definition sample_env :: "(jstring \<times> entry_kind) list \<Rightarrow> ingest_env" where
  "sample_env es = \<lparr>existsSync = (\<lambda>_. False), readdirKinds = (\<lambda>_. Inr es), error_message = (\<lambda>_. [])\<rparr>"

theorem discovery_exact_witness:
  "\<exists>d. discoverRunDirectories sample_fs (sample_env [(js ''b'', Folder), (js ''a'', Regular)]) (js ''o'') = Inr d \<and>
     length (di_problems d) + length (di_runDirectories d) = 2 \<and>
     discoverRunDirectories sample_fs (sample_env [(js ''a'', Regular), (js ''b'', Folder)]) (js ''o'') = Inr d"
proof -
  let ?es = "[(js ''b'', Folder), (js ''a'', Regular)]" and ?es' = "[(js ''a'', Regular), (js ''b'', Folder)]"
  obtain d where d: "discoverRunDirectories sample_fs (sample_env ?es) (js ''o'') = Inr d"
    by (auto simp: discoverRunDirectories_def Let_def sample_fs_def sample_env_def statOrUndefined_def is_link_def is_directory_def)
  have e: "readdirKinds (sample_env es) x = Inr es" for es x by (simp add: sample_env_def)
  have "distinct (map fst ?es)" "mset ?es = mset ?es'" by (simp_all add: js_def)
  moreover have "statOrUndefined sample_fs x = Some \<lparr>isSymbolicLink = False, isFile = False, isDirectory = True, stat_size = 0\<rparr>" for x
    by (simp add: sample_fs_def statOrUndefined_def)
  ultimately have "length (di_problems d) + length (di_runDirectories d) = length ?es \<and>
      discoverRunDirectories sample_fs (sample_env ?es') (js ''o'') = Inr d"
    using discovery_exact [OF d e _ _ e [of ?es']] by (metis stats.select_convs(1,3))
  with d show ?thesis by auto
qed

section \<open>The whole build\<close>

lemma projectRun_names: "projectRun pid dir s = Inr run \<Longrightarrow> run_projectId run = pid \<and> run_directory run = dir"
  by (auto simp: projectRun_def Let_def result_simps split: if_splits option.splits)

definition accounts_for :: "jstring \<Rightarrow> jstring \<Rightarrow> projected_run list \<times> ingestion_problem list \<Rightarrow> bool" where
  "accounts_for pid dir acc \<longleftrightarrow> (\<exists>run \<in> set (fst acc). run_projectId run = pid \<and> run_directory run = dir) \<or>
     (\<exists>q \<in> set (snd acc). ip_projectId q = pid \<and> ip_runDirectory q = dir)"

definition grows :: "projected_run list \<times> ingestion_problem list \<Rightarrow> projected_run list \<times> ingestion_problem list \<Rightarrow> bool" where
  "grows a b \<longleftrightarrow> set (fst a) \<subseteq> set (fst b) \<and> set (snd a) \<subseteq> set (snd b)"

lemma grows_refl [simp]: "grows a a"
  by (simp add: grows_def)

lemma grows_trans [trans]: "grows a b \<Longrightarrow> grows b c \<Longrightarrow> grows a c"
  by (auto simp: grows_def)

lemma accounts_grows: "accounts_for pid dir a \<Longrightarrow> grows a b \<Longrightarrow> accounts_for pid dir b"
  by (auto simp: accounts_for_def grows_def)

lemma ingest_directories_account:
  assumes "fst (ingest_directories h fs env pid ds acc fds) = Inr acc'"
  shows "grows acc acc' \<and> (\<forall>d \<in> set ds. accounts_for pid d acc')"
  using assms
proof (induction ds arbitrary: acc fds)
  case Nil
  then show ?case by (simp add: return_io_def)
next
  case (Cons d ds)
  let ?next = "\<lambda>result. case result of Projected run \<Rightarrow> (fst acc @ [run], snd acc) | Rejected p \<Rightarrow> (fst acc, snd acc @ [p])"
  from Cons.prems obtain result fds1 where r: "projectRunDirectory h fs env pid d fds = (Inr result, fds1)"
    and rest: "fst (ingest_directories h fs env pid ds (?next result) fds1) = Inr acc'" by (auto elim!: bind_io_Inr)
  from r project_directory_outcome [where h = h and fs = fs and env = env and pid = pid and dir = d and fds = fds] have "accounts_for pid d (?next result)"
    by (cases result) (auto simp: accounts_for_def dest: projectRun_names)
  moreover have "grows acc (?next result)" by (auto simp: grows_def split: projection_result.splits)
  ultimately show ?case using Cons.IH [OF rest] by (auto intro: grows_trans accounts_grows)
qed

lemma ingest_sources_account:
  assumes "fst (ingest_sources h fs env ss acc fds) = Inr acc'"
  shows "grows acc acc' \<and> (\<forall>s \<in> set ss. \<exists>dirs skipped. source_directories fs env s = Inr (dirs, skipped) \<and>
    set skipped \<subseteq> set (snd acc') \<and> (\<forall>d \<in> set dirs. accounts_for (src_project s) d acc'))"
  using assms
proof (induction ss arbitrary: acc fds)
  case Nil
  then show ?case by (simp add: return_io_def)
next
  case (Cons s ss)
  from Cons.prems obtain dirs skipped acc1 fds0 fds1 where
    s: "source_directories fs env s = Inr (dirs, skipped)"
      "ingest_directories h fs env (src_project s) dirs (fst acc, snd acc @ skipped) fds0 = (Inr acc1, fds1)"
    and rest: "fst (ingest_sources h fs env ss acc1 fds1) = Inr acc'"
    by (auto simp: lift_io_def split: prod.splits elim!: bind_io_Inr)
  have 1: "grows (fst acc, snd acc @ skipped) acc1" "\<forall>d \<in> set dirs. accounts_for (src_project s) d acc1"
    using ingest_directories_account [of h fs env "src_project s" dirs "(fst acc, snd acc @ skipped)" fds0 acc1] s(2) by simp_all
  note 2 = Cons.IH [OF rest]
  have "grows acc acc1" using 1(1) by (simp add: grows_def)
  with 2 have g: "grows acc acc'" by (blast intro: grows_trans)
  have "set skipped \<subseteq> set (snd acc')" using 1(1) 2 by (auto simp: grows_def)
  with g 1(2) 2 s(1) show ?case by (auto intro: accounts_grows)
qed

text \<open>
  Nothing given to a build disappears: when the read model is built from a list of sources,
  every run directory of every source is the directory of a run of the model or is named, with its
  project, by a problem, and every entry discovery refused is reported.
\<close>

theorem build_accounts_for_every_directory:
  assumes "fst (buildReadModel h fs env sources fds) = Inr (m, problems)" and "s \<in> set sources"
    and "source_directories fs env s = Inr (dirs, skipped)"
  shows "set skipped \<subseteq> set problems \<and> (\<forall>d \<in> set dirs.
    (\<exists>run \<in> set (all_runs m). run_projectId run = src_project s \<and> run_directory run = d) \<or>
    (\<exists>q \<in> set problems. ip_projectId q = src_project s \<and> ip_runDirectory q = d))"
proof -
  from assms(1) obtain runs ps conflicts fds1 where ing: "ingest_sources h fs env sources ([], []) fds = (Inr (runs, ps), fds1)"
    and asm: "assemble runs = Inr (m, conflicts)" and ps: "problems = ps @ conflicts"
    by (auto simp: buildReadModel_def lift_io_def return_io_def split: prod.splits sum.splits read_error.splits elim!: bind_io_Inr)
  have acc: "set skipped \<subseteq> set ps" "\<forall>d \<in> set dirs. accounts_for (src_project s) d (runs, ps)"
    using ingest_sources_account [of h fs env sources "([], [])" fds "(runs, ps)"] ing assms(2,3) by fastforce+
  have "(\<exists>kept \<in> set (all_runs m). run_projectId kept = run_projectId run \<and> run_directory kept = run_directory run) \<or>
      (\<exists>q \<in> set problems. ip_projectId q = run_projectId run \<and> ip_runDirectory q = run_directory run)"
    (is "?kept run") if "run \<in> set runs" for run
    using run_accounted [OF that]
  proof (elim disjE exE conjE)
    fix kept assume k: "jget (ay_accepted (assembled runs)) (key_of run) = Some kept" "run_directory kept = run_directory run"
    have "kept \<in> set (all_runs m)"
      using map_of_SomeD [OF k(1)] by (force simp: all_runs_def assemble_parts(1) [OF asm])
    with k(2) ids_of_key [OF assembled_accepted(2) [OF k(1)]] show ?thesis by blast
  qed (auto simp: names_run_def ps assemble_parts(2) [OF asm])
  then have kept: "\<forall>run \<in> set runs. ?kept run" by blast
  show ?thesis
  proof (intro conjI ballI)
    fix d assume "d \<in> set dirs"
    with acc(2) have "accounts_for (src_project s) d (runs, ps)" by blast
    then show "(\<exists>run \<in> set (all_runs m). run_projectId run = src_project s \<and> run_directory run = d) \<or>
        (\<exists>q \<in> set problems. ip_projectId q = src_project s \<and> ip_runDirectory q = d)"
      unfolding accounts_for_def fst_conv snd_conv
    proof (elim disjE bexE conjE)
      fix run assume r: "run \<in> set runs" "run_projectId run = src_project s" "run_directory run = d"
      from bspec [OF kept r(1)] show ?thesis unfolding r .
    qed (auto simp: ps)
  qed (use acc(1) ps in auto)
qed

theorem build_accounts_for_every_directory_witness:
  "\<exists>m problems. fst (buildReadModel sample_host sample_fs (sample_env []) [Run_Directory (js ''p'') (js ''d'')] []) = Inr (m, problems) \<and>
     ((\<exists>run \<in> set (all_runs m). run_projectId run = js ''p'' \<and> run_directory run = js ''d'') \<or>
      (\<exists>q \<in> set problems. ip_projectId q = js ''p'' \<and> ip_runDirectory q = js ''d''))"
proof -
  let ?s = "Run_Directory (js ''p'') (js ''d'')"
  have "assemble [] = Inr (\<lparr>rm_runsByKey = [], rm_history = [], rm_blobsBySha = []\<rparr>, [])" by (simp add: assemble_def)
  then obtain m problems where b: "fst (buildReadModel sample_host sample_fs (sample_env []) [?s] []) = Inr (m, problems)"
    by (simp add: buildReadModel_def projectRunDirectory_def source_directories_def sample_project sample_env_def rejection_def
        bind_io_def lift_io_def return_io_def)
  have "source_directories sample_fs (sample_env []) ?s = Inr ([js ''d''], [])" by (simp add: source_directories_def)
  from build_accounts_for_every_directory [OF b _ this] b show ?thesis by simp
qed

section \<open>An entry that cannot be examined\<close>

text \<open>
  What is found on disk can throw: an events directory that can be listed but whose entries cannot
  be examined (it has read but no search permission, or the entry has gone) makes
  \<open>projectRunDirectory\<close> throw instead of returning a problem.
\<close>

lemma unreadable_entry_throws:
  assumes "checkProjectId pid = Inr ()" and "existsSync env (path_join fs [dir, js ''events''])"
    and "readdirSync fs (path_join fs [dir, js ''events'']) = Inr [n]"
    and "lstatSync fs (path_join fs [path_join fs [dir, js ''events''], n]) = Inl e"
  shows "fst (projectRunDirectory h fs env pid dir fds) = Inl e"
  using assms by (simp add: projectRunDirectory_def irregularEntry_def irregular_in_def bind_io_def lift_io_def)

end
