(* ===== verification/Read_Model_Order.thy ===== *)
theory Read_Model_Order
  imports Read_Model_Properties
begin

text \<open>
  The catalog of bytes as a query result, the assembly as a function of the set of runs, and a run
  that contradicts itself.
\<close>

section \<open>Bytes\<close>

lemma getBlob_assembled:
  assumes "assemble runs = Inr (m, problems)"
  shows "getBlob m k = map_option freeze_blob (jget (ay_blobs (assembled runs)) k)"
proof -
  have keys: "jkeys_ok (ay_blobs (assembled runs))"
    using assembled_catalog(1) [of runs] by (simp add: catalog_ok_def)
  have "map_of (sort_key fst xs) k = map_of xs k" if "jkeys_ok xs" for xs :: "(jstring, blob) jmap" and k
    using that map_of_inject_set [of "sort_key fst xs" xs] by (simp add: jkeys_ok_def)
  then show ?thesis
    using keys by (simp add: getBlob_def assemble_parts(3) [OF assms] map_of_map)
qed

lemma freeze_blob_same [simp]:
  "bl_sizeBytes (freeze_blob b) = bl_sizeBytes b" "set (bl_references (freeze_blob b)) = set (bl_references b)"
  by (simp_all add: freeze_blob_def)

lemma accepted_keys: "jkeys_ok (ay_accepted (assembled runs))"
proof -
  have "jkeys_ok (ay_accepted (fold assemble_key xs st))" if "jkeys_ok (ay_accepted st)" for xs st
    using that by (induction xs arbitrary: st)
      (auto simp: assemble_key_def accept_run_def jmap_simps split: prod.splits option.splits)
  then show ?thesis by (simp add: assembled_def)
qed

lemma all_runs_accepted:
  assumes "assemble runs = Inr (m, problems)"
  shows "uses_of (ay_accepted (assembled runs)) = {(run, a). run \<in> set (all_runs m) \<and> a \<in> set (run_attachments run)}"
  by (force simp: uses_of_def all_runs_def assemble_parts(1) [OF assms])

text \<open>
  The references of runs to a hash and the runs that have one, in the order of the runs and, within
  a run, of its attachments.
\<close>

definition references_in :: "projected_run list \<Rightarrow> jstring \<Rightarrow> blob_reference list" where
  "references_in runs k =
     concat (map (\<lambda>run. map (reference_of run) (filter (\<lambda>a. ref_sha256 a = k) (run_attachments run))) runs)"

definition source_of :: "projected_run \<Rightarrow> blob_source" where
  "source_of run = \<lparr>bs_projectId = run_projectId run, bs_runId = run_runId run, bs_runDirectory = run_directory run\<rparr>"

definition sources_in :: "projected_run list \<Rightarrow> jstring \<Rightarrow> blob_source list" where
  "sources_in runs k = map source_of (filter (\<lambda>run. \<exists>a \<in> set (run_attachments run). ref_sha256 a = k) runs)"

definition listed_as :: "blob option \<Rightarrow> blob_source list \<Rightarrow> blob_reference list \<Rightarrow> bool" where
  "listed_as x ss rs \<longleftrightarrow>
     (case x of None \<Rightarrow> ss = [] \<and> rs = [] | Some b \<Rightarrow> bl_sources b = ss \<and> bl_references b = rs)"

definition catalog_listed :: "projected_run list \<Rightarrow> (jstring, blob) jmap \<Rightarrow> bool" where
  "catalog_listed runs blobs \<longleftrightarrow> (\<forall>k. listed_as (jget blobs k) (sources_in runs k) (references_in runs k))"

lemma listed_add:
  assumes "listed_as (jget blobs k) ss rs" and "\<forall>s \<in> set ss. (bs_projectId s, bs_runId s) \<noteq> ids_of run"
  shows "listed_as (jget (fold (add_reference run) as blobs) k)
    (ss @ (if \<exists>a \<in> set as. ref_sha256 a = k then [source_of run] else []))
    (rs @ map (reference_of run) (filter (\<lambda>a. ref_sha256 a = k) as))"
proof (induction as rule: rev_induct)
  case (snoc a as)
  let ?blobs = "fold (add_reference run) as blobs"
  show ?case
  proof (cases "ref_sha256 a = k")
    case True
    have seen: "list_ex (\<lambda>s. bs_projectId s = run_projectId run \<and> bs_runId s = run_runId run)
        (ss @ (if Q then [source_of run] else [])) \<longleftrightarrow> Q" for Q
      using assms(2) by (auto simp: list_ex_iff ids_of_def source_of_def)
    have new: "\<lparr>bs_projectId = run_projectId run, bs_runId = run_runId run, bs_runDirectory = run_directory run\<rparr> = source_of run"
      by (simp add: source_of_def)
    show ?thesis
    proof (cases "jget ?blobs k")
      case None
      with snoc True show ?thesis by (simp add: listed_as_def add_reference_get new Let_def)
    next
      case (Some b)
      with snoc have b: "bl_sources b = ss @ (if \<exists>a \<in> set as. ref_sha256 a = k then [source_of run] else [])"
        "bl_references b = rs @ map (reference_of run) (filter (\<lambda>a. ref_sha256 a = k) as)"
        by (simp_all add: listed_as_def)
      show ?thesis
        using Some True by (simp add: listed_as_def add_reference_get new Let_def b seen del: list_ex_append)
    qed
  qed (use snoc in \<open>simp add: add_reference_get\<close>)
qed (use assms in simp)

lemma catalog_listed_add:
  assumes "catalog_listed runs blobs" and "ids_of run \<notin> ids_of ` set runs"
  shows "catalog_listed (runs @ [run]) (fold (add_reference run) (run_attachments run) blobs)"
  unfolding catalog_listed_def
proof
  fix k
  have "(bs_projectId s, bs_runId s) \<noteq> ids_of run" if "s \<in> set (sources_in runs k)" for s
  proof -
    from that obtain run' where "run' \<in> set runs" "s = source_of run'" by (auto simp: sources_in_def)
    then have "(bs_projectId s, bs_runId s) \<in> ids_of ` set runs" by (simp add: source_of_def ids_of_def image_iff) blast
    with assms(2) show ?thesis by metis
  qed
  with assms(1) have "listed_as (jget (fold (add_reference run) (run_attachments run) blobs) k)
    (sources_in runs k @ (if \<exists>a \<in> set (run_attachments run). ref_sha256 a = k then [source_of run] else []))
    (references_in runs k @ map (reference_of run) (filter (\<lambda>a. ref_sha256 a = k) (run_attachments run)))"
    unfolding catalog_listed_def by (intro listed_add) auto
  then show "listed_as (jget (fold (add_reference run) (run_attachments run) blobs) k)
      (sources_in (runs @ [run]) k) (references_in (runs @ [run]) k)"
    by (cases "\<exists>a \<in> set (run_attachments run). ref_sha256 a = k") (simp_all add: sources_in_def references_in_def)
qed

lemma catalog_hash: "catalog_ok S blobs \<Longrightarrow> jget blobs k = Some b \<Longrightarrow> bl_sha256 b = k"
  unfolding catalog_ok_def by (erule conjE)+ (drule spec [of _ k], simp)

definition keyed :: "(jstring, projected_run) jmap \<Rightarrow> bool" where
  "keyed acc \<longleftrightarrow> (\<forall>(k, run) \<in> set acc. key_of run = k)"

lemma assemble_key_listed:
  assumes "catalog_listed (map snd (ay_accepted st)) (ay_blobs st)" and "keyed (ay_accepted st)"
    and "jget (ay_accepted st) k = None" and "key_of (hd l) = k"
  shows "catalog_listed (map snd (ay_accepted (assemble_key (k, l) st))) (ay_blobs (assemble_key (k, l) st)) \<and>
    keyed (ay_accepted (assemble_key (k, l) st))"
proof -
  have "key_of run \<noteq> k" if "run \<in> set (map snd (ay_accepted st))" for run
  proof -
    from that obtain k' where m: "(k', run) \<in> set (ay_accepted st)" by auto
    with assms(3) have "k' \<noteq> k" by (metis map_of_eq_None_iff image_eqI fst_conv)
    with m assms(2) show ?thesis by (auto simp: keyed_def)
  qed
  then have fresh: "ids_of (hd l) \<notin> ids_of ` set (map snd (ay_accepted st))"
    using assms(4) by (metis (no_types, lifting) imageE key_of_eq)
  from catalog_listed_add [OF assms(1) this] assms show ?thesis
    by (auto simp: assemble_key_def accept_run_def update_fresh keyed_def split: option.splits)
qed

lemma assemble_fold_listed:
  assumes "catalog_listed (map snd (ay_accepted st)) (ay_blobs st)" and "keyed (ay_accepted st)"
    and "distinct (map fst xs)" and "\<forall>k \<in> fst ` set xs. jget (ay_accepted st) k = None"
    and "\<forall>x \<in> set xs. key_of (hd (snd x)) = fst x"
  shows "catalog_listed (map snd (ay_accepted (fold assemble_key xs st))) (ay_blobs (fold assemble_key xs st))"
  using assms
proof (induction xs arbitrary: st)
  case (Cons x xs)
  obtain k l where x: "x = (k, l)" by (cases x)
  have step: "catalog_listed (map snd (ay_accepted (assemble_key x st))) (ay_blobs (assemble_key x st)) \<and>
      keyed (ay_accepted (assemble_key x st))"
    unfolding x by (rule assemble_key_listed) (use Cons.prems x in auto)
  have rest: "\<forall>k' \<in> fst ` set xs. jget (ay_accepted (assemble_key x st)) k' = None"
    using Cons.prems(3,4) x by (auto simp: assemble_key_accepted)
  show ?case using Cons.IH [OF conjunct1 [OF step] conjunct2 [OF step] _ rest] Cons.prems(3,5) by simp
qed simp

lemma assembled_listed: "catalog_listed (map snd (ay_accepted (assembled runs))) (ay_blobs (assembled runs))"
  unfolding assembled_def
proof (rule assemble_fold_listed)
  show "distinct (map fst (sort_key fst (fold collect_run runs [])))"
    using collected_keys [of runs] by (simp add: jkeys_ok_def)
  show "\<forall>x \<in> set (sort_key fst (fold collect_run runs [])). key_of (hd (snd x)) = fst x"
  proof
    fix x assume "x \<in> set (sort_key fst (fold collect_run runs []))"
    then have "(fst x, snd x) \<in> set (sort_key fst (fold collect_run runs []))" by simp
    from collected_entry [OF this] have "hd (snd x) \<in> set (candidates runs (fst x))" by (metis hd_in_set)
    with candidates_facts(1) show "key_of (hd (snd x)) = fst x" by blast
  qed
qed (simp_all add: catalog_listed_def listed_as_def sources_in_def references_in_def keyed_def)

text \<open>A stable sort of blocks that share a key is the blocks of the sorted list.\<close>

lemma filter_blocks:
  assumes "\<And>x r. r \<in> set (B x) \<Longrightarrow> f r = g x"
  shows "filter (\<lambda>r. c = f r) (concat (map B xs)) = concat (map B (filter (\<lambda>x. g x = c) xs))"
proof (induction xs)
  case (Cons x xs)
  have "filter (\<lambda>r. c = f r) (B x) = (if g x = c then B x else [])"
    using assms [of _ x] by (auto simp: filter_empty_conv intro!: filter_True)
  with Cons show ?case by simp
qed simp

lemma sorted_blocks:
  assumes "\<And>x r. r \<in> set (B x) \<Longrightarrow> f r = g x"
  shows "sorted (map g xs) \<Longrightarrow> sorted (map f (concat (map B xs)))"
proof (induction xs)
  case (Cons x xs)
  have "map f (B x) = replicate (length (B x)) (g x)"
    using assms by (simp add: list_eq_iff_nth_eq)
  with Cons assms show ?case by (auto simp: sorted_append sorted_replicate)
qed simp

lemma sort_key_blocks:
  assumes "\<And>x r. r \<in> set (B x) \<Longrightarrow> f r = g x"
  shows "sort_key f (concat (map B xs)) = concat (map B (sort_key g xs))"
proof (rule properties_for_sort_key)
  show "mset (concat (map B (sort_key g xs))) = mset (concat (map B xs))"
    by (simp add: mset_concat flip: sum_mset_sum_list)
  show "filter (\<lambda>x. f k = f x) (concat (map B (sort_key g xs))) = filter (\<lambda>x. f k = f x) (concat (map B xs))" for k
    by (simp add: filter_blocks [of B f g, OF assms] sort_key_stable)
  show "sorted (map f (concat (map B (sort_key g xs))))" by (rule sorted_blocks [of B f g, OF assms]) simp_all
qed

lemma sorted_references:
  "sort_key (\<lambda>r. (br_projectId r, br_runId r)) (references_in runs k) =
     references_in (sort_key (\<lambda>r. (run_projectId r, run_runId r)) runs) k"
  unfolding references_in_def by (rule sort_key_blocks) (auto simp: reference_of_def)

lemma sorted_sources:
  "sort_key (\<lambda>s. (bs_projectId s, bs_runId s)) (sources_in runs k) =
     sources_in (sort_key (\<lambda>r. (run_projectId r, run_runId r)) runs) k"
proof -
  have blocks: "sources_in runs k = concat (map (\<lambda>run.
      if \<exists>a \<in> set (run_attachments run). ref_sha256 a = k then [source_of run] else []) runs)" for runs
    unfolding sources_in_def by (induction runs) simp_all
  show ?thesis unfolding blocks by (rule sort_key_blocks) (auto simp: source_of_def split: if_splits)
qed

lemma catalog_entries:
  assumes "assemble runs = Inr (m, problems)"
  shows "getBlob m k = None \<longleftrightarrow> (\<forall>run \<in> set (all_runs m). \<forall>a \<in> set (run_attachments run). ref_sha256 a \<noteq> k)"
    and "getBlob m k = Some b \<Longrightarrow> bl_sha256 b = k"
    and "getBlob m k = Some b \<Longrightarrow> bl_references b = references_in (all_runs m) k"
    and "getBlob m k = Some b \<Longrightarrow> bl_sources b = sources_in (all_runs m) k"
proof -
  let ?acc = "ay_accepted (assembled runs)" and ?blobs = "ay_blobs (assembled runs)"
  have all: "all_runs m = sort_key (\<lambda>r. (run_projectId r, run_runId r)) (map snd ?acc)"
    by (simp add: all_runs_def assemble_parts(1) [OF assms])
  have listed: "listed_as (jget ?blobs k) (sources_in (map snd ?acc) k) (references_in (map snd ?acc) k)"
    using assembled_listed unfolding catalog_listed_def by blast
  have used: "references_in (map snd ?acc) k = [] \<longleftrightarrow>
      (\<forall>run \<in> set (all_runs m). \<forall>a \<in> set (run_attachments run). ref_sha256 a \<noteq> k)"
    by (auto simp: references_in_def all filter_empty_conv)
  have "getBlob m k = None \<longleftrightarrow> jget ?blobs k = None" by (simp add: getBlob_assembled [OF assms])
  also have "\<dots> \<longleftrightarrow> references_in (map snd ?acc) k = []"
    using listed assembled_references [of runs k] by (auto simp: listed_as_def split: option.splits)
  finally show "getBlob m k = None \<longleftrightarrow> (\<forall>run \<in> set (all_runs m). \<forall>a \<in> set (run_attachments run). ref_sha256 a \<noteq> k)"
    unfolding used .
  assume "getBlob m k = Some b"
  then obtain c where c: "jget ?blobs k = Some c" "b = freeze_blob c" by (auto simp: getBlob_assembled [OF assms])
  with listed show "bl_references b = references_in (all_runs m) k" "bl_sources b = sources_in (all_runs m) k"
    by (simp_all add: listed_as_def freeze_blob_def all sorted_references sorted_sources)
  show "bl_sha256 b = k" using catalog_hash [OF assembled_catalog(1) c(1)] by (simp add: c(2) freeze_blob_def)
qed

lemma catalog_sizes:
  assumes "assemble runs = Inr (m, problems)" and "\<forall>run \<in> set runs. consistent_run run"
    and "getBlob m k = Some b" and "r \<in> set (bl_references b)"
  shows "ref_sizeBytes (br_reference r) = bl_sizeBytes b"
proof -
  let ?acc = "ay_accepted (assembled runs)" and ?blobs = "ay_blobs (assembled runs)"
  from assms(4) obtain run a where r: "r = reference_of run a" "run \<in> set (all_runs m)"
    "a \<in> set (run_attachments run)" "ref_sha256 a = k"
    by (auto simp: catalog_entries(3) [OF assms(1,3)] references_in_def)
  from assms(3) obtain c where c: "jget ?blobs k = Some c" "b = freeze_blob c" by (auto simp: getBlob_assembled [OF assms(1)])
  have "(run, a) \<in> uses_of ?acc" using r by (simp add: all_runs_accepted [OF assms(1)])
  with assembled_catalog(2) [OF assms(2)] c(1) r(4) have "bl_sizeBytes c = ref_sizeBytes a"
    unfolding sizes_ok_def by blast
  then show ?thesis by (simp add: r(1) c(2) reference_of_def)
qed

text \<open>
  C36. The catalog of bytes is exact: a hash has an entry exactly when a run of the model references
  it; the entry's references are those of the model's runs to that hash, run by run in the order of
  \<open>runs()\<close> and within a run in the order of its attachments, each as often as it occurs; its sources
  are the runs that have such a reference, once each and in the same order; and when no run given
  contradicts itself, every reference declares the entry's size.
\<close>

theorem blob_catalog_exact:
  assumes "assemble runs = Inr (m, problems)"
  shows "(getBlob m k = None \<longleftrightarrow> (\<forall>run \<in> set (all_runs m). \<forall>a \<in> set (run_attachments run). ref_sha256 a \<noteq> k)) \<and>
    (\<forall>b. getBlob m k = Some b \<longrightarrow>
       bl_sha256 b = k \<and>
       bl_references b = concat (map (\<lambda>run. map (reference_of run)
         (filter (\<lambda>a. ref_sha256 a = k) (run_attachments run))) (all_runs m)) \<and>
       bl_sources b = map source_of (filter (\<lambda>run. \<exists>a \<in> set (run_attachments run). ref_sha256 a = k) (all_runs m)) \<and>
       ((\<forall>run \<in> set runs. consistent_run run) \<longrightarrow>
         (\<forall>r \<in> set (bl_references b). ref_sizeBytes (br_reference r) = bl_sizeBytes b)))"
  using catalog_entries [OF assms, of k] catalog_sizes [OF assms, of k]
  unfolding references_in_def [symmetric] sources_in_def [symmetric] by blast

definition sized :: "int \<Rightarrow> attachment_reference" where
  "sized n = \<lparr>ref_sessionId = js ''s'', ref_attemptId = js ''a'', ref_stepId = None, ref_name = js ''f'',
     ref_mediaType = js ''text/plain'', ref_sizeBytes = n, ref_sha256 = js ''k''\<rparr>"

theorem blob_catalog_exact_witness:
  "\<exists>m b. assemble [sample_run ''r'' ''e'' [sized 1], sample_run ''q'' ''d'' [sized 1]] = Inr (m, []) \<and>
     getBlob m (js ''k'') = Some b \<and>
     bl_references b = [reference_of (sample_run ''q'' ''d'' [sized 1]) (sized 1), reference_of (sample_run ''r'' ''e'' [sized 1]) (sized 1)] \<and>
     bl_sources b = [source_of (sample_run ''q'' ''d'' [sized 1]), source_of (sample_run ''r'' ''e'' [sized 1])]"
proof -
  let ?q = "sample_run ''q'' ''d'' [sized 1]" and ?r = "sample_run ''r'' ''e'' [sized 1]"
  obtain m problems where m: "assemble [?r, ?q] = Inr (m, problems)"
    using sample_assemble [of "[?r, ?q]"] by (auto simp: sample_run_def)
  have "problems = [] \<and> all_runs m = [?q, ?r]"
    using m by (auto simp: assemble_def all_runs_def collect_run_def assemble_key_def accept_run_def size_conflict_def Let_def
        add_reference_def sample_run_def sized_def no_occurrences runKey_def js_def quote_string_def of_char_def escape_unit_def char_class_defs)
  then show ?thesis using m blob_catalog_exact [OF m, of "js ''k''"]
    by (cases "getBlob m (js ''k'')") (auto simp: sample_run_def sized_def)
qed

section \<open>Order of the runs\<close>

text \<open>What the loop keeps of a key's candidates, problems apart.\<close>

definition sole :: "jstring \<times> projected_run list \<Rightarrow> jstring \<times> projected_run option" where
  "sole x = (fst x, if 1 < length (snd x) then None else Some (hd (snd x)))"

definition without_problems :: "assembly \<Rightarrow> assembly" where
  "without_problems st = st\<lparr>ay_problems := []\<rparr>"

lemma assemble_key_sole:
  assumes "sole x = sole y" and "without_problems st = without_problems st'"
  shows "without_problems (assemble_key x st) = without_problems (assemble_key y st')"
proof -
  have parts: "ay_accepted st = ay_accepted st'" "ay_blobs st = ay_blobs st'"
    using assms(2) by (cases st; cases st'; simp add: without_problems_def)+
  obtain k l k' l' where x: "x = (k, l)" "y = (k', l')" by (cases x; cases y)
  have "k = k'" "1 < length l \<longleftrightarrow> 1 < length l'" "\<not> 1 < length l \<Longrightarrow> hd l = hd l'"
    using assms(1) by (auto simp: x sole_def split: if_splits)
  then show ?thesis
    using parts
    by (cases st; cases st'; cases "1 < length l")
      (auto simp: x assemble_key_def accept_run_def without_problems_def split: option.splits)
qed

lemma assemble_fold_sole:
  assumes "map sole xs = map sole ys" and "without_problems st = without_problems st'"
  shows "without_problems (fold assemble_key xs st) = without_problems (fold assemble_key ys st')"
  using assms
proof (induction xs arbitrary: ys st st')
  case (Cons x xs)
  then obtain y ys' where ys: "ys = y # ys'" "sole x = sole y" "map sole xs = map sole ys'" by (cases ys) auto
  from Cons.IH [OF ys(3) assemble_key_sole [OF ys(2) Cons.prems(2)]] show ?case by (simp add: ys(1))
qed simp

lemma keys_sorted:
  "map fst (sort_key fst (fold collect_run runs [])) = sorted_list_of_set (key_of ` set runs)"
proof (rule sorted_distinct_set_unique)
  show "sorted (map fst (sort_key fst (fold collect_run runs [])))" by simp
  show "distinct (map fst (sort_key fst (fold collect_run runs [])))"
    using collected_keys [of runs] by (simp add: jkeys_ok_def)
  have "k \<in> fst ` set (fold collect_run runs []) \<longleftrightarrow> k \<in> key_of ` set runs" for k
  proof -
    have "k \<in> fst ` set (fold collect_run runs []) \<longleftrightarrow> candidates runs k \<noteq> []"
      using collected_get [of runs k] map_of_eq_None_iff [of "fold collect_run runs []" k] by (simp split: if_splits)
    also have "\<dots> \<longleftrightarrow> run_directory ` {r \<in> set runs. key_of r = k} \<noteq> {}"
      unfolding candidates_facts(3) [symmetric] by simp
    finally show ?thesis by auto
  qed
  then show "set (map fst (sort_key fst (fold collect_run runs []))) = set (sorted_list_of_set (key_of ` set runs))"
    by auto
qed simp_all

definition directories_identify :: "projected_run list \<Rightarrow> bool" where
  "directories_identify runs \<longleftrightarrow>
     (\<forall>a \<in> set runs. \<forall>b \<in> set runs. key_of a = key_of b \<longrightarrow> run_directory a = run_directory b \<longrightarrow> a = b)"

lemma sole_candidates:
  assumes "set runs = set runs'" and "directories_identify runs"
  shows "sole (k, candidates runs k) = sole (k, candidates runs' k)"
proof -
  have dirs: "run_directory ` set (candidates runs k) = run_directory ` set (candidates runs' k)"
    by (simp only: candidates_facts(3) assms(1))
  then have len: "length (candidates runs k) = length (candidates runs' k)"
    using candidates_facts(2) by (metis distinct_card length_map list.set_map)
  moreover have "hd (candidates runs k) = hd (candidates runs' k)" if one: "\<not> 1 < length (candidates runs k)"
  proof (cases "candidates runs k")
    case Nil
    then show ?thesis using len by simp
  next
    case (Cons c cs)
    with one have c: "candidates runs k = [c]" by simp
    with len obtain d where d: "candidates runs' k = [d]" by (cases "candidates runs' k") auto
    have "c \<in> set runs" "key_of c = k" "d \<in> set runs" "key_of d = k"
      using candidates_facts(1) [of runs k] candidates_facts(1) [of runs' k] by (auto simp: c d assms(1))
    with assms(2) dirs have "c = d" by (auto simp: directories_identify_def c d)
    with c d show ?thesis by simp
  qed
  ultimately show ?thesis by (simp add: sole_def)
qed

lemma assembled_order:
  assumes "set runs = set runs'" and "directories_identify runs"
  shows "without_problems (assembled runs) = without_problems (assembled runs')"
proof -
  let ?xs = "\<lambda>runs. sort_key fst (fold collect_run runs [])"
  have entries: "?xs runs = map (\<lambda>k. (k, candidates runs k)) (sorted_list_of_set (key_of ` set runs))" for runs
  proof -
    have "x = (fst x, candidates runs (fst x))" if "x \<in> set (?xs runs)" for x
      using collected_entry(1) [of "fst x" "snd x" runs] that by (metis prod.collapse)
    then have "map (\<lambda>x. (fst x, candidates runs (fst x))) (?xs runs) = ?xs runs"
      by (intro map_idI) metis
    then have "?xs runs = map (\<lambda>k. (k, candidates runs k)) (map fst (?xs runs))"
      by (simp add: comp_def)
    then show ?thesis unfolding keys_sorted .
  qed
  have "map sole (?xs runs) = map sole (?xs runs')"
    unfolding entries assms(1) using sole_candidates [OF assms] by simp
  then show ?thesis unfolding assembled_def by (rule assemble_fold_sole) simp
qed

text \<open>
  C37. The order of the runs does not matter: when a run directory identifies what was read from it,
  the assembly of the same runs in another order, or with runs repeated, gives the same model, or
  the same error.
\<close>

theorem assembly_ignores_order:
  assumes "set runs = set runs'" and "directories_identify runs"
  shows "map_sum id fst (assemble runs) = map_sum id fst (assemble runs')"
proof -
  have parts: "ay_accepted (assembled runs) = ay_accepted (assembled runs')"
    "ay_blobs (assembled runs) = ay_blobs (assembled runs')"
    using assembled_order [OF assms] by (metis assembly.ext_inject assembly.surjective assembly.update_convs(3) without_problems_def)+
  show ?thesis
    unfolding assemble_def Let_def assembled_def [symmetric] parts
    by (cases "map_r (\<lambda>_ (k, l). bind_r (sort_occurrences l) (\<lambda>l'. Inr (k, l'))) 0
      (fold add_occurrence (concat (map (\<lambda>x. historyOccurrencesOf (snd x)) (ay_accepted (assembled runs')))) [])") simp_all
qed

theorem assembly_ignores_order_witness:
  "map_sum id fst (assemble [sample_run ''r'' ''d'' [], sample_run ''q'' ''e'' []]) =
   map_sum id fst (assemble [sample_run ''q'' ''e'' [], sample_run ''r'' ''d'' [], sample_run ''q'' ''e'' []])"
proof -
  have "set [sample_run ''r'' ''d'' [], sample_run ''q'' ''e'' []] =
      set [sample_run ''q'' ''e'' [], sample_run ''r'' ''d'' [], sample_run ''q'' ''e'' []]" by auto
  moreover have "directories_identify [sample_run ''r'' ''d'' [], sample_run ''q'' ''e'' []]"
    by (simp add: directories_identify_def sample_run_def)
  ultimately show ?thesis by (rule assembly_ignores_order)
qed

section \<open>A run that contradicts itself\<close>

text \<open>
  C40. A run that declares one hash with two sizes is not reported: the conflict is looked for among
  the runs before it only, so whatever else such a run holds, given alone it enters the model with no
  problem, and the catalog's entry for the hash contradicts one of its own references.
\<close>

theorem own_size_conflict_accepted:
  assumes "assemble [run] = Inr (m, problems)" and "a \<in> set (run_attachments run)" "a' \<in> set (run_attachments run)"
    and "ref_sha256 a = ref_sha256 a'" and "ref_sizeBytes a \<noteq> ref_sizeBytes a'"
  shows "problems = [] \<and> all_runs m = [run] \<and>
    (\<exists>b. getBlob m (ref_sha256 a) = Some b \<and> (\<exists>r \<in> set (bl_references b). ref_sizeBytes (br_reference r) \<noteq> bl_sizeBytes b))"
proof -
  have st: "ay_accepted (assembled [run]) = [(key_of run, run)]" "ay_problems (assembled [run]) = []"
    by (simp_all add: assembled_def collect_run_def assemble_key_def accept_run_def size_conflict_def find_None_iff
        key_of_def split: option.splits)
  have runs: "problems = []" "all_runs m = [run]"
    using st assemble_parts [OF assms(1)] by (simp_all add: all_runs_def)
  obtain b where b: "getBlob m (ref_sha256 a) = Some b"
    using catalog_entries(1) [OF assms(1), of "ref_sha256 a"] assms(2) runs(2) by fastforce
  have "reference_of run a \<in> set (bl_references b)" "reference_of run a' \<in> set (bl_references b)"
    using assms(2-4) by (auto simp: catalog_entries(3) [OF assms(1) b] runs(2) references_in_def)
  moreover have "ref_sizeBytes (br_reference (reference_of run a)) \<noteq> ref_sizeBytes (br_reference (reference_of run a'))"
    using assms(5) by (simp add: reference_of_def)
  ultimately show ?thesis using runs b by metis
qed

theorem own_size_conflict_accepted_witness:
  "\<exists>m b. assemble [sample_run ''r'' ''d'' [sized 1, sized 2]] = Inr (m, []) \<and> getBlob m (js ''k'') = Some b \<and>
     (\<exists>r \<in> set (bl_references b). ref_sizeBytes (br_reference r) \<noteq> bl_sizeBytes b)"
proof -
  let ?run = "sample_run ''r'' ''d'' [sized 1, sized 2]"
  obtain m problems where m: "assemble [?run] = Inr (m, problems)"
    using sample_assemble [of "[?run]"] by (auto simp: sample_run_def)
  have "sized 1 \<in> set (run_attachments ?run)" "sized 2 \<in> set (run_attachments ?run)" "ref_sha256 (sized 1) = ref_sha256 (sized 2)"
    "ref_sizeBytes (sized 1) \<noteq> ref_sizeBytes (sized 2)" "ref_sha256 (sized 1) = js ''k''"
    by (simp_all add: sample_run_def sized_def)
  with own_size_conflict_accepted [OF m this(1-4)] m show ?thesis by auto
qed

end
