(* ===== verification/Pattern.thy ===== *)
theory Pattern
  imports Prelude
begin

text \<open>
  The regular expressions of the redactor, as far as it uses them: sequences of items with
  backtracking in the order of ECMAScript, and \<open>String.prototype.replace\<close> with a global pattern.
  Every repetition in these expressions repeats one character class, so an item says how many units
  of a class to take, greedily or lazily.  A mark remembers a position for a group.
\<close>

datatype item =
    Unit "16 word \<Rightarrow> bool"
  | Many "16 word \<Rightarrow> bool" nat "nat option" bool
  | Word_Of "16 word \<Rightarrow> 16 word" "jstring list"
  | Not_After "16 word \<Rightarrow> bool"
  | Not_Before "16 word \<Rightarrow> bool"
  | Mark nat
  | Same nat nat
  | Choice "item list list"

type_synonym marks = "(nat \<times> jstring) list"

fun first_some :: "('a \<Rightarrow> 'b option) \<Rightarrow> 'a list \<Rightarrow> 'b option" where
  "first_some f [] = None"
| "first_some f (x # xs) = (case f x of Some y \<Rightarrow> Some y | None \<Rightarrow> first_some f xs)"

lemma first_some_cong [fundef_cong]:
  "xs = ys \<Longrightarrow> (\<And>x. x \<in> set ys \<Longrightarrow> f x = g x) \<Longrightarrow> first_some f xs = first_some g ys"
  by (induction ys arbitrary: xs) (auto split: option.splits)

text \<open>The text of a group, from the position of one mark to the position of a later one.\<close>

definition group :: "marks \<Rightarrow> nat \<Rightarrow> nat \<Rightarrow> jstring option" where
  "group m i j =
     (case (map_of m i, map_of m j) of
        (Some a, Some b) \<Rightarrow> Some (take (length a - length b) a)
      | _ \<Rightarrow> None)"

definition unit_before :: "16 word option \<Rightarrow> jstring \<Rightarrow> nat \<Rightarrow> 16 word option" where
  "unit_before prev s k = (if k = 0 then prev else Some (s ! (k - 1)))"

text \<open>How many units a repetition may take, in the order they are tried.\<close>

definition repeat_counts :: "(16 word \<Rightarrow> bool) \<Rightarrow> nat \<Rightarrow> nat option \<Rightarrow> bool \<Rightarrow> jstring \<Rightarrow> nat list" where
  "repeat_counts p least most greedy s =
     (let n = length (takeWhile p s);
          n = (case most of None \<Rightarrow> n | Some h \<Rightarrow> min h n);
          ks = [least..<Suc n]
      in if greedy then rev ks else ks)"

function (sequential) match_items :: "item list \<Rightarrow> 16 word option \<Rightarrow> jstring \<Rightarrow> marks \<Rightarrow> (marks \<times> jstring) option" where
  "match_items [] prev s m = Some (m, s)"
| "match_items (Unit p # r) prev s m =
     (case s of [] \<Rightarrow> None | c # t \<Rightarrow> if p c then match_items r (Some c) t m else None)"
| "match_items (Many p least most greedy # r) prev s m =
     first_some (\<lambda>k. match_items r (unit_before prev s k) (drop k s) m) (repeat_counts p least most greedy s)"
| "match_items (Word_Of canon ws # r) prev s m =
     first_some (\<lambda>w. if map canon (take (length w) s) = map canon w
                     then match_items r (unit_before prev s (length w)) (drop (length w) s) m else None) ws"
| "match_items (Not_After p # r) prev s m =
     (case prev of None \<Rightarrow> match_items r prev s m | Some c \<Rightarrow> if p c then None else match_items r prev s m)"
| "match_items (Not_Before p # r) prev s m =
     (case s of [] \<Rightarrow> match_items r prev s m | c # t \<Rightarrow> if p c then None else match_items r prev s m)"
| "match_items (Mark i # r) prev s m = match_items r prev s ((i, s) # m)"
| "match_items (Same i j # r) prev s m =
     (let w = (case group m i j of None \<Rightarrow> [] | Some w \<Rightarrow> w) in
      if take (length w) s = w then match_items r (unit_before prev s (length w)) (drop (length w) s) m else None)"
| "match_items (Choice alts # r) prev s m = first_some (\<lambda>a. match_items (a @ r) prev s m) alts"
  by pat_completeness auto

lemma alternative_smaller: "a \<in> set alts \<Longrightarrow> size_list size a < Suc (size_list (size_list size) alts)"
  by (induction alts) auto

termination match_items
  by (relation "measure (\<lambda>(items, _). size_list size items)")
    (auto simp: size_list_append dest: alternative_smaller)

text \<open>
  \<open>text.replace(pattern, f)\<close> for a global pattern: matches are found from left to right, none inside
  another, and a match of nothing is followed by the next unit.
\<close>

function replace_from :: "item list \<Rightarrow> (marks \<Rightarrow> jstring) \<Rightarrow> 16 word option \<Rightarrow> jstring \<Rightarrow> jstring" where
  "replace_from pat f prev s =
     (case match_items pat prev s [] of
        Some (m, rest) \<Rightarrow>
          if length rest < length s
          then f m @ replace_from pat f (unit_before prev s (length s - length rest)) rest
          else f m @ (case s of [] \<Rightarrow> [] | c # t \<Rightarrow> c # replace_from pat f (Some c) t)
      | None \<Rightarrow> (case s of [] \<Rightarrow> [] | c # t \<Rightarrow> c # replace_from pat f (Some c) t))"
  by pat_completeness auto
termination
  by (relation "measure (\<lambda>(_, _, _, s). length s)") auto

declare replace_from.simps [simp del]

definition replace_all :: "item list \<Rightarrow> (marks \<Rightarrow> jstring) \<Rightarrow> jstring \<Rightarrow> jstring" where
  "replace_all pat f s = replace_from pat f None s"

end
