(* ===== verification/Redactor.thy ===== *)
theory Redactor
  imports Pattern Codec_Roundtrip
begin

text \<open>
  The redactor of the SDK, \<open>src/ts/packages/sdk/src/redactor.ts\<close>, with \<open>environment.ts\<close> and
  \<open>media-types.ts\<close>.  Unicode lower case and the case folding of the flag \<open>i\<close> are the engine's
  (record \<open>text_host\<close>); a caller's own rules are functions on text.
\<close>

record text_host =
  toLowerCase :: "jstring \<Rightarrow> jstring"
  canonicalize :: "16 word \<Rightarrow> 16 word"

section \<open>The built-in rules\<close>

definition REDACTED :: jstring where
  "REDACTED = js ''[REDACTED]''"

definition SENSITIVE_HEADERS :: "jstring list" where
  "SENSITIVE_HEADERS = map js [''authorization'', ''proxy-authorization'', ''cookie'', ''set-cookie'', ''x-api-key'',
     ''api-key'', ''x-auth-token'', ''x-access-token'', ''x-amz-security-token'', ''x-session-token'']"

definition SENSITIVE_KEYS :: "jstring list" where
  "SENSITIVE_KEYS = map js [''apikey'', ''api_key'', ''password'', ''passwd'', ''pwd'', ''secret'', ''client_secret'',
     ''client-secret'', ''clientsecret'', ''token'', ''access_token'', ''access-token'', ''accesstoken'', ''refresh_token'',
     ''refresh-token'', ''private_key'', ''private-key'']"

definition word_unit :: "16 word \<Rightarrow> bool" where
  "word_unit c \<longleftrightarrow> is_alnum c \<or> c = 0x5F"

definition name_unit :: "16 word \<Rightarrow> bool" where
  "name_unit c \<longleftrightarrow> word_unit c \<or> c = 0x2D"

definition is_letter :: "16 word \<Rightarrow> bool" where
  "is_letter c \<longleftrightarrow> is_lower c \<or> is_upper c"

definition scheme_unit :: "16 word \<Rightarrow> bool" where
  "scheme_unit c \<longleftrightarrow> is_alnum c \<or> c = 0x2B \<or> c = 0x2E \<or> c = 0x2D"

definition is_tab_or_space :: "16 word \<Rightarrow> bool" where
  "is_tab_or_space c \<longleftrightarrow> c = 0x20 \<or> c = 0x09"

definition is_line_end :: "16 word \<Rightarrow> bool" where
  "is_line_end c \<longleftrightarrow> c = 0x0D \<or> c = 0x0A"

definition in_units :: "string \<Rightarrow> 16 word \<Rightarrow> bool" where
  "in_units s c \<longleftrightarrow> List.member (js s) c"

definition literal :: "string \<Rightarrow> item" where
  "literal s = Word_Of (\<lambda>c. c) [js s]"

definition PRIVATE_KEY_BLOCK :: "item list" where
  "PRIVATE_KEY_BLOCK =
     [literal ''-----BEGIN '', Many (\<lambda>c. is_upper c \<or> c = 0x20) 0 None True, literal ''PRIVATE KEY-----'',
      Many (\<lambda>_. True) 0 None False,
      literal ''-----END '', Many (\<lambda>c. is_upper c \<or> c = 0x20) 0 None True, literal ''PRIVATE KEY-----'']"

definition URL_USERINFO :: "item list" where
  "URL_USERINFO =
     [Not_After scheme_unit, Mark 0, Unit is_letter, Many scheme_unit 0 (Some 30) True, literal ''://'', Mark 1,
      Many (\<lambda>c. \<not> (c = 0x2F \<or> is_js_space c \<or> c = 0x3A \<or> c = 0x40)) 1 (Some 256) True, Unit (\<lambda>c. c = 0x3A),
      Many (\<lambda>c. \<not> (c = 0x2F \<or> is_js_space c \<or> c = 0x40)) 1 (Some 256) True, Unit (\<lambda>c. c = 0x40)]"

definition BEARER :: "text_host \<Rightarrow> item list" where
  "BEARER h =
     [Not_After word_unit, Word_Of (canonicalize h) [js ''bearer''], Many is_tab_or_space 1 None True,
      Many (\<lambda>c. is_alnum c \<or> in_units ''-._~+/'' c) 1 None True, Many (\<lambda>c. c = 0x3D) 0 None True]"

definition JWT :: "item list" where
  "JWT =
     [Not_After name_unit, literal ''eyJ'', Many name_unit 8 (Some 4096) True, Unit (\<lambda>c. c = 0x2E),
      Many name_unit 8 (Some 4096) True, Unit (\<lambda>c. c = 0x2E), Many name_unit 8 (Some 4096) True]"

definition WELL_KNOWN_TOKENS :: "item list list" where
  "WELL_KNOWN_TOKENS =
     [[Not_After word_unit, Word_Of (\<lambda>c. c) [js ''AKIA'', js ''ASIA''],
       Many (\<lambda>c. is_digit c \<or> is_upper c) 16 (Some 16) True, Not_Before word_unit],
      [Not_After word_unit, literal ''gh'', Unit (in_units ''pousr''), literal ''_'', Many is_alnum 36 None True,
       Not_Before word_unit],
      [Not_After word_unit, literal ''xox'', Unit (in_units ''abprs''), literal ''-'',
       Many (\<lambda>c. is_alnum c \<or> c = 0x2D) 10 None True, Not_Before word_unit],
      [Not_After word_unit, literal ''AIza'', Many name_unit 35 (Some 35) True, Not_Before word_unit]]"

definition STRUCTURAL_KEYS :: "jstring list" where
  "STRUCTURAL_KEYS = map js [''attemptId'', ''stepId'', ''parentStepId'', ''executionId'', ''historicalId'',
     ''historicalIdStability'', ''status'', ''rawStatus'', ''expectedStatus'', ''mediaType'', ''sha256'', ''kind'', ''phase'', ''version'']"

section \<open>The redactor\<close>

record redactor =
  headerNames :: "jstring list"
  keyNames :: "jstring list"
  rules :: "(jstring \<Rightarrow> jstring) list"

text \<open>A caller's rule: whether its pattern carries the flag \<open>g\<close>, and what replacing its matches does.\<close>

record redaction_rule =
  rule_global :: bool
  rule_replace :: "jstring \<Rightarrow> jstring"

record redactor_options =
  sensitiveHeaders :: "jstring list option"
  sensitiveKeys :: "jstring list option"
  extraRules :: "redaction_rule list option"

definition first_occurrences :: "'a list \<Rightarrow> 'a list" where
  "first_occurrences xs = rev (remdups (rev xs))"

definition create :: "text_host \<Rightarrow> redactor_options \<Rightarrow> jstring + redactor" where
  "create h opts =
     (let rs = (case extraRules opts of None \<Rightarrow> [] | Some l \<Rightarrow> l);
          more = (\<lambda>x. map (toLowerCase h) (case x of None \<Rightarrow> [] | Some l \<Rightarrow> l))
      in if list_all rule_global rs
         then Inr \<lparr>headerNames = first_occurrences (SENSITIVE_HEADERS @ more (sensitiveHeaders opts)),
                keyNames = first_occurrences (SENSITIVE_KEYS @ more (sensitiveKeys opts)),
                rules = map rule_replace rs\<rparr>
         else Inl (js ''redaction rule pattern must have the g flag''))"

definition isSensitiveHeader :: "text_host \<Rightarrow> redactor \<Rightarrow> jstring \<Rightarrow> bool" where
  "isSensitiveHeader h r name = List.member (headerNames r) (toLowerCase h name)"

text \<open>The two expressions built from the names; \<open>stop\<close> is where an unquoted value ends.\<close>

definition quoted_value :: "16 word \<Rightarrow> nat \<Rightarrow> item list" where
  "quoted_value q i = [Unit (\<lambda>c. c = q), Mark i, Many (\<lambda>c. \<not> (c = q \<or> is_line_end c)) 0 None True, Mark (Suc i), Unit (\<lambda>c. c = q)]"

definition name_value :: "text_host \<Rightarrow> jstring list \<Rightarrow> (16 word \<Rightarrow> bool) \<Rightarrow> item list" where
  "name_value h names stop =
     [Not_After name_unit, Mark 0, Many (\<lambda>c. c = 0x22 \<or> c = 0x27) 0 (Some 1) True, Mark 1,
      Word_Of (canonicalize h) names, Mark 2, Same 0 1, Mark 3, Many is_tab_or_space 0 None True,
      Unit (\<lambda>c. c = 0x3A \<or> c = 0x3D), Many is_tab_or_space 0 None True, Mark 4,
      Choice [quoted_value 0x22 5, quoted_value 0x27 7, [Many (\<lambda>c. \<not> stop c) 0 None True]]]"

definition headerValue :: "text_host \<Rightarrow> redactor \<Rightarrow> item list" where
  "headerValue h r = name_value h (headerNames r) is_line_end"

definition keyValue :: "text_host \<Rightarrow> redactor \<Rightarrow> item list" where
  "keyValue h r = name_value h (keyNames r) (\<lambda>c. is_line_end c \<or> in_units '',;&'' c)"

definition group_text :: "marks \<Rightarrow> nat \<Rightarrow> nat \<Rightarrow> jstring" where
  "group_text m i j = (case group m i j of None \<Rightarrow> [] | Some w \<Rightarrow> w)"

definition replaceValue :: "marks \<Rightarrow> jstring" where
  "replaceValue m =
     (let q = group_text m 0 1; key = group_text m 1 2; sep = group_text m 3 4;
          v = (if group m 5 6 \<noteq> None then [0x22] @ REDACTED @ [0x22]
               else if group m 7 8 \<noteq> None then [0x27] @ REDACTED @ [0x27] else REDACTED)
      in q @ key @ q @ sep @ v)"

definition redactText :: "text_host \<Rightarrow> redactor \<Rightarrow> jstring \<Rightarrow> jstring" where
  "redactText h r text =
     (let out = replace_all PRIVATE_KEY_BLOCK (\<lambda>_. REDACTED) text;
          out = replace_all (headerValue h r) replaceValue out;
          out = replace_all (keyValue h r) replaceValue out;
          out = replace_all URL_USERINFO (\<lambda>m. group_text m 0 1 @ REDACTED @ js ''@'') out;
          out = replace_all (BEARER h) (\<lambda>_. js ''Bearer '' @ REDACTED) out;
          out = replace_all JWT (\<lambda>_. REDACTED) out;
          out = fold (\<lambda>p. replace_all p (\<lambda>_. REDACTED)) WELL_KNOWN_TOKENS out
      in fold (\<lambda>f. f) (rules r) out)"

definition redactHeaders :: "text_host \<Rightarrow> redactor \<Rightarrow> string_map \<Rightarrow> string_map" where
  "redactHeaders h r headers =
     map (\<lambda>(name, v). (name, if isSensitiveHeader h r name then REDACTED else redactText h r v)) headers"

definition is_structural :: "jstring \<Rightarrow> bool" where
  "is_structural k = List.member STRUCTURAL_KEYS k"

text \<open>\<open>walk\<close>, with the redaction of a text as an argument.\<close>

fun walk :: "(jstring \<Rightarrow> jstring) \<Rightarrow> json \<Rightarrow> json" where
  "walk f (JStr s) = JStr (f s)"
| "walk f (JArr vs) = JArr (map (walk f) vs)"
| "walk f (JObj ps) = JObj (map (\<lambda>p. (fst p, if is_structural (fst p) then snd p else walk f (snd p))) ps)"
| "walk f v = v"

definition redactEvent :: "text_host \<Rightarrow> redactor \<Rightarrow> event \<Rightarrow> protocol_error + event" where
  "redactEvent h r e =
     (case eventToObject e of
        JObj obj \<Rightarrow>
          (case map_of obj (js ''payload'') of
             Some p \<Rightarrow> eventFromObject (JObj (AList.update (js ''payload'') (walk (redactText h r) p) obj))
           | None \<Rightarrow> eventFromObject (JObj obj))
      | j \<Rightarrow> eventFromObject j)"

section \<open>Environment and media types\<close>

text \<open>\<open>source\<close> is the environment record; a name may be looked up in it whatever it is.\<close>

definition captureEnvironment :: "text_host \<Rightarrow> redactor \<Rightarrow> (jstring \<Rightarrow> jstring option) \<Rightarrow> jstring list \<Rightarrow> string_map" where
  "captureEnvironment h r source names =
     from_entries (List.map_filter (\<lambda>n. map_option (\<lambda>v. (n, redactText h r v)) (source n)) names)"

definition trim :: "jstring \<Rightarrow> jstring" where
  "trim s = rev (dropWhile is_js_space (rev (dropWhile is_js_space s)))"

definition has_prefix :: "jstring \<Rightarrow> jstring \<Rightarrow> bool" where
  "has_prefix s p = (take (length p) s = p)"

definition has_suffix :: "jstring \<Rightarrow> jstring \<Rightarrow> bool" where
  "has_suffix s p = (length p \<le> length s \<and> drop (length s - length p) s = p)"

definition isTextualMediaType :: "text_host \<Rightarrow> jstring \<Rightarrow> bool" where
  "isTextualMediaType h mediaType =
     (let base = toLowerCase h (trim (hd (split_on 0x3B mediaType))) in
      has_prefix base (js ''text/'') \<or> base = js ''application/json'' \<or> base = js ''application/xml'' \<or>
      base = js ''application/x-www-form-urlencoded'' \<or> base = js ''application/javascript'' \<or>
      has_suffix base (js ''+json'') \<or> has_suffix base (js ''+xml''))"

end
