(* ===== verification/Session.thy ===== *)
theory Session
  imports Redactor
begin

text \<open>
  The report session of the SDK, \<open>src/ts/packages/sdk/src/session.ts\<close>, and the sink it writes to,
  \<open>sink.ts\<close>.  The state of the session is a record, an operation returns its result and the state after
  it, and an error that escapes is the left summand.  The sink is a record of operations on a state of
  its own; clock and id generator give the answer of their n-th call; problems delivered to the
  handler are kept in order.
\<close>

type_synonym bytes = "8 word list"

section \<open>The sink\<close>

record stored_attachment =
  sa_sha256 :: jstring
  sa_sizeBytes :: nat

datatype sink_error = AttachmentTooLarge nat | SinkError jstring

record 's report_sink =
  maxAttachmentBytes :: nat
  sink_write :: "event \<Rightarrow> 's \<Rightarrow> (sink_error + unit) \<times> 's"
  storeAttachment :: "bytes \<Rightarrow> 's \<Rightarrow> (sink_error + stored_attachment) \<times> 's"
  storeAttachmentStream :: "jstring \<Rightarrow> 's \<Rightarrow> (sink_error + stored_attachment) \<times> 's"
  sink_close :: "'s \<Rightarrow> (sink_error + unit) \<times> 's"

section \<open>State and options\<close>

datatype report_problem_kind =
    Event_Too_Large | Attachment_Too_Large | Sink_Failure | Session_Finished | Run_Finished
  | Invalid_Payload | Terminal_Outcome_Not_Written

record report_problem =
  pb_kind :: report_problem_kind
  pb_message :: jstring
  pb_cause :: "sink_error option"

datatype session_phase = Active | SessionEnded | RunEnded | Closed

fun phase_text :: "session_phase \<Rightarrow> jstring" where
  "phase_text Active = js ''active''"
| "phase_text SessionEnded = js ''session.finished''"
| "phase_text RunEnded = js ''run.finished''"
| "phase_text Closed = js ''closed''"

record 's session_options =
  so_runId :: jstring
  so_sessionId :: jstring
  so_sink :: "'s report_sink"
  so_clock :: "nat \<Rightarrow> jstring"
  so_ids :: "nat \<Rightarrow> jstring"
  so_host :: text_host
  so_redactor :: redactor
  so_maxEventBytes :: nat
  so_decode :: "bytes \<Rightarrow> jstring"
  so_encode :: "jstring \<Rightarrow> bytes"
  so_file :: "jstring \<Rightarrow> sink_error + (sink_error + bytes) list"

record 's report_session =
  rs_sequence :: int
  rs_written :: nat
  rs_dropped :: nat
  rs_phase :: session_phase
  rs_outcomeLost :: bool
  rs_sink :: 's
  rs_calls :: nat
  rs_problems :: "report_problem list"

record attachment_input =
  ai_attemptId :: jstring
  ai_stepId :: "jstring option"
  ai_name :: jstring
  ai_mediaType :: jstring

datatype write_result = Was_Written | Was_Too_Large | Was_Sink_Failure

type_synonym ('s, 'a) session_op = "'s report_session \<Rightarrow> (protocol_error + 'a) \<times> 's report_session"

section \<open>Helpers\<close>

definition problem_of :: "report_problem_kind \<Rightarrow> jstring \<Rightarrow> sink_error option \<Rightarrow> 's report_session \<Rightarrow> 's report_session" where
  "problem_of k message cause s =
     s\<lparr>rs_problems := rs_problems s @ [\<lparr>pb_kind = k, pb_message = message, pb_cause = cause\<rparr>]\<rparr>"

definition drop_one :: "'s report_session \<Rightarrow> 's report_session" where
  "drop_one s = s\<lparr>rs_dropped := rs_dropped s + 1\<rparr>"

definition acceptsSessionEvents :: "jstring \<Rightarrow> 's report_session \<Rightarrow> bool \<times> 's report_session" where
  "acceptsSessionEvents what s =
     (if rs_outcomeLost s
      then (False, problem_of Terminal_Outcome_Not_Written
             (what @ js '' after a session outcome that could not be written; dropped'') None (drop_one s))
      else if rs_phase s = Active then (True, s)
      else (False, problem_of (if rs_phase s = RunEnded then Run_Finished else Session_Finished)
             (what @ js '' emitted after '' @ phase_text (rs_phase s) @ js ''; dropped'') None (drop_one s)))"

definition candidate_event :: "'s session_options \<Rightarrow> event_payload \<Rightarrow> 's report_session \<Rightarrow> event" where
  "candidate_event cf p s =
     \<lparr>protocolVersion = PROTOCOL_VERSION, eventId = so_ids cf (rs_calls s), runId = so_runId cf,
      sessionId = so_sessionId cf, sequence = rs_sequence s + 1, occurredAt = so_clock cf (rs_calls s),
      ignorable = None, payload = p\<rparr>"

definition write_event ::
    "'s session_options \<Rightarrow> event_payload \<Rightarrow> bool \<Rightarrow> ('s, write_result \<times> nat) session_op" where
  "write_event cf p reportSize s =
     (let candidate = candidate_event cf p s; s = s\<lparr>rs_calls := rs_calls s + 1\<rparr> in
      case redactEvent (so_host cf) (so_redactor cf) candidate of
        Inl e \<Rightarrow> (Inl e, s)
      | Inr event \<Rightarrow>
          let size = utf8_length (stringifyEvent event) + 1 in
          if size > so_maxEventBytes cf
          then (Inr (Was_Too_Large, size),
                if reportSize
                then problem_of Event_Too_Large (js ''event '' @ payload_type p @ js '' is '' @ show_nat size @
                       js '' bytes, limit '' @ show_nat (so_maxEventBytes cf) @ js ''; dropped'') None (drop_one s)
                else drop_one s)
          else case sink_write (so_sink cf) event (rs_sink s) of
                 (Inl e, k) \<Rightarrow>
                   (Inr (Was_Sink_Failure, size),
                    problem_of Sink_Failure (js ''cannot write '' @ payload_type p) (Some e) (drop_one (s\<lparr>rs_sink := k\<rparr>)))
               | (Inr _, k) \<Rightarrow>
                   (Inr (Was_Written, size),
                    s\<lparr>rs_sink := k, rs_sequence := rs_sequence s + 1, rs_written := rs_written s + 1\<rparr>))"

text \<open>The rule an outcome breaks.\<close>

definition outcomeViolation :: "session_finished_payload \<Rightarrow> jstring option" where
  "outcomeViolation o' =
     (let some = (case sf_failures o' of None \<Rightarrow> False | Some l \<Rightarrow> l \<noteq> []) in
      if sf_status o' = None \<and> sf_rawStatus o' \<noteq> None then Some (js ''rawStatus requires status'')
      else if sf_status o' = None \<and> some then Some (js ''failures require status'')
      else if sf_status o' = Some SessionPassed \<and> some then Some (js ''a passed session carries no failures'')
      else None)"

section \<open>Finishing\<close>

definition has_failures :: "session_finished_payload \<Rightarrow> bool" where
  "has_failures p \<longleftrightarrow> (case sf_failures p of None \<Rightarrow> False | Some l \<Rightarrow> l \<noteq> [])"

text \<open>The loop of \<open>finish\<close> for an outcome with a status: what is dropped before the next try.\<close>

function finish_loop :: "'s session_options \<Rightarrow> session_status \<Rightarrow> session_finished_payload \<Rightarrow> ('s, bool) session_op" where
  "finish_loop cf status candidate s =
     (case write_event cf (SessionFinished candidate) False s of
        (Inl e, s) \<Rightarrow> (Inl e, s)
      | (Inr (Was_Written, _), s) \<Rightarrow> (Inr True, s\<lparr>rs_phase := SessionEnded\<rparr>)
      | (Inr (Was_Sink_Failure, _), s) \<Rightarrow>
          (Inr False, problem_of Terminal_Outcome_Not_Written
             (js ''session outcome '' @ session_status_word status @
              js '' could not be written because the sink failed; no session.finished is emitted and the session stays open'')
             None (s\<lparr>rs_outcomeLost := True\<rparr>))
      | (Inr (Was_Too_Large, n), s) \<Rightarrow>
          let size = show_nat n @ js '' bytes, limit '' @ show_nat (so_maxEventBytes cf) in
          if has_failures candidate
          then finish_loop cf status
                 \<lparr>sf_status = Some status, sf_rawStatus = sf_rawStatus candidate, sf_failures = None\<rparr>
                 (problem_of Event_Too_Large (js ''session.finished with its failures is '' @ size @
                    js ''; retried without them'') None s)
          else if sf_rawStatus candidate \<noteq> None
          then finish_loop cf status \<lparr>sf_status = Some status, sf_rawStatus = None, sf_failures = None\<rparr>
                 (problem_of Event_Too_Large (js ''session.finished with its rawStatus is '' @ size @
                    js ''; retried without it'') None s)
          else (Inr False, problem_of Terminal_Outcome_Not_Written
                  (js ''session outcome '' @ session_status_word status @ js '' alone is '' @ size @
                   js '' and cannot be written; no session.finished is emitted and the session stays open'')
                  None (s\<lparr>rs_outcomeLost := True\<rparr>)))"
  by pat_completeness auto

text \<open>Each turn of the loop drops the failures or the raw status, so there are at most three.\<close>

definition outcome_parts :: "session_finished_payload \<Rightarrow> nat" where
  "outcome_parts p = (if has_failures p then 1 else 0) + (if sf_rawStatus p \<noteq> None then 1 else 0)"

termination finish_loop
  by (relation "measure (\<lambda>(_, _, p, _). outcome_parts p)") (auto simp: outcome_parts_def has_failures_def)

declare finish_loop.simps [simp del]

definition finish_session :: "'s session_options \<Rightarrow> session_finished_payload \<Rightarrow> ('s, bool) session_op" where
  "finish_session cf outcome s =
     (case outcomeViolation outcome of
        Some violation \<Rightarrow>
          (Inr False, problem_of Invalid_Payload (js ''session.finished '' @ violation @ js ''; dropped'') None (drop_one s))
      | None \<Rightarrow>
          (case acceptsSessionEvents (js ''event session.finished'') s of
             (False, s) \<Rightarrow> (Inr False, s)
           | (True, s) \<Rightarrow>
               (case sf_status outcome of
                  None \<Rightarrow>
                    (case write_event cf (SessionFinished outcome) True s of
                       (Inl e, s) \<Rightarrow> (Inl e, s)
                     | (Inr (result, _), s) \<Rightarrow>
                         (Inr (result = Was_Written), if result = Was_Written then s\<lparr>rs_phase := SessionEnded\<rparr> else s))
                | Some status \<Rightarrow> finish_loop cf status outcome s)))"

definition no_outcome :: session_finished_payload where
  "no_outcome = \<lparr>sf_status = None, sf_rawStatus = None, sf_failures = None\<rparr>"

definition write_run_finished :: "'s session_options \<Rightarrow> ('s, bool) session_op" where
  "write_run_finished cf s =
     (if rs_phase s \<noteq> SessionEnded
      then (Inr False, problem_of Run_Finished
              (js ''run.finished emitted after '' @ phase_text (rs_phase s) @ js ''; dropped'') None (drop_one s))
      else case write_event cf RunFinished True s of
             (Inl e, s) \<Rightarrow> (Inl e, s)
           | (Inr (result, _), s) \<Rightarrow>
               (Inr (result = Was_Written), if result = Was_Written then s\<lparr>rs_phase := RunEnded\<rparr> else s))"

definition finishRun :: "'s session_options \<Rightarrow> ('s, bool) session_op" where
  "finishRun cf s =
     (if rs_outcomeLost s
      then (Inr False, problem_of Terminal_Outcome_Not_Written
              (js ''run.finished after a session outcome that could not be written; dropped'') None (drop_one s))
      else if rs_phase s = Active
      then case finish_session cf no_outcome s of
             (Inl e, s) \<Rightarrow> (Inl e, s)
           | (Inr ok, s) \<Rightarrow> if ok then write_run_finished cf s else (Inr False, s)
      else write_run_finished cf s)"

section \<open>Emitting\<close>

fun emit :: "'s session_options \<Rightarrow> event_payload \<Rightarrow> ('s, bool) session_op" where
  "emit cf RunFinished s = finishRun cf s"
| "emit cf (SessionFinished p) s = finish_session cf p s"
| "emit cf p s =
     (case acceptsSessionEvents (js ''event '' @ payload_type p) s of
        (False, s) \<Rightarrow> (Inr False, s)
      | (True, s) \<Rightarrow>
          (case write_event cf p True s of
             (Inl e, s) \<Rightarrow> (Inl e, s)
           | (Inr (result, _), s) \<Rightarrow> (Inr (result = Was_Written), s)))"

definition new_session :: "'s \<Rightarrow> 's report_session" where
  "new_session k = \<lparr>rs_sequence = 0, rs_written = 0, rs_dropped = 0, rs_phase = Active, rs_outcomeLost = False,
     rs_sink = k, rs_calls = 0, rs_problems = []\<rparr>"

datatype start_error = Bad_Options jstring | Bad_Payload protocol_error

definition start :: "'s session_options \<Rightarrow> 's \<Rightarrow> session_started_payload \<Rightarrow> start_error + 's report_session" where
  "start cf k p =
     (if so_maxEventBytes cf < 1 \<or> so_maxEventBytes cf > maxEventBytes
      then Inl (Bad_Options (js ''maxEventBytes must be within 1..'' @ show_nat maxEventBytes))
      else case emit cf (SessionStarted p) (new_session k) of
             (Inl e, _) \<Rightarrow> Inl (Bad_Payload e)
           | (Inr _, s) \<Rightarrow> Inr s)"

section \<open>Attachments\<close>

definition emitAttachment :: "'s session_options \<Rightarrow> attachment_input \<Rightarrow> stored_attachment \<Rightarrow> ('s, bool) session_op" where
  "emitAttachment cf input stored =
     emit cf (AttachmentAdded \<lparr>aa_attemptId = ai_attemptId input, aa_stepId = ai_stepId input, aa_name = ai_name input,
       aa_mediaType = ai_mediaType input, aa_sizeBytes = int (sa_sizeBytes stored), aa_sha256 = sa_sha256 stored\<rparr>)"

definition storeFailed :: "attachment_input \<Rightarrow> sink_error \<Rightarrow> 's report_session \<Rightarrow> bool \<times> 's report_session" where
  "storeFailed input e s =
     (False,
      case e of
        AttachmentTooLarge _ \<Rightarrow> problem_of Attachment_Too_Large (js ''attachment '' @ ai_name input) (Some e) s
      | SinkError _ \<Rightarrow> problem_of Sink_Failure (js ''cannot store attachment '' @ ai_name input) (Some e) s)"

definition attach :: "'s session_options \<Rightarrow> attachment_input \<Rightarrow> bytes \<Rightarrow> ('s, bool) session_op" where
  "attach cf input bs s =
     (case acceptsSessionEvents (js ''attachment '' @ ai_name input) s of
        (False, s) \<Rightarrow> (Inr False, s)
      | (True, s) \<Rightarrow>
          let content = (if isTextualMediaType (so_host cf) (ai_mediaType input)
                         then so_encode cf (redactText (so_host cf) (so_redactor cf) (so_decode cf bs)) else bs)
          in case storeAttachment (so_sink cf) content (rs_sink s) of
               (Inl e, k) \<Rightarrow> (case storeFailed input e (s\<lparr>rs_sink := k\<rparr>) of (b, s) \<Rightarrow> (Inr b, s))
             | (Inr stored, k) \<Rightarrow> emitAttachment cf input stored (s\<lparr>rs_sink := k\<rparr>))"

text \<open>
  The loop of \<open>readBounded\<close> over what the calls of \<open>readSync\<close> return, up to the one that returns nothing.
\<close>

fun read_chunks :: "nat \<Rightarrow> (sink_error + bytes) list \<Rightarrow> bytes \<Rightarrow> sink_error + bytes option" where
  "read_chunks limit [] acc = Inr (Some acc)"
| "read_chunks limit (Inl e # cs) acc = Inl e"
| "read_chunks limit (Inr c # cs) acc =
     (if c = [] then Inr (Some acc)
      else if length (acc @ c) > limit then Inr None
      else read_chunks limit cs (acc @ c))"

definition readBounded :: "'s session_options \<Rightarrow> jstring \<Rightarrow> nat \<Rightarrow> sink_error + bytes option" where
  "readBounded cf path limit = bind_r (so_file cf path) (\<lambda>cs. read_chunks limit cs [])"

definition attachFileSync :: "'s session_options \<Rightarrow> attachment_input \<Rightarrow> jstring \<Rightarrow> ('s, bool) session_op" where
  "attachFileSync cf input path s =
     (case acceptsSessionEvents (js ''attachment '' @ ai_name input) s of
        (False, s) \<Rightarrow> (Inr False, s)
      | (True, s) \<Rightarrow>
          (case readBounded cf path (maxAttachmentBytes (so_sink cf)) of
             Inl e \<Rightarrow> (case storeFailed input e s of (b, s) \<Rightarrow> (Inr b, s))
           | Inr None \<Rightarrow>
               (case storeFailed input (AttachmentTooLarge (maxAttachmentBytes (so_sink cf))) s of (b, s) \<Rightarrow> (Inr b, s))
           | Inr (Some bs) \<Rightarrow> attach cf input bs s))"

text \<open>
  \<open>attachFile\<close>: an error that escapes from \<open>attach\<close> or \<open>emitAttachment\<close> is caught and reported as a sink
  failure.
\<close>

definition caught :: "attachment_input \<Rightarrow> (protocol_error + bool) \<times> 's report_session \<Rightarrow> bool \<times> 's report_session" where
  "caught input r =
     (case r of (Inr b, s) \<Rightarrow> (b, s) | (Inl e, s) \<Rightarrow> storeFailed input (SinkError (err_message e)) s)"

definition attachFile :: "'s session_options \<Rightarrow> attachment_input \<Rightarrow> jstring \<Rightarrow> 's report_session \<Rightarrow> bool \<times> 's report_session" where
  "attachFile cf input path s =
     (case acceptsSessionEvents (js ''attachment '' @ ai_name input) s of
        (False, s) \<Rightarrow> (False, s)
      | (True, s) \<Rightarrow>
          if isTextualMediaType (so_host cf) (ai_mediaType input)
          then case readBounded cf path (maxAttachmentBytes (so_sink cf)) of
                 Inl e \<Rightarrow> storeFailed input e s
               | Inr None \<Rightarrow> storeFailed input (AttachmentTooLarge (maxAttachmentBytes (so_sink cf))) s
               | Inr (Some bs) \<Rightarrow> caught input (attach cf input bs s)
          else case storeAttachmentStream (so_sink cf) path (rs_sink s) of
                 (Inl e, k) \<Rightarrow> storeFailed input e (s\<lparr>rs_sink := k\<rparr>)
               | (Inr stored, k) \<Rightarrow> caught input (emitAttachment cf input stored (s\<lparr>rs_sink := k\<rparr>)))"

section \<open>Closing\<close>

definition close_sink :: "'s session_options \<Rightarrow> 's report_session \<Rightarrow> 's report_session" where
  "close_sink cf s =
     (let s = s\<lparr>rs_phase := Closed\<rparr> in
      case sink_close (so_sink cf) (rs_sink s) of
        (Inl e, k) \<Rightarrow> problem_of Sink_Failure (js ''cannot close sink'') (Some e) (s\<lparr>rs_sink := k\<rparr>)
      | (Inr _, k) \<Rightarrow> s\<lparr>rs_sink := k\<rparr>)"

definition close :: "'s session_options \<Rightarrow> ('s, unit) session_op" where
  "close cf s =
     (if rs_phase s = Closed then (Inr (), s)
      else if rs_phase s = Active \<and> \<not> rs_outcomeLost s
      then case finish_session cf no_outcome s of
             (Inl e, s) \<Rightarrow> (Inl e, s)
           | (Inr _, s) \<Rightarrow> (Inr (), close_sink cf s)
      else (Inr (), close_sink cf s))"

definition session_summary :: "'s report_session \<Rightarrow> nat \<times> nat" where
  "session_summary s = (rs_written s, rs_dropped s)"

end
