(* ===== verification/Redactor_Properties.thy ===== *)
theory Redactor_Properties
  imports Redactor
begin

text \<open>
  What redaction does to an event, stated on the typed event: the free texts are redacted one by
  one, everything else is kept.  The walk over the JSON object is proved to implement it.
\<close>

section \<open>Redaction of a typed event\<close>

definition red_map :: "(jstring \<Rightarrow> jstring) \<Rightarrow> string_map \<Rightarrow> string_map" where
  "red_map f m = map (\<lambda>p. (fst p, if is_structural (fst p) then snd p else f (snd p))) m"

definition red_component :: "(jstring \<Rightarrow> jstring) \<Rightarrow> component \<Rightarrow> component" where
  "red_component f c = c\<lparr>comp_name := f (comp_name c)\<rparr>"

definition red_location :: "(jstring \<Rightarrow> jstring) \<Rightarrow> location \<Rightarrow> location" where
  "red_location f l = l\<lparr>loc_file := f (loc_file l)\<rparr>"

definition red_segment :: "(jstring \<Rightarrow> jstring) \<Rightarrow> path_segment \<Rightarrow> path_segment" where
  "red_segment f s = s\<lparr>seg_name := f (seg_name s)\<rparr>"

definition red_failure :: "(jstring \<Rightarrow> jstring) \<Rightarrow> failure \<Rightarrow> failure" where
  "red_failure f x = x\<lparr>fail_message := f (fail_message x), fail_type := map_option f (fail_type x),
     fail_stackTrace := map_option f (fail_stackTrace x), fail_location := map_option (red_location f) (fail_location x)\<rparr>"

definition red_test :: "(jstring \<Rightarrow> jstring) \<Rightarrow> test_case \<Rightarrow> test_case" where
  "red_test f t = t\<lparr>tc_displayName := f (tc_displayName t), tc_path := map (red_segment f) (tc_path t),
     tc_location := map_option (red_location f) (tc_location t), tc_tags := map_option (map f) (tc_tags t),
     tc_labels := map_option (red_map f) (tc_labels t)\<rparr>"

definition red_session :: "(jstring \<Rightarrow> jstring) \<Rightarrow> session_started_payload \<Rightarrow> session_started_payload" where
  "red_session f p = p\<lparr>ss_producer := red_component f (ss_producer p), ss_runner := map_option (red_component f) (ss_runner p),
     ss_environment := map_option (red_map f) (ss_environment p),
     ss_executor := map_option (\<lambda>x. \<lparr>exec_name = map_option f (exec_name x), exec_buildId = map_option f (exec_buildId x),
       exec_buildUrl = map_option f (exec_buildUrl x)\<rparr>) (ss_executor p),
     ss_source := map_option (\<lambda>x. \<lparr>src_repository = map_option f (src_repository x), src_revision = map_option f (src_revision x),
       src_branch = map_option f (src_branch x)\<rparr>) (ss_source p),
     ss_labels := map_option (red_map f) (ss_labels p)\<rparr>"

fun red_payload :: "(jstring \<Rightarrow> jstring) \<Rightarrow> event_payload \<Rightarrow> event_payload" where
  "red_payload f (SessionStarted p) = SessionStarted (red_session f p)"
| "red_payload f (SessionFinished p) = SessionFinished (p\<lparr>sf_failures := map_option (map (red_failure f)) (sf_failures p)\<rparr>)"
| "red_payload f RunFinished = RunFinished"
| "red_payload f (AttemptStarted p) = AttemptStarted (p\<lparr>as_test := red_test f (as_test p)\<rparr>)"
| "red_payload f (AttemptFinished p) = AttemptFinished (p\<lparr>af_failures := map_option (map (red_failure f)) (af_failures p)\<rparr>)"
| "red_payload f (StepStarted p) =
     StepStarted (p\<lparr>st_name := f (st_name p), st_location := map_option (red_location f) (st_location p)\<rparr>)"
| "red_payload f (StepFinished p) = StepFinished (p\<lparr>sp_failures := map_option (map (red_failure f)) (sp_failures p)\<rparr>)"
| "red_payload f (AttachmentAdded p) = AttachmentAdded (p\<lparr>aa_name := f (aa_name p)\<rparr>)"
| "red_payload f (ScopeFailed p) =
     ScopeFailed (p\<lparr>sc_path := map (red_segment f) (sc_path p), sc_displayName := map_option f (sc_displayName p),
       sc_location := map_option (red_location f) (sc_location p), sc_failures := map (red_failure f) (sc_failures p)\<rparr>)"
| "red_payload f (UnknownPayload t p) =
     UnknownPayload t (map (\<lambda>x. (fst x, if is_structural (fst x) then snd x else walk f (snd x))) p)"

definition red_event :: "(jstring \<Rightarrow> jstring) \<Rightarrow> event \<Rightarrow> event" where
  "red_event f e = e\<lparr>payload := red_payload f (payload e)\<rparr>"

lemmas red_defs = red_component_def red_location_def red_segment_def red_failure_def red_test_def red_session_def

section \<open>The walk implements it\<close>

named_theorems walk_simps

definition walk_obj :: "(jstring \<Rightarrow> jstring) \<Rightarrow> obj \<Rightarrow> obj" where
  "walk_obj f ps = map (\<lambda>p. (fst p, if is_structural (fst p) then snd p else walk f (snd p))) ps"

lemma walk_JObj [walk_simps]: "walk f (JObj ps) = JObj (walk_obj f ps)"
  by (simp add: walk_obj_def)

declare walk.simps(3) [simp del]

lemma is_structural_js [walk_simps]:
  "is_structural (js s) \<longleftrightarrow> s \<in> {''attemptId'', ''stepId'', ''parentStepId'', ''executionId'', ''historicalId'',
     ''historicalIdStability'', ''status'', ''rawStatus'', ''expectedStatus'', ''mediaType'', ''sha256'', ''kind'', ''phase'', ''version''}"
  by (simp add: is_structural_def STRUCTURAL_KEYS_def)

definition walk_entry :: "(jstring \<Rightarrow> jstring) \<Rightarrow> jstring \<times> json option \<Rightarrow> jstring \<times> json option" where
  "walk_entry f p = (fst p, map_option (\<lambda>x. if is_structural (fst p) then x else walk f x) (snd p))"

lemma walk_obj_omit [walk_simps]: "walk_obj f (omitUndefined ps) = omitUndefined (map (walk_entry f) ps)"
proof (induction ps)
  case (Cons p ps)
  then show ?case by (cases p; cases "snd p") (simp_all add: walk_obj_def walk_entry_def omitUndefined_simps)
qed (simp add: walk_obj_def omitUndefined_simps)

lemma walk_entry_kept [walk_simps]: "is_structural k \<Longrightarrow> walk_entry f (k, v) = (k, v)"
  by (cases v) (simp_all add: walk_entry_def)

lemma walk_entry_walked [walk_simps]: "\<not> is_structural k \<Longrightarrow> walk_entry f (k, v) = (k, map_option (walk f) v)"
  by (simp add: walk_entry_def)

lemma walk_component [walk_simps]: "walk_obj f (writeComponent c) = writeComponent (red_component f c)"
  unfolding writeComponent_def red_defs by (simp add: walk_simps option.map_comp comp_def)

lemma walk_location [walk_simps]: "walk_obj f (writeLocation l) = writeLocation (red_location f l)"
  unfolding writeLocation_def red_defs by (simp add: walk_simps option.map_comp comp_def)

lemma walk_failure [walk_simps]: "walk_obj f (writeFailure x) = writeFailure (red_failure f x)"
  unfolding writeFailure_def red_failure_def by (simp add: walk_simps option.map_comp comp_def)

lemma walk_failures [walk_simps]: "map_option (walk f) (writeFailures fs) = writeFailures (map_option (map (red_failure f)) fs)"
  by (cases fs) (simp_all add: writeFailures_def walk_simps)

lemma walk_map [walk_simps]: "map_option (walk f) (write_map m) = write_map (map_option (red_map f) m)"
  by (cases m) (auto simp: write_map_def red_map_def walk_simps walk_obj_def)

lemma walk_tags [walk_simps]: "map_option (walk f) (write_tags t) = write_tags (map_option (map f) t)"
  by (cases t) (simp_all add: write_tags_def)

lemma walk_segment [walk_simps]: "walk_obj f (writeSegment s) = writeSegment (red_segment f s)"
  by (simp add: writeSegment_def red_segment_def walk_obj_def is_structural_js)

lemma walk_test [walk_simps]: "walk_obj f (write_test t) = write_test (red_test f t)"
  unfolding write_test_def red_test_def by (simp add: walk_simps option.map_comp comp_def)

lemma walk_session [walk_simps]: "walk_obj f (write_session_started p) = write_session_started (red_session f p)"
  unfolding write_session_started_def red_session_def
  by (simp add: walk_simps option.map_comp comp_def write_executor_def write_source_def)

lemma walk_obj_Cons:
  "walk_obj f [] = []"
  "walk_obj f ((k, v) # ps) = (k, if is_structural k then v else walk f v) # walk_obj f ps"
  by (simp_all add: walk_obj_def)

lemma walk_payload: "walk_obj f (writePayload p) = writePayload (red_payload f p)"
proof (cases p)
  case (UnknownPayload t q)
  then show ?thesis by (simp add: walk_obj_def)
next
  case RunFinished
  then show ?thesis by (simp add: walk_obj_def)
next
  case (AttemptStarted q)
  then show ?thesis by (simp add: write_attempt_started_def walk_obj_Cons walk_simps)
next
  case (ScopeFailed q)
  then show ?thesis using walk_failures [of f "Some (sc_failures q)"]
    by (simp add: write_scope_failed_def walk_simps option.map_comp comp_def)
qed (simp_all add: write_session_finished_def write_attempt_finished_def write_step_started_def write_step_finished_def
    write_attachment_added_def walk_simps option.map_comp comp_def)

lemma updated_payload:
  "AList.update (js ''payload'') (JObj (writePayload p)) (envelope_obj e) = envelope_obj (e\<lparr>payload := p\<rparr>)"
  if "payload_type p = payload_type (payload e)"
  using that by (cases "ignorable e") (simp_all add: envelope_obj_def omitUndefined_simps eventType_def)

lemma red_payload_type: "payload_type (red_payload f p) = payload_type p"
  by (cases p) simp_all

lemma redactEvent_typed: "redactEvent h r e = eventFromObject (eventToObject (red_event (redactText h r) e))"
  by (simp add: redactEvent_def eventToObject_omit envelope_payload walk_JObj walk_payload red_event_def
      updated_payload red_payload_type)

lemma wf_red_location: "wf_location_opt (map_option (red_location f) l) = wf_location_opt l"
  by (cases l) (simp_all add: wf_location_opt_def wf_location_def red_location_def)

lemma wf_red_failure: "wf_failure (red_failure f x) = wf_failure x"
  by (simp add: wf_failure_def red_failure_def wf_red_location)

lemma wf_red_map: "wf_map (map_option (red_map f) m) = wf_map m"
  by (cases m) (simp_all add: wf_map_def red_map_def jkeys_ok_def comp_def)

lemma wf_red_payload: "wf_payload ign (red_payload f p) = wf_payload ign p"
  by (cases p) (auto simp: wf_red_failure wf_red_location wf_red_map red_session_def red_test_def wf_test_def wf_failures_def
      outcome_ok_def list_all_iff comp_def split: option.splits)

lemma redactEvent_wf:
  assumes "wf_event e"
  shows "redactEvent h r e = Inr (normal_event (red_event (redactText h r) e))"
proof -
  have "wf_event (red_event (redactText h r) e)"
    using assms by (simp add: wf_event_def red_event_def wf_red_payload)
  then show ?thesis unfolding redactEvent_typed by (rule eventFromObject_eventToObject)
qed

text \<open>
  Redaction touches free text and nothing else: for every well-formed event and every redactor
  it succeeds, and its result is the event, in normal form, with each free text replaced by its
  redaction; identifiers, statuses, numbers, media types, hashes, kinds, phases and versions, and the
  whole envelope, are those of the event.
\<close>

theorem redaction_is_typed:
  assumes "wf_event e"
  shows "redactEvent h r e = Inr (normal_event (red_event (redactText h r) e))"
  using assms by (rule redactEvent_wf)

definition plain_host :: text_host where
  "plain_host = \<lparr>toLowerCase = (\<lambda>s. s), canonicalize = (\<lambda>c. if is_lower c then c - 0x20 else c)\<rparr>"

definition default_redactor :: redactor where
  "default_redactor = \<lparr>headerNames = SENSITIVE_HEADERS, keyNames = SENSITIVE_KEYS, rules = []\<rparr>"

theorem redaction_is_typed_witness:
  "redactEvent plain_host default_redactor sample_event =
     Inr (normal_event (red_event (redactText plain_host default_redactor) sample_event))"
  by (rule redaction_is_typed [OF sample_event_wf])

section \<open>A sensitive value disappears\<close>

lemma first_some_agrees:
  "x \<in> set xs \<Longrightarrow> f x = Some y \<Longrightarrow> \<forall>x \<in> set xs. f x = None \<or> f x = Some y \<Longrightarrow> first_some f xs = Some y"
  by (induction xs) (auto split: option.splits)

lemma first_some_first: "xs \<noteq> [] \<Longrightarrow> f (hd xs) = Some y \<Longrightarrow> first_some f xs = Some y"
  by (cases xs) simp_all

lemma first_some_none: "\<forall>x \<in> set xs. f x = None \<Longrightarrow> first_some f xs = None"
  by (induction xs) simp_all

lemma unit_before_none: "unit_before prev s 0 = prev"
  by (simp add: unit_before_def)

lemma unit_before_last: "w \<noteq> [] \<Longrightarrow> unit_before prev (w @ t) (length (w @ t) - length t) = Some (last w)"
  by (cases w rule: rev_cases) (simp_all add: unit_before_def nth_append)

lemma repeat_none: "(case s of [] \<Rightarrow> True | c # _ \<Rightarrow> \<not> p c) \<Longrightarrow> repeat_counts p 0 most greedy s = [0]"
  by (cases s; cases most) (auto simp: repeat_counts_def Let_def)

lemma repeat_all: "hd (repeat_counts p 0 None True s) = length (takeWhile p s)" "repeat_counts p 0 None True s \<noteq> []"
  by (simp_all add: repeat_counts_def Let_def)

text \<open>A greedy repetition that needs no backtracking.\<close>

lemma match_many:
  assumes "list_all p b" and "case s of [] \<Rightarrow> True | c # _ \<Rightarrow> \<not> p c"
    and "match_items items (unit_before prev (b @ s) (length b)) s m = Some y"
  shows "match_items (Many p 0 None True # items) prev (b @ s) m = Some y"
proof -
  have "takeWhile p (b @ s) = b" using assms(1,2) by (cases s) (simp_all add: list_all_iff takeWhile_append)
  with repeat_all(1) [of p "b @ s"] assms(3) show ?thesis
    by (simp add: first_some_first [OF repeat_all(2)])
qed

definition value_forms :: "(16 word \<Rightarrow> bool) \<Rightarrow> item list" where
  "value_forms stop = [Choice [quoted_value 0x22 5, quoted_value 0x27 7, [Many (\<lambda>c. \<not> stop c) 0 None True]]]"

definition name_tail :: "(16 word \<Rightarrow> bool) \<Rightarrow> item list" where
  "name_tail stop = [Mark 2, Same 0 1, Mark 3, Many is_tab_or_space 0 None True, Unit (\<lambda>c. c = 0x3A \<or> c = 0x3D),
     Many is_tab_or_space 0 None True, Mark 4] @ value_forms stop"

definition opens_value :: "jstring \<Rightarrow> bool" where
  "opens_value v \<longleftrightarrow> (case v of [] \<Rightarrow> True | c # _ \<Rightarrow> \<not> is_tab_or_space c \<and> c \<noteq> 0x22 \<and> c \<noteq> 0x27)"

text \<open>
  A value as it stands before \<open>rest\<close>: between quotes, holding neither that quote nor a line end; or
  bare, starting with neither a blank nor a quote and reaching to the next unit that ends a value.
\<close>

definition value_between :: "(16 word \<Rightarrow> bool) \<Rightarrow> jstring \<Rightarrow> jstring \<Rightarrow> jstring \<Rightarrow> bool" where
  "value_between stop q v rest \<longleftrightarrow>
     (q = [0x22] \<or> q = [0x27]) \<and> list_all (\<lambda>c. c \<noteq> hd q \<and> \<not> is_line_end c) v \<or>
     q = [] \<and> opens_value v \<and> list_all (\<lambda>c. \<not> stop c) v \<and> (rest = [] \<or> stop (hd rest))"

definition value_marks :: "jstring \<Rightarrow> jstring \<Rightarrow> jstring \<Rightarrow> marks" where
  "value_marks q v rest =
     (if q = [0x22] then [(6, q @ rest), (5, v @ q @ rest)] else if q = [0x27] then [(8, q @ rest), (7, v @ q @ rest)] else [])"

lemma quoted_matches:
  assumes "list_all (\<lambda>c. c \<noteq> q \<and> \<not> is_line_end c) v"
  shows "match_items (quoted_value q i) prev (q # v @ q # rest) m = Some ((Suc i, q # rest) # (i, v @ q # rest) # m, rest)"
  unfolding quoted_value_def using assms
  by (simp del: match_items.simps(3), subst match_many) (auto simp: list_all_iff)

lemma value_matches:
  assumes v: "value_between stop q v rest" and stop: "\<And>c. stop c \<Longrightarrow> c \<noteq> 0x22 \<and> c \<noteq> 0x27"
  shows "match_items (value_forms stop) prev (q @ v @ q @ rest) m = Some (value_marks q v rest @ m, rest)"
proof -
  have other: "match_items (quoted_value q i) prev s m = None" if "case s of [] \<Rightarrow> True | c # _ \<Rightarrow> c \<noteq> q" for q i s
    using that by (simp add: quoted_value_def split: list.splits)
  consider (double) "q = [0x22]" "list_all (\<lambda>c. c \<noteq> 0x22 \<and> \<not> is_line_end c) v"
    | (single) "q = [0x27]" "list_all (\<lambda>c. c \<noteq> 0x27 \<and> \<not> is_line_end c) v"
    | (bare) "q = []" "opens_value v" "list_all (\<lambda>c. \<not> stop c) v" "rest = [] \<or> stop (hd rest)"
    using v by (auto simp: value_between_def)
  then show ?thesis
  proof cases
    case double
    then show ?thesis using quoted_matches [OF double(2)] by (simp add: value_forms_def value_marks_def)
  next
    case single
    then show ?thesis using quoted_matches [OF single(2)] by (simp add: value_forms_def value_marks_def other)
  next
    case bare
    have "case v @ rest of [] \<Rightarrow> True | c # _ \<Rightarrow> c \<noteq> 0x22 \<and> c \<noteq> 0x27"
      using bare(2,4) stop [of "hd rest"] by (auto simp: opens_value_def split: list.splits)
    then have "match_items (quoted_value 0x22 5) prev (v @ rest) m = None" "match_items (quoted_value 0x27 7) prev (v @ rest) m = None"
      using other by (auto split: list.splits)
    moreover have "match_items [Many (\<lambda>c. \<not> stop c) 0 None True] prev (v @ rest) m = Some (m, rest)"
      using bare(3,4) by (intro match_many) (auto split: list.splits)
    ultimately show ?thesis using bare(1) by (simp add: value_forms_def value_marks_def del: match_items.simps(3))
  qed
qed

lemma value_opens:
  assumes "value_between stop q v rest" and "\<And>c. stop c \<Longrightarrow> \<not> is_tab_or_space c"
  shows "case q @ v @ q @ rest of [] \<Rightarrow> True | c # _ \<Rightarrow> \<not> is_tab_or_space c"
  using assms by (cases v; cases rest) (auto simp: value_between_def opens_value_def is_tab_or_space_def)

definition is_separator :: "16 word \<Rightarrow> bool" where
  "is_separator c \<longleftrightarrow> c = 0x3A \<or> c = 0x3D"

lemma tail_fails:
  assumes "name_unit c"
  shows "match_items (name_tail stop) prev (c # s) [(1, a), (0, a)] = None"
proof -
  have c: "\<not> is_tab_or_space c" "c \<noteq> 0x3A" "c \<noteq> 0x3D"
    using assms by (auto simp: name_unit_def word_unit_def char_class_defs is_tab_or_space_def)
  then show ?thesis by (simp add: name_tail_def group_def repeat_none)
qed

lemma tail_needs_quote:
  "c \<noteq> q \<Longrightarrow> match_items (name_tail stop) prev (c # s) [(1, t), (0, q # t)] = None"
  by (simp add: name_tail_def group_def)

lemma tail_matches:
  assumes "list_all is_tab_or_space b1" "list_all is_tab_or_space b2" and "is_separator c"
    and v: "value_between stop q v rest" and stop: "\<And>c. stop c \<Longrightarrow> c \<noteq> 0x22 \<and> c \<noteq> 0x27 \<and> \<not> is_tab_or_space c"
  shows "match_items (name_tail stop) prev (b1 @ c # b2 @ q @ v @ q @ rest) [(1, a), (0, a)] =
    Some (value_marks q v rest @ [(4, q @ v @ q @ rest), (3, b1 @ c # b2 @ q @ v @ q @ rest),
      (2, b1 @ c # b2 @ q @ v @ q @ rest), (1, a), (0, a)], rest)"
proof -
  let ?t = "q @ v @ q @ rest"
  have c: "\<not> is_tab_or_space c" "c = 0x3A \<or> c = 0x3D" using assms(3) by (auto simp: is_separator_def is_tab_or_space_def)
  have inner: "match_items (Many is_tab_or_space 0 None True # Mark 4 # value_forms stop) p (b2 @ ?t) m =
      Some (value_marks q v rest @ (4, ?t) # m, rest)" for p m
  proof (rule match_many [OF assms(2)])
    show "match_items (Mark 4 # value_forms stop) (unit_before p (b2 @ ?t) (length b2)) ?t m = Some (value_marks q v rest @ (4, ?t) # m, rest)"
      using value_matches [OF v] stop by simp
  qed (rule value_opens [OF v], use stop in blast)
  have "match_items (Many is_tab_or_space 0 None True # Unit (\<lambda>c. c = 0x3A \<or> c = 0x3D) #
      Many is_tab_or_space 0 None True # Mark 4 # value_forms stop) p (b1 @ c # b2 @ ?t) m =
      Some (value_marks q v rest @ (4, ?t) # m, rest)" for p m
    by (rule match_many [OF assms(1)]) (use c inner in \<open>simp_all del: match_items.simps(3)\<close>)
  then show ?thesis by (simp add: name_tail_def group_def unit_before_none del: match_items.simps(3))
qed

text \<open>What the engine's case folding does not do: turn a unit of a name into one that is none, or back.\<close>

definition folds_names :: "text_host \<Rightarrow> bool" where
  "folds_names h \<longleftrightarrow> (\<forall>c u. canonicalize h c = canonicalize h u \<longrightarrow> name_unit c = name_unit u)"

definition name_here :: "text_host \<Rightarrow> jstring \<Rightarrow> jstring \<Rightarrow> bool" where
  "name_here h x s \<longleftrightarrow> map (canonicalize h) (take (length x) s) = map (canonicalize h) x"

lemma folded_units:
  assumes "folds_names h" and "map (canonicalize h) y = map (canonicalize h) x" and "list_all name_unit x"
  shows "list_all name_unit y"
  unfolding list_all_length
proof (intro allI impI)
  fix n assume n: "n < length y"
  have len: "length y = length x" using assms(2) by (metis length_map)
  have "canonicalize h (y ! n) = canonicalize h (x ! n)" using arg_cong [OF assms(2), of "\<lambda>l. l ! n"] n len by simp
  moreover have "name_unit (x ! n)" using assms(3) n len by (simp add: list_all_length)
  ultimately show "name_unit (y ! n)" using assms(1) unfolding folds_names_def by blast
qed

lemma name_within:
  assumes "folds_names h" and "name_here h x (p @ c # t)" and "list_all name_unit x" and "\<not> name_unit c"
  shows "length x \<le> length p"
proof (rule ccontr)
  assume "\<not> length x \<le> length p"
  then have "length p < length x" by simp
  then obtain j where j: "length x = length p + Suc j" using less_imp_Suc_add by fastforce
  have "list_all name_unit (take (length x) (p @ c # t))"
    by (rule folded_units [OF assms(1) assms(2) [unfolded name_here_def] assms(3)])
  then show False using assms(4) by (simp add: j)
qed

lemma name_value_split:
  "name_value h names stop = Not_After name_unit # Mark 0 # Many (\<lambda>c. c = 0x22 \<or> c = 0x27) 0 (Some 1) True #
     Mark 1 # Word_Of (canonicalize h) names # name_tail stop"
  by (simp add: name_value_def name_tail_def value_forms_def)

lemma name_matches:
  assumes names: "w \<in> set names" "list_all (list_all name_unit) names" and h: "folds_names h"
    and k: "map (canonicalize h) k = map (canonicalize h) w" "k \<noteq> []"
    and prev: "case prev of None \<Rightarrow> True | Some c \<Rightarrow> \<not> name_unit c" and u: "\<not> name_unit c"
    and tail: "\<And>p a. match_items (name_tail stop) p (c # t) [(1, a), (0, a)] = Some (mk a, rest)"
  shows "match_items (name_value h names stop) prev (k @ c # t) [] = Some (mk (k @ c # t), rest)"
proof -
  let ?s = "k @ c # t" let ?m = "[(1, ?s), (0, ?s)]" let ?y = "(mk ?s, rest)"
  let ?f = "\<lambda>w. if map (canonicalize h) (take (length w) ?s) = map (canonicalize h) w
    then match_items (name_tail stop) (unit_before prev ?s (length w)) (drop (length w) ?s) ?m else None"
  have ku: "list_all name_unit k" using folded_units [OF h k(1)] names by (simp add: list_all_iff)
  have len: "length w = length k" using k(1) by (metis length_map)
  have one: "?f w = Some ?y" using k(1) tail by (simp add: len)
  have "?f x = None \<or> ?f x = Some ?y" if x: "x \<in> set names" for x
  proof (cases "length x" "length k" rule: linorder_cases)
    case equal
    then show ?thesis using tail by simp
  next
    case less
    then have "drop (length x) ?s = k ! length x # drop (Suc (length x)) ?s" by (simp add: Cons_nth_drop_Suc nth_append)
    moreover have "name_unit (k ! length x)" using ku less by (simp add: list_all_length)
    ultimately show ?thesis using tail_fails by simp
  next
    case greater
    have "\<not> name_here h x ?s" using name_within [OF h _ _ u, of x k t] names(2) x greater by (auto simp: list_all_iff)
    then show ?thesis by (simp add: name_here_def)
  qed
  then have word: "first_some ?f names = Some ?y" using names(1) one by (intro first_some_agrees) auto
  have "\<not> (hd k = 0x22 \<or> hd k = 0x27)"
    using ku k(2) by (cases k) (auto simp: name_unit_def word_unit_def char_class_defs)
  then have quote: "repeat_counts (\<lambda>c. c = 0x22 \<or> c = 0x27) 0 (Some 1) True ?s = [0]"
    using k(2) by (intro repeat_none) (cases k; simp)
  have "match_items (Mark 0 # Many (\<lambda>c. c = 0x22 \<or> c = 0x27) 0 (Some 1) True #
     Mark 1 # Word_Of (canonicalize h) names # name_tail stop) prev ?s [] = first_some ?f names"
    by (simp only: match_items.simps quote first_some.simps option.case drop_0 unit_before_none) (simp split: option.splits)
  then show ?thesis using word prev by (cases prev) (simp_all add: name_value_split del: match_items.simps(3,4,7))
qed

text \<open>Before a name nothing matches.\<close>

definition mentions :: "text_host \<Rightarrow> jstring list \<Rightarrow> jstring \<Rightarrow> bool" where
  "mentions h names s \<longleftrightarrow> list_ex (\<lambda>x. list_ex (\<lambda>i. name_here h x (drop i s)) [0..<Suc (length s)]) names"

definition ends_name :: "jstring \<Rightarrow> bool" where
  "ends_name s \<longleftrightarrow> s = [] \<or> \<not> name_unit (last s)"

lemma no_name_none:
  "\<forall>x \<in> set names. \<not> name_here h x s \<Longrightarrow> match_items (Word_Of (canonicalize h) names # items) prev s m = None"
  by (auto simp: name_here_def intro!: first_some_none)

lemma mentions_ConsD: "\<not> mentions h names (c # s) \<Longrightarrow> \<not> mentions h names s"
proof (rule contrapos_nn)
  assume "mentions h names s"
  then obtain x i where x: "x \<in> set names" "i \<le> length s" "name_here h x (drop i s)"
    by (auto simp: mentions_def list_ex_iff less_Suc_eq_le simp del: upt_Suc)
  then have "Suc i \<in> set [0..<Suc (length (c # s))]" "name_here h x (drop (Suc i) (c # s))" by (simp_all del: upt_Suc)
  with x(1) show "mentions h names (c # s)" unfolding mentions_def list_ex_iff by blast
qed

lemma unmentioned_here:
  assumes h: "folds_names h" and names: "list_all (list_all name_unit) names"
    and p: "\<not> mentions h names p" "p \<noteq> []" "ends_name p" and x: "x \<in> set names"
  shows "\<not> name_here h x (p @ t)"
proof
  assume at: "name_here h x (p @ t)"
  have split: "p @ t = butlast p @ last p # t" using p(2) by simp
  have "list_all name_unit x" "\<not> name_unit (last p)" using names x p(2,3) by (auto simp: list_all_iff ends_name_def)
  then have "length x \<le> length (butlast p)" using name_within [OF h at [unfolded split]] by blast
  then have "name_here h x (drop 0 p)" using at by (simp add: name_here_def)
  moreover have "(0::nat) \<in> set [0..<Suc (length p)]" by simp
  ultimately show False using p(1) x unfolding mentions_def list_ex_iff by blast
qed

lemma nothing_before:
  assumes h: "folds_names h" and names: "list_all (list_all name_unit) names"
    and p: "\<not> mentions h names (d # p)" "ends_name (d # p)"
    and k: "list_all name_unit k" and u: "\<not> name_unit c" "c \<noteq> 0x22" "c \<noteq> 0x27"
  shows "match_items (name_value h names stop) prev (d # p @ k @ c # t) [] = None"
proof -
  let ?s = "d # p @ k @ c # t"
  let ?f = "\<lambda>n. match_items (Mark 1 # Word_Of (canonicalize h) names # name_tail stop) (unit_before prev ?s n) (drop n ?s) [(0, ?s)]"
  have zero: "?f 0 = None"
    using unmentioned_here [OF h names p(1) _ p(2), of _ "k @ c # t"] by (simp add: no_name_none del: match_items.simps(4))
  have one: "?f 1 = None" if d: "d = 0x22 \<or> d = 0x27"
  proof (cases "p = []")
    case False
    have "ends_name p" using p(2) False by (simp add: ends_name_def)
    from unmentioned_here [OF h names mentions_ConsD [OF p(1)] False this, of _ "k @ c # t"]
    show ?thesis by (simp add: no_name_none del: match_items.simps(4))
  next
    case True
    let ?t = "k @ c # t"
    have "match_items (name_tail stop) pr (drop (length x) ?t) [(1, ?t), (0, d # ?t)] = None"
      if "x \<in> set names" "name_here h x ?t" for x pr
    proof -
      have "length x \<le> length k" using name_within [OF h that(2) _ u(1)] names that(1) by (simp add: list_all_iff)
      moreover have "name_unit e" if "drop (length x) k = e # s'" for e s'
        using k that in_set_dropD [of e "length x" k] by (simp add: list_all_iff)
      ultimately obtain e s' where s': "drop (length x) ?t = e # s'" "name_unit e \<or> e = c"
        by (cases "drop (length x) k") auto
      then have "e \<noteq> d" using d u by (auto simp: name_unit_def word_unit_def char_class_defs)
      then show ?thesis unfolding s'(1) by (rule tail_needs_quote)
    qed
    then have "match_items (Word_Of (canonicalize h) names # name_tail stop) (Some d) ?t [(1, ?t), (0, d # ?t)] = None"
      by (auto simp: name_here_def intro!: first_some_none)
    then show ?thesis by (simp add: True unit_before_def del: match_items.simps(4))
  qed
  have counts: "set (repeat_counts (\<lambda>c. c = 0x22 \<or> c = 0x27) 0 (Some 1) True ?s) \<subseteq> (if d = 0x22 \<or> d = 0x27 then {0, 1} else {0})"
    by (auto simp: repeat_counts_def Let_def)
  have "first_some ?f (repeat_counts (\<lambda>c. c = 0x22 \<or> c = 0x27) 0 (Some 1) True ?s) = None"
    using counts zero one by (intro first_some_none) (auto split: if_splits simp del: match_items.simps)
  then show ?thesis by (cases prev) (simp_all add: name_value_split del: match_items.simps(4) upt_Suc)
qed

lemma replace_skips:
  assumes h: "folds_names h" and names: "list_all (list_all name_unit) names"
    and k: "list_all name_unit k" and u: "\<not> name_unit c" "c \<noteq> 0x22" "c \<noteq> 0x27"
  shows "\<not> mentions h names p \<Longrightarrow> ends_name p \<Longrightarrow> replace_from (name_value h names stop) f prev (p @ k @ c # t) =
    p @ replace_from (name_value h names stop) f (if p = [] then prev else Some (last p)) (k @ c # t)"
proof (induction p arbitrary: prev)
  case (Cons d p)
  have none: "match_items (name_value h names stop) prev (d # p @ k @ c # t) [] = None"
    by (rule nothing_before [OF h names Cons.prems k u])
  have "ends_name p" using Cons.prems(2) by (cases "p = []") (simp_all add: ends_name_def)
  from Cons.IH [OF mentions_ConsD [OF Cons.prems(1)] this] show ?case
    by (subst replace_from.simps) (simp add: none)
qed simp

text \<open>
  C13. A sensitive value disappears from a text: where a key the redactor knows, written in any case,
  is mentioned for the first time and stands alone, followed by blanks, a colon or an equals sign and
  blanks, the value after it is replaced as a whole.  A quoted value ends at its quote, a bare one at
  the end of the line, at one of the delimiters \<open>,;&\<close> or at the end of the text.  What stands before,
  the key, the separator and the quotes are kept as they are written, and what follows the value is
  searched for further keys.
\<close>

theorem sensitive_value_removed:
  assumes "w \<in> set (keyNames r)" and "list_all (list_all name_unit) (keyNames r)" and "list_all (\<lambda>x. x \<noteq> []) (keyNames r)"
    and "map (canonicalize h) k = map (canonicalize h) w" and "folds_names h"
    and "\<not> mentions h (keyNames r) before" and "ends_name before"
    and "list_all is_tab_or_space b1" "is_separator c" "list_all is_tab_or_space b2"
    and "value_between (\<lambda>c. is_line_end c \<or> in_units '',;&'' c) q v rest"
  shows "replace_all (keyValue h r) replaceValue (before @ k @ b1 @ [c] @ b2 @ q @ v @ q @ rest) =
    before @ k @ b1 @ [c] @ b2 @ q @ REDACTED @ q @
    replace_from (keyValue h r) replaceValue (Some (last (k @ b1 @ [c] @ b2 @ q @ v @ q))) rest"
proof -
  let ?stop = "\<lambda>c. is_line_end c \<or> in_units '',;&'' c"
  let ?t = "b1 @ c # b2 @ q @ v @ q @ rest" and ?mk = "\<lambda>a. value_marks q v rest @ [(4, q @ v @ q @ rest),
      (3, b1 @ c # b2 @ q @ v @ q @ rest), (2, b1 @ c # b2 @ q @ v @ q @ rest), (1, a), (0, a)]"
  have stop: "?stop c \<Longrightarrow> c \<noteq> 0x22 \<and> c \<noteq> 0x27 \<and> \<not> is_tab_or_space c" for c
    by (auto simp: is_line_end_def in_units_def js_def of_char_def is_tab_or_space_def)
  have k: "k \<noteq> []" using assms(1,3,4) by (auto simp: list_all_iff)
  have ku: "list_all name_unit k" using folded_units [OF assms(5,4)] assms(1,2) by (simp add: list_all_iff)
  obtain d t where t: "?t = d # t" "is_tab_or_space d \<or> is_separator d" using assms(8,9) by (cases b1) auto
  then have d: "\<not> name_unit d" "d \<noteq> 0x22" "d \<noteq> 0x27"
    by (auto simp: is_tab_or_space_def is_separator_def name_unit_def word_unit_def char_class_defs)
  let ?prev = "if before = [] then None else Some (last before)" and ?s = "k @ ?t"
  have prev: "case ?prev of None \<Rightarrow> True | Some c \<Rightarrow> \<not> name_unit c" using assms(7) by (auto simp: ends_name_def)
  note tail = tail_matches [OF assms(8,10,9,11) stop, unfolded t(1)]
  have m: "match_items (keyValue h r) ?prev ?s [] = Some (?mk ?s, rest)"
    unfolding keyValue_def t(1) by (rule name_matches [OF assms(1,2,5,4) k prev d(1) tail])
  have skip: "replace_from (keyValue h r) replaceValue None (before @ ?s) = before @ replace_from (keyValue h r) replaceValue ?prev ?s"
    unfolding keyValue_def t(1) by (rule replace_skips [OF assms(5,2) ku d assms(6,7)])
  have r: "replaceValue (?mk ?s) = k @ b1 @ c # b2 @ q @ REDACTED @ q"
    using assms(11) by (auto simp: replaceValue_def group_text_def group_def value_marks_def value_between_def)
  have last: "unit_before ?prev ?s (length ?s - length rest) = Some (last (k @ b1 @ [c] @ b2 @ q @ v @ q))"
  proof -
    let ?w = "k @ b1 @ [c] @ b2 @ q @ v @ q"
    have "?s = ?w @ rest" "?w \<noteq> []" by simp_all
    then show ?thesis by (metis unit_before_last)
  qed
  have "replace_from (keyValue h r) replaceValue ?prev ?s = replaceValue (?mk ?s) @
      replace_from (keyValue h r) replaceValue (unit_before ?prev ?s (length ?s - length rest)) rest"
    by (subst replace_from.simps) (simp only: m option.case prod.case, simp)
  then show ?thesis unfolding replace_all_def r last using skip by simp
qed

lemma plain_host_folds: "folds_names plain_host"
proof -
  have "is_upper (c - 0x20)" if "is_lower c" for c
    using that unfolding is_lower_def is_upper_def by (auto simp: word_le_nat_alt unat_sub)
  then have "name_unit (canonicalize plain_host c) = name_unit c" for c
    by (auto simp: plain_host_def name_unit_def word_unit_def is_alnum_def)
  then show ?thesis unfolding folds_names_def by metis
qed

lemma key_units: "list_all (list_all name_unit) SENSITIVE_KEYS" "list_all (\<lambda>x. x \<noteq> []) SENSITIVE_KEYS"
  by (simp_all add: SENSITIVE_KEYS_def js_def of_char_def name_unit_def word_unit_def char_class_defs)

theorem sensitive_value_removed_witness:
  "replace_all (keyValue plain_host default_redactor) replaceValue (js ''user=bob, PassWord = hunter2;ok'') =
     js ''user=bob, PassWord = [REDACTED]'' @
     replace_from (keyValue plain_host default_redactor) replaceValue (Some 0x32) (js '';ok'')"
proof -
  have "\<not> mentions plain_host (keyNames default_redactor) (js ''user=bob, '')" by code_simp
  moreover have "js ''password'' \<in> set (keyNames default_redactor)" by (simp add: default_redactor_def SENSITIVE_KEYS_def)
  moreover have "map (canonicalize plain_host) (js ''PassWord'') = map (canonicalize plain_host) (js ''password'')"
    by (simp add: plain_host_def js_def of_char_def char_class_defs)
  moreover have "ends_name (js ''user=bob, '')" "list_all is_tab_or_space (js '' '')" "is_separator 0x3D"
    "value_between (\<lambda>c. is_line_end c \<or> in_units '',;&'' c) [] (js ''hunter2'') (js '';ok'')" by code_simp+
  ultimately have "replace_all (keyValue plain_host default_redactor) replaceValue
      (js ''user=bob, '' @ js ''PassWord'' @ js '' '' @ [0x3D] @ js '' '' @ [] @ js ''hunter2'' @ [] @ js '';ok'') =
     js ''user=bob, '' @ js ''PassWord'' @ js '' '' @ [0x3D] @ js '' '' @ [] @ REDACTED @ [] @
     replace_from (keyValue plain_host default_redactor) replaceValue
       (Some (last (js ''PassWord'' @ js '' '' @ [0x3D] @ js '' '' @ [] @ js ''hunter2'' @ []))) (js '';ok'')"
    using key_units plain_host_folds by (intro sensitive_value_removed [of "js ''password''"]) (simp_all add: default_redactor_def)
  then show ?thesis by (simp add: js_def of_char_def REDACTED_def)
qed

end
