(* ===== verification/Session_Log.thy ===== *)
theory Session_Log
  imports Session Redactor_Properties Lifecycle
begin

text \<open>
  What a session leaves in its sink.  The interface of the sink is the locale \<open>event_log\<close>: a write that
  returns appends the event to the log, a write that throws leaves it, nothing else touches it, and a
  condition on the state of the sink is kept throughout.  Over every such sink the log of a session is a trace of the abstract lifecycle, whatever operations
  are called in whatever order.
\<close>

section \<open>What redaction leaves of an event\<close>

lemma session_started_kind: "read_session_started q = Inr x \<Longrightarrow> \<exists>p. x = SessionStarted p"
  by (auto simp: read_session_started_def split: json.split_asm list.split_asm if_split_asm elim!: bind_r_InrE)

lemma session_finished_kind: "read_session_finished q = Inr x \<Longrightarrow> \<exists>p. x = SessionFinished p"
  by (auto simp: read_session_finished_def Let_def split: option.split_asm list.split_asm if_split_asm elim!: bind_r_InrE)

lemma attempt_started_kind: "read_attempt_started q = Inr x \<Longrightarrow> \<exists>p. x = AttemptStarted p"
  by (auto simp: read_attempt_started_def split: json.split_asm list.split_asm if_split_asm elim!: bind_r_InrE)

lemma attempt_finished_kind: "read_attempt_finished q = Inr x \<Longrightarrow> \<exists>p. x = AttemptFinished p"
  by (auto simp: read_attempt_finished_def split: json.split_asm list.split_asm if_split_asm elim!: bind_r_InrE)

lemma step_started_kind: "read_step_started q = Inr x \<Longrightarrow> \<exists>p. x = StepStarted p"
  by (auto simp: read_step_started_def split: json.split_asm list.split_asm if_split_asm elim!: bind_r_InrE)

lemma step_finished_kind: "read_step_finished q = Inr x \<Longrightarrow> \<exists>p. x = StepFinished p"
  by (auto simp: read_step_finished_def split: json.split_asm list.split_asm if_split_asm elim!: bind_r_InrE)

lemma attachment_added_kind: "read_attachment_added q = Inr x \<Longrightarrow> \<exists>p. x = AttachmentAdded p"
  by (auto simp: read_attachment_added_def split: json.split_asm list.split_asm if_split_asm elim!: bind_r_InrE)

lemma scope_failed_kind: "read_scope_failed q = Inr x \<Longrightarrow> \<exists>p. x = ScopeFailed p"
  by (auto simp: read_scope_failed_def Let_def split: option.split_asm list.split_asm if_split_asm elim!: bind_r_InrE)

lemmas read_kinds = session_started_kind session_finished_kind attempt_started_kind attempt_finished_kind
  step_started_kind step_finished_kind attachment_added_kind scope_failed_kind

lemma readPayload_kind:
  assumes "readPayload t q ign = Inr x"
  shows "session_end x \<noteq> None \<longleftrightarrow> t = js ''session.finished''"
    and "x = RunFinished \<longleftrightarrow> t = js ''run.finished''"
    and "starts_session x \<longleftrightarrow> t = js ''session.started''"
  using assms by (auto simp: readPayload_def split: if_split_asm dest!: read_kinds)

lemma envelope_strings:
  "requiredString (envelope_obj e) (js ''protocolVersion'') [] = Inr (protocolVersion e)"
  "requiredString (envelope_obj e) (js ''eventType'') [] = Inr (payload_type (payload e))"
  "requiredString (envelope_obj e) (js ''eventId'') [] = Inr (eventId e)"
  "requiredString (envelope_obj e) (js ''runId'') [] = Inr (runId e)"
  "requiredString (envelope_obj e) (js ''sessionId'') [] = Inr (sessionId e)"
  "requiredString (envelope_obj e) (js ''occurredAt'') [] = Inr (occurredAt e)"
  by (simp_all add: envelope_obj_def eventType_def codec_simps)

lemma envelope_sequence: "integral (envelope_obj e) (js ''sequence'') [] = Inr i \<Longrightarrow> i = sequence e"
  by (auto simp: integral_def envelope_obj_def codec_simps split: option.split_asm if_split_asm elim!: bind_r_InrE)

lemma envelope_read:
  assumes "eventFromObject (eventToObject e) = Inr x"
  shows "runId x = runId e" "sessionId x = sessionId e" "sequence x = sequence e"
    and "\<exists>q ign. readPayload (payload_type (payload e)) q ign = Inr (payload x)"
  using assms unfolding eventToObject_omit
  by (auto simp: envelope_strings read_identifier_def read_version_def
      split: option.split_asm json.split_asm if_split_asm elim!: bind_r_InrE) (blast dest: envelope_sequence)+

text \<open>What the caller may emit is a known event: \<open>EventInput\<close> has no unknown ones.\<close>

fun is_input :: "event_payload \<Rightarrow> bool" where
  "is_input (UnknownPayload _ _) = False"
| "is_input _ = True"

lemma input_types:
  assumes "is_input p"
  shows "payload_type p = js ''session.finished'' \<longleftrightarrow> session_end p \<noteq> None"
    and "payload_type p = js ''run.finished'' \<longleftrightarrow> p = RunFinished"
    and "payload_type p = js ''session.started'' \<longleftrightarrow> starts_session p"
  using assms by (cases p; simp)+

definition known_event :: "event \<Rightarrow> bool" where
  "known_event e \<longleftrightarrow> wf_event e \<and> is_input (payload e)"

lemma readPayload_input:
  assumes "readPayload (payload_type p) q ign = Inr x" and "is_input p"
  shows "is_input x"
  using assms by (cases p) (auto simp: readPayload_def dest!: read_kinds)

lemma redacted_event:
  assumes "redactEvent h r e = Inr x" and "is_input (payload e)"
  shows "runId x = runId e" "sessionId x = sessionId e" "sequence x = sequence e" "known_event x"
    and "session_end (payload x) \<noteq> None \<longleftrightarrow> session_end (payload e) \<noteq> None"
    and "payload x = RunFinished \<longleftrightarrow> payload e = RunFinished"
    and "starts_session (payload x) \<longleftrightarrow> starts_session (payload e)"
proof -
  let ?e = "red_event (redactText h r) e"
  note read = assms(1) [unfolded redactEvent_typed]
  have same: "runId ?e = runId e" "sessionId ?e = sessionId e" "sequence ?e = sequence e"
    "payload_type (payload ?e) = payload_type (payload e)" by (simp_all add: red_event_def red_payload_type)
  show "runId x = runId e" "sessionId x = sessionId e" "sequence x = sequence e"
    using envelope_read(1-3) [OF read] by (simp_all add: same)
  obtain q ign where p: "readPayload (payload_type (payload e)) q ign = Inr (payload x)"
    using envelope_read(4) [OF read] unfolding same by blast
  show "known_event x" using eventFromObject_wf [OF read] readPayload_input [OF p assms(2)] by (simp add: known_event_def)
  note k = readPayload_kind [OF p] input_types [OF assms(2)]
  show "session_end (payload x) \<noteq> None \<longleftrightarrow> session_end (payload e) \<noteq> None"
    "payload x = RunFinished \<longleftrightarrow> payload e = RunFinished"
    "starts_session (payload x) \<longleftrightarrow> starts_session (payload e)" using k by simp_all
qed

section \<open>The abstract lifecycle\<close>

definition log_phase :: "event list \<Rightarrow> session_phase" where
  "log_phase es = (if \<exists>e \<in> set es. payload e = RunFinished then RunEnded
     else if \<exists>e \<in> set es. session_end (payload e) \<noteq> None then SessionEnded else Active)"

fun phase_allows :: "session_phase \<Rightarrow> event_payload \<Rightarrow> bool" where
  "phase_allows Active p = (p \<noteq> RunFinished)"
| "phase_allows SessionEnded p = (p = RunFinished)"
| "phase_allows _ p = False"

definition well_placed :: "'s session_options \<Rightarrow> event list \<Rightarrow> event \<Rightarrow> bool" where
  "well_placed cf past e \<longleftrightarrow> runId e = so_runId cf \<and> sessionId e = so_sessionId cf \<and>
     sequence e = int (length past) + 1 \<and> known_event e \<and> utf8_length (stringifyEvent e) + 1 \<le> so_maxEventBytes cf \<and>
     phase_allows (log_phase past) (payload e)"

definition session_trace :: "'s session_options \<Rightarrow> event list \<Rightarrow> bool" where
  "session_trace cf es \<longleftrightarrow> (\<forall>i < length es. well_placed cf (take i es) (es ! i))"

lemma session_trace_Nil [simp]: "session_trace cf []"
  by (simp add: session_trace_def)

lemma session_trace_snoc [simp]: "session_trace cf (es @ [e]) \<longleftrightarrow> session_trace cf es \<and> well_placed cf es e"
  by (auto simp: session_trace_def less_Suc_eq nth_append)

lemma log_phase_Nil [simp]: "log_phase [] = Active"
  by (simp add: log_phase_def)

lemma log_phase_snoc:
  "log_phase (es @ [e]) = (if log_phase es = RunEnded \<or> payload e = RunFinished then RunEnded
     else if log_phase es = SessionEnded \<or> session_end (payload e) \<noteq> None then SessionEnded else Active)"
  by (auto simp: log_phase_def)

section \<open>Reports do not matter\<close>

lemma problem_of_same [simp]:
  "rs_sequence (problem_of k m c s) = rs_sequence s" "rs_written (problem_of k m c s) = rs_written s"
  "rs_phase (problem_of k m c s) = rs_phase s" "rs_outcomeLost (problem_of k m c s) = rs_outcomeLost s"
  "rs_sink (problem_of k m c s) = rs_sink s"
  by (simp_all add: problem_of_def)

lemma drop_one_same [simp]:
  "rs_sequence (drop_one s) = rs_sequence s" "rs_written (drop_one s) = rs_written s" "rs_phase (drop_one s) = rs_phase s"
  "rs_outcomeLost (drop_one s) = rs_outcomeLost s" "rs_sink (drop_one s) = rs_sink s"
  by (simp_all add: drop_one_def)

lemma accepts_cases:
  obtains (yes) "acceptsSessionEvents what s = (True, s)" "rs_phase s = Active" "\<not> rs_outcomeLost s"
    | (no) s' where "acceptsSessionEvents what s = (False, s')" "rs_sink s' = rs_sink s" "rs_sequence s' = rs_sequence s"
        "rs_written s' = rs_written s" "rs_phase s' = rs_phase s" "rs_outcomeLost s' = rs_outcomeLost s"
        "rs_outcomeLost s \<or> rs_phase s \<noteq> Active"
  by (cases "rs_outcomeLost s"; cases "rs_phase s = Active") (auto simp: acceptsSessionEvents_def intro: that)

section \<open>The interface of the sink\<close>

locale event_log =
  fixes cf :: "'s session_options" and logged :: "'s \<Rightarrow> event list" and good :: "'s \<Rightarrow> bool"
  assumes write_logged:
      "good k \<Longrightarrow> sink_write (so_sink cf) e k = (Inr u, k') \<Longrightarrow> logged k' = logged k @ [e] \<and> good k'"
    and write_refused:
      "good k \<Longrightarrow> sink_write (so_sink cf) e k = (Inl x, k') \<Longrightarrow> logged k' = logged k \<and> good k'"
    and store_keeps: "good k \<Longrightarrow> storeAttachment (so_sink cf) b k = (r, k') \<Longrightarrow> logged k' = logged k \<and> good k'"
    and stream_keeps: "good k \<Longrightarrow> storeAttachmentStream (so_sink cf) p k = (r, k') \<Longrightarrow> logged k' = logged k \<and> good k'"
    and close_keeps: "good k \<Longrightarrow> sink_close (so_sink cf) k = (r', k') \<Longrightarrow> logged k' = logged k \<and> good k'"
begin

definition log_of :: "'s report_session \<Rightarrow> event list" where
  "log_of s = logged (rs_sink s)"

definition session_inv :: "'s report_session \<Rightarrow> bool" where
  "session_inv s \<longleftrightarrow> session_trace cf (log_of s) \<and> rs_sequence s = int (length (log_of s)) \<and>
     rs_written s = length (log_of s) \<and> (rs_phase s = log_phase (log_of s) \<or> rs_phase s = Closed) \<and> good (rs_sink s)"

lemma session_inv_cong:
  assumes "log_of s' = log_of s" "rs_sequence s' = rs_sequence s" "rs_written s' = rs_written s" "rs_phase s' = rs_phase s"
    and "good (rs_sink s') = good (rs_sink s)"
  shows "session_inv s' = session_inv s"
  using assms by (simp add: session_inv_def)

lemma inv_reports [simp]:
  "session_inv (problem_of k m c s) = session_inv s" "log_of (problem_of k m c s) = log_of s"
  "session_inv (drop_one s) = session_inv s" "log_of (drop_one s) = log_of s"
  "session_inv (s\<lparr>rs_outcomeLost := b\<rparr>) = session_inv s" "log_of (s\<lparr>rs_outcomeLost := b\<rparr>) = log_of s"
  by (simp_all add: session_inv_def log_of_def)

text \<open>One write: the log is as before, or one event longer.\<close>

lemma write_cases:
  assumes "write_event cf p report s = (r, s')" and "is_input p" and "good (rs_sink s)"
  obtains (kept) "log_of s' = log_of s" "rs_sequence s' = rs_sequence s" "rs_written s' = rs_written s"
      "rs_phase s' = rs_phase s" "rs_outcomeLost s' = rs_outcomeLost s" "\<forall>n. r \<noteq> Inr (Was_Written, n)"
      "good (rs_sink s')"
    | (written) e n where "r = Inr (Was_Written, n)" "log_of s' = log_of s @ [e]" "rs_sequence s' = rs_sequence s + 1"
      "rs_written s' = rs_written s + 1" "rs_phase s' = rs_phase s" "rs_outcomeLost s' = rs_outcomeLost s"
      "runId e = so_runId cf" "sessionId e = so_sessionId cf" "sequence e = rs_sequence s + 1" "known_event e"
      "utf8_length (stringifyEvent e) + 1 \<le> so_maxEventBytes cf"
      "session_end (payload e) \<noteq> None \<longleftrightarrow> session_end p \<noteq> None" "payload e = RunFinished \<longleftrightarrow> p = RunFinished"
      "redactEvent (so_host cf) (so_redactor cf) (candidate_event cf p s) = Inr e" "good (rs_sink s')"
proof (cases "redactEvent (so_host cf) (so_redactor cf) (candidate_event cf p s)")
  case (Inl e)
  with assms(1,3) show thesis by (intro kept) (auto simp: write_event_def Let_def log_of_def)
next
  case (Inr x)
  have input: "is_input (payload (candidate_event cf p s))" using assms(2) by (simp add: candidate_event_def)
  note x = redacted_event [OF Inr input]
  show thesis
  proof (cases "utf8_length (stringifyEvent x) + 1 > so_maxEventBytes cf")
    case True
    with assms(1,3) Inr show thesis by (intro kept) (auto simp: write_event_def Let_def log_of_def split: if_split_asm)
  next
    case False
    obtain res k where w: "sink_write (so_sink cf) x (rs_sink s) = (res, k)" by fastforce
    show thesis
    proof (cases res)
      case (Inl e)
      with assms(1) Inr False w write_refused [OF assms(3), of x e k] show thesis
        by (intro kept) (auto simp: write_event_def Let_def log_of_def)
    next
      case (Inr u)
      note log = write_logged [OF assms(3), of x u k]
      have s': "r = Inr (Was_Written, utf8_length (stringifyEvent x) + 1)"
        "s' = s\<lparr>rs_calls := rs_calls s + 1, rs_sink := k, rs_sequence := rs_sequence s + 1, rs_written := rs_written s + 1\<rparr>"
        using assms(1) \<open>redactEvent _ _ _ = Inr x\<close> False w Inr by (auto simp: write_event_def Let_def)
      show thesis
        by (rule written [OF s'(1), of x]) (use x log w Inr False \<open>redactEvent _ _ _ = Inr x\<close> in \<open>simp_all add: s'(2) log_of_def candidate_event_def\<close>)
    qed
  qed
qed

lemma written_inv:
  assumes "session_inv s" and "phase_allows (rs_phase s) p" and "log_of s' = log_of s @ [e]"
    and "rs_sequence s' = rs_sequence s + 1" "rs_written s' = rs_written s + 1"
    and "runId e = so_runId cf" "sessionId e = so_sessionId cf" "sequence e = rs_sequence s + 1" "known_event e"
      "utf8_length (stringifyEvent e) + 1 \<le> so_maxEventBytes cf"
    and "payload e = RunFinished \<longleftrightarrow> p = RunFinished"
    and "rs_phase s' = log_phase (log_of s')" and "good (rs_sink s')"
  shows "session_inv s'"
proof -
  have ph: "rs_phase s = log_phase (log_of s)" using assms(1,2) by (auto simp: session_inv_def)
  have "phase_allows (log_phase (log_of s)) (payload e)"
    using assms(2,11) unfolding ph by (cases "log_phase (log_of s)") auto
  with assms show ?thesis by (simp add: session_inv_def well_placed_def)
qed

end

end
