(* ===== verification/Session_Properties.thy ===== *)
theory Session_Properties
  imports Session_Log
begin

text \<open>
  Every operation of a session keeps the invariant of \<open>Session_Log\<close>; the operations as a step relation;
  what finishing guarantees.
\<close>

section \<open>The status survives\<close>

lemma session_finished_status:
  assumes "read_session_finished (write_session_finished p) = Inr x"
  shows "\<exists>q. x = SessionFinished q \<and> sf_status q = sf_status p"
  using assms
  by (auto simp: read_session_finished_def write_session_finished_def codec_simps Let_def
      split: option.split_asm if_split_asm elim!: bind_r_InrE)

lemma redacted_status:
  assumes "redactEvent h r e = Inr x" and "payload e = SessionFinished p"
  shows "\<exists>q. payload x = SessionFinished q \<and> sf_status q = sf_status p"
proof -
  let ?p = "p\<lparr>sf_failures := map_option (map (red_failure (redactText h r))) (sf_failures p)\<rparr>"
  let ?e = "e\<lparr>payload := SessionFinished ?p\<rparr>"
  have "eventFromObject (eventToObject ?e) = Inr x"
    using assms unfolding redactEvent_typed by (simp add: red_event_def)
  then have "read_session_finished (write_session_finished ?p) = Inr (payload x)"
    unfolding eventToObject_omit
    by (auto simp: envelope_strings envelope_payload readPayload_def split: if_split_asm elim!: bind_r_InrE)
  from session_finished_status [OF this] show ?thesis by simp
qed

section \<open>Every operation keeps the invariant\<close>

lemma write_attempt_cases [case_names threw written large sink]:
  fixes r :: "protocol_error + write_result \<times> nat"
  obtains x where "r = Inl x" | n where "r = Inr (Was_Written, n)" | n where "r = Inr (Was_Too_Large, n)"
    | n where "r = Inr (Was_Sink_Failure, n)"
proof (cases r)
  case (Inr y)
  obtain w n where "y = (w, n)" by (cases y)
  with Inr that show thesis by (cases w) auto
qed (use that in blast)

context event_log
begin

lemma inv_good: "session_inv s \<Longrightarrow> good (rs_sink s)"
  by (simp add: session_inv_def)

lemma write_inv:
  assumes "session_inv s" and "rs_phase s = Active" and "is_input p" "p \<noteq> RunFinished" "session_end p = None"
    and "write_event cf p report s = (r, s')"
  shows "session_inv s' \<and> rs_phase s' = Active \<and> rs_outcomeLost s' = rs_outcomeLost s"
  using assms(6,3) inv_good [OF assms(1)]
proof (cases rule: write_cases)
  case kept
  then have "session_inv s' = session_inv s" using inv_good [OF assms(1)] by (intro session_inv_cong) simp_all
  with assms(1,2) kept(4,5) show ?thesis by simp
next
  case (written e n)
  have "log_phase (log_of s) = Active" using assms(1,2) by (simp add: session_inv_def)
  then have "rs_phase s' = log_phase (log_of s')"
    using assms(2,4,5) written(2,5,12,13) by (simp add: log_phase_snoc)
  moreover have "phase_allows (rs_phase s) p" using assms(2,4) by simp
  ultimately have "session_inv s'" using written_inv [OF assms(1) _ written(2-4,7-11,13) _ written(15)] by blast
  with assms(2) written(5,6) show ?thesis by simp
qed

lemma write_end:
  assumes "session_inv s" and "rs_phase s = Active" and "write_event cf (SessionFinished p) report s = (r, s')"
  obtains (kept) "session_inv s'" "log_of s' = log_of s" "rs_phase s' = Active" "rs_outcomeLost s' = rs_outcomeLost s"
      "\<forall>n. r \<noteq> Inr (Was_Written, n)"
    | (written) e n q where "r = Inr (Was_Written, n)" "session_inv (s'\<lparr>rs_phase := SessionEnded\<rparr>)"
      "log_of s' = log_of s @ [e]" "payload e = SessionFinished q" "sf_status q = sf_status p"
      "rs_outcomeLost s' = rs_outcomeLost s"
proof -
  have input: "is_input (SessionFinished p)" by simp
  from assms(3) input inv_good [OF assms(1)] show thesis
  proof (cases rule: write_cases)
  case kept
  with assms inv_good [OF assms(1)] show ?thesis by (intro that(1)) (simp_all add: session_inv_cong [of s' s])
next
  case 3: (written e n)
  have ph: "log_phase (log_of s) = Active" using assms(1,2) by (simp add: session_inv_def)
  have end': "log_of (s'\<lparr>rs_phase := SessionEnded\<rparr>) = log_of s @ [e]" using 3(2) by (simp add: log_of_def)
  have ne: "payload e \<noteq> RunFinished" "session_end (payload e) \<noteq> None" using 3(12,13) by simp_all
  have "session_inv (s'\<lparr>rs_phase := SessionEnded\<rparr>)"
    by (rule written_inv [OF assms(1) _ end' _ _ 3(7-11,13)])
      (use ne in \<open>simp_all add: assms(2) end' ph 3(3,4,15) log_phase_snoc\<close>)
  moreover obtain q where "payload e = SessionFinished q" "sf_status q = sf_status p"
    using redacted_status [OF 3(14)] by (auto simp: candidate_event_def)
  ultimately show ?thesis using 3 by (intro that(2) [of n e q]) simp_all
  qed
qed

definition ended_with :: "session_status \<Rightarrow> 's report_session \<Rightarrow> (protocol_error + bool) \<times> 's report_session \<Rightarrow> bool" where
  "ended_with status s r \<longleftrightarrow> session_inv (snd r) \<and>
     (case fst r of
        Inr True \<Rightarrow> rs_phase (snd r) = SessionEnded \<and> (\<exists>e q. log_of (snd r) = log_of s @ [e] \<and>
          payload e = SessionFinished q \<and> sf_status q = Some status)
      | Inr False \<Rightarrow> log_of (snd r) = log_of s \<and> rs_phase (snd r) = Active \<and> rs_outcomeLost (snd r)
      | Inl _ \<Rightarrow> log_of (snd r) = log_of s \<and> rs_phase (snd r) = Active)"

lemma ended_with_cong: "log_of s' = log_of s \<Longrightarrow> ended_with status s' r = ended_with status s r"
  unfolding ended_with_def by (erule ssubst) (rule refl)

lemma finish_loop_result:
  assumes "session_inv s" and "rs_phase s = Active" and "sf_status c = Some status"
  shows "ended_with status s (finish_loop cf status c s)"
  using assms
proof (induction "outcome_parts c" arbitrary: c s rule: less_induct)
  case less
  obtain r s1 where w: "write_event cf (SessionFinished c) False s = (r, s1)" by fastforce
  from less.prems(1,2) w show ?case
  proof (cases rule: write_end)
    case (written e n q)
    have "finish_loop cf status c s = (Inr True, s1\<lparr>rs_phase := SessionEnded\<rparr>)"
      by (subst finish_loop.simps) (simp add: w written(1))
    then show ?thesis using written less.prems(3) by (simp add: ended_with_def log_of_def)
  next
    case kept
    have again: "ended_with status s (finish_loop cf status c' (problem_of k m None s1))"
      if "outcome_parts c' < outcome_parts c" "sf_status c' = Some status" for c' k m
    proof -
      have "ended_with status (problem_of k m None s1) (finish_loop cf status c' (problem_of k m None s1))"
        using less.hyps [OF that(1), of "problem_of k m None s1"] kept that(2) by simp
      then show ?thesis by (rule ended_with_cong [THEN iffD1, rotated]) (simp add: kept(2))
    qed
    show ?thesis
    proof (cases r rule: write_attempt_cases)
      case (written n)
      then show ?thesis using kept(5) by simp
    next
      case (threw x)
      have "finish_loop cf status c s = (Inl x, s1)" by (subst finish_loop.simps) (simp add: w threw)
      then show ?thesis using kept by (simp add: ended_with_def)
    next
      case (sink n)
      then show ?thesis using kept by (subst finish_loop.simps) (simp add: w ended_with_def)
    next
      case (large n)
      show ?thesis
      proof (cases "has_failures c")
        case True
        then show ?thesis
          by (subst finish_loop.simps)
            (simp add: w large Let_def, rule again, simp_all add: outcome_parts_def has_failures_def)
      next
        case False
        show ?thesis
        proof (cases "sf_rawStatus c = None")
          case True
          then show ?thesis using kept False by (subst finish_loop.simps) (simp add: w large Let_def ended_with_def)
        next
          case raw: False
          then show ?thesis using False
            by (subst finish_loop.simps)
              (simp add: w large Let_def, rule again, simp_all add: outcome_parts_def has_failures_def)
        qed
      qed
    qed
  qed
qed

text \<open>An operation that keeps the invariant, and what it may do to the log.\<close>

definition keeps :: "'s report_session \<Rightarrow> 's report_session \<Rightarrow> bool" where
  "keeps s s' \<longleftrightarrow> session_inv s' \<and> (\<exists>more. log_of s' = log_of s @ more) \<and>
     (rs_outcomeLost s \<or> rs_phase s = Closed \<longrightarrow> log_of s' = log_of s) \<and>
     (rs_outcomeLost s \<longrightarrow> rs_outcomeLost s') \<and> (rs_phase s = Closed \<longrightarrow> rs_phase s' = Closed)"

lemma keepsI:
  "session_inv s' \<Longrightarrow> log_of s' = log_of s \<Longrightarrow> rs_outcomeLost s \<longrightarrow> rs_outcomeLost s' \<Longrightarrow>
     rs_phase s = Closed \<longrightarrow> rs_phase s' = Closed \<Longrightarrow> keeps s s'"
  by (simp add: keeps_def)

lemma keeps_refl: "session_inv s \<Longrightarrow> keeps s s"
  by (simp add: keeps_def)

lemma keeps_trans: "keeps a b \<Longrightarrow> keeps b c \<Longrightarrow> keeps a c"
  unfolding keeps_def by (elim conjE exE) (intro conjI impI; auto)

lemma keeps_inv: "keeps s s' \<Longrightarrow> session_inv s'"
  by (simp add: keeps_def)

lemma accepts_keeps:
  assumes "session_inv s" and "acceptsSessionEvents what s = (False, s')"
  shows "keeps s s'"
proof (cases what s rule: accepts_cases)
  case yes
  with assms(2) show ?thesis by simp
next
  case (no s2)
  then have "s' = s2" using assms(2) by simp
  then show ?thesis using no assms(1) by (intro keepsI) (simp_all add: log_of_def session_inv_def)
qed

lemma accepts_True: "acceptsSessionEvents what s = (True, s') \<Longrightarrow> s' = s \<and> rs_phase s = Active \<and> \<not> rs_outcomeLost s"
  by (cases what s rule: accepts_cases) simp_all

lemma active_keepsI:
  "session_inv s' \<Longrightarrow> \<exists>more. log_of s' = log_of s @ more \<Longrightarrow> rs_phase s = Active \<Longrightarrow> \<not> rs_outcomeLost s \<Longrightarrow> keeps s s'"
  by (simp add: keeps_def)

lemma ended_with_keeps:
  assumes "rs_phase s = Active" "\<not> rs_outcomeLost s" and "ended_with status s r"
  shows "keeps s (snd r)"
  using assms by (intro active_keepsI) (auto simp: ended_with_def split: sum.splits bool.splits)

lemma finish_session_keeps:
  assumes inv: "session_inv s"
  shows "keeps s (snd (finish_session cf p s)) \<and>
    (fst (finish_session cf p s) = Inr True \<longrightarrow> rs_phase (snd (finish_session cf p s)) = SessionEnded)"
proof (cases "outcomeViolation p")
  case (Some v)
  then show ?thesis using inv by (auto simp: finish_session_def intro!: keepsI)
next
  case None
  obtain b s0 where a: "acceptsSessionEvents (js ''event session.finished'') s = (b, s0)" by fastforce
  show ?thesis
  proof (cases b)
    case False
    then show ?thesis using accepts_keeps [OF inv] a None by (simp add: finish_session_def)
  next
    case True
    then have s: "s0 = s" "rs_phase s = Active" "\<not> rs_outcomeLost s" using accepts_True [of _ s s0] a by auto
    show ?thesis
    proof (cases "sf_status p")
      case (Some status)
      have f: "finish_session cf p s = finish_loop cf status p s" using None a True s(1) Some by (simp add: finish_session_def)
      note e = finish_loop_result [OF inv s(2) Some]
      show ?thesis unfolding f using ended_with_keeps [OF s(2,3) e] e by (auto simp: ended_with_def)
    next
      case no: None
      obtain r s1 where w: "write_event cf (SessionFinished p) True s = (r, s1)" by fastforce
      note f = finish_session_def [of cf p s] None a True s(1) no w
      from inv s(2) w show ?thesis
      proof (cases rule: write_end)
        case kept
        then have k: "keeps s s1" using s by (intro active_keepsI) simp_all
        show ?thesis using k kept(5) f by (cases r rule: write_attempt_cases) simp_all
      next
        case (written e n q)
        then have "keeps s (s1\<lparr>rs_phase := SessionEnded\<rparr>)" using s by (intro active_keepsI) (simp_all add: log_of_def)
        then show ?thesis using f written(1) by simp
      qed
    qed
  qed
qed

lemma run_finished_grows:
  assumes inv: "session_inv s"
  shows "session_inv (snd (write_run_finished cf s)) \<and> (\<exists>more. log_of (snd (write_run_finished cf s)) = log_of s @ more) \<and>
    (rs_phase s = Closed \<longrightarrow> log_of (snd (write_run_finished cf s)) = log_of s \<and> rs_phase (snd (write_run_finished cf s)) = Closed)"
proof (cases "rs_phase s = SessionEnded")
  case False
  then show ?thesis using inv by (auto simp: write_run_finished_def)
next
  case True
  obtain r s1 where w: "write_event cf RunFinished True s = (r, s1)" by fastforce
  have input: "is_input RunFinished" by simp
  from w input inv_good [OF inv] show ?thesis
  proof (cases rule: write_cases)
    case kept
    then have "session_inv s1" using inv session_inv_cong [of s1 s] inv_good [OF inv] by simp
    then show ?thesis using kept w True by (cases r rule: write_attempt_cases) (simp_all add: write_run_finished_def)
  next
    case (written e n)
    let ?s = "s1\<lparr>rs_phase := RunEnded\<rparr>"
    have end': "log_of ?s = log_of s @ [e]" using written(2) by (simp add: log_of_def)
    have "session_inv ?s"
      by (rule written_inv [OF inv _ end' _ _ written(7-11,13)])
        (use written(13) in \<open>simp_all add: True end' written(3,4,15) log_phase_snoc\<close>)
    then show ?thesis using w written(1) True end' by (simp add: write_run_finished_def)
  qed
qed

lemma finishRun_keeps:
  assumes inv: "session_inv s"
  shows "keeps s (snd (finishRun cf s))"
proof (cases "rs_outcomeLost s")
  case True
  then show ?thesis using inv by (auto simp: finishRun_def intro!: keepsI)
next
  case lost: False
  show ?thesis
  proof (cases "rs_phase s = Active")
    case False
    then show ?thesis using lost run_finished_grows [OF inv] by (simp add: finishRun_def keeps_def)
  next
    case True
    obtain r s1 where f: "finish_session cf no_outcome s = (r, s1)" by fastforce
    have k: "keeps s s1" using finish_session_keeps [OF inv, of no_outcome] f by simp
    have "keeps s (snd (write_run_finished cf s1))"
      using run_finished_grows [OF keeps_inv [OF k]] k lost True by (intro active_keepsI) (auto simp: keeps_def)
    with k show ?thesis using f lost True by (cases r) (simp_all add: finishRun_def)
  qed
qed

lemma emit_keeps:
  assumes inv: "session_inv s" and input: "is_input p"
  shows "keeps s (snd (emit cf p s))"
proof (cases "p = RunFinished \<or> session_end p \<noteq> None")
  case True
  then show ?thesis using finishRun_keeps [OF inv] finish_session_keeps [OF inv] by (cases p) simp_all
next
  case False
  obtain b s0 where a: "acceptsSessionEvents (js ''event '' @ payload_type p) s = (b, s0)" by fastforce
  obtain r s1 where w: "write_event cf p True s0 = (r, s1)" by fastforce
  have e: "snd (emit cf p s) = (if b then s1 else s0)"
    using False a w by (cases p; cases r rule: write_attempt_cases) simp_all
  show ?thesis
  proof (cases b)
    case False
    then show ?thesis unfolding e using accepts_keeps [OF inv] a by simp
  next
    case True
    then have s: "s0 = s" "rs_phase s = Active" "\<not> rs_outcomeLost s" using accepts_True [of _ s s0] a by auto
    from w have w: "write_event cf p True s = (r, s1)" by (simp add: s(1))
    have "\<exists>more. log_of s1 = log_of s @ more" using w input inv_good [OF inv] by (cases rule: write_cases) simp_all
    then show ?thesis
      using write_inv [OF inv s(2) input _ _ w] False s True unfolding e by (auto intro!: active_keepsI)
  qed
qed

lemma storeFailed_keeps: "session_inv s \<Longrightarrow> keeps s (snd (storeFailed input e s))"
  by (cases e) (auto simp: storeFailed_def intro!: keepsI)

lemma sink_changed: "session_inv s \<Longrightarrow> logged k = logged (rs_sink s) \<and> good k \<Longrightarrow> keeps s (s\<lparr>rs_sink := k\<rparr>)"
  by (intro keepsI) (simp_all add: session_inv_def log_of_def)

lemma emitAttachment_keeps: "session_inv s \<Longrightarrow> keeps s (snd (emitAttachment cf input stored s))"
  unfolding emitAttachment_def by (rule emit_keeps) simp_all

lemma attach_keeps:
  assumes inv: "session_inv s"
  shows "keeps s (snd (attach cf input bs s))"
proof -
  obtain b s0 where a: "acceptsSessionEvents (js ''attachment '' @ ai_name input) s = (b, s0)" by fastforce
  define content where "content = (if isTextualMediaType (so_host cf) (ai_mediaType input)
    then so_encode cf (redactText (so_host cf) (so_redactor cf) (so_decode cf bs)) else bs)"
  obtain r k where st: "storeAttachment (so_sink cf) content (rs_sink s) = (r, k)" by fastforce
  show ?thesis
  proof (cases b)
    case False
    then show ?thesis using accepts_keeps [OF inv] a by (simp add: attach_def)
  next
    case True
    then have s: "s0 = s" using accepts_True [of _ s s0] a by auto
    have "logged k = logged (rs_sink s) \<and> good k" using inv_good [OF inv] st by (rule store_keeps)
    then have k: "keeps s (s\<lparr>rs_sink := k\<rparr>)" by (rule sink_changed [OF inv])
    note inv' = keeps_inv [OF k]
    show ?thesis
    proof (cases r)
      case (Inl e)
      then have "snd (attach cf input bs s) = snd (storeFailed input e (s\<lparr>rs_sink := k\<rparr>))"
        using a True s st by (simp add: attach_def content_def Let_def split: prod.splits)
      then show ?thesis using keeps_trans [OF k storeFailed_keeps [OF inv']] by simp
    next
      case (Inr stored)
      then have "attach cf input bs s = emitAttachment cf input stored (s\<lparr>rs_sink := k\<rparr>)"
        using a True s st by (simp add: attach_def content_def Let_def)
      then show ?thesis using keeps_trans [OF k emitAttachment_keeps [OF inv']] by simp
    qed
  qed
qed

lemma attachFileSync_keeps:
  assumes inv: "session_inv s"
  shows "keeps s (snd (attachFileSync cf input path s))"
proof -
  obtain b s0 where a: "acceptsSessionEvents (js ''attachment '' @ ai_name input) s = (b, s0)" by fastforce
  show ?thesis
  proof (cases b)
    case False
    then show ?thesis using accepts_keeps [OF inv] a by (simp add: attachFileSync_def)
  next
    case True
    then have s: "s0 = s" using accepts_True [of _ s s0] a by auto
    show ?thesis
      using a True attach_keeps [OF inv] storeFailed_keeps [OF inv] unfolding s
      by (auto simp: attachFileSync_def split: sum.splits option.splits prod.splits)
        (metis snd_conv)+
  qed
qed

lemma caught_keeps: "keeps s (snd r) \<Longrightarrow> keeps s (snd (caught input r))"
  by (cases r; cases "fst r") (auto simp: caught_def intro: keeps_trans [OF _ storeFailed_keeps [OF keeps_inv]])

lemma attachFile_keeps:
  assumes inv: "session_inv s"
  shows "keeps s (snd (attachFile cf input path s))"
proof -
  obtain b s0 where a: "acceptsSessionEvents (js ''attachment '' @ ai_name input) s = (b, s0)" by fastforce
  obtain r k where st: "storeAttachmentStream (so_sink cf) path (rs_sink s) = (r, k)" by fastforce
  show ?thesis
  proof (cases b)
    case False
    then show ?thesis using accepts_keeps [OF inv] a by (simp add: attachFile_def)
  next
    case True
    then have s: "s0 = s" using accepts_True [of _ s s0] a by auto
    have "logged k = logged (rs_sink s) \<and> good k" using inv_good [OF inv] st by (rule stream_keeps)
    then have k: "keeps s (s\<lparr>rs_sink := k\<rparr>)" by (rule sink_changed [OF inv])
    note inv' = keeps_inv [OF k]
    show ?thesis
      using a True st caught_keeps [OF attach_keeps [OF inv]] storeFailed_keeps [OF inv]
        keeps_trans [OF k storeFailed_keeps [OF inv']] keeps_trans [OF k caught_keeps [OF emitAttachment_keeps [OF inv']]]
      unfolding s by (simp add: attachFile_def split: sum.splits option.splits)
  qed
qed

lemma close_keeps_inv:
  assumes inv: "session_inv s"
  shows "keeps s (snd (close cf s)) \<and> (\<forall>u. fst (close cf s) = Inr u \<longrightarrow> rs_phase (snd (close cf s)) = Closed)"
proof -
  have cs: "keeps x (close_sink cf x) \<and> rs_phase (close_sink cf x) = Closed" if "session_inv x" for x
    using that close_keeps [OF inv_good [OF that]]
    by (auto simp: close_sink_def Let_def session_inv_def log_of_def intro!: keepsI split: prod.splits sum.splits)
  show ?thesis
  proof (cases "rs_phase s = Closed \<or> \<not> (rs_phase s = Active \<and> \<not> rs_outcomeLost s)")
    case True
    then show ?thesis using cs [OF inv] inv by (auto simp: close_def intro: keeps_refl)
  next
    case False
    obtain r s1 where f: "finish_session cf no_outcome s = (r, s1)" by fastforce
    have k: "keeps s s1" using finish_session_keeps [OF inv, of no_outcome] f by simp
    show ?thesis
      using False f k cs [OF keeps_inv [OF k]] keeps_trans [OF k] by (cases r) (simp_all add: close_def)
  qed
qed

end

end
