(* ===== verification/Session_Runs.thy ===== *)
theory Session_Runs
  imports Session_Properties
begin

text \<open>
  Whole runs of a session: its operations as a step relation, in any order, with the two halves of an
  asynchronous attachment as separate steps so that other operations may come between them.  The
  events a sink accepted are recorded by \<open>track\<close>, which turns any sink into one with a log.
\<close>

section \<open>Steps\<close>

inductive session_step :: "'s session_options \<Rightarrow> 's report_session \<Rightarrow> 's report_session \<Rightarrow> bool" for cf where
  step_emit: "is_input p \<Longrightarrow> session_step cf s (snd (emit cf p s))"
| step_finish: "session_step cf s (snd (finish_session cf o' s))"
| step_finishRun: "session_step cf s (snd (finishRun cf s))"
| step_attach: "session_step cf s (snd (attach cf input bs s))"
| step_attachFileSync: "session_step cf s (snd (attachFileSync cf input path s))"
| step_attachFile: "session_step cf s (snd (attachFile cf input path s))"
| step_stream: "storeAttachmentStream (so_sink cf) path (rs_sink s) = (r, k) \<Longrightarrow> session_step cf s (s\<lparr>rs_sink := k\<rparr>)"
| step_stored: "session_step cf s (snd (emitAttachment cf input stored s))"
| step_close: "session_step cf s (snd (close cf s))"

definition session_runs :: "'s session_options \<Rightarrow> 's report_session \<Rightarrow> 's report_session \<Rightarrow> bool" where
  "session_runs cf = (session_step cf)\<^sup>*\<^sup>*"

inductive_cases session_stepE: "session_step cf s s'"

context event_log
begin

lemma step_keeps:
  assumes "session_inv s" and "session_step cf s s'"
  shows "keeps s s'"
  using assms(2)
proof cases
  case (step_stream path r k)
  then show ?thesis using sink_changed [OF assms(1)] stream_keeps [OF inv_good [OF assms(1)]] by blast
qed (use assms(1) emit_keeps finish_session_keeps finishRun_keeps attach_keeps attachFileSync_keeps attachFile_keeps
    emitAttachment_keeps close_keeps_inv in blast)+

lemma runs_keep:
  assumes "session_runs cf s s'" and "session_inv s"
  shows "keeps s s'"
  using assms(1) unfolding session_runs_def
proof (induction rule: rtranclp_induct)
  case base
  show ?case by (rule keeps_refl) (rule assms(2))
next
  case (step a b)
  from keeps_trans [OF step.IH step_keeps [OF keeps_inv [OF step.IH] step.hyps(2)]] show ?case .
qed

lemma new_session_inv: "good k \<Longrightarrow> logged k = [] \<Longrightarrow> session_inv (new_session k)"
  by (simp add: session_inv_def log_of_def new_session_def)

end

section \<open>Any sink, with its log\<close>

definition track :: "'s report_sink \<Rightarrow> ('s \<times> event list) report_sink" where
  "track f =
     \<lparr>maxAttachmentBytes = maxAttachmentBytes f,
      sink_write = (\<lambda>e (k, es). case sink_write f e k of
         (Inr u, k') \<Rightarrow> (Inr u, (k', es @ [e])) | (Inl x, k') \<Rightarrow> (Inl x, (k', es))),
      storeAttachment = (\<lambda>b (k, es). case storeAttachment f b k of (r, k') \<Rightarrow> (r, (k', es))),
      storeAttachmentStream = (\<lambda>p (k, es). case storeAttachmentStream f p k of (r, k') \<Rightarrow> (r, (k', es))),
      sink_close = (\<lambda>(k, es). case sink_close f k of (r, k') \<Rightarrow> (r, (k', es)))\<rparr>"

definition track_options :: "'s session_options \<Rightarrow> ('s \<times> event list) session_options" where
  "track_options cf =
     \<lparr>so_runId = so_runId cf, so_sessionId = so_sessionId cf, so_sink = track (so_sink cf), so_clock = so_clock cf,
      so_ids = so_ids cf, so_host = so_host cf, so_redactor = so_redactor cf, so_maxEventBytes = so_maxEventBytes cf,
      so_decode = so_decode cf, so_encode = so_encode cf, so_file = so_file cf\<rparr>"

interpretation tracked: event_log "track_options cf" snd "\<lambda>_. True" for cf :: "'s session_options"
  by unfold_locales (auto simp: track_options_def track_def split: prod.splits sum.splits)

lemma session_trace_track [simp]: "session_trace (track_options cf) es = session_trace cf es"
  by (simp add: session_trace_def well_placed_def track_options_def)

section \<open>The log of a session\<close>

text \<open>
  C7. A session refines the abstract lifecycle, over every sink and for every order of calls: the events
  the sink accepted carry the session's ids and the sequence numbers 1, 2, 3 and so on, each is well
  formed and within the size limit, \<open>run.finished\<close> comes only after \<open>session.finished\<close>, nothing else
  comes after it, and the phase and the counters of the session are those of the log.
\<close>

theorem session_refines_lifecycle:
  assumes "session_runs (track_options cf) (new_session (k, [])) s"
  shows "session_trace cf (snd (rs_sink s)) \<and> rs_written s = length (snd (rs_sink s)) \<and>
    rs_sequence s = int (length (snd (rs_sink s))) \<and> (rs_phase s = log_phase (snd (rs_sink s)) \<or> rs_phase s = Closed)"
proof -
  have "tracked.session_inv cf (new_session (k, []))" by (rule tracked.new_session_inv) simp_all
  from tracked.keeps_inv [OF tracked.runs_keep [OF assms this]] show ?thesis
    by (simp add: tracked.session_inv_def tracked.log_of_def)
qed

definition easy_sink :: "unit report_sink" where
  "easy_sink = \<lparr>maxAttachmentBytes = 10, sink_write = (\<lambda>_ k. (Inr (), k)),
     storeAttachment = (\<lambda>_ k. (Inl (SinkError []), k)), storeAttachmentStream = (\<lambda>_ k. (Inl (SinkError []), k)),
     sink_close = (\<lambda>k. (Inr (), k))\<rparr>"

definition easy_options :: "unit session_options" where
  "easy_options = \<lparr>so_runId = js ''r'', so_sessionId = js ''s'', so_sink = easy_sink, so_clock = (\<lambda>_. occurredAt sample_event),
     so_ids = (\<lambda>_. js ''e''), so_host = plain_host, so_redactor = default_redactor, so_maxEventBytes = maxEventBytes,
     so_decode = (\<lambda>_. []), so_encode = (\<lambda>_. []), so_file = (\<lambda>_. Inr [])\<rparr>"

text \<open>
  A dead session is silent: once a supplied outcome could not be written, or the session was closed,
  no later call of any kind adds to the log.
\<close>

theorem dead_session_silent:
  assumes "session_runs (track_options cf) (new_session (k, [])) s" and "rs_outcomeLost s \<or> rs_phase s = Closed"
    and "session_runs (track_options cf) s s'"
  shows "snd (rs_sink s') = snd (rs_sink s)"
proof -
  have "tracked.session_inv cf (new_session (k, []))" by (rule tracked.new_session_inv) simp_all
  from tracked.runs_keep [OF assms(3) tracked.keeps_inv [OF tracked.runs_keep [OF assms(1) this]]] assms(2)
  show ?thesis by (simp add: tracked.keeps_def tracked.log_of_def)
qed

text \<open>
  C9. What a session leaves satisfies the validator's rules of place and file: when the first event the sink
  accepted is a \<open>session.started\<close>, as it is when the one that \<open>start\<close> emits was not dropped, and it accepted
  no second one, every event of the log is in its place by the rules the validator decides, whatever
  else the caller does.
\<close>

theorem session_log_in_place:
  assumes "session_runs (track_options cf) (new_session (k, [])) s" and "snd (rs_sink s) = e # es"
    and "starts_session (payload e)" and "\<forall>x \<in> set es. \<not> starts_session (payload x)" and "i < length (e # es)"
  shows "place_ok (take i (e # es)) ((e # es) ! i) \<and> file_ok True (map (Pair f) (take i (e # es))) f ((e # es) ! i)"
proof -
  let ?es = "e # es"
  have "tracked.session_inv cf (new_session (k, []))" by (rule tracked.new_session_inv) simp_all
  from tracked.keeps_inv [OF tracked.runs_keep [OF assms(1) this]] have trace: "session_trace cf ?es"
    by (simp add: tracked.session_inv_def tracked.log_of_def assms(2))
  let ?past = "take i ?es" and ?x = "?es ! i"
  have wp: "well_placed cf ?past ?x" using trace assms(5) by (simp add: session_trace_def del: nth_Cons)
  have sid: "sessionId x = so_sessionId cf" if x: "x \<in> set ?es" for x
  proof -
    obtain j where j: "j < length ?es" "?es ! j = x" using x unfolding in_set_conv_nth by blast
    from trace [unfolded session_trace_def, rule_format, OF j(1)] show ?thesis unfolding j(2) by (simp add: well_placed_def)
  qed
  have past: "x \<in> set ?es" if "x \<in> set ?past" for x using that by (rule in_set_takeD)
  have all: "\<forall>d \<in> set ?past. sessionId d = sessionId ?x"
    using sid [OF past] sid [OF nth_mem [OF assms(5)]] by simp
  have same: "of_session ?past (sessionId ?x) = ?past"
    unfolding of_session_def by (rule filter_True) (rule all)
  have len: "length ?past = i" using assms(5) by simp
  have starts: "starts_session (payload ?x) \<longleftrightarrow> ?past = []"
    using assms(3,4,5) by (cases i) simp_all
  have ph: "phase_allows (log_phase ?past) (payload ?x)" "sequence ?x = int i + 1" using wp len by (simp_all add: well_placed_def)
  have ended: "session_ended ?past sid \<Longrightarrow> payload ?x = RunFinished" for sid
    using ph(1) by (auto simp: session_ended_def log_phase_def split: if_splits)
  have "\<forall>d \<in> set ?past. payload d \<noteq> RunFinished"
    using ph(1) by (auto simp: log_phase_def split: if_splits)
  then have in_file: "file_ok True (map (Pair f) ?past) f ?x" using all by (auto simp: file_ok_def simp del: nth_Cons)
  have "place_ok ?past ?x" unfolding place_ok_def same starts ph(2) len using ended by simp
  with in_file show ?thesis by blast
qed

section \<open>Finishing succeeds\<close>

definition session_ids_ok :: "'s session_options \<Rightarrow> bool" where
  "session_ids_ok cf \<longleftrightarrow> IDENTIFIER (so_runId cf) \<and> IDENTIFIER (so_sessionId cf) \<and>
     (\<forall>n. IDENTIFIER (so_ids cf n) \<and> TIMESTAMP (so_clock cf n))"

definition sequence_ok :: "'s report_session \<Rightarrow> bool" where
  "sequence_ok s \<longleftrightarrow> 0 \<le> rs_sequence s \<and> rs_sequence s < MAX_SAFE_INTEGER"

text \<open>The event a write hands to the sink, for a well-formed input.\<close>

definition redacted_candidate :: "'s session_options \<Rightarrow> event_payload \<Rightarrow> 's report_session \<Rightarrow> event" where
  "redacted_candidate cf p s = normal_event (red_event (redactText (so_host cf) (so_redactor cf)) (candidate_event cf p s))"

definition line_size :: "event \<Rightarrow> nat" where
  "line_size e = utf8_length (stringifyEvent e) + 1"

lemma candidate_redacted:
  assumes "session_ids_ok cf" and "sequence_ok s" and "wf_payload None p"
  shows "redactEvent (so_host cf) (so_redactor cf) (candidate_event cf p s) = Inr (redacted_candidate cf p s)"
proof -
  have "isSupportedVersionText PROTOCOL_VERSION" using sample_event_wf by (simp add: wf_event_def sample_event_def PROTOCOL_VERSION_def)
  with assms have "wf_event (candidate_event cf p s)"
    by (simp add: wf_event_def candidate_event_def session_ids_ok_def sequence_ok_def is_safe_int_def)
  then show ?thesis unfolding redacted_candidate_def by (rule redactEvent_wf)
qed

lemma write_works:
  assumes "session_ids_ok cf" "sequence_ok s" "wf_payload None p"
    and works: "\<forall>e k. \<exists>k'. sink_write (so_sink cf) e k = (Inr (), k')"
  obtains (written) n s' where "write_event cf p report s = (Inr (Was_Written, n), s')"
    | (large) n s' where "write_event cf p report s = (Inr (Was_Too_Large, n), s')" "rs_sequence s' = rs_sequence s"
        "so_maxEventBytes cf < line_size (redacted_candidate cf p s)"
proof (cases "line_size (redacted_candidate cf p s) > so_maxEventBytes cf")
  case True
  let ?w = "write_event cf p report s"
  have "?w = (Inr (Was_Too_Large, line_size (redacted_candidate cf p s)), snd ?w)" "rs_sequence (snd ?w) = rs_sequence s"
    using True by (simp_all add: write_event_def Let_def candidate_redacted [OF assms(1-3)] line_size_def)
  then show thesis using True by (rule large)
next
  case False
  obtain k where "sink_write (so_sink cf) (redacted_candidate cf p s) (rs_sink s) = (Inr (), k)" using works by blast
  with False show thesis
    by (intro written) (auto simp: write_event_def Let_def candidate_redacted [OF assms(1-3)] line_size_def)
qed

text \<open>A well-formed outcome is never thrown back, whatever the sink does.\<close>

lemma write_returns:
  assumes "session_ids_ok cf" "sequence_ok s" "wf_payload None p"
  obtains res n s1 where "write_event cf p report s = (Inr (res, n), s1)" "res = Was_Too_Large \<longrightarrow> rs_sequence s1 = rs_sequence s"
proof -
  let ?w = "write_event cf p report s"
  have "\<exists>res n. fst ?w = Inr (res, n) \<and> (res = Was_Too_Large \<longrightarrow> rs_sequence (snd ?w) = rs_sequence s)"
    by (auto simp: write_event_def Let_def candidate_redacted [OF assms] split: prod.splits sum.splits)
  then show thesis using that by (metis prod.collapse)
qed

lemma finish_loop_returns:
  assumes ids: "session_ids_ok cf"
  shows "sequence_ok s \<Longrightarrow> sf_status c = Some status \<Longrightarrow> outcome_ok c \<Longrightarrow> wf_failures (sf_failures c) \<Longrightarrow>
    \<exists>b. fst (finish_loop cf status c s) = Inr b"
proof (induction "outcome_parts c" arbitrary: c s rule: less_induct)
  case less
  have wf: "wf_payload None (SessionFinished c)" using less.prems by simp
  obtain res n s1 where w: "write_event cf (SessionFinished c) False s = (Inr (res, n), s1)"
    and seq: "res = Was_Too_Large \<longrightarrow> rs_sequence s1 = rs_sequence s"
    by (rule write_returns [OF ids less.prems(1) wf, of False])
  show ?case
  proof (cases res)
    case Was_Too_Large
    have again: "\<exists>b. fst (finish_loop cf status c' (problem_of k m' None s1)) = Inr b"
      if "outcome_parts c' < outcome_parts c" "sf_status c' = Some status" "sf_failures c' = None" for c' k m'
      using less.hyps [OF that(1), of "problem_of k m' None s1"] that(2,3) less.prems seq Was_Too_Large
      by (simp add: sequence_ok_def outcome_ok_def wf_failures_def)
    show ?thesis
    proof (cases "has_failures c")
      case True
      then show ?thesis
        by (subst finish_loop.simps) (simp add: w Was_Too_Large Let_def, rule again, simp_all add: outcome_parts_def has_failures_def)
    next
      case False
      show ?thesis
      proof (cases "sf_rawStatus c = None")
        case True
        with False show ?thesis by (subst finish_loop.simps) (auto simp: w Was_Too_Large Let_def)
      next
        case raw: False
        with False show ?thesis
          by (subst finish_loop.simps) (simp add: w Was_Too_Large Let_def, rule again, simp_all add: outcome_parts_def has_failures_def)
      qed
    qed
  qed (subst finish_loop.simps, auto simp: w)+
qed

text \<open>
  C10. A supplied outcome is preserved at all cost: finishing an active session with a well-formed outcome
  that has a status, over every sink, always returns.  It returns true and has then appended exactly one
  event, a \<open>session.finished\<close> with that very status, and ended the session; or it returns false and has
  then appended nothing, the session stays open, and no later call of any kind writes anything.
\<close>

theorem finish_preserves_status:
  assumes "session_runs (track_options cf) (new_session (k, [])) s" and "rs_phase s = Active" "\<not> rs_outcomeLost s"
    and "outcomeViolation p = None" and "sf_status p = Some status" and "wf_failures (sf_failures p)"
    and "session_ids_ok cf" and "rs_sequence s < MAX_SAFE_INTEGER"
    and "finish_session (track_options cf) p s = (r, s')"
  shows "r = Inr True \<and> rs_phase s' = SessionEnded \<and>
      (\<exists>e q. snd (rs_sink s') = snd (rs_sink s) @ [e] \<and> payload e = SessionFinished q \<and> sf_status q = Some status) \<or>
    r = Inr False \<and> rs_phase s' = Active \<and> snd (rs_sink s') = snd (rs_sink s) \<and>
      (\<forall>t. session_runs (track_options cf) s' t \<longrightarrow> snd (rs_sink t) = snd (rs_sink s))"
proof -
  let ?cf = "track_options cf"
  have "tracked.session_inv cf (new_session (k, []))" by (rule tracked.new_session_inv) simp_all
  note inv = tracked.keeps_inv [OF tracked.runs_keep [OF assms(1) this]]
  have "acceptsSessionEvents (js ''event session.finished'') s = (True, s)" using assms(2,3) by (simp add: acceptsSessionEvents_def)
  then have f: "finish_loop ?cf status p s = (r, s')" using assms(4,5,9) by (simp add: finish_session_def)
  note e = tracked.finish_loop_result [OF inv assms(2,5), unfolded f]
  have inv': "tracked.session_inv cf s'" using e by (simp add: tracked.ended_with_def)
  have ids: "session_ids_ok ?cf" using assms(7) by (simp add: session_ids_ok_def track_options_def)
  have seq: "sequence_ok s" using inv assms(8) by (simp add: sequence_ok_def tracked.session_inv_def)
  have "outcome_ok p" using assms(4) by (auto simp: outcomeViolation_def outcome_ok_def Let_def split: if_splits)
  then obtain b where b: "r = Inr b" using finish_loop_returns [OF ids seq assms(5) _ assms(6)] f by auto
  have silent: "snd (rs_sink t) = snd (rs_sink s')" if "session_runs ?cf s' t" "rs_outcomeLost s'" for t
    using tracked.runs_keep [OF that(1) inv'] that(2) by (simp add: tracked.keeps_def tracked.log_of_def)
  with e b show ?thesis by (cases b) (auto simp: tracked.ended_with_def tracked.log_of_def)
qed

text \<open>The status alone fits, whatever the id and the time of the event.\<close>

definition status_fits :: "'s session_options \<Rightarrow> session_status \<Rightarrow> int \<Rightarrow> bool" where
  "status_fits cf status n \<longleftrightarrow> (\<forall>s. rs_sequence s = n \<longrightarrow>
     line_size (redacted_candidate cf (SessionFinished \<lparr>sf_status = Some status, sf_rawStatus = None, sf_failures = None\<rparr>) s)
       \<le> so_maxEventBytes cf)"

lemma bare_outcome:
  assumes "sf_status c = Some status" "sf_rawStatus c = None" "\<not> has_failures c"
  shows "redacted_candidate cf (SessionFinished c) s =
    redacted_candidate cf (SessionFinished \<lparr>sf_status = Some status, sf_rawStatus = None, sf_failures = None\<rparr>) s"
  using assms by (cases c) (auto simp: redacted_candidate_def normal_event_def red_event_def candidate_event_def has_failures_def
      split: option.splits)

lemma finish_loop_succeeds:
  assumes ids: "session_ids_ok cf" and works: "\<forall>e k. \<exists>k'. sink_write (so_sink cf) e k = (Inr (), k')"
    and fits: "status_fits cf status n"
  shows "sequence_ok s \<Longrightarrow> rs_sequence s = n \<Longrightarrow> sf_status c = Some status \<Longrightarrow> outcome_ok c \<Longrightarrow> wf_failures (sf_failures c) \<Longrightarrow>
    \<exists>s'. finish_loop cf status c s = (Inr True, s') \<and> rs_phase s' = SessionEnded"
proof (induction "outcome_parts c" arbitrary: c s rule: less_induct)
  case less
  have wf: "wf_payload None (SessionFinished c)" using less.prems by simp
  show ?case
  proof (cases rule: write_works [OF ids less.prems(1) wf works, where report = False])
    case (1 m s')
    then show ?thesis by (subst finish_loop.simps) simp
  next
    case (2 m s1)
    have again: "\<exists>s'. finish_loop cf status c' (problem_of k m' None s1) = (Inr True, s') \<and> rs_phase s' = SessionEnded"
      if "outcome_parts c' < outcome_parts c" "sf_status c' = Some status" "sf_failures c' = None" for c' k m'
      using less.hyps [OF that(1), of "problem_of k m' None s1"] that(2,3) less.prems 2(2)
      by (simp add: sequence_ok_def outcome_ok_def wf_failures_def)
    show ?thesis
    proof (cases "has_failures c")
      case True
      then show ?thesis
        by (subst finish_loop.simps) (simp add: 2(1) Let_def, rule again, simp_all add: outcome_parts_def has_failures_def)
    next
      case False
      show ?thesis
      proof (cases "sf_rawStatus c = None")
        case True
        then show ?thesis
          using 2(3) fits less.prems(2) bare_outcome [OF less.prems(3) True False, of cf s] by (auto simp: status_fits_def)
      next
        case raw: False
        then show ?thesis using False
          by (subst finish_loop.simps) (simp add: 2(1) Let_def, rule again, simp_all add: outcome_parts_def has_failures_def)
      qed
    qed
  qed
qed

text \<open>
  C11. Finishing is live: when the sink works and the status alone fits the size limit, finishing an
  active session with a well-formed outcome returns true and ends the session, however large its
  failures and its raw status are.
\<close>

theorem finish_succeeds:
  assumes "session_ids_ok cf" and "\<forall>e k. \<exists>k'. sink_write (so_sink cf) e k = (Inr (), k')"
    and "status_fits cf status (rs_sequence s)" and "sequence_ok s" and "rs_phase s = Active" "\<not> rs_outcomeLost s"
    and "outcomeViolation p = None" and "sf_status p = Some status" and "wf_failures (sf_failures p)"
  shows "\<exists>s'. finish_session cf p s = (Inr True, s') \<and> rs_phase s' = SessionEnded"
proof -
  have "outcome_ok p" using assms(7) by (auto simp: outcomeViolation_def outcome_ok_def Let_def split: if_splits)
  then have "\<exists>s'. finish_loop cf status p s = (Inr True, s') \<and> rs_phase s' = SessionEnded"
    using finish_loop_succeeds [OF assms(1,2,3) assms(4) refl assms(8) _ assms(9)] by blast
  moreover have "acceptsSessionEvents (js ''event session.finished'') s = (True, s)"
    using assms(5,6) by (simp add: acceptsSessionEvents_def)
  ultimately show ?thesis using assms(7,8) by (simp add: finish_session_def)
qed

section \<open>A session on an obliging sink\<close>

definition failed_outcome :: session_finished_payload where
  "failed_outcome = \<lparr>sf_status = Some SessionFailed, sf_rawStatus = None, sf_failures = None\<rparr>"

lemma easy_fits: "status_fits easy_options SessionFailed 0"
proof -
  have "line_size (redacted_candidate easy_options (SessionFinished failed_outcome) s)
       \<le> maxEventBytes" if "rs_sequence s = 0" for s
  proof -
    let ?e = "\<lparr>protocolVersion = PROTOCOL_VERSION, eventId = js ''e'', runId = js ''r'', sessionId = js ''s'', sequence = 1,
       occurredAt = occurredAt sample_event, ignorable = None, payload = SessionFinished failed_outcome\<rparr>"
    have e: "redacted_candidate easy_options (SessionFinished failed_outcome) s = ?e"
      using that by (simp add: redacted_candidate_def easy_options_def candidate_event_def normal_event_def red_event_def failed_outcome_def)
    have "length (stringifyEvent ?e) \<le> 300"
      by (simp add: stringifyEvent_def eventToObject_def eventType_def write_session_finished_def omitUndefined_simps writeFailures_def sample_event_def PROTOCOL_VERSION_def
        failed_outcome_def)
        (simp add: quote_string_def js_def of_char_def escape_unit_def char_class_defs show_int_def show_nat.simps)
    with utf8_length_le [of "stringifyEvent ?e"] show ?thesis by (simp add: e line_size_def maxEventBytes_def)
  qed
  then show ?thesis by (simp add: status_fits_def easy_options_def failed_outcome_def)
qed

lemma easy_ids: "session_ids_ok easy_options"
proof -
  have "IDENTIFIER (js ''e'')" "IDENTIFIER (js ''r'')" "IDENTIFIER (js ''s'')" by code_simp+
  then show ?thesis using sample_event_wf by (simp add: session_ids_ok_def easy_options_def wf_event_def)
qed

theorem finish_succeeds_witness:
  "\<exists>s'. finish_session easy_options failed_outcome (new_session ()) = (Inr True, s') \<and> rs_phase s' = SessionEnded"
  by (rule finish_succeeds [OF easy_ids, where status = SessionFailed])
    (use easy_fits in \<open>simp_all add: easy_options_def easy_sink_def new_session_def sequence_ok_def MAX_SAFE_INTEGER_def
      failed_outcome_def outcomeViolation_def wf_failures_def\<close>)

lemma closed_easily:
  obtains s where "session_runs (track_options easy_options) (new_session ((), [])) s" "rs_phase s = Closed"
proof -
  let ?cf = "track_options easy_options" and ?s = "new_session ((), [])"
  have ids: "session_ids_ok ?cf" using easy_ids by (simp add: session_ids_ok_def track_options_def)
  have seq: "sequence_ok ?s" by (simp add: sequence_ok_def new_session_def MAX_SAFE_INTEGER_def)
  have wf: "wf_payload None (SessionFinished no_outcome)" by (simp add: no_outcome_def outcome_ok_def wf_failures_def)
  have works: "\<forall>e k. \<exists>k'. sink_write (so_sink ?cf) e k = (Inr (), k')"
    by (auto simp: track_options_def track_def easy_options_def easy_sink_def)
  have "\<exists>b t. finish_session ?cf no_outcome ?s = (Inr b, t)"
  proof (cases rule: write_works [OF ids seq wf works, where report = True])
    case (1 n s')
    then show ?thesis by (auto simp: finish_session_def no_outcome_def outcomeViolation_def acceptsSessionEvents_def new_session_def)
  next
    case (2 n s')
    then show ?thesis by (auto simp: finish_session_def no_outcome_def outcomeViolation_def acceptsSessionEvents_def new_session_def)
  qed
  then obtain b t where f: "finish_session ?cf no_outcome ?s = (Inr b, t)" by blast
  have inv: "tracked.session_inv easy_options ?s" by (rule tracked.new_session_inv) simp_all
  have "fst (close ?cf ?s) = Inr ()" using f by (simp add: close_def new_session_def)
  with tracked.close_keeps_inv [OF inv] have "rs_phase (snd (close ?cf ?s)) = Closed" by blast
  moreover have "session_runs ?cf ?s (snd (close ?cf ?s))" unfolding session_runs_def by (rule r_into_rtranclp) (rule step_close)
  ultimately show thesis by (rule that [rotated])
qed

theorem session_refines_lifecycle_witness:
  "\<exists>s. session_runs (track_options easy_options) (new_session ((), [])) s \<and> rs_phase s = Closed \<and>
     session_trace easy_options (snd (rs_sink s)) \<and> rs_written s = length (snd (rs_sink s))"
proof -
  obtain s where s: "session_runs (track_options easy_options) (new_session ((), [])) s" "rs_phase s = Closed" by (rule closed_easily)
  from session_refines_lifecycle [OF s(1)] s show ?thesis by blast
qed

theorem finish_preserves_status_witness:
  "\<exists>r s'. finish_session (track_options easy_options) failed_outcome (new_session ((), [])) = (r, s') \<and>
     (r = Inr True \<and> rs_phase s' = SessionEnded \<and>
        (\<exists>e q. snd (rs_sink s') = [e] \<and> payload e = SessionFinished q \<and> sf_status q = Some SessionFailed) \<or>
      r = Inr False \<and> rs_phase s' = Active \<and> snd (rs_sink s') = [])"
proof -
  let ?cf = "track_options easy_options" and ?s = "new_session ((), [])"
  obtain r s' where f: "finish_session ?cf failed_outcome ?s = (r, s')" by fastforce
  have runs: "session_runs ?cf ?s ?s" by (simp add: session_runs_def)
  have n: "rs_phase ?s = Active" "\<not> rs_outcomeLost ?s" "rs_sequence ?s < MAX_SAFE_INTEGER" "snd (rs_sink ?s) = []"
    by (simp_all add: new_session_def MAX_SAFE_INTEGER_def)
  have o: "outcomeViolation failed_outcome = None" "sf_status failed_outcome = Some SessionFailed" "wf_failures (sf_failures failed_outcome)"
    by (simp_all add: failed_outcome_def outcomeViolation_def wf_failures_def)
  from finish_preserves_status [OF runs n(1,2) o easy_ids n(3) f] f n(4) show ?thesis by auto
qed

definition easy_start :: session_started_payload where
  "easy_start = \<lparr>ss_producer = \<lparr>comp_name = js ''p'', comp_version = None\<rparr>, ss_runner = None, ss_environment = None,
     ss_executor = None, ss_source = None, ss_labels = None\<rparr>"

theorem dead_session_silent_witness:
  "\<exists>s. session_runs (track_options easy_options) (new_session ((), [])) s \<and> rs_phase s = Closed \<and>
     snd (rs_sink (snd (emit (track_options easy_options) (SessionStarted easy_start) s))) = snd (rs_sink s)"
proof -
  obtain s where s: "session_runs (track_options easy_options) (new_session ((), [])) s" "rs_phase s = Closed" by (rule closed_easily)
  have "session_runs (track_options easy_options) s (snd (emit (track_options easy_options) (SessionStarted easy_start) s))"
    unfolding session_runs_def by (rule r_into_rtranclp) (rule step_emit, simp)
  from dead_session_silent [OF s(1) disjI2 [OF s(2)] this] s show ?thesis by blast
qed

definition started_event :: event where
  "started_event = \<lparr>protocolVersion = PROTOCOL_VERSION, eventId = js ''e'', runId = js ''r'', sessionId = js ''s'', sequence = 1,
     occurredAt = occurredAt sample_event, ignorable = None, payload = SessionStarted easy_start\<rparr>"

lemma started_size: "line_size started_event \<le> maxEventBytes"
proof -
  have "length (stringifyEvent started_event) \<le> 300"
    by (simp add: stringifyEvent_def eventToObject_def eventType_def write_session_started_def writeComponent_def write_map_def
        omitUndefined_simps sample_event_def PROTOCOL_VERSION_def started_event_def easy_start_def)
      (simp add: quote_string_def js_def of_char_def escape_unit_def char_class_defs show_int_def show_nat.simps)
  with utf8_length_le [of "stringifyEvent started_event"] show ?thesis by (simp add: line_size_def maxEventBytes_def)
qed

definition like_easy :: "'s session_options \<Rightarrow> bool" where
  "like_easy cf \<longleftrightarrow> so_runId cf = js ''r'' \<and> so_sessionId cf = js ''s'' \<and> so_clock cf = (\<lambda>_. occurredAt sample_event) \<and> so_ids cf = (\<lambda>_. js ''e'') \<and>
     so_host cf = plain_host \<and> so_redactor cf = default_redactor \<and> so_maxEventBytes cf = maxEventBytes"

lemma started_on:
  assumes "like_easy cf" and "sink_write (so_sink cf) started_event k = (Inr (), k')"
  shows "rs_sink (snd (emit cf (SessionStarted easy_start) (new_session k))) = k'"
proof -
  let ?s = "new_session k" and ?p = "SessionStarted easy_start"
  note cf = assms(1) [unfolded like_easy_def]
  have ids: "session_ids_ok cf" using easy_ids cf by (simp add: session_ids_ok_def easy_options_def)
  have seq: "sequence_ok ?s" by (simp add: sequence_ok_def new_session_def MAX_SAFE_INTEGER_def)
  have wf: "wf_payload None ?p" by (simp add: easy_start_def wf_map_def)
  have "redactText plain_host default_redactor (js ''p'') = js ''p''" by code_simp
  then have e: "redacted_candidate cf ?p ?s = started_event"
    using cf by (simp add: redacted_candidate_def candidate_event_def normal_event_def red_event_def
        red_session_def red_component_def started_event_def easy_start_def new_session_def)
  have size: "\<not> so_maxEventBytes cf < utf8_length (stringifyEvent started_event) + 1"
    using started_size cf by (simp add: line_size_def)
  have k: "rs_sink ?s = k" by (simp add: new_session_def)
  have "rs_sink (snd (write_event cf ?p True ?s)) = k'"
    "fst (write_event cf ?p True ?s) = Inr (Was_Written, utf8_length (stringifyEvent started_event) + 1)"
    using size assms(2) by (simp_all add: write_event_def Let_def candidate_redacted [OF ids seq wf, unfolded e] k)
  then show ?thesis
    by (cases "write_event cf ?p True ?s") (simp add: acceptsSessionEvents_def new_session_def)
qed

lemma easily_started:
  "snd (rs_sink (snd (emit (track_options easy_options) (SessionStarted easy_start) (new_session ((), []))))) = [started_event]"
proof -
  have "like_easy (track_options easy_options)" by (simp add: like_easy_def track_options_def easy_options_def)
  then show ?thesis
    by (subst started_on) (auto simp: track_options_def track_def easy_options_def easy_sink_def)
qed

theorem session_log_in_place_witness:
  "\<exists>s. session_runs (track_options easy_options) (new_session ((), [])) s \<and> snd (rs_sink s) = [started_event] \<and>
     place_ok [] started_event \<and> file_ok True [] 1 started_event"
proof -
  let ?s = "snd (emit (track_options easy_options) (SessionStarted easy_start) (new_session ((), [])))"
  have runs: "session_runs (track_options easy_options) (new_session ((), [])) ?s"
    unfolding session_runs_def by (rule r_into_rtranclp) (rule step_emit, simp)
  have "starts_session (payload started_event)" by (simp add: started_event_def)
  from session_log_in_place [OF runs easily_started this, of 0 1] runs easily_started show ?thesis by auto
qed

end
