(* ===== verification/Safe_Name.thy ===== *)
theory Safe_Name
  imports Prelude
begin

text \<open>
  The naming rule of session files and run directories: \<open>safe-name.ts\<close>, \<open>session-file.ts\<close> and
  \<open>runDirectoryName\<close> of \<open>run-directory.ts\<close> in \<open>src/ts/packages/sdk/src\<close>, with the contract the comments
  state as the predicate \<open>portable\<close>.  The hexadecimal SHA-256 digest of a text is a parameter.
\<close>

section \<open>The stem\<close>

definition MAX_STEM :: nat where
  "MAX_STEM = 48"

definition HASH_LENGTH :: nat where
  "HASH_LENGTH = 12"

text \<open>The character class \<open>[A-Za-z0-9._-]\<close>.\<close>

definition stem_unit :: "16 word \<Rightarrow> bool" where
  "stem_unit c \<longleftrightarrow> is_alnum c \<or> c = 0x2E \<or> c = 0x5F \<or> c = 0x2D"

text \<open>
  \<open>id.replace(/[^A-Za-z0-9._-]/gu, '_')\<close>: with the flag \<open>u\<close> the pattern consumes code points, so a
  surrogate pair becomes one underscore and a surrogate alone becomes one as well.
\<close>

fun replace_unsafe :: "jstring \<Rightarrow> jstring" where
  "replace_unsafe [] = []"
| "replace_unsafe [c] = [if stem_unit c then c else 0x5F]"
| "replace_unsafe (c # d # s) =
     (if is_high_surrogate c \<and> is_low_surrogate d then 0x5F # replace_unsafe s
      else (if stem_unit c then c else 0x5F) # replace_unsafe (d # s))"

text \<open>The flag \<open>i\<close>, on the characters that occur in a stem.\<close>

definition to_upper :: "16 word \<Rightarrow> 16 word" where
  "to_upper c = (if is_lower c then c - 0x20 else c)"

definition device_names :: "jstring list" where
  "device_names = map js [''CON'', ''PRN'', ''AUX'', ''NUL'',
     ''COM1'', ''COM2'', ''COM3'', ''COM4'', ''COM5'', ''COM6'', ''COM7'', ''COM8'', ''COM9'',
     ''LPT1'', ''LPT2'', ''LPT3'', ''LPT4'', ''LPT5'', ''LPT6'', ''LPT7'', ''LPT8'', ''LPT9'']"

definition at_dot_or_end :: "jstring \<Rightarrow> bool" where
  "at_dot_or_end rest \<longleftrightarrow> (case rest of [] \<Rightarrow> True | c # _ \<Rightarrow> c = 0x2E)"

definition RESERVED_DEVICE :: "jstring \<Rightarrow> bool" where
  "RESERVED_DEVICE s \<longleftrightarrow> list_ex (\<lambda>n. map to_upper (take (length n) s) = n \<and> at_dot_or_end (drop (length n) s)) device_names"

definition starts_portably :: "jstring \<Rightarrow> bool" where
  "starts_portably s \<longleftrightarrow> (case s of [] \<Rightarrow> False | c # _ \<Rightarrow> is_alnum c \<or> c = 0x5F)"

definition safeStem :: "jstring \<Rightarrow> jstring" where
  "safeStem ident =
     (let safe = replace_unsafe ident in
      if safe = [] then js ''_''
      else
        let safe = (if \<not> starts_portably safe then js ''_'' @ drop 1 safe else safe);
            safe = take MAX_STEM safe
        in if RESERVED_DEVICE safe then js ''_'' @ drop 1 safe else safe)"

section \<open>Names\<close>

definition shortHash :: "(jstring \<Rightarrow> jstring) \<Rightarrow> jstring \<Rightarrow> jstring" where
  "shortHash sha256 ident = take HASH_LENGTH (sha256 ident)"

definition runDirectoryName :: "(jstring \<Rightarrow> jstring) \<Rightarrow> jstring \<Rightarrow> jstring" where
  "runDirectoryName sha256 ident = safeStem ident @ js ''-'' @ shortHash sha256 ident"

definition sessionFileName :: "(jstring \<Rightarrow> jstring) \<Rightarrow> jstring \<Rightarrow> jstring" where
  "sessionFileName sha256 ident = safeStem ident @ js ''-'' @ shortHash sha256 ident @ js ''.ndjson''"

section \<open>What a portable name is\<close>

definition portable :: "jstring \<Rightarrow> bool" where
  "portable s \<longleftrightarrow> starts_portably s \<and> list_all stem_unit s \<and> \<not> RESERVED_DEVICE s"

lemma alnum_stem: "is_alnum c \<Longrightarrow> stem_unit c"
  by (simp add: stem_unit_def)

lemma stem_unit_no_surrogate: "stem_unit c \<Longrightarrow> \<not> is_high_surrogate c \<and> \<not> is_low_surrogate c"
  by (auto simp: stem_unit_def char_class_defs word_le_nat_alt)

lemma replace_unsafe_units: "list_all stem_unit (replace_unsafe s)"
  by (induction s rule: replace_unsafe.induct) (auto simp: stem_unit_def)

lemma replace_unsafe_id: "list_all stem_unit s \<Longrightarrow> replace_unsafe s = s"
  by (induction s rule: replace_unsafe.induct) (auto dest: stem_unit_no_surrogate)

lemma replace_unsafe_Nil [simp]: "replace_unsafe s = [] \<longleftrightarrow> s = []"
  by (cases s rule: replace_unsafe.cases) auto

lemma underscore_not_reserved: "\<not> RESERVED_DEVICE (js ''_'' @ s)"
proof -
  have "to_upper 0x5F = (0x5F :: 16 word)" by (simp add: to_upper_def is_lower_def)
  then show ?thesis by (simp add: RESERVED_DEVICE_def device_names_def js_def of_char_def)
qed

lemma starts_portably_take: "starts_portably (take MAX_STEM s) \<longleftrightarrow> starts_portably s"
  by (cases s) (simp_all add: starts_portably_def MAX_STEM_def)

lemma underscore_starts: "starts_portably (js ''_'' @ s)" "stem_unit 0x5F"
  by (simp_all add: starts_portably_def js_def of_char_def stem_unit_def)

lemma underscore_units: "list_all stem_unit s \<Longrightarrow> list_all stem_unit (js ''_'' @ drop n s)"
  by (auto simp: js_def of_char_def stem_unit_def list_all_iff dest: in_set_dropD)

lemma safeStem_portable: "portable (safeStem s)"
proof (cases "s = []")
  case True
  then show ?thesis
    using underscore_starts(1) [of "[]"] underscore_units [of "[]" 0] underscore_not_reserved [of "[]"]
    by (simp add: safeStem_def portable_def)
next
  case False
  define t where "t = (if \<not> starts_portably (replace_unsafe s) then js ''_'' @ drop 1 (replace_unsafe s) else replace_unsafe s)"
  have "starts_portably t" "list_all stem_unit t"
    using underscore_starts(1) replace_unsafe_units underscore_units [OF replace_unsafe_units] by (auto simp: t_def)
  then have t: "starts_portably (take MAX_STEM t)" "list_all stem_unit (take MAX_STEM t)"
    by (auto simp: starts_portably_take list_all_iff dest!: in_set_takeD)
  have "safeStem s = (if RESERVED_DEVICE (take MAX_STEM t) then js ''_'' @ drop 1 (take MAX_STEM t) else take MAX_STEM t)"
    using False by (simp add: safeStem_def t_def Let_def)
  with t underscore_starts(1) underscore_units [OF t(2)] underscore_not_reserved show ?thesis by (simp add: portable_def)
qed

lemma safeStem_length: "length (safeStem s) \<le> MAX_STEM"
  by (auto simp: safeStem_def Let_def MAX_STEM_def)

lemma safeStem_id: "portable s \<Longrightarrow> length s \<le> MAX_STEM \<Longrightarrow> safeStem s = s"
  by (auto simp: safeStem_def portable_def replace_unsafe_id Let_def starts_portably_def)

text \<open>
  The stem of a name is portable whatever the identifier holds: at least one and at most 48
  characters of \<open>[A-Za-z0-9._-]\<close>, not starting with a dot or a dash, and never a reserved device
  name, alone or before an extension.  An identifier that is already such a name is kept as it is,
  and no other is.
\<close>

theorem safe_stem_portable:
  "portable (safeStem s) \<and> length (safeStem s) \<le> MAX_STEM \<and>
   (safeStem s = s \<longleftrightarrow> portable s \<and> length s \<le> MAX_STEM)"
  using safeStem_portable [of s] safeStem_length [of s] safeStem_id [of s] by auto

section \<open>Whole names\<close>

lemma device_name_units: "n \<in> set device_names \<Longrightarrow> 0x2D \<notin> set n \<and> n \<noteq> []"
  by (auto simp: device_names_def js_def of_char_def)

lemma reserved_prefix:
  assumes "RESERVED_DEVICE (s @ js ''-'' @ t)"
  shows "RESERVED_DEVICE s"
proof -
  from assms obtain n where n: "n \<in> set device_names" "map to_upper (take (length n) (s @ js ''-'' @ t)) = n"
    "at_dot_or_end (drop (length n) (s @ js ''-'' @ t))" by (auto simp: RESERVED_DEVICE_def list_ex_iff)
  have dash: "to_upper 0x2D = 0x2D" "js ''-'' = [0x2D]" by (simp_all add: to_upper_def is_lower_def js_def of_char_def)
  have le: "length n \<le> length s"
  proof (rule ccontr)
    assume "\<not> length n \<le> length s"
    then have "to_upper 0x2D \<in> set (map to_upper (take (length n) (s @ js ''-'' @ t)))"
      by (cases "length n - length s") (auto simp: dash)
    then show False using device_name_units [OF n(1)] unfolding n(2) dash(1) by simp
  qed
  with n(2,3) have "map to_upper (take (length n) s) = n" "at_dot_or_end (drop (length n) s)"
    by (auto simp: at_dot_or_end_def split: list.splits)
  with n(1) show ?thesis by (auto simp: RESERVED_DEVICE_def list_ex_iff)
qed

definition is_hex :: "16 word \<Rightarrow> bool" where
  "is_hex c \<longleftrightarrow> is_digit c \<or> (0x61 \<le> c \<and> c \<le> 0x66)"

lemma hex_stem: "is_hex c \<Longrightarrow> stem_unit c"
  by (auto simp: is_hex_def stem_unit_def char_class_defs word_le_nat_alt)

lemma name_portable:
  assumes "portable s" and "list_all stem_unit t"
  shows "portable (s @ js ''-'' @ t)"
proof -
  have "stem_unit 0x2D" by (simp add: stem_unit_def)
  with assms show ?thesis using reserved_prefix [of s t]
    by (cases s) (auto simp: portable_def starts_portably_def js_def of_char_def)
qed

lemma portable_name:
  assumes "portable s"
  shows "s \<noteq> []" "0x2F \<notin> set s" "s \<noteq> js ''.''" "s \<noteq> js ''..''"
proof -
  have "\<not> stem_unit 0x2F" by (simp add: stem_unit_def char_class_defs)
  with assms show "0x2F \<notin> set s" by (auto simp: portable_def list_all_iff)
qed (use assms in \<open>auto simp: portable_def starts_portably_def js_def of_char_def char_class_defs\<close>)

lemma runDirectoryName_portable:
  "list_all is_hex (sha256 r) \<Longrightarrow> portable (runDirectoryName sha256 r)"
  unfolding runDirectoryName_def shortHash_def
  by (rule name_portable [OF safeStem_portable]) (auto simp: list_all_iff dest: in_set_takeD intro: hex_stem)

lemma runDirectoryName_hash:
  assumes "runDirectoryName sha256 r = runDirectoryName sha256 s"
    and "HASH_LENGTH \<le> length (sha256 r)" "HASH_LENGTH \<le> length (sha256 s)"
  shows "shortHash sha256 r = shortHash sha256 s"
  using assms by (simp add: runDirectoryName_def shortHash_def append_eq_append_conv2 [symmetric])

end
