(* ===== verification/Run_Directory.thy ===== *)
theory Run_Directory
  imports Safe_Name
begin

text \<open>
  \<open>resolveRunDirectory\<close> of \<open>sdk/src/run-directory.ts\<close>, over the POSIX functions of \<open>node:path\<close> it calls:
  \<open>join\<close>, \<open>resolve\<close> and \<open>relative\<close>.  The working directory of the process is a parameter.
\<close>

section \<open>POSIX paths\<close>

definition dot :: jstring where "dot = js ''.''"
definition dotdot :: jstring where "dotdot = js ''..''"

text \<open>
  One segment of \<open>normalizeString\<close>: an empty segment and a dot do nothing, two dots remove the segment
  before them, or stay when a relative path starts with them.
\<close>

definition path_step :: "bool \<Rightarrow> jstring \<Rightarrow> jstring list \<Rightarrow> jstring list" where
  "path_step absolute seg stack =
     (if seg = [] \<or> seg = dot then stack
      else if seg = dotdot
      then if stack \<noteq> [] \<and> last stack \<noteq> dotdot then butlast stack
           else if absolute then stack else stack @ [dotdot]
      else stack @ [seg])"

definition normalize_segments :: "bool \<Rightarrow> jstring \<Rightarrow> jstring list" where
  "normalize_segments absolute path = fold (path_step absolute) (split_on 0x2F path) []"

definition is_absolute :: "jstring \<Rightarrow> bool" where
  "is_absolute path \<longleftrightarrow> (case path of [] \<Rightarrow> False | c # _ \<Rightarrow> c = 0x2F)"

definition path_text :: "bool \<Rightarrow> jstring list \<Rightarrow> jstring" where
  "path_text absolute segs = (if absolute then [0x2F] else []) @ join_with 0x2F segs"

definition normalize :: "jstring \<Rightarrow> jstring" where
  "normalize path =
     (if path = [] then dot
      else
        let absolute = is_absolute path; trailing = last path = 0x2F;
            text = join_with 0x2F (normalize_segments absolute path)
        in if text = [] then if absolute then [0x2F] else if trailing then dot @ [0x2F] else dot
           else (if absolute then [0x2F] else []) @ text @ (if trailing then [0x2F] else []))"

definition join :: "jstring list \<Rightarrow> jstring" where
  "join parts =
     (case filter (\<lambda>p. p \<noteq> []) parts of [] \<Rightarrow> dot | ps \<Rightarrow> normalize (join_with 0x2F ps))"

definition resolve_segments :: "jstring \<Rightarrow> jstring \<Rightarrow> jstring list" where
  "resolve_segments cwd path =
     normalize_segments True (if is_absolute path then path else cwd @ 0x2F # path)"

definition resolve :: "jstring \<Rightarrow> jstring \<Rightarrow> jstring" where
  "resolve cwd path = path_text True (resolve_segments cwd path)"

fun relative_segments :: "jstring list \<Rightarrow> jstring list \<Rightarrow> jstring list" where
  "relative_segments (x # xs) (y # ys) =
     (if x = y then relative_segments xs ys else map (\<lambda>_. dotdot) (x # xs) @ y # ys)"
| "relative_segments xs ys = map (\<lambda>_. dotdot) xs @ ys"

definition relative :: "jstring \<Rightarrow> jstring \<Rightarrow> jstring \<Rightarrow> jstring" where
  "relative cwd source target =
     join_with 0x2F (relative_segments (resolve_segments cwd source) (resolve_segments cwd target))"

section \<open>The run directory\<close>

definition RUNS_DIR :: jstring where
  "RUNS_DIR = js ''runs''"

fun starts_with :: "jstring \<Rightarrow> jstring \<Rightarrow> bool" where
  "starts_with s [] = True"
| "starts_with [] (p # ps) = False"
| "starts_with (c # s) (p # ps) = (c = p \<and> starts_with s ps)"

definition resolveRunDirectory :: "(jstring \<Rightarrow> jstring) \<Rightarrow> jstring \<Rightarrow> jstring \<Rightarrow> jstring \<Rightarrow> jstring + jstring" where
  "resolveRunDirectory sha256 cwd outputRoot rid =
     (let runs = join [outputRoot, RUNS_DIR];
          dir = join [runs, runDirectoryName sha256 rid];
          rel = relative cwd (resolve cwd runs) (resolve cwd dir)
      in if rel = [] \<or> starts_with rel dotdot \<or> 0x2F \<in> set rel
         then Inl (js ''run directory escapes the output root: '' @ rid)
         else Inr dir)"

section \<open>Normalised segments\<close>

definition plain :: "jstring \<Rightarrow> bool" where
  "plain seg \<longleftrightarrow> seg \<noteq> [] \<and> seg \<noteq> dot \<and> seg \<noteq> dotdot \<and> 0x2F \<notin> set seg"

lemma path_step_plain: "plain seg \<Longrightarrow> path_step absolute seg stack = stack @ [seg]"
  by (simp add: path_step_def plain_def)

lemma path_step_dotdot: "stack \<noteq> [] \<Longrightarrow> last stack \<noteq> dotdot \<Longrightarrow> path_step absolute dotdot stack = butlast stack"
  by (simp add: path_step_def dotdot_def dot_def)

text \<open>What normalisation produces: plain segments, after leading double dots when the path is relative.\<close>

definition normal :: "bool \<Rightarrow> jstring list \<Rightarrow> bool" where
  "normal absolute segs \<longleftrightarrow>
     (\<exists>n tail. segs = replicate n dotdot @ tail \<and> list_all plain tail \<and> (absolute \<longrightarrow> n = 0))"

lemma normal_Nil: "normal absolute []"
  by (auto simp: normal_def intro: exI [of _ 0])

lemma normal_step:
  assumes "normal absolute stack" and "0x2F \<notin> set seg"
  shows "normal absolute (path_step absolute seg stack)"
proof -
  obtain n tail where s: "stack = replicate n dotdot @ tail" "list_all plain tail" "absolute \<longrightarrow> n = 0"
    using assms(1) by (auto simp: normal_def)
  consider "seg = [] \<or> seg = dot" | "seg = dotdot" "tail = []" | "seg = dotdot" "tail \<noteq> []" | "plain seg"
    using assms(2) by (auto simp: plain_def)
  then show ?thesis
  proof cases
    case 1
    then show ?thesis using assms(1) by (auto simp: path_step_def)
  next
    case 2
    have "path_step absolute seg stack = (if absolute then [] else replicate (Suc n) dotdot)"
      using 2 s by (cases n) (auto simp: path_step_def dotdot_def dot_def replicate_append_same)
    then show ?thesis unfolding normal_def by (intro exI [of _ "if absolute then 0 else Suc n"] exI [of _ "[]"]) auto
  next
    case 3
    have "last stack = last tail" using 3 by (simp add: s(1))
    moreover have "plain (last tail)" using s(2) 3 by (simp add: list_all_iff)
    ultimately have "path_step absolute seg stack = replicate n dotdot @ butlast tail"
      using 3 s by (subst 3(1), subst path_step_dotdot) (auto simp: plain_def butlast_append)
    moreover have "list_all plain (butlast tail)" using s(2) by (auto simp: list_all_iff dest: in_set_butlastD)
    ultimately show ?thesis using s(3) unfolding normal_def by blast
  next
    case 4
    then have "path_step absolute seg stack = replicate n dotdot @ (tail @ [seg])" by (simp add: path_step_plain s(1))
    with 4 s(2,3) show ?thesis unfolding normal_def by (intro exI [of _ n] exI [of _ "tail @ [seg]"]) simp
  qed
qed

lemma split_on_units: "p \<in> set (split_on c s) \<Longrightarrow> c \<notin> set p"
  by (induction s arbitrary: p) (auto split: if_splits list.splits)

lemma normal_fold:
  "normal absolute stack \<Longrightarrow> \<forall>p \<in> set segs. 0x2F \<notin> set p \<Longrightarrow> normal absolute (fold (path_step absolute) segs stack)"
  by (induction segs arbitrary: stack) (auto intro: normal_step)

lemma normal_segments: "normal absolute (normalize_segments absolute path)"
  unfolding normalize_segments_def by (rule normal_fold) (auto intro: normal_Nil dest: split_on_units)

text \<open>Normalising first does not change what a path does to the segments before it.\<close>

lemma fold_normal_step:
  assumes "normal b stack" and "0x2F \<notin> set seg" and "b \<longrightarrow> base = []" and "normal True base"
  shows "fold (path_step True) (path_step b seg stack) base = path_step True seg (fold (path_step True) stack base)"
proof -
  let ?f = "\<lambda>segs. fold (path_step True) segs base"
  consider "seg = [] \<or> seg = dot" | "seg = dotdot" "stack \<noteq> []" "last stack \<noteq> dotdot"
    | "seg = dotdot" "stack = [] \<or> last stack = dotdot" | "plain seg" using assms(2) by (auto simp: plain_def)
  then show ?thesis
  proof cases
    case 1
    then show ?thesis by (auto simp: path_step_def)
  next
    case 2
    obtain n tail where s: "stack = replicate n dotdot @ tail" "list_all plain tail" using assms(1) by (auto simp: normal_def)
    with 2 have "tail \<noteq> []" by (metis append_Nil2 last_replicate replicate_0)
    then have pl: "plain (last stack)" using s by (simp add: list_all_iff)
    have "?f stack = ?f (butlast stack @ [last stack])" using 2 by simp
    also have "\<dots> = ?f (butlast stack) @ [last stack]" using path_step_plain [OF pl] by simp
    finally have "path_step True dotdot (?f stack) = ?f (butlast stack)"
      using 2 by (simp add: path_step_dotdot)
    then show ?thesis using 2 by (simp add: path_step_dotdot)
  next
    case 3
    show ?thesis
    proof (cases b)
      case False
      then have "path_step b seg stack = stack @ [dotdot]" using 3 by (auto simp: path_step_def dotdot_def dot_def)
      then show ?thesis using 3 by simp
    next
      case True
      then have "list_all plain stack" using assms(1) by (auto simp: normal_def)
      with 3 have "stack = []" by (metis last_in_set list_all_iff plain_def)
      then show ?thesis using 3 True assms(3) by (simp add: path_step_def dotdot_def dot_def)
    qed
  next
    case 4
    then show ?thesis by (simp add: path_step_plain)
  qed
qed

lemma fold_normalized:
  assumes "\<forall>p \<in> set segs. 0x2F \<notin> set p" and "b \<longrightarrow> base = []" and "normal True base"
  shows "fold (path_step True) (fold (path_step b) segs []) base = fold (path_step True) segs base"
  using assms(1)
proof (induction segs rule: rev_induct)
  case (snoc seg segs)
  have "normal b (fold (path_step b) segs [])" using snoc.prems by (intro normal_fold normal_Nil) simp
  from fold_normal_step [OF this _ assms(2,3), of seg] snoc show ?case by simp
qed simp

section \<open>Text and segments\<close>

lemma split_on_sep: "split_on c (s @ c # t) = split_on c s @ split_on c t"
  by (induction s) (auto split: list.splits)

lemma split_on_join_with:
  "segs \<noteq> [] \<Longrightarrow> \<forall>p \<in> set segs. c \<notin> set p \<Longrightarrow> split_on c (join_with c segs) = segs"
  by (induction c segs rule: join_with.induct) (auto simp: split_on_free split_on_append)

lemma normal_units:
  assumes "normal b segs"
  shows "\<forall>p \<in> set segs. 0x2F \<notin> set p" "\<forall>p \<in> set segs. p \<noteq> [] \<and> p \<noteq> dot"
proof -
  have d: "0x2F \<notin> set dotdot" "dotdot \<noteq> []" "dotdot \<noteq> dot" by (simp_all add: dotdot_def js_def of_char_def dot_def)
  have "0x2F \<notin> set p \<and> p \<noteq> [] \<and> p \<noteq> dot" if "p \<in> set segs" for p
  proof -
    have "p = dotdot \<or> plain p" using assms that by (auto simp: normal_def list_all_iff)
    with d show ?thesis unfolding plain_def by metis
  qed
  then show "\<forall>p \<in> set segs. 0x2F \<notin> set p" "\<forall>p \<in> set segs. p \<noteq> [] \<and> p \<noteq> dot" by simp_all
qed

lemma join_with_Nil: "\<forall>p \<in> set segs. p \<noteq> [] \<Longrightarrow> join_with c segs = [] \<longleftrightarrow> segs = []"
  by (induction c segs rule: join_with.induct) auto

lemma join_with_hd: "segs \<noteq> [] \<Longrightarrow> hd segs \<noteq> [] \<Longrightarrow> hd (join_with c segs) = hd (hd segs)"
  by (cases "(c, segs)" rule: join_with.cases) (auto simp: hd_append)

lemma fold_normalize:
  assumes "p \<noteq> []"
  shows "fold (path_step True) (split_on 0x2F (normalize p)) base =
    fold (path_step True) (normalize_segments (is_absolute p) p) base"
proof -
  let ?segs = "normalize_segments (is_absolute p) p"
  note n = normal_segments [of "is_absolute p" p]
  have dot_split: "split_on 0x2F dot = [dot]" by (simp add: dot_def js_def of_char_def)
  have slash: "split_on 0x2F (0x2F # t) = [] # split_on 0x2F t" for t :: jstring by simp
  have idle: "path_step True [] base = base" "path_step True dot base = base" for base by (simp_all add: path_step_def)
  show ?thesis
  proof (cases "?segs = []")
    case True
    then show ?thesis using assms split_on_sep [where s = dot and t = "[]"] by (simp add: normalize_def Let_def dot_split idle)
  next
    case False
    then have t: "join_with 0x2F ?segs \<noteq> []" using normal_units(2) [OF n] by (subst join_with_Nil) auto
    note s = split_on_join_with [OF False normal_units(1) [OF n]]
    have "split_on 0x2F (join_with 0x2F ?segs @ [0x2F]) = ?segs @ [[]]"
      using split_on_sep [where s = "join_with 0x2F ?segs" and t = "[]"] by (simp add: s)
    with t s show ?thesis using assms by (cases "is_absolute p") (auto simp: normalize_def Let_def idle)
  qed
qed

lemma is_absolute_normalize: "p \<noteq> [] \<Longrightarrow> is_absolute (normalize p) = is_absolute p"
proof -
  assume p: "p \<noteq> []"
  let ?segs = "normalize_segments (is_absolute p) p"
  note n = normal_units [OF normal_segments [of "is_absolute p" p]]
  have hd: "hd (join_with 0x2F ?segs) \<noteq> 0x2F" if "?segs \<noteq> []"
    using that n join_with_hd [OF that] by (metis hd_in_set)
  show ?thesis
  proof (cases "is_absolute p")
    case True
    then show ?thesis using p by (simp add: normalize_def Let_def is_absolute_def)
  next
    case False
    have d: "\<not> is_absolute dot" "\<not> is_absolute (dot @ [0x2F])" by (simp_all add: is_absolute_def dot_def js_def of_char_def)
    have "\<not> is_absolute (join_with 0x2F ?segs @ t)" if "join_with 0x2F ?segs \<noteq> []" for t
      using hd that by (cases "join_with 0x2F ?segs"; cases "?segs = []") (auto simp: is_absolute_def [of "_ # _"])
    with False d p show ?thesis by (auto simp: normalize_def Let_def)
  qed
qed

lemma resolve_relative:
  "\<not> is_absolute p \<Longrightarrow> resolve_segments cwd p = fold (path_step True) (split_on 0x2F p) (normalize_segments True cwd)"
  by (simp add: resolve_segments_def normalize_segments_def split_on_sep)

lemma resolve_normalize:
  assumes "p \<noteq> []"
  shows "resolve_segments cwd (normalize p) = resolve_segments cwd p"
proof -
  have units: "\<forall>s \<in> set (split_on 0x2F p). 0x2F \<notin> set s" by (auto dest: split_on_units)
  show ?thesis
  proof (cases "is_absolute p")
    case True
    have "fold (path_step True) (split_on 0x2F (normalize p)) [] = fold (path_step True) (normalize_segments True p) []"
      using fold_normalize [OF assms, of "[]"] True by simp
    also have "\<dots> = normalize_segments True p"
      unfolding normalize_segments_def by (rule fold_normalized) (use units normal_Nil in auto)
    finally show ?thesis using True is_absolute_normalize [OF assms] by (simp add: resolve_segments_def normalize_segments_def)
  next
    case False
    have "fold (path_step True) (normalize_segments False p) (normalize_segments True cwd) =
        fold (path_step True) (split_on 0x2F p) (normalize_segments True cwd)"
      unfolding normalize_segments_def [of False] by (rule fold_normalized) (use units normal_segments in auto)
    then show ?thesis
      using False is_absolute_normalize [OF assms] fold_normalize [OF assms] by (simp add: resolve_relative)
  qed
qed

lemma resolve_below:
  assumes "plain name"
  shows "resolve_segments cwd (join [base, name]) = resolve_segments cwd base @ [name]"
proof -
  have name: "name \<noteq> []" "split_on 0x2F name = [name]" "\<not> is_absolute name"
    using assms by (auto simp: plain_def split_on_free is_absolute_def split: list.splits)
  show ?thesis
  proof (cases "base = []")
    case True
    have "\<not> is_absolute []" "path_step True [] s = s" for s by (simp_all add: is_absolute_def path_step_def)
    then show ?thesis using True name assms
      by (simp add: join_def resolve_normalize resolve_relative path_step_plain)
  next
    case False
    then have "join [base, name] = normalize (base @ 0x2F # name)" using name by (simp add: join_def)
    moreover have "is_absolute (base @ 0x2F # name) = is_absolute base" using False by (cases base) (simp_all add: is_absolute_def)
    moreover have "resolve_segments cwd (normalize (base @ 0x2F # name)) = resolve_segments cwd (base @ 0x2F # name)"
      by (rule resolve_normalize) simp
    ultimately show ?thesis
      using name assms by (simp add: resolve_segments_def normalize_segments_def split_on_sep path_step_plain)
  qed
qed

lemma resolve_resolve: "resolve_segments cwd (resolve cwd p) = resolve_segments cwd p"
proof -
  let ?segs = "resolve_segments cwd p"
  have n: "normal True ?segs" unfolding resolve_segments_def by (rule normal_segments)
  then have pl: "list_all plain ?segs" by (auto simp: normal_def)
  have keep: "list_all plain xs \<Longrightarrow> fold (path_step True) xs base = base @ xs" for xs base
    by (induction xs arbitrary: base) (simp_all add: path_step_plain)
  have "is_absolute (resolve cwd p)" by (simp add: resolve_def path_text_def is_absolute_def)
  then have "resolve_segments cwd (resolve cwd p) = normalize_segments True (resolve cwd p)"
    by (simp add: resolve_segments_def)
  also have "\<dots> = fold (path_step True) (split_on 0x2F (join_with 0x2F ?segs)) []"
    by (simp add: normalize_segments_def resolve_def path_text_def path_step_def)
  also have "\<dots> = ?segs"
    using split_on_join_with [OF _ normal_units(1) [OF n]] keep [OF pl, of "[]"]
    by (cases "?segs = []") (simp_all add: path_step_def)
  finally show ?thesis .
qed

section \<open>Run directories lie below the output root\<close>

lemma portable_plain: "portable s \<Longrightarrow> plain s"
  using portable_name [of s] by (simp add: plain_def dot_def dotdot_def)

lemma portable_no_dots: "portable s \<Longrightarrow> \<not> starts_with s dotdot"
  by (cases s) (auto simp: portable_def starts_portably_def dotdot_def js_def of_char_def char_class_defs)

lemma relative_segments_below: "relative_segments xs (xs @ ys) = ys"
proof (induction xs)
  case Nil
  show ?case by (cases ys) simp_all
qed simp

text \<open>
  C14. A run directory never escapes: for every output root, run id and working directory the
  check succeeds, and the resolved directory is the resolved output root followed by \<open>runs\<close> and the
  name of the run, one segment that is a portable file name.
\<close>

theorem run_directory_below_runs:
  assumes "list_all is_hex (sha256 rid)"
  shows "\<exists>dir. resolveRunDirectory sha256 cwd root rid = Inr dir \<and>
    resolve_segments cwd dir = resolve_segments cwd root @ [Run_Directory.RUNS_DIR, runDirectoryName sha256 rid] \<and>
    portable (runDirectoryName sha256 rid)"
proof -
  let ?name = "runDirectoryName sha256 rid" and ?runs = "join [root, RUNS_DIR]"
  let ?dir = "join [?runs, ?name]"
  have p: "portable ?name" using assms by (rule runDirectoryName_portable)
  have r: "plain RUNS_DIR" by (simp add: plain_def RUNS_DIR_def dot_def dotdot_def) (simp add: js_def of_char_def)
  note runs = resolve_below [OF r, of cwd root]
  note dir = resolve_below [OF portable_plain [OF p], of cwd ?runs]
  have "relative cwd (resolve cwd ?runs) (resolve cwd ?dir) = ?name"
    by (simp add: relative_def resolve_resolve dir relative_segments_below)
  then have "resolveRunDirectory sha256 cwd root rid = Inr ?dir"
    using portable_name [OF p] portable_no_dots [OF p] by (simp add: resolveRunDirectory_def Let_def)
  with dir runs p show ?thesis by simp
qed

theorem run_directory_below_runs_witness:
  "\<exists>dir. resolveRunDirectory (\<lambda>_. replicate 64 0x61) (js ''/w'') (js ''../o'') (js ''../../etc'') = Inr dir \<and>
     resolve_segments (js ''/w'') dir =
       [js ''o'', js ''runs'', runDirectoryName (\<lambda>_. replicate 64 0x61) (js ''../../etc'')]"
proof -
  have "list_all is_hex (replicate 64 0x61)" by (simp add: is_hex_def list_all_iff)
  note below = run_directory_below_runs [of "\<lambda>_. replicate 64 0x61" "js ''../../etc''" "js ''/w''" "js ''../o''", OF this]
  have "resolve_segments (js ''/w'') (js ''../o'') = [js ''o'']"
    by (simp add: resolve_segments_def normalize_segments_def is_absolute_def path_step_def dot_def dotdot_def js_def of_char_def)
  with below show ?thesis by (auto simp: RUNS_DIR_def)
qed

end
