(* ===== verification/File_Sink.thy ===== *)
theory File_Sink
  imports Session_Runs Run_Directory
begin

text \<open>
  The sink that writes a session to a run directory, \<open>src/ts/packages/sdk/src/file-sink.ts\<close>.  The state is
  the text of the event file and the named files of the attachments directory; the operating system
  answers the n-th call, and may refuse any call or take only part of what is written.
\<close>

section \<open>The operating system\<close>

datatype sys_call = Write_Text | Fsync | Open_Temp | Write_Bytes | Close_File | Rename | Stat | Unlink

record disk =
  dk_fault :: "sys_call \<Rightarrow> nat \<Rightarrow> jstring option"
  dk_short :: "nat \<Rightarrow> nat option"
  dk_temp :: "nat \<Rightarrow> jstring"
  dk_sha256 :: "bytes \<Rightarrow> jstring"
  dk_stream :: "jstring \<Rightarrow> bytes list \<times> jstring option"

record file_state =
  fk_tick :: nat
  fk_closed :: bool
  fk_text :: jstring
  fk_files :: "(jstring, bytes) jmap"

type_synonym 'a file_op = "file_state \<Rightarrow> (sink_error + 'a) \<times> file_state"

definition tick :: "file_state \<Rightarrow> file_state" where
  "tick s = s\<lparr>fk_tick := fk_tick s + 1\<rparr>"

definition sys :: "disk \<Rightarrow> sys_call \<Rightarrow> (file_state \<Rightarrow> file_state) \<Rightarrow> unit file_op" where
  "sys d c f s =
     (case dk_fault d c (fk_tick s) of
        Some m \<Rightarrow> (Inl (SinkError m), tick s)
      | None \<Rightarrow> (Inr (), f (tick s)))"

text \<open>What a write call takes of the data it is given.\<close>

definition taken :: "disk \<Rightarrow> file_state \<Rightarrow> 'a list \<Rightarrow> 'a list" where
  "taken d s xs = (case dk_short d (fk_tick s) of None \<Rightarrow> xs | Some n \<Rightarrow> take n xs)"

definition drop_file :: "jstring \<Rightarrow> (jstring, bytes) jmap \<Rightarrow> (jstring, bytes) jmap" where
  "drop_file n = filter (\<lambda>p. fst p \<noteq> n)"

section \<open>Opening\<close>

definition DEFAULT_MAX_ATTACHMENT_BYTES :: int where
  "DEFAULT_MAX_ATTACHMENT_BYTES = 64 * 1024 * 1024"

definition EVENTS_DIR :: jstring where
  "EVENTS_DIR = js ''events''"

definition ATTACHMENTS_DIR :: jstring where
  "ATTACHMENTS_DIR = js ''attachments''"

definition fresh_file :: file_state where
  "fresh_file = \<lparr>fk_tick = 0, fk_closed = False, fk_text = [], fk_files = []\<rparr>"

text \<open>
  \<open>FileSink.open\<close>: the paths and the largest attachment.  \<open>mkdirs\<close> makes a directory, \<open>make_file\<close> creates a file
  that must not exist; either may throw.
\<close>

definition open_sink ::
    "(jstring \<Rightarrow> jstring) \<Rightarrow> (jstring \<Rightarrow> jstring + unit) \<Rightarrow> (jstring \<Rightarrow> jstring + unit) \<Rightarrow> jstring \<Rightarrow> jstring \<Rightarrow> int option \<Rightarrow>
     jstring + jstring \<times> jstring \<times> int" where
  "open_sink sha256 mkdirs make_file dir sid maxBytes =
     (let m = (case maxBytes of None \<Rightarrow> DEFAULT_MAX_ATTACHMENT_BYTES | Some n \<Rightarrow> n) in
      if m < 0 then Inl (js ''maxAttachmentBytes must be >= 0'')
      else
        let events = join [dir, EVENTS_DIR]; attachmentsDir = join [dir, ATTACHMENTS_DIR];
            eventFile = join [events, sessionFileName sha256 sid] in
        bind_r (mkdirs events) (\<lambda>_. bind_r (mkdirs attachmentsDir) (\<lambda>_.
        bind_r (make_file eventFile) (\<lambda>_. Inr (eventFile, attachmentsDir, m)))))"

section \<open>Events\<close>

definition sink_closed :: sink_error where
  "sink_closed = SinkError (js ''sink is closed'')"

definition event_line :: "event \<Rightarrow> jstring" where
  "event_line e = stringifyEvent e @ [0x0A]"

definition file_write :: "disk \<Rightarrow> event \<Rightarrow> unit file_op" where
  "file_write d e s =
     (if fk_closed s then (Inl sink_closed, s)
      else case sys d Write_Text (\<lambda>t. t\<lparr>fk_text := fk_text t @ taken d s (event_line e)\<rparr>) s of
             (Inl x, s) \<Rightarrow> (Inl x, s)
           | (Inr _, s) \<Rightarrow> sys d Fsync (\<lambda>t. t) s)"

section \<open>Attachments\<close>

definition discard :: "disk \<Rightarrow> jstring \<Rightarrow> file_state \<Rightarrow> file_state" where
  "discard d temp s = snd (sys d Unlink (\<lambda>t. t\<lparr>fk_files := drop_file temp (fk_files t)\<rparr>) s)"

definition matches :: "disk \<Rightarrow> jstring \<Rightarrow> nat \<Rightarrow> file_state \<Rightarrow> bool \<times> file_state" where
  "matches d target expected s =
     (case sys d Stat (\<lambda>t. t) s of
        (Inl _, s) \<Rightarrow> (False, s)
      | (Inr _, s) \<Rightarrow> (case jget (fk_files s) target of None \<Rightarrow> False | Some b \<Rightarrow> length b = expected, s))"

definition rename_file :: "disk \<Rightarrow> jstring \<Rightarrow> jstring \<Rightarrow> unit file_op" where
  "rename_file d source target s =
     (case jget (fk_files s) source of
        None \<Rightarrow> (Inl (SinkError (js ''ENOENT'')), tick s)
      | Some b \<Rightarrow> sys d Rename (\<lambda>t. t\<lparr>fk_files := jset target b (drop_file source (fk_files t))\<rparr>) s)"

definition publish :: "disk \<Rightarrow> jstring \<Rightarrow> jstring \<Rightarrow> nat \<Rightarrow> unit file_op" where
  "publish d temp sha256 expected s =
     (case rename_file d temp sha256 s of
        (Inr _, s) \<Rightarrow> (Inr (), s)
      | (Inl e, s) \<Rightarrow>
          (case matches d sha256 expected s of
             (True, s) \<Rightarrow> (Inr (), discard d temp s)
           | (False, s) \<Rightarrow> (Inl e, discard d temp s)))"

text \<open>
  The temporary file, opened exclusively, written and closed; a failure removes it.  One \<open>writeSync\<close> may take
  a part of the bytes only, the write stream of a pipeline takes all of them: \<open>part\<close> is what is written.
\<close>

definition write_temp :: "disk \<Rightarrow> jstring \<Rightarrow> (file_state \<Rightarrow> bytes) \<Rightarrow> unit file_op" where
  "write_temp d temp part s =
     (case (if jget (fk_files s) temp \<noteq> None then (Inl (SinkError (js ''EEXIST'')), tick s)
            else sys d Open_Temp (\<lambda>t. t\<lparr>fk_files := jset temp [] (fk_files t)\<rparr>) s) of
        (Inl e, s) \<Rightarrow> (Inl e, discard d temp s)
      | (Inr _, s) \<Rightarrow>
          (case sys d Write_Bytes (\<lambda>t. t\<lparr>fk_files := jset temp (part s) (fk_files t)\<rparr>) s of
             (written, s) \<Rightarrow>
               (case sys d Close_File (\<lambda>t. t) s of
                  (Inl e, s) \<Rightarrow> (Inl e, discard d temp s)
                | (Inr _, s) \<Rightarrow>
                    (case written of Inl e \<Rightarrow> (Inl e, discard d temp s) | Inr _ \<Rightarrow> (Inr (), s)))))"

definition stored_as :: "jstring \<Rightarrow> nat \<Rightarrow> (sink_error + unit) \<times> file_state \<Rightarrow> (sink_error + stored_attachment) \<times> file_state" where
  "stored_as sha256 expected r =
     (case r of (Inl e, s) \<Rightarrow> (Inl e, s) | (Inr _, s) \<Rightarrow> (Inr \<lparr>sa_sha256 = sha256, sa_sizeBytes = expected\<rparr>, s))"

definition file_store :: "disk \<Rightarrow> nat \<Rightarrow> bytes \<Rightarrow> stored_attachment file_op" where
  "file_store d limit bs s =
     (if fk_closed s then (Inl sink_closed, s)
      else if length bs > limit then (Inl (AttachmentTooLarge limit), s)
      else
        let sha256 = dk_sha256 d bs; temp = dk_temp d (fk_tick s) in
        case write_temp d temp (\<lambda>s. taken d s bs) s of
          (Inl e, s) \<Rightarrow> (Inl e, s)
        | (Inr _, s) \<Rightarrow> stored_as sha256 (length bs) (publish d temp sha256 (length bs) s))"

text \<open>
  The pipeline of \<open>storeAttachmentStream\<close>: the counter refuses the chunk that exceeds the limit, the
  others are hashed and written.  The result is what was written and the error that stopped it.
\<close>

fun stream_content :: "nat \<Rightarrow> jstring option \<Rightarrow> bytes list \<Rightarrow> bytes \<Rightarrow> bytes \<times> sink_error option" where
  "stream_content limit stop [] acc = (acc, map_option SinkError stop)"
| "stream_content limit stop (c # cs) acc =
     (if length acc + length c > limit then (acc, Some (AttachmentTooLarge limit))
      else stream_content limit stop cs (acc @ c))"

definition file_store_stream :: "disk \<Rightarrow> nat \<Rightarrow> jstring \<Rightarrow> stored_attachment file_op" where
  "file_store_stream d limit path s =
     (if fk_closed s then (Inl sink_closed, s)
      else
        let temp = dk_temp d (fk_tick s); (chunks, stop) = dk_stream d path;
            (bs, failure) = stream_content limit stop chunks []; sha256 = dk_sha256 d bs in
        case write_temp d temp (\<lambda>s. bs) s of
          (Inl e, s) \<Rightarrow> (Inl e, s)
        | (Inr _, s) \<Rightarrow>
            (case failure of
               Some e \<Rightarrow> (Inl e, discard d temp s)
             | None \<Rightarrow> stored_as sha256 (length bs) (publish d temp sha256 (length bs) s)))"

definition file_close :: "disk \<Rightarrow> unit file_op" where
  "file_close d s =
     (if fk_closed s then (Inr (), s) else sys d Close_File (\<lambda>t. t) (s\<lparr>fk_closed := True\<rparr>))"

definition file_sink :: "disk \<Rightarrow> nat \<Rightarrow> file_state report_sink" where
  "file_sink d limit = \<lparr>maxAttachmentBytes = limit, sink_write = file_write d, storeAttachment = file_store d limit,
     storeAttachmentStream = file_store_stream d limit, sink_close = file_close d\<rparr>"

end
