(* ===== verification/Event_Text.thy ===== *)
theory Event_Text
  imports Session_Log
begin

text \<open>
  The text of an event is one line: \<open>JSON.stringify\<close> escapes every line break, so the lines of a file of
  written events are the texts of its events.
\<close>

lemma hex_digit_line: "n < 16 \<Longrightarrow> hex_digit n \<noteq> 0x0A"
proof -
  have "\<forall>n \<in> set [0..<16]. hex_digit n \<noteq> 0x0A" by code_simp
  then show "n < 16 \<Longrightarrow> hex_digit n \<noteq> 0x0A" by simp
qed

lemma unicode_escape_line: "0x0A \<notin> set (unicode_escape c)"
proof -
  have "unat c < 65536" using unsigned_less [of c] by simp
  then have "unat c div 4096 < 16" by (simp add: div_less_iff_less_mult)
  moreover have "hex_digit (m mod 16) \<noteq> 0x0A" for m by (rule hex_digit_line) simp
  ultimately show ?thesis using hex_digit_line by (auto simp: unicode_escape_def Let_def)
qed

lemma escape_unit_line: "0x0A \<notin> set (escape_unit c)"
  using unicode_escape_line [of c] by (simp add: escape_unit_def)

lemma escape_string_line: "0x0A \<notin> set (escape_string s)"
proof (induction s rule: escape_string.induct)
  case (3 c d s)
  have "\<not> is_high_surrogate 0x0A" "\<not> is_low_surrogate 0x0A" by code_simp+
  with 3 escape_unit_line [of c] show ?case by auto
qed (simp_all add: escape_unit_line)

lemma quote_string_line [simp]: "0x0A \<notin> set (quote_string s)"
  using escape_string_line [of s] by (simp add: quote_string_def js_def of_char_def)

lemma show_nat_line: "0x0A \<notin> set (show_nat n)"
proof (induction n rule: show_nat.induct)
  case (1 n)
  have "\<forall>m \<in> set [0..<10]. 0x30 + of_nat m \<noteq> (0x0A :: 16 word)" by code_simp
  then have "0x30 + of_nat m \<noteq> (0x0A :: 16 word)" if "m < 10" for m using that by simp
  then have d: "(0x0A :: 16 word) \<noteq> 0x30 + of_nat (n mod 10)" "n < 10 \<Longrightarrow> (0x0A :: 16 word) \<noteq> 0x30 + of_nat n"
    by (metis mod_less_divisor zero_less_numeral, metis)
  show ?case
  proof (cases "n < 10")
    case True
    then show ?thesis using d(2) by (subst show_nat.simps) simp
  next
    case False
    then show ?thesis using d(1) 1 by (subst show_nat.simps) simp
  qed
qed

lemma show_int_line [simp]: "0x0A \<notin> set (show_int i)"
  using show_nat_line by (auto simp: show_int_def js_def of_char_def)

text \<open>The numbers the writers print are whole.\<close>

fun whole_numbers :: "json \<Rightarrow> bool" where
  "whole_numbers (JArr vs) = list_all whole_numbers vs"
| "whole_numbers (JObj ps) = list_all (\<lambda>p. whole_numbers (snd p)) ps"
| "whole_numbers (JNum (Other _)) = False"
| "whole_numbers _ = True"

lemma join_comma_line: "\<forall>t \<in> set ts. 0x0A \<notin> set t \<Longrightarrow> 0x0A \<notin> set (join_comma ts)"
  by (induction ts rule: join_comma.induct) (auto simp: js_def of_char_def)

lemma stringify_line: "whole_numbers v \<Longrightarrow> 0x0A \<notin> set (stringify v)"
proof (induction v rule: whole_numbers.induct)
  case (1 vs)
  then show ?case by (auto simp: list_all_iff js_def of_char_def intro!: join_comma_line dest: notE)
next
  case (2 ps)
  have "\<forall>t \<in> set (map (\<lambda>p. quote_string (fst p) @ js '':'' @ stringify (snd p)) ps). 0x0A \<notin> set t"
    using 2 by (auto simp: list_all_iff js_def of_char_def)
  from join_comma_line [OF this] show ?case by (simp add: js_def of_char_def)
qed (simp_all add: js_def of_char_def)

definition whole_obj :: "obj \<Rightarrow> bool" where
  "whole_obj ps \<longleftrightarrow> list_all (\<lambda>p. whole_numbers (snd p)) ps"

lemma whole_obj_simps [simp]:
  "whole_numbers (JObj ps) = whole_obj ps" "whole_obj []" "whole_obj (p # ps) \<longleftrightarrow> whole_numbers (snd p) \<and> whole_obj ps"
  "whole_obj (ps @ qs) \<longleftrightarrow> whole_obj ps \<and> whole_obj qs"
  by (simp_all add: whole_obj_def)

declare whole_numbers.simps(2) [simp del]

lemma whole_omit [simp]:
  "whole_obj (omitUndefined ps) \<longleftrightarrow> list_all (\<lambda>p. case snd p of None \<Rightarrow> True | Some v \<Rightarrow> whole_numbers v) ps"
  by (induction ps) (auto simp: omitUndefined_def map_filter_def split: option.splits)

declare omitUndefined_simps [simp del]

lemma option_whole: "(case map_option f x of None \<Rightarrow> True | Some v \<Rightarrow> whole_numbers v) \<longleftrightarrow> (case x of None \<Rightarrow> True | Some y \<Rightarrow> whole_numbers (f y))"
  by (cases x) simp_all

lemma whole_parts:
  "whole_obj (writeComponent c)" "whole_obj (writeLocation l)" "whole_obj (write_executor x)"
  "whole_obj (write_source y)" "whole_obj (writeSegment g)"
  by (simp_all add: writeComponent_def writeLocation_def write_executor_def write_source_def writeSegment_def option_whole
      split: option.splits)

lemma whole_failure: "whole_obj (writeFailure f)"
  by (simp add: writeFailure_def option_whole whole_parts split: option.splits)

lemma whole_options:
  "case writeFailures fs of None \<Rightarrow> True | Some v \<Rightarrow> whole_numbers v"
  "case write_map m of None \<Rightarrow> True | Some v \<Rightarrow> whole_numbers v"
  "case write_tags t of None \<Rightarrow> True | Some v \<Rightarrow> whole_numbers v"
  by (simp_all add: writeFailures_def write_tags_def whole_failure list_all_iff split: option.splits)
    (simp add: write_map_def whole_obj_def list_all_iff split: option.splits)

lemmas whole_simps = option_whole whole_parts whole_failure whole_options list_all_iff

lemma whole_test: "whole_obj (write_test t)"
  by (simp add: write_test_def whole_simps split: option.split)

lemma whole_payload: "is_input p \<Longrightarrow> whole_obj (writePayload p)"
  by (cases p) (simp_all add: write_session_started_def write_session_finished_def write_attempt_started_def
      write_attempt_finished_def write_step_started_def write_step_finished_def write_attachment_added_def
      write_scope_failed_def whole_simps whole_test split: option.split)

lemma stringifyEvent_line:
  assumes "is_input (payload e)"
  shows "0x0A \<notin> set (stringifyEvent e)"
proof -
  have "whole_numbers (eventToObject e)"
    using whole_payload [OF assms] by (simp add: eventToObject_def split: option.splits)
  then show ?thesis unfolding stringifyEvent_def by (rule stringify_line)
qed

lemma split_lines:
  assumes "\<forall>t \<in> set ts. c \<notin> set t"
  shows "split_on c (concat (map (\<lambda>t. t @ [c]) ts)) = ts @ [[]]"
  using assms by (induction ts) (simp_all add: split_on_append)

end
