(* ===== verification/File_Sink_Properties.thy ===== *)
theory File_Sink_Properties
  imports File_Sink Event_Text
begin

text \<open>
  The sink on the file system: published attachments hold the bytes their name is the hash of, and on a
  disk that completes its writes the event file is the log of the session, line by line.
\<close>

section \<open>Attachments\<close>

text \<open>A file that is not a temporary one is named by the hash of what it holds.\<close>

definition addressed :: "disk \<Rightarrow> file_state \<Rightarrow> bool" where
  "addressed d s \<longleftrightarrow> (\<forall>n b. jget (fk_files s) n = Some b \<longrightarrow> n \<in> range (dk_temp d) \<or> dk_sha256 d b = n)"

text \<open>A temporary name starts with a dot, a hash has hexadecimal digits only.\<close>

definition separate :: "disk \<Rightarrow> bool" where
  "separate d \<longleftrightarrow> (\<forall>n b. dk_temp d n \<noteq> dk_sha256 d b)"

definition whole_writes :: "disk \<Rightarrow> bool" where
  "whole_writes d \<longleftrightarrow> (\<forall>n. dk_short d n = None)"

definition store_keeps :: "disk \<Rightarrow> file_state \<Rightarrow> file_state \<Rightarrow> bool" where
  "store_keeps d s s' \<longleftrightarrow> fk_text s' = fk_text s \<and> (addressed d s \<longrightarrow> addressed d s') \<and>
     (\<forall>n. n \<notin> range (dk_temp d) \<longrightarrow> jget (fk_files s) n \<noteq> None \<longrightarrow> jget (fk_files s') n \<noteq> None)"

lemma store_keeps_refl [simp]: "store_keeps d s s"
  by (simp add: store_keeps_def)

lemma store_keeps_trans [trans]: "store_keeps d s t \<Longrightarrow> store_keeps d t u \<Longrightarrow> store_keeps d s u"
  by (simp add: store_keeps_def)

lemma tick_simps [simp]:
  "fk_text (tick s) = fk_text s" "fk_files (tick s) = fk_files s" "fk_closed (tick s) = fk_closed s"
  by (simp_all add: tick_def)

lemma drop_file_get [simp]: "jget (drop_file n m) k = (if k = n then None else jget m k)"
  by (induction m) (auto simp: drop_file_def)

lemma sys_result:
  "sys d c f s = (r, s') \<Longrightarrow> (\<exists>m. r = Inl (SinkError m) \<and> s' = tick s) \<or> (r = Inr () \<and> s' = f (tick s))"
  by (auto simp: sys_def split: option.splits)

lemma keeps_tick [simp]: "store_keeps d s (tick s)"
  by (simp add: store_keeps_def addressed_def)

lemma addressedD: "addressed d s \<Longrightarrow> jget (fk_files s) n = Some b \<Longrightarrow> n \<notin> range (dk_temp d) \<Longrightarrow> dk_sha256 d b = n"
  by (auto simp: addressed_def)

lemma addressed_cong: "fk_files s' = fk_files s \<Longrightarrow> addressed d s' = addressed d s"
  by (simp add: addressed_def)

lemma keeps_same: "fk_files s' = fk_files s \<Longrightarrow> fk_text s' = fk_text s \<Longrightarrow> store_keeps d s s'"
  using addressed_cong [of s' s d] by (simp add: store_keeps_def)

lemma keeps_temp:
  assumes "fk_text s' = fk_text s" and "\<And>n. n \<noteq> dk_temp d i \<Longrightarrow> jget (fk_files s') n = jget (fk_files s) n"
  shows "store_keeps d s s'"
proof -
  have same: "jget (fk_files s') n = jget (fk_files s) n" if "n \<notin> range (dk_temp d)" for n using that assms(2) by blast
  have "n \<in> range (dk_temp d) \<or> dk_sha256 d b = n" if "addressed d s" "jget (fk_files s') n = Some b" for n b
    using addressedD [OF that(1)] same that(2) by fastforce
  with assms(1) same show ?thesis by (simp add: store_keeps_def addressed_def)
qed

lemma discard_result:
  "discard d temp s = tick s \<or> discard d temp s = (tick s)\<lparr>fk_files := drop_file temp (fk_files s)\<rparr>"
  by (simp add: discard_def sys_def split: option.splits)

lemma discard_keeps: "store_keeps d s (discard d (dk_temp d i) s)"
  using discard_result [of d "dk_temp d i" s] by (rule disjE) (auto intro: keeps_temp)

lemma discard_other: "n \<noteq> temp \<Longrightarrow> jget (fk_files (discard d temp s)) n = jget (fk_files s) n"
  using discard_result [of d temp s] by (rule disjE) simp_all

lemma matches_spec:
  assumes "matches d n m s = (b, s')"
  shows "fk_text s' = fk_text s" "fk_files s' = fk_files s" "b \<Longrightarrow> \<exists>x. jget (fk_files s) n = Some x \<and> length x = m"
  using assms by (simp_all add: matches_def sys_def split: option.splits) auto

lemma rename_result:
  assumes "rename_file d temp n s = (r, s')" and "jget (fk_files s) temp = Some b"
  shows "(\<exists>e. r = Inl e \<and> s' = tick s) \<or> (r = Inr () \<and> s' = (tick s)\<lparr>fk_files := jset n b (drop_file temp (fk_files s))\<rparr>)"
  using assms by (auto simp: rename_file_def dest!: sys_result)

lemma rename_keeps:
  assumes "rename_file d (dk_temp d i) n s = (r, s')" and "jget (fk_files s) (dk_temp d i) = Some b" and "dk_sha256 d b = n"
  shows "store_keeps d s s'" and "r = Inr u \<Longrightarrow> jget (fk_files s') n = Some b"
proof -
  let ?s = "(tick s)\<lparr>fk_files := jset n b (drop_file (dk_temp d i) (fk_files s))\<rparr>"
  have get: "jget (fk_files ?s) k = (if k = n then Some b else if k = dk_temp d i then None else jget (fk_files s) k)" for k
    by (simp add: update_conv')
  have ad: "k \<in> range (dk_temp d) \<or> dk_sha256 d x = k" if "addressed d s" "jget (fk_files ?s) k = Some x" for k x
    using addressedD [OF that(1), of k x] that(2) assms(3) unfolding get by (auto split: if_splits)
  have "jget (fk_files ?s) k \<noteq> None" if "k \<notin> range (dk_temp d)" "jget (fk_files s) k \<noteq> None" for k
    using that unfolding get by auto
  with ad have "store_keeps d s ?s" unfolding store_keeps_def addressed_def [of d ?s] by simp
  with rename_result [OF assms(1,2)] show "store_keeps d s s'" "r = Inr u \<Longrightarrow> jget (fk_files s') n = Some b"
    using get by auto
qed

text \<open>Publishing: on success the name holds bytes with that hash and that size, whoever published them.\<close>

lemma publish_spec:
  assumes "publish d (dk_temp d i) n m s = (r, s')" and "jget (fk_files s) (dk_temp d i) = Some b" and "dk_sha256 d b = n"
    and "length b = m"
  shows "store_keeps d s s'"
    and "separate d \<Longrightarrow> r = Inr u \<Longrightarrow> addressed d s \<Longrightarrow> \<exists>x. jget (fk_files s') n = Some x \<and> dk_sha256 d x = n \<and> length x = m"
proof -
  obtain r1 s1 where 1: "rename_file d (dk_temp d i) n s = (r1, s1)" by fastforce
  note rename = rename_keeps [OF 1 assms(2,3)]
  obtain q s2 where 2: "matches d n m s1 = (q, s2)" by fastforce
  have keeps12: "store_keeps d s1 s2" using matches_spec(1,2) [OF 2] by (simp add: store_keeps_def addressed_def)
  have after: "store_keeps d s (discard d (dk_temp d i) s2)"
    using store_keeps_trans [OF rename(1) store_keeps_trans [OF keeps12 discard_keeps]] .
  show "store_keeps d s s'" using assms(1) 1 2 rename(1) after by (auto simp: publish_def split: sum.splits bool.splits)
  assume "separate d" and r: "r = Inr u" and ad: "addressed d s"
  then have temp: "n \<notin> range (dk_temp d)" using assms(3) by (metis image_iff separate_def)
  show "\<exists>x. jget (fk_files s') n = Some x \<and> dk_sha256 d x = n \<and> length x = m"
  proof (cases r1)
    case (Inr v)
    then have "s' = s1" using assms(1) 1 by (simp add: publish_def)
    then show ?thesis using rename(2) [of v] Inr assms(3,4) by auto
  next
    case (Inl e)
    have q: q and s': "s' = discard d (dk_temp d i) s2" using assms(1) 1 2 Inl r by (auto simp: publish_def split: bool.splits)
    obtain x where x: "jget (fk_files s1) n = Some x" "length x = m" using matches_spec(3) [OF 2 q] by blast
    have "addressed d s1" using rename(1) ad by (simp add: store_keeps_def)
    then have "dk_sha256 d x = n" using x(1) temp by (auto simp: addressed_def)
    moreover have "jget (fk_files s') n = Some x"
      using x(1) temp matches_spec(2) [OF 2] unfolding s' by (subst discard_other) auto
    ultimately show ?thesis using x(2) by blast
  qed
qed

text \<open>Writing the temporary file: on success it holds what was written.\<close>

lemma write_temp_spec:
  assumes "write_temp d (dk_temp d i) part s = (r, s')" and "\<And>t. part t = bs"
  shows "store_keeps d s s'" and "r = Inr u \<Longrightarrow> jget (fk_files s') (dk_temp d i) = Some bs"
proof -
  let ?temp = "dk_temp d i"
  let ?open = "if jget (fk_files s) ?temp \<noteq> None then (Inl (SinkError (js ''EEXIST'')), tick s)
    else sys d Open_Temp (\<lambda>t. t\<lparr>fk_files := jset ?temp [] (fk_files t)\<rparr>) s"
  obtain r1 s1 where 1: "?open = (r1, s1)" by fastforce
  obtain r2 s2 where 2: "sys d Write_Bytes (\<lambda>t. t\<lparr>fk_files := jset ?temp (part s1) (fk_files t)\<rparr>) s1 = (r2, s2)" by fastforce
  obtain r3 s3 where 3: "sys d Close_File (\<lambda>t. t) s2 = (r3, s3)" by fastforce
  have k1: "store_keeps d s s1"
    using 1 by (auto simp: update_conv' intro!: keeps_temp [where i = i] dest!: sys_result split: if_splits)
  have k2: "store_keeps d s1 s2" "r2 = Inr () \<Longrightarrow> jget (fk_files s2) ?temp = Some bs"
    using sys_result [OF 2] by (auto simp: update_conv' assms(2) intro!: keeps_temp [where i = i])
  have k3: "store_keeps d s2 s3" "fk_files s3 = fk_files s2" "r3 = Inr () \<or> (\<exists>e. r3 = Inl e)"
    using sys_result [OF 3] by auto
  have s': "s' = (if \<exists>e. r1 = Inl e then discard d ?temp s1 else if r2 = Inr () \<and> r3 = Inr () then s3 else discard d ?temp s3)"
    "r = Inr u \<Longrightarrow> r2 = Inr () \<and> r3 = Inr () \<and> (\<forall>e. r1 \<noteq> Inl e)"
    using assms(1) unfolding write_temp_def 1 by (auto simp: 2 3 split: sum.splits)
  show "store_keeps d s s'"
    unfolding s'(1) using k1 k2(1) k3(1) discard_keeps by (simp add: store_keeps_trans)
  show "r = Inr u \<Longrightarrow> jget (fk_files s') ?temp = Some bs"
    using s' k2(2) k3(2) by (cases r1) auto
qed

lemma stored_as_split:
  assumes "stored_as n m q = (r, s')"
  shows "s' = snd q" and "r = Inr a \<Longrightarrow> (\<exists>u. fst q = Inr u) \<and> a = \<lparr>sa_sha256 = n, sa_sizeBytes = m\<rparr>"
  using assms by (auto simp: stored_as_def split: prod.splits sum.splits)

text \<open>What a store that returns has done.\<close>

definition stored_ok :: "disk \<Rightarrow> nat \<Rightarrow> bytes \<Rightarrow> stored_attachment \<Rightarrow> file_state \<Rightarrow> bool" where
  "stored_ok d limit bs a s \<longleftrightarrow> sa_sha256 a = dk_sha256 d bs \<and> sa_sizeBytes a = length bs \<and> length bs \<le> limit \<and>
     (\<exists>x. jget (fk_files s) (sa_sha256 a) = Some x \<and> dk_sha256 d x = sa_sha256 a \<and> length x = sa_sizeBytes a)"

lemma store_spec:
  assumes "write_temp d (dk_temp d i) part s = (Inr u, s1)" and "\<And>t. part t = bs" and "length bs \<le> limit"
    and "stored_as (dk_sha256 d bs) (length bs) (publish d (dk_temp d i) (dk_sha256 d bs) (length bs) s1) = (r, s')"
  shows "store_keeps d s s'" and "separate d \<Longrightarrow> r = Inr a \<Longrightarrow> addressed d s \<Longrightarrow> stored_ok d limit bs a s'"
proof -
  note w = write_temp_spec [OF assms(1,2)]
  obtain r2 s2 where p: "publish d (dk_temp d i) (dk_sha256 d bs) (length bs) s1 = (r2, s2)" by fastforce
  note pub = publish_spec [OF p w(2) refl refl]
  note st = stored_as_split [OF assms(4) [unfolded p]]
  show k: "store_keeps d s s'" using store_keeps_trans [OF w(1) pub(1)] st(1) by simp
  show "separate d \<Longrightarrow> r = Inr a \<Longrightarrow> addressed d s \<Longrightarrow> stored_ok d limit bs a s'"
    using st pub(2) w(1) assms(3) by (auto simp: stored_ok_def store_keeps_def)
qed

lemma taken_whole: "whole_writes d \<Longrightarrow> taken d s xs = xs"
  by (simp add: taken_def whole_writes_def)

lemma file_store_cases:
  assumes "file_store d limit bs s = (r, s')"
  obtains (refused) e where "r = Inl e" "s' = s"
    | (failed) e i where "write_temp d (dk_temp d i) (\<lambda>t. taken d t bs) s = (Inl e, s')" "r = Inl e"
    | (stored) i u s1 where "length bs \<le> limit" "write_temp d (dk_temp d i) (\<lambda>t. taken d t bs) s = (Inr u, s1)"
      "stored_as (dk_sha256 d bs) (length bs) (publish d (dk_temp d i) (dk_sha256 d bs) (length bs) s1) = (r, s')"
proof (cases "fk_closed s \<or> length bs > limit")
  case True
  with assms show thesis by (auto simp: file_store_def intro: refused split: if_splits)
next
  case False
  obtain r1 s1 where w: "write_temp d (dk_temp d (fk_tick s)) (\<lambda>t. taken d t bs) s = (r1, s1)" by fastforce
  with assms False show thesis
    by (cases r1) (auto simp: file_store_def Let_def intro: failed stored [of "fk_tick s"])
qed

lemma file_store_spec:
  assumes "whole_writes d" and "file_store d limit bs s = (r, s')"
  shows "store_keeps d s s' \<and> (\<forall>a. separate d \<longrightarrow> addressed d s \<longrightarrow> r = Inr a \<longrightarrow> stored_ok d limit bs a s')"
proof -
  have part: "\<And>t. (\<lambda>t. taken d t bs) t = bs" using assms(1) by (simp add: taken_whole)
  show ?thesis
    using assms(2)
  proof (cases rule: file_store_cases)
    case (stored i u s1)
    from store_spec [OF stored(2) part stored(1,3)] show ?thesis by blast
  next
    case (failed e i)
    from write_temp_spec(1) [OF failed(1) part] failed(2) show ?thesis by simp
  qed simp
qed

lemma stream_content_bound:
  "stream_content limit stop cs acc = (bs, None) \<Longrightarrow> length acc \<le> limit \<Longrightarrow> length bs \<le> limit \<and> bs = acc @ concat cs \<and> stop = None"
proof (induction cs arbitrary: acc)
  case (Cons c cs)
  from Cons.prems Cons.IH [of "acc @ c"] show ?case by (auto split: if_splits)
qed simp

lemma file_store_stream_spec:
  assumes "file_store_stream d limit path s = (r, s')"
  shows "store_keeps d s s' \<and> (\<forall>a. separate d \<longrightarrow> addressed d s \<longrightarrow> r = Inr a \<longrightarrow>
    snd (dk_stream d path) = None \<and> stored_ok d limit (concat (fst (dk_stream d path))) a s')"
proof (cases "fk_closed s")
  case True
  with assms show ?thesis by (auto simp: file_store_stream_def)
next
  case False
  obtain bs failure where c: "stream_content limit (snd (dk_stream d path)) (fst (dk_stream d path)) [] = (bs, failure)" by fastforce
  let ?temp = "dk_temp d (fk_tick s)"
  obtain r1 s1 where w: "write_temp d ?temp (\<lambda>t. bs) s = (r1, s1)" by fastforce
  note written = write_temp_spec(1) [OF w refl]
  show ?thesis
  proof (cases r1)
    case (Inl e)
    with assms False c w written show ?thesis by (auto simp: file_store_stream_def Let_def split: prod.splits)
  next
    case (Inr u)
    show ?thesis
    proof (cases failure)
      case (Some e)
      with assms False c w Inr have "r = Inl e" "s' = discard d ?temp s1"
        by (auto simp: file_store_stream_def Let_def split: prod.splits)
      with store_keeps_trans [OF written discard_keeps] show ?thesis by simp
    next
      case None
      have st: "stored_as (dk_sha256 d bs) (length bs) (publish d ?temp (dk_sha256 d bs) (length bs) s1) = (r, s')"
        using assms False c w Inr None by (auto simp: file_store_stream_def Let_def split: prod.splits)
      have bs: "length bs \<le> limit" "bs = concat (fst (dk_stream d path))" "snd (dk_stream d path) = None"
        using stream_content_bound [OF c [unfolded None]] by auto
      from store_spec [OF w [unfolded Inr] refl bs(1) st] bs(2,3) show ?thesis by simp
    qed
  qed
qed

text \<open>
  C12. Attachments are stored by content.  On a disk whose writes are complete, whatever calls fail: a store
  keeps every published name, every published file holds bytes with the hash it is named by, and a store that
  returns gives the hash and the size of the bytes, within the limit, under a name that holds such bytes.
\<close>

theorem attachments_by_content:
  assumes "whole_writes d" and "separate d" and "addressed d s" and "file_store d limit bs s = (r, s')"
  shows "addressed d s' \<and> fk_text s' = fk_text s \<and>
    (\<forall>n. n \<notin> range (dk_temp d) \<longrightarrow> jget (fk_files s) n \<noteq> None \<longrightarrow> jget (fk_files s') n \<noteq> None) \<and>
    (case r of Inl _ \<Rightarrow> True | Inr a \<Rightarrow> stored_ok d limit bs a s')"
  using file_store_spec [OF assms(1,4)] assms(2,3) by (auto simp: store_keeps_def split: sum.split)

section \<open>The event file\<close>

text \<open>
  The file sink as an event log.  \<open>calm\<close> makes a disk flush and complete its writes; every other call may
  still fail at any time.
\<close>

definition calm :: "disk \<Rightarrow> disk" where
  "calm d = d\<lparr>dk_fault := (\<lambda>c n. if c = Fsync then None else dk_fault d c n), dk_short := (\<lambda>_. None)\<rparr>"

definition on_file :: "file_state session_options \<Rightarrow> disk \<Rightarrow> nat \<Rightarrow> file_state session_options" where
  "on_file cf d limit = cf\<lparr>so_sink := file_sink (calm d) limit\<rparr>"

definition file_good :: "disk \<Rightarrow> file_state \<times> event list \<Rightarrow> bool" where
  "file_good d k \<longleftrightarrow> fk_text (fst k) = concat (map event_line (snd k)) \<and> addressed d (fst k)"

lemma calm_simps [simp]:
  "dk_fault (calm d) Fsync n = None" "whole_writes (calm d)" "taken (calm d) s xs = xs" "dk_temp (calm d) = dk_temp d"
  "dk_sha256 (calm d) = dk_sha256 d"
  by (simp_all add: calm_def whole_writes_def taken_def)

lemma calm_same [simp]: "separate (calm d) = separate d" "addressed (calm d) = addressed d"
  by (simp_all add: separate_def addressed_def fun_eq_iff)

lemma file_write_calm:
  assumes "file_write (calm d) e s = (r, s')"
  shows "fk_files s' = fk_files s" and "fk_text s' = (case r of Inl _ \<Rightarrow> fk_text s | Inr _ \<Rightarrow> fk_text s @ event_line e)"
  using assms by (auto simp: file_write_def sys_def split: if_splits option.splits)

lemma file_write_good:
  assumes "file_write (calm d) e k = (r, k')" and "file_good d (k, es)"
  shows "file_good d (k', case r of Inl _ \<Rightarrow> es | Inr _ \<Rightarrow> es @ [e])"
  using file_write_calm [OF assms(1)] assms(2) addressed_cong [of k' k d] by (auto simp: file_good_def split: sum.splits)

lemma keeps_good: "file_good d (k, es) \<Longrightarrow> store_keeps d k k' \<Longrightarrow> file_good d (k', es)"
  by (simp add: file_good_def store_keeps_def)

lemma store_keeps_calm [simp]: "store_keeps (calm d) = store_keeps d"
  by (simp add: store_keeps_def fun_eq_iff)

lemma file_close_keeps: "file_close d s = (r, s') \<Longrightarrow> store_keeps d s s'"
  by (auto simp: file_close_def intro!: keeps_same split: if_splits dest!: sys_result)

interpretation file_log: event_log "track_options (on_file cf d limit)" snd "file_good d"
  for cf :: "file_state session_options" and d limit
proof (unfold_locales, goal_cases)
  case (1 k e u k')
  then show ?case
    by (cases k) (auto simp: track_options_def track_def on_file_def file_sink_def
        dest: file_write_good split: prod.splits sum.splits)
next
  case (2 k e x k')
  then show ?case
    by (cases k) (auto simp: track_options_def track_def on_file_def file_sink_def
        dest: file_write_good split: prod.splits sum.splits)
next
  case (3 k b r k')
  then show ?case using file_store_spec [OF calm_simps(2)]
    by (cases k) (fastforce simp: track_options_def track_def on_file_def file_sink_def intro: keeps_good split: prod.splits)
next
  case (4 k p r k')
  then show ?case using file_store_stream_spec [of "calm d"]
    by (cases k) (fastforce simp: track_options_def track_def on_file_def file_sink_def intro: keeps_good split: prod.splits)
next
  case (5 k r k')
  then show ?case using file_close_keeps [of "calm d"]
    by (cases k) (fastforce simp: track_options_def track_def on_file_def file_sink_def intro: keeps_good split: prod.splits)
qed

text \<open>A disk that flushes and completes its writes.\<close>

definition reliable :: "disk \<Rightarrow> bool" where
  "reliable d \<longleftrightarrow> whole_writes d \<and> (\<forall>n. dk_fault d Fsync n = None)"

lemma calm_reliable: "reliable d \<Longrightarrow> calm d = d"
  by (auto simp: reliable_def calm_def whole_writes_def fun_eq_iff intro!: disk.equality)

lemma fresh_good: "file_good d (fresh_file, [])"
  by (simp add: file_good_def fresh_file_def addressed_def)

text \<open>
  C8. The event file is the log of the session, over every order of calls: on a reliable disk the lines the
  validator reads from it are the texts of the accepted events, a trace of the lifecycle, followed by the
  empty piece after the last line break, and every published attachment is named by its hash.
\<close>

theorem event_file_is_the_log:
  assumes "reliable d" and "so_sink cf = file_sink d limit" and "session_runs (track_options cf) (new_session (fresh_file, [])) s"
  shows "session_trace cf (snd (rs_sink s)) \<and>
    split_on 0x0A (fk_text (fst (rs_sink s))) = map stringifyEvent (snd (rs_sink s)) @ [[]] \<and> addressed d (fst (rs_sink s))"
proof -
  let ?es = "snd (rs_sink s)"
  have cf: "on_file cf d limit = cf" using assms(2) by (simp add: on_file_def calm_reliable [OF assms(1)])
  have "file_log.session_inv cf d limit (new_session (fresh_file, []))"
    by (rule file_log.new_session_inv) (simp_all add: fresh_good)
  from file_log.keeps_inv [OF file_log.runs_keep [OF _ this]] assms(3)
  have inv: "file_log.session_inv cf d limit s" unfolding cf .
  then have trace: "session_trace cf ?es" and good: "file_good d (rs_sink s)"
    unfolding file_log.session_inv_def file_log.log_of_def by (simp_all add: cf)
  have "is_input (payload e)" if "e \<in> set ?es" for e
    using trace that by (auto simp: session_trace_def well_placed_def known_event_def in_set_conv_nth)
  then have "\<forall>t \<in> set (map stringifyEvent ?es). 0x0A \<notin> set t" using stringifyEvent_line by auto
  from split_lines [OF this] have "split_on 0x0A (fk_text (fst (rs_sink s))) = map stringifyEvent ?es @ [[]]"
    using good by (simp add: file_good_def event_line_def [abs_def] comp_def)
  with trace good show ?thesis by (simp add: file_good_def)
qed

section \<open>A quiet disk\<close>

definition quiet_disk :: disk where
  "quiet_disk = \<lparr>dk_fault = (\<lambda>_ _. None), dk_short = (\<lambda>_. None), dk_temp = (\<lambda>n. js ''.tmp-'' @ show_nat n),
     dk_sha256 = (\<lambda>b. js ''h'' @ show_nat (length b)), dk_stream = (\<lambda>_. ([], None))\<rparr>"

lemma quiet_reliable: "reliable quiet_disk" "separate quiet_disk" "whole_writes quiet_disk"
  by (simp_all add: reliable_def whole_writes_def separate_def quiet_disk_def js_def of_char_def)

theorem attachments_by_content_witness:
  "\<exists>a s'. file_store quiet_disk 10 [1, 2, 3] fresh_file = (Inr a, s') \<and> stored_ok quiet_disk 10 [1, 2, 3] a s' \<and> addressed quiet_disk s'"
proof -
  have "\<exists>a s'. file_store quiet_disk 10 [1, 2, 3] fresh_file = (Inr a, s')"
    by (simp add: file_store_def fresh_file_def Let_def write_temp_def sys_def quiet_disk_def taken_def publish_def
        rename_file_def stored_as_def tick_def)
  then obtain a s' where r: "file_store quiet_disk 10 [1, 2, 3] fresh_file = (Inr a, s')" by blast
  have "addressed quiet_disk fresh_file" by (simp add: addressed_def fresh_file_def)
  from attachments_by_content [OF quiet_reliable(3,2) this r] r show ?thesis by auto
qed

definition file_options :: "file_state session_options" where
  "file_options = \<lparr>so_runId = js ''r'', so_sessionId = js ''s'', so_sink = file_sink quiet_disk 10, so_clock = (\<lambda>_. occurredAt sample_event),
     so_ids = (\<lambda>_. js ''e''), so_host = plain_host, so_redactor = default_redactor, so_maxEventBytes = maxEventBytes,
     so_decode = (\<lambda>_. []), so_encode = (\<lambda>_. []), so_file = (\<lambda>_. Inr [])\<rparr>"

theorem event_file_is_the_log_witness:
  "\<exists>s. session_runs (track_options file_options) (new_session (fresh_file, [])) s \<and> snd (rs_sink s) = [started_event] \<and>
     split_on 0x0A (fk_text (fst (rs_sink s))) = [stringifyEvent started_event, []]"
proof -
  let ?cf = "track_options file_options"
  let ?s = "snd (emit ?cf (SessionStarted easy_start) (new_session (fresh_file, [])))"
  have "\<exists>k. sink_write (so_sink ?cf) started_event (fresh_file, []) = (Inr (), (k, [started_event]))"
    by (simp add: track_options_def track_def file_options_def file_sink_def file_write_def sys_def quiet_disk_def fresh_file_def tick_def)
  then have log: "snd (rs_sink ?s) = [started_event]"
    using started_on [of ?cf "(fresh_file, [])"] by (auto simp: like_easy_def track_options_def file_options_def)
  have runs: "session_runs ?cf (new_session (fresh_file, [])) ?s"
    unfolding session_runs_def by (rule r_into_rtranclp) (rule step_emit, simp)
  have "so_sink file_options = file_sink quiet_disk 10" by (simp add: file_options_def)
  from event_file_is_the_log [OF quiet_reliable(1) this runs] log runs show ?thesis by auto
qed

end
