(* ===== verification/Encoding.thy ===== *)
theory Encoding
  imports Project_Id
begin

text \<open>
  The encodings of \<open>node:buffer\<close> the program uses: UTF-8, decoded with the replacement of malformed input the
  encoding standard prescribes, and unpadded base64url.
\<close>

section \<open>UTF-8\<close>

definition unit_point :: "16 word \<Rightarrow> nat" where
  "unit_point c = (if is_high_surrogate c \<or> is_low_surrogate c then 0xFFFD else unat c)"

fun code_points :: "jstring \<Rightarrow> nat list" where
  "code_points [] = []"
| "code_points [c] = [unit_point c]"
| "code_points (c # d # s) =
     (if is_high_surrogate c \<and> is_low_surrogate d
      then (0x10000 + (unat c - 0xD800) * 0x400 + (unat d - 0xDC00)) # code_points s
      else unit_point c # code_points (d # s))"

definition encode_point :: "nat \<Rightarrow> 8 word list" where
  "encode_point n =
     (if n < 0x80 then [of_nat n]
      else if n < 0x800 then [of_nat (0xC0 + n div 64), of_nat (0x80 + n mod 64)]
      else if n < 0x10000 then [of_nat (0xE0 + n div 4096), of_nat (0x80 + n div 64 mod 64), of_nat (0x80 + n mod 64)]
      else [of_nat (0xF0 + n div 262144), of_nat (0x80 + n div 4096 mod 64), of_nat (0x80 + n div 64 mod 64),
            of_nat (0x80 + n mod 64)])"

definition utf8_encode :: "jstring \<Rightarrow> 8 word list" where
  "utf8_encode s = concat (map encode_point (code_points s))"

text \<open>
  The continuation bytes of a sequence: \<open>need\<close> more are expected, the next one within \<open>lower\<close> and \<open>upper\<close>.  A byte
  that does not fit ends the sequence with U+FFFD and is read again.
\<close>

fun follow :: "nat \<Rightarrow> nat \<Rightarrow> nat \<Rightarrow> nat \<Rightarrow> 8 word list \<Rightarrow> nat \<times> 8 word list" where
  "follow 0 lower upper cp bs = (cp, bs)"
| "follow (Suc need) lower upper cp [] = (0xFFFD, [])"
| "follow (Suc need) lower upper cp (b # bs) =
     (if lower \<le> unat b \<and> unat b \<le> upper then follow need 0x80 0xBF (cp * 64 + (unat b - 0x80)) bs else (0xFFFD, b # bs))"

lemma follow_shorter [simp]: "length (snd (follow need lower upper cp bs)) \<le> length bs"
  by (induction need lower upper cp bs rule: follow.induct) auto

definition decode_point :: "8 word \<Rightarrow> 8 word list \<Rightarrow> nat \<times> 8 word list" where
  "decode_point b bs =
     (let n = unat b in
      if n < 0x80 then (n, bs)
      else if 0xC2 \<le> n \<and> n \<le> 0xDF then follow 1 0x80 0xBF (n - 0xC0) bs
      else if 0xE0 \<le> n \<and> n \<le> 0xEF
      then follow 2 (if n = 0xE0 then 0xA0 else 0x80) (if n = 0xED then 0x9F else 0xBF) (n - 0xE0) bs
      else if 0xF0 \<le> n \<and> n \<le> 0xF4
      then follow 3 (if n = 0xF0 then 0x90 else 0x80) (if n = 0xF4 then 0x8F else 0xBF) (n - 0xF0) bs
      else (0xFFFD, bs))"

lemma decode_point_shorter [simp]: "length (snd (decode_point b bs)) \<le> length bs"
  by (simp add: decode_point_def Let_def)

function decode_points :: "8 word list \<Rightarrow> nat list" where
  "decode_points [] = []"
| "decode_points (b # bs) = fst (decode_point b bs) # decode_points (snd (decode_point b bs))"
  by pat_completeness auto
termination
  by (relation "measure length") (auto simp: le_imp_less_Suc)

definition utf8_decode :: "8 word list \<Rightarrow> jstring" where
  "utf8_decode bs = encode16 (decode_points bs)"

lemma unat_of_byte: "n < 256 \<Longrightarrow> unat (of_nat n :: 8 word) = n"
  by (simp add: unat_of_nat take_bit_eq_mod)

lemma decode_two:
  assumes "2 \<le> a" "a < 32" "b < 64"
  shows "decode_point (of_nat (0xC0 + a)) (of_nat (0x80 + b) # r) = (a * 64 + b, r)"
proof -
  have u: "unat (of_nat (0xC0 + a) :: 8 word) = 0xC0 + a" "unat (of_nat (0x80 + b) :: 8 word) = 0x80 + b"
    by (rule unat_of_byte, use assms in simp)+
  have lead: "decode_point (of_nat (0xC0 + a)) bs = follow 1 0x80 0xBF a bs" for bs
    unfolding decode_point_def Let_def u(1) using assms by simp
  show ?thesis unfolding lead One_nat_def follow.simps u using assms(3) by simp
qed

lemma decode_three:
  assumes "a < 16" "b < 64" "c < 64" "a = 0 \<Longrightarrow> 32 \<le> b" "a = 13 \<Longrightarrow> b < 32"
  shows "decode_point (of_nat (0xE0 + a)) (of_nat (0x80 + b) # of_nat (0x80 + c) # r) = ((a * 64 + b) * 64 + c, r)"
proof -
  have u: "unat (of_nat (0xE0 + a) :: 8 word) = 0xE0 + a" "unat (of_nat (0x80 + b) :: 8 word) = 0x80 + b"
    "unat (of_nat (0x80 + c) :: 8 word) = 0x80 + c"
    by (rule unat_of_byte, use assms(1-3) in simp)+
  have lead: "decode_point (of_nat (0xE0 + a)) bs = follow 2 (if a = 0 then 0xA0 else 0x80) (if a = 13 then 0x9F else 0xBF) a bs" for bs
    unfolding decode_point_def Let_def u(1) using assms(1) by simp
  have "(if a = 0 then 0xA0 else 0x80) \<le> 0x80 + b" "0x80 + b \<le> (if a = 13 then 0x9F else 0xBF)" using assms by auto
  then show ?thesis unfolding lead numeral_2_eq_2 follow.simps u using assms(3) by simp
qed

lemma decode_four:
  assumes "a < 5" "b < 64" "c < 64" "d < 64" "a = 0 \<Longrightarrow> 16 \<le> b" "a = 4 \<Longrightarrow> b < 16"
  shows "decode_point (of_nat (0xF0 + a)) (of_nat (0x80 + b) # of_nat (0x80 + c) # of_nat (0x80 + d) # r) =
    (((a * 64 + b) * 64 + c) * 64 + d, r)"
proof -
  have u: "unat (of_nat (0xF0 + a) :: 8 word) = 0xF0 + a" "unat (of_nat (0x80 + b) :: 8 word) = 0x80 + b"
    "unat (of_nat (0x80 + c) :: 8 word) = 0x80 + c" "unat (of_nat (0x80 + d) :: 8 word) = 0x80 + d"
    by (rule unat_of_byte, use assms(1-4) in simp)+
  have lead: "decode_point (of_nat (0xF0 + a)) bs = follow 3 (if a = 0 then 0x90 else 0x80) (if a = 4 then 0x8F else 0xBF) a bs" for bs
    unfolding decode_point_def Let_def u(1) using assms(1) by simp
  have "(if a = 0 then 0x90 else 0x80) \<le> 0x80 + b" "0x80 + b \<le> (if a = 4 then 0x8F else 0xBF)" using assms by auto
  then show ?thesis unfolding lead numeral_3_eq_3 follow.simps u using assms(3,4) by simp
qed

lemma decode_encode_point:
  assumes "scalar_value n"
  shows "\<exists>b bs. encode_point n = b # bs \<and> decode_point b (bs @ r) = (n, r)"
proof -
  have n: "n < 0x110000" "n < 0xD800 \<or> 0xE000 \<le> n" using assms by (auto simp: scalar_value_def)
  consider (one) "n < 0x80" | (two) "0x80 \<le> n" "n < 0x800" | (three) "0x800 \<le> n" "n < 0x10000" | (four) "0x10000 \<le> n" by linarith
  then show ?thesis
  proof cases
    case one
    then show ?thesis by (simp add: encode_point_def decode_point_def unat_of_byte)
  next
    case two
    then have "encode_point n = [of_nat (0xC0 + n div 64), of_nat (0x80 + n mod 64)]" by (simp add: encode_point_def)
    moreover have "2 \<le> n div 64" "n div 64 < 32" "n mod 64 < 64" using two by (simp_all add: div_less_iff_less_mult)
    moreover have "n div 64 * 64 + n mod 64 = n" by simp
    ultimately show ?thesis using decode_two [of "n div 64" "n mod 64" r] by simp
  next
    case three
    define a b c where abc: "a = n div 4096" "b = n div 64 mod 64" "c = n mod 64"
    have "n div 4096 = n div 64 div 64" by (simp add: div_mult2_eq [symmetric])
    then have v: "(a * 64 + b) * 64 + c = n" by (simp add: abc)
    have s: "a < 16" "b < 64" "c < 64" using three by (simp_all add: abc div_less_iff_less_mult)
    have lo: "32 \<le> b" if "a = 0" using v s three that by simp
    have hi: "b < 32" if "a = 13" using v s n(2) that by auto
    have e: "encode_point n = [of_nat (0xE0 + a), of_nat (0x80 + b), of_nat (0x80 + c)]"
      using three by (simp add: encode_point_def abc)
    show ?thesis using decode_three [OF s lo hi, of r] unfolding e v by simp
  next
    case four
    define a b c d where abcd: "a = n div 262144" "b = n div 4096 mod 64" "c = n div 64 mod 64" "d = n mod 64"
    have "n div 4096 = n div 64 div 64" "n div 262144 = n div 64 div 64 div 64" by (simp_all add: div_mult2_eq [symmetric])
    then have v: "((a * 64 + b) * 64 + c) * 64 + d = n" by (simp add: abcd)
    have s: "a < 5" "b < 64" "c < 64" "d < 64" using n(1) by (simp_all add: abcd div_less_iff_less_mult)
    have lo: "16 \<le> b" if "a = 0" using v s four that by simp
    have hi: "b < 16" if "a = 4" using v s n(1) that by simp
    have e: "encode_point n = [of_nat (0xF0 + a), of_nat (0x80 + b), of_nat (0x80 + c), of_nat (0x80 + d)]"
      using four by (simp add: encode_point_def abcd)
    show ?thesis using decode_four [OF s lo hi, of r] unfolding e v by simp
  qed
qed

lemma decode_encode_points: "list_all scalar_value ns \<Longrightarrow> decode_points (concat (map encode_point ns)) = ns"
proof (induction ns)
  case (Cons n ns)
  obtain b bs where "encode_point n = b # bs" "decode_point b (bs @ concat (map encode_point ns)) = (n, concat (map encode_point ns))"
    using decode_encode_point [of n "concat (map encode_point ns)"] Cons.prems by auto
  with Cons show ?case by simp
qed simp

lemma code_points_encode16: "list_all scalar_value ns \<Longrightarrow> code_points (encode16 ns) = ns"
proof (induction ns)
  case (Cons n ns)
  have sv: "scalar_value n" using Cons.prems by simp
  show ?case
  proof (cases "n < 0x10000")
    case True
    note b = utf16_basic [OF sv True]
    then show ?thesis using Cons True unat_of_unit [of n]
      by (cases "encode16 ns") (auto simp: encode16_Cons unit_point_def)
  next
    case False
    obtain c d where "utf16 n = [c, d]" "is_high_surrogate c" "is_low_surrogate d"
      "n = 0x10000 + (unat c - 0xD800) * 0x400 + (unat d - 0xDC00)" by (rule utf16_pair [OF sv False])
    then show ?thesis using Cons by (simp add: encode16_Cons)
  qed
qed (simp add: encode16_def)

text \<open>Well-formed text survives its encoding.\<close>

lemma utf8_roundtrip: "\<not> LONE_SURROGATE s \<Longrightarrow> utf8_decode (utf8_encode s) = s"
  using well_formed_encodes [of s] by (auto simp: utf8_decode_def utf8_encode_def code_points_encode16 decode_encode_points)

lemma encode_point_not_Nil [simp]: "encode_point n \<noteq> []"
  by (simp add: encode_point_def)

lemma code_points_Nil [simp]: "code_points s = [] \<longleftrightarrow> s = []"
  by (cases s rule: code_points.cases) auto

lemma utf8_encode_Nil [simp]: "utf8_encode s = [] \<longleftrightarrow> s = []"
  by (cases "code_points s") (auto simp: utf8_encode_def)

section \<open>base64url\<close>

definition sextet :: "nat \<Rightarrow> 16 word" where
  "sextet n = (if n < 26 then of_nat (0x41 + n) else if n < 52 then of_nat (0x61 + (n - 26))
     else if n < 62 then of_nat (0x30 + (n - 52)) else if n = 62 then 0x2D else 0x5F)"

definition sextet_value :: "16 word \<Rightarrow> nat option" where
  "sextet_value c = (if is_upper c then Some (unat c - 0x41) else if is_lower c then Some (unat c - 0x61 + 26)
     else if is_digit c then Some (unat c - 0x30 + 52) else if c = 0x2D then Some 62 else if c = 0x5F then Some 63 else None)"

fun base64url :: "8 word list \<Rightarrow> jstring" where
  "base64url [] = []"
| "base64url [a] = (let n = unat a * 16 in [sextet (n div 64), sextet (n mod 64)])"
| "base64url [a, b] = (let n = (unat a * 256 + unat b) * 4 in [sextet (n div 4096), sextet (n div 64 mod 64), sextet (n mod 64)])"
| "base64url (a # b # c # r) =
     (let n = (unat a * 256 + unat b) * 256 + unat c in
      sextet (n div 262144) # sextet (n div 4096 mod 64) # sextet (n div 64 mod 64) # sextet (n mod 64) # base64url r)"

text \<open>\<open>Buffer.from(s, 'base64url')\<close>, on texts of the alphabet: bits left over at the end are dropped.\<close>

fun from_sextets :: "nat list \<Rightarrow> 8 word list" where
  "from_sextets (a # b # c # d # r) =
     (let n = ((a * 64 + b) * 64 + c) * 64 + d in of_nat (n div 65536) # of_nat (n div 256 mod 256) # of_nat (n mod 256) # from_sextets r)"
| "from_sextets [a, b, c] = (let n = (a * 64 + b) * 64 + c in [of_nat (n div 1024), of_nat (n div 4 mod 256)])"
| "from_sextets [a, b] = [of_nat ((a * 64 + b) div 16)]"
| "from_sextets _ = []"

definition base64url_decode :: "jstring \<Rightarrow> 8 word list" where
  "base64url_decode s = from_sextets (List.map_filter sextet_value s)"

definition BASE64URL :: "jstring \<Rightarrow> bool" where
  "BASE64URL s \<longleftrightarrow> s \<noteq> [] \<and> list_all (\<lambda>c. is_alnum c \<or> c = 0x5F \<or> c = 0x2D) s"

lemma sextet_value_sextet: "n < 64 \<Longrightarrow> sextet_value (sextet n) = Some n"
proof -
  have "\<forall>n \<in> set [0..<64]. sextet_value (sextet n) = Some n" by code_simp
  then show "n < 64 \<Longrightarrow> sextet_value (sextet n) = Some n" by simp
qed

lemma sextet_unit: "n < 64 \<Longrightarrow> is_alnum (sextet n) \<or> sextet n = 0x5F \<or> sextet n = 0x2D"
proof -
  have "\<forall>n \<in> set [0..<64]. is_alnum (sextet n) \<or> sextet n = 0x5F \<or> sextet n = 0x2D" by code_simp
  then show "n < 64 \<Longrightarrow> is_alnum (sextet n) \<or> sextet n = 0x5F \<or> sextet n = 0x2D" by simp
qed

lemma unat_byte: "unat (b :: 8 word) < 256"
  using unsigned_less [of b] by simp

lemma sextets_two: "(n div 64 :: nat) * 64 + n mod 64 = n"
  by simp

lemma sextets_three: "((n div 4096 :: nat) * 64 + n div 64 mod 64) * 64 + n mod 64 = n"
proof -
  have "n div 4096 = n div 64 div 64" by (simp add: div_mult2_eq [symmetric])
  then show ?thesis by simp
qed

lemma sextets_four: "(((n div 262144 :: nat) * 64 + n div 4096 mod 64) * 64 + n div 64 mod 64) * 64 + n mod 64 = n"
proof -
  have "n div 4096 = n div 64 div 64" "n div 262144 = n div 64 div 64 div 64" by (simp_all add: div_mult2_eq [symmetric])
  then show ?thesis by simp
qed

lemma map_filter_sextet [simp]: "n < 64 \<Longrightarrow> List.map_filter sextet_value (sextet n # s) = n # List.map_filter sextet_value s"
  by (simp add: map_filter_def sextet_value_sextet)

lemma base64url_roundtrip: "base64url_decode (base64url bs) = bs"
  unfolding base64url_decode_def
proof (induction bs rule: base64url.induct)
  case 1
  show ?case by (simp add: map_filter_def)
next
  case (2 a)
  define n where n: "n = unat a * 16"
  have "n div 64 < 64" using unat_byte [of a] by (simp add: n div_less_iff_less_mult)
  moreover have "n div 16 = unat a" by (simp add: n)
  ultimately show ?case unfolding base64url.simps n [symmetric] Let_def by (simp add: map_filter_def sextet_value_sextet)
next
  case (3 a b)
  define n where n: "n = (unat a * 256 + unat b) * 4"
  have s: "n div 4096 < 64" "n div 64 mod 64 < 64" "n mod 64 < 64"
    using unat_byte [of a] unat_byte [of b] by (simp_all add: n div_less_iff_less_mult)
  have v: "n div 1024 = unat a" "n div 4 mod 256 = unat b" using unat_byte [of b] by (simp_all add: n)
  show ?case unfolding base64url.simps n [symmetric] Let_def
    using s sextets_three [of n] v by (simp add: map_filter_def sextet_value_sextet)
next
  case (4 a b c r)
  define n where n: "n = (unat a * 256 + unat b) * 256 + unat c"
  have s: "n div 262144 < 64" "n div 4096 mod 64 < 64" "n div 64 mod 64 < 64" "n mod 64 < 64"
    using unat_byte [of a] unat_byte [of b] unat_byte [of c] by (simp_all add: n div_less_iff_less_mult)
  have "n div 65536 = n div 256 div 256" by (simp add: div_mult2_eq [symmetric])
  moreover have "n div 256 = unat a * 256 + unat b" "n mod 256 = unat c"
    using unat_byte [of c] unfolding n mod_mult_self3 by simp_all
  ultimately have v: "n div 65536 = unat a" "n div 256 mod 256 = unat b" "n mod 256 = unat c"
    using unat_byte [of b] by simp_all
  have "List.map_filter sextet_value (base64url (a # b # c # r)) = n div 262144 # n div 4096 mod 64 # n div 64 mod 64 # n mod 64 #
      List.map_filter sextet_value (base64url r)"
    unfolding base64url.simps n [symmetric] Let_def using s by (simp add: map_filter_simps sextet_value_sextet)
  then show ?case using 4 by (simp only: from_sextets.simps Let_def sextets_four v) simp
qed

lemma base64url_shape: "list_all (\<lambda>c. is_alnum c \<or> c = 0x5F \<or> c = 0x2D) (base64url bs) \<and> length (base64url bs) mod 4 \<noteq> 1 \<and>
    (base64url bs = [] \<longleftrightarrow> bs = []) \<and> 3 * length (base64url bs) \<le> 4 * length bs + 4"
proof (induction bs rule: base64url.induct)
  case (2 a)
  show ?case using unat_byte [of a] by (auto simp: Let_def intro!: sextet_unit)
next
  case (3 a b)
  show ?case using unat_byte [of a] unat_byte [of b] by (auto simp: Let_def div_less_iff_less_mult intro!: sextet_unit)
next
  case (4 a b c r)
  then show ?case using unat_byte [of a] unat_byte [of b] unat_byte [of c]
    by (auto simp: Let_def div_less_iff_less_mult intro!: sextet_unit)
qed simp

lemma base64url_admitted: "BASE64URL (base64url bs) \<longleftrightarrow> bs \<noteq> []"
  using base64url_shape [of bs] by (auto simp: BASE64URL_def)

text \<open>Plain text takes a byte a unit.\<close>

definition ascii :: "jstring \<Rightarrow> bool" where
  "ascii s \<longleftrightarrow> list_all (\<lambda>c. c < 0x80) s"

lemma ascii_well_formed: "ascii s \<Longrightarrow> \<not> LONE_SURROGATE s \<and> length (utf8_encode s) = length s"
proof (induction s rule: code_points.induct)
  case 1
  show ?case by (simp add: utf8_encode_def)
next
  case (2 c)
  then have "\<not> is_high_surrogate c" "\<not> is_low_surrogate c" "unat c < 128"
    by (auto simp: ascii_def surrogate_unat word_less_nat_alt)
  then show ?case by (simp add: utf8_encode_def unit_point_def encode_point_def)
next
  case (3 c d s)
  then have c: "\<not> is_high_surrogate c" "\<not> is_low_surrogate c" "unat c < 128"
    by (auto simp: ascii_def surrogate_unat word_less_nat_alt)
  with 3 show ?case by (simp add: utf8_encode_def unit_point_def encode_point_def ascii_def)
qed

end
