(* ===== verification/Instants.thy ===== *)
theory Instants
  imports History_Properties
begin

text \<open>
  Operational instants, the deadlines a caller states: the parser of the service
  (\<open>src/ts/packages/http-api/src/instants.ts\<close>), the parser of the producer
  (\<open>src/ts/packages/http-client/src/instants.ts\<close>), and the text a producer sends.  A \<open>Date\<close> is its time value in
  milliseconds; a value that is not a string is \<open>None\<close>.
\<close>

section \<open>The grammar\<close>

text \<open>\<open>[01]\d|2[0-3]\<close> and \<open>[0-5]\d\<close>.\<close>

definition hour_digits :: "16 word \<Rightarrow> 16 word \<Rightarrow> bool" where
  "hour_digits a b \<longleftrightarrow> (a = 0x30 \<or> a = 0x31) \<and> is_digit b \<or> a = 0x32 \<and> 0x30 \<le> b \<and> b \<le> 0x33"

definition sixty_digits :: "16 word \<Rightarrow> 16 word \<Rightarrow> bool" where
  "sixty_digits a b \<longleftrightarrow> 0x30 \<le> a \<and> a \<le> 0x35 \<and> is_digit b"

fun scan_two :: "(16 word \<Rightarrow> 16 word \<Rightarrow> bool) \<Rightarrow> jstring \<Rightarrow> (jstring \<times> jstring) option" where
  "scan_two p (a # b # s) = (if p a b then Some ([a, b], s) else None)"
| "scan_two p _ = None"

text \<open>\<open>(\.\d{1,3})?\<close>: what follows is never a digit.\<close>

definition scan_millis :: "jstring \<Rightarrow> (jstring option \<times> jstring) option" where
  "scan_millis s =
     (case scan_unit 0x2E s of
        None \<Rightarrow> Some (None, s)
      | Some t \<Rightarrow>
          let f = takeWhile is_digit t
          in if 1 \<le> length f \<and> length f \<le> 3 then Some (Some f, dropWhile is_digit t) else None)"

definition OPERATIONAL :: "jstring \<Rightarrow> timestamp_groups option" where
  "OPERATIONAL s = do {
     (y, s) \<leftarrow> scan_digits 4 s;
     s \<leftarrow> scan_unit 0x2D s;
     (mo, s) \<leftarrow> scan_digits 2 s;
     s \<leftarrow> scan_unit 0x2D s;
     (d, s) \<leftarrow> scan_digits 2 s;
     s \<leftarrow> scan_unit 0x54 s;
     (h, s) \<leftarrow> scan_two hour_digits s;
     s \<leftarrow> scan_unit 0x3A s;
     (mi, s) \<leftarrow> scan_two sixty_digits s;
     s \<leftarrow> scan_unit 0x3A s;
     (sec, s) \<leftarrow> scan_two sixty_digits s;
     (f, s) \<leftarrow> scan_millis s;
     z \<leftarrow> scan_zone s;
     Some \<lparr>ts_year = y, ts_month = mo, ts_day = d, ts_hour = h, ts_minute = mi, ts_second = sec,
       ts_fraction = f, ts_offset = z\<rparr>
   }"

definition OPERATIONAL_INSTANT_GRAMMAR :: jstring where
  "OPERATIONAL_INSTANT_GRAMMAR = js (''an RFC 3339 instant with an explicit offset, seconds 00 to 59, and at most '' @
     ''millisecond precision, such as 2027-01-01T00:00:00Z or 2027-01-01T00:00:00.123Z'')"

definition NotAnInstant :: "jstring \<Rightarrow> jstring" where
  "NotAnInstant what = what @ js '' must be '' @ OPERATIONAL_INSTANT_GRAMMAR"

text \<open>A time value outside the range of \<open>Date\<close> is not finite.\<close>

definition time_clip :: "int \<Rightarrow> int option" where
  "time_clip t = (if \<bar>t\<bar> \<le> 8640000000000000 then Some t else None)"

section \<open>The service\<close>

definition api_parseOperationalInstant :: "jstring option \<Rightarrow> jstring \<Rightarrow> jstring + int" where
  "api_parseOperationalInstant stated what =
     (case stated of
        None \<Rightarrow> Inl (NotAnInstant what)
      | Some s \<Rightarrow>
          if OPERATIONAL s = None then Inl (NotAnInstant what)
          else case historyInstant s of
            Inl _ \<Rightarrow> Inl (NotAnInstant what)
          | Inr position \<Rightarrow>
              if leap position \<noteq> 0 then Inl (NotAnInstant what)
              else case time_clip (epochMs position) of None \<Rightarrow> Inl (NotAnInstant what) | Some t \<Rightarrow> Inr t)"

section \<open>The producer\<close>

definition client_parseOperationalInstant :: "jstring option \<Rightarrow> jstring \<Rightarrow> jstring + int" where
  "client_parseOperationalInstant stated what =
     (case stated of
        None \<Rightarrow> Inl (NotAnInstant what)
      | Some s \<Rightarrow>
          (case OPERATIONAL s of
             None \<Rightarrow> Inl (NotAnInstant what)
           | Some g \<Rightarrow>
               let year = int (digits_value (ts_year g)); month = digits_value (ts_month g);
                   day = int (digits_value (ts_day g)); days = month_days year month in
               if month < 1 \<or> month > 12 \<or> day < 1 \<or> day > days then Inl (NotAnInstant what)
               else if offset_hour g > 23 \<or> offset_minute g > 59 then Inl (NotAnInstant what)
               else case Date_parse s of
                 None \<Rightarrow> Inl (NotAnInstant what)
               | Some epoch \<Rightarrow> (case time_clip epoch of None \<Rightarrow> Inl (NotAnInstant what) | Some t \<Rightarrow> Inr t)))"

text \<open>A caller's \<open>Date\<close>; \<open>None\<close> is no \<open>Date\<close>, or an invalid one.\<close>

definition checkExpiresAt :: "int option \<Rightarrow> jstring + int" where
  "checkExpiresAt expiresAt =
     (case expiresAt of
        None \<Rightarrow> Inl (js ''expiresAt must be a valid Date: the instant after which the run may be deleted'')
      | Some t \<Rightarrow> Inr t)"

definition expiryAfter :: "jnumber \<Rightarrow> int option \<Rightarrow> jstring + int" where
  "expiryAfter retentionMs now =
     (case retentionMs of
        Other _ \<Rightarrow> Inl (js ''retentionMs must be a whole number of milliseconds of at least one'')
      | Whole r \<Rightarrow>
          if r < 1 then Inl (js ''retentionMs must be a whole number of milliseconds of at least one'')
          else case now of
            None \<Rightarrow> Inl (js ''now must be a valid Date'')
          | Some n \<Rightarrow>
              (case time_clip (n + r) of
                 None \<Rightarrow> Inl (js ''retentionMs is so large that it names no instant'')
               | Some t \<Rightarrow> Inr t))"

section \<open>The text of a date\<close>

text \<open>
  \<open>Date.prototype.toISOString\<close>: the year of a day is the greatest year that starts no later, found from an
  estimate that is off by one year at most.
\<close>

definition year_of_day :: "int \<Rightarrow> int" where
  "year_of_day d =
     (let y = 1970 + 400 * d div 146097 in
      if d < day_from_year y then y - 1 else if day_from_year (y + 1) \<le> d then y + 1 else y)"

function find_month :: "int \<Rightarrow> nat \<Rightarrow> int \<Rightarrow> nat \<times> int" where
  "find_month y m n =
     (if 12 \<le> m \<or> n < month_days y m then (m, n + 1) else find_month y (m + 1) (n - month_days y m))"
  by pat_completeness auto
termination
  by (relation "measure (\<lambda>(y, m, n). 12 - m)") auto

declare find_month.simps [simp del]

definition padded :: "nat \<Rightarrow> nat \<Rightarrow> jstring" where
  "padded width n = replicate (width - length (show_nat n)) 0x30 @ show_nat n"

definition iso_year :: "int \<Rightarrow> jstring" where
  "iso_year y = (if 0 \<le> y \<and> y \<le> 9999 then padded 4 (nat y)
     else (if y < 0 then js ''-'' else js ''+'') @ padded 6 (nat \<bar>y\<bar>))"

definition toISOString :: "int \<Rightarrow> jstring" where
  "toISOString t =
     (let d = t div 86400000; ms = nat (t mod 86400000); y = year_of_day d;
          (m, day) = find_month y 1 (d - day_from_year y)
      in iso_year y @ js ''-'' @ padded 2 m @ js ''-'' @ padded 2 (nat day) @ js ''T'' @
         padded 2 (ms div 3600000) @ js '':'' @ padded 2 (ms div 60000 mod 60) @ js '':'' @
         padded 2 (ms div 1000 mod 60) @ js ''.'' @ padded 3 (ms mod 1000) @ js ''Z'')"

end
