(* ===== verification/Instants_Properties.thy ===== *)
theory Instants_Properties
  imports Instants
begin

text \<open>
  The two parsers of deadlines agree, and a deadline survives its way to the service.
\<close>

section \<open>The grammar is part of the protocol's\<close>

lemma scan_two_digits:
  assumes "scan_two p s = Some (d, r)" and "\<And>a b. p a b \<Longrightarrow> is_digit a \<and> is_digit b"
  shows "scan_digits 2 s = Some (d, r)" and "\<exists>a b. d = [a, b] \<and> p a b"
  using assms by (cases "(p, s)" rule: scan_two.cases; auto simp: scan_digits_def numeral_2_eq_2 split: if_splits)+

lemma two_digits: "hour_digits a b \<Longrightarrow> is_digit a \<and> is_digit b" "sixty_digits a b \<Longrightarrow> is_digit a \<and> is_digit b"
  by (auto simp: hour_digits_def sixty_digits_def is_digit_def intro: order_trans)

lemma scan_millis_fraction: "scan_millis s = Some (f, r) \<Longrightarrow> scan_fraction s = Some (f, r)"
  by (auto simp: scan_millis_def scan_fraction_def Let_def split: option.splits if_splits)

lemma two_values:
  "hour_digits a b \<Longrightarrow> digits_value [a, b] \<le> 23" "sixty_digits a b \<Longrightarrow> digits_value [a, b] \<le> 59"
  by (auto simp: hour_digits_def sixty_digits_def is_digit_def digits_value_def word_le_nat_alt)

lemma scan_hour: "scan_two hour_digits s = Some (d, r) \<Longrightarrow> scan_digits 2 s = Some (d, r) \<and> digits_value d \<le> 23"
  using scan_two_digits [OF _ two_digits(1)] two_values(1) by blast

lemma scan_sixty: "scan_two sixty_digits s = Some (d, r) \<Longrightarrow> scan_digits 2 s = Some (d, r) \<and> digits_value d \<le> 59"
  using scan_two_digits [OF _ two_digits(2)] two_values(2) by blast

lemma OPERATIONAL_match:
  assumes "OPERATIONAL s = Some g"
  shows "match_timestamp s = Some g"
    and "digits_value (ts_hour g) \<le> 23" "digits_value (ts_minute g) \<le> 59" "digits_value (ts_second g) \<le> 59"
  using assms unfolding OPERATIONAL_def match_timestamp_def
  by (auto simp: bind_eq_Some_conv dest!: scan_hour scan_sixty scan_millis_fraction)

text \<open>
  The producer's parser and the service's parser are the same function: the same texts are refused, and
  an accepted text names the same millisecond, although one asks the history reader and the other checks the
  calendar itself.
\<close>

theorem instant_parsers_agree: "client_parseOperationalInstant stated what = api_parseOperationalInstant stated what"
proof (cases stated)
  case (Some s)
  show ?thesis
  proof (cases "OPERATIONAL s")
    case (Some g)
    note match = OPERATIONAL_match [OF Some]
    have date: "Date_parse s = (if calendar_ok g \<and> clock_ok g
        then Some (utc_minute g * 60000 + int (digits_value (ts_second g) * 1000 + millisecond g)) else None)"
      using match(4) by (simp add: Date_parse_def match(1))
    have hist: "historyInstant s = (if calendar_ok g \<and> clock_ok g
        then Inr \<lparr>epochMs = utc_minute g * 60000 + int (digits_value (ts_second g) * 1000 + millisecond g), leap = 0\<rparr>
        else Inl (invalid_timestamp s))"
      using match(4) by (simp add: historyInstant_def match(1) date)
    have clock: "clock_ok g \<longleftrightarrow> \<not> (offset_hour g > 23 \<or> offset_minute g > 59)"
      using match(2-4) by (auto simp: clock_ok_def)
    show ?thesis
      by (simp add: client_parseOperationalInstant_def api_parseOperationalInstant_def \<open>stated = Some s\<close> Some date hist
          calendar_ok_def clock Let_def)
  qed (simp add: client_parseOperationalInstant_def api_parseOperationalInstant_def Some)
qed (simp add: client_parseOperationalInstant_def api_parseOperationalInstant_def)

section \<open>The date of a day\<close>

lemma day_from_year_estimate:
  "400 * day_from_year y \<le> 146097 * (y - 1970) + 589" "146097 * (y - 1970) \<le> 400 * day_from_year y + 589"
proof -
  define a b c where abc: "a = (y - 1969) div 4" "b = (y - 1901) div 100" "c = (y - 1601) div 400"
  have rest: "k * (n div k) \<le> n \<and> n < k * (n div k) + k" if "0 < k" for k n :: int
    using mult_div_mod_eq [of k n] pos_mod_bound [OF that, of n] pos_mod_sign [OF that, of n] by linarith
  have "4 * a \<le> y - 1969" "y - 1969 < 4 * a + 4" using rest [of 4 "y - 1969"] by (simp_all add: abc)
  moreover have "100 * b \<le> y - 1901" "y - 1901 < 100 * b + 100" using rest [of 100 "y - 1901"] by (simp_all add: abc)
  moreover have "400 * c \<le> y - 1601" "y - 1601 < 400 * c + 400" using rest [of 400 "y - 1601"] by (simp_all add: abc)
  moreover have "day_from_year y = 365 * (y - 1970) + a - b + c" by (simp add: day_from_year_def abc)
  ultimately show "400 * day_from_year y \<le> 146097 * (y - 1970) + 589" "146097 * (y - 1970) \<le> 400 * day_from_year y + 589"
    by (simp_all add: algebra_simps)
qed

lemma year_of_day: "day_from_year (year_of_day d) \<le> d \<and> d < day_from_year (year_of_day d + 1)"
proof -
  define y where y: "y = 1970 + 400 * d div 146097"
  have est: "146097 * (y - 1970) \<le> 400 * d" "400 * d < 146097 * (y - 1970) + 146097"
    unfolding y using mult_div_mod_eq [of 146097 "400 * d"] pos_mod_bound [of 146097 "400 * d"] pos_mod_sign [of 146097 "400 * d"]
    by simp_all
  have low: "day_from_year (y - 1) \<le> d" using day_from_year_estimate(1) [of "y - 1"] est by (simp add: algebra_simps)
  have high: "d < day_from_year (y + 1 + 1)" using day_from_year_estimate(2) [of "y + 1 + 1"] est by (simp add: algebra_simps)
  from low high show ?thesis by (simp add: year_of_day_def y [symmetric] Let_def)
qed

lemma find_month:
  assumes "1 \<le> m" "m \<le> 12" "0 \<le> n" "n < sum_list (map (month_days y) [m..<13])" and "find_month y m n = (m', d)"
  shows "m \<le> m' \<and> m' \<le> 12 \<and> 1 \<le> d \<and> d \<le> month_days y m' \<and> sum_list (map (month_days y) [m..<m']) + d - 1 = n"
  using assms
proof (induction y m n rule: find_month.induct)
  case (1 y m n)
  have sum: "sum_list (map (month_days y) [m..<k]) = month_days y m + sum_list (map (month_days y) [m + 1..<k])" if "m < k" for k
    using that by (simp add: upt_conv_Cons)
  show ?case
  proof (cases "12 \<le> m \<or> n < month_days y m")
    case True
    then have "m' = m" "d = n + 1" using 1(6) by (simp_all add: find_month.simps [of y m n])
    with True 1(2-5) sum [of 13] show ?thesis by auto
  next
    case False
    then have "find_month y (m + 1) (n - month_days y m) = (m', d)" using 1(6) by (simp add: find_month.simps [of y m n])
    from 1(1) [OF False _ _ _ _ this] False 1(2-5) sum [of 13] sum [of m'] show ?thesis by auto
  qed
qed

lemma civil_date:
  assumes "find_month (year_of_day d) 1 (d - day_from_year (year_of_day d)) = (m, day)"
  shows "date_ok (year_of_day d) m day" and "day_number (year_of_day d) m day = d"
proof -
  let ?y = "year_of_day d"
  have n: "0 \<le> d - day_from_year ?y" "d - day_from_year ?y < sum_list (map (month_days ?y) [1..<13])"
    using year_of_day [of d] unfolding year_sum by (simp_all add: day_from_year_Suc split: if_splits)
  from find_month [OF _ _ n assms] show "date_ok ?y m day" "day_number ?y m day = d"
    by (simp_all add: date_ok_def day_number_def)
qed

lemma month_days_at_most: "month_days y m \<le> 31"
proof -
  have "list_all (\<lambda>d. d \<le> 31) DAYS_IN_MONTH" by (simp add: DAYS_IN_MONTH_def)
  then show ?thesis by (simp add: month_days_def list_all_length)
qed

section \<open>Padded numbers\<close>

lemma show_nat_length: "n < 10 ^ w \<Longrightarrow> 0 < w \<Longrightarrow> length (show_nat n) \<le> w"
proof (induction n arbitrary: w rule: show_nat.induct)
  case (1 n)
  show ?case
  proof (cases "n < 10")
    case False
    then obtain v where w: "w = Suc v" "0 < v" using 1(2,3) by (cases w; cases "w - 1") auto
    then have "n div 10 < 10 ^ v" using 1(2) by (simp add: div_less_iff_less_mult mult.commute)
    from 1(1) [OF False this w(2)] show ?thesis using False w(1) by (simp add: show_nat.simps [of n])
  qed (use 1(3) in \<open>simp add: show_nat.simps [of n]\<close>)
qed

lemma digits_value_zeros: "digits_value (replicate k 0x30 @ s) = digits_value s"
proof (induction k)
  case (Suc k)
  have "digits_value (0x30 # r) = digits_value r" for r by (simp add: digits_value_def)
  with Suc show ?case by simp
qed simp

lemma padded:
  assumes "n < 10 ^ w" "0 < w"
  shows "length (padded w n) = w" "list_all is_digit (padded w n)" "digits_value (padded w n) = n"
proof -
  show "length (padded w n) = w" using show_nat_length [OF assms] by (simp add: padded_def)
  have "is_digit 0x30" by (simp add: is_digit_def)
  then show "list_all is_digit (padded w n)" using show_nat_digits [of n] by (auto simp: padded_def list_all_iff)
  show "digits_value (padded w n) = n" by (simp add: padded_def digits_value_zeros)
qed

section \<open>The text of a date is a deadline\<close>

lemma two_units:
  assumes "list_all is_digit [a, b]"
  shows "digits_value [a, b] \<le> 23 \<Longrightarrow> hour_digits a b" and "digits_value [a, b] \<le> 59 \<Longrightarrow> sixty_digits a b"
proof -
  have u: "48 \<le> unat a" "unat a \<le> 57" "48 \<le> unat b" "unat b \<le> 57"
    using assms by (simp_all add: is_digit_def word_le_nat_alt)
  have v: "digits_value [a, b] = 10 * (unat a - 48) + (unat b - 48)" by (simp add: digits_value_def)
  show "hour_digits a b" if "digits_value [a, b] \<le> 23"
  proof -
    have "unat a = 48 \<or> unat a = 49 \<or> (unat a = 50 \<and> unat b \<le> 51)" using that u unfolding v by linarith
    with assms u show ?thesis by (auto simp: hour_digits_def word_unat_eq_iff word_le_nat_alt)
  qed
  show "sixty_digits a b" if "digits_value [a, b] \<le> 59"
  proof -
    have "unat a \<le> 53" using that u unfolding v by linarith
    with assms u show ?thesis by (simp add: sixty_digits_def word_le_nat_alt)
  qed
qed

lemma scan_two_of_digits:
  assumes "length d = 2" "list_all is_digit d"
  shows "digits_value d \<le> 23 \<Longrightarrow> scan_two hour_digits (d @ r) = Some (d, r)"
    and "digits_value d \<le> 59 \<Longrightarrow> scan_two sixty_digits (d @ r) = Some (d, r)"
proof -
  obtain a b where d: "d = [a, b]" using assms(1) by (auto simp: numeral_2_eq_2 length_Suc_conv)
  show "digits_value d \<le> 23 \<Longrightarrow> scan_two hour_digits (d @ r) = Some (d, r)"
    "digits_value d \<le> 59 \<Longrightarrow> scan_two sixty_digits (d @ r) = Some (d, r)"
    using two_units [of a b] assms(2) by (simp_all add: d)
qed

lemma OPERATIONAL_of_text:
  assumes "wf_groups g" and "digits_value (ts_hour g) \<le> 23" "digits_value (ts_minute g) \<le> 59" "digits_value (ts_second g) \<le> 59"
    and f: "ts_fraction g = Some f" "length f \<le> 3"
  shows "OPERATIONAL (timestamp_text g) = Some g"
proof -
  have wf: "length (ts_year g) = 4" "length (ts_month g) = 2" "length (ts_day g) = 2" "length (ts_hour g) = 2"
    "length (ts_minute g) = 2" "length (ts_second g) = 2" "list_all is_digit (ts_year g)"
    "list_all is_digit (ts_month g)" "list_all is_digit (ts_day g)" "list_all is_digit (ts_hour g)"
    "list_all is_digit (ts_minute g)" "list_all is_digit (ts_second g)"
    using assms(1) by (simp_all add: wf_groups_def)
  have "scan_millis (fraction_text g @ zone_text g) = Some (ts_fraction g, zone_text g)"
    using scan_fraction_text [OF assms(1)] f
    by (auto simp: scan_fraction_def scan_millis_def fraction_text_def Let_def split: if_splits)
  with wf assms(2-4) show ?thesis
    by (simp add: OPERATIONAL_def timestamp_text_def scan_digits_append scan_two_of_digits scan_zone_text [OF assms(1)])
qed

text \<open>The groups of the text of a time value.\<close>

definition iso_groups :: "int \<Rightarrow> timestamp_groups" where
  "iso_groups t =
     (let d = t div 86400000; ms = nat (t mod 86400000); y = year_of_day d;
          (m, day) = find_month y 1 (d - day_from_year y)
      in \<lparr>ts_year = padded 4 (nat y), ts_month = padded 2 m, ts_day = padded 2 (nat day),
          ts_hour = padded 2 (ms div 3600000), ts_minute = padded 2 (ms div 60000 mod 60),
          ts_second = padded 2 (ms div 1000 mod 60), ts_fraction = Some (padded 3 (ms mod 1000)), ts_offset = None\<rparr>)"

lemma iso_groups_text:
  assumes "0 \<le> year_of_day (t div 86400000)" "year_of_day (t div 86400000) \<le> 9999"
  shows "toISOString t = timestamp_text (iso_groups t)"
  using assms by (simp add: toISOString_def iso_groups_def timestamp_text_def fraction_text_def zone_text_def iso_year_def Let_def
      js_def of_char_def split: prod.splits)

lemma iso_groups_ok:
  assumes "0 \<le> year_of_day (t div 86400000)" "year_of_day (t div 86400000) \<le> 9999"
  shows "wf_groups (iso_groups t)" "calendar_ok (iso_groups t)" "clock_ok (iso_groups t)"
    and "digits_value (ts_hour (iso_groups t)) \<le> 23" "digits_value (ts_minute (iso_groups t)) \<le> 59"
      "digits_value (ts_second (iso_groups t)) \<le> 59"
    and "utc_minute (iso_groups t) * 60000 + int (digits_value (ts_second (iso_groups t)) * 1000 + millisecond (iso_groups t)) = t"
proof -
  define d y where dy: "d = t div 86400000" "y = year_of_day d"
  define ms where ms: "ms = nat (t mod 86400000)"
  obtain m day where fm: "find_month y 1 (d - day_from_year y) = (m, day)" by fastforce
  note date = civil_date [of d m day, folded dy(2), OF fm]
  have ok: "1 \<le> m" "m \<le> 12" "1 \<le> day" "day \<le> month_days y m" using date(1) by (simp_all add: date_ok_def)
  have days: "day \<le> 31" using ok month_days_at_most [of y m] by simp
  have small: "ms < 86400000" using ms by simp
  have bound: "ms div 3600000 \<le> 23" "ms div 60000 mod 60 \<le> 59" "ms div 1000 mod 60 \<le> 59" "ms mod 1000 < 1000"
    using small by (simp_all add: div_le_mono less_Suc_eq_le [symmetric] div_less_iff_less_mult)
  have g: "iso_groups t = \<lparr>ts_year = padded 4 (nat y), ts_month = padded 2 m, ts_day = padded 2 (nat day),
      ts_hour = padded 2 (ms div 3600000), ts_minute = padded 2 (ms div 60000 mod 60),
      ts_second = padded 2 (ms div 1000 mod 60), ts_fraction = Some (padded 3 (ms mod 1000)), ts_offset = None\<rparr>"
    by (simp add: iso_groups_def dy(1) [symmetric] dy(2) [symmetric] ms [symmetric] fm [unfolded One_nat_def] Let_def)
  have yr: "0 \<le> y" "y \<le> 9999" using assms by (simp_all add: dy)
  have "nat y < 10 ^ 4" "m < 10 ^ 2" "nat day < 10 ^ 2" "ms div 3600000 < 10 ^ 2" "ms div 60000 mod 60 < 10 ^ 2"
    "ms div 1000 mod 60 < 10 ^ 2" "ms mod 1000 < 10 ^ 3"
    using yr ok days bound by simp_all
  note p = this [THEN padded(1), simplified] and q = this [THEN padded(2), simplified] and digits = this [THEN padded(3), simplified]
  show "wf_groups (iso_groups t)" using p q by (simp add: g wf_groups_def)
  show "calendar_ok (iso_groups t)" using ok yr by (simp add: g calendar_ok_def digits)
  show "clock_ok (iso_groups t)" using bound by (simp add: g clock_ok_def digits offset_hour_def offset_minute_def)
  show "digits_value (ts_hour (iso_groups t)) \<le> 23" "digits_value (ts_minute (iso_groups t)) \<le> 59"
      "digits_value (ts_second (iso_groups t)) \<le> 59" using bound by (simp_all add: g digits)
  have mill: "millisecond (iso_groups t) = ms mod 1000" using p by (simp add: g millisecond_def digits)
  have split: "ms div 3600000 * 3600000 + ms div 60000 mod 60 * 60000 + ms div 1000 mod 60 * 1000 + ms mod 1000 = ms"
  proof -
    define a b c where abc: "a = ms div 1000" "b = ms div 60000" "c = ms div 3600000"
    have "b = a div 60" "c = b div 60" unfolding abc by (simp_all add: div_mult2_eq [symmetric])
    then have "b * 60 + a mod 60 = a" "c * 60 + b mod 60 = b" by simp_all
    moreover have "a * 1000 + ms mod 1000 = ms" by (simp add: abc)
    ultimately show ?thesis unfolding abc [symmetric] by linarith
  qed
  have sec: "digits_value (ts_second (iso_groups t)) = ms div 1000 mod 60" by (simp add: g digits)
  have whole: "d * 86400000 + int ms = t" by (simp add: dy ms)
  have minute: "utc_minute (iso_groups t) = d * 1440 + int (ms div 3600000 * 60 + ms div 60000 mod 60)"
    using ok yr date(2) by (simp add: utc_minute_def g digits offset_minutes_def is_negative_def offset_hour_def offset_minute_def)
  have "(d * 1440 + int (ms div 3600000 * 60 + ms div 60000 mod 60)) * 60000 + int (ms div 1000 mod 60 * 1000 + ms mod 1000) = d * 86400000 + int ms"
    using arg_cong [OF split, of int] by simp
  then show "utc_minute (iso_groups t) * 60000 + int (digits_value (ts_second (iso_groups t)) * 1000 + millisecond (iso_groups t)) = t"
    unfolding minute sec mill whole .
qed

lemma year_in_range:
  assumes "- 62167219200000 \<le> t" "t < 253402300800000"
  shows "0 \<le> year_of_day (t div 86400000)" "year_of_day (t div 86400000) \<le> 9999"
proof -
  let ?d = "t div 86400000"
  have d: "- 719528 \<le> ?d" "?d < 2932897" using assms by linarith+
  have "day_from_year 0 = - 719528" "day_from_year 10000 = 2932897" by (simp_all add: day_from_year_def)
  with d year_of_day [of ?d] day_from_year_mono [of "year_of_day ?d + 1" 0] day_from_year_mono [of 10000 "year_of_day ?d"]
  show "0 \<le> year_of_day ?d" "year_of_day ?d \<le> 9999" by linarith+
qed

text \<open>
  C15. A deadline survives its way to the service: what \<open>toISOString\<close> writes of a date of the years 0 to
  9999 is read by the service as exactly that millisecond.
\<close>

theorem deadline_roundtrip:
  assumes "- 62167219200000 \<le> t" "t < 253402300800000" and "checkExpiresAt (Some t) = Inr deadline"
  shows "api_parseOperationalInstant (Some (toISOString deadline)) what = Inr t"
proof -
  note year = year_in_range [OF assms(1,2)]
  note ok = iso_groups_ok [OF year]
  have "ts_fraction (iso_groups t) = Some (padded 3 (nat (t mod 86400000) mod 1000))" by (simp add: iso_groups_def Let_def split: prod.splits)
  moreover have "length (padded 3 (nat (t mod 86400000) mod 1000)) \<le> 3" using padded(1) [of "nat (t mod 86400000) mod 1000" 3] by simp
  ultimately have op: "OPERATIONAL (toISOString t) = Some (iso_groups t)"
    unfolding iso_groups_text [OF year] by (rule OPERATIONAL_of_text [OF ok(1,4-6)])
  note match = OPERATIONAL_match(1) [OF op]
  have "Date_parse (toISOString t) = Some t" using ok(2,3,6,7) by (simp add: Date_parse_def match)
  then have "historyInstant (toISOString t) = Inr \<lparr>epochMs = t, leap = 0\<rparr>"
    using ok(2,3,6) by (simp add: historyInstant_def match)
  moreover have "time_clip t = Some t" using assms(1,2) by (simp add: time_clip_def)
  moreover have "deadline = t" using assms(3) by (simp add: checkExpiresAt_def)
  ultimately show ?thesis by (simp add: api_parseOperationalInstant_def op)
qed

theorem deadline_roundtrip_witness:
  "checkExpiresAt (Some 1798761600123) = Inr 1798761600123 \<and> toISOString 1798761600123 = js ''2027-01-01T00:00:00.123Z'' \<and>
   api_parseOperationalInstant (Some (toISOString 1798761600123)) (js ''expiresAt'') = Inr 1798761600123"
proof -
  have "year_of_day 20819 = 2027" "find_month 2027 1 0 = (1, 1)"
    by (simp_all add: year_of_day_def day_from_year_def find_month.simps month_days_def DAYS_IN_MONTH_def)
  then have "toISOString 1798761600123 = js ''2027-01-01T00:00:00.123Z''"
    by (simp add: toISOString_def iso_year_def day_from_year_def padded_def show_nat.simps js_def of_char_def)
  moreover have "checkExpiresAt (Some 1798761600123) = Inr 1798761600123" by (simp add: checkExpiresAt_def)
  ultimately show ?thesis using deadline_roundtrip [of 1798761600123 1798761600123] by simp
qed

text \<open>
  A later date is still a valid \<open>Date\<close>, which the producer accepts; its text has a six-digit year, which the
  service refuses.
\<close>

lemma late_deadline_refused:
  "checkExpiresAt (Some 253402300800000) = Inr 253402300800000"
  "api_parseOperationalInstant (Some (toISOString 253402300800000)) what = Inl (NotAnInstant what)"
proof -
  have "year_of_day 2932897 = 10000" by (simp add: year_of_day_def day_from_year_def)
  then have "\<exists>r. toISOString 253402300800000 = 0x2B # r"
    by (simp add: toISOString_def iso_year_def js_def of_char_def split: prod.splits)
  then have "OPERATIONAL (toISOString 253402300800000) = None"
    by (auto simp: OPERATIONAL_def scan_digits_def is_digit_def)
  then show "api_parseOperationalInstant (Some (toISOString 253402300800000)) what = Inl (NotAnInstant what)"
    by (simp add: api_parseOperationalInstant_def)
qed (simp add: checkExpiresAt_def)

end
