(* ===== verification/Cursors.thy ===== *)
theory Cursors
  imports Encoding Instants_Properties Json
begin

text \<open>
  The locators of the service: the reference of a run in a path
  (\<open>src/ts/packages/http-api/src/run-ref.ts\<close>) and the continuation tokens of its listings (\<open>cursors.ts\<close>).
  \<open>JSON.parse\<close> and the digest of a binding are parameters; a cursor is a text, and a refusal is the problem
  \<open>BAD_REQUEST\<close> of \<open>problems.ts\<close>.
\<close>

section \<open>References of runs\<close>

definition PROTOCOL_IDENTIFIER :: "jstring \<Rightarrow> bool" where
  "PROTOCOL_IDENTIFIER s \<longleftrightarrow> 1 \<le> length s \<and> length s \<le> 128 \<and> list_all (\<lambda>c. 0x21 \<le> c \<and> c \<le> 0x7E) s"

definition encodeRunRef :: "jstring \<Rightarrow> jstring" where
  "encodeRunRef rid = base64url (utf8_encode rid)"

definition decodeRunRef :: "jstring \<Rightarrow> jstring option" where
  "decodeRunRef runRef =
     (if \<not> BASE64URL runRef \<or> length runRef mod 4 = 1 then None
      else
        let rid = utf8_decode (base64url_decode runRef) in
        if \<not> PROTOCOL_IDENTIFIER rid then None
        else if encodeRunRef rid = runRef then Some rid else None)"

fun isProtocolIdentifier :: "json option \<Rightarrow> jstring option" where
  "isProtocolIdentifier (Some (JStr s)) = (if PROTOCOL_IDENTIFIER s then Some s else None)"
| "isProtocolIdentifier _ = None"

section \<open>Cursors\<close>

datatype api_problem = BAD_REQUEST jstring

record cursor_host =
  ch_parse :: "jstring \<Rightarrow> json option"
  ch_digest :: "8 word list \<Rightarrow> jstring"

definition CURSOR_VERSION :: int where
  "CURSOR_VERSION = 1"

definition MAX_CURSOR_LENGTH :: nat where
  "MAX_CURSOR_LENGTH = 2048"

definition MAX_BIGINT :: int where
  "MAX_BIGINT = 9223372036854775807"

definition binding :: "cursor_host \<Rightarrow> jstring list \<Rightarrow> jstring" where
  "binding h parts = ch_digest h (utf8_encode (stringify (JArr (map JStr parts))))"

definition encode_document :: "obj \<Rightarrow> jstring" where
  "encode_document document = base64url (utf8_encode (stringify (JObj document)))"

definition malformed :: api_problem where
  "malformed = BAD_REQUEST (js ''the cursor is not one this listing issued'')"

definition decode_document :: "cursor_host \<Rightarrow> jstring \<Rightarrow> jstring list \<Rightarrow> api_problem + obj" where
  "decode_document h cursor members =
     (if length cursor > MAX_CURSOR_LENGTH \<or> \<not> BASE64URL cursor then Inl malformed
      else
        let txt = utf8_decode (base64url_decode cursor) in
        if base64url (utf8_encode txt) \<noteq> cursor then Inl malformed
        else
          case ch_parse h txt of
            Some (JObj document) \<Rightarrow>
              if join_comma (sort (map fst document)) \<noteq> join_comma (sort members) then Inl malformed
              else if jget document (js ''v'') \<noteq> Some (JNum (Whole CURSOR_VERSION)) then Inl malformed
              else Inr document
          | _ \<Rightarrow> Inl malformed)"

definition runs_document :: "cursor_host \<Rightarrow> jstring \<Rightarrow> int \<Rightarrow> obj" where
  "runs_document h projectId n =
     [(js ''v'', JNum (Whole CURSOR_VERSION)), (js ''k'', JStr (js ''runs'')),
      (js ''b'', JStr (binding h [js ''runs'', projectId])), (js ''s'', JStr (show_int n))]"

definition encodeRunsCursor :: "cursor_host \<Rightarrow> jstring \<Rightarrow> int \<Rightarrow> jstring" where
  "encodeRunsCursor h projectId beforeIngestionSequence = encode_document (runs_document h projectId beforeIngestionSequence)"

text \<open>\<open>/^(0|[1-9][0-9]{0,18})$/u\<close>.\<close>

definition sequence_text :: "jstring \<Rightarrow> bool" where
  "sequence_text s \<longleftrightarrow> is_numeral s \<and> length s \<le> 19"

definition decodeRunsCursor :: "cursor_host \<Rightarrow> jstring \<Rightarrow> jstring \<Rightarrow> api_problem + int" where
  "decodeRunsCursor h projectId cursor =
     bind_r (decode_document h cursor [js ''v'', js ''k'', js ''b'', js ''s'']) (\<lambda>d.
     if jget d (js ''k'') \<noteq> Some (JStr (js ''runs'')) \<or> jget d (js ''b'') \<noteq> Some (JStr (binding h [js ''runs'', projectId]))
     then Inl malformed
     else
       case jget d (js ''s'') of
         Some (JStr s) \<Rightarrow>
           if \<not> sequence_text s then Inl malformed
           else if int (digits_value s) > MAX_BIGINT then Inl malformed
           else Inr (int (digits_value s))
       | _ \<Rightarrow> Inl malformed)"

record history_cursor =
  hc_occurredAt :: int
  hc_leap :: int
  hc_runId :: jstring
  hc_executionId :: jstring

definition history_document :: "cursor_host \<Rightarrow> jstring \<Rightarrow> jstring \<Rightarrow> jstring \<Rightarrow> history_cursor \<Rightarrow> obj" where
  "history_document h projectId runnerName hid after =
     [(js ''v'', JNum (Whole CURSOR_VERSION)), (js ''k'', JStr (js ''history'')),
      (js ''b'', JStr (binding h [js ''history'', projectId, runnerName, hid])),
      (js ''t'', JStr (toISOString (hc_occurredAt after))), (js ''l'', JNum (Whole (hc_leap after))),
      (js ''r'', JStr (hc_runId after)), (js ''e'', JStr (hc_executionId after))]"

definition encodeHistoryCursor :: "cursor_host \<Rightarrow> jstring \<Rightarrow> jstring \<Rightarrow> jstring \<Rightarrow> history_cursor \<Rightarrow> jstring" where
  "encodeHistoryCursor h projectId runnerName hid after =
     encode_document (history_document h projectId runnerName hid after)"

text \<open>
  \<open>ISO_INSTANT\<close>, with the time value of what it matches: \<open>[+-]?\d{4,6}-\d{2}-\d{2}T\d{2}:\d{2}:\d{2}\.\d{3}Z\<close>.
\<close>

definition iso_sign :: "jstring \<Rightarrow> int \<times> jstring" where
  "iso_sign s = (case s of c # t \<Rightarrow> if c = 0x2B then (1, t) else if c = 0x2D then (-1, t) else (1, s) | [] \<Rightarrow> (1, []))"

definition ISO_INSTANT :: "jstring \<Rightarrow> int option" where
  "ISO_INSTANT s =
     (let (sign, s) = iso_sign s; y = takeWhile is_digit s; s = dropWhile is_digit s in
      if length y < 4 \<or> 6 < length y then None
      else do {
        s \<leftarrow> scan_unit 0x2D s;
        (mo, s) \<leftarrow> scan_digits 2 s;
        s \<leftarrow> scan_unit 0x2D s;
        (d, s) \<leftarrow> scan_digits 2 s;
        s \<leftarrow> scan_unit 0x54 s;
        (h, s) \<leftarrow> scan_digits 2 s;
        s \<leftarrow> scan_unit 0x3A s;
        (mi, s) \<leftarrow> scan_digits 2 s;
        s \<leftarrow> scan_unit 0x3A s;
        (sec, s) \<leftarrow> scan_digits 2 s;
        s \<leftarrow> scan_unit 0x2E s;
        (ms, s) \<leftarrow> scan_digits 3 s;
        if s = js ''Z''
        then Some (day_number (sign * int (digits_value y)) (digits_value mo) (int (digits_value d)) * 86400000 +
               int (((digits_value h * 60 + digits_value mi) * 60 + digits_value sec) * 1000 + digits_value ms))
        else None
      })"

definition decodeHistoryCursor :: "cursor_host \<Rightarrow> jstring \<Rightarrow> jstring \<Rightarrow> jstring \<Rightarrow> jstring \<Rightarrow> api_problem + history_cursor" where
  "decodeHistoryCursor h projectId runnerName hid cursor =
     bind_r (decode_document h cursor [js ''v'', js ''k'', js ''b'', js ''t'', js ''l'', js ''r'', js ''e'']) (\<lambda>d.
     if jget d (js ''k'') \<noteq> Some (JStr (js ''history'')) \<or>
        jget d (js ''b'') \<noteq> Some (JStr (binding h [js ''history'', projectId, runnerName, hid]))
     then Inl malformed
     else
       case jget d (js ''t'') of
         Some (JStr t) \<Rightarrow>
           (case Option.bind (ISO_INSTANT t) time_clip of
              None \<Rightarrow> Inl malformed
            | Some t_ms \<Rightarrow>
                if toISOString t_ms \<noteq> t then Inl malformed
                else
                  case jget d (js ''l'') of
                    Some (JNum (Whole l)) \<Rightarrow>
                      if l < 0 \<or> 1000 < l then Inl malformed
                      else
                        (case (isProtocolIdentifier (jget d (js ''r'')), isProtocolIdentifier (jget d (js ''e''))) of
                           (Some r, Some e) \<Rightarrow> Inr \<lparr>hc_occurredAt = t_ms, hc_leap = l, hc_runId = r, hc_executionId = e\<rparr>
                         | _ \<Rightarrow> Inl malformed)
                  | _ \<Rightarrow> Inl malformed)
       | _ \<Rightarrow> Inl malformed)"

section \<open>A reference names one run\<close>

lemma identifier_ascii: "PROTOCOL_IDENTIFIER s \<Longrightarrow> ascii s \<and> s \<noteq> []"
  by (auto simp: PROTOCOL_IDENTIFIER_def ascii_def list_all_iff word_le_nat_alt word_less_nat_alt)

text \<open>
  References and run ids are in bijection: a text is read as a run id exactly when the id is one of the
  protocol and the text is its encoding; every other spelling is nothing.
\<close>

theorem run_ref_exact: "decodeRunRef ref = Some rid \<longleftrightarrow> PROTOCOL_IDENTIFIER rid \<and> ref = encodeRunRef rid"
proof
  assume "PROTOCOL_IDENTIFIER rid \<and> ref = encodeRunRef rid"
  then have id: "PROTOCOL_IDENTIFIER rid" and ref: "ref = base64url (utf8_encode rid)" by (simp_all add: encodeRunRef_def)
  have "utf8_decode (base64url_decode ref) = rid"
    using ascii_well_formed [of rid] identifier_ascii [OF id] by (simp add: ref base64url_roundtrip utf8_roundtrip)
  moreover have "BASE64URL ref" "length ref mod 4 \<noteq> 1"
    using identifier_ascii [OF id] base64url_shape by (simp_all add: ref base64url_admitted)
  ultimately show "decodeRunRef ref = Some rid" using id by (simp add: decodeRunRef_def encodeRunRef_def ref)
qed (auto simp: decodeRunRef_def Let_def split: if_splits)

end
