(* ===== verification/Cursor_Properties.thy ===== *)
theory Cursor_Properties
  imports Cursors
begin

text \<open>
  A cursor says where its own listing continues, and nothing to any other listing.
\<close>

section \<open>The text of a document\<close>

definition printable :: "jstring \<Rightarrow> bool" where
  "printable s \<longleftrightarrow> list_all (\<lambda>c. 0x20 \<le> c \<and> c < 0x80) s"

lemma printable_append [simp]: "printable (s @ t) \<longleftrightarrow> printable s \<and> printable t"
  by (simp add: printable_def)

lemma printable_unit:
  assumes "0x20 \<le> c" "c < 0x80"
  shows "printable (escape_unit c)" "length (escape_unit c) \<le> 2" "\<not> is_high_surrogate c"
proof -
  have "\<not> c < 0x20" using assms(1) by simp
  moreover have s: "\<not> is_high_surrogate c" "\<not> is_low_surrogate c" using assms by (auto simp: surrogate_unat word_less_nat_alt)
  ultimately show "printable (escape_unit c)" "length (escape_unit c) \<le> 2" using assms by (auto simp: escape_unit_def printable_def)
  show "\<not> is_high_surrogate c" by (rule s)
qed

lemma printable_escape: "printable s \<Longrightarrow> printable (escape_string s) \<and> length (escape_string s) \<le> 2 * length s"
proof (induction s rule: escape_string.induct)
  case (2 c)
  then show ?case using printable_unit [of c] by (simp add: printable_def)
next
  case (3 c d s)
  then have c: "0x20 \<le> c" "c < 0x80" and rest: "printable (d # s)" by (simp_all add: printable_def)
  from 3 printable_unit [OF c] rest show ?case by (auto simp: printable_def)
qed simp

lemma printable_quote: "printable s \<Longrightarrow> printable (quote_string s) \<and> length (quote_string s) \<le> 2 * length s + 2"
  using printable_escape [of s] by (auto simp: quote_string_def js_def of_char_def printable_def)

lemma printable_show_nat: "printable (show_nat n)"
  using show_nat_digits [of n] by (auto simp: printable_def list_all_iff is_digit_def word_le_nat_alt word_less_nat_alt)

lemma printable_show_int: "printable (show_int i)"
  using printable_show_nat by (auto simp: show_int_def js_def of_char_def printable_def)

lemma printable_ascii: "printable s \<Longrightarrow> ascii s"
  by (simp add: printable_def ascii_def list_all_iff)

text \<open>A document whose text is printable and short enough is read back as its parse.\<close>

lemma decode_encoded:
  assumes "printable (stringify (JObj doc))" "length (stringify (JObj doc)) \<le> 1500"
    and "ch_parse h (stringify (JObj doc)) = Some (JObj doc)"
  shows "decode_document h (encode_document doc) members =
    (if join_comma (sort (map fst doc)) \<noteq> join_comma (sort members) \<or> jget doc (js ''v'') \<noteq> Some (JNum (Whole CURSOR_VERSION))
     then Inl malformed else Inr doc)"
proof -
  define t where t: "t = stringify (JObj doc)"
  have wf: "\<not> LONE_SURROGATE t" "length (utf8_encode t) = length t"
    using ascii_well_formed [OF printable_ascii [OF assms(1)]] by (simp_all add: t)
  have "t \<noteq> []" by (simp add: t js_def)
  have enc: "encode_document doc = base64url (utf8_encode t)" by (simp add: encode_document_def t)
  have "BASE64URL (encode_document doc)" using \<open>t \<noteq> []\<close> by (simp add: enc base64url_admitted)
  moreover have "length (encode_document doc) \<le> MAX_CURSOR_LENGTH"
    using base64url_shape [of "utf8_encode t"] wf(2) assms(2) unfolding enc MAX_CURSOR_LENGTH_def t [symmetric] by linarith
  moreover have "utf8_decode (base64url_decode (encode_document doc)) = t"
    by (simp only: enc base64url_roundtrip utf8_roundtrip [OF wf(1)])
  ultimately show ?thesis using assms(3) unfolding decode_document_def t [symmetric] by (simp add: enc)
qed

section \<open>Run listings\<close>

definition digest_ok :: "cursor_host \<Rightarrow> bool" where
  "digest_ok h \<longleftrightarrow> (\<forall>b. printable (ch_digest h b) \<and> length (ch_digest h b) = 43)"

lemma runs_text:
  assumes "digest_ok h" "\<bar>n\<bar> \<le> MAX_BIGINT"
  shows "printable (stringify (JObj (runs_document h p n)))" "length (stringify (JObj (runs_document h p n))) \<le> 1500"
proof -
  let ?b = "quote_string (binding h [js ''runs'', p])" and ?s = "quote_string (show_int n)"
  have b: "printable ?b" "length ?b \<le> 88"
    using printable_quote [of "binding h [js ''runs'', p]"] assms(1) by (auto simp: digest_ok_def binding_def)
  have "length (show_nat (nat \<bar>n\<bar>)) \<le> 19" by (rule show_nat_length) (use assms(2) in \<open>simp_all add: MAX_BIGINT_def\<close>)
  then have "length (show_int n) \<le> 20" by (auto simp: show_int_def js_def)
  then have s: "printable ?s" "length ?s \<le> 42" using printable_quote [OF printable_show_int, of n] by auto
  have whole: "stringify (JObj (runs_document h p n)) = js ''{\"v\":1,\"k\":\"runs\",\"b\":'' @ ?b @ js '',\"s\":'' @ ?s @ js ''}''"
    by (simp add: runs_document_def CURSOR_VERSION_def show_int_def show_nat.simps quote_string_def escape_unit_def js_def of_char_def char_class_defs)
  show "printable (stringify (JObj (runs_document h p n)))" "length (stringify (JObj (runs_document h p n))) \<le> 1500"
    unfolding whole using b s by (simp_all add: js_def of_char_def printable_def)
qed

lemma member_names:
  "join_comma (sort (map fst (runs_document h p n))) = js ''b,k,s,v''"
  "join_comma (sort [js ''v'', js ''k'', js ''b'', js ''s'']) = js ''b,k,s,v''"
  "join_comma (sort (map fst (history_document h p r i a))) = js ''b,e,k,l,r,t,v''"
  "join_comma (sort [js ''v'', js ''k'', js ''b'', js ''t'', js ''l'', js ''r'', js ''e'']) = js ''b,e,k,l,r,t,v''"
  by (simp_all add: runs_document_def history_document_def js_def of_char_def)

lemma document_members [simp]:
  "jget (runs_document h p n) (js ''v'') = Some (JNum (Whole CURSOR_VERSION))" "jget (runs_document h p n) (js ''k'') = Some (JStr (js ''runs''))"
  "jget (runs_document h p n) (js ''b'') = Some (JStr (binding h [js ''runs'', p]))" "jget (runs_document h p n) (js ''s'') = Some (JStr (show_int n))"
  "jget (history_document h p r i a) (js ''v'') = Some (JNum (Whole CURSOR_VERSION))"
  "jget (history_document h p r i a) (js ''k'') = Some (JStr (js ''history''))"
  "jget (history_document h p r i a) (js ''b'') = Some (JStr (binding h [js ''history'', p, r, i]))"
  "jget (history_document h p r i a) (js ''t'') = Some (JStr (toISOString (hc_occurredAt a)))"
  "jget (history_document h p r i a) (js ''l'') = Some (JNum (Whole (hc_leap a)))"
  "jget (history_document h p r i a) (js ''r'') = Some (JStr (hc_runId a))" "jget (history_document h p r i a) (js ''e'') = Some (JStr (hc_executionId a))"
  by (simp_all add: runs_document_def history_document_def js_def of_char_def)

lemma decode_runs:
  assumes "digest_ok h" and "\<bar>n\<bar> \<le> MAX_BIGINT"
    and "ch_parse h (stringify (JObj (runs_document h p n))) = Some (JObj (runs_document h p n))"
  shows "decode_document h (encodeRunsCursor h p n) [js ''v'', js ''k'', js ''b'', js ''s''] = Inr (runs_document h p n)"
    and "decode_document h (encodeRunsCursor h p n) [js ''v'', js ''k'', js ''b'', js ''t'', js ''l'', js ''r'', js ''e''] = Inl malformed"
proof -
  have "js ''b,k,s,v'' \<noteq> js ''b,e,k,l,r,t,v''" by (simp add: js_def of_char_def)
  then show "decode_document h (encodeRunsCursor h p n) [js ''v'', js ''k'', js ''b'', js ''s''] = Inr (runs_document h p n)"
    "decode_document h (encodeRunsCursor h p n) [js ''v'', js ''k'', js ''b'', js ''t'', js ''l'', js ''r'', js ''e''] = Inl malformed"
    unfolding encodeRunsCursor_def decode_encoded [OF runs_text [OF assms(1,2)] assms(3)] member_names by simp_all
qed

text \<open>
  C20. The cursor of a run listing continues that listing and no other: under its own project, or one with the same
  binding, it gives back the position it was made from, under another project and as a cursor of a history
  it is refused.
\<close>

theorem runs_cursor_bound:
  assumes "digest_ok h" and "0 \<le> n" "n \<le> MAX_BIGINT"
    and "ch_parse h (stringify (JObj (runs_document h p n))) = Some (JObj (runs_document h p n))"
  shows "decodeRunsCursor h q (encodeRunsCursor h p n) =
      (if binding h [js ''runs'', q] = binding h [js ''runs'', p] then Inr n else Inl malformed) \<and>
    decodeHistoryCursor h q r i (encodeRunsCursor h p n) = Inl malformed"
proof (rule conjI)
  have small: "\<bar>n\<bar> \<le> MAX_BIGINT" using assms(2,3) by simp
  note dec = decode_runs [OF assms(1) small assms(4)]
  have "is_numeral (show_nat (nat n))" by simp
  moreover have "length (show_nat (nat n)) \<le> 19" by (rule show_nat_length) (use assms(2,3) in \<open>simp_all add: MAX_BIGINT_def\<close>)
  ultimately have "sequence_text (show_int n)" "int (digits_value (show_int n)) = n"
    using assms(2) by (simp_all add: sequence_text_def show_int_def)
  then show "decodeRunsCursor h q (encodeRunsCursor h p n) =
      (if binding h [js ''runs'', q] = binding h [js ''runs'', p] then Inr n else Inl malformed)"
    using assms(3) by (auto simp: decodeRunsCursor_def dec(1))
  show "decodeHistoryCursor h q r i (encodeRunsCursor h p n) = Inl malformed"
    by (simp add: decodeHistoryCursor_def dec(2))
qed

section \<open>Histories\<close>

lemma iso_instant_roundtrip:
  assumes "- 62167219200000 \<le> t" "t < 253402300800000"
  shows "ISO_INSTANT (toISOString t) = Some t" "printable (toISOString t)" "length (toISOString t) = 24"
proof -
  note year = year_in_range [OF assms]
  note ok = iso_groups_ok [OF year]
  let ?g = "iso_groups t"
  obtain f where f: "ts_fraction ?g = Some f" "ts_offset ?g = None" "length f = 3" "list_all is_digit f" "millisecond ?g = digits_value f"
  proof -
    let ?f = "padded 3 (nat (t mod 86400000) mod 1000)"
    have p: "length ?f = 3" "list_all is_digit ?f" using padded [of "nat (t mod 86400000) mod 1000" 3] by simp_all
    have "ts_fraction ?g = Some ?f" "ts_offset ?g = None" by (simp_all add: iso_groups_def Let_def split: prod.splits)
    moreover have "millisecond ?g = digits_value ?f" using calculation(1) p(1) by (simp add: millisecond_def)
    ultimately show thesis using p that by blast
  qed
  have len: "length (ts_year ?g) = 4" "length (ts_month ?g) = 2" "length (ts_day ?g) = 2" "length (ts_hour ?g) = 2"
    "length (ts_minute ?g) = 2" "length (ts_second ?g) = 2"
    and dig: "list_all is_digit (ts_year ?g)" "list_all is_digit (ts_month ?g)" "list_all is_digit (ts_day ?g)"
    "list_all is_digit (ts_hour ?g)" "list_all is_digit (ts_minute ?g)" "list_all is_digit (ts_second ?g)"
    using ok(1) by (simp_all add: wf_groups_def)
  have whole: "toISOString t = ts_year ?g @ 0x2D # ts_month ?g @ 0x2D # ts_day ?g @ 0x54 # ts_hour ?g @ 0x3A # ts_minute ?g @ 0x3A #
      ts_second ?g @ 0x2E # f @ [0x5A]"
    by (simp add: iso_groups_text [OF year] timestamp_text_def fraction_text_def zone_text_def f punctuation)
  show "length (toISOString t) = 24" by (simp add: whole len f(3))
  have "is_digit c \<Longrightarrow> 0x20 \<le> c \<and> c < 0x80" for c by (auto simp: is_digit_def word_le_nat_alt word_less_nat_alt)
  then have "printable s" if "list_all is_digit s" for s using that by (auto simp: printable_def list_all_iff)
  moreover have "printable (c # s) \<longleftrightarrow> 0x20 \<le> c \<and> c < 0x80 \<and> printable s" "printable []" for c s by (simp_all add: printable_def)
  ultimately show "printable (toISOString t)" using dig f(4) by (simp add: whole)
  obtain y ys where y: "ts_year ?g = y # ys" "is_digit y" using len(1) dig(1) by (cases "ts_year ?g") auto
  have "iso_sign (toISOString t) = (1, toISOString t)"
    using y(2) by (auto simp: whole y(1) iso_sign_def is_digit_def word_le_nat_alt)
  moreover have "takeWhile is_digit (toISOString t) = ts_year ?g"
    "dropWhile is_digit (toISOString t) = 0x2D # ts_month ?g @ 0x2D # ts_day ?g @ 0x54 # ts_hour ?g @ 0x3A # ts_minute ?g @ 0x3A #
      ts_second ?g @ 0x2E # f @ [0x5A]"
    using dig(1) by (simp_all add: whole takeWhile_append2 dropWhile_append2 list_all_iff is_digit_def)
  moreover have "utc_minute ?g = day_number (int (digits_value (ts_year ?g))) (digits_value (ts_month ?g)) (int (digits_value (ts_day ?g))) * 1440 +
      int (digits_value (ts_hour ?g) * 60 + digits_value (ts_minute ?g))"
    by (simp add: utc_minute_def offset_minutes_def is_negative_def offset_hour_def offset_minute_def f(2))
  ultimately show "ISO_INSTANT (toISOString t) = Some t"
    using ok(7) by (simp add: ISO_INSTANT_def len dig scan_digits_append f punctuation algebra_simps)
qed

definition cursor_ok :: "history_cursor \<Rightarrow> bool" where
  "cursor_ok a \<longleftrightarrow> - 62167219200000 \<le> hc_occurredAt a \<and> hc_occurredAt a < 253402300800000 \<and> 0 \<le> hc_leap a \<and> hc_leap a \<le> 1000 \<and>
     PROTOCOL_IDENTIFIER (hc_runId a) \<and> PROTOCOL_IDENTIFIER (hc_executionId a)"

lemma identifier_quote: "PROTOCOL_IDENTIFIER s \<Longrightarrow> printable (quote_string s) \<and> length (quote_string s) \<le> 258"
proof -
  assume id: "PROTOCOL_IDENTIFIER s"
  have "0x20 \<le> c \<and> c < 0x80" if "0x21 \<le> c \<and> c \<le> 0x7E" for c :: "16 word"
    using that by (auto simp: word_le_nat_alt word_less_nat_alt)
  then have "printable s" using id by (auto simp: PROTOCOL_IDENTIFIER_def printable_def list_all_iff)
  from printable_quote [OF this] id show ?thesis by (auto simp: PROTOCOL_IDENTIFIER_def)
qed

lemma history_text:
  assumes "digest_ok h" "cursor_ok a"
  shows "printable (stringify (JObj (history_document h p r i a)))" "length (stringify (JObj (history_document h p r i a))) \<le> 1500"
proof -
  let ?b = "quote_string (binding h [js ''history'', p, r, i])" and ?t = "quote_string (toISOString (hc_occurredAt a))"
    and ?l = "show_int (hc_leap a)" and ?r = "quote_string (hc_runId a)" and ?e = "quote_string (hc_executionId a)"
  have b: "printable ?b" "length ?b \<le> 88"
    using printable_quote [of "binding h [js ''history'', p, r, i]"] assms(1) by (auto simp: digest_ok_def binding_def)
  have t: "printable ?t" "length ?t \<le> 50"
    using printable_quote [of "toISOString (hc_occurredAt a)"] iso_instant_roundtrip(2,3) [of "hc_occurredAt a"] assms(2) by (auto simp: cursor_ok_def)
  have "length (show_nat (nat (hc_leap a))) \<le> 4" by (rule show_nat_length) (use assms(2) in \<open>auto simp: cursor_ok_def\<close>)
  then have l: "printable ?l" "length ?l \<le> 4" using assms(2) printable_show_int [of "hc_leap a"] by (simp_all add: show_int_def cursor_ok_def)
  have id: "printable ?r" "length ?r \<le> 258" "printable ?e" "length ?e \<le> 258"
    using identifier_quote assms(2) by (simp_all add: cursor_ok_def)
  have whole: "stringify (JObj (history_document h p r i a)) = js ''{\"v\":1,\"k\":\"history\",\"b\":'' @ ?b @ js '',\"t\":'' @ ?t @ js '',\"l\":'' @ ?l @
      js '',\"r\":'' @ ?r @ js '',\"e\":'' @ ?e @ js ''}''"
    by (simp add: history_document_def CURSOR_VERSION_def show_int_def [of 1] show_nat.simps [of "Suc 0"] quote_string_def escape_unit_def js_def of_char_def char_class_defs)
  show "printable (stringify (JObj (history_document h p r i a)))" "length (stringify (JObj (history_document h p r i a))) \<le> 1500"
    unfolding whole using b t l id by (simp_all add: js_def of_char_def printable_def)
qed

lemma decode_history:
  assumes "digest_ok h" and "cursor_ok a"
    and "ch_parse h (stringify (JObj (history_document h p r i a))) = Some (JObj (history_document h p r i a))"
  shows "decode_document h (encodeHistoryCursor h p r i a) [js ''v'', js ''k'', js ''b'', js ''s''] = Inl malformed"
    and "decode_document h (encodeHistoryCursor h p r i a) [js ''v'', js ''k'', js ''b'', js ''t'', js ''l'', js ''r'', js ''e''] =
      Inr (history_document h p r i a)"
proof -
  have "js ''b,k,s,v'' \<noteq> js ''b,e,k,l,r,t,v''" by (simp add: js_def of_char_def)
  then show "decode_document h (encodeHistoryCursor h p r i a) [js ''v'', js ''k'', js ''b'', js ''s''] = Inl malformed"
    "decode_document h (encodeHistoryCursor h p r i a) [js ''v'', js ''k'', js ''b'', js ''t'', js ''l'', js ''r'', js ''e''] =
      Inr (history_document h p r i a)"
    unfolding encodeHistoryCursor_def decode_encoded [OF history_text [OF assms(1,2)] assms(3)] member_names by simp_all
qed

text \<open>
  The cursor of a history gives back the position it was made from, for that history and for none with another
  binding, and is refused as a cursor of a run listing.
\<close>

theorem history_cursor_bound:
  assumes "digest_ok h" and "cursor_ok a"
    and "ch_parse h (stringify (JObj (history_document h p r i a))) = Some (JObj (history_document h p r i a))"
  shows "decodeHistoryCursor h p' r' i' (encodeHistoryCursor h p r i a) =
      (if binding h [js ''history'', p', r', i'] = binding h [js ''history'', p, r, i] then Inr a else Inl malformed) \<and>
    decodeRunsCursor h p' (encodeHistoryCursor h p r i a) = Inl malformed"
proof (rule conjI)
  note dec = decode_history [OF assms]
  have "ISO_INSTANT (toISOString (hc_occurredAt a)) = Some (hc_occurredAt a)" "time_clip (hc_occurredAt a) = Some (hc_occurredAt a)"
    using iso_instant_roundtrip(1) assms(2) by (auto simp: cursor_ok_def time_clip_def)
  then show "decodeHistoryCursor h p' r' i' (encodeHistoryCursor h p r i a) =
      (if binding h [js ''history'', p', r', i'] = binding h [js ''history'', p, r, i] then Inr a else Inl malformed)"
    using assms(2) by (auto simp: decodeHistoryCursor_def dec(2) cursor_ok_def)
  show "decodeRunsCursor h p' (encodeHistoryCursor h p r i a) = Inl malformed"
    by (simp add: decodeRunsCursor_def dec(1))
qed

section \<open>A host\<close>

definition sample_cursor :: history_cursor where
  "sample_cursor = \<lparr>hc_occurredAt = 0, hc_leap = 0, hc_runId = js ''r'', hc_executionId = js ''e''\<rparr>"

definition plain_digest :: "8 word list \<Rightarrow> jstring" where
  "plain_digest b = replicate 43 (if length b mod 2 = 0 then 0x41 else 0x42)"

definition sample_host :: cursor_host where
  "sample_host = \<lparr>ch_parse = (\<lambda>t.
     if t = stringify (JObj (runs_document \<lparr>ch_parse = (\<lambda>_. None), ch_digest = plain_digest\<rparr> (js ''p'') 7))
     then Some (JObj (runs_document \<lparr>ch_parse = (\<lambda>_. None), ch_digest = plain_digest\<rparr> (js ''p'') 7))
     else Some (JObj (history_document \<lparr>ch_parse = (\<lambda>_. None), ch_digest = plain_digest\<rparr> (js ''p'') (js ''n'') (js ''i'') sample_cursor))),
     ch_digest = plain_digest\<rparr>"

lemma sample_documents:
  "runs_document sample_host p n = runs_document \<lparr>ch_parse = (\<lambda>_. None), ch_digest = plain_digest\<rparr> p n"
  "history_document sample_host p r i a = history_document \<lparr>ch_parse = (\<lambda>_. None), ch_digest = plain_digest\<rparr> p r i a"
  by (simp_all add: runs_document_def history_document_def binding_def sample_host_def)

lemma sample_digest: "digest_ok sample_host"
  by (simp add: digest_ok_def sample_host_def plain_digest_def printable_def list_all_iff)

lemma sample_binding:
  "binding sample_host [js ''runs'', js ''p''] = replicate 43 0x41" "binding sample_host [js ''runs'', js ''pq''] = replicate 43 0x42"
proof -
  have "length (utf8_encode (stringify (JArr (map JStr [js ''runs'', js ''p''])))) mod 2 = 0"
    "length (utf8_encode (stringify (JArr (map JStr [js ''runs'', js ''pq''])))) mod 2 \<noteq> 0" by code_simp+
  then show "binding sample_host [js ''runs'', js ''p''] = replicate 43 0x41" "binding sample_host [js ''runs'', js ''pq''] = replicate 43 0x42"
    by (simp_all only: binding_def sample_host_def cursor_host.simps plain_digest_def if_True if_False simp_thms)
qed

theorem runs_cursor_bound_witness:
  "decodeRunsCursor sample_host (js ''p'') (encodeRunsCursor sample_host (js ''p'') 7) = Inr 7 \<and>
   decodeRunsCursor sample_host (js ''pq'') (encodeRunsCursor sample_host (js ''p'') 7) = Inl malformed"
proof -
  have parse: "ch_parse sample_host (stringify (JObj (runs_document sample_host (js ''p'') 7))) = Some (JObj (runs_document sample_host (js ''p'') 7))"
    unfolding sample_documents by (simp add: sample_host_def)
  have n: "0 \<le> (7 :: int)" "7 \<le> MAX_BIGINT" by (simp_all add: MAX_BIGINT_def)
  have "(0x42 :: 16 word) \<noteq> 0x41" by simp
  then show ?thesis using runs_cursor_bound [OF sample_digest n parse] by (simp add: sample_binding)
qed

lemma sample_history:
  "ch_parse sample_host (stringify (JObj (history_document sample_host (js ''p'') (js ''n'') (js ''i'') sample_cursor))) =
     Some (JObj (history_document sample_host (js ''p'') (js ''n'') (js ''i'') sample_cursor))"
proof -
  let ?h = "\<lparr>ch_parse = (\<lambda>_. None), ch_digest = plain_digest\<rparr>"
  have "stringify (JObj (history_document ?h (js ''p'') (js ''n'') (js ''i'') sample_cursor)) \<noteq> stringify (JObj (runs_document ?h (js ''p'') 7))"
    by (simp add: history_document_def runs_document_def CURSOR_VERSION_def show_int_def show_nat.simps quote_string_def escape_unit_def js_def of_char_def char_class_defs)
  then show ?thesis unfolding sample_documents by (simp add: sample_host_def del: stringify.simps)
qed

theorem history_cursor_bound_witness:
  "decodeHistoryCursor sample_host (js ''p'') (js ''n'') (js ''i'') (encodeHistoryCursor sample_host (js ''p'') (js ''n'') (js ''i'') sample_cursor) =
     Inr sample_cursor"
proof -
  have "cursor_ok sample_cursor" by (simp add: cursor_ok_def sample_cursor_def PROTOCOL_IDENTIFIER_def js_def of_char_def)
  from history_cursor_bound [OF sample_digest this sample_history] show ?thesis by simp
qed

end
