(* ===== verification/Upload_Plan.thy ===== *)
theory Upload_Plan
  imports File_Sink Ingest
begin

text \<open>
  The plan of an upload, \<open>src/ts/packages/http-client/src/local-run.ts\<close>: which files of a run directory are
  sent, in which order, and what each one was when the plan was made.  The calls of the file system are a
  record of answers; an operation returns a result or the error thrown, and the descriptors left open.
\<close>

section \<open>Data\<close>

record file_facts =
  ff_sizeBytes :: nat
  ff_mtimeMs :: int
  ff_device :: nat
  ff_inode :: nat

record planned_file =
  pf_name :: jstring
  pf_path :: jstring
  pf_facts :: file_facts
  pf_sha256 :: "jstring option"

record upload_plan =
  up_runDirectory :: jstring
  up_events :: "planned_file list"
  up_attachments :: "planned_file list"
  up_totalBytes :: nat

datatype local_run_problem =
  UNSAFE_ENTRY | UNREADABLE | NO_EVENTS | ATTACHMENT_HASH_MISMATCH | ATTACHMENT_CHANGED | RUN_DIRECTORY_CHANGED

text \<open>A \<open>LocalRunDirectoryError\<close>, or another error as the platform threw it.\<close>

datatype upload_failure = LocalRunDirectoryError local_run_problem jstring | Platform io_error

record local_files =
  lf_realpath :: "jstring \<Rightarrow> io_error + jstring"
  lf_lstat :: "jstring \<Rightarrow> io_error + entry_kind"
  lf_readdir :: "jstring \<Rightarrow> io_error + jstring list"
  lf_open :: "jstring \<Rightarrow> io_error + nat"
  lf_fstat :: "nat \<Rightarrow> io_error + entry_kind \<times> file_facts"
  lf_content :: "nat \<Rightarrow> bytes list \<times> io_error option"
  lf_fstat_after :: "nat \<Rightarrow> io_error + entry_kind \<times> file_facts"
  lf_sha256 :: "bytes \<Rightarrow> jstring"

type_synonym 'a upload_io = "nat list \<Rightarrow> (upload_failure + 'a) \<times> nat list"

definition return_u :: "'a \<Rightarrow> 'a upload_io" where
  "return_u a = (\<lambda>fds. (Inr a, fds))"

definition throw_u :: "local_run_problem \<Rightarrow> jstring \<Rightarrow> 'a upload_io" where
  "throw_u p m = (\<lambda>fds. (Inl (LocalRunDirectoryError p m), fds))"

definition bind_u :: "'a upload_io \<Rightarrow> ('a \<Rightarrow> 'b upload_io) \<Rightarrow> 'b upload_io" where
  "bind_u m f = (\<lambda>fds. case m fds of (Inl e, fds') \<Rightarrow> (Inl e, fds') | (Inr a, fds') \<Rightarrow> f a fds')"

definition platform_u :: "io_error + 'a \<Rightarrow> 'a upload_io" where
  "platform_u r = (\<lambda>fds. (case r of Inl e \<Rightarrow> Inl (Platform e) | Inr a \<Rightarrow> Inr a, fds))"

definition close_u :: "nat \<Rightarrow> unit upload_io" where
  "close_u fd = (\<lambda>fds. (Inr (), remove1 fd fds))"

definition opened_u :: "nat \<Rightarrow> unit upload_io" where
  "opened_u fd = (\<lambda>fds. (Inr (), fd # fds))"

section \<open>Opening\<close>

definition CANONICAL_ATTACHMENT :: "jstring \<Rightarrow> bool" where
  "CANONICAL_ATTACHMENT s \<longleftrightarrow> length s = 64 \<and> list_all is_hex s"

definition EVENT_FILE :: "jstring \<Rightarrow> bool" where
  "EVENT_FILE s \<longleftrightarrow> has_suffix s (js ''.ndjson'')"

definition client_openRegular :: "local_files \<Rightarrow> jstring \<Rightarrow> jstring \<Rightarrow> (nat \<times> file_facts) upload_io" where
  "client_openRegular fs path name =
     (case lf_lstat fs path of
        Inl _ \<Rightarrow> throw_u UNREADABLE (name @ js '' cannot be read'')
      | Inr kind \<Rightarrow>
          if kind = Symlink then throw_u UNSAFE_ENTRY (name @ js '' is a symbolic link; it is not read'')
          else if kind \<noteq> Regular then throw_u UNSAFE_ENTRY (name @ js '' is not a regular file'')
          else
            case lf_open fs path of
              Inl ELOOP \<Rightarrow> throw_u UNSAFE_ENTRY (name @ js '' is a symbolic link; it is not read'')
            | Inl EMLINK \<Rightarrow> throw_u UNSAFE_ENTRY (name @ js '' is a symbolic link; it is not read'')
            | Inl _ \<Rightarrow> throw_u UNREADABLE (name @ js '' cannot be opened'')
            | Inr fd \<Rightarrow>
                bind_u (opened_u fd) (\<lambda>_.
                case lf_fstat fs fd of
                  Inl _ \<Rightarrow> bind_u (close_u fd) (\<lambda>_. throw_u UNREADABLE (name @ js '' cannot be read''))
                | Inr (k, facts) \<Rightarrow>
                    if k \<noteq> Regular
                    then bind_u (close_u fd) (\<lambda>_. throw_u UNSAFE_ENTRY (name @ js '' is not a regular file''))
                    else return_u (fd, facts)))"

definition realDirectory :: "local_files \<Rightarrow> jstring \<Rightarrow> jstring \<Rightarrow> bool \<Rightarrow> bool upload_io" where
  "realDirectory fs path name needed =
     (case lf_lstat fs path of
        Inl e \<Rightarrow> if e = ENOENT \<and> \<not> needed then return_u False else throw_u UNREADABLE (name @ js '' cannot be read'')
      | Inr kind \<Rightarrow>
          if kind = Symlink then throw_u UNSAFE_ENTRY (name @ js '' is a symbolic link; it is not read'')
          else if kind \<noteq> Folder then throw_u UNSAFE_ENTRY (name @ js '' is not a directory'')
          else return_u True)"

text \<open>The stream owns the descriptor: it is closed at the end of the bytes and on an error.\<close>

definition sha256Of :: "local_files \<Rightarrow> nat \<Rightarrow> jstring upload_io" where
  "sha256Of fs fd =
     bind_u (close_u fd) (\<lambda>_.
     case lf_content fs fd of
       (_, Some e) \<Rightarrow> platform_u (Inl e)
     | (chunks, None) \<Rightarrow> return_u (lf_sha256 fs (concat chunks)))"

section \<open>The plan\<close>

fun plan_events :: "local_files \<Rightarrow> jstring \<Rightarrow> jstring list \<Rightarrow> planned_file list upload_io" where
  "plan_events fs dir [] = return_u []"
| "plan_events fs dir (entry # rest) =
     (if \<not> EVENT_FILE entry then plan_events fs dir rest
      else
        let name = EVENTS_DIR @ js ''/'' @ entry; path = join [dir, entry] in
        bind_u (client_openRegular fs path name) (\<lambda>(fd, facts).
        bind_u (close_u fd) (\<lambda>_.
        bind_u (plan_events fs dir rest) (\<lambda>files.
        return_u (\<lparr>pf_name = name, pf_path = path, pf_facts = facts, pf_sha256 = None\<rparr> # files)))))"

fun plan_attachments :: "local_files \<Rightarrow> jstring \<Rightarrow> jstring list \<Rightarrow> planned_file list upload_io" where
  "plan_attachments fs dir [] = return_u []"
| "plan_attachments fs dir (entry # rest) =
     (if \<not> CANONICAL_ATTACHMENT entry then plan_attachments fs dir rest
      else
        let name = ATTACHMENTS_DIR @ js ''/'' @ entry; path = join [dir, entry] in
        bind_u (client_openRegular fs path name) (\<lambda>(fd, facts).
        bind_u (sha256Of fs fd) (\<lambda>sha256.
        if sha256 \<noteq> entry
        then throw_u ATTACHMENT_HASH_MISMATCH
               (name @ js '' does not hold the bytes its name claims; the run directory is not sound'')
        else
          bind_u (plan_attachments fs dir rest) (\<lambda>files.
          return_u (\<lparr>pf_name = name, pf_path = path, pf_facts = facts, pf_sha256 = Some sha256\<rparr> # files)))))"

definition total_bytes :: "planned_file list \<Rightarrow> nat" where
  "total_bytes fs = sum_list (map (\<lambda>f. ff_sizeBytes (pf_facts f)) fs)"

definition planUpload :: "local_files \<Rightarrow> jstring \<Rightarrow> upload_plan upload_io" where
  "planUpload fs runDirectory =
     (case lf_realpath fs runDirectory of
        Inl _ \<Rightarrow> throw_u UNREADABLE (js ''the run directory cannot be read'')
      | Inr root \<Rightarrow>
          bind_u (realDirectory fs root (js ''the run directory'') True) (\<lambda>ok.
          if \<not> ok then throw_u UNREADABLE (js ''the run directory cannot be read'')
          else
            let eventsDir = join [root, EVENTS_DIR]; attachmentsDir = join [root, ATTACHMENTS_DIR] in
            bind_u (realDirectory fs eventsDir (EVENTS_DIR @ js ''/'') True) (\<lambda>_.
            bind_u (platform_u (lf_readdir fs eventsDir)) (\<lambda>entries.
            bind_u (plan_events fs eventsDir (sort entries)) (\<lambda>events.
            if events = []
            then throw_u NO_EVENTS (js ''the run directory holds no events/*.ndjson file to upload'')
            else
              bind_u (realDirectory fs attachmentsDir (ATTACHMENTS_DIR @ js ''/'') False) (\<lambda>there.
              bind_u (if there
                      then bind_u (platform_u (lf_readdir fs attachmentsDir)) (\<lambda>entries.
                             plan_attachments fs attachmentsDir (sort entries))
                      else return_u []) (\<lambda>attachments.
              return_u \<lparr>up_runDirectory = root, up_events = events, up_attachments = attachments,
                up_totalBytes = total_bytes (events @ attachments)\<rparr>)))))))"

section \<open>The planned files at an attempt\<close>

definition openPlanned :: "local_files \<Rightarrow> planned_file \<Rightarrow> nat upload_io" where
  "openPlanned fs f =
     bind_u (client_openRegular fs (pf_path f) (pf_name f)) (\<lambda>(fd, now).
     if now \<noteq> pf_facts f
     then bind_u (close_u fd) (\<lambda>_.
            throw_u RUN_DIRECTORY_CHANGED (pf_name f @ js '' changed while the run was being uploaded''))
     else return_u fd)"

definition checkAttachmentBytes :: "planned_file \<Rightarrow> jstring \<Rightarrow> (upload_failure + unit)" where
  "checkAttachmentBytes f digest =
     (if pf_sha256 f = None \<or> pf_sha256 f = Some digest then Inr ()
      else Inl (LocalRunDirectoryError ATTACHMENT_CHANGED
        (pf_name f @ js '' no longer holds the bytes its name claims; it changed while the run was being uploaded'')))"

definition checkUnchanged :: "local_files \<Rightarrow> nat \<Rightarrow> planned_file \<Rightarrow> nat \<Rightarrow> (upload_failure + unit)" where
  "checkUnchanged fs fd f sent =
     (case lf_fstat_after fs fd of
        Inl _ \<Rightarrow> Inl (LocalRunDirectoryError RUN_DIRECTORY_CHANGED (pf_name f @ js '' could not be checked after it was sent''))
      | Inr (_, now) \<Rightarrow>
          if sent \<noteq> ff_sizeBytes (pf_facts f) \<or> ff_sizeBytes now \<noteq> ff_sizeBytes (pf_facts f) \<or>
             ff_mtimeMs now \<noteq> ff_mtimeMs (pf_facts f) \<or> ff_inode now \<noteq> ff_inode (pf_facts f)
          then Inl (LocalRunDirectoryError RUN_DIRECTORY_CHANGED (pf_name f @ js '' changed while it was being uploaded''))
          else Inr ())"

section \<open>The multipart body\<close>

text \<open>
  \<open>src/ts/packages/http-client/src/multipart.ts\<close>.  The texts are encoded as UTF-8 by a parameter.
\<close>

definition CRLF :: jstring where
  "CRLF = [0x0D, 0x0A]"

definition fieldPart :: "(jstring \<Rightarrow> bytes) \<Rightarrow> jstring \<Rightarrow> jstring \<Rightarrow> jstring \<Rightarrow> bytes" where
  "fieldPart utf8 mark name v =
     utf8 (js ''--'' @ mark @ CRLF @ js ''Content-Disposition: form-data; name=\"'' @ name @ js ''\"'' @ CRLF @ CRLF @ v @ CRLF)"

definition fileHeader :: "(jstring \<Rightarrow> bytes) \<Rightarrow> jstring \<Rightarrow> jstring \<Rightarrow> jstring \<Rightarrow> bytes" where
  "fileHeader utf8 mark name filename =
     utf8 (js ''--'' @ mark @ CRLF @ js ''Content-Disposition: form-data; name=\"'' @ name @ js ''\"; filename=\"'' @ filename @
       js ''\"'' @ CRLF @ js ''Content-Type: application/octet-stream'' @ CRLF @ CRLF)"

definition basename :: "jstring \<Rightarrow> jstring" where
  "basename name = rev (takeWhile (\<lambda>c. c \<noteq> 0x2F) (rev name))"

record body_layout =
  bl_head :: bytes
  bl_files :: "(bytes \<times> planned_file) list"
  bl_tail :: bytes

definition layout :: "(jstring \<Rightarrow> bytes) \<Rightarrow> jstring \<Rightarrow> upload_plan \<Rightarrow> jstring \<Rightarrow> body_layout" where
  "layout utf8 mark plan expiresAt =
     \<lparr>bl_head = fieldPart utf8 mark (js ''expiresAt'') expiresAt,
      bl_files = map (\<lambda>f. (fileHeader utf8 mark (js ''events'') (basename (pf_name f)), f)) (up_events plan) @
                 map (\<lambda>f. (fileHeader utf8 mark (js ''attachment'') (basename (pf_name f)), f)) (up_attachments plan),
      bl_tail = utf8 (js ''--'' @ mark @ js ''--'' @ CRLF)\<rparr>"

definition content_length :: "(jstring \<Rightarrow> bytes) \<Rightarrow> body_layout \<Rightarrow> nat" where
  "content_length utf8 l =
     length (bl_head l) +
     sum_list (map (\<lambda>(h, f). length h + ff_sizeBytes (pf_facts f) + length (utf8 CRLF)) (bl_files l)) +
     length (bl_tail l)"

text \<open>
  The loop over the chunks of one file: what was yielded, and the count that includes a chunk not yielded
  because it exceeds the planned size.
\<close>

fun send_chunks :: "nat \<Rightarrow> bytes list \<Rightarrow> nat \<Rightarrow> bytes \<Rightarrow> nat \<times> bytes \<times> bool" where
  "send_chunks limit [] sent out = (sent, out, True)"
| "send_chunks limit (c # cs) sent out =
     (if sent + length c > limit then (sent + length c, out, False)
      else send_chunks limit cs (sent + length c) (out @ c))"

text \<open>
  One file part: the bytes yielded before the separator, and the error that ended the stream.  The descriptor
  is closed on every way out.
\<close>

definition stream_file :: "local_files \<Rightarrow> planned_file \<Rightarrow> nat list \<Rightarrow> (bytes \<times> upload_failure option) \<times> nat list" where
  "stream_file fs f fds =
     (case openPlanned fs f fds of
        (Inl e, fds) \<Rightarrow> (([], Some e), fds)
      | (Inr fd, fds) \<Rightarrow>
          let (chunks, failure) = lf_content fs fd;
              (sent, out, ended) = send_chunks (ff_sizeBytes (pf_facts f)) chunks 0 [];
              result =
                (case (if ended then failure else None) of
                   Some e \<Rightarrow> Inl (Platform e)
                 | None \<Rightarrow>
                     bind_r (checkUnchanged fs fd f sent) (\<lambda>_.
                     if pf_sha256 f = None then Inr () else checkAttachmentBytes f (lf_sha256 fs out)))
          in ((out, case result of Inl e \<Rightarrow> Some e | Inr _ \<Rightarrow> None), remove1 fd fds))"

fun stream_files :: "local_files \<Rightarrow> bytes \<Rightarrow> (bytes \<times> planned_file) list \<Rightarrow> nat list \<Rightarrow> (bytes \<times> upload_failure option) \<times> nat list" where
  "stream_files fs separator [] fds = (([], None), fds)"
| "stream_files fs separator ((header, f) # parts) fds =
     (case stream_file fs f fds of
        ((out, Some e), fds) \<Rightarrow> ((header @ out, Some e), fds)
      | ((out, None), fds) \<Rightarrow>
          (case stream_files fs separator parts fds of
             ((rest, e), fds) \<Rightarrow> ((header @ out @ separator @ rest, e), fds)))"

definition body_stream :: "(jstring \<Rightarrow> bytes) \<Rightarrow> local_files \<Rightarrow> body_layout \<Rightarrow> nat list \<Rightarrow> (bytes \<times> upload_failure option) \<times> nat list" where
  "body_stream utf8 fs l fds =
     (case stream_files fs (utf8 CRLF) (bl_files l) fds of
        ((out, Some e), fds) \<Rightarrow> ((bl_head l @ out, Some e), fds)
      | ((out, None), fds) \<Rightarrow> ((bl_head l @ out @ bl_tail l, None), fds))"

end
