(* ===== verification/Transport.thy ===== *)
theory Transport
  imports Upload_Plan Encoding
begin

text \<open>
  One attempt of an upload, \<open>src/ts/packages/http-client/src/transport.ts\<close>: the callbacks of Node's client are
  steps on the state \<open>send\<close> closes over, and the first to settle the promise decides.
\<close>

section \<open>What is thrown\<close>

text \<open>
  A \<open>LocalRunDirectoryError\<close>, an \<open>UploadAborted\<close>, or any other value: whether it is an \<open>Error\<close>, its \<open>code\<close> and
  its message.
\<close>

datatype thrown = ThrownLocal local_run_problem jstring | UploadAborted | Failure bool "jstring option" jstring

fun errno_of :: "io_error \<Rightarrow> jstring option" where
  "errno_of ENOENT = Some (js ''ENOENT'')"
| "errno_of ENOTDIR = Some (js ''ENOTDIR'')"
| "errno_of ELOOP = Some (js ''ELOOP'')"
| "errno_of EMLINK = Some (js ''EMLINK'')"
| "errno_of (OtherErrno c) = Some c"
| "errno_of (Thrown m) = None"

fun thrown_of :: "upload_failure \<Rightarrow> thrown" where
  "thrown_of (LocalRunDirectoryError p m) = ThrownLocal p m"
| "thrown_of (Platform (Thrown m)) = Failure True None m"
| "thrown_of (Platform e) = Failure True (errno_of e) (case errno_of e of Some c \<Rightarrow> c | None \<Rightarrow> [])"

definition IncompleteResponse :: "jstring \<Rightarrow> thrown" where
  "IncompleteResponse m = Failure True (Some (js ''ECONNRESET'')) m"

section \<open>Requests and answers\<close>

datatype header_value = One_Value jstring | Several_Values "jstring list"

type_synonym headers = "jstring \<Rightarrow> jstring option"

record attempt_request =
  aq_url :: jstring
  aq_headers :: "(jstring \<times> jstring) list"
  aq_body :: "bytes \<times> upload_failure option"
  aq_timeoutMs :: int
  aq_maxResponseBytes :: nat

record attempt_response =
  ar_status :: nat
  ar_headers :: headers
  ar_text :: jstring
  ar_truncated :: bool

fun join_texts :: "jstring \<Rightarrow> jstring list \<Rightarrow> jstring" where
  "join_texts sep [] = []"
| "join_texts sep [s] = s"
| "join_texts sep (s # ss) = s @ sep @ join_texts sep ss"

definition headersOf :: "(jstring \<Rightarrow> jstring) \<Rightarrow> (jstring \<times> header_value) list \<Rightarrow> headers" where
  "headersOf lower hs =
     fold (\<lambda>(name, v) out. out(lower name \<mapsto> (case v of One_Value s \<Rightarrow> s | Several_Values ss \<Rightarrow> join_texts (js '', '') ss)))
       hs Map.empty"

section \<open>One exchange\<close>

datatype exchange_event =
    Answered nat "(jstring \<times> header_value) list"
  | Data bytes
  | ResponseAborted
  | ResponseError thrown
  | ResponseClose bool
  | SignalAbort
  | TimerFired
  | RequestError thrown
  | BodyError

record exchange =
  ex_settled :: "(thrown + attempt_response) option"
  ex_answer :: "nat \<times> headers"
  ex_chunks :: "bytes list"
  ex_read :: nat
  ex_truncated :: bool

definition new_exchange :: exchange where
  "new_exchange = \<lparr>ex_settled = None, ex_answer = (0, Map.empty), ex_chunks = [], ex_read = 0, ex_truncated = False\<rparr>"

definition finish_with :: "thrown + attempt_response \<Rightarrow> exchange \<Rightarrow> exchange" where
  "finish_with r x = (if ex_settled x \<noteq> None then x else x\<lparr>ex_settled := Some r\<rparr>)"

definition on_data :: "nat \<Rightarrow> bytes \<Rightarrow> exchange \<Rightarrow> exchange" where
  "on_data maxResponseBytes chunk x =
     (let n = ex_read x + length chunk in
      if n > maxResponseBytes then x\<lparr>ex_read := n, ex_truncated := True\<rparr>
      else x\<lparr>ex_read := n, ex_chunks := ex_chunks x @ [chunk]\<rparr>)"

definition on_close :: "bool \<Rightarrow> exchange \<Rightarrow> exchange" where
  "on_close complete x =
     (if ex_settled x \<noteq> None then x
      else if ex_truncated x
      then finish_with (Inr \<lparr>ar_status = fst (ex_answer x), ar_headers = snd (ex_answer x), ar_text = [], ar_truncated = True\<rparr>) x
      else if \<not> complete then finish_with (Inl (IncompleteResponse (js ''the response ended before it was complete''))) x
      else
        finish_with (Inr \<lparr>ar_status = fst (ex_answer x), ar_headers = snd (ex_answer x),
          ar_text = utf8_decode (concat (ex_chunks x)), ar_truncated = False\<rparr>) x)"

fun exchange_step :: "(jstring \<Rightarrow> jstring) \<Rightarrow> attempt_request \<Rightarrow> exchange_event \<Rightarrow> exchange \<Rightarrow> exchange" where
  "exchange_step lower q (Answered status hs) x = x\<lparr>ex_answer := (status, headersOf lower hs)\<rparr>"
| "exchange_step lower q (Data chunk) x = on_data (aq_maxResponseBytes q) chunk x"
| "exchange_step lower q ResponseAborted x =
     finish_with (Inl (IncompleteResponse (js ''the response ended before it was complete''))) x"
| "exchange_step lower q (ResponseError e) x = finish_with (Inl e) x"
| "exchange_step lower q (ResponseClose complete) x = on_close complete x"
| "exchange_step lower q SignalAbort x = finish_with (Inl UploadAborted) x"
| "exchange_step lower q TimerFired x =
     finish_with (Inl (Failure True (Some (js ''ETIMEDOUT''))
       (js ''the attempt took longer than '' @ show_int (aq_timeoutMs q) @ js '' ms''))) x"
| "exchange_step lower q (RequestError e) x = finish_with (Inl e) x"
| "exchange_step lower q BodyError x =
     (case snd (aq_body q) of Some e \<Rightarrow> finish_with (Inl (thrown_of e)) x | None \<Rightarrow> x)"

text \<open>
  The answer of the promise, or \<open>None\<close> while no callback has settled it.  A signal that is already aborted
  settles it before any of them.
\<close>

definition send :: "(jstring \<Rightarrow> jstring) \<Rightarrow> attempt_request \<Rightarrow> bool \<Rightarrow> exchange_event list \<Rightarrow> (thrown + attempt_response) option" where
  "send lower q aborted events =
     (let x = (if aborted then finish_with (Inl UploadAborted) new_exchange else new_exchange) in
      ex_settled (fold (exchange_step lower q) events x))"

section \<open>The first to settle decides\<close>

lemma finish_with_settled: "ex_settled x = Some r \<Longrightarrow> ex_settled (finish_with r' x) = Some r"
  by (simp add: finish_with_def)

lemma exchange_step_settled: "ex_settled x = Some r \<Longrightarrow> ex_settled (exchange_step lower q e x) = Some r"
  by (cases e) (auto simp: finish_with_def on_data_def on_close_def Let_def split: option.splits)

lemma exchange_settled: "ex_settled x = Some r \<Longrightarrow> ex_settled (fold (exchange_step lower q) es x) = Some r"
  by (induction es arbitrary: x) (simp_all add: exchange_step_settled)

lemma send_prefix: "send lower q a es = Some r \<Longrightarrow> send lower q a (es @ es') = Some r"
  by (simp add: send_def Let_def exchange_settled)

lemma timer_settles: "TimerFired \<in> set es \<Longrightarrow> \<exists>r. send lower q a es = Some r"
proof -
  assume "TimerFired \<in> set es"
  then obtain before after where es: "es = before @ TimerFired # after" by (auto dest: split_list)
  have "\<exists>r. ex_settled (exchange_step lower q TimerFired x) = Some r" for x by (auto simp: finish_with_def)
  then have "\<exists>r. send lower q a (before @ [TimerFired]) = Some r" by (simp add: send_def)
  then show ?thesis using send_prefix [of lower q a "before @ [TimerFired]"] es by fastforce
qed

text \<open>What has been kept of the answer never exceeds the limit, and is all of it until it does.\<close>

definition within_limit :: "attempt_request \<Rightarrow> exchange \<Rightarrow> bool" where
  "within_limit q x \<longleftrightarrow> length (concat (ex_chunks x)) \<le> aq_maxResponseBytes q \<and>
     (\<not> ex_truncated x \<longrightarrow> length (concat (ex_chunks x)) = ex_read x) \<and>
     (ex_truncated x \<longrightarrow> aq_maxResponseBytes q < ex_read x) \<and>
     (\<forall>r. ex_settled x = Some (Inr r) \<longrightarrow> (if ar_truncated r then ar_text r = []
        else \<exists>b. ar_text r = utf8_decode b \<and> length b \<le> aq_maxResponseBytes q))"

lemma new_within_limit: "within_limit q new_exchange"
  by (simp add: within_limit_def new_exchange_def)

lemma finish_error_within: "within_limit q x \<Longrightarrow> within_limit q (finish_with (Inl e) x)"
  by (simp add: within_limit_def finish_with_def)

lemma on_close_within: "within_limit q x \<Longrightarrow> within_limit q (on_close complete x)"
  by (cases "ex_settled x") (auto simp: within_limit_def finish_with_def on_close_def)

lemma on_data_within: "within_limit q x \<Longrightarrow> within_limit q (on_data (aq_maxResponseBytes q) chunk x)"
  by (auto simp: within_limit_def on_data_def Let_def)

lemma answered_within: "within_limit q x \<Longrightarrow> within_limit q (x\<lparr>ex_answer := a\<rparr>)"
  by (simp add: within_limit_def)

lemma exchange_step_within: "within_limit q x \<Longrightarrow> within_limit q (exchange_step lower q e x)"
  by (cases e) (simp_all add: finish_error_within on_close_within on_data_within answered_within split: option.splits)

lemma exchange_within: "within_limit q x \<Longrightarrow> within_limit q (fold (exchange_step lower q) es x)"
  by (induction es arbitrary: x) (simp_all add: exchange_step_within)

lemma send_within:
  assumes "send lower q a es = Some (Inr r)"
  shows "if ar_truncated r then ar_text r = [] else \<exists>b. ar_text r = utf8_decode b \<and> length b \<le> aq_maxResponseBytes q"
proof -
  have "within_limit q (if a then finish_with (Inl UploadAborted) new_exchange else new_exchange)"
    by (simp add: new_within_limit finish_error_within)
  from exchange_within [OF this, of lower es] assms show ?thesis
    unfolding within_limit_def send_def Let_def by blast
qed

lemma aborted_sends_nothing: "send lower q True es = Some (Inl UploadAborted)"
  by (simp add: send_def finish_with_def new_exchange_def exchange_settled)

end
