(* ===== verification/Delivery.thy ===== *)
theory Delivery
  imports Complex_Main Transport Instants
begin

text \<open>
  Delivering a planned run: where it may be sent (\<open>src/ts/packages/http-client/src/target.ts\<close>), when an attempt is
  repeated and after which wait (\<open>retry.ts\<close>), what an answer means and the loop of attempts (\<open>client.ts\<close>).
\<close>

section \<open>Target\<close>

text \<open>A parsed \<open>URL\<close>; parsing and resolving are the platform's.\<close>

record url =
  url_protocol :: jstring
  url_username :: jstring
  url_password :: jstring
  url_hash :: jstring
  url_search :: jstring
  url_hostname :: jstring
  url_origin :: jstring
  url_pathname :: jstring
  url_href :: jstring

record url_host =
  uh_parse :: "jstring \<Rightarrow> url option"
  uh_resolve :: "jstring \<Rightarrow> url \<Rightarrow> url"
  uh_lower :: "jstring \<Rightarrow> jstring"

record target =
  tg_runs :: url
  tg_origin :: jstring
  tg_secure :: bool

definition LOOPBACK :: "jstring list" where
  "LOOPBACK = [js ''localhost'', js ''127.0.0.1'', js ''[::1]'', js ''::1'']"

definition octet_text :: "jstring \<Rightarrow> bool" where
  "octet_text s \<longleftrightarrow> 1 \<le> length s \<and> length s \<le> 3 \<and> list_all is_digit s"

definition isLoopback :: "url_host \<Rightarrow> jstring \<Rightarrow> bool" where
  "isLoopback u hostname =
     (let hst = uh_lower u hostname in
      List.member LOOPBACK hst \<or>
      (case split_on 0x2E hst of [a, b, c, d] \<Rightarrow> a = js ''127'' \<and> octet_text b \<and> octet_text c \<and> octet_text d | _ \<Rightarrow> False))"

definition resolveTarget :: "url_host \<Rightarrow> jstring \<Rightarrow> bool \<Rightarrow> jstring + target" where
  "resolveTarget u baseUrl allowInsecureHttp =
     (if trim baseUrl = [] then Inl (js ''baseUrl must be the absolute URL of a qe-report service'')
      else
        case uh_parse u baseUrl of
          None \<Rightarrow> Inl (js ''baseUrl '' @ quote_string baseUrl @ js '' is not an absolute URL'')
        | Some url \<Rightarrow>
            if url_protocol url \<noteq> js ''https:'' \<and> url_protocol url \<noteq> js ''http:''
            then Inl (js ''baseUrl must be http or https, not '' @ remove1 0x3A (url_protocol url))
            else if url_username url \<noteq> [] \<or> url_password url \<noteq> []
            then Inl (js ''baseUrl must not carry a user name or a password'')
            else if url_hash url \<noteq> [] then Inl (js ''baseUrl must not carry a fragment'')
            else if url_search url \<noteq> [] then Inl (js ''baseUrl must not carry a query string'')
            else
              let secure = (url_protocol url = js ''https:'') in
              if \<not> secure \<and> \<not> isLoopback u (url_hostname url) \<and> \<not> allowInsecureHttp
              then Inl (js ''baseUrl '' @ url_origin url @ js '' is plaintext HTTP to another host; an API key is only sent over HTTPS, or to this machine, unless allowInsecureHttp is set for a development service'')
              else
                case uh_parse u (if has_suffix (url_pathname url) (js ''/'') then url_href url else url_href url @ js ''/'') of
                  None \<Rightarrow> Inl (js ''Invalid URL'')
                | Some base \<Rightarrow>
                    Inr \<lparr>tg_runs = uh_resolve u (js ''v1/runs'') base, tg_origin = url_origin url, tg_secure = secure\<rparr>)"

section \<open>Retrying\<close>

text \<open>A number a caller gave: finite, or \<open>NaN\<close> or an infinity.\<close>

datatype js_number = Finite rat | NotFinite

fun isInteger :: "js_number \<Rightarrow> bool" where
  "isInteger (Finite q) = (snd (quotient_of q) = 1)"
| "isInteger NotFinite = False"

fun whole :: "js_number \<Rightarrow> int" where
  "whole (Finite q) = fst (quotient_of q)"
| "whole NotFinite = 0"

record retry_overrides =
  ro_maxAttempts :: "js_number option"
  ro_baseDelayMs :: "js_number option"
  ro_maxDelayMs :: "js_number option"

record retry_policy =
  rp_maxAttempts :: int
  rp_baseDelayMs :: int
  rp_maxDelayMs :: int

definition DEFAULT_RETRY :: retry_policy where
  "DEFAULT_RETRY = \<lparr>rp_maxAttempts = 4, rp_baseDelayMs = 250, rp_maxDelayMs = 30000\<rparr>"

definition MAX_ATTEMPTS_CEILING :: int where
  "MAX_ATTEMPTS_CEILING = 10"

definition given :: "js_number option \<Rightarrow> int \<Rightarrow> js_number" where
  "given x n = (case x of None \<Rightarrow> Finite (of_int n) | Some v \<Rightarrow> v)"

definition resolveRetry :: "retry_overrides \<Rightarrow> jstring + retry_policy" where
  "resolveRetry ro =
     (let a = given (ro_maxAttempts ro) (rp_maxAttempts DEFAULT_RETRY);
          b = given (ro_baseDelayMs ro) (rp_baseDelayMs DEFAULT_RETRY);
          m = given (ro_maxDelayMs ro) (rp_maxDelayMs DEFAULT_RETRY) in
      if \<not> isInteger a \<or> whole a < 1 then Inl (js ''maxAttempts must be a whole number of at least one'')
      else if whole a > MAX_ATTEMPTS_CEILING then Inl (js ''maxAttempts must be at most '' @ show_int MAX_ATTEMPTS_CEILING)
      else if \<not> isInteger b \<or> whole b < 0 then Inl (js ''baseDelayMs must be a whole number of milliseconds'')
      else if \<not> isInteger m \<or> whole m < 0 then Inl (js ''maxDelayMs must be a whole number of milliseconds'')
      else if whole m < whole b then Inl (js ''maxDelayMs must not be less than baseDelayMs'')
      else Inr \<lparr>rp_maxAttempts = whole a, rp_baseDelayMs = whole b, rp_maxDelayMs = whole m\<rparr>)"

definition RETRIABLE_STATUSES :: "nat list" where
  "RETRIABLE_STATUSES = [408, 425, 429, 500, 502, 503, 504]"

definition RETRIABLE_CODES :: "jstring list" where
  "RETRIABLE_CODES = map js [''ECONNRESET'', ''ECONNREFUSED'', ''ECONNABORTED'', ''EPIPE'', ''ETIMEDOUT'', ''EHOSTUNREACH'',
     ''ENETUNREACH'', ''ENETDOWN'', ''ENETRESET'', ''EAI_AGAIN'', ''UND_ERR_SOCKET'']"

fun isRetriableError :: "thrown \<Rightarrow> bool" where
  "isRetriableError (Failure _ (Some code) _) = List.member RETRIABLE_CODES code"
| "isRetriableError _ = False"

text \<open>
  The product of two doubles is rounded by \<open>fl\<close>; \<open>Math.round\<close> rounds half up.  The doubling is exact, and where
  it would overflow the smaller \<open>maxDelayMs\<close> is taken.
\<close>

definition math_round :: "rat \<Rightarrow> int" where
  "math_round q = \<lfloor>q + 1 / 2\<rfloor>"

definition delayBefore :: "(rat \<Rightarrow> rat) \<Rightarrow> nat \<Rightarrow> retry_policy \<Rightarrow> int option \<Rightarrow> rat \<Rightarrow> int" where
  "delayBefore fl attempt policy after random =
     (case after of
        Some ms \<Rightarrow> min ms (rp_maxDelayMs policy)
      | None \<Rightarrow>
          let window = min (rp_baseDelayMs policy * 2 ^ (attempt - 1)) (rp_maxDelayMs policy) in
          math_round (fl (of_int window * random)))"

definition HTTP_DATE :: "jstring \<Rightarrow> bool" where
  "HTTP_DATE s \<longleftrightarrow> length s = 29 \<and>
     List.member (map js [''Mon'', ''Tue'', ''Wed'', ''Thu'', ''Fri'', ''Sat'', ''Sun'']) (take 3 s) \<and>
     take 2 (drop 3 s) = js '', '' \<and> list_all is_digit (take 2 (drop 5 s)) \<and> take 1 (drop 7 s) = js '' '' \<and>
     List.member (map js [''Jan'', ''Feb'', ''Mar'', ''Apr'', ''May'', ''Jun'', ''Jul'', ''Aug'', ''Sep'', ''Oct'', ''Nov'', ''Dec''])
       (take 3 (drop 8 s)) \<and> take 1 (drop 11 s) = js '' '' \<and> list_all is_digit (take 4 (drop 12 s)) \<and>
     take 1 (drop 16 s) = js '' '' \<and> list_all is_digit (take 2 (drop 17 s)) \<and> take 1 (drop 19 s) = js '':'' \<and>
     list_all is_digit (take 2 (drop 20 s)) \<and> take 1 (drop 22 s) = js '':'' \<and> list_all is_digit (take 2 (drop 23 s)) \<and>
     drop 25 s = js '' GMT''"

text \<open>\<open>parse\<close> is \<open>Date.parse\<close>, whose reading of such a date is the platform's.\<close>

definition retryAfterMs :: "(jstring \<Rightarrow> int option) \<Rightarrow> jstring option \<Rightarrow> int \<Rightarrow> int option" where
  "retryAfterMs parse header now =
     (case header of
        None \<Rightarrow> None
      | Some h \<Rightarrow>
          let t = trim h in
          if 1 \<le> length t \<and> length t \<le> 7 \<and> list_all is_digit t then Some (int (digits_value t) * 1000)
          else if \<not> HTTP_DATE t then None
          else case parse t of None \<Rightarrow> None | Some t \<Rightarrow> Some (max 0 (t - now)))"

section \<open>The client\<close>

record upload_result =
  ur_outcome :: jstring
  ur_runId :: jstring
  ur_runRef :: jstring
  ur_ingestionSequence :: jstring
  ur_requestId :: "jstring option"
  ur_attempts :: nat
  ur_queryIndexRebuilt :: "bool option"

record problem_facts =
  pf_code :: "jstring option"
  pf_detail :: "jstring option"
  pf_runId :: "jstring option"
  pf_diagnostics :: "json list option"

record upload_rejection =
  rj_status :: nat
  rj_detail :: jstring
  rj_code :: "jstring option"
  rj_requestId :: "jstring option"
  rj_runId :: "jstring option"
  rj_diagnostics :: "json list"

record transport_failure =
  tf_message :: jstring
  tf_attempts :: nat
  tf_requestId :: "jstring option"
  tf_status :: "nat option"
  tf_cause :: "thrown option"

datatype upload_error = TypeError jstring | Rethrown thrown | UploadRejectedError upload_rejection | UploadTransportError transport_failure

datatype answer = Done upload_result | Rejected upload_rejection | Again jstring

record http_client =
  hc_target :: target
  hc_apiKey :: jstring
  hc_retry :: retry_policy
  hc_attemptTimeoutMs :: int

record client_options =
  co_baseUrl :: jstring
  co_apiKey :: jstring
  co_retry :: retry_overrides
  co_attemptTimeoutMs :: "js_number option"
  co_allowInsecureHttp :: bool

definition DEFAULT_ATTEMPT_TIMEOUT_MS :: int where
  "DEFAULT_ATTEMPT_TIMEOUT_MS = 10 * 60 * 1000"

definition MAX_RESPONSE_BYTES :: nat where
  "MAX_RESPONSE_BYTES = 1024 * 1024"

definition new_client :: "url_host \<Rightarrow> client_options \<Rightarrow> jstring + http_client" where
  "new_client u co =
     bind_r (resolveTarget u (co_baseUrl co) (co_allowInsecureHttp co)) (\<lambda>target.
     if co_apiKey co = [] \<or> \<not> list_all (\<lambda>c. 0x21 \<le> c \<and> c \<le> 0x7E) (co_apiKey co)
     then Inl (js ''apiKey must be the bearer token of a project-scoped API key'')
     else
       bind_r (resolveRetry (co_retry co)) (\<lambda>retry.
       let timeout = given (co_attemptTimeoutMs co) DEFAULT_ATTEMPT_TIMEOUT_MS in
       if \<not> isInteger timeout \<or> whole timeout < 1 then Inl (js ''attemptTimeoutMs must be a whole number of milliseconds'')
       else Inr \<lparr>hc_target = target, hc_apiKey = co_apiKey co, hc_retry = retry, hc_attemptTimeoutMs = whole timeout\<rparr>))"

text \<open>
  The two media types, matched without case as \<open>/iu\<close> does: besides the letters, the long s and the Kelvin sign
  fold to a letter.
\<close>

definition fold_unit :: "16 word \<Rightarrow> 16 word" where
  "fold_unit c = (if 0x41 \<le> c \<and> c \<le> 0x5A then c + 0x20 else if c = 0x017F then 0x73 else if c = 0x212A then 0x6B else c)"

definition media_type :: "string \<Rightarrow> jstring \<Rightarrow> bool" where
  "media_type name s \<longleftrightarrow>
     map fold_unit (take (length name) s) = js name \<and>
     (case dropWhile is_js_space (drop (length name) s) of [] \<Rightarrow> True | c # _ \<Rightarrow> c = 0x3B)"

definition JSON_TYPE :: "jstring \<Rightarrow> bool" where
  "JSON_TYPE = media_type ''application/json''"

definition PROBLEM_TYPE :: "jstring \<Rightarrow> bool" where
  "PROBLEM_TYPE = media_type ''application/problem+json''"

fun text_member :: "json option \<Rightarrow> jstring option" where
  "text_member (Some (JStr s)) = Some s"
| "text_member _ = None"

fun array_member :: "json option \<Rightarrow> json list option" where
  "array_member (Some (JArr vs)) = Some vs"
| "array_member _ = None"

definition no_facts :: problem_facts where
  "no_facts = \<lparr>pf_code = None, pf_detail = None, pf_runId = None, pf_diagnostics = None\<rparr>"

definition problemOf :: "(jstring \<Rightarrow> json option) \<Rightarrow> jstring \<Rightarrow> problem_facts" where
  "problemOf parse txt =
     (case parse txt of
        Some (JObj prob) \<Rightarrow>
          \<lparr>pf_code = text_member (jget prob (js ''code'')), pf_detail = text_member (jget prob (js ''detail'')),
           pf_runId = text_member (jget prob (js ''runId'')), pf_diagnostics = array_member (jget prob (js ''diagnostics''))\<rparr>
      | _ \<Rightarrow> no_facts)"

definition detailOf :: "nat \<Rightarrow> problem_facts \<Rightarrow> jstring" where
  "detailOf st prob =
     (case pf_detail prob of
        None \<Rightarrow> js ''the service refused the run ('' @ show_nat st @ js '')''
      | Some detail \<Rightarrow>
          (case pf_code prob of
             None \<Rightarrow> js ''the service refused the run ('' @ show_nat st @ js ''): '' @ detail
           | Some code \<Rightarrow> js ''the service refused the run ('' @ show_nat st @ js '' '' @ code @ js ''): '' @ detail))"

definition successOf :: "(jstring \<Rightarrow> json option) \<Rightarrow> jstring \<Rightarrow> jstring option \<Rightarrow> nat \<Rightarrow> upload_result option" where
  "successOf parse txt requestId n =
     (case parse txt of
        Some (JObj result) \<Rightarrow>
          (case (jget result (js ''outcome''), jget result (js ''runId''), jget result (js ''runRef''), jget result (js ''ingestionSequence'')) of
             (Some (JStr oc), Some (JStr rid), Some (JStr ref), Some (JStr sq)) \<Rightarrow>
               if oc \<noteq> js ''inserted'' \<and> oc \<noteq> js ''already_present'' then None
               else if rid = [] \<or> ref = [] then None
               else if sq = [] \<or> \<not> list_all is_digit sq then None
               else Some \<lparr>ur_outcome = oc, ur_runId = rid, ur_runRef = ref, ur_ingestionSequence = sq,
                 ur_requestId = requestId, ur_attempts = n,
                 ur_queryIndexRebuilt = (case jget result (js ''queryIndexRebuilt'') of Some (JBool b) \<Rightarrow> Some b | _ \<Rightarrow> None)\<rparr>
           | _ \<Rightarrow> None)
      | _ \<Rightarrow> None)"

fun safely :: "thrown \<Rightarrow> jstring" where
  "safely (Failure True (Some code) m) = code"
| "safely (Failure True None m) = m"
| "safely (Failure False _ m) = js ''the connection failed''"
| "safely (ThrownLocal p m) = m"
| "safely UploadAborted = js ''the upload was cancelled''"

definition header_text :: "headers \<Rightarrow> string \<Rightarrow> jstring option" where
  "header_text hs name = hs (js name)"

definition read_answer :: "(jstring \<Rightarrow> json option) \<Rightarrow> attempt_response \<Rightarrow> nat \<Rightarrow> jstring option \<Rightarrow> answer" where
  "read_answer parse response attempt requestId =
     (let st = ar_status response;
          ty = (case header_text (ar_headers response) ''content-type'' of None \<Rightarrow> [] | Some t \<Rightarrow> t) in
      if st = 200 \<or> st = 201
      then
        if ar_truncated response \<or> \<not> JSON_TYPE ty then Again (js ''the service answered in a form this client cannot read'')
        else
          case successOf parse (ar_text response) requestId attempt of
            None \<Rightarrow> Again (js ''the service answered with an incomplete result'')
          | Some r \<Rightarrow> Done r
      else
        let prob = (if PROBLEM_TYPE ty \<and> \<not> ar_truncated response then problemOf parse (ar_text response) else no_facts) in
        if List.member RETRIABLE_STATUSES st then Again (js ''the service answered '' @ show_nat st)
        else
          Rejected \<lparr>rj_status = st, rj_detail = detailOf st prob, rj_code = pf_code prob, rj_requestId = requestId,
            rj_runId = pf_runId prob, rj_diagnostics = (case pf_diagnostics prob of None \<Rightarrow> [] | Some ds \<Rightarrow> ds)\<rparr>)"

section \<open>The attempts\<close>

text \<open>
  What the process meets while it delivers, by attempt: the directory as it is read, the boundary drawn, the
  state of the caller's signal, the callbacks of the exchange, the clock, the random number and the sleep, which
  ends or throws.
\<close>

record delivery_host =
  dh_parse :: "jstring \<Rightarrow> json option"
  dh_lower :: "jstring \<Rightarrow> jstring"
  dh_date :: "jstring \<Rightarrow> int option"
  dh_round :: "rat \<Rightarrow> rat"
  dh_files :: "nat \<Rightarrow> local_files"
  dh_random_hex :: "nat \<Rightarrow> jstring"
  dh_aborted :: "nat \<Rightarrow> bool"
  dh_events :: "nat \<Rightarrow> attempt_request \<Rightarrow> exchange_event list"
  dh_now :: "nat \<Rightarrow> int"
  dh_random :: "nat \<Rightarrow> rat"
  dh_sleep :: "nat \<Rightarrow> int \<Rightarrow> thrown option"
  dh_cancelled :: "nat \<Rightarrow> bool"

record delivery_log =
  dl_sent :: "attempt_request list"
  dl_waits :: "int list"

record last_problem =
  lp_message :: jstring
  lp_status :: "nat option"
  lp_requestId :: "jstring option"
  lp_cause :: "thrown option"

definition boundary :: "delivery_host \<Rightarrow> nat \<Rightarrow> jstring" where
  "boundary h attempt = js ''qe-report-'' @ dh_random_hex h attempt"

definition request_of :: "http_client \<Rightarrow> delivery_host \<Rightarrow> upload_plan \<Rightarrow> jstring \<Rightarrow> nat \<Rightarrow> attempt_request" where
  "request_of c h plan expiresAt attempt =
     (let mark = boundary h attempt; l = layout utf8_encode mark plan expiresAt in
      \<lparr>aq_url = url_href (tg_runs (hc_target c)),
       aq_headers =
         [(js ''authorization'', js ''Bearer '' @ hc_apiKey c),
          (js ''content-type'', js ''multipart/form-data; boundary='' @ mark),
          (js ''content-length'', show_nat (content_length utf8_encode l)),
          (js ''accept'', js ''application/json, application/problem+json''),
          (js ''user-agent'', js ''qe-report-http-client'')],
       aq_body = fst (body_stream utf8_encode (dh_files h attempt) l []),
       aq_timeoutMs = hc_attemptTimeoutMs c, aq_maxResponseBytes = MAX_RESPONSE_BYTES\<rparr>)"

text \<open>\<open>defaultSleep\<close>, with the moment the signal aborts, if it does.\<close>

definition defaultSleep :: "bool \<Rightarrow> int option \<Rightarrow> int \<Rightarrow> thrown option" where
  "defaultSleep aborted abortsAfter ms =
     (if aborted then Some UploadAborted
      else case abortsAfter of Some t \<Rightarrow> if t < ms then Some UploadAborted else None | None \<Rightarrow> None)"

definition waitBefore :: "http_client \<Rightarrow> delivery_host \<Rightarrow> nat \<Rightarrow> attempt_response option \<Rightarrow> delivery_log \<Rightarrow> thrown option \<times> delivery_log" where
  "waitBefore c h attempt response dlog =
     (if int attempt \<ge> rp_maxAttempts (hc_retry c) then (None, dlog)
      else
        let after = retryAfterMs (dh_date h) (case response of None \<Rightarrow> None | Some r \<Rightarrow> header_text (ar_headers r) ''retry-after'') (dh_now h attempt);
            ms = delayBefore (dh_round h) attempt (hc_retry c) after (dh_random h attempt);
            dlog = dlog\<lparr>dl_waits := dl_waits dlog @ [ms]\<rparr>
        in case dh_sleep h attempt ms of
             Some e \<Rightarrow> (Some e, dlog)
           | None \<Rightarrow> (if dh_cancelled h attempt then Some UploadAborted else None, dlog))"

definition given_up :: "http_client \<Rightarrow> last_problem \<Rightarrow> upload_error" where
  "given_up c lastProblem =
     UploadTransportError \<lparr>
       tf_message = js ''the upload was not delivered after '' @ show_int (rp_maxAttempts (hc_retry c)) @ js '' attempts: '' @ lp_message lastProblem,
       tf_attempts = nat (rp_maxAttempts (hc_retry c)), tf_requestId = lp_requestId lastProblem, tf_status = lp_status lastProblem,
       tf_cause = lp_cause lastProblem\<rparr>"

text \<open>What an attempt leads to: the end of the delivery, or another attempt after a wait.\<close>

datatype next_move = End "upload_error + upload_result" | Repeat last_problem "attempt_response option"

definition judge :: "http_client \<Rightarrow> delivery_host \<Rightarrow> nat \<Rightarrow> thrown + attempt_response \<Rightarrow> next_move" where
  "judge c h attempt outcome =
     (case outcome of
        Inl (ThrownLocal p m) \<Rightarrow> End (Inl (Rethrown (ThrownLocal p m)))
      | Inl UploadAborted \<Rightarrow> End (Inl (Rethrown UploadAborted))
      | Inl e \<Rightarrow>
          if \<not> isRetriableError e
          then End (Inl (UploadTransportError \<lparr>tf_message = js ''the upload could not be delivered: '' @ safely e,
                 tf_attempts = attempt, tf_requestId = None, tf_status = None, tf_cause = Some e\<rparr>))
          else Repeat \<lparr>lp_message = safely e, lp_status = None, lp_requestId = None, lp_cause = Some e\<rparr> None
      | Inr response \<Rightarrow>
          let requestId = header_text (ar_headers response) ''x-request-id'' in
          (case read_answer (dh_parse h) response attempt requestId of
             Done result \<Rightarrow> End (Inr result)
           | Rejected r \<Rightarrow> End (Inl (UploadRejectedError r))
           | Again why \<Rightarrow>
               Repeat \<lparr>lp_message = why, lp_status = Some (ar_status response), lp_requestId = requestId, lp_cause = None\<rparr> (Some response)))"

text \<open>
  The loop of \<open>deliver\<close> from one attempt on; \<open>None\<close> when an exchange never settles.
\<close>

function deliver_from :: "http_client \<Rightarrow> delivery_host \<Rightarrow> upload_plan \<Rightarrow> jstring \<Rightarrow> nat \<Rightarrow> last_problem \<Rightarrow> delivery_log \<Rightarrow> ((upload_error + upload_result) \<times> delivery_log) option" where
  "deliver_from c h plan expiresAt attempt lastProblem dlog =
     (if int attempt > rp_maxAttempts (hc_retry c) then Some (Inl (given_up c lastProblem), dlog)
      else if dh_aborted h attempt then Some (Inl (Rethrown UploadAborted), dlog)
      else
        let q = request_of c h plan expiresAt attempt; dlog = dlog\<lparr>dl_sent := dl_sent dlog @ [q]\<rparr> in
        case send (dh_lower h) q False (dh_events h attempt q) of
          None \<Rightarrow> None
        | Some outcome \<Rightarrow>
            (case judge c h attempt outcome of
               End r \<Rightarrow> Some (r, dlog)
             | Repeat lastProblem response \<Rightarrow>
                 (case waitBefore c h attempt response dlog of
                    (Some e, dlog) \<Rightarrow> Some (Inl (Rethrown e), dlog)
                  | (None, dlog) \<Rightarrow> deliver_from c h plan expiresAt (attempt + 1) lastProblem dlog)))"
  by pat_completeness auto

termination deliver_from
  by (relation "measure (\<lambda>(c, h, plan, expiresAt, attempt, lastProblem, dlog). nat (rp_maxAttempts (hc_retry c) + 1 - int attempt))") auto

declare deliver_from.simps [simp del]

definition deliver :: "http_client \<Rightarrow> delivery_host \<Rightarrow> upload_plan \<Rightarrow> jstring \<Rightarrow> ((upload_error + upload_result) \<times> delivery_log) option" where
  "deliver c h plan expiresAt =
     deliver_from c h plan expiresAt 1
       \<lparr>lp_message = js ''the upload was not delivered'', lp_status = None, lp_requestId = None, lp_cause = None\<rparr>
       \<lparr>dl_sent = [], dl_waits = []\<rparr>"

text \<open>
  \<open>uploadRunDirectory\<close>: the plan is made once, on the directory as the call finds it.
\<close>

definition uploadRunDirectory :: "http_client \<Rightarrow> delivery_host \<Rightarrow> local_files \<Rightarrow> jstring \<Rightarrow> int option \<Rightarrow> ((upload_error + upload_result) \<times> delivery_log) option" where
  "uploadRunDirectory c h fs runDirectory expiresAt =
     (case checkExpiresAt expiresAt of
        Inl m \<Rightarrow> Some (Inl (TypeError m), \<lparr>dl_sent = [], dl_waits = []\<rparr>)
      | Inr t \<Rightarrow>
          (case planUpload fs runDirectory [] of
             (Inl e, _) \<Rightarrow> Some (Inl (Rethrown (thrown_of e)), \<lparr>dl_sent = [], dl_waits = []\<rparr>)
           | (Inr plan, _) \<Rightarrow> deliver c h plan (toISOString t)))"

end
