(* ===== verification/Upload_Properties.thy ===== *)
theory Upload_Properties
  imports Upload_Plan Encoding
begin

text \<open>
  What an attempt sends: the announced number of bytes of the planned files, or a body that ends short.
\<close>

section \<open>Descriptors\<close>

lemmas upload_io_defs = return_u_def throw_u_def bind_u_def platform_u_def close_u_def opened_u_def

lemma client_openRegular_cases:
  obtains (refused) e where "client_openRegular fs path name fds = (Inl e, fds)"
    | (opened) fd facts where "client_openRegular fs path name fds = (Inr (fd, facts), fd # fds)" "lf_lstat fs path = Inr Regular"
        "lf_open fs path = Inr fd" "lf_fstat fs fd = Inr (Regular, facts)"
proof (cases "lf_lstat fs path")
  case (Inr kind)
  show thesis
  proof (cases "kind = Regular")
    case True
    show thesis
    proof (cases "lf_open fs path")
      case (Inl e)
      with Inr True show thesis by (cases e) (auto simp: client_openRegular_def upload_io_defs intro: refused)
    next
      case (Inr fd)
      note there = this \<open>lf_lstat fs path = Inr kind\<close> True
      show thesis
      proof (cases "lf_fstat fs fd")
        case (Inl e)
        with there show thesis by (auto simp: client_openRegular_def upload_io_defs intro: refused)
      next
        case (Inr r)
        obtain k facts where "r = (k, facts)" by fastforce
        with there Inr show thesis
          by (cases "k = Regular") (auto simp: client_openRegular_def upload_io_defs intro: refused opened)
      qed
    qed
  next
    case False
    with Inr show thesis by (cases kind) (auto simp: client_openRegular_def upload_io_defs intro: refused)
  qed
qed (auto simp: client_openRegular_def upload_io_defs intro: refused)

lemma openPlanned_cases:
  obtains (refused) e where "openPlanned fs f fds = (Inl e, fds)"
    | (opened) fd where "openPlanned fs f fds = (Inr fd, fd # fds)" "lf_fstat fs fd = Inr (Regular, pf_facts f)"
proof (cases rule: client_openRegular_cases [of fs "pf_path f" "pf_name f" fds])
  case (refused e)
  then show thesis by (intro that(1)) (simp add: openPlanned_def upload_io_defs)
next
  case (opened fd facts)
  then show thesis by (cases "facts = pf_facts f") (auto simp: openPlanned_def upload_io_defs intro: that)
qed

section \<open>One file\<close>

text \<open>The bytes of a part are those of the planned file: as many, and with its hash when it is an attachment.\<close>

definition part_sound :: "local_files \<Rightarrow> planned_file \<Rightarrow> bytes \<Rightarrow> bool" where
  "part_sound fs f c \<longleftrightarrow> length c = ff_sizeBytes (pf_facts f) \<and>
     (case pf_sha256 f of None \<Rightarrow> True | Some h \<Rightarrow> lf_sha256 fs c = h)"

lemma send_chunks_bound:
  assumes "send_chunks limit cs sent out = (n, out', ended)" and "length out = sent" "sent \<le> limit"
  shows "length out' \<le> limit \<and> (n \<le> limit \<longrightarrow> length out' = n)"
  using assms by (induction limit cs sent out rule: send_chunks.induct) (auto split: if_splits)

lemma stream_file_sound:
  assumes "stream_file fs f fds = ((out, e), fds')"
  shows "fds' = fds" and "length out \<le> ff_sizeBytes (pf_facts f)" and "e = None \<Longrightarrow> part_sound fs f out"
proof -
  have "fds' = fds \<and> length out \<le> ff_sizeBytes (pf_facts f) \<and> (e = None \<longrightarrow> part_sound fs f out)"
  proof (cases rule: openPlanned_cases [of fs f fds])
    case (refused e')
    with assms show ?thesis by (auto simp: stream_file_def)
  next
    case (opened fd)
    obtain chunks failure where c: "lf_content fs fd = (chunks, failure)" by fastforce
    obtain n out' ended where s: "send_chunks (ff_sizeBytes (pf_facts f)) chunks 0 [] = (n, out', ended)" by (cases "send_chunks (ff_sizeBytes (pf_facts f)) chunks 0 []") auto
    note bound = send_chunks_bound [OF s]
    have out: "out = out'" "fds' = fds" using assms opened c s by (auto simp: stream_file_def Let_def)
    have "part_sound fs f out" if "e = None"
    proof -
      have "checkUnchanged fs fd f n = Inr ()" "pf_sha256 f \<noteq> None \<Longrightarrow> checkAttachmentBytes f (lf_sha256 fs out) = Inr ()"
        using assms opened c s that by (auto simp: stream_file_def Let_def result_simps split: option.splits sum.splits if_splits)
      then have "n = ff_sizeBytes (pf_facts f)" "pf_sha256 f \<noteq> None \<Longrightarrow> pf_sha256 f = Some (lf_sha256 fs out)"
        by (auto simp: checkUnchanged_def checkAttachmentBytes_def split: sum.splits if_splits)
      with bound out(1) show ?thesis by (auto simp: part_sound_def split: option.splits)
    qed
    with bound out show ?thesis by simp
  qed
  then show "fds' = fds" "length out \<le> ff_sizeBytes (pf_facts f)" "e = None \<Longrightarrow> part_sound fs f out" by blast+
qed

section \<open>The whole body\<close>

fun assembled :: "bytes \<Rightarrow> (bytes \<times> planned_file) list \<Rightarrow> bytes list \<Rightarrow> bytes" where
  "assembled sep ((h, f) # ps) (c # cs) = h @ c @ sep @ assembled sep ps cs"
| "assembled sep _ _ = []"

definition parts_length :: "nat \<Rightarrow> (bytes \<times> planned_file) list \<Rightarrow> nat" where
  "parts_length n ps = sum_list (map (\<lambda>(h, f). length h + ff_sizeBytes (pf_facts f) + n) ps)"

lemma stream_files_sound:
  assumes "stream_files fs sep ps fds = ((out, e), fds')" and "sep \<noteq> []"
  shows "fds' = fds \<and> (case e of
      None \<Rightarrow> (\<exists>cs. out = assembled sep ps cs \<and> list_all2 (\<lambda>(h, f) c. part_sound fs f c) ps cs) \<and> length out = parts_length (length sep) ps
    | Some _ \<Rightarrow> length out < parts_length (length sep) ps)"
  using assms(1)
proof (induction ps arbitrary: out e fds fds')
  case Nil
  then show ?case by (simp add: parts_length_def)
next
  case (Cons p ps)
  obtain h f where p: "p = (h, f)" by fastforce
  obtain c e1 fds1 where 1: "stream_file fs f fds = ((c, e1), fds1)" by (metis surj_pair)
  note one = stream_file_sound [OF 1]
  show ?case
  proof (cases e1)
    case (Some x)
    then have "e = Some x" "out = h @ c" "fds' = fds" using Cons.prems 1 one(1) by (auto simp: p)
    with one(2) assms(2) show ?thesis by (cases sep) (simp_all add: parts_length_def p)
  next
    case None
    obtain rest e2 fds2 where 2: "stream_files fs sep ps fds = ((rest, e2), fds2)" by (metis surj_pair)
    have r: "out = h @ c @ sep @ rest" "e = e2" "fds' = fds2" using Cons.prems 1 2 None one(1) by (auto simp: p)
    note IH = Cons.IH [OF 2]
    have c: "part_sound fs f c" "length c = ff_sizeBytes (pf_facts f)" using one(3) None by (auto simp: part_sound_def)
    show ?thesis
    proof (cases e2)
      case None
      with IH obtain cs where cs: "rest = assembled sep ps cs" "list_all2 (\<lambda>(h, f) c. part_sound fs f c) ps cs"
        "length rest = parts_length (length sep) ps" by auto
      then have "\<exists>ds. out = assembled sep (p # ps) ds \<and> list_all2 (\<lambda>(h, f) c. part_sound fs f c) (p # ps) ds"
        using r(1) c(1) by (intro exI [of _ "c # cs"]) (simp add: p)
      with IH r None cs(3) c(2) show ?thesis by (simp add: parts_length_def p)
    next
      case (Some x)
      with IH r c(2) show ?thesis by (simp add: parts_length_def p)
    qed
  qed
qed

text \<open>
  C16. An upload is complete or visibly cut short: whatever happens to the directory meanwhile, the body of an
  attempt either has exactly the announced length, with every part holding as many bytes as planned and every
  attachment the bytes its name is the hash of, or it ends with an error before the announced length is reached;
  and no descriptor stays open.
\<close>

theorem body_complete_or_cut:
  assumes "body_stream utf8_encode fs (layout utf8_encode mark plan expiresAt) fds = ((out, e), fds')"
  shows "fds' = fds \<and> (let l = layout utf8_encode mark plan expiresAt in
    case e of
      None \<Rightarrow> length out = content_length utf8_encode l \<and>
        (\<exists>cs. out = bl_head l @ assembled (utf8_encode CRLF) (bl_files l) cs @ bl_tail l \<and>
           list_all2 (\<lambda>(h, f) c. part_sound fs f c) (bl_files l) cs)
    | Some _ \<Rightarrow> length out < content_length utf8_encode l)"
proof -
  define l where "l = layout utf8_encode mark plan expiresAt"
  have sep: "utf8_encode CRLF \<noteq> []" by (simp add: CRLF_def)
  obtain body e1 fds1 where s: "stream_files fs (utf8_encode CRLF) (bl_files l) fds = ((body, e1), fds1)" by (metis surj_pair)
  have parts: "content_length utf8_encode l = length (bl_head l) + parts_length (length (utf8_encode CRLF)) (bl_files l) + length (bl_tail l)"
    by (simp add: content_length_def parts_length_def)
  note sound = stream_files_sound [OF s sep]
  show ?thesis
  proof (cases e1)
    case None
    then have "e = None" "out = bl_head l @ body @ bl_tail l" "fds' = fds1" using assms(1) s by (auto simp: body_stream_def l_def)
    with sound None parts show ?thesis by (auto simp: Let_def simp flip: l_def)
  next
    case (Some x)
    then have "e = Some x" "out = bl_head l @ body" "fds' = fds1" using assms(1) s by (auto simp: body_stream_def l_def)
    with sound Some parts show ?thesis by (simp add: Let_def flip: l_def)
  qed
qed

text \<open>A directory whose one event file grew after the plan was made: the body ends before its file.\<close>

definition grown_file :: planned_file where
  "grown_file = \<lparr>pf_name = js ''events/a.ndjson'', pf_path = js ''/r/events/a.ndjson'',
     pf_facts = \<lparr>ff_sizeBytes = 2, ff_mtimeMs = 0, ff_device = 1, ff_inode = 7\<rparr>, pf_sha256 = None\<rparr>"

definition grown_directory :: local_files where
  "grown_directory =
     \<lparr>lf_realpath = Inr, lf_lstat = \<lambda>_. Inr Regular, lf_readdir = \<lambda>_. Inr [js ''a.ndjson''], lf_open = \<lambda>_. Inr 3,
      lf_fstat = \<lambda>_. Inr (Regular, pf_facts grown_file), lf_content = \<lambda>_. ([[0x7B, 0x7D, 0x0A]], None),
      lf_fstat_after = \<lambda>_. Inr (Regular, (pf_facts grown_file)\<lparr>ff_sizeBytes := 3\<rparr>), lf_sha256 = \<lambda>b. js ''0''\<rparr>"

theorem body_complete_or_cut_witness:
  "\<exists>plan out e. up_events plan = [grown_file] \<and> e \<noteq> None \<and>
     body_stream utf8_encode grown_directory (layout utf8_encode (js ''b'') plan (js ''x'')) [] = ((out, e), []) \<and>
     length out < content_length utf8_encode (layout utf8_encode (js ''b'') plan (js ''x''))"
proof -
  define plan where "plan = \<lparr>up_runDirectory = js ''/r'', up_events = [grown_file], up_attachments = [], up_totalBytes = 2\<rparr>"
  obtain out e fds where s: "body_stream utf8_encode grown_directory (layout utf8_encode (js ''b'') plan (js ''x'')) [] = ((out, e), fds)"
    by (metis surj_pair)
  have "e \<noteq> None"
    using s by (auto simp: plan_def body_stream_def layout_def grown_directory_def grown_file_def stream_file_def openPlanned_def
      client_openRegular_def upload_io_defs checkUnchanged_def Let_def result_simps split: prod.splits option.splits)
  with body_complete_or_cut [OF s] s show ?thesis
    by (intro exI [of _ plan] exI [of _ out] exI [of _ e]) (auto simp: plan_def Let_def)
qed

end
