(* ===== verification/Delivery_Properties.thy ===== *)
theory Delivery_Properties
  imports Delivery Upload_Properties
begin

text \<open>
  The loop of attempts ends, waits within its policy, repeats only what may be repeated, and reports a run as
  archived only when the service said so; the key goes nowhere but to the target that was checked.
\<close>

section \<open>The policy\<close>

definition policy_ok :: "retry_policy \<Rightarrow> bool" where
  "policy_ok p \<longleftrightarrow> 1 \<le> rp_maxAttempts p \<and> rp_maxAttempts p \<le> 10 \<and> 0 \<le> rp_baseDelayMs p \<and> rp_baseDelayMs p \<le> rp_maxDelayMs p"

lemma resolveRetry_ok: "resolveRetry ro = Inr p \<Longrightarrow> policy_ok p"
  by (auto simp: resolveRetry_def policy_ok_def Let_def MAX_ATTEMPTS_CEILING_def split: if_splits)

lemma new_client_ok: "new_client u co = Inr c \<Longrightarrow> policy_ok (hc_retry c)"
  by (auto simp: new_client_def result_simps Let_def resolveRetry_ok split: if_splits)

text \<open>What is relied on of the arithmetic: the rounding of doubles is monotone and leaves a double as it is.\<close>

definition rounds :: "(rat \<Rightarrow> rat) \<Rightarrow> retry_policy \<Rightarrow> bool" where
  "rounds fl p \<longleftrightarrow> (\<forall>x y. x \<le> y \<longrightarrow> fl x \<le> fl y) \<and> fl 0 = 0 \<and> fl (of_int (rp_maxDelayMs p)) = of_int (rp_maxDelayMs p)"

lemma math_round_bounds:
  assumes "0 \<le> q" "q \<le> of_int m"
  shows "0 \<le> math_round q \<and> math_round q \<le> m"
proof -
  have "q + 1 / 2 < of_int m + 1" using assms(2) by linarith
  then have "\<lfloor>q + 1 / 2\<rfloor> \<le> m" by (simp add: floor_le_iff)
  moreover have "0 \<le> \<lfloor>q + 1 / 2\<rfloor>" using assms(1) by simp
  ultimately show ?thesis by (simp add: math_round_def)
qed

lemma window_product:
  fixes r :: rat
  assumes "0 \<le> w" "w \<le> m" "0 \<le> r" "r \<le> 1"
  shows "0 \<le> of_int w * r \<and> of_int w * r \<le> of_int m"
proof -
  have "of_int w * r \<le> of_int w * 1" using assms by (intro mult_left_mono) auto
  also have "\<dots> \<le> of_int m" using assms(2) by simp
  finally show ?thesis using assms by simp
qed

lemma delayBefore_bounds:
  assumes "policy_ok p" "rounds fl p" "0 \<le> r" "r \<le> 1" and "\<And>ms. after = Some ms \<Longrightarrow> 0 \<le> ms"
  shows "0 \<le> delayBefore fl n p after r \<and> delayBefore fl n p after r \<le> rp_maxDelayMs p"
proof (cases after)
  case None
  define w where "w = min (rp_baseDelayMs p * 2 ^ (n - 1)) (rp_maxDelayMs p)"
  have "0 \<le> w" "w \<le> rp_maxDelayMs p" using assms(1) by (auto simp: w_def policy_ok_def)
  note product = window_product [OF this assms(3,4)]
  have "fl 0 \<le> fl (of_int w * r)" "fl (of_int w * r) \<le> fl (of_int (rp_maxDelayMs p))"
    using assms(2) product unfolding rounds_def by blast+
  then have "0 \<le> fl (of_int w * r)" "fl (of_int w * r) \<le> of_int (rp_maxDelayMs p)" using assms(2) by (simp_all add: rounds_def)
  from math_round_bounds [OF this] None show ?thesis by (simp add: delayBefore_def Let_def w_def)
next
  case (Some ms)
  with assms(1,5) show ?thesis by (simp add: delayBefore_def policy_ok_def)
qed

lemma retryAfterMs_nonneg: "retryAfterMs parse header now = Some ms \<Longrightarrow> 0 \<le> ms"
  by (auto simp: retryAfterMs_def Let_def split: option.splits if_splits)

section \<open>The loop\<close>

definition calm_host :: "http_client \<Rightarrow> delivery_host \<Rightarrow> bool" where
  "calm_host c h \<longleftrightarrow> rounds (dh_round h) (hc_retry c) \<and> (\<forall>n. 0 \<le> dh_random h n \<and> dh_random h n \<le> 1) \<and>
     (\<forall>n q. send (dh_lower h) q False (dh_events h n q) = None \<longrightarrow> TimerFired \<in> set (dh_events h n q))"

lemma calm_settles: "calm_host c h \<Longrightarrow> \<exists>r. send (dh_lower h) q False (dh_events h n q) = Some r"
  unfolding calm_host_def using timer_settles [of "dh_events h n q" "dh_lower h" q False] by (cases "send (dh_lower h) q False (dh_events h n q)") auto

definition waits_ok :: "http_client \<Rightarrow> int list \<Rightarrow> bool" where
  "waits_ok c ws \<longleftrightarrow> (\<forall>w\<in>set ws. 0 \<le> w \<and> w \<le> rp_maxDelayMs (hc_retry c))"

lemma waitBefore_cases:
  assumes "policy_ok (hc_retry c)" "calm_host c h" "waits_ok c (dl_waits dlog)"
  obtains e dlog' where "waitBefore c h n response dlog = (e, dlog')" "dl_sent dlog' = dl_sent dlog" "waits_ok c (dl_waits dlog')"
    "length (dl_waits dlog') \<le> length (dl_waits dlog) + (if int n < rp_maxAttempts (hc_retry c) then 1 else 0)"
proof -
  define after where "after = retryAfterMs (dh_date h) (case response of None \<Rightarrow> None | Some r \<Rightarrow> header_text (ar_headers r) ''retry-after'') (dh_now h n)"
  define ms where "ms = delayBefore (dh_round h) n (hc_retry c) after (dh_random h n)"
  have "0 \<le> ms \<and> ms \<le> rp_maxDelayMs (hc_retry c)"
    unfolding ms_def using assms(1,2) by (intro delayBefore_bounds) (auto simp: calm_host_def after_def retryAfterMs_nonneg)
  then show thesis using assms(3) that
    by (cases "int n < rp_maxAttempts (hc_retry c)"; cases "dh_sleep h n ms")
      (auto simp: waitBefore_def Let_def waits_ok_def simp flip: after_def ms_def)
qed

lemma deliver_step:
  assumes "int n \<le> rp_maxAttempts (hc_retry c)" "\<not> dh_aborted h n" "q = request_of c h plan x n"
    "sent = dlog\<lparr>dl_sent := dl_sent dlog @ [q]\<rparr>" "send (dh_lower h) q False (dh_events h n q) = Some outcome"
  shows "deliver_from c h plan x n lst dlog = (case judge c h n outcome of
      End r \<Rightarrow> Some (r, sent)
    | Repeat lst response \<Rightarrow> (case waitBefore c h n response sent of
        (Some e, d) \<Rightarrow> Some (Inl (Rethrown e), d) | (None, d) \<Rightarrow> deliver_from c h plan x (n + 1) lst d))"
  unfolding deliver_from.simps [of c h plan x n lst dlog] assms(4) using assms(1,2,5) by (simp add: Let_def flip: assms(3))

lemma deliver_from_bounded:
  assumes "policy_ok (hc_retry c)" "calm_host c h" "waits_ok c (dl_waits dlog)"
    and "1 \<le> n" "int n \<le> rp_maxAttempts (hc_retry c) + 1" "length (dl_sent dlog) = n - 1"
    "length (dl_waits dlog) \<le> min (n - 1) (nat (rp_maxAttempts (hc_retry c)) - 1)"
  shows "\<exists>r dlog'. deliver_from c h plan x n lst dlog = Some (r, dlog') \<and>
    length (dl_sent dlog') \<le> nat (rp_maxAttempts (hc_retry c)) \<and>
    length (dl_waits dlog') \<le> nat (rp_maxAttempts (hc_retry c)) - 1 \<and> waits_ok c (dl_waits dlog')"
  using assms
proof (induction c h plan x n lst dlog rule: deliver_from.induct)
  case (1 c h plan x n lst dlog)
  define q where "q = request_of c h plan x n"
  define sent where "sent = dlog\<lparr>dl_sent := dl_sent dlog @ [q]\<rparr>"
  consider "int n > rp_maxAttempts (hc_retry c)" | "int n \<le> rp_maxAttempts (hc_retry c)" "dh_aborted h n"
    | "int n \<le> rp_maxAttempts (hc_retry c)" "\<not> dh_aborted h n" by linarith
  then show ?case
  proof cases
    case 3
    obtain outcome where out: "send (dh_lower h) q False (dh_events h n q) = Some outcome" using calm_settles [OF 1(3)] by blast
    note step = deliver_step [OF 3 q_def sent_def out]
    have sent: "dl_sent sent = dl_sent dlog @ [q]" "dl_waits sent = dl_waits dlog" by (simp_all add: sent_def)
    show ?thesis
    proof (cases "judge c h n outcome")
      case (End r)
      then show ?thesis using step sent 1 3 by auto
    next
      case (Repeat lst' response)
      obtain e d where w: "waitBefore c h n response sent = (e, d)" "dl_sent d = dl_sent sent" "waits_ok c (dl_waits d)"
        "length (dl_waits d) \<le> length (dl_waits sent) + (if int n < rp_maxAttempts (hc_retry c) then 1 else 0)"
        using waitBefore_cases [of c h sent n response] 1(2-4) sent(2) by metis
      have len: "length (dl_sent d) = n" "length (dl_waits d) \<le> min n (nat (rp_maxAttempts (hc_retry c)) - 1)"
        using w sent 1(5,7,8) 3(1) by (auto split: if_splits)
      show ?thesis
      proof (cases e)
        case None
        have "\<exists>r dlog'. deliver_from c h plan x (n + 1) lst' d = Some (r, dlog') \<and>
            length (dl_sent dlog') \<le> nat (rp_maxAttempts (hc_retry c)) \<and>
            length (dl_waits dlog') \<le> nat (rp_maxAttempts (hc_retry c)) - 1 \<and> waits_ok c (dl_waits dlog')"
          using 3 out w None len 1(2,3)
          by (intro 1(1) [OF _ _ q_def sent_def out Repeat w(1) [symmetric]]) auto
        then show ?thesis using step Repeat w(1) None by simp
      next
        case (Some e')
        then show ?thesis using step Repeat w(1,3) len 3(1) by auto
      qed
    qed
  qed (use 1 in \<open>auto simp: deliver_from.simps [of c h plan x n]\<close>)
qed

text \<open>
  C17. An upload ends: with a client the constructor accepted, at most \<open>maxAttempts\<close> requests are sent, never more
  than ten, with a wait only between two of them, each of at most \<open>maxDelayMs\<close> whatever \<open>Retry-After\<close> the service
  sends; the call then returns or throws.
\<close>

theorem delivery_bounded:
  assumes "new_client u co = Inr c" "calm_host c h"
  shows "\<exists>r dlog. deliver c h plan expiresAt = Some (r, dlog) \<and>
    length (dl_sent dlog) \<le> nat (rp_maxAttempts (hc_retry c)) \<and> rp_maxAttempts (hc_retry c) \<le> 10 \<and>
    length (dl_waits dlog) \<le> nat (rp_maxAttempts (hc_retry c)) - 1 \<and>
    list_all (\<lambda>w. 0 \<le> w \<and> w \<le> rp_maxDelayMs (hc_retry c)) (dl_waits dlog)"
proof -
  note ok = new_client_ok [OF assms(1)]
  have "waits_ok c []" by (simp add: waits_ok_def)
  with deliver_from_bounded [OF ok assms(2), of "\<lparr>dl_sent = [], dl_waits = []\<rparr>" 1] ok show ?thesis
    by (simp add: deliver_def waits_ok_def list_all_iff policy_ok_def)
qed

section \<open>What is repeated\<close>

definition outcome_at :: "http_client \<Rightarrow> delivery_host \<Rightarrow> upload_plan \<Rightarrow> jstring \<Rightarrow> nat \<Rightarrow> (thrown + attempt_response) option" where
  "outcome_at c h plan x n = (let q = request_of c h plan x n in send (dh_lower h) q False (dh_events h n q))"

fun worth_repeating :: "thrown + attempt_response \<Rightarrow> bool" where
  "worth_repeating (Inl (Failure _ (Some code) _)) = (code \<in> set RETRIABLE_CODES)"
| "worth_repeating (Inl _) = False"
| "worth_repeating (Inr r) = (ar_status r \<in> {200, 201} \<union> set RETRIABLE_STATUSES)"

lemma retriable_worth: "isRetriableError e \<Longrightarrow> worth_repeating (Inl e)"
  by (cases e rule: isRetriableError.cases) auto

lemma judge_Repeat: "judge c h n outcome = Repeat lst resp \<Longrightarrow> worth_repeating outcome"
  by (auto simp: judge_def read_answer_def Let_def intro: retriable_worth
    split: sum.splits thrown.splits if_splits option.splits answer.splits)

definition repeated :: "http_client \<Rightarrow> delivery_host \<Rightarrow> upload_plan \<Rightarrow> jstring \<Rightarrow> nat \<Rightarrow> bool" where
  "repeated c h plan x n \<longleftrightarrow> (\<exists>outcome. outcome_at c h plan x n = Some outcome \<and> worth_repeating outcome)"

definition trail :: "http_client \<Rightarrow> delivery_host \<Rightarrow> upload_plan \<Rightarrow> jstring \<Rightarrow> nat \<Rightarrow> delivery_log \<Rightarrow> bool" where
  "trail c h plan x n dlog \<longleftrightarrow> dl_sent dlog = map (request_of c h plan x) [1..<n] \<and> (\<forall>i. 1 \<le> i \<and> i < n \<longrightarrow> repeated c h plan x i)"

definition ended :: "http_client \<Rightarrow> delivery_host \<Rightarrow> upload_plan \<Rightarrow> jstring \<Rightarrow> nat \<Rightarrow> upload_error + upload_result \<Rightarrow> bool" where
  "ended c h plan x k r \<longleftrightarrow>
     (1 \<le> k \<and> (\<exists>outcome. outcome_at c h plan x k = Some outcome \<and> judge c h k outcome = End r)) \<or>
     ((k = 0 \<or> repeated c h plan x k) \<and> ((\<exists>e. r = Inl (Rethrown e)) \<or> (\<exists>lst. r = Inl (given_up c lst))))"

lemma waitBefore_sent: "waitBefore c h n response dlog = (e, d) \<Longrightarrow> dl_sent d = dl_sent dlog"
  by (auto simp: waitBefore_def Let_def split: if_splits option.splits)

lemma deliver_from_trail:
  assumes "deliver_from c h plan x n lst dlog = Some (r, d)" "trail c h plan x n dlog" "1 \<le> n"
  shows "\<exists>k. dl_sent d = map (request_of c h plan x) [1..<k + 1] \<and> (\<forall>i. 1 \<le> i \<and> i < k \<longrightarrow> repeated c h plan x i) \<and> ended c h plan x k r"
  using assms
proof (induction c h plan x n lst dlog rule: deliver_from.induct)
  case (1 c h plan x n lst dlog)
  define q where "q = request_of c h plan x n"
  define sent where "sent = dlog\<lparr>dl_sent := dl_sent dlog @ [q]\<rparr>"
  have before: "n - 1 + 1 = n" "n - 1 = 0 \<or> repeated c h plan x (n - 1)"
    using 1(3,4) unfolding trail_def by (auto dest: spec [of _ "n - 1"])
  consider "int n > rp_maxAttempts (hc_retry c) \<or> dh_aborted h n" | "int n \<le> rp_maxAttempts (hc_retry c)" "\<not> dh_aborted h n" by linarith
  then show ?case
  proof cases
    case 1
    then have "d = dlog" "(\<exists>e. r = Inl (Rethrown e)) \<or> (\<exists>lst. r = Inl (given_up c lst))"
      using \<open>deliver_from c h plan x n lst dlog = Some (r, d)\<close> by (auto simp: deliver_from.simps [of c h plan x n] split: if_splits)
    then show ?thesis using \<open>trail c h plan x n dlog\<close> before by (intro exI [of _ "n - 1"]) (auto simp: trail_def ended_def)
  next
    case 2
    obtain outcome where out: "send (dh_lower h) q False (dh_events h n q) = Some outcome"
      using 1(2) 2 by (subst (asm) deliver_from.simps) (auto simp: Let_def q_def split: option.splits)
    then have at: "outcome_at c h plan x n = Some outcome" by (simp add: outcome_at_def q_def)
    note step = deliver_step [OF 2 q_def sent_def out]
    have sent: "dl_sent sent = map (request_of c h plan x) [1..<n + 1]" using 1(3,4) by (simp add: sent_def trail_def q_def)
    show ?thesis
    proof (cases "judge c h n outcome")
      case (End r')
      then show ?thesis using step sent at 1(2-4) by (intro exI [of _ n]) (auto simp: ended_def trail_def)
    next
      case (Repeat lst' response)
      obtain e d' where w: "waitBefore c h n response sent = (e, d')" by fastforce
      note sent' = waitBefore_sent [OF w] sent
      have rep: "repeated c h plan x n" using at judge_Repeat [OF Repeat] by (auto simp: repeated_def)
      have trail': "trail c h plan x (n + 1) d'" using 1(3) sent' rep by (auto simp: trail_def less_Suc_eq)
      show ?thesis
      proof (cases e)
        case None
        then have "deliver_from c h plan x (n + 1) lst' d' = Some (r, d)" using step Repeat w 1(2) by simp
        with None trail' 2 w show ?thesis
          by (intro 1(1) [OF _ _ q_def sent_def out Repeat w [symmetric]]) auto
      next
        case (Some e')
        then have "d = d'" "r = Inl (Rethrown e')" using step Repeat w 1(2) by auto
        then show ?thesis using trail' rep by (intro exI [of _ n]) (auto simp: trail_def ended_def)
      qed
    qed
  qed
qed

lemma deliver_trail:
  assumes "deliver c h plan x = Some (r, d)"
  obtains k where "length (dl_sent d) = k" "dl_sent d = map (request_of c h plan x) [1..<k + 1]"
    "\<And>i. 1 \<le> i \<Longrightarrow> i < k \<Longrightarrow> repeated c h plan x i" "ended c h plan x k r"
proof -
  obtain k where k: "dl_sent d = map (request_of c h plan x) [1..<k + 1]" "\<forall>i. 1 \<le> i \<and> i < k \<longrightarrow> repeated c h plan x i" "ended c h plan x k r"
    using deliver_from_trail [OF assms [unfolded deliver_def]] by (auto simp: trail_def)
  moreover from k(1) have "length (dl_sent d) = k" by (simp del: upt_Suc)
  ultimately show thesis using that by blast
qed

lemma judge_End_Inr:
  assumes "judge c h n outcome = End (Inr res)"
  obtains resp where "outcome = Inr resp" "ar_status resp \<in> {200, 201}" "\<not> ar_truncated resp"
    "successOf (dh_parse h) (ar_text resp) (header_text (ar_headers resp) ''x-request-id'') n = Some res"
  using assms by (auto simp: judge_def read_answer_def Let_def split: sum.splits thrown.splits if_splits option.splits answer.splits)

lemma judge_End_rejected:
  assumes "judge c h n outcome = End (Inl (UploadRejectedError rej))"
  obtains resp where "outcome = Inr resp" "rj_status rej = ar_status resp" "\<not> worth_repeating outcome"
  using assms by (auto simp: judge_def read_answer_def Let_def split: sum.splits thrown.splits if_splits option.splits answer.splits)

lemma successOf_attempts: "successOf parse t rid n = Some res \<Longrightarrow> ur_attempts res = n"
  by (auto simp: successOf_def split: option.splits json.splits if_splits)

text \<open>
  C18. An upload is repeated only when that may help, and reported as it went: every attempt but the last failed
  with a connection error of the list, was answered with a status of the list, or with a success that cannot be
  read; every attempt sends the same plan.  A result is the one the service's last answer, a complete 200 or
  201, states; a rejection carries the status of an answer that is not worth repeating; a problem of the run
  directory ends the upload with that problem.
\<close>

theorem repeated_only_when_retriable:
  assumes "deliver c h plan expiresAt = Some (r, dlog)"
  shows "let k = length (dl_sent dlog) in
    dl_sent dlog = map (request_of c h plan expiresAt) [1..<k + 1] \<and>
    (\<forall>i. 1 \<le> i \<and> i < k \<longrightarrow> (\<exists>outcome. outcome_at c h plan expiresAt i = Some outcome \<and> worth_repeating outcome)) \<and>
    (\<forall>result. r = Inr result \<longrightarrow> ur_attempts result = k \<and>
       (\<exists>response. outcome_at c h plan expiresAt k = Some (Inr response) \<and> ar_status response \<in> {200, 201} \<and> \<not> ar_truncated response \<and>
          successOf (dh_parse h) (ar_text response) (header_text (ar_headers response) ''x-request-id'') k = Some result)) \<and>
    (\<forall>rejected. r = Inl (UploadRejectedError rejected) \<longrightarrow>
       (\<exists>response. outcome_at c h plan expiresAt k = Some (Inr response) \<and> rj_status rejected = ar_status response \<and>
          \<not> worth_repeating (Inr response))) \<and>
    (\<forall>i p m. 1 \<le> i \<and> i \<le> k \<and> outcome_at c h plan expiresAt i = Some (Inl (ThrownLocal p m)) \<longrightarrow>
       i = k \<and> r = Inl (Rethrown (ThrownLocal p m)))"
proof -
  define k where "k = length (dl_sent dlog)"
  obtain k' where k': "length (dl_sent dlog) = k'" and sent: "dl_sent dlog = map (request_of c h plan expiresAt) [1..<k' + 1]"
    and rep: "\<And>i. 1 \<le> i \<Longrightarrow> i < k' \<Longrightarrow> repeated c h plan expiresAt i" and fin: "ended c h plan expiresAt k' r"
    using deliver_trail [OF assms(1)] by metis
  have k: "k = k'" using k' by (simp add: k_def)
  have local_end: "\<not> repeated c h plan expiresAt i" if "outcome_at c h plan expiresAt i = Some (Inl (ThrownLocal p m))" for i p m
    using that by (auto simp: repeated_def)
  have "ur_attempts res = k \<and> (\<exists>response. outcome_at c h plan expiresAt k = Some (Inr response) \<and> ar_status response \<in> {200, 201} \<and>
      \<not> ar_truncated response \<and>
      successOf (dh_parse h) (ar_text response) (header_text (ar_headers response) ''x-request-id'') k = Some res)" if "r = Inr res" for res
    using fin that k by (auto simp: ended_def elim!: judge_End_Inr dest: successOf_attempts)
  moreover have "\<exists>response. outcome_at c h plan expiresAt k = Some (Inr response) \<and> rj_status rej = ar_status response \<and>
      \<not> worth_repeating (Inr response)" if "r = Inl (UploadRejectedError rej)" for rej
    using fin that k unfolding ended_def by (auto simp: given_up_def elim!: judge_End_rejected)
  moreover have "i = k \<and> r = Inl (Rethrown (ThrownLocal p m))"
    if "1 \<le> i" "i \<le> k" "outcome_at c h plan expiresAt i = Some (Inl (ThrownLocal p m))" for i p m
  proof -
    have i: "i = k" using that rep [of i] local_end [OF that(3)] k by force
    with fin local_end [OF that(3)] that k show ?thesis by (auto simp: ended_def judge_def)
  qed
  ultimately show ?thesis using sent rep k unfolding repeated_def Let_def k_def by blast
qed

section \<open>A service that refuses\<close>

definition plain_url :: url where
  "plain_url = \<lparr>url_protocol = js ''https:'', url_username = [], url_password = [], url_hash = [], url_search = [],
     url_hostname = js ''qe'', url_origin = js ''https://qe'', url_pathname = js ''/'', url_href = js ''https://qe/''\<rparr>"

definition plain_urls :: url_host where
  "plain_urls = \<lparr>uh_parse = \<lambda>_. Some plain_url, uh_resolve = \<lambda>_ u. u, uh_lower = \<lambda>s. s\<rparr>"

definition plain_options :: client_options where
  "plain_options = \<lparr>co_baseUrl = js ''https://qe/'', co_apiKey = js ''k'',
     co_retry = \<lparr>ro_maxAttempts = None, ro_baseDelayMs = None, ro_maxDelayMs = None\<rparr>, co_attemptTimeoutMs = None,
     co_allowInsecureHttp = False\<rparr>"

definition plain_client :: http_client where
  "plain_client = \<lparr>hc_target = \<lparr>tg_runs = plain_url, tg_origin = js ''https://qe'', tg_secure = True\<rparr>, hc_apiKey = js ''k'',
     hc_retry = DEFAULT_RETRY, hc_attemptTimeoutMs = 600000\<rparr>"

definition refusing_host :: delivery_host where
  "refusing_host = \<lparr>dh_parse = \<lambda>_. None, dh_lower = \<lambda>s. s, dh_date = \<lambda>_. None, dh_round = \<lambda>q. q,
     dh_files = \<lambda>_. grown_directory, dh_random_hex = \<lambda>_. js ''0'', dh_aborted = \<lambda>_. False,
     dh_events = \<lambda>n _. if n = 1 then [RequestError (Failure True (Some (js ''ECONNREFUSED'')) []), TimerFired]
       else [Answered 409 [], ResponseClose True, TimerFired],
     dh_now = \<lambda>_. 0, dh_random = \<lambda>_. 1 / 2, dh_sleep = \<lambda>_ _. None, dh_cancelled = \<lambda>_. False\<rparr>"

lemma plain_client: "new_client plain_urls plain_options = Inr plain_client"
  by (simp add: new_client_def resolveTarget_def plain_urls_def plain_options_def plain_url_def plain_client_def resolveRetry_def given_def
    DEFAULT_RETRY_def MAX_ATTEMPTS_CEILING_def DEFAULT_ATTEMPT_TIMEOUT_MS_def trim_def is_js_space_def has_suffix_def js_def Let_def)

theorem delivery_bounded_witness:
  "new_client plain_urls plain_options = Inr plain_client \<and> calm_host plain_client refusing_host \<and>
   (\<exists>r dlog. deliver plain_client refusing_host
      \<lparr>up_runDirectory = [], up_events = [grown_file], up_attachments = [], up_totalBytes = 2\<rparr> [] = Some (r, dlog) \<and> length (dl_sent dlog) \<le> 4)"
proof -
  have calm: "calm_host plain_client refusing_host" by (simp add: calm_host_def rounds_def refusing_host_def)
  from delivery_bounded [OF plain_client calm] plain_client calm show ?thesis
    by (fastforce simp: plain_client_def DEFAULT_RETRY_def)
qed

lemma refused_after_retry:
  "\<exists>rejected dlog. deliver plain_client refusing_host plan x = Some (Inl (UploadRejectedError rejected), dlog) \<and> length (dl_sent dlog) = 2"
proof -
  have "send (dh_lower refusing_host) q False (dh_events refusing_host 1 q) = Some (Inl (Failure True (Some (js ''ECONNREFUSED'')) []))"
    "send (dh_lower refusing_host) q False (dh_events refusing_host 2 q) =
       Some (Inr \<lparr>ar_status = 409, ar_headers = Map.empty, ar_text = utf8_decode [], ar_truncated = False\<rparr>)" for q
    by (simp_all add: refusing_host_def send_def new_exchange_def finish_with_def on_close_def headersOf_def)
  note sends = this [unfolded One_nat_def numeral_2_eq_2]
  have "judge plain_client refusing_host (Suc 0) (Inl (Failure True (Some (js ''ECONNREFUSED'')) [])) =
      Repeat \<lparr>lp_message = js ''ECONNREFUSED'', lp_status = None, lp_requestId = None,
        lp_cause = Some (Failure True (Some (js ''ECONNREFUSED'')) [])\<rparr> None"
    by (simp add: judge_def RETRIABLE_CODES_def)
  moreover have "\<exists>rejected. judge plain_client refusing_host 2
      (Inr \<lparr>ar_status = 409, ar_headers = Map.empty, ar_text = utf8_decode [], ar_truncated = False\<rparr>) = End (Inl (UploadRejectedError rejected))"
    by (simp add: judge_def read_answer_def RETRIABLE_STATUSES_def Let_def)
  moreover have "rp_maxAttempts (hc_retry plain_client) = 4" "\<not> dh_aborted refusing_host n" "dh_sleep refusing_host n ms = None"
      "\<not> dh_cancelled refusing_host n" for n ms
    by (simp_all add: plain_client_def DEFAULT_RETRY_def refusing_host_def)
  ultimately show ?thesis
    by (auto simp: deliver_def deliver_from.simps [of _ _ _ _ "Suc 0"] deliver_from.simps [of _ _ _ _ "Suc (Suc 0)"] sends waitBefore_def Let_def numeral_2_eq_2)
qed

theorem repeated_only_when_retriable_witness:
  "\<exists>r dlog. deliver plain_client refusing_host \<lparr>up_runDirectory = [], up_events = [grown_file], up_attachments = [], up_totalBytes = 2\<rparr> [] = Some (r, dlog) \<and>
     length (dl_sent dlog) = 2 \<and>
     (\<exists>outcome. outcome_at plain_client refusing_host \<lparr>up_runDirectory = [], up_events = [grown_file], up_attachments = [], up_totalBytes = 2\<rparr> [] 1 = Some outcome \<and>
        worth_repeating outcome)"
proof -
  obtain r dlog where d: "deliver plain_client refusing_host \<lparr>up_runDirectory = [], up_events = [grown_file], up_attachments = [], up_totalBytes = 2\<rparr> [] = Some (r, dlog)"
    "length (dl_sent dlog) = 2" using refused_after_retry by blast
  with repeated_only_when_retriable [OF d(1)] show ?thesis by (auto simp: Let_def)
qed

section \<open>The key\<close>

text \<open>
  C19. The key travels only where the constructor checked: a client exists only for a base URL without
  credentials, fragment or query, over HTTPS, or over plaintext to this machine or by an explicit choice; and
  every request of a delivery, the only ones that carry the key, goes to \<open>v1/runs\<close> below that base.
\<close>

theorem key_only_to_checked_target:
  assumes "new_client u co = Inr c" and "deliver c h plan expiresAt = Some (r, dlog)"
  shows "\<exists>url base. uh_parse u (co_baseUrl co) = Some url \<and>
    (url_protocol url = js ''https:'' \<or> url_protocol url = js ''http:'' \<and> (isLoopback u (url_hostname url) \<or> co_allowInsecureHttp co)) \<and>
    url_username url = [] \<and> url_password url = [] \<and> url_hash url = [] \<and> url_search url = [] \<and>
    uh_parse u (if has_suffix (url_pathname url) (js ''/'') then url_href url else url_href url @ js ''/'') = Some base \<and>
    list_all (\<lambda>q. aq_url q = url_href (uh_resolve u (js ''v1/runs'') base) \<and>
      map_of (aq_headers q) (js ''authorization'') = Some (js ''Bearer '' @ co_apiKey co)) (dl_sent dlog)"
proof -
  obtain t where t: "resolveTarget u (co_baseUrl co) (co_allowInsecureHttp co) = Inr t" "hc_target c = t" "hc_apiKey c = co_apiKey co"
    using assms(1) by (auto simp: new_client_def result_simps Let_def split: if_splits)
  obtain url base where url: "uh_parse u (co_baseUrl co) = Some url"
    "url_protocol url = js ''https:'' \<or> url_protocol url = js ''http:'' \<and> (isLoopback u (url_hostname url) \<or> co_allowInsecureHttp co)"
    "url_username url = []" "url_password url = []" "url_hash url = []" "url_search url = []"
    "uh_parse u (if has_suffix (url_pathname url) (js ''/'') then url_href url else url_href url @ js ''/'') = Some base"
    "tg_runs t = uh_resolve u (js ''v1/runs'') base"
    using t(1) by (auto simp: resolveTarget_def Let_def split: if_splits option.splits)
  obtain k where "dl_sent dlog = map (request_of c h plan expiresAt) [1..<k + 1]" using deliver_trail [OF assms(2)] by metis
  then have "list_all (\<lambda>q. aq_url q = url_href (uh_resolve u (js ''v1/runs'') base) \<and>
      map_of (aq_headers q) (js ''authorization'') = Some (js ''Bearer '' @ co_apiKey co)) (dl_sent dlog)"
    using t(2,3) url(8) by (simp add: list_all_iff request_of_def Let_def)
  with url show ?thesis by blast
qed

theorem key_only_to_checked_target_witness:
  "\<exists>r dlog. deliver plain_client refusing_host \<lparr>up_runDirectory = [], up_events = [grown_file], up_attachments = [], up_totalBytes = 2\<rparr> [] = Some (r, dlog) \<and>
     length (dl_sent dlog) = 2 \<and> list_all (\<lambda>q. aq_url q = js ''https://qe/'') (dl_sent dlog)"
proof -
  obtain r dlog where d: "deliver plain_client refusing_host \<lparr>up_runDirectory = [], up_events = [grown_file], up_attachments = [], up_totalBytes = 2\<rparr> [] = Some (r, dlog)"
    "length (dl_sent dlog) = 2" using refused_after_retry by blast
  from key_only_to_checked_target [OF plain_client d(1)] have "list_all (\<lambda>q. aq_url q = js ''https://qe/'') (dl_sent dlog)"
    by (auto simp: plain_urls_def plain_url_def list_all_iff)
  with d show ?thesis by blast
qed

end
