(* ===== verification/Blob_Medium.thy ===== *)
theory Blob_Medium
  imports Session Safe_Name Validator_Report "HOL-Library.AList"
begin

text \<open>
  What the blob store (\<open>src/ts/packages/blob-fs/src\<close>) sees of the file system: the entries below its root and the
  sources elsewhere, the files they name, the descriptors of this process.  Every system call is a step that may
  be refused, and before each of them other processes may have acted.
\<close>

section \<open>State\<close>

datatype place = Below "jstring list" | Elsewhere jstring

datatype dir_entry = FileAt nat | DirAt | LinkAt | DeviceAt

text \<open>A descriptor: of a file, opened for writing or not, or of something that is not a regular file.\<close>

datatype descriptor = Descriptor nat bool | OddDescriptor entry_kind

record medium =
  md_entries :: "(place \<times> dir_entry) list"
  md_content :: "nat \<Rightarrow> bytes"
  md_mtime :: "nat \<Rightarrow> int"
  md_next :: nat
  md_fds :: "nat \<Rightarrow> descriptor option"
  md_nextfd :: nat
  md_tick :: nat

record blob_host =
  bh_sha256 :: "bytes \<Rightarrow> jstring"
  bh_fault :: "nat \<Rightarrow> io_error option"
  bh_env :: "nat \<Rightarrow> medium \<Rightarrow> medium"
  bh_random :: "nat \<Rightarrow> jstring"
  bh_chunks :: "nat \<Rightarrow> bytes \<Rightarrow> bytes list \<times> io_error option"
  bh_taken :: "nat \<Rightarrow> nat"
  bh_posix :: bool

record blob_stat =
  st_kind :: entry_kind
  st_size :: nat
  st_ino :: "nat option"
  st_mtime :: int

definition entry_at :: "medium \<Rightarrow> place \<Rightarrow> dir_entry option" where
  "entry_at s p = map_of (md_entries s) p"

fun kind_of_entry :: "dir_entry \<Rightarrow> entry_kind" where
  "kind_of_entry (FileAt _) = Regular"
| "kind_of_entry DirAt = Folder"
| "kind_of_entry LinkAt = Symlink"
| "kind_of_entry DeviceAt = Special"

definition node_stat :: "medium \<Rightarrow> nat \<Rightarrow> blob_stat" where
  "node_stat s i = \<lparr>st_kind = Regular, st_size = length (md_content s i), st_ino = Some i, st_mtime = md_mtime s i\<rparr>"

definition odd_stat :: "entry_kind \<Rightarrow> blob_stat" where
  "odd_stat k = \<lparr>st_kind = k, st_size = 0, st_ino = None, st_mtime = 0\<rparr>"

fun entry_stat :: "medium \<Rightarrow> dir_entry \<Rightarrow> blob_stat" where
  "entry_stat s (FileAt i) = node_stat s i"
| "entry_stat s e = odd_stat (kind_of_entry e)"

section \<open>Operations that may throw\<close>

type_synonym ('e, 'a) medium_op = "medium \<Rightarrow> ('e + 'a) \<times> medium"

definition return_m :: "'a \<Rightarrow> ('e, 'a) medium_op" where
  "return_m a = (\<lambda>s. (Inr a, s))"

definition throw_m :: "'e \<Rightarrow> ('e, 'a) medium_op" where
  "throw_m e = (\<lambda>s. (Inl e, s))"

definition bind_m :: "('e, 'a) medium_op \<Rightarrow> ('a \<Rightarrow> ('e, 'b) medium_op) \<Rightarrow> ('e, 'b) medium_op" where
  "bind_m m f = (\<lambda>s. case m s of (Inl e, s') \<Rightarrow> (Inl e, s') | (Inr a, s') \<Rightarrow> f a s')"

text \<open>\<open>try ... catch\<close>: the handler sees the error, and \<open>attempt_m\<close> hands both outcomes on as a value.\<close>

definition attempt_m :: "('e, 'a) medium_op \<Rightarrow> ('f, 'e + 'a) medium_op" where
  "attempt_m m = (\<lambda>s. case m s of (r, s') \<Rightarrow> (Inr r, s'))"

definition error_m :: "('e \<Rightarrow> 'f) \<Rightarrow> ('e, 'a) medium_op \<Rightarrow> ('f, 'a) medium_op" where
  "error_m g m = (\<lambda>s. case m s of (Inl e, s') \<Rightarrow> (Inl (g e), s') | (Inr a, s') \<Rightarrow> (Inr a, s'))"

section \<open>System calls\<close>

definition sys_call :: "blob_host \<Rightarrow> (nat \<Rightarrow> (io_error, 'a) medium_op) \<Rightarrow> (io_error, 'a) medium_op" where
  "sys_call h f = (\<lambda>s.
     let n = md_tick s; s = (bh_env h n s)\<lparr>md_tick := n + 1\<rparr> in
     case bh_fault h n of Some e \<Rightarrow> (Inl e, s) | None \<Rightarrow> f n s)"

definition EEXIST :: io_error where
  "EEXIST = OtherErrno (js ''EEXIST'')"

definition EPERM :: io_error where
  "EPERM = OtherErrno (js ''EPERM'')"

definition EBADF :: io_error where
  "EBADF = OtherErrno (js ''EBADF'')"

definition set_entry :: "place \<Rightarrow> dir_entry \<Rightarrow> medium \<Rightarrow> medium" where
  "set_entry p e s = s\<lparr>md_entries := AList.update p e (md_entries s)\<rparr>"

definition drop_entry :: "place \<Rightarrow> medium \<Rightarrow> medium" where
  "drop_entry p s = s\<lparr>md_entries := AList.delete p (md_entries s)\<rparr>"

definition new_fd :: "descriptor \<Rightarrow> medium \<Rightarrow> nat \<times> medium" where
  "new_fd d s = (md_nextfd s, s\<lparr>md_fds := (md_fds s)(md_nextfd s \<mapsto> d), md_nextfd := md_nextfd s + 1\<rparr>)"

definition sys_lstat :: "blob_host \<Rightarrow> place \<Rightarrow> (io_error, blob_stat) medium_op" where
  "sys_lstat h p = sys_call h (\<lambda>_ s. case entry_at s p of None \<Rightarrow> (Inl ENOENT, s) | Some e \<Rightarrow> (Inr (entry_stat s e), s))"

definition sys_mkdir :: "blob_host \<Rightarrow> place \<Rightarrow> (io_error, unit) medium_op" where
  "sys_mkdir h p = sys_call h (\<lambda>_ s.
     case entry_at s p of
       None \<Rightarrow> (Inr (), set_entry p DirAt s)
     | Some DirAt \<Rightarrow> (Inr (), s)
     | Some _ \<Rightarrow> (Inl EEXIST, s))"

text \<open>Opening to read without following a link, without blocking on a device.\<close>

definition sys_open :: "blob_host \<Rightarrow> place \<Rightarrow> (io_error, nat) medium_op" where
  "sys_open h p = sys_call h (\<lambda>_ s.
     case entry_at s p of
       None \<Rightarrow> (Inl ENOENT, s)
     | Some LinkAt \<Rightarrow> (Inl ELOOP, s)
     | Some (FileAt i) \<Rightarrow> (case new_fd (Descriptor i False) s of (fd, s) \<Rightarrow> (Inr fd, s))
     | Some e \<Rightarrow> (case new_fd (OddDescriptor (kind_of_entry e)) s of (fd, s) \<Rightarrow> (Inr fd, s)))"

text \<open>\<open>openSync(path, 'wx')\<close>: a new empty file under a name that was free.\<close>

definition sys_create :: "blob_host \<Rightarrow> place \<Rightarrow> (io_error, nat) medium_op" where
  "sys_create h p = sys_call h (\<lambda>_ s.
     case entry_at s p of
       Some _ \<Rightarrow> (Inl EEXIST, s)
     | None \<Rightarrow>
         let i = md_next s;
             s = set_entry p (FileAt i) (s\<lparr>md_next := i + 1, md_content := (md_content s)(i := [])\<rparr>)
         in case new_fd (Descriptor i True) s of (fd, s) \<Rightarrow> (Inr fd, s))"

definition sys_fstat :: "blob_host \<Rightarrow> nat \<Rightarrow> (io_error, blob_stat) medium_op" where
  "sys_fstat h fd = sys_call h (\<lambda>_ s.
     case md_fds s fd of
       None \<Rightarrow> (Inl EBADF, s)
     | Some (Descriptor i _) \<Rightarrow> (Inr (node_stat s i), s)
     | Some (OddDescriptor k) \<Rightarrow> (Inr (odd_stat k), s))"

text \<open>A write takes at least one byte of what it is given; it returns how many.\<close>

definition sys_write :: "blob_host \<Rightarrow> nat \<Rightarrow> bytes \<Rightarrow> (io_error, nat) medium_op" where
  "sys_write h fd bs = sys_call h (\<lambda>n s.
     case md_fds s fd of
       Some (Descriptor i True) \<Rightarrow>
         let k = min (length bs) (bh_taken h n + 1) in
         (Inr k, s\<lparr>md_content := (md_content s)(i := md_content s i @ take k bs)\<rparr>)
     | _ \<Rightarrow> (Inl EBADF, s))"

text \<open>\<open>fsyncSync\<close> and \<open>fchmodSync\<close> change nothing the store reads.\<close>

definition sys_touch :: "blob_host \<Rightarrow> nat \<Rightarrow> (io_error, unit) medium_op" where
  "sys_touch h fd = sys_call h (\<lambda>_ s. case md_fds s fd of None \<Rightarrow> (Inl EBADF, s) | Some _ \<Rightarrow> (Inr (), s))"

definition sys_link :: "blob_host \<Rightarrow> place \<Rightarrow> place \<Rightarrow> (io_error, unit) medium_op" where
  "sys_link h p q = sys_call h (\<lambda>_ s.
     case entry_at s p of
       None \<Rightarrow> (Inl ENOENT, s)
     | Some DirAt \<Rightarrow> (Inl EPERM, s)
     | Some e \<Rightarrow> (case entry_at s q of Some _ \<Rightarrow> (Inl EEXIST, s) | None \<Rightarrow> (Inr (), set_entry q e s)))"

definition sys_unlink :: "blob_host \<Rightarrow> place \<Rightarrow> (io_error, unit) medium_op" where
  "sys_unlink h p = sys_call h (\<lambda>_ s.
     case entry_at s p of
       None \<Rightarrow> (Inl ENOENT, s)
     | Some DirAt \<Rightarrow> (Inl EPERM, s)
     | Some _ \<Rightarrow> (Inr (), drop_entry p s))"

fun name_below :: "jstring list \<Rightarrow> place \<Rightarrow> jstring option" where
  "name_below dir (Below p) = (if length p = length dir + 1 \<and> take (length dir) p = dir then Some (List.last p) else None)"
| "name_below dir (Elsewhere _) = None"

definition names_below :: "medium \<Rightarrow> jstring list \<Rightarrow> (jstring \<times> entry_kind) list" where
  "names_below s dir =
     List.map_filter (\<lambda>(p, e). map_option (\<lambda>n. (n, kind_of_entry e)) (name_below dir p)) (AList.clearjunk (md_entries s))"

definition sys_readdir :: "blob_host \<Rightarrow> jstring list \<Rightarrow> (io_error, (jstring \<times> entry_kind) list) medium_op" where
  "sys_readdir h dir = sys_call h (\<lambda>_ s.
     case entry_at s (Below dir) of
       None \<Rightarrow> (Inl ENOENT, s)
     | Some DirAt \<Rightarrow> (Inr (names_below s dir), s)
     | Some _ \<Rightarrow> (Inl ENOTDIR, s))"

text \<open>The stream over a descriptor: its chunks, and the error that ended it.\<close>

definition sys_read :: "blob_host \<Rightarrow> nat \<Rightarrow> (io_error, bytes list \<times> io_error option) medium_op" where
  "sys_read h fd = sys_call h (\<lambda>n s.
     case md_fds s fd of
       Some (Descriptor i _) \<Rightarrow> (Inr (bh_chunks h n (md_content s i)), s)
     | _ \<Rightarrow> (Inl EBADF, s))"

text \<open>Closing gives the descriptor back.\<close>

definition close_m :: "nat \<Rightarrow> ('e, unit) medium_op" where
  "close_m fd = (\<lambda>s. (Inr (), s\<lparr>md_fds := (md_fds s)(fd := None)\<rparr>))"

end
