(* ===== verification/Blob_Store.thy ===== *)
theory Blob_Store
  imports Blob_Medium
begin

text \<open>
  The content-addressed store of \<open>src/ts/packages/blob-fs/src\<close>: \<open>fs-safety.ts\<close>, \<open>sha256.ts\<close> and the class
  \<open>FileBlobStore\<close>, its operations as sequences of system calls.
\<close>

section \<open>Errors and names\<close>

datatype blob_code =
    INVALID_SHA256 | INVALID_SIZE | BLOB_TOO_LARGE | SOURCE_MISSING | SOURCE_NOT_REGULAR | SOURCE_SIZE_MISMATCH
  | SOURCE_HASH_MISMATCH | BLOB_MISSING | BLOB_NOT_REGULAR | BLOB_SIZE_MISMATCH | BLOB_HASH_MISMATCH | PUBLISH_MISMATCH
  | BLOB_CHANGED | INVALID_TEMPORARY_NAME | ROOT_ENTRY_UNSAFE

text \<open>A \<open>BlobStoreError\<close>, a \<open>TypeError\<close>, or what the runtime threw.\<close>

datatype blob_error = BlobStoreError blob_code jstring "jstring option" | BlobTypeError jstring | Operational io_error

type_synonym 'a blob_op = "(blob_error, 'a) medium_op"

definition io :: "(io_error, 'a) medium_op \<Rightarrow> 'a blob_op" where
  "io m = error_m Operational m"

definition refuse :: "blob_code \<Rightarrow> jstring \<Rightarrow> jstring \<Rightarrow> 'a blob_op" where
  "refuse c m sha = throw_m (BlobStoreError c m (Some sha))"

definition OBJECTS_DIR :: jstring where
  "OBJECTS_DIR = js ''sha256''"

definition TEMP_DIR :: jstring where
  "TEMP_DIR = js ''tmp''"

definition SHARD :: "jstring \<Rightarrow> bool" where
  "SHARD s \<longleftrightarrow> length s = 2 \<and> list_all is_hex s"

definition TEMPORARY_NAME :: "jstring \<Rightarrow> bool" where
  "TEMPORARY_NAME s \<longleftrightarrow> length s = 37 \<and> list_all is_hex (take 32 s) \<and> drop 32 s = js ''.part''"

definition isSha256 :: "jstring \<Rightarrow> bool" where
  "isSha256 s \<longleftrightarrow> length s = 64 \<and> list_all is_hex s"

definition checkSha256 :: "jstring \<Rightarrow> jstring blob_op" where
  "checkSha256 v =
     (if \<not> isSha256 v
      then throw_m (BlobStoreError INVALID_SHA256 (js ''a blob is addressed by its full lower-case hex SHA-256 (64 characters)'') None)
      else return_m v)"

definition checkSize :: "jnumber \<Rightarrow> jstring \<Rightarrow> nat blob_op" where
  "checkSize v sha =
     (case v of
        Whole n \<Rightarrow> if \<not> is_safe_int n \<or> n < 0 then refuse INVALID_SIZE (js ''a blob size is a non-negative byte count'') sha else return_m (nat n)
      | Other _ \<Rightarrow> refuse INVALID_SIZE (js ''a blob size is a non-negative byte count'') sha)"

definition shard1 :: "jstring \<Rightarrow> jstring" where
  "shard1 hash = take 2 hash"

definition shard2 :: "jstring \<Rightarrow> jstring" where
  "shard2 hash = take 2 (drop 2 hash)"

definition objectDirectory :: "jstring \<Rightarrow> jstring list" where
  "objectDirectory hash = [OBJECTS_DIR, shard1 hash, shard2 hash]"

definition objectPath :: "jstring \<Rightarrow> place" where
  "objectPath hash = Below (objectDirectory hash @ [hash])"

definition slashed :: "jstring list \<Rightarrow> jstring" where
  "slashed ps = List.tl (concat (map (\<lambda>p. 0x2F # p) ps))"

definition storageKey :: "jstring \<Rightarrow> jstring" where
  "storageKey hash = slashed (objectDirectory hash @ [hash])"

definition temporaryPath :: "jstring \<Rightarrow> place" where
  "temporaryPath name = Below [TEMP_DIR, name]"

definition describe :: "entry_kind \<Rightarrow> jstring" where
  "describe k =
     (case k of Symlink \<Rightarrow> js ''a symbolic link'' | Folder \<Rightarrow> js ''a directory'' | Regular \<Rightarrow> js ''a regular file'' | _ \<Rightarrow> js ''not a regular file'')"

text \<open>A kind as the type \<open>EntryKind\<close> spells it.\<close>

definition kind_name :: "entry_kind \<Rightarrow> jstring" where
  "kind_name k =
     (case k of Missing \<Rightarrow> js ''missing'' | Regular \<Rightarrow> js ''file'' | Folder \<Rightarrow> js ''directory'' | Symlink \<Rightarrow> js ''symlink'' | Special \<Rightarrow> js ''special'')"

definition unsafeEntry :: "jstring list \<Rightarrow> entry_kind \<Rightarrow> blob_error" where
  "unsafeEntry path kind =
     BlobStoreError ROOT_ENTRY_UNSAFE (slashed path @ js '' under the blob root is '' @ describe kind @ js '', not a directory'') None"

definition notRegularSource :: "entry_kind \<Rightarrow> jstring \<Rightarrow> blob_error" where
  "notRegularSource kind hash =
     BlobStoreError SOURCE_NOT_REGULAR (js ''the attachment source is '' @ describe kind @ js ''; only regular files are read'') (Some hash)"

section \<open>Inspecting and opening\<close>

definition blob_entryKind :: "blob_host \<Rightarrow> place \<Rightarrow> entry_kind blob_op" where
  "blob_entryKind h p =
     bind_m (attempt_m (sys_lstat h p)) (\<lambda>r.
     case r of
       Inl e \<Rightarrow> if e = ENOENT \<or> e = ENOTDIR then return_m Missing else throw_m (Operational e)
     | Inr st \<Rightarrow> return_m (st_kind st))"

text \<open>The descriptor with its size, or the kind found instead of a regular file.\<close>

definition blob_openRegular :: "blob_host \<Rightarrow> place \<Rightarrow> (entry_kind + nat \<times> nat) blob_op" where
  "blob_openRegular h p =
     bind_m (attempt_m (sys_open h p)) (\<lambda>r.
     case r of
       Inl e \<Rightarrow>
         if e = ELOOP \<or> e = EMLINK then return_m (Inl Symlink)
         else if e = ENOENT \<or> e = ENOTDIR then return_m (Inl Missing)
         else throw_m (Operational e)
     | Inr fd \<Rightarrow>
         bind_m (attempt_m (sys_fstat h fd)) (\<lambda>r.
         case r of
           Inl e \<Rightarrow> bind_m (close_m fd) (\<lambda>_. throw_m (Operational e))
         | Inr st \<Rightarrow>
             if st_kind st \<noteq> Regular then bind_m (close_m fd) (\<lambda>_. return_m (Inl (st_kind st)))
             else return_m (Inr (fd, st_size st))))"

fun check_directories :: "blob_host \<Rightarrow> jstring list list \<Rightarrow> unit blob_op" where
  "check_directories h [] = return_m ()"
| "check_directories h (d # ds) =
     bind_m (blob_entryKind h (Below d)) (\<lambda>kind.
     if kind = Missing then return_m ()
     else if kind \<noteq> Folder then throw_m (unsafeEntry d kind)
     else check_directories h ds)"

definition checkObjectDirectories :: "blob_host \<Rightarrow> jstring \<Rightarrow> unit blob_op" where
  "checkObjectDirectories h hash =
     check_directories h [[OBJECTS_DIR], [OBJECTS_DIR, shard1 hash], objectDirectory hash]"

definition openObject :: "blob_host \<Rightarrow> jstring \<Rightarrow> (nat \<times> nat) blob_op" where
  "openObject h hash =
     bind_m (checkObjectDirectories h hash) (\<lambda>_.
     bind_m (blob_entryKind h (objectPath hash)) (\<lambda>kind.
     if kind = Missing then refuse BLOB_MISSING (js ''no object for '' @ hash) hash
     else if kind \<noteq> Regular then refuse BLOB_NOT_REGULAR (js ''object is '' @ describe kind) hash
     else
       bind_m (blob_openRegular h (objectPath hash)) (\<lambda>r.
       case r of
         Inr opened \<Rightarrow> return_m opened
       | Inl Missing \<Rightarrow> refuse BLOB_MISSING (js ''no object for '' @ hash) hash
       | Inl k \<Rightarrow> refuse BLOB_NOT_REGULAR (js ''object is '' @ describe k) hash)))"

text \<open>The stream owns the descriptor and closes it, at its end and on an error.\<close>

definition blob_sha256Fd :: "blob_host \<Rightarrow> nat \<Rightarrow> jstring blob_op" where
  "blob_sha256Fd h fd =
     bind_m (attempt_m (sys_read h fd)) (\<lambda>r.
     bind_m (close_m fd) (\<lambda>_.
     case r of
       Inl e \<Rightarrow> throw_m (Operational e)
     | Inr (_, Some e) \<Rightarrow> throw_m (Operational e)
     | Inr (chunks, None) \<Rightarrow> return_m (bh_sha256 h (concat chunks))))"

record blob_descriptor =
  bd_sha256 :: jstring
  bd_sizeBytes :: nat
  bd_storageKey :: jstring

definition blob_described :: "jstring \<Rightarrow> nat \<Rightarrow> blob_descriptor" where
  "blob_described hash n = \<lparr>bd_sha256 = hash, bd_sizeBytes = n, bd_storageKey = storageKey hash\<rparr>"

definition existing :: "blob_host \<Rightarrow> jstring \<Rightarrow> nat \<Rightarrow> blob_descriptor option blob_op" where
  "existing h hash n =
     bind_m (checkObjectDirectories h hash) (\<lambda>_.
     bind_m (blob_entryKind h (objectPath hash)) (\<lambda>kind.
     if kind = Missing then return_m None
     else
       bind_m (openObject h hash) (\<lambda>(fd, m).
       if m \<noteq> n
       then bind_m (close_m fd) (\<lambda>_.
              refuse BLOB_SIZE_MISMATCH (js ''object should be '' @ show_nat n @ js '' bytes and is '' @ show_nat m) hash)
       else
         bind_m (blob_sha256Fd h fd) (\<lambda>actual.
         if actual \<noteq> hash then refuse BLOB_HASH_MISMATCH (js ''object hashes to '' @ actual) hash
         else return_m (Some (blob_described hash n))))))"

section \<open>Reading operations\<close>

definition blob_stat_op :: "blob_host \<Rightarrow> jstring \<Rightarrow> blob_descriptor option blob_op" where
  "blob_stat_op h sha =
     bind_m (checkSha256 sha) (\<lambda>hash.
     bind_m (checkObjectDirectories h hash) (\<lambda>_.
     bind_m (attempt_m (sys_lstat h (objectPath hash))) (\<lambda>r.
     case r of
       Inl e \<Rightarrow> if e = ENOENT \<or> e = ENOTDIR then return_m None else throw_m (Operational e)
     | Inr st \<Rightarrow>
         if st_kind st \<noteq> Regular then refuse BLOB_NOT_REGULAR (js ''object is '' @ describe (st_kind st)) hash
         else return_m (Some (blob_described hash (st_size st))))))"

definition check_expected :: "jnumber option \<Rightarrow> jstring \<Rightarrow> nat option blob_op" where
  "check_expected expectedSize hash =
     (case expectedSize of None \<Rightarrow> return_m None | Some v \<Rightarrow> bind_m (checkSize v hash) (\<lambda>n. return_m (Some n)))"

text \<open>The opened blob carries the descriptor its stream owns.\<close>

definition blob_open :: "blob_host \<Rightarrow> jstring \<Rightarrow> jnumber option \<Rightarrow> (blob_descriptor \<times> nat) blob_op" where
  "blob_open h sha expectedSize =
     bind_m (checkSha256 sha) (\<lambda>hash.
     bind_m (check_expected expectedSize hash) (\<lambda>wanted.
     bind_m (openObject h hash) (\<lambda>(fd, n).
     if wanted \<noteq> None \<and> wanted \<noteq> Some n
     then bind_m (close_m fd) (\<lambda>_.
            refuse BLOB_SIZE_MISMATCH (js ''expected '' @ show_nat (the wanted) @ js '' bytes, object has '' @ show_nat n) hash)
     else return_m (blob_described hash n, fd))))"

definition blob_verify :: "blob_host \<Rightarrow> jstring \<Rightarrow> jnumber \<Rightarrow> blob_descriptor blob_op" where
  "blob_verify h sha expectedSize =
     bind_m (checkSha256 sha) (\<lambda>hash.
     bind_m (checkSize expectedSize hash) (\<lambda>n.
     bind_m (existing h hash n) (\<lambda>r.
     case r of None \<Rightarrow> refuse BLOB_MISSING (js ''no object for '' @ hash) hash | Some d \<Rightarrow> return_m d)))"

section \<open>Publishing\<close>

definition removeQuietly :: "blob_host \<Rightarrow> place \<Rightarrow> unit blob_op" where
  "removeQuietly h p =
     bind_m (attempt_m (sys_unlink h p)) (\<lambda>r.
     case r of Inl e \<Rightarrow> if e \<noteq> ENOENT then throw_m (Operational e) else return_m () | Inr _ \<Rightarrow> return_m ())"

definition syncDirectory :: "blob_host \<Rightarrow> jstring list \<Rightarrow> unit blob_op" where
  "syncDirectory h d =
     (if \<not> bh_posix h then return_m ()
      else
        bind_m (attempt_m (sys_open h (Below d))) (\<lambda>r.
        case r of
          Inl _ \<Rightarrow> return_m ()
        | Inr fd \<Rightarrow> bind_m (attempt_m (sys_touch h fd)) (\<lambda>(_ :: io_error + unit). close_m fd)))"

definition ensureDirectory :: "blob_host \<Rightarrow> jstring list \<Rightarrow> unit blob_op" where
  "ensureDirectory h d =
     bind_m (blob_entryKind h (Below d)) (\<lambda>before.
     if before \<noteq> Missing \<and> before \<noteq> Folder then throw_m (unsafeEntry d before)
     else
       bind_m (io (sys_mkdir h (Below d))) (\<lambda>_.
       bind_m (io (sys_lstat h (Below d))) (\<lambda>st.
       if st_kind st \<noteq> Folder then throw_m (unsafeEntry d (st_kind st)) else return_m ())))"

text \<open>\<open>while (written < bytes.length) written += writeSync(...)\<close>.\<close>

function write_all :: "blob_host \<Rightarrow> nat \<Rightarrow> bytes \<Rightarrow> unit blob_op" where
  "write_all h fd bs s =
     (if bs = [] then (Inr (), s)
      else
        case sys_write h fd bs s of
          (Inl e, s') \<Rightarrow> (Inl (Operational e), s')
        | (Inr k, s') \<Rightarrow> write_all h fd (drop k bs) s')"
  by pat_completeness auto

lemma sys_write_takes: "sys_write h fd bs s = (Inr k, s') \<Longrightarrow> bs \<noteq> [] \<Longrightarrow> 0 < k"
  by (auto simp: sys_write_def sys_call_def Let_def split: option.splits descriptor.splits bool.splits)

termination write_all
  by (relation "measure (\<lambda>(h, fd, bs, s). length bs)") (auto dest!: sym [of "(Inr _, _)"] sys_write_takes)

declare write_all.simps [simp del]

fun copy_chunks :: "blob_host \<Rightarrow> nat \<Rightarrow> nat \<Rightarrow> jstring \<Rightarrow> bytes list \<Rightarrow> bytes \<Rightarrow> bytes blob_op" where
  "copy_chunks h fd declaredSize hash [] hashed = return_m hashed"
| "copy_chunks h fd declaredSize hash (bs # chunks) hashed =
     (if length hashed + length bs > declaredSize
      then refuse SOURCE_SIZE_MISMATCH (js ''declared '' @ show_nat declaredSize @ js '' bytes, source has more'') hash
      else bind_m (write_all h fd bs) (\<lambda>_. copy_chunks h fd declaredSize hash chunks (hashed @ bs)))"

text \<open>What was copied, whose length and digest are returned; the source descriptor is closed on every way out.\<close>

definition copyAndHash :: "blob_host \<Rightarrow> nat \<Rightarrow> nat \<Rightarrow> nat \<Rightarrow> jstring \<Rightarrow> (jstring \<times> nat) blob_op" where
  "copyAndHash h sourceFd destinationFd declaredSize declaredHash =
     bind_m (attempt_m (
       bind_m (io (sys_read h sourceFd)) (\<lambda>(chunks, failure).
       bind_m (copy_chunks h destinationFd declaredSize declaredHash chunks []) (\<lambda>copied.
       case failure of Some e \<Rightarrow> throw_m (Operational e) | None \<Rightarrow> return_m copied)))) (\<lambda>r.
     bind_m (close_m sourceFd) (\<lambda>_.
     case r of Inl e \<Rightarrow> throw_m e | Inr copied \<Rightarrow> return_m (bh_sha256 h copied, length copied)))"

definition confirmPublished :: "blob_host \<Rightarrow> jstring \<Rightarrow> blob_stat \<Rightarrow> nat \<Rightarrow> unit blob_op" where
  "confirmPublished h hash verified n =
     bind_m (blob_openRegular h (objectPath hash)) (\<lambda>r.
     case r of
       Inl k \<Rightarrow> refuse PUBLISH_MISMATCH (js ''published entry is '' @ kind_name k) hash
     | Inr (fd, _) \<Rightarrow>
         bind_m (attempt_m (sys_fstat h fd)) (\<lambda>r.
         bind_m (close_m fd) (\<lambda>_.
         case r of
           Inl e \<Rightarrow> throw_m (Operational e)
         | Inr st \<Rightarrow>
             if st_ino st \<noteq> st_ino verified \<or> st_size st \<noteq> n
             then refuse PUBLISH_MISMATCH (js ''published entry is not the verified file'') hash
             else return_m ())))"

record blob_store =
  bs_maxBlobBytes :: nat

definition DEFAULT_MAX_BLOB_BYTES :: nat where
  "DEFAULT_MAX_BLOB_BYTES = 64 * 1024 * 1024"

datatype store_error = RootError jstring | StoreTypeError jstring | RootOperational io_error

text \<open>The constructor, given what \<open>realpathSync\<close> and \<open>lstatSync\<close> answer for the root.\<close>

definition new_blob_store :: "jstring \<Rightarrow> jstring option \<Rightarrow> io_error + entry_kind \<Rightarrow> jnumber option \<Rightarrow> store_error + blob_store" where
  "new_blob_store root unresolved inspected maxBlobBytes =
     (case unresolved of
        Some m \<Rightarrow> Inl (RootError (js ''blob root '' @ root @ js '' cannot be resolved: '' @ m))
      | None \<Rightarrow>
     (case inspected of
        Inl e \<Rightarrow> Inl (RootOperational e)
      | Inr kind \<Rightarrow>
          if kind \<noteq> Folder then Inl (RootError (js ''blob root '' @ root @ js '' is not a directory''))
          else (case maxBlobBytes of
                  None \<Rightarrow> Inr \<lparr>bs_maxBlobBytes = DEFAULT_MAX_BLOB_BYTES\<rparr>
                | Some (Whole n) \<Rightarrow>
                    if \<not> is_safe_int n \<or> n < 0 then Inl (StoreTypeError (js ''maxBlobBytes must be a byte count'')) else Inr \<lparr>bs_maxBlobBytes = nat n\<rparr>
                | Some (Other _) \<Rightarrow> Inl (StoreTypeError (js ''maxBlobBytes must be a byte count'')))))"

record put_source =
  src_path :: jstring
  src_sha256 :: jstring
  src_sizeBytes :: jnumber

datatype put_outcome = stored | existing_blob

definition checkIncomingSize :: "blob_store \<Rightarrow> jnumber \<Rightarrow> jstring \<Rightarrow> nat blob_op" where
  "checkIncomingSize st v hash =
     bind_m (checkSize v hash) (\<lambda>n.
     if n > bs_maxBlobBytes st
     then refuse BLOB_TOO_LARGE (js ''declared '' @ show_nat n @ js '' bytes, the store accepts at most '' @ show_nat (bs_maxBlobBytes st)) hash
     else return_m n)"

definition ensure_directories :: "blob_host \<Rightarrow> jstring \<Rightarrow> unit blob_op" where
  "ensure_directories h hash =
     bind_m (ensureDirectory h [TEMP_DIR]) (\<lambda>_.
     bind_m (ensureDirectory h [OBJECTS_DIR]) (\<lambda>_.
     bind_m (ensureDirectory h [OBJECTS_DIR, shard1 hash]) (\<lambda>_.
     ensureDirectory h (objectDirectory hash))))"

definition open_source :: "blob_host \<Rightarrow> put_source \<Rightarrow> jstring \<Rightarrow> nat \<Rightarrow> nat blob_op" where
  "open_source h src hash n =
     bind_m (blob_entryKind h (Elsewhere (src_path src))) (\<lambda>kind.
     if kind = Missing then refuse SOURCE_MISSING (js ''no regular file at the attachment source'') hash
     else if kind \<noteq> Regular then throw_m (notRegularSource kind hash)
     else
       bind_m (blob_openRegular h (Elsewhere (src_path src))) (\<lambda>r.
       case r of
         Inl Missing \<Rightarrow> refuse SOURCE_MISSING (js ''no regular file at the attachment source'') hash
       | Inl k \<Rightarrow> throw_m (notRegularSource k hash)
       | Inr (fd, m) \<Rightarrow>
           if m > n
           then bind_m (close_m fd) (\<lambda>_.
                  refuse SOURCE_SIZE_MISMATCH (js ''declared '' @ show_nat n @ js '' bytes, source has '' @ show_nat m) hash)
           else return_m fd))"

text \<open>
  The part of \<open>put\<close> below its second \<open>try\<close>, up to the link: what was verified, or nothing when another writer
  published first.
\<close>

definition fill_and_link :: "blob_host \<Rightarrow> nat \<Rightarrow> nat \<Rightarrow> place \<Rightarrow> jstring \<Rightarrow> nat \<Rightarrow> blob_stat option blob_op" where
  "fill_and_link h sourceFd tempFd temp hash n =
     bind_m (copyAndHash h sourceFd tempFd n hash) (\<lambda>(digest, m).
     if m \<noteq> n
     then refuse SOURCE_SIZE_MISMATCH (js ''declared '' @ show_nat n @ js '' bytes, source has '' @ show_nat m) hash
     else if digest \<noteq> hash
     then refuse SOURCE_HASH_MISMATCH (js ''declared '' @ hash @ js '', source hashes to '' @ digest) hash
     else
       bind_m (io (sys_touch h tempFd)) (\<lambda>_.
       bind_m (if bh_posix h then io (sys_touch h tempFd) else return_m ()) (\<lambda>_.
       bind_m (io (sys_fstat h tempFd)) (\<lambda>verified.
       bind_m (attempt_m (sys_link h temp (objectPath hash))) (\<lambda>r.
       case r of
         Inl e \<Rightarrow> if e \<noteq> EEXIST then throw_m (Operational e) else return_m None
       | Inr _ \<Rightarrow> return_m (Some verified))))))"

text \<open>
  The error carries whether the temporary descriptor was still open, the variable \<open>tempOpen\<close>.
\<close>

definition publish_temp :: "blob_host \<Rightarrow> nat \<Rightarrow> nat \<Rightarrow> place \<Rightarrow> jstring \<Rightarrow> nat \<Rightarrow> (blob_error \<times> bool, blob_descriptor \<times> put_outcome) medium_op" where
  "publish_temp h sourceFd tempFd temp hash n =
     bind_m (error_m (\<lambda>e. (e, True)) (fill_and_link h sourceFd tempFd temp hash n)) (\<lambda>r.
     case r of
       Some verified \<Rightarrow>
         bind_m (error_m (\<lambda>e. (e, True)) (
           bind_m (confirmPublished h hash verified n) (\<lambda>_.
           syncDirectory h (objectDirectory hash)))) (\<lambda>_.
         bind_m (close_m tempFd) (\<lambda>_.
         bind_m (error_m (\<lambda>e. (e, False)) (removeQuietly h temp)) (\<lambda>_.
         return_m (blob_described hash n, stored))))
     | None \<Rightarrow>
         bind_m (close_m tempFd) (\<lambda>_.
         error_m (\<lambda>e. (e, False)) (
           bind_m (removeQuietly h temp) (\<lambda>_.
           bind_m (existing h hash n) (\<lambda>winner.
           case winner of
             None \<Rightarrow> refuse BLOB_MISSING (js ''object vanished after a race'') hash
           | Some d \<Rightarrow> return_m (d, existing_blob))))))"

definition temp_name :: "blob_host \<Rightarrow> medium \<Rightarrow> jstring" where
  "temp_name h s = bh_random h (md_tick s) @ js ''.part''"

text \<open>The second \<open>try\<close> of \<open>put\<close> with its handler, and what comes before it once no object was found.\<close>

definition publish_guarded :: "blob_host \<Rightarrow> nat \<Rightarrow> nat \<Rightarrow> place \<Rightarrow> jstring \<Rightarrow> nat \<Rightarrow> (blob_descriptor \<times> put_outcome) blob_op" where
  "publish_guarded h sourceFd tempFd temp hash n =
     bind_m (attempt_m (publish_temp h sourceFd tempFd temp hash n)) (\<lambda>r.
     case r of
       Inr result \<Rightarrow> return_m result
     | Inl (e, tempOpen) \<Rightarrow>
         bind_m (if tempOpen then close_m tempFd else return_m ()) (\<lambda>_.
         bind_m (removeQuietly h temp) (\<lambda>_.
         throw_m e)))"

definition store_from :: "blob_host \<Rightarrow> nat \<Rightarrow> jstring \<Rightarrow> nat \<Rightarrow> jstring \<Rightarrow> (blob_descriptor \<times> put_outcome) blob_op" where
  "store_from h sourceFd hash n name =
     bind_m (attempt_m (sys_create h (temporaryPath name))) (\<lambda>r.
     case r of
       Inl e \<Rightarrow> bind_m (close_m sourceFd) (\<lambda>_. throw_m (Operational e))
     | Inr tempFd \<Rightarrow> publish_guarded h sourceFd tempFd (temporaryPath name) hash n)"

definition put :: "blob_host \<Rightarrow> blob_store \<Rightarrow> put_source \<Rightarrow> (blob_descriptor \<times> put_outcome) blob_op" where
  "put h st src =
     bind_m (checkSha256 (src_sha256 src)) (\<lambda>hash.
     bind_m (checkIncomingSize st (src_sizeBytes src) hash) (\<lambda>n.
     bind_m (existing h hash n) (\<lambda>already.
     case already of
       Some d \<Rightarrow> return_m (d, existing_blob)
     | None \<Rightarrow>
         bind_m (ensure_directories h hash) (\<lambda>_.
         bind_m (open_source h src hash n) (\<lambda>sourceFd s.
         store_from h sourceFd hash n (temp_name h s) s)))))"

section \<open>Removing\<close>

datatype removal = removed | missing

text \<open>
  The end of \<open>removeObject\<close>: the entry must still be the file that was read, and its directories the store's own.
\<close>

definition unlink_verified :: "blob_host \<Rightarrow> jstring \<Rightarrow> blob_stat \<Rightarrow> removal blob_op" where
  "unlink_verified h hash was =
     bind_m (attempt_m (sys_lstat h (objectPath hash))) (\<lambda>r.
     case r of
       Inl e \<Rightarrow> if e = ENOENT then return_m missing else throw_m (Operational e)
     | Inr now \<Rightarrow>
         if st_ino now \<noteq> st_ino was
         then refuse BLOB_CHANGED (js ''the object changed while it was being read'') hash
         else
           bind_m (checkObjectDirectories h hash) (\<lambda>_.
           bind_m (io (sys_unlink h (objectPath hash))) (\<lambda>_.
           bind_m (syncDirectory h (objectDirectory hash)) (\<lambda>_.
           return_m removed))))"

definition remove_opened :: "blob_host \<Rightarrow> jstring \<Rightarrow> nat option \<Rightarrow> nat \<Rightarrow> removal blob_op" where
  "remove_opened h hash wanted fd =
     bind_m (attempt_m (sys_fstat h fd)) (\<lambda>r.
     case r of
       Inl e \<Rightarrow> bind_m (close_m fd) (\<lambda>_. throw_m (Operational e))
     | Inr was \<Rightarrow>
         if wanted \<noteq> None \<and> wanted \<noteq> Some (st_size was)
         then bind_m (close_m fd) (\<lambda>_.
                refuse BLOB_SIZE_MISMATCH (js ''object should be '' @ show_nat (the wanted) @ js '' bytes and is '' @ show_nat (st_size was)) hash)
         else
           bind_m (blob_sha256Fd h fd) (\<lambda>actual.
           if actual \<noteq> hash then refuse BLOB_HASH_MISMATCH (js ''object hashes to '' @ actual) hash
           else unlink_verified h hash was))"

definition removeObject :: "blob_host \<Rightarrow> jstring \<Rightarrow> jnumber option \<Rightarrow> removal blob_op" where
  "removeObject h sha expectedSize =
     bind_m (checkSha256 sha) (\<lambda>hash.
     bind_m (check_expected expectedSize hash) (\<lambda>wanted.
     bind_m (checkObjectDirectories h hash) (\<lambda>_.
     bind_m (blob_entryKind h (objectPath hash)) (\<lambda>kind.
     if kind = Missing then return_m missing
     else bind_m (openObject h hash) (\<lambda>od. remove_opened h hash wanted (fst od))))))"

definition checkTemporaryName :: "jstring \<Rightarrow> unit blob_op" where
  "checkTemporaryName name =
     (if \<not> TEMPORARY_NAME name
      then throw_m (BlobStoreError INVALID_TEMPORARY_NAME (js ''only a temporary file this store generated can be named'') None)
      else return_m ())"

definition temporaryKey :: "jstring \<Rightarrow> jstring blob_op" where
  "temporaryKey name = bind_m (checkTemporaryName name) (\<lambda>_. return_m (slashed [TEMP_DIR, name]))"

definition removeTemporaryFile :: "blob_host \<Rightarrow> jstring \<Rightarrow> removal blob_op" where
  "removeTemporaryFile h name =
     bind_m (checkTemporaryName name) (\<lambda>_.
     bind_m (blob_entryKind h (Below [TEMP_DIR])) (\<lambda>tempKind.
     if tempKind = Missing then return_m missing
     else if tempKind \<noteq> Folder then throw_m (unsafeEntry [TEMP_DIR] tempKind)
     else
       bind_m (blob_entryKind h (temporaryPath name)) (\<lambda>kind.
       if kind = Missing then return_m missing
       else if kind \<noteq> Regular then throw_m (BlobStoreError BLOB_NOT_REGULAR (name @ js '' is '' @ describe kind) None)
       else
         bind_m (blob_entryKind h (Below [TEMP_DIR])) (\<lambda>again.
         if again \<noteq> Folder then throw_m (unsafeEntry [TEMP_DIR] Symlink)
         else
           bind_m (attempt_m (sys_unlink h (temporaryPath name))) (\<lambda>r.
           case r of
             Inl e \<Rightarrow> if e = ENOENT then return_m missing else throw_m (Operational e)
           | Inr _ \<Rightarrow> return_m removed)))))"

end
