(* ===== verification/Blob_Rules.thy ===== *)
theory Blob_Rules
  imports Blob_Store
begin

text \<open>
  Rules for the operations of the store under interference: what a step of any client does to the shared part of
  the medium, assertions that survive the steps of others, and triples that carry them through the calls.
\<close>

section \<open>Steps of a store\<close>

definition published :: "medium \<Rightarrow> nat \<Rightarrow> bool" where
  "published s i \<longleftrightarrow> (\<exists>hash. isSha256 hash \<and> entry_at s (objectPath hash) = Some (FileAt i))"

text \<open>
  What one call of one client, or of a producer elsewhere, may do: objects appear only whole and verified, from a
  temporary file and under a free name; a file that is an object is not written.
\<close>

inductive store_step :: "blob_host \<Rightarrow> medium \<Rightarrow> medium \<Rightarrow> bool" for h where
  quiet_step: "entry_at s' = entry_at s \<Longrightarrow> md_content s' = md_content s \<Longrightarrow> md_next s \<le> md_next s' \<Longrightarrow> store_step h s s'"
| mkdir_step: "entry_at s (Below d) = None \<Longrightarrow> entry_at s' = (entry_at s)(Below d \<mapsto> DirAt) \<Longrightarrow> md_content s' = md_content s \<Longrightarrow>
    md_next s \<le> md_next s' \<Longrightarrow> store_step h s s'"
| create_step: "entry_at s (temporaryPath n) = None \<Longrightarrow> md_next s \<le> i \<Longrightarrow> i < md_next s' \<Longrightarrow>
    entry_at s' = (entry_at s)(temporaryPath n \<mapsto> FileAt i) \<Longrightarrow> md_content s' = (md_content s)(i := []) \<Longrightarrow> store_step h s s'"
| write_step: "\<not> published s i \<Longrightarrow> entry_at s' = entry_at s \<Longrightarrow> md_content s' = (md_content s)(i := b) \<Longrightarrow> md_next s \<le> md_next s' \<Longrightarrow>
    store_step h s s'"
| elsewhere_step: "\<forall>i. e = Some (FileAt i) \<longrightarrow> i < md_next s' \<Longrightarrow> entry_at s' = (entry_at s)(Elsewhere x := e) \<Longrightarrow>
    md_content s' = md_content s \<Longrightarrow> md_next s \<le> md_next s' \<Longrightarrow> store_step h s s'"
| publish_step: "isSha256 hash \<Longrightarrow> entry_at s (temporaryPath n) = Some (FileAt i) \<Longrightarrow> entry_at s (objectPath hash) = None \<Longrightarrow>
    bh_sha256 h (md_content s i) = hash \<Longrightarrow> entry_at s' = (entry_at s)(objectPath hash \<mapsto> FileAt i) \<Longrightarrow>
    md_content s' = md_content s \<Longrightarrow> md_next s \<le> md_next s' \<Longrightarrow> store_step h s s'"
| remove_step: "p = temporaryPath n \<or> p = objectPath hash \<Longrightarrow> entry_at s' = (entry_at s)(p := None) \<Longrightarrow> md_content s' = md_content s \<Longrightarrow>
    md_next s \<le> md_next s' \<Longrightarrow> store_step h s s'"

text \<open>Every object holds the bytes its name is the digest of.\<close>

definition content_addressed :: "blob_host \<Rightarrow> medium \<Rightarrow> bool" where
  "content_addressed h s \<longleftrightarrow>
     (\<forall>hash i. isSha256 hash \<and> entry_at s (objectPath hash) = Some (FileAt i) \<longrightarrow> bh_sha256 h (md_content s i) = hash)"

definition wf_medium :: "medium \<Rightarrow> bool" where
  "wf_medium s \<longleftrightarrow> (\<forall>p i. entry_at s p = Some (FileAt i) \<longrightarrow> i < md_next s) \<and>
     (\<forall>fd i w. md_fds s fd = Some (Descriptor i w) \<longrightarrow> i < md_next s) \<and> (\<forall>fd. md_nextfd s \<le> fd \<longrightarrow> md_fds s fd = None)"

lemma objectPath_inj [simp]: "objectPath a = objectPath b \<longleftrightarrow> a = b"
  by (auto simp: objectPath_def objectDirectory_def)

lemma paths_differ [simp]: "objectPath hash \<noteq> temporaryPath n" "temporaryPath n \<noteq> objectPath hash"
    "objectPath hash \<noteq> Elsewhere x" "temporaryPath n \<noteq> Elsewhere x" "Elsewhere x \<noteq> objectPath hash" "Elsewhere x \<noteq> temporaryPath n"
  by (auto simp: objectPath_def objectDirectory_def temporaryPath_def)

lemma temporaryPath_inj [simp]: "temporaryPath a = temporaryPath b \<longleftrightarrow> a = b"
  by (simp add: temporaryPath_def)

lemma store_step_entries:
  assumes "store_step h s s'" "\<forall>p i. entry_at s p = Some (FileAt i) \<longrightarrow> i < md_next s"
  shows "(\<forall>p i. entry_at s' p = Some (FileAt i) \<longrightarrow> i < md_next s') \<and> md_next s \<le> md_next s'"
  using assms by cases (force split: if_splits)+

lemma published_entry: "isSha256 hash \<Longrightarrow> entry_at s (objectPath hash) = Some (FileAt i) \<Longrightarrow> published s i"
  by (auto simp: published_def)

lemma store_step_addressed:
  assumes "store_step h s s'" "content_addressed h s" "\<forall>p i. entry_at s p = Some (FileAt i) \<longrightarrow> i < md_next s"
  shows "content_addressed h s'"
  using assms(1)
proof cases
  case (create_step n i)
  have "j \<noteq> i" if "entry_at s (objectPath hash) = Some (FileAt j)" for hash j
    using assms(3) that create_step(2) by (metis leD)
  with assms(2) create_step show ?thesis by (auto simp: content_addressed_def)
next
  case (write_step i b)
  then show ?thesis using assms(2) published_entry by (fastforce simp: content_addressed_def)
qed (use assms(2) in \<open>auto simp: content_addressed_def objectPath_def split: if_splits\<close>)

text \<open>An object stays as it is until it is removed: its entry is never replaced and its bytes never change.\<close>

lemma store_step_immutable:
  assumes "store_step h s s'" "isSha256 hash" "entry_at s (objectPath hash) = Some (FileAt i)" "i < md_next s"
  shows "md_content s' i = md_content s i \<and> (entry_at s' (objectPath hash) = Some (FileAt i) \<or> entry_at s' (objectPath hash) = None)"
  using assms(1)
proof cases
  case (write_step j b)
  then show ?thesis using assms(2,3) published_entry by fastforce
next
  case (mkdir_step d)
  then show ?thesis using assms(3) by auto
qed (use assms in auto)

section \<open>Interference\<close>

abbreviation steps :: "blob_host \<Rightarrow> medium \<Rightarrow> medium \<Rightarrow> bool" where
  "steps h \<equiv> (store_step h)\<^sup>*\<^sup>*"

text \<open>
  Other processes have descriptors of their own, and the temporary file a client is writing is its own: nobody
  else writes it, links it or takes its name away.
\<close>

definition keeps_own :: "medium \<Rightarrow> medium \<Rightarrow> bool" where
  "keeps_own s s' \<longleftrightarrow> md_fds s' = md_fds s \<and> md_nextfd s' = md_nextfd s \<and>
     (\<forall>fd i. md_fds s fd = Some (Descriptor i True) \<longrightarrow> md_content s' i = md_content s i \<and>
        (\<forall>p. entry_at s' p = Some (FileAt i) \<longrightarrow> entry_at s p = Some (FileAt i)) \<and>
        (\<forall>n. entry_at s (temporaryPath n) = Some (FileAt i) \<longrightarrow> entry_at s' (temporaryPath n) = Some (FileAt i)))"

definition peaceful :: "blob_host \<Rightarrow> bool" where
  "peaceful h \<longleftrightarrow> (\<forall>n s. steps h s (bh_env h n s) \<and> keeps_own s (bh_env h n s))"

text \<open>Nobody interferes, and what a stream delivers without an error is the file.\<close>

definition alone :: "blob_host \<Rightarrow> bool" where
  "alone h \<longleftrightarrow> (\<forall>n s. bh_env h n s = s) \<and> (\<forall>n b c. bh_chunks h n b = (c, None) \<longrightarrow> concat c = b)"

definition stable :: "blob_host \<Rightarrow> (medium \<Rightarrow> bool) \<Rightarrow> bool" where
  "stable h P \<longleftrightarrow> (\<forall>n s k. P s \<longrightarrow> P ((bh_env h n s)\<lparr>md_tick := k\<rparr>))"

lemma entry_at_updates [simp]:
  "entry_at (s\<lparr>md_tick := k\<rparr>) = entry_at s" "entry_at (s\<lparr>md_fds := f\<rparr>) = entry_at s" "entry_at (s\<lparr>md_nextfd := m\<rparr>) = entry_at s"
  "entry_at (s\<lparr>md_content := c\<rparr>) = entry_at s" "entry_at (s\<lparr>md_next := m\<rparr>) = entry_at s"
  by (simp_all add: entry_at_def fun_eq_iff)

lemma entry_at_set [simp]: "entry_at (set_entry p e s) = (entry_at s)(p \<mapsto> e)"
  by (simp add: entry_at_def set_entry_def fun_eq_iff update_conv)

lemma entry_at_drop [simp]: "entry_at (drop_entry p s) = (entry_at s)(p := None)"
  by (auto simp: entry_at_def drop_entry_def fun_eq_iff delete_conv)

lemma entry_changes [simp]:
  "md_content (set_entry p e s) = md_content s" "md_next (set_entry p e s) = md_next s" "md_fds (set_entry p e s) = md_fds s"
  "md_nextfd (set_entry p e s) = md_nextfd s" "md_content (drop_entry p s) = md_content s" "md_next (drop_entry p s) = md_next s"
  "md_fds (drop_entry p s) = md_fds s" "md_nextfd (drop_entry p s) = md_nextfd s"
  by (simp_all add: set_entry_def drop_entry_def)

lemma steps_entries:
  assumes "steps h s s'" "\<forall>p i. entry_at s p = Some (FileAt i) \<longrightarrow> i < md_next s"
  shows "(\<forall>p i. entry_at s' p = Some (FileAt i) \<longrightarrow> i < md_next s') \<and> md_next s \<le> md_next s'"
  using assms by (induction rule: rtranclp_induct) (auto dest!: store_step_entries)

lemma steps_addressed:
  assumes "steps h s s'" "content_addressed h s" "\<forall>p i. entry_at s p = Some (FileAt i) \<longrightarrow> i < md_next s"
  shows "content_addressed h s'"
  using assms
proof (induction rule: rtranclp_induct)
  case (step u v)
  then show ?case using store_step_addressed [OF step(2)] steps_entries [OF step(1)] by simp
qed simp

section \<open>Triples\<close>

definition triple :: "(medium \<Rightarrow> bool) \<Rightarrow> ('e, 'a) medium_op \<Rightarrow> ('a \<Rightarrow> medium \<Rightarrow> bool) \<Rightarrow> ('e \<Rightarrow> medium \<Rightarrow> bool) \<Rightarrow> bool" where
  "triple P m Q E \<longleftrightarrow> (\<forall>s. P s \<longrightarrow> (case m s of (Inr a, s') \<Rightarrow> Q a s' | (Inl e, s') \<Rightarrow> E e s'))"

lemma triple_return: "(\<And>s. P s \<Longrightarrow> Q a s) \<Longrightarrow> triple P (return_m a) Q E"
  by (simp add: triple_def return_m_def)

lemma triple_throw: "(\<And>s. P s \<Longrightarrow> E e s) \<Longrightarrow> triple P (throw_m e) Q E"
  by (simp add: triple_def throw_m_def)

lemma triple_refuse: "(\<And>s. P s \<Longrightarrow> E (BlobStoreError c m (Some sha)) s) \<Longrightarrow> triple P (refuse c m sha) Q E"
  by (simp add: refuse_def triple_throw)

lemma triple_bind:
  assumes "triple P m R E" "\<And>a. triple (R a) (f a) Q E"
  shows "triple P (bind_m m f) Q E"
  unfolding triple_def bind_m_def
proof (intro allI impI)
  fix s
  assume "P s"
  obtain r s' where r: "m s = (r, s')" by fastforce
  show "case (case m s of (Inl e, s') \<Rightarrow> (Inl e, s') | (Inr a, s') \<Rightarrow> f a s') of (Inr a, s') \<Rightarrow> Q a s' | (Inl e, s') \<Rightarrow> E e s'"
    using assms \<open>P s\<close> r unfolding triple_def by (cases r) fastforce+
qed

lemma triple_attempt:
  "triple P m Q E \<Longrightarrow> triple P (attempt_m m) (\<lambda>r s. case r of Inl e \<Rightarrow> E e s | Inr a \<Rightarrow> Q a s) E'"
  unfolding triple_def attempt_m_def by (fastforce split: sum.splits prod.splits)

lemma triple_try:
  assumes "triple P m Q E" "\<And>e. triple (E e) (f (Inl e)) Q' E'" "\<And>a. triple (Q a) (f (Inr a)) Q' E'"
  shows "triple P (bind_m (attempt_m m) f) Q' E'"
proof (rule triple_bind [OF triple_attempt [OF assms(1)]])
  fix r
  show "triple (\<lambda>s. case r of Inl e \<Rightarrow> E e s | Inr a \<Rightarrow> Q a s) (f r) Q' E'" using assms(2,3) by (cases r) simp_all
qed

lemma triple_if: "(c \<Longrightarrow> triple P m Q E) \<Longrightarrow> (\<not> c \<Longrightarrow> triple P m' Q E) \<Longrightarrow> triple P (if c then m else m') Q E"
  by simp

lemma triple_pre: "triple P m Q E \<Longrightarrow> (\<And>s. P' s \<Longrightarrow> P s) \<Longrightarrow> triple P' m Q E"
  by (auto simp: triple_def)

lemma triple_error: "triple P m Q E \<Longrightarrow> (\<And>e s. E e s \<Longrightarrow> E' (g e) s) \<Longrightarrow> triple P (error_m g m) Q E'"
  unfolding triple_def error_m_def by (fastforce split: sum.splits prod.splits)

lemma triple_io: "triple P m Q E \<Longrightarrow> (\<And>e s. E e s \<Longrightarrow> E' (Operational e) s) \<Longrightarrow> triple P (io m) Q E'"
  unfolding io_def by (rule triple_error)

lemma triple_weaken:
  assumes "triple P m Q E" "\<And>s. P' s \<Longrightarrow> P s" "\<And>a s. Q a s \<Longrightarrow> Q' a s" "\<And>e s. E e s \<Longrightarrow> E' e s"
  shows "triple P' m Q' E'"
  using assms unfolding triple_def by (fastforce split: sum.splits prod.splits)

lemma triple_fact: "(X \<Longrightarrow> triple P m Q E) \<Longrightarrow> triple (\<lambda>s. X \<and> P s) m Q E"
  by (auto simp: triple_def)

lemma triple_ex:
  assumes "\<And>x. triple (P x) m Q E"
  shows "triple (\<lambda>s. \<exists>x. P x s) m Q E"
  unfolding triple_def
proof (intro allI impI)
  fix s
  assume "\<exists>x. P x s"
  then obtain x where "P x s" ..
  then show "case m s of (Inr a, s') \<Rightarrow> Q a s' | (Inl e, s') \<Rightarrow> E e s'" by (rule assms [unfolded triple_def, rule_format])
qed

lemma tripleD: "triple P m Q E \<Longrightarrow> P s \<Longrightarrow> m s = (r, s') \<Longrightarrow> (case r of Inr a \<Rightarrow> Q a s' | Inl e \<Rightarrow> E e s')"
  by (fastforce simp: triple_def split: sum.splits)

lemma triple_sys_call:
  assumes "stable h P" "\<And>n. triple P (f n) Q E" "\<And>e s. P s \<Longrightarrow> E e s"
  shows "triple P (sys_call h f) Q E"
  using assms unfolding triple_def sys_call_def stable_def Let_def by (simp split: option.split)

lemma triple_close: "(\<And>s. P s \<Longrightarrow> Q () (s\<lparr>md_fds := (md_fds s)(fd := None)\<rparr>)) \<Longrightarrow> triple P (close_m fd) Q E"
  by (simp add: triple_def close_m_def)

section \<open>Assertions\<close>

text \<open>
  \<open>base\<close>: since \<open>s0\<close> only store steps happened, the descriptors are \<open>F\<close>, and a fact \<open>R\<close> on the shared part holds that
  others do not disturb.
\<close>

definition base :: "blob_host \<Rightarrow> medium \<Rightarrow> (medium \<Rightarrow> bool) \<Rightarrow> (nat \<Rightarrow> descriptor option) \<Rightarrow> medium \<Rightarrow> bool" where
  "base h s0 R F s \<longleftrightarrow> steps h s0 s \<and> wf_medium s \<and> md_fds s = F \<and> R s"

definition shared :: "(medium \<Rightarrow> bool) \<Rightarrow> bool" where
  "shared R \<longleftrightarrow> (\<forall>s s'. entry_at s' = entry_at s \<longrightarrow> md_content s' = md_content s \<longrightarrow> R s \<longrightarrow> R s')"

definition frame :: "blob_host \<Rightarrow> (medium \<Rightarrow> bool) \<Rightarrow> bool" where
  "frame h R \<longleftrightarrow> shared R \<and> stable h R"

text \<open>A file being written below a temporary name, holding \<open>b\<close> so far.\<close>

definition writing :: "blob_host \<Rightarrow> medium \<Rightarrow> jstring \<Rightarrow> nat \<Rightarrow> bytes \<Rightarrow> (nat \<Rightarrow> descriptor option) \<Rightarrow> medium \<Rightarrow> bool" where
  "writing h s0 n i b F s \<longleftrightarrow> base h s0 (\<lambda>_. True) F s \<and> (\<exists>fd. F fd = Some (Descriptor i True)) \<and> md_content s i = b \<and>
     entry_at s (temporaryPath n) = Some (FileAt i) \<and> \<not> published s i"

lemma quiet_steps: "steps h s0 s \<Longrightarrow> entry_at s' = entry_at s \<Longrightarrow> md_content s' = md_content s \<Longrightarrow> md_next s \<le> md_next s' \<Longrightarrow> steps h s0 s'"
  by (rule rtranclp.rtrancl_into_rtrancl) (auto intro: quiet_step)

lemma wf_entries: "wf_medium s \<Longrightarrow> \<forall>p i. entry_at s p = Some (FileAt i) \<longrightarrow> i < md_next s"
  by (simp add: wf_medium_def)

lemma wf_after:
  assumes "wf_medium s" "store_step h s s'" "md_fds s' = md_fds s" "md_nextfd s' = md_nextfd s"
  shows "wf_medium s'"
  using assms store_step_entries [OF assms(2) wf_entries [OF assms(1)]] unfolding wf_medium_def by (metis order_less_le_trans)

lemma wf_env:
  assumes "peaceful h" "wf_medium s"
  shows "wf_medium ((bh_env h n s)\<lparr>md_tick := k\<rparr>)"
proof -
  have "steps h s (bh_env h n s)" "keeps_own s (bh_env h n s)" using assms(1) by (auto simp: peaceful_def)
  with steps_entries [OF _ wf_entries [OF assms(2)], of h "bh_env h n s"] assms(2) show ?thesis
    unfolding wf_medium_def keeps_own_def by simp (metis order_less_le_trans)
qed

lemma frame_True [simp]: "frame h (\<lambda>_. True)"
  by (simp add: frame_def shared_def stable_def)

lemma sharedD: "shared R \<Longrightarrow> entry_at s' = entry_at s \<Longrightarrow> md_content s' = md_content s \<Longrightarrow> R s \<Longrightarrow> R s'"
  unfolding shared_def by blast

lemma sharedI: "(\<And>s s'. entry_at s' = entry_at s \<Longrightarrow> md_content s' = md_content s \<Longrightarrow> R s \<Longrightarrow> R s') \<Longrightarrow> shared R"
  unfolding shared_def by blast

lemma frame_shared: "frame h R \<Longrightarrow> shared R"
  by (simp add: frame_def)

lemma frame_alone:
  assumes "frame h R" "shared \<phi>"
  shows "frame h (\<lambda>s. R s \<and> (alone h \<longrightarrow> \<phi> s))"
  unfolding frame_def
proof
  show "shared (\<lambda>s. R s \<and> (alone h \<longrightarrow> \<phi> s))"
    using sharedD [OF frame_shared [OF assms(1)]] sharedD [OF assms(2)] by (intro sharedI) blast
  have "R ((bh_env h n s)\<lparr>md_tick := k\<rparr>)" if "R s" for n s k using assms(1) that by (simp add: frame_def stable_def)
  moreover have "\<phi> ((bh_env h n s)\<lparr>md_tick := k\<rparr>)" if "alone h" "\<phi> s" for n s k
    using sharedD [OF assms(2), of "s\<lparr>md_tick := k\<rparr>" s] that by (simp add: alone_def)
  ultimately show "stable h (\<lambda>s. R s \<and> (alone h \<longrightarrow> \<phi> s))" by (simp add: stable_def)
qed

lemma base_stable:
  assumes "peaceful h" "frame h R"
  shows "stable h (base h s0 R F)"
  unfolding stable_def
proof (intro allI impI)
  fix n s k
  assume b: "base h s0 R F s"
  let ?s = "(bh_env h n s)\<lparr>md_tick := k\<rparr>"
  have env: "steps h s (bh_env h n s)" "keeps_own s (bh_env h n s)" using assms(1) by (auto simp: peaceful_def)
  have "steps h s0 (bh_env h n s)" using b env(1) by (auto simp: base_def)
  then have "steps h s0 ?s" by (rule quiet_steps) simp_all
  moreover have "md_fds ?s = F" using b env(2) by (simp add: base_def keeps_own_def)
  moreover have "R ?s" using b assms(2) by (auto simp: base_def frame_def stable_def)
  ultimately show "base h s0 R F ?s" using wf_env [OF assms(1)] b by (simp add: base_def)
qed

lemma keeps_ownD:
  assumes "keeps_own s s'" "md_fds s fd = Some (Descriptor i True)"
  shows "md_content s' i = md_content s i" "entry_at s' p = Some (FileAt i) \<Longrightarrow> entry_at s p = Some (FileAt i)"
    "entry_at s (temporaryPath n) = Some (FileAt i) \<Longrightarrow> entry_at s' (temporaryPath n) = Some (FileAt i)"
  using assms unfolding keeps_own_def by blast+

lemma writing_stable:
  assumes "peaceful h"
  shows "stable h (writing h s0 n i b F)"
  unfolding stable_def
proof (intro allI impI)
  fix m s k
  assume w: "writing h s0 n i b F s"
  let ?s = "(bh_env h m s)\<lparr>md_tick := k\<rparr>"
  have b: "base h s0 (\<lambda>_. True) F ?s" using base_stable [OF assms frame_True] w by (simp add: stable_def writing_def)
  obtain fd where fd: "F fd = Some (Descriptor i True)" "md_fds s fd = Some (Descriptor i True)"
    using w by (auto simp: writing_def base_def)
  have "keeps_own s (bh_env h m s)" using assms by (simp add: peaceful_def)
  note own = keeps_ownD [OF this fd(2)]
  have "\<not> published ?s i" using w own(2) unfolding writing_def published_def by auto
  moreover have "md_content ?s i = b" "entry_at ?s (temporaryPath n) = Some (FileAt i)"
    using w own(1) own(3) [of n] by (simp_all add: writing_def)
  ultimately show "writing h s0 n i b F ?s" using b fd(1) unfolding writing_def by blast
qed

lemma base_change:
  assumes "base h s0 R F s" "store_step h s s'" "md_fds s' = md_fds s" "md_nextfd s' = md_nextfd s" "R' s'"
  shows "base h s0 R' F s'"
  using assms wf_after [OF _ assms(2-4)] unfolding base_def by (auto intro: rtranclp.rtrancl_into_rtrancl)

lemma base_fds:
  assumes "base h s0 R F s" "shared R" "entry_at s' = entry_at s" "md_content s' = md_content s" "md_next s' = md_next s" "wf_medium s'" "md_fds s' = F'"
  shows "base h s0 R F' s'"
  using assms quiet_steps [of h s0 s s'] unfolding base_def shared_def by auto

lemma base_weaken: "base h s0 R F s \<Longrightarrow> (R s \<Longrightarrow> R' s) \<Longrightarrow> base h s0 R' F s"
  by (auto simp: base_def)

end
