(* ===== verification/Blob_Listing.thy ===== *)
theory Blob_Listing
  imports Blob_Rules "HOL-Library.Product_Lexorder"
begin

text \<open>
  The two listings of maintenance in \<open>src/ts/packages/blob-fs/src/file-blob-store.ts\<close>, \<open>listObjects\<close> and
  \<open>listTemporaryFiles\<close>, and what a page of the first holds.
\<close>

section \<open>Problems and entries\<close>

datatype cas_code = MALFORMED_NAME | WRONG_SHARD | NOT_REGULAR | UNEXPECTED_ENTRY

record cas_problem =
  cp_code :: cas_code
  cp_path :: jstring
  cp_message :: jstring

record object_entry =
  oe_sha256 :: jstring
  oe_sizeBytes :: nat
  oe_modifiedAt :: int
  oe_storageKey :: jstring

record temporary_file =
  tf_name :: jstring
  tf_sizeBytes :: nat
  tf_modifiedAt :: int

definition DEFAULT_LIST_LIMIT :: nat where
  "DEFAULT_LIST_LIMIT = 1000"

definition MAX_LIST_LIMIT :: nat where
  "MAX_LIST_LIMIT = 10000"

definition MAX_PROBLEMS :: nat where
  "MAX_PROBLEMS = 100"

definition boundedLimit :: "jnumber option \<Rightarrow> nat blob_op" where
  "boundedLimit limit =
     (case limit of
        None \<Rightarrow> return_m DEFAULT_LIST_LIMIT
      | Some (Whole n) \<Rightarrow>
          if \<not> is_safe_int n \<or> n < 1 then throw_m (BlobTypeError (js ''limit must be a positive whole number'')) else return_m (min (nat n) MAX_LIST_LIMIT)
      | Some (Other _) \<Rightarrow> throw_m (BlobTypeError (js ''limit must be a positive whole number'')))"

definition record_problem :: "cas_problem \<Rightarrow> cas_problem list \<Rightarrow> cas_problem list" where
  "record_problem p problems =
     (if length problems < MAX_PROBLEMS then problems @ [p]
      else if length problems = MAX_PROBLEMS
      then problems @ [\<lparr>cp_code = UNEXPECTED_ENTRY, cp_path = [],
             cp_message = js ''more than 100 entries the layout does not define; the rest are not listed''\<rparr>]
      else problems)"

definition cas_problem_at :: "cas_code \<Rightarrow> jstring list \<Rightarrow> string \<Rightarrow> cas_problem" where
  "cas_problem_at code path message = \<lparr>cp_code = code, cp_path = slashed path, cp_message = js message\<rparr>"

definition entriesOf :: "blob_host \<Rightarrow> jstring list \<Rightarrow> (jstring \<times> entry_kind) list blob_op" where
  "entriesOf h d =
     bind_m (attempt_m (sys_readdir h d)) (\<lambda>r.
     case r of
       Inl e \<Rightarrow> if e = ENOENT \<or> e = ENOTDIR then return_m [] else throw_m (Operational e)
     | Inr es \<Rightarrow> return_m es)"

text \<open>The loop of \<open>shards\<close> over the sorted entries.\<close>

fun shard_names :: "jstring list \<Rightarrow> (jstring \<times> entry_kind) list \<Rightarrow> cas_problem list \<Rightarrow> jstring list \<times> cas_problem list" where
  "shard_names d [] problems = ([], problems)"
| "shard_names d ((name, kind) # es) problems =
     (if \<not> SHARD name then shard_names d es (record_problem (cas_problem_at MALFORMED_NAME (d @ [name]) ''not a shard name'') problems)
      else if kind \<noteq> Folder then shard_names d es (record_problem (cas_problem_at UNEXPECTED_ENTRY (d @ [name]) ''not a shard directory'') problems)
      else case shard_names d es problems of (names, problems) \<Rightarrow> (name # names, problems))"

definition shards :: "blob_host \<Rightarrow> jstring list \<Rightarrow> cas_problem list \<Rightarrow> (jstring list \<times> cas_problem list) blob_op" where
  "shards h d problems = bind_m (entriesOf h d) (\<lambda>es. return_m (shard_names d (sort_key fst es) problems))"

section \<open>Listing objects\<close>

record object_page =
  op_objects :: "object_entry list"
  op_next :: "jstring option"
  op_full :: bool
  op_problems :: "cas_problem list"

definition noted :: "cas_problem \<Rightarrow> object_page \<Rightarrow> object_page" where
  "noted p pg = pg\<lparr>op_problems := record_problem p (op_problems pg)\<rparr>"

definition passed :: "jstring option \<Rightarrow> jstring \<Rightarrow> bool" where
  "passed after name = (case after of None \<Rightarrow> False | Some a \<Rightarrow> name \<le> a)"

fun list_leaf :: "blob_host \<Rightarrow> jstring option \<Rightarrow> nat \<Rightarrow> jstring \<Rightarrow> jstring \<Rightarrow> (jstring \<times> entry_kind) list \<Rightarrow> object_page \<Rightarrow> object_page blob_op" where
  "list_leaf h after limit first second [] pg = return_m pg"
| "list_leaf h after limit first second ((name, kind) # es) pg =
     (let path = [OBJECTS_DIR, first, second, name] in
      if isSha256 name \<and> passed after name then list_leaf h after limit first second es pg
      else if \<not> isSha256 name
      then list_leaf h after limit first second es (noted (cas_problem_at MALFORMED_NAME path ''not an object name'') pg)
      else if kind \<noteq> Regular
      then list_leaf h after limit first second es (noted (cas_problem_at NOT_REGULAR path ''not a regular file'') pg)
      else if shard1 name \<noteq> first \<or> shard2 name \<noteq> second
      then list_leaf h after limit first second es (noted (cas_problem_at WRONG_SHARD path ''filed under another hash'') pg)
      else if length (op_objects pg) = limit
      then return_m (pg\<lparr>op_next := (case op_objects pg of [] \<Rightarrow> None | os \<Rightarrow> Some (oe_sha256 (List.last os))), op_full := True\<rparr>)
      else
        bind_m (attempt_m (sys_lstat h (Below path))) (\<lambda>r.
        case r of
          Inl e \<Rightarrow> if e = ENOENT \<or> e = ENOTDIR then list_leaf h after limit first second es pg else throw_m (Operational e)
        | Inr st \<Rightarrow>
            if st_kind st \<noteq> Regular then list_leaf h after limit first second es pg
            else
              list_leaf h after limit first second es (pg\<lparr>op_objects := op_objects pg @
                [\<lparr>oe_sha256 = name, oe_sizeBytes = st_size st, oe_modifiedAt = st_mtime st, oe_storageKey = storageKey name\<rparr>]\<rparr>)))"

fun list_second :: "blob_host \<Rightarrow> jstring option \<Rightarrow> nat \<Rightarrow> jstring \<Rightarrow> jstring list \<Rightarrow> object_page \<Rightarrow> object_page blob_op" where
  "list_second h after limit first [] pg = return_m pg"
| "list_second h after limit first (second # rest) pg =
     (if op_full pg then return_m pg
      else if after \<noteq> None \<and> first = shard1 (the after) \<and> second < shard2 (the after) then list_second h after limit first rest pg
      else
        bind_m (entriesOf h [OBJECTS_DIR, first, second]) (\<lambda>es.
        bind_m (list_leaf h after limit first second (sort_key fst es) pg) (\<lambda>pg.
        list_second h after limit first rest pg)))"

fun list_first :: "blob_host \<Rightarrow> jstring option \<Rightarrow> nat \<Rightarrow> jstring list \<Rightarrow> object_page \<Rightarrow> object_page blob_op" where
  "list_first h after limit [] pg = return_m pg"
| "list_first h after limit (first # rest) pg =
     (if op_full pg then return_m pg
      else if after \<noteq> None \<and> first < shard1 (the after) then list_first h after limit rest pg
      else
        bind_m (shards h [OBJECTS_DIR, first] (op_problems pg)) (\<lambda>(seconds, problems).
        bind_m (list_second h after limit first seconds (pg\<lparr>op_problems := problems\<rparr>)) (\<lambda>pg.
        list_first h after limit rest pg)))"

definition check_after :: "jstring option \<Rightarrow> jstring option blob_op" where
  "check_after after = (case after of None \<Rightarrow> return_m None | Some a \<Rightarrow> bind_m (checkSha256 a) (\<lambda>a. return_m (Some a)))"

definition empty_page :: object_page where
  "empty_page = \<lparr>op_objects = [], op_next = None, op_full = False, op_problems = []\<rparr>"

definition listObjects :: "blob_host \<Rightarrow> jnumber option \<Rightarrow> jstring option \<Rightarrow> object_page blob_op" where
  "listObjects h limit after =
     bind_m (boundedLimit limit) (\<lambda>limit.
     bind_m (check_after after) (\<lambda>after.
     bind_m (blob_entryKind h (Below [OBJECTS_DIR])) (\<lambda>kind.
     if kind = Missing then return_m empty_page
     else if kind \<noteq> Folder then throw_m (unsafeEntry [OBJECTS_DIR] kind)
     else
       bind_m (shards h [OBJECTS_DIR] []) (\<lambda>(firsts, problems).
       list_first h after limit firsts (empty_page\<lparr>op_problems := problems\<rparr>)))))"

section \<open>Listing temporary files\<close>

fun list_temporary :: "blob_host \<Rightarrow> int option \<Rightarrow> (jstring \<times> entry_kind) list \<Rightarrow> temporary_file list \<times> cas_problem list \<Rightarrow> (temporary_file list \<times> cas_problem list) blob_op" where
  "list_temporary h before [] acc = return_m acc"
| "list_temporary h before ((name, kind) # es) acc =
     (if \<not> TEMPORARY_NAME name then list_temporary h before es acc
      else if kind \<noteq> Regular
      then list_temporary h before es (fst acc, record_problem (cas_problem_at NOT_REGULAR [TEMP_DIR, name] ''not a regular temporary file'') (snd acc))
      else
        bind_m (attempt_m (sys_lstat h (temporaryPath name))) (\<lambda>r.
        case r of
          Inl e \<Rightarrow> if e = ENOENT \<or> e = ENOTDIR then list_temporary h before es acc else throw_m (Operational e)
        | Inr st \<Rightarrow>
            if st_kind st \<noteq> Regular then list_temporary h before es acc
            else if (case before of None \<Rightarrow> False | Some b \<Rightarrow> st_mtime st \<ge> b) then list_temporary h before es acc
            else list_temporary h before es
                   (fst acc @ [\<lparr>tf_name = name, tf_sizeBytes = st_size st, tf_modifiedAt = st_mtime st\<rparr>], snd acc)))"

text \<open>\<open>before\<close> is a valid \<open>Date\<close> when it is given; an invalid one is refused.\<close>

definition listTemporaryFiles :: "blob_host \<Rightarrow> jnumber option \<Rightarrow> int option option \<Rightarrow> (temporary_file list \<times> cas_problem list) blob_op" where
  "listTemporaryFiles h limit before =
     bind_m (boundedLimit limit) (\<lambda>limit.
     if before = Some None then throw_m (BlobTypeError (js ''before must be a valid Date''))
     else
       bind_m (blob_entryKind h (Below [TEMP_DIR])) (\<lambda>kind.
       if kind = Missing then return_m ([], [])
       else if kind \<noteq> Folder then throw_m (unsafeEntry [TEMP_DIR] kind)
       else
         bind_m (entriesOf h [TEMP_DIR]) (\<lambda>es.
         bind_m (list_temporary h (Option.bind before id) (sort_key fst es) ([], [])) (\<lambda>(files, problems).
         return_m (take limit (sort_key (\<lambda>f. (tf_modifiedAt f, tf_name f)) files), problems)))))"

end
