(* ===== verification/Blob_Pages.thy ===== *)
theory Blob_Pages
  imports Blob_Listing
begin

text \<open>
  A page of \<open>listObjects\<close> is a segment of the sorted list of all objects, and following \<open>next\<close> visits each of
  them once.
\<close>

section \<open>Running undisturbed\<close>

definition undisturbed :: "blob_host \<Rightarrow> bool" where
  "undisturbed h \<longleftrightarrow> alone h \<and> (\<forall>n. bh_fault h n = None)"

text \<open>An operation that only looks: its result at \<open>s\<close>, whatever the tick, and nothing else changes.\<close>

definition yields :: "medium \<Rightarrow> ('e, 'a) medium_op \<Rightarrow> 'a \<Rightarrow> bool" where
  "yields s m a \<longleftrightarrow> (\<forall>k. \<exists>k'. m (s\<lparr>md_tick := k\<rparr>) = (Inr a, s\<lparr>md_tick := k'\<rparr>))"

lemma yields_return: "yields s (return_m a) a"
  by (auto simp: yields_def return_m_def)

lemma yields_bind: "yields s m a \<Longrightarrow> yields s (f a) b \<Longrightarrow> yields s (bind_m m f) b"
proof -
  assume m: "yields s m a" and f: "yields s (f a) b"
  have "\<exists>k'. bind_m m f (s\<lparr>md_tick := k\<rparr>) = (Inr b, s\<lparr>md_tick := k'\<rparr>)" for k
  proof -
    obtain k1 where k1: "m (s\<lparr>md_tick := k\<rparr>) = (Inr a, s\<lparr>md_tick := k1\<rparr>)" using m unfolding yields_def by blast
    obtain k2 where "f a (s\<lparr>md_tick := k1\<rparr>) = (Inr b, s\<lparr>md_tick := k2\<rparr>)" using f unfolding yields_def by blast
    with k1 show ?thesis by (auto simp: bind_m_def)
  qed
  then show ?thesis by (simp add: yields_def)
qed

lemma entry_stat_tick [simp]: "entry_stat (s\<lparr>md_tick := k\<rparr>) e = entry_stat s e"
  by (cases e) (simp_all add: node_stat_def)

lemma yields_lstat:
  assumes "undisturbed h"
  shows "yields s (attempt_m (sys_lstat h p)) (case entry_at s p of None \<Rightarrow> Inl ENOENT | Some e \<Rightarrow> Inr (entry_stat s e))"
  using assms unfolding yields_def attempt_m_def sys_lstat_def sys_call_def undisturbed_def alone_def
  by (auto simp: Let_def split: option.splits)

definition dir_names :: "medium \<Rightarrow> jstring list \<Rightarrow> (jstring \<times> entry_kind) list" where
  "dir_names s d = (if entry_at s (Below d) = Some DirAt then names_below s d else [])"

lemma yields_entriesOf:
  assumes "undisturbed h"
  shows "yields s (entriesOf h d) (dir_names s d)"
proof -
  have "names_below (s\<lparr>md_tick := k\<rparr>) d = names_below s d" for k by (simp add: names_below_def)
  then have "yields s (attempt_m (sys_readdir h d))
      (case entry_at s (Below d) of None \<Rightarrow> Inl ENOENT | Some DirAt \<Rightarrow> Inr (names_below s d) | Some _ \<Rightarrow> Inl ENOTDIR)"
    using assms unfolding yields_def attempt_m_def sys_readdir_def sys_call_def undisturbed_def alone_def
    by (auto simp: Let_def split: option.splits dir_entry.splits)
  then show ?thesis unfolding entriesOf_def
    by (rule yields_bind) (auto simp: dir_names_def intro: yields_return split: option.splits dir_entry.splits)
qed

lemma yields_entryKind:
  assumes "undisturbed h"
  shows "yields s (blob_entryKind h p) (case entry_at s p of None \<Rightarrow> Missing | Some e \<Rightarrow> kind_of_entry e)"
proof -
  have "st_kind (entry_stat s e) = kind_of_entry e" for e by (cases e) (simp_all add: node_stat_def odd_stat_def)
  then show ?thesis unfolding blob_entryKind_def
    by (intro yields_bind [OF yields_lstat [OF assms]]) (auto intro: yields_return split: option.splits)
qed

section \<open>Names in a directory\<close>

lemma map_filter_fst_distinct:
  assumes "distinct (map fst xs)" "\<And>p q n. f p = Some n \<Longrightarrow> f q = Some n \<Longrightarrow> p = q"
  shows "distinct (map fst (List.map_filter (\<lambda>(p, e). map_option (\<lambda>n. (n, g e)) (f p)) xs))"
  using assms(1)
proof (induction xs)
  case (Cons x xs)
  obtain p e where x: "x = (p, e)" by fastforce
  have "n \<notin> fst ` set (List.map_filter (\<lambda>(p, e). map_option (\<lambda>n. (n, g e)) (f p)) xs)" if "f p = Some n" for n
    using Cons.prems assms(2) [OF that] by (force simp: x map_filter_def)
  with Cons show ?case by (auto simp: x split: option.splits)
qed simp

lemma name_below_Some: "name_below d p = Some n \<longleftrightarrow> p = Below (d @ [n])"
proof (cases p)
  case (Below q)
  have "length q = length d + 1 \<and> take (length d) q = d \<and> List.last q = n \<longleftrightarrow> q = d @ [n]"
    by (cases q rule: rev_cases) auto
  then show ?thesis using Below by auto
qed simp

lemma names_below_distinct: "distinct (map fst (names_below s d))"
  unfolding names_below_def by (rule map_filter_fst_distinct) (auto simp: name_below_Some)

lemma names_below_iff: "(n, k) \<in> set (names_below s d) \<longleftrightarrow> (\<exists>e. entry_at s (Below (d @ [n])) = Some e \<and> k = kind_of_entry e)"
proof -
  have "(p, e) \<in> set (AList.clearjunk (md_entries s)) \<longleftrightarrow> entry_at s p = Some e" for p e
    unfolding entry_at_def by (metis distinct_clearjunk map_of_clearjunk map_of_eq_Some_iff)
  then show ?thesis by (force simp: names_below_def map_filter_def name_below_Some image_iff)
qed

definition sorted_names :: "medium \<Rightarrow> jstring list \<Rightarrow> (jstring \<times> entry_kind) list" where
  "sorted_names s d = sort_key fst (dir_names s d)"

lemma sorted_names_strict: "sorted_wrt (<) (map fst (sorted_names s d))"
proof -
  have "distinct (map fst (dir_names s d))" by (simp add: dir_names_def names_below_distinct)
  then have "distinct (map fst (sorted_names s d))" by (simp add: sorted_names_def distinct_map)
  moreover have "sorted (map fst (sorted_names s d))" by (simp add: sorted_names_def)
  ultimately show ?thesis by (simp add: strict_sorted_iff)
qed

lemma sorted_names_iff:
  "(n, k) \<in> set (sorted_names s d) \<longleftrightarrow> entry_at s (Below d) = Some DirAt \<and> (\<exists>e. entry_at s (Below (d @ [n])) = Some e \<and> k = kind_of_entry e)"
  by (simp add: sorted_names_def dir_names_def names_below_iff)

lemma sorted_wrt_filter_fst: "sorted_wrt (<) (map fst es) \<Longrightarrow> sorted_wrt (<) (map fst (filter P es))"
  by (induction es) auto

section \<open>Order of hashes\<close>

lemma prefix_less:
  fixes a b :: jstring
  assumes "take n a < take n b" "length a = length b"
  shows "a < b"
proof -
  have "(take n a @ drop n a, take n b @ drop n b) \<in> lexord {(u, v). u < v}"
    by (rule lexord_sufI) (use assms in \<open>simp_all add: list_less_def\<close>)
  then show ?thesis by (simp add: list_less_def)
qed

lemma shard1_less: "shard1 a < shard1 b \<Longrightarrow> isSha256 a \<Longrightarrow> isSha256 b \<Longrightarrow> a < b"
  unfolding shard1_def by (rule prefix_less) (auto simp: isSha256_def)

lemma shard2_less:
  assumes "shard1 a = shard1 b" "shard2 a < shard2 b" "isSha256 a" "isSha256 b"
  shows "a < b"
proof -
  have "take 4 x = shard1 x @ shard2 x" for x :: jstring
    by (simp add: shard1_def shard2_def take_add [symmetric])
  then have "take 4 a < take 4 b" using assms(1,2) by (simp add: list_less_def lexord_append_leftI)
  then show ?thesis by (rule prefix_less) (use assms in \<open>auto simp: isSha256_def\<close>)
qed

lemma sorted_concat:
  assumes "sorted_wrt Q xs" "\<And>x. x \<in> set xs \<Longrightarrow> sorted_wrt P (F x)" "\<And>x y a b. Q x y \<Longrightarrow> a \<in> set (F x) \<Longrightarrow> b \<in> set (F y) \<Longrightarrow> P a b"
  shows "sorted_wrt P (concat (map F xs))"
  using assms by (induction xs) (auto simp: sorted_wrt_append)

section \<open>Pages\<close>

definition object_of :: "medium \<Rightarrow> jstring \<Rightarrow> object_entry" where
  "object_of s name = (case entry_at s (objectPath name) of
     Some (FileAt i) \<Rightarrow> \<lparr>oe_sha256 = name, oe_sizeBytes = length (md_content s i), oe_modifiedAt = md_mtime s i, oe_storageKey = storageKey name\<rparr>
   | _ \<Rightarrow> \<lparr>oe_sha256 = name, oe_sizeBytes = 0, oe_modifiedAt = 0, oe_storageKey = storageKey name\<rparr>)"

lemma object_of_name [simp]: "oe_sha256 (object_of s name) = name"
  by (simp add: object_of_def split: option.splits dir_entry.splits)

text \<open>The page that shows the first \<open>limit\<close> of \<open>names\<close>.\<close>

definition shows_page :: "medium \<Rightarrow> nat \<Rightarrow> jstring list \<Rightarrow> object_page \<Rightarrow> bool" where
  "shows_page s limit names pg \<longleftrightarrow> op_objects pg = map (object_of s) (take limit names) \<and>
     op_next pg = (if limit < length names then Some (List.last (take limit names)) else None) \<and> op_full pg = (limit < length names)"

lemma shows_noted [simp]: "shows_page s limit names (noted p pg) = shows_page s limit names pg"
  "shows_page s limit names (pg\<lparr>op_problems := ps\<rparr>) = shows_page s limit names pg"
  by (simp_all add: shows_page_def noted_def)

definition good :: "jstring option \<Rightarrow> jstring \<Rightarrow> jstring \<Rightarrow> jstring \<times> entry_kind \<Rightarrow> bool" where
  "good after f g e \<longleftrightarrow> isSha256 (fst e) \<and> \<not> passed after (fst e) \<and> snd e = Regular \<and> shard1 (fst e) = f \<and> shard2 (fst e) = g"

definition candidates :: "medium \<Rightarrow> jstring option \<Rightarrow> jstring \<Rightarrow> jstring \<Rightarrow> jstring list" where
  "candidates s after f g = map fst (filter (good after f g) (sorted_names s [OBJECTS_DIR, f, g]))"

lemma object_path_shards: "shard1 name = f \<Longrightarrow> shard2 name = g \<Longrightarrow> Below [OBJECTS_DIR, f, g, name] = objectPath name"
  by (simp add: objectPath_def objectDirectory_def)

lemma leaf_page:
  assumes "undisturbed h" "1 \<le> limit" "set es \<subseteq> set (sorted_names s [OBJECTS_DIR, f, g])" "shows_page s limit names pg" "length names \<le> limit"
  shows "\<exists>pg'. yields s (list_leaf h after limit f g es pg) pg' \<and> shows_page s limit (names @ map fst (filter (good after f g) es)) pg'"
  using assms(3-)
proof (induction es arbitrary: names pg)
  case Nil
  then show ?case by (auto intro: yields_return)
next
  case (Cons e es)
  obtain name kind where e: "e = (name, kind)" by fastforce
  have sub: "set es \<subseteq> set (sorted_names s [OBJECTS_DIR, f, g])" using Cons.prems(1) by simp
  show ?case
  proof (cases "good after f g (name, kind)")
    case False
    then consider "isSha256 name \<and> passed after name" | "\<not> isSha256 name" | "isSha256 name" "\<not> passed after name" "kind \<noteq> Regular"
      | "isSha256 name" "\<not> passed after name" "kind = Regular" "shard1 name \<noteq> f \<or> shard2 name \<noteq> g"
      by (auto simp: good_def)
    then show ?thesis
      by cases (use Cons.IH [OF sub] Cons.prems(2,3) False in \<open>auto simp: e Let_def\<close>)
  next
    case True
    then have g: "isSha256 name" "\<not> passed after name" "kind = Regular" "shard1 name = f" "shard2 name = g" by (auto simp: good_def)
    obtain i where i: "entry_at s (objectPath name) = Some (FileAt i)"
    proof -
      obtain d where "entry_at s (objectPath name) = Some d" "kind_of_entry d = Regular"
        using Cons.prems(1) g object_path_shards [OF g(4,5)] by (auto simp: e sorted_names_iff)
      then show thesis using that by (cases d) auto
    qed
    show ?thesis
    proof (cases "length names = limit")
      case full: True
      have "length (op_objects pg) = limit" "op_objects pg = map (object_of s) names" "names \<noteq> []"
        using Cons.prems(2) full assms(2) by (auto simp: shows_page_def)
      then show ?thesis using g full True
        by (auto simp: e Let_def shows_page_def last_map intro!: exI yields_return split: list.splits)
    next
      case False
      then have len: "length (names @ [name]) \<le> limit" "length (op_objects pg) \<noteq> limit" using Cons.prems(2,3) by (auto simp: shows_page_def)
      let ?pg = "pg\<lparr>op_objects := op_objects pg @ [object_of s name]\<rparr>"
      have "shows_page s limit (names @ [name]) ?pg" using Cons.prems(2,3) len(1) by (simp add: shows_page_def)
      from Cons.IH [OF sub this len(1)] obtain pg' where pg': "yields s (list_leaf h after limit f g es ?pg) pg'"
        "shows_page s limit (names @ name # map fst (filter (good after f g) es)) pg'" by auto
      have "yields s (attempt_m (sys_lstat h (Below [OBJECTS_DIR, f, g, name]))) (Inr (node_stat s i))"
        using yields_lstat [OF assms(1), of s "objectPath name"] i object_path_shards [OF g(4,5)] by simp
      note look = yields_bind [OF this]
      have "yields s (list_leaf h after limit f g (e # es) pg) pg'"
        using pg'(1) g len(2) i by (simp add: e Let_def) (rule look, simp add: node_stat_def object_of_def)
      with pg'(2) True show ?thesis by (auto simp: e)
    qed
  qed
qed

lemma page_full: "limit < length names \<Longrightarrow> shows_page s limit names pg \<Longrightarrow> shows_page s limit (names @ others) pg"
  by (simp add: shows_page_def)

lemma candidates_member:
  "x \<in> set (candidates s after f g) \<longleftrightarrow> isSha256 x \<and> \<not> passed after x \<and> shard1 x = f \<and> shard2 x = g \<and>
     entry_at s (Below [OBJECTS_DIR, f, g]) = Some DirAt \<and> (\<exists>i. entry_at s (objectPath x) = Some (FileAt i))"
proof -
  have kind: "kind_of_entry e = Regular \<longleftrightarrow> (\<exists>i. e = FileAt i)" "Regular = kind_of_entry e \<longleftrightarrow> (\<exists>i. e = FileAt i)" for e by (cases e; auto)+
  have "x \<in> set (candidates s after f g) \<longleftrightarrow> (\<exists>k. (x, k) \<in> set (sorted_names s [OBJECTS_DIR, f, g]) \<and> good after f g (x, k))"
    by (force simp: candidates_def)
  also have "\<dots> \<longleftrightarrow> isSha256 x \<and> \<not> passed after x \<and> shard1 x = f \<and> shard2 x = g \<and>
     entry_at s (Below [OBJECTS_DIR, f, g]) = Some DirAt \<and> (\<exists>i. entry_at s (objectPath x) = Some (FileAt i))"
    using object_path_shards [of x f g] by (auto simp: good_def sorted_names_iff kind)
  finally show ?thesis .
qed

lemma second_page:
  assumes "undisturbed h" "1 \<le> limit" "shows_page s limit names pg" "\<And>a. after = Some a \<Longrightarrow> isSha256 a"
  shows "\<exists>pg'. yields s (list_second h after limit f gs pg) pg' \<and> shows_page s limit (names @ concat (map (candidates s after f) gs)) pg'"
  using assms(3)
proof (induction gs arbitrary: names pg)
  case Nil
  then show ?case by (auto intro: yields_return)
next
  case (Cons g gs)
  consider (full) "op_full pg" | (skip) "\<not> op_full pg" "after \<noteq> None" "f = shard1 (the after)" "g < shard2 (the after)"
    | (go) "\<not> op_full pg" "\<not> (after \<noteq> None \<and> f = shard1 (the after) \<and> g < shard2 (the after))" by blast
  then show ?case
  proof cases
    case full
    then have "limit < length names" using Cons.prems by (simp add: shows_page_def)
    then show ?thesis using full page_full [OF _ Cons.prems] by (auto intro: yields_return)
  next
    case skip
    then obtain a where a: "after = Some a" "isSha256 a" using assms(4) by auto
    have "candidates s after f g = []"
    proof -
      have "x \<le> a" if "isSha256 x" "shard1 x = f" "shard2 x = g" for x
        using shard2_less [of x a] that skip a by (simp add: less_imp_le)
      then have "x \<notin> set (candidates s after f g)" for x by (auto simp: candidates_member a(1) passed_def)
      then show ?thesis by (metis list.set_intros(1) neq_Nil_conv)
    qed
    with Cons.IH [OF Cons.prems] skip show ?thesis by auto
  next
    case go
    have "length names \<le> limit" using go(1) Cons.prems by (simp add: shows_page_def)
    from leaf_page [OF assms(1,2) _ Cons.prems this, of "sorted_names s [OBJECTS_DIR, f, g]" f g after]
    obtain pg1 where 1: "yields s (list_leaf h after limit f g (sorted_names s [OBJECTS_DIR, f, g]) pg) pg1"
      "shows_page s limit (names @ candidates s after f g) pg1" by (auto simp: candidates_def)
    from Cons.IH [OF 1(2)] obtain pg2 where 2: "yields s (list_second h after limit f gs pg1) pg2"
      "shows_page s limit (names @ concat (map (candidates s after f) (g # gs))) pg2" by auto
    have "yields s (bind_m (entriesOf h [OBJECTS_DIR, f, g]) (\<lambda>es. bind_m (list_leaf h after limit f g (sort_key fst es) pg) (\<lambda>pg. list_second h after limit f gs pg))) pg2"
      by (rule yields_bind [OF yields_entriesOf [OF assms(1)]], rule yields_bind [OF 1(1) [unfolded sorted_names_def]], rule 2(1))
    with go 2(2) show ?thesis by auto
  qed
qed

definition second_shards :: "medium \<Rightarrow> jstring list \<Rightarrow> jstring list" where
  "second_shards s d = map fst (filter (\<lambda>(n, k). SHARD n \<and> k = Folder) (sorted_names s d))"

lemma shard_names_fst: "fst (shard_names d es ps) = map fst (filter (\<lambda>(n, k). SHARD n \<and> k = Folder) es)"
  by (induction d es ps rule: shard_names.induct) (auto split: prod.splits)

lemma yields_shards:
  assumes "undisturbed h"
  shows "\<exists>ps'. yields s (shards h d ps) (second_shards s d, ps')"
proof -
  have "yields s (shards h d ps) (shard_names d (sorted_names s d) ps)"
    unfolding shards_def sorted_names_def by (rule yields_bind [OF yields_entriesOf [OF assms] yields_return])
  then show ?thesis by (metis second_shards_def shard_names_fst prod.collapse)
qed

definition below_first :: "medium \<Rightarrow> jstring option \<Rightarrow> jstring \<Rightarrow> jstring list" where
  "below_first s after f = concat (map (candidates s after f) (second_shards s [OBJECTS_DIR, f]))"

lemma first_page:
  assumes "undisturbed h" "1 \<le> limit" "shows_page s limit names pg" "\<And>a. after = Some a \<Longrightarrow> isSha256 a"
  shows "\<exists>pg'. yields s (list_first h after limit fs pg) pg' \<and> shows_page s limit (names @ concat (map (below_first s after) fs)) pg'"
  using assms(3)
proof (induction fs arbitrary: names pg)
  case Nil
  then show ?case by (auto intro: yields_return)
next
  case (Cons f fs)
  consider (full) "op_full pg" | (skip) "\<not> op_full pg" "after \<noteq> None" "f < shard1 (the after)"
    | (go) "\<not> op_full pg" "\<not> (after \<noteq> None \<and> f < shard1 (the after))" by blast
  then show ?case
  proof cases
    case full
    then have "limit < length names" using Cons.prems by (simp add: shows_page_def)
    then show ?thesis using full page_full [OF _ Cons.prems] by (auto intro: yields_return)
  next
    case skip
    then obtain a where a: "after = Some a" "isSha256 a" using assms(4) by auto
    have "x \<le> a" if "isSha256 x" "shard1 x = f" for x using shard1_less [of x a] that skip a by (simp add: less_imp_le)
    then have "x \<notin> set (below_first s after f)" for x by (auto simp: below_first_def candidates_member a(1) passed_def)
    then have "below_first s after f = []" by (metis list.set_intros(1) neq_Nil_conv)
    with Cons.IH [OF Cons.prems] skip show ?thesis by auto
  next
    case go
    obtain ps where ps: "yields s (shards h [OBJECTS_DIR, f] (op_problems pg)) (second_shards s [OBJECTS_DIR, f], ps)"
      using yields_shards [OF assms(1)] by blast
    from second_page [where after = after and f = f and gs = "second_shards s [OBJECTS_DIR, f]", OF assms(1,2) _ assms(4), of s names "pg\<lparr>op_problems := ps\<rparr>"] Cons.prems
    obtain pg1 where 1: "yields s (list_second h after limit f (second_shards s [OBJECTS_DIR, f]) (pg\<lparr>op_problems := ps\<rparr>)) pg1"
      "shows_page s limit (names @ below_first s after f) pg1" by (auto simp: below_first_def)
    from Cons.IH [OF 1(2)] obtain pg2 where 2: "yields s (list_first h after limit fs pg1) pg2"
      "shows_page s limit (names @ concat (map (below_first s after) (f # fs))) pg2" by auto
    have "yields s (bind_m (shards h [OBJECTS_DIR, f] (op_problems pg)) (\<lambda>(seconds, problems).
        bind_m (list_second h after limit f seconds (pg\<lparr>op_problems := problems\<rparr>)) (\<lambda>pg. list_first h after limit fs pg))) pg2"
      by (rule yields_bind [OF ps], simp, rule yields_bind [OF 1(1)], rule 2(1))
    with go 2(2) show ?thesis by auto
  qed
qed

section \<open>All objects, in order\<close>

text \<open>An object of the layout: a regular file under its own hash, below directories of the store.\<close>

definition canonical_object :: "medium \<Rightarrow> jstring \<Rightarrow> bool" where
  "canonical_object s x \<longleftrightarrow> isSha256 x \<and> entry_at s (Below [OBJECTS_DIR]) = Some DirAt \<and> entry_at s (Below [OBJECTS_DIR, shard1 x]) = Some DirAt \<and>
     entry_at s (Below (objectDirectory x)) = Some DirAt \<and> (\<exists>i. entry_at s (objectPath x) = Some (FileAt i))"

definition all_objects :: "medium \<Rightarrow> jstring option \<Rightarrow> jstring list" where
  "all_objects s after = concat (map (below_first s after) (second_shards s [OBJECTS_DIR]))"

lemma kind_Folder: "kind_of_entry e = Folder \<longleftrightarrow> e = DirAt" "Folder = kind_of_entry e \<longleftrightarrow> e = DirAt"
  by (cases e; simp)+

lemma second_shards_iff: "f \<in> set (second_shards s d) \<longleftrightarrow> SHARD f \<and> entry_at s (Below d) = Some DirAt \<and> entry_at s (Below (d @ [f])) = Some DirAt"
proof -
  have "f \<in> set (second_shards s d) \<longleftrightarrow> SHARD f \<and> (f, Folder) \<in> set (sorted_names s d)" by (force simp: second_shards_def)
  then show ?thesis by (auto simp: sorted_names_iff kind_Folder)
qed

lemma second_shards_strict: "sorted_wrt (<) (second_shards s d)"
  unfolding second_shards_def by (rule sorted_wrt_filter_fst [OF sorted_names_strict])

lemma sha_shards: "isSha256 x \<Longrightarrow> SHARD (shard1 x) \<and> SHARD (shard2 x)"
  by (auto simp: isSha256_def SHARD_def shard1_def shard2_def list_all_iff dest!: in_set_takeD in_set_dropD)

lemma all_objects_iff: "x \<in> set (all_objects s after) \<longleftrightarrow> canonical_object s x \<and> \<not> passed after x"
proof -
  have "x \<in> set (all_objects s after) \<longleftrightarrow> (\<exists>f g. f \<in> set (second_shards s [OBJECTS_DIR]) \<and> g \<in> set (second_shards s [OBJECTS_DIR, f]) \<and>
      x \<in> set (candidates s after f g))"
    by (auto simp: all_objects_def below_first_def)
  also have "\<dots> \<longleftrightarrow> canonical_object s x \<and> \<not> passed after x"
    using sha_shards [of x] by (auto simp: second_shards_iff candidates_member canonical_object_def objectDirectory_def)
  finally show ?thesis .
qed

lemma candidates_strict: "sorted_wrt (<) (candidates s after f g)"
  unfolding candidates_def by (rule sorted_wrt_filter_fst [OF sorted_names_strict])

lemma all_objects_strict: "sorted_wrt (<) (all_objects s after)"
  unfolding all_objects_def
proof (rule sorted_concat [OF second_shards_strict])
  fix f
  show "sorted_wrt (<) (below_first s after f)" unfolding below_first_def
    by (rule sorted_concat [OF second_shards_strict candidates_strict]) (auto simp: candidates_member intro: shard2_less)
next
  fix f f' x y
  assume "f < f'" "x \<in> set (below_first s after f)" "y \<in> set (below_first s after f')"
  then show "x < y" by (auto simp: below_first_def candidates_member intro: shard1_less)
qed

lemma objects_page:
  assumes "undisturbed h" "1 \<le> limit" "\<And>a. after = Some a \<Longrightarrow> isSha256 a" "entry_at s (Below [OBJECTS_DIR]) \<in> {None, Some DirAt}"
  shows "\<exists>pg. yields s (bind_m (blob_entryKind h (Below [OBJECTS_DIR])) (\<lambda>kind.
     if kind = Missing then return_m empty_page
     else if kind \<noteq> Folder then throw_m (unsafeEntry [OBJECTS_DIR] kind)
     else bind_m (shards h [OBJECTS_DIR] []) (\<lambda>(firsts, problems). list_first h after limit firsts (empty_page\<lparr>op_problems := problems\<rparr>)))) pg \<and>
    shows_page s limit (all_objects s after) pg"
proof -
  have empty: "shows_page s limit [] empty_page" by (simp add: shows_page_def empty_page_def)
  show ?thesis
  proof (cases "entry_at s (Below [OBJECTS_DIR])")
    case None
    then have "all_objects s after = []" by (auto simp: all_objects_def second_shards_def sorted_names_def dir_names_def)
    then show ?thesis using yields_bind [OF yields_entryKind [OF assms(1)] yields_return, of s "Below [OBJECTS_DIR]"] None empty
      by (intro exI [of _ empty_page]) (auto intro!: yields_bind [OF yields_entryKind [OF assms(1)]] yields_return)
  next
    case (Some e)
    then have dir: "entry_at s (Below [OBJECTS_DIR]) = Some DirAt" using assms(4) by simp
    obtain ps where ps: "yields s (shards h [OBJECTS_DIR] []) (second_shards s [OBJECTS_DIR], ps)" using yields_shards [OF assms(1)] by blast
    from first_page [where after = after and fs = "second_shards s [OBJECTS_DIR]", OF assms(1,2) _ assms(3), of s "[]" "empty_page\<lparr>op_problems := ps\<rparr>"] empty
    obtain pg where pg: "yields s (list_first h after limit (second_shards s [OBJECTS_DIR]) (empty_page\<lparr>op_problems := ps\<rparr>)) pg"
      "shows_page s limit (all_objects s after) pg" by (auto simp: all_objects_def)
    have "yields s (bind_m (shards h [OBJECTS_DIR] []) (\<lambda>(firsts, problems). list_first h after limit firsts (empty_page\<lparr>op_problems := problems\<rparr>))) pg"
      by (rule yields_bind [OF ps]) (simp add: pg(1))
    with pg(2) show ?thesis
      by (intro exI [of _ pg]) (auto intro!: yields_bind [OF yields_entryKind [OF assms(1)]] simp: dir)
  qed
qed

end
