(* ===== verification/Blob_Calls.thy ===== *)
theory Blob_Calls
  imports Blob_Rules
begin

text \<open>
  A triple for every system call and for every operation of the store below \<open>put\<close>.
\<close>

section \<open>Calls that only look\<close>

lemma triple_look: "(\<And>s. P s \<Longrightarrow> snd (f s) = s) \<Longrightarrow> triple P f (\<lambda>_. P) (\<lambda>_. P)"
  unfolding triple_def by (metis (mono_tags, lifting) case_prod_beta old.sum.simps snd_conv sum.case_eq_if)

lemma look_calls:
  assumes "stable h P"
  shows "triple P (sys_lstat h p) (\<lambda>_. P) (\<lambda>_. P)" "triple P (sys_fstat h fd) (\<lambda>_. P) (\<lambda>_. P)"
    "triple P (sys_touch h fd) (\<lambda>_. P) (\<lambda>_. P)" "triple P (sys_readdir h d) (\<lambda>_. P) (\<lambda>_. P)"
    "triple P (sys_read h fd) (\<lambda>_. P) (\<lambda>_. P)"
  unfolding sys_lstat_def sys_fstat_def sys_touch_def sys_readdir_def sys_read_def
  by (rule triple_sys_call [OF assms]; auto intro!: triple_look split: option.splits descriptor.splits dir_entry.splits)+

lemma entryKind_keeps:
  assumes "stable h P"
  shows "triple P (blob_entryKind h p) (\<lambda>_. P) (\<lambda>_. P)"
  unfolding blob_entryKind_def
  by (rule triple_bind [OF triple_attempt [OF look_calls(1) [OF assms]]])
    (auto intro: triple_return triple_throw split: sum.splits)

lemma check_directories_keeps:
  assumes "stable h P"
  shows "triple P (check_directories h ds) (\<lambda>_. P) (\<lambda>_. P)"
proof (induction ds)
  case (Cons d ds)
  then show ?case
    by (auto intro!: triple_bind [OF entryKind_keeps [OF assms]] triple_return triple_throw)
qed (auto intro: triple_return)

lemma checkObjectDirectories_keeps: "stable h P \<Longrightarrow> triple P (checkObjectDirectories h hash) (\<lambda>_. P) (\<lambda>_. P)"
  unfolding checkObjectDirectories_def by (rule check_directories_keeps)

section \<open>Descriptors\<close>

lemma base_new_fd:
  assumes "base h s0 R F s" "shared R" "\<And>i w. d = Descriptor i w \<Longrightarrow> i < md_next s"
  shows "F (md_nextfd s) = None \<and> base h s0 R (F(md_nextfd s \<mapsto> d)) (snd (new_fd d s))"
proof -
  have "wf_medium (snd (new_fd d s))" using assms(1,3) by (auto simp: base_def wf_medium_def new_fd_def)
  moreover have "F (md_nextfd s) = None" using assms(1) by (auto simp: base_def wf_medium_def)
  ultimately show ?thesis using base_fds [OF assms(1,2), of "snd (new_fd d s)"] assms(1) by (simp add: new_fd_def base_def)
qed

lemma base_close:
  assumes "base h s0 R F s" "shared R"
  shows "base h s0 R (F(fd := None)) (s\<lparr>md_fds := (md_fds s)(fd := None)\<rparr>)"
proof -
  have "wf_medium (s\<lparr>md_fds := (md_fds s)(fd := None)\<rparr>)" using assms(1) by (auto simp: base_def wf_medium_def split: if_splits)
  then show ?thesis using base_fds [OF assms, of "s\<lparr>md_fds := (md_fds s)(fd := None)\<rparr>"] assms(1) by (simp add: base_def)
qed

lemma close_base:
  assumes "shared R" "F(fd := None) = F'"
  shows "triple (base h s0 R F) (close_m fd) (\<lambda>_. base h s0 R F') E"
  by (rule triple_close) (use base_close [OF _ assms(1)] assms(2) in auto)

text \<open>What is known of a descriptor opened to read at \<open>p\<close> when nobody interferes.\<close>

fun opened_at :: "place \<Rightarrow> descriptor \<Rightarrow> medium \<Rightarrow> bool" where
  "opened_at p (Descriptor i w) s = (entry_at s p = Some (FileAt i))"
| "opened_at p (OddDescriptor k) s = True"

fun looks :: "descriptor \<Rightarrow> bool" where
  "looks (Descriptor i w) = (\<not> w)"
| "looks (OddDescriptor k) = (k \<noteq> Regular)"

lemma shared_opened: "shared (opened_at p d)"
  by (rule sharedI) (cases d; simp)

lemma triple_open:
  assumes "peaceful h" "frame h R"
  shows "triple (base h s0 R F) (sys_open h p)
    (\<lambda>fd s. \<exists>d. (F fd = None \<and> looks d) \<and> base h s0 (\<lambda>s. R s \<and> (alone h \<longrightarrow> opened_at p d s)) (F(fd \<mapsto> d)) s) (\<lambda>_. base h s0 R F)"
  unfolding sys_open_def
proof (rule triple_sys_call [OF base_stable [OF assms]])
  fix n
  let ?R = "\<lambda>d s. R s \<and> (alone h \<longrightarrow> opened_at p d s)"
  have new: "F (md_nextfd s) = None \<and> base h s0 (?R d) (F(md_nextfd s \<mapsto> d)) (snd (new_fd d s))"
    if "base h s0 R F s" "opened_at p d s" "\<And>i w. d = Descriptor i w \<Longrightarrow> i < md_next s" for s d
    using base_new_fd [OF _ frame_shared [OF frame_alone [OF assms(2) shared_opened]]] base_weaken [OF that(1), of "?R d"] that(2,3) by blast
  have known: "i < md_next s" if "base h s0 R F s" "entry_at s p = Some (FileAt i)" for s i
    using that by (auto simp: base_def wf_medium_def)
  show "triple (base h s0 R F) (\<lambda>s. case entry_at s p of None \<Rightarrow> (Inl ENOENT, s) | Some LinkAt \<Rightarrow> (Inl ELOOP, s)
      | Some (FileAt i) \<Rightarrow> (case new_fd (Descriptor i False) s of (fd, s) \<Rightarrow> (Inr fd, s))
      | Some e \<Rightarrow> (case new_fd (OddDescriptor (kind_of_entry e)) s of (fd, s) \<Rightarrow> (Inr fd, s)))
    (\<lambda>fd s. \<exists>d. (F fd = None \<and> looks d) \<and> base h s0 (?R d) (F(fd \<mapsto> d)) s) (\<lambda>_. base h s0 R F)"
    unfolding triple_def
  proof (intro allI impI)
    fix s
    assume b: "base h s0 R F s"
    have fresh: "(F (md_nextfd s) = None \<and> looks d) \<and> base h s0 (?R d) (F(md_nextfd s \<mapsto> d)) (snd (new_fd d s))"
      if e: "entry_at s p = Some e" and d: "d = (case e of FileAt i \<Rightarrow> Descriptor i False | _ \<Rightarrow> OddDescriptor (kind_of_entry e))" for e d
    proof -
      have "looks d" using d by (cases e) auto
      moreover have "opened_at p d s" using e d by (cases e) auto
      moreover have "i < md_next s" if "d = Descriptor i w" for i w using that d known [OF b] e by (cases e) auto
      ultimately show ?thesis using new [OF b] by blast
    qed
    show "case (case entry_at s p of None \<Rightarrow> (Inl ENOENT, s) | Some LinkAt \<Rightarrow> (Inl ELOOP, s)
      | Some (FileAt i) \<Rightarrow> (case new_fd (Descriptor i False) s of (fd, s) \<Rightarrow> (Inr fd, s))
      | Some e \<Rightarrow> (case new_fd (OddDescriptor (kind_of_entry e)) s of (fd, s) \<Rightarrow> (Inr fd, s))) of
      (Inr fd, s) \<Rightarrow> \<exists>d. (F fd = None \<and> looks d) \<and> base h s0 (?R d) (F(fd \<mapsto> d)) s | (Inl e, s) \<Rightarrow> base h s0 R F s"
    proof (cases "entry_at s p")
      case (Some e)
      note f = fresh [OF Some refl]
      show ?thesis using b f Some by (cases e) (auto simp: new_fd_def simp del: opened_at.simps looks.simps)
    qed (use b in simp)
  qed
qed simp

text \<open>A regular file opened to read: its descriptor and size, and no other descriptor in every other case.\<close>

definition opened_file :: "place \<Rightarrow> nat \<Rightarrow> nat \<Rightarrow> medium \<Rightarrow> bool" where
  "opened_file p i n s \<longleftrightarrow> entry_at s p = Some (FileAt i) \<and> n = length (md_content s i)"

lemma shared_opened_file: "shared (opened_file p i n)"
  by (rule sharedI) (simp add: opened_file_def)

lemma triple_fstat:
  assumes "peaceful h" "frame h R"
  shows "triple (base h s0 R F) (sys_fstat h fd)
    (\<lambda>st s. base h s0 R F s \<and> (\<forall>i w. F fd = Some (Descriptor i w) \<longrightarrow> st_kind st = Regular \<and> st_ino st = Some i \<and> st_size st = length (md_content s i)) \<and>
       (\<forall>k. F fd = Some (OddDescriptor k) \<longrightarrow> st_kind st = k)) (\<lambda>_. base h s0 R F)"
  unfolding sys_fstat_def
  by (rule triple_sys_call [OF base_stable [OF assms]])
    (auto simp: triple_def base_def node_stat_def odd_stat_def split: option.splits descriptor.splits)

definition readable :: "blob_host \<Rightarrow> medium \<Rightarrow> (medium \<Rightarrow> bool) \<Rightarrow> place \<Rightarrow> (nat \<Rightarrow> descriptor option) \<Rightarrow> nat \<times> nat \<Rightarrow> medium \<Rightarrow> bool" where
  "readable h s0 R p F od s \<longleftrightarrow> F (fst od) = None \<and>
     (\<exists>i. base h s0 (\<lambda>s. R s \<and> (alone h \<longrightarrow> opened_file p i (snd od) s)) (F(fst od \<mapsto> Descriptor i False)) s)"

lemma frame_opened: "frame h R \<Longrightarrow> frame h (\<lambda>s. R s \<and> (alone h \<longrightarrow> opened_at p d s))"
  by (rule frame_alone [OF _ shared_opened])

lemma close_opened:
  assumes "frame h (\<lambda>s. R s \<and> X s)" "F fd = None"
  shows "triple (base h s0 (\<lambda>s. R s \<and> X s) (F(fd \<mapsto> d))) (close_m fd) (\<lambda>_. base h s0 R F) E"
proof (rule triple_close)
  fix s
  assume "base h s0 (\<lambda>s. R s \<and> X s) (F(fd \<mapsto> d)) s"
  from base_weaken [OF base_close [OF this frame_shared [OF assms(1)], of fd], of R] assms(2)
  show "base h s0 R F (s\<lparr>md_fds := (md_fds s)(fd := None)\<rparr>)" by (simp add: fun_upd_idem)
qed

lemma triple_openRegular:
  assumes "peaceful h" "frame h R"
  shows "triple (base h s0 R F) (blob_openRegular h p)
    (\<lambda>r. case r of Inl _ \<Rightarrow> base h s0 R F | Inr od \<Rightarrow> readable h s0 R p F od) (\<lambda>_. base h s0 R F)"
  unfolding blob_openRegular_def
proof (rule triple_try [OF triple_open [OF assms]])
  fix fd
  note fr = frame_opened [OF assms(2), of p]
  show "triple (\<lambda>s. \<exists>d. (F fd = None \<and> looks d) \<and> base h s0 (\<lambda>s. R s \<and> (alone h \<longrightarrow> opened_at p d s)) (F(fd \<mapsto> d)) s)
     (case Inr fd of Inl e \<Rightarrow>
         if e = ELOOP \<or> e = EMLINK then return_m (Inl Symlink)
         else if e = ENOENT \<or> e = ENOTDIR then return_m (Inl Missing)
         else throw_m (Operational e)
     | Inr fd \<Rightarrow> bind_m (attempt_m (sys_fstat h fd)) (\<lambda>r.
         case r of
           Inl e \<Rightarrow> bind_m (close_m fd) (\<lambda>_. throw_m (Operational e))
         | Inr st \<Rightarrow>
             if st_kind st \<noteq> Regular then bind_m (close_m fd) (\<lambda>_. return_m (Inl (st_kind st)))
             else return_m (Inr (fd, st_size st))))
     (\<lambda>r. case r of Inl _ \<Rightarrow> base h s0 R F | Inr od \<Rightarrow> readable h s0 R p F od) (\<lambda>_. base h s0 R F)"
    unfolding sum.case
  proof (intro triple_ex triple_fact triple_try [OF triple_fstat [OF assms(1) fr]])
    fix d e
    assume none: "F fd = None \<and> looks d"
    show "triple (base h s0 (\<lambda>s. R s \<and> (alone h \<longrightarrow> opened_at p d s)) (F(fd \<mapsto> d)))
      (case Inl e of Inl e \<Rightarrow> bind_m (close_m fd) (\<lambda>_. throw_m (Operational e))
         | Inr st \<Rightarrow> if st_kind st \<noteq> Regular then bind_m (close_m fd) (\<lambda>_. return_m (Inl (st_kind st))) else return_m (Inr (fd, st_size st)))
      (\<lambda>r. case r of Inl _ \<Rightarrow> base h s0 R F | Inr od \<Rightarrow> readable h s0 R p F od) (\<lambda>_. base h s0 R F)"
      unfolding sum.case using none by (intro triple_bind [OF close_opened [OF fr]] triple_throw) auto
  next
    fix d st
    assume none: "F fd = None \<and> looks d"
    let ?P = "\<lambda>s. base h s0 (\<lambda>s. R s \<and> (alone h \<longrightarrow> opened_at p d s)) (F(fd \<mapsto> d)) s \<and>
        (\<forall>i w. (F(fd \<mapsto> d)) fd = Some (Descriptor i w) \<longrightarrow> st_kind st = Regular \<and> st_ino st = Some i \<and> st_size st = length (md_content s i)) \<and>
        (\<forall>k. (F(fd \<mapsto> d)) fd = Some (OddDescriptor k) \<longrightarrow> st_kind st = k)"
    have "readable h s0 R p F (fd, st_size st) s" if "?P s" "st_kind st = Regular" for s
      using that none by (cases d) (auto simp: readable_def opened_file_def base_def)
    then show "triple ?P (case Inr st of Inl e \<Rightarrow> bind_m (close_m fd) (\<lambda>_. throw_m (Operational e))
         | Inr st \<Rightarrow> if st_kind st \<noteq> Regular then bind_m (close_m fd) (\<lambda>_. return_m (Inl (st_kind st))) else return_m (Inr (fd, st_size st)))
      (\<lambda>r. case r of Inl _ \<Rightarrow> base h s0 R F | Inr od \<Rightarrow> readable h s0 R p F od) (\<lambda>_. base h s0 R F)"
      unfolding sum.case using none
      by (intro triple_if triple_bind [OF triple_pre [OF close_opened [OF fr]]] triple_return) auto
  qed
qed (auto intro!: triple_if triple_return triple_throw)

section \<open>Objects\<close>

lemma openObject_triple:
  assumes "peaceful h" "frame h R"
  shows "triple (base h s0 R F) (openObject h hash) (readable h s0 R (objectPath hash) F) (\<lambda>_. base h s0 R F)"
proof -
  note st = base_stable [OF assms]
  show ?thesis unfolding openObject_def
    by (intro triple_bind [OF checkObjectDirectories_keeps [OF st]] triple_bind [OF entryKind_keeps [OF st]] triple_if triple_refuse
        triple_bind [OF triple_openRegular [OF assms]])
      (auto intro: triple_return triple_refuse split: sum.splits entry_kind.splits)
qed

text \<open>What was read, when nobody interferes, is the file of the descriptor.\<close>

definition read_whole :: "bytes list \<times> io_error option \<Rightarrow> descriptor option \<Rightarrow> medium \<Rightarrow> bool" where
  "read_whole r d s \<longleftrightarrow> (\<forall>i w. snd r = None \<and> d = Some (Descriptor i w) \<longrightarrow> concat (fst r) = md_content s i)"

lemma shared_read_whole: "shared (read_whole r d)"
  by (rule sharedI) (simp add: read_whole_def)

lemma triple_read:
  assumes "peaceful h" "frame h R"
  shows "triple (base h s0 R F) (sys_read h fd) (\<lambda>r. base h s0 (\<lambda>s. R s \<and> (alone h \<longrightarrow> read_whole r (F fd) s)) F) (\<lambda>_. base h s0 R F)"
  unfolding sys_read_def
proof (rule triple_sys_call [OF base_stable [OF assms]])
  fix n
  have "read_whole (bh_chunks h n (md_content s i)) (F fd) s" if "alone h" "F fd = Some (Descriptor i w)" for s i w
    using that by (cases "bh_chunks h n (md_content s i)") (auto simp: read_whole_def alone_def)
  then show "triple (base h s0 R F) (\<lambda>s. case md_fds s fd of Some (Descriptor i _) \<Rightarrow> (Inr (bh_chunks h n (md_content s i)), s) | _ \<Rightarrow> (Inl EBADF, s))
      (\<lambda>r. base h s0 (\<lambda>s. R s \<and> (alone h \<longrightarrow> read_whole r (F fd) s)) F) (\<lambda>_. base h s0 R F)"
    by (auto simp: triple_def base_def split: option.splits descriptor.splits)
qed simp

definition digest_of :: "blob_host \<Rightarrow> jstring \<Rightarrow> nat \<Rightarrow> medium \<Rightarrow> bool" where
  "digest_of h a i s \<longleftrightarrow> a = bh_sha256 h (md_content s i)"

lemma shared_digest: "shared (digest_of h a i)"
  by (rule sharedI) (simp add: digest_of_def)

lemma sha256Fd_triple:
  assumes "peaceful h" "frame h R" "F fd = None"
  shows "triple (base h s0 R (F(fd \<mapsto> Descriptor i w))) (blob_sha256Fd h fd)
    (\<lambda>a. base h s0 (\<lambda>s. R s \<and> (alone h \<longrightarrow> digest_of h a i s)) F) (\<lambda>_. base h s0 R F)"
  unfolding blob_sha256Fd_def
proof (rule triple_try [OF triple_read [OF assms(1,2)]])
  fix r :: "bytes list \<times> io_error option"
  let ?R = "\<lambda>s. R s \<and> (alone h \<longrightarrow> read_whole r (Some (Descriptor i w)) s)"
  obtain c e where r: "r = (c, e)" by fastforce
  have fr: "frame h ?R" by (rule frame_alone [OF assms(2) shared_read_whole])
  have close: "triple (base h s0 ?R (F(fd \<mapsto> Descriptor i w))) (close_m fd) (\<lambda>_. base h s0 ?R F) (\<lambda>_. base h s0 R F)"
    by (rule close_base [OF frame_shared [OF fr]]) (simp add: assms(3) fun_upd_idem)
  show "triple (base h s0 (\<lambda>s. R s \<and> (alone h \<longrightarrow> read_whole r ((F(fd \<mapsto> Descriptor i w)) fd) s)) (F(fd \<mapsto> Descriptor i w)))
     (bind_m (close_m fd) (\<lambda>_. case Inr r of Inl e \<Rightarrow> throw_m (Operational e) | Inr (_, Some e) \<Rightarrow> throw_m (Operational e)
        | Inr (chunks, None) \<Rightarrow> return_m (bh_sha256 h (concat chunks))))
     (\<lambda>a. base h s0 (\<lambda>s. R s \<and> (alone h \<longrightarrow> digest_of h a i s)) F) (\<lambda>_. base h s0 R F)"
    unfolding fun_upd_same
    by (rule triple_bind [OF close])
      (auto simp: r base_def read_whole_def digest_of_def intro!: triple_return triple_throw split: option.splits)
qed (use assms(3) in \<open>auto intro!: triple_bind [OF close_base [OF frame_shared [OF assms(2)], of "F(fd \<mapsto> Descriptor i w)" fd F]] triple_throw simp: fun_upd_idem\<close>)

definition has_object :: "blob_host \<Rightarrow> jstring \<Rightarrow> nat \<Rightarrow> medium \<Rightarrow> bool" where
  "has_object h hash n s \<longleftrightarrow>
     (\<exists>i. entry_at s (objectPath hash) = Some (FileAt i) \<and> length (md_content s i) = n \<and> bh_sha256 h (md_content s i) = hash)"

lemma shared_has_object: "shared (has_object h hash n)"
  by (rule sharedI) (simp add: has_object_def)

abbreviation with_object :: "blob_host \<Rightarrow> (medium \<Rightarrow> bool) \<Rightarrow> jstring \<Rightarrow> nat \<Rightarrow> medium \<Rightarrow> bool" where
  "with_object h R hash n \<equiv> \<lambda>s. R s \<and> (alone h \<longrightarrow> has_object h hash n s)"

lemma existing_triple:
  assumes "peaceful h" "frame h R"
  shows "triple (base h s0 R F) (existing h hash n)
    (\<lambda>r. case r of None \<Rightarrow> base h s0 R F | Some d \<Rightarrow> \<lambda>s. d = blob_described hash n \<and> base h s0 (with_object h R hash n) F s) (\<lambda>_. base h s0 R F)"
proof -
  note st = base_stable [OF assms]
  have opened: "triple (readable h s0 R (objectPath hash) F (fd, m))
     (if m \<noteq> n then bind_m (close_m fd) (\<lambda>_. refuse BLOB_SIZE_MISMATCH msg hash)
      else bind_m (blob_sha256Fd h fd) (\<lambda>actual.
         if actual \<noteq> hash then refuse BLOB_HASH_MISMATCH (js ''object hashes to '' @ actual) hash else return_m (Some (blob_described hash n))))
    (\<lambda>r. case r of None \<Rightarrow> base h s0 R F | Some d \<Rightarrow> \<lambda>s. d = blob_described hash n \<and> base h s0 (with_object h R hash n) F s)
    (\<lambda>_. base h s0 R F)" for fd m msg
    unfolding readable_def fst_conv snd_conv
  proof (intro triple_fact triple_ex)
    fix i
    assume none: "F fd = None"
    let ?R = "\<lambda>s. R s \<and> (alone h \<longrightarrow> opened_file (objectPath hash) i m s)"
    have fr: "frame h ?R" by (rule frame_alone [OF assms(2) shared_opened_file])
    have close: "triple (base h s0 ?R (F(fd \<mapsto> Descriptor i False))) (close_m fd) (\<lambda>_. base h s0 R F) (\<lambda>_. base h s0 R F)"
      by (rule close_opened [OF fr]) (rule none)
    have sha: "triple (base h s0 ?R (F(fd \<mapsto> Descriptor i False))) (blob_sha256Fd h fd)
        (\<lambda>a. base h s0 (\<lambda>s. ?R s \<and> (alone h \<longrightarrow> digest_of h a i s)) F) (\<lambda>_. base h s0 R F)"
      by (rule triple_weaken [OF sha256Fd_triple [of h ?R F fd, OF assms(1) fr none]]) (auto simp: base_def)
    show "triple (base h s0 ?R (F(fd \<mapsto> Descriptor i False)))
     (if m \<noteq> n then bind_m (close_m fd) (\<lambda>_. refuse BLOB_SIZE_MISMATCH msg hash)
      else bind_m (blob_sha256Fd h fd) (\<lambda>actual.
         if actual \<noteq> hash then refuse BLOB_HASH_MISMATCH (js ''object hashes to '' @ actual) hash else return_m (Some (blob_described hash n))))
    (\<lambda>r. case r of None \<Rightarrow> base h s0 R F | Some d \<Rightarrow> \<lambda>s. d = blob_described hash n \<and> base h s0 (with_object h R hash n) F s)
    (\<lambda>_. base h s0 R F)"
      by (intro triple_if triple_bind [OF close] triple_refuse triple_bind [OF sha] triple_return)
        (auto simp: base_def digest_of_def opened_file_def has_object_def)
  qed
  show ?thesis unfolding existing_def
    by (intro triple_bind [OF checkObjectDirectories_keeps [OF st]] triple_bind [OF entryKind_keeps [OF st]] triple_if triple_return
        triple_bind [OF openObject_triple [OF assms]])
      (simp_all only: split_paired_all prod.case option.case opened)
qed

end
