(* ===== verification/Blob_Put.thy ===== *)
theory Blob_Put
  imports Blob_Calls
begin

text \<open>
  \<open>put\<close> under interference: what it does to the medium is a sequence of store steps, and it gives back every
  descriptor it opened.
\<close>

abbreviation plain :: "blob_host \<Rightarrow> medium \<Rightarrow> (nat \<Rightarrow> descriptor option) \<Rightarrow> medium \<Rightarrow> bool" where
  "plain h s0 F \<equiv> base h s0 (\<lambda>_. True) F"

lemma plain_stable: "peaceful h \<Longrightarrow> stable h (plain h s0 F)"
  by (rule base_stable) simp_all

section \<open>Directories and entries\<close>

lemma mkdir_keeps:
  assumes "peaceful h"
  shows "triple (plain h s0 F) (sys_mkdir h (Below d)) (\<lambda>_. plain h s0 F) (\<lambda>_. plain h s0 F)"
  unfolding sys_mkdir_def
proof (rule triple_sys_call [OF plain_stable [OF assms]])
  have "plain h s0 F (set_entry (Below d) DirAt s)" if "plain h s0 F s" "entry_at s (Below d) = None" for s
    by (rule base_change [OF that(1) mkdir_step [OF that(2)]]) simp_all
  then show "triple (plain h s0 F) (\<lambda>s. case entry_at s (Below d) of None \<Rightarrow> (Inr (), set_entry (Below d) DirAt s)
      | Some DirAt \<Rightarrow> (Inr (), s) | Some _ \<Rightarrow> (Inl EEXIST, s)) (\<lambda>_. plain h s0 F) (\<lambda>_. plain h s0 F)" for n
    by (auto simp: triple_def split: option.splits dir_entry.splits)
qed simp

lemma ensureDirectory_keeps:
  assumes "peaceful h"
  shows "triple (plain h s0 F) (ensureDirectory h d) (\<lambda>_. plain h s0 F) (\<lambda>_. plain h s0 F)"
  unfolding ensureDirectory_def using plain_stable [OF assms]
  by (intro triple_bind [OF entryKind_keeps] triple_if triple_throw triple_return triple_bind [OF triple_io [OF mkdir_keeps [OF assms]]]
      triple_bind [OF triple_io [OF look_calls(1)]])

lemma ensure_directories_keeps:
  assumes "peaceful h"
  shows "triple (plain h s0 F) (ensure_directories h hash) (\<lambda>_. plain h s0 F) (\<lambda>_. plain h s0 F)"
  unfolding ensure_directories_def by (intro triple_bind [OF ensureDirectory_keeps [OF assms]] ensureDirectory_keeps [OF assms])

text \<open>Removing the entry at \<open>p\<close> keeps every fact that does not rest on it.\<close>

lemma unlink_triple:
  assumes "peaceful h" "frame h R" "p = temporaryPath n \<or> p = objectPath hash" and "\<And>s. R s \<Longrightarrow> R' (drop_entry p s)"
  shows "triple (base h s0 R F) (sys_unlink h p) (\<lambda>_. base h s0 R' F) (\<lambda>_. base h s0 R F)"
  unfolding sys_unlink_def
proof (rule triple_sys_call [OF base_stable [OF assms(1,2)]])
  have "base h s0 R' F (drop_entry p s)" if "base h s0 R F s" for s
    by (rule base_change [OF that remove_step [OF assms(3)]]) (use that assms(4) in \<open>simp_all add: base_def\<close>)
  then show "triple (base h s0 R F) (\<lambda>s. case entry_at s p of None \<Rightarrow> (Inl ENOENT, s) | Some DirAt \<Rightarrow> (Inl EPERM, s)
      | Some _ \<Rightarrow> (Inr (), drop_entry p s)) (\<lambda>_. base h s0 R' F) (\<lambda>_. base h s0 R F)" for n
    by (auto simp: triple_def split: option.splits dir_entry.splits)
qed simp

lemma removeQuietly_triple:
  assumes "peaceful h" "frame h R" "\<And>s. R s \<Longrightarrow> R (drop_entry (temporaryPath n) s)"
  shows "triple (base h s0 R F) (removeQuietly h (temporaryPath n)) (\<lambda>_. base h s0 R F) (\<lambda>_. base h s0 R F)"
  unfolding removeQuietly_def
  by (rule triple_try [OF unlink_triple [where R = R and R' = R and n = n, OF assms(1,2)]])
    (auto intro: assms(3) triple_return triple_throw)

lemma syncDirectory_keeps:
  assumes "peaceful h" "frame h R"
  shows "triple (base h s0 R F) (syncDirectory h d) (\<lambda>_. base h s0 R F) (\<lambda>_. base h s0 R F)"
  unfolding syncDirectory_def
proof (intro triple_if triple_return triple_try [OF triple_open [OF assms]])
  fix fd
  show "triple (\<lambda>s. \<exists>d'. (F fd = None \<and> looks d') \<and> base h s0 (\<lambda>s. R s \<and> (alone h \<longrightarrow> opened_at (Below d) d' s)) (F(fd \<mapsto> d')) s)
    (case Inr fd of Inl _ \<Rightarrow> return_m () | Inr fd \<Rightarrow> bind_m (attempt_m (sys_touch h fd)) (\<lambda>(_ :: io_error + unit). close_m fd))
    (\<lambda>_. base h s0 R F) (\<lambda>_. base h s0 R F)"
    unfolding sum.case
  proof (intro triple_ex triple_fact)
    fix d'
    assume none: "F fd = None \<and> looks d'"
    note fr = frame_opened [OF assms(2), of "Below d" d']
    show "triple (base h s0 (\<lambda>s. R s \<and> (alone h \<longrightarrow> opened_at (Below d) d' s)) (F(fd \<mapsto> d')))
      (bind_m (attempt_m (sys_touch h fd)) (\<lambda>(_ :: io_error + unit). close_m fd)) (\<lambda>_. base h s0 R F) (\<lambda>_. base h s0 R F)"
      using none by (intro triple_try [OF look_calls(3) [OF base_stable [OF assms(1) fr]]] close_opened [OF fr]) simp_all
  qed
qed (auto intro: triple_return)

section \<open>The temporary file\<close>

lemma create_triple:
  assumes "peaceful h"
  shows "triple (plain h s0 F) (sys_create h (temporaryPath n))
    (\<lambda>fd s. F fd = None \<and> (\<exists>i. writing h s0 n i [] (F(fd \<mapsto> Descriptor i True)) s)) (\<lambda>_. plain h s0 F)"
  unfolding sys_create_def
proof (rule triple_sys_call [OF plain_stable [OF assms]])
  have new: "F (md_nextfd s) = None \<and> writing h s0 n (md_next s) [] (F(md_nextfd s \<mapsto> Descriptor (md_next s) True)) (snd (new_fd (Descriptor (md_next s) True) s'))"
    if b: "plain h s0 F s" and free: "entry_at s (temporaryPath n) = None"
      and s': "s' = set_entry (temporaryPath n) (FileAt (md_next s)) (s\<lparr>md_next := md_next s + 1, md_content := (md_content s)(md_next s := [])\<rparr>)" for s s'
  proof -
    have "plain h s0 F s'"
      by (rule base_change [OF b create_step [OF free, of "md_next s"]]) (simp_all add: s')
    moreover have "md_next s < md_next s'" "md_nextfd s' = md_nextfd s" by (simp_all add: s')
    ultimately have "F (md_nextfd s) = None \<and> plain h s0 (F(md_nextfd s \<mapsto> Descriptor (md_next s) True)) (snd (new_fd (Descriptor (md_next s) True) s'))"
      using base_new_fd [of h s0 "\<lambda>_. True" F s' "Descriptor (md_next s) True"] by (simp add: shared_def)
    moreover have "\<not> published s' (md_next s)"
    proof
      assume "published s' (md_next s)"
      then obtain hash where "entry_at s (objectPath hash) = Some (FileAt (md_next s))" by (auto simp: published_def s')
      with b show False unfolding base_def wf_medium_def by blast
    qed
    ultimately show ?thesis by (auto simp: writing_def new_fd_def s' published_def intro: exI [of _ "md_nextfd s"])
  qed
  show "triple (plain h s0 F) (\<lambda>s. case entry_at s (temporaryPath n) of Some _ \<Rightarrow> (Inl EEXIST, s)
     | None \<Rightarrow> let i = md_next s; s = set_entry (temporaryPath n) (FileAt i) (s\<lparr>md_next := i + 1, md_content := (md_content s)(i := [])\<rparr>)
         in case new_fd (Descriptor i True) s of (fd, s) \<Rightarrow> (Inr fd, s))
    (\<lambda>fd s. F fd = None \<and> (\<exists>i. writing h s0 n i [] (F(fd \<mapsto> Descriptor i True)) s)) (\<lambda>_. plain h s0 F)" for k
    unfolding triple_def
  proof (intro allI impI)
    fix s
    assume b: "plain h s0 F s"
    show "case (case entry_at s (temporaryPath n) of Some _ \<Rightarrow> (Inl EEXIST, s)
     | None \<Rightarrow> let i = md_next s; s = set_entry (temporaryPath n) (FileAt i) (s\<lparr>md_next := i + 1, md_content := (md_content s)(i := [])\<rparr>)
         in case new_fd (Descriptor i True) s of (fd, s) \<Rightarrow> (Inr fd, s)) of
      (Inr fd, s) \<Rightarrow> F fd = None \<and> (\<exists>i. writing h s0 n i [] (F(fd \<mapsto> Descriptor i True)) s) | (Inl e, s) \<Rightarrow> plain h s0 F s"
    proof (cases "entry_at s (temporaryPath n)")
      case None
      from new [OF b None refl] None show ?thesis by (auto simp: Let_def new_fd_def)
    qed (use b in simp)
  qed
qed simp

lemma writing_plain: "writing h s0 n i b F s \<Longrightarrow> plain h s0 F s"
  by (simp add: writing_def)

lemma write_triple:
  assumes "peaceful h" "F fd = Some (Descriptor i True)"
  shows "triple (writing h s0 n i b F) (sys_write h fd bs) (\<lambda>k. writing h s0 n i (b @ take k bs) F) (\<lambda>_. plain h s0 F)"
  unfolding sys_write_def
proof (rule triple_sys_call [OF writing_stable [OF assms(1)]])
  fix m
  have "writing h s0 n i (b @ c) F (s\<lparr>md_content := (md_content s)(i := b @ c)\<rparr>)" if w: "writing h s0 n i b F s" for s c
  proof -
    have "plain h s0 F (s\<lparr>md_content := (md_content s)(i := b @ c)\<rparr>)"
      by (rule base_change [OF writing_plain [OF w] write_step [of s i _ "b @ c"]]) (use w in \<open>simp_all add: writing_def\<close>)
    with w show ?thesis by (simp add: writing_def published_def)
  qed
  then show "triple (writing h s0 n i b F) (\<lambda>s. case md_fds s fd of
       Some (Descriptor i True) \<Rightarrow> let k = min (length bs) (bh_taken h m + 1) in (Inr k, s\<lparr>md_content := (md_content s)(i := md_content s i @ take k bs)\<rparr>)
     | _ \<Rightarrow> (Inl EBADF, s)) (\<lambda>k. writing h s0 n i (b @ take k bs) F) (\<lambda>_. plain h s0 F)"
    using assms(2) unfolding triple_def by (auto simp: Let_def writing_def base_def)
qed (rule writing_plain)

lemma write_all_triple:
  assumes "peaceful h" "F fd = Some (Descriptor i True)"
  shows "triple (writing h s0 n i b F) (write_all h fd bs) (\<lambda>_. writing h s0 n i (b @ bs) F) (\<lambda>_. plain h s0 F)"
proof (induction "length bs" arbitrary: bs b rule: less_induct)
  case less
  show ?case unfolding triple_def
  proof (intro allI impI)
    fix s
    assume w: "writing h s0 n i b F s"
    show "case write_all h fd bs s of (Inr a, s') \<Rightarrow> writing h s0 n i (b @ bs) F s' | (Inl e, s') \<Rightarrow> plain h s0 F s'"
    proof (cases "bs = []")
      case True
      then show ?thesis using w by (simp add: write_all.simps)
    next
      case False
      obtain r s' where r: "sys_write h fd bs s = (r, s')" by fastforce
      show ?thesis
      proof (cases r)
        case (Inl e)
        then show ?thesis using tripleD [OF write_triple [where F = F, OF assms] w r] False r by (simp add: write_all.simps [of h fd bs])
      next
        case (Inr k)
        then have "writing h s0 n i (b @ take k bs) F s'" using tripleD [OF write_triple [where F = F, OF assms] w r] by simp
        moreover have "length (drop k bs) < length bs" using sys_write_takes [of h fd bs s k s'] r Inr False by simp
        ultimately show ?thesis using less [of "drop k bs" "b @ take k bs"] False r Inr
          by (simp add: triple_def write_all.simps [of h fd bs])
      qed
    qed
  qed
qed

lemma copy_chunks_triple:
  assumes "peaceful h" "F fd = Some (Descriptor i True)"
  shows "triple (writing h s0 n i b F) (copy_chunks h fd m hash chunks b) (\<lambda>c. writing h s0 n i c F) (\<lambda>_. plain h s0 F)"
proof (induction chunks arbitrary: b)
  case Nil
  then show ?case by (simp add: triple_return)
next
  case (Cons c cs)
  show ?case unfolding copy_chunks.simps
    by (intro triple_if triple_refuse triple_bind [OF write_all_triple [where F = F, OF assms]] Cons) (rule writing_plain)
qed

text \<open>What was copied is in the file, and its length and digest are those returned.\<close>

lemma writing_close:
  assumes "writing h s0 n i b (F(fd \<mapsto> d)) s" "F fd = None" "\<exists>fd'. F fd' = Some (Descriptor i True)"
  shows "writing h s0 n i b F (s\<lparr>md_fds := (md_fds s)(fd := None)\<rparr>)"
  using base_close [of h s0 "\<lambda>_. True" "F(fd \<mapsto> d)" s fd] assms by (simp add: writing_def published_def shared_def fun_upd_idem)

lemma copyAndHash_triple:
  assumes "peaceful h" "F fd = Some (Descriptor i True)" "F src = None"
  shows "triple (writing h s0 n i [] (F(src \<mapsto> d))) (copyAndHash h src fd m hash)
    (\<lambda>r s. \<exists>c. r = (bh_sha256 h c, length c) \<and> writing h s0 n i c F s) (\<lambda>_. plain h s0 F)"
proof -
  have fd: "(F(src \<mapsto> d)) fd = Some (Descriptor i True)" using assms(2,3) by (auto simp: fun_upd_def)
  have open_fd: "\<exists>fd'. F fd' = Some (Descriptor i True)" using assms(2) by blast
  note copy = copy_chunks_triple [where F = "F(src \<mapsto> d)" and fd = fd, OF assms(1) fd]
  have inner: "triple (writing h s0 n i [] (F(src \<mapsto> d)))
     (bind_m (io (sys_read h src)) (\<lambda>(chunks, failure).
       bind_m (copy_chunks h fd m hash chunks []) (\<lambda>copied.
       case failure of Some e \<Rightarrow> throw_m (Operational e) | None \<Rightarrow> return_m copied)))
     (\<lambda>c. writing h s0 n i c (F(src \<mapsto> d))) (\<lambda>_. plain h s0 (F(src \<mapsto> d)))"
  proof (rule triple_bind [OF triple_io [OF look_calls(5) [OF writing_stable [OF assms(1)]]]])
    fix r :: "bytes list \<times> io_error option"
    show "triple (writing h s0 n i [] (F(src \<mapsto> d))) (case r of (chunks, failure) \<Rightarrow>
       bind_m (copy_chunks h fd m hash chunks []) (\<lambda>copied. case failure of Some e \<Rightarrow> throw_m (Operational e) | None \<Rightarrow> return_m copied))
       (\<lambda>c. writing h s0 n i c (F(src \<mapsto> d))) (\<lambda>_. plain h s0 (F(src \<mapsto> d)))"
      by (cases r) (auto intro!: triple_bind [OF copy] triple_throw triple_return writing_plain split: option.splits)
  qed (rule writing_plain)
  show ?thesis unfolding copyAndHash_def
  proof (rule triple_try [OF inner])
    fix e
    show "triple (plain h s0 (F(src \<mapsto> d))) (bind_m (close_m src) (\<lambda>_. case Inl e of Inl e \<Rightarrow> throw_m e | Inr copied \<Rightarrow> return_m (bh_sha256 h copied, length copied)))
      (\<lambda>r s. \<exists>c. r = (bh_sha256 h c, length c) \<and> writing h s0 n i c F s) (\<lambda>_. plain h s0 F)"
      unfolding sum.case using assms(3) by (intro triple_bind [OF close_base [where F' = F]] triple_throw) (simp_all add: shared_def fun_upd_idem)
  next
    fix c
    show "triple (writing h s0 n i c (F(src \<mapsto> d))) (bind_m (close_m src) (\<lambda>_. case Inr c of Inl e \<Rightarrow> throw_m e | Inr copied \<Rightarrow> return_m (bh_sha256 h copied, length copied)))
      (\<lambda>r s. \<exists>c. r = (bh_sha256 h c, length c) \<and> writing h s0 n i c F s) (\<lambda>_. plain h s0 F)"
      unfolding sum.case
      by (rule triple_bind [OF triple_close [where Q = "\<lambda>_. writing h s0 n i c F"]])
        (use writing_close [OF _ assms(3) open_fd] in \<open>auto intro: triple_return\<close>)
  qed
qed

lemma link_triple:
  assumes "peaceful h" "isSha256 hash" "bh_sha256 h c = hash"
  shows "triple (writing h s0 n i c F) (sys_link h (temporaryPath n) (objectPath hash))
    (\<lambda>_. base h s0 (with_object h (\<lambda>_. True) hash (length c)) F) (\<lambda>_. plain h s0 F)"
  unfolding sys_link_def
proof (rule triple_sys_call [OF writing_stable [OF assms(1)]])
  have "base h s0 (with_object h (\<lambda>_. True) hash (length c)) F (set_entry (objectPath hash) (FileAt i) s)"
    if w: "writing h s0 n i c F s" and free: "entry_at s (objectPath hash) = None" for s
    by (rule base_change [OF writing_plain [OF w] publish_step [OF assms(2) _ free, of n i]])
      (use w assms(3) in \<open>auto simp: writing_def has_object_def\<close>)
  then show "triple (writing h s0 n i c F) (\<lambda>s. case entry_at s (temporaryPath n) of None \<Rightarrow> (Inl ENOENT, s) | Some DirAt \<Rightarrow> (Inl EPERM, s)
     | Some e \<Rightarrow> (case entry_at s (objectPath hash) of Some _ \<Rightarrow> (Inl EEXIST, s) | None \<Rightarrow> (Inr (), set_entry (objectPath hash) e s)))
     (\<lambda>_. base h s0 (with_object h (\<lambda>_. True) hash (length c)) F) (\<lambda>_. plain h s0 F)" for k
    unfolding triple_def by (auto simp: writing_def split: option.splits)
qed (rule writing_plain)

section \<open>Publishing\<close>

definition linked :: "blob_host \<Rightarrow> medium \<Rightarrow> jstring \<Rightarrow> nat \<Rightarrow> (nat \<Rightarrow> descriptor option) \<Rightarrow> blob_stat option \<Rightarrow> medium \<Rightarrow> bool" where
  "linked h s0 hash m F r = (case r of None \<Rightarrow> plain h s0 F | Some _ \<Rightarrow> base h s0 (with_object h (\<lambda>_. True) hash m) F)"

lemma fill_and_link_triple:
  assumes "peaceful h" "isSha256 hash" "F fd = Some (Descriptor i True)" "F src = None"
  shows "triple (writing h s0 n i [] (F(src \<mapsto> d))) (fill_and_link h src fd (temporaryPath n) hash m) (linked h s0 hash m F) (\<lambda>_. plain h s0 F)"
  unfolding fill_and_link_def
proof (rule triple_bind [OF copyAndHash_triple [where F = F and fd = fd and src = src, OF assms(1,3,4)]])
  fix r :: "jstring \<times> nat"
  obtain dg k where r: "r = (dg, k)" by fastforce
  note st = writing_stable [OF assms(1)]
  show "triple (\<lambda>s. \<exists>c. r = (bh_sha256 h c, length c) \<and> writing h s0 n i c F s) (case r of (digest, k) \<Rightarrow>
     if k \<noteq> m
     then refuse SOURCE_SIZE_MISMATCH (js ''declared '' @ show_nat m @ js '' bytes, source has '' @ show_nat k) hash
     else if digest \<noteq> hash
     then refuse SOURCE_HASH_MISMATCH (js ''declared '' @ hash @ js '', source hashes to '' @ digest) hash
     else
       bind_m (io (sys_touch h fd)) (\<lambda>_.
       bind_m (if bh_posix h then io (sys_touch h fd) else return_m ()) (\<lambda>_.
       bind_m (io (sys_fstat h fd)) (\<lambda>verified.
       bind_m (attempt_m (sys_link h (temporaryPath n) (objectPath hash))) (\<lambda>r.
       case r of
         Inl e \<Rightarrow> if e \<noteq> EEXIST then throw_m (Operational e) else return_m None
       | Inr _ \<Rightarrow> return_m (Some verified))))))
     (linked h s0 hash m F) (\<lambda>_. plain h s0 F)"
    unfolding r prod.case
  proof (intro triple_ex triple_fact triple_if triple_refuse)
    fix c
    assume c: "(dg, k) = (bh_sha256 h c, length c)" "\<not> k \<noteq> m" "\<not> dg \<noteq> hash"
    then have hash: "bh_sha256 h c = hash" "length c = m" by auto
    show "triple (writing h s0 n i c F)
      (bind_m (io (sys_touch h fd)) (\<lambda>_. bind_m (if bh_posix h then io (sys_touch h fd) else return_m ()) (\<lambda>_.
       bind_m (io (sys_fstat h fd)) (\<lambda>verified. bind_m (attempt_m (sys_link h (temporaryPath n) (objectPath hash))) (\<lambda>r.
       case r of Inl e \<Rightarrow> if e \<noteq> EEXIST then throw_m (Operational e) else return_m None | Inr _ \<Rightarrow> return_m (Some verified))))))
      (linked h s0 hash m F) (\<lambda>_. plain h s0 F)"
      by (intro triple_bind [OF triple_io [OF look_calls(3) [OF st]]] triple_bind [OF triple_if [where P = "writing h s0 n i c F" and Q = "\<lambda>_. writing h s0 n i c F"]]
          triple_io [OF look_calls(3) [OF st]] triple_return triple_bind [OF triple_io [OF look_calls(2) [OF st]]] triple_try [OF link_triple [OF assms(1,2) hash(1)]] writing_plain)
        (auto simp: linked_def hash(2) intro!: triple_if triple_return triple_throw)
  qed (auto intro: writing_plain)
qed

lemma confirmPublished_keeps:
  assumes "peaceful h" "frame h R"
  shows "triple (base h s0 R F) (confirmPublished h hash v m) (\<lambda>_. base h s0 R F) (\<lambda>_. base h s0 R F)"
  unfolding confirmPublished_def
proof (rule triple_bind [OF triple_openRegular [OF assms]])
  fix r :: "entry_kind + nat \<times> nat"
  have got: "triple (readable h s0 R (objectPath hash) F (fd, k)) (bind_m (attempt_m (sys_fstat h fd)) (\<lambda>r. bind_m (close_m fd) (\<lambda>_.
         case r of Inl e \<Rightarrow> throw_m (Operational e)
         | Inr st \<Rightarrow> if st_ino st \<noteq> st_ino v \<or> st_size st \<noteq> m then refuse PUBLISH_MISMATCH (js ''published entry is not the verified file'') hash
             else return_m ()))) (\<lambda>_. base h s0 R F) (\<lambda>_. base h s0 R F)" for fd k
    unfolding readable_def fst_conv snd_conv
  proof (intro triple_fact triple_ex)
    fix i
    assume none: "F fd = None"
    note fr = frame_alone [OF assms(2) shared_opened_file [of "objectPath hash" i k]]
    note close = close_opened [OF fr, of F fd s0 "Descriptor i False"]
    show "triple (base h s0 (\<lambda>s. R s \<and> (alone h \<longrightarrow> opened_file (objectPath hash) i k s)) (F(fd \<mapsto> Descriptor i False)))
       (bind_m (attempt_m (sys_fstat h fd)) (\<lambda>r. bind_m (close_m fd) (\<lambda>_.
         case r of Inl e \<Rightarrow> throw_m (Operational e)
         | Inr st \<Rightarrow> if st_ino st \<noteq> st_ino v \<or> st_size st \<noteq> m then refuse PUBLISH_MISMATCH (js ''published entry is not the verified file'') hash
             else return_m ()))) (\<lambda>_. base h s0 R F) (\<lambda>_. base h s0 R F)"
      using none by (intro triple_try [OF look_calls(2) [OF base_stable [OF assms(1) fr]]] triple_bind [OF close])
        (auto intro!: triple_throw triple_refuse triple_return)
  qed
  show "triple (case r of Inl _ \<Rightarrow> base h s0 R F | Inr od \<Rightarrow> readable h s0 R (objectPath hash) F od)
     (case r of Inl k \<Rightarrow> refuse PUBLISH_MISMATCH (js ''published entry is '' @ kind_name k) hash
     | Inr (fd, _) \<Rightarrow> bind_m (attempt_m (sys_fstat h fd)) (\<lambda>r. bind_m (close_m fd) (\<lambda>_.
         case r of Inl e \<Rightarrow> throw_m (Operational e)
         | Inr st \<Rightarrow> if st_ino st \<noteq> st_ino v \<or> st_size st \<noteq> m then refuse PUBLISH_MISMATCH (js ''published entry is not the verified file'') hash
             else return_m ()))) (\<lambda>_. base h s0 R F) (\<lambda>_. base h s0 R F)"
  proof (cases r)
    case (Inr od)
    show ?thesis unfolding Inr sum.case by (cases od) (simp only: prod.case got)
  qed (simp add: triple_refuse)
qed

lemma has_object_drop: "with_object h (\<lambda>_. True) hash m s \<Longrightarrow> with_object h (\<lambda>_. True) hash m (drop_entry (temporaryPath n) s)"
  by (auto simp: has_object_def)

lemma publish_temp_triple:
  assumes "peaceful h" "isSha256 hash" "G tfd = None" "G src = None" "src \<noteq> tfd"
  shows "triple (writing h s0 n i [] (G(tfd \<mapsto> Descriptor i True, src \<mapsto> d))) (publish_temp h src tfd (temporaryPath n) hash m)
    (\<lambda>r s. fst r = blob_described hash m \<and> base h s0 (with_object h (\<lambda>_. True) hash m) G s)
    (\<lambda>(e, tempOpen). plain h s0 (if tempOpen then G(tfd \<mapsto> Descriptor i True) else G))"
proof -
  let ?F = "G(tfd \<mapsto> Descriptor i True)" and ?R = "with_object h (\<lambda>_. True) hash m"
  let ?E = "\<lambda>(e, tempOpen). plain h s0 (if tempOpen then ?F else G)"
  have fr: "frame h ?R" by (rule frame_alone [OF frame_True shared_has_object])
  have weak: "base h s0 ?R K s \<Longrightarrow> plain h s0 K s" for K s by (auto simp: base_def)
  have closeR: "triple (base h s0 R ?F) (close_m tfd) (\<lambda>_. base h s0 R G) E" if "shared R" for R E
    by (rule close_base [OF that]) (simp add: assms(3) fun_upd_idem)
  have fill: "triple (writing h s0 n i [] (?F(src \<mapsto> d))) (error_m (\<lambda>e. (e, True)) (fill_and_link h src tfd (temporaryPath n) hash m)) (linked h s0 hash m ?F) ?E"
    using assms(4,5) by (intro triple_error [OF fill_and_link_triple [OF assms(1,2)]]) auto
  have confirm: "triple (base h s0 ?R ?F) (error_m (\<lambda>e. (e, True)) (bind_m (confirmPublished h hash v m) (\<lambda>_. syncDirectory h (objectDirectory hash))))
      (\<lambda>_. base h s0 ?R ?F) ?E" for v
    by (rule triple_error [OF triple_bind [OF confirmPublished_keeps [OF assms(1) fr] syncDirectory_keeps [OF assms(1) fr]]]) (simp add: weak)
  have quiet: "triple (base h s0 ?R G) (error_m (\<lambda>e. (e, False)) (removeQuietly h (temporaryPath n))) (\<lambda>_. base h s0 ?R G) ?E"
    by (rule triple_error [OF removeQuietly_triple [OF assms(1) fr has_object_drop]]) (simp_all add: weak)
  have lost: "triple (plain h s0 G) (error_m (\<lambda>e. (e, False)) (bind_m (removeQuietly h (temporaryPath n)) (\<lambda>_. bind_m (existing h hash m) (\<lambda>winner.
      case winner of None \<Rightarrow> refuse BLOB_MISSING (js ''object vanished after a race'') hash | Some d \<Rightarrow> return_m (d, existing_blob)))))
      (\<lambda>r s. fst r = blob_described hash m \<and> base h s0 ?R G s) ?E"
    by (rule triple_error [OF triple_bind [OF removeQuietly_triple [OF assms(1) frame_True] triple_bind [OF existing_triple [OF assms(1) frame_True]]]])
      (auto intro!: triple_refuse triple_return split: option.splits)
  show ?thesis unfolding publish_temp_def
  proof (rule triple_bind [OF fill])
    fix r :: "blob_stat option"
    show "triple (linked h s0 hash m ?F r) (case r of
       Some verified \<Rightarrow> bind_m (error_m (\<lambda>e. (e, True)) (bind_m (confirmPublished h hash verified m) (\<lambda>_. syncDirectory h (objectDirectory hash)))) (\<lambda>_.
         bind_m (close_m tfd) (\<lambda>_. bind_m (error_m (\<lambda>e. (e, False)) (removeQuietly h (temporaryPath n))) (\<lambda>_. return_m (blob_described hash m, stored))))
     | None \<Rightarrow> bind_m (close_m tfd) (\<lambda>_. error_m (\<lambda>e. (e, False)) (bind_m (removeQuietly h (temporaryPath n)) (\<lambda>_. bind_m (existing h hash m) (\<lambda>winner.
           case winner of None \<Rightarrow> refuse BLOB_MISSING (js ''object vanished after a race'') hash | Some d \<Rightarrow> return_m (d, existing_blob))))))
      (\<lambda>r s. fst r = blob_described hash m \<and> base h s0 ?R G s) ?E"
    proof (cases r)
      case None
      show ?thesis unfolding None linked_def option.case by (rule triple_bind [OF closeR lost]) (simp add: shared_def)
    next
      case (Some v)
      show ?thesis unfolding Some linked_def option.case
        by (intro triple_bind [OF confirm] triple_bind [OF closeR [OF frame_shared [OF fr]]] triple_bind [OF quiet] triple_return) simp
    qed
  qed
qed

lemma readable_plain: "readable h s0 (\<lambda>_. True) p F (fd, k) s \<Longrightarrow> F fd = None \<and> (\<exists>i. plain h s0 (F(fd \<mapsto> Descriptor i False)) s)"
  by (auto simp: readable_def base_def)

lemma close_readable:
  "triple (readable h s0 (\<lambda>_. True) p F (fd, k)) (close_m fd) (\<lambda>_. plain h s0 F) E"
proof (rule triple_close)
  fix s
  assume "readable h s0 (\<lambda>_. True) p F (fd, k) s"
  then obtain i where "F fd = None" "plain h s0 (F(fd \<mapsto> Descriptor i False)) s" using readable_plain by blast
  with base_close [of h s0 "\<lambda>_. True" "F(fd \<mapsto> Descriptor i False)" s fd]
  show "plain h s0 F (s\<lparr>md_fds := (md_fds s)(fd := None)\<rparr>)" by (simp add: shared_def fun_upd_idem)
qed

lemma open_source_triple:
  assumes "peaceful h"
  shows "triple (plain h s0 F) (open_source h src hash m)
    (\<lambda>fd s. F fd = None \<and> (\<exists>i. plain h s0 (F(fd \<mapsto> Descriptor i False)) s)) (\<lambda>_. plain h s0 F)"
  unfolding open_source_def
proof (intro triple_bind [OF entryKind_keeps [OF plain_stable [OF assms]]] triple_if triple_refuse triple_throw
    triple_bind [OF triple_openRegular [OF assms frame_True]])
  fix r :: "entry_kind + nat \<times> nat"
  let ?p = "Elsewhere (src_path src)"
  let ?Q = "\<lambda>fd s. F fd = None \<and> (\<exists>i. plain h s0 (F(fd \<mapsto> Descriptor i False)) s)"
  have got: "triple (readable h s0 (\<lambda>_. True) ?p F (fd, k)) (if m < k
       then bind_m (close_m fd) (\<lambda>_. refuse SOURCE_SIZE_MISMATCH (js ''declared '' @ show_nat m @ js '' bytes, source has '' @ show_nat k) hash)
       else return_m fd) ?Q (\<lambda>_. plain h s0 F)" for fd k
    by (intro triple_if triple_bind [OF close_readable] triple_refuse triple_return) (simp_all only: readable_plain)
  show "triple (case r of Inl _ \<Rightarrow> plain h s0 F | Inr od \<Rightarrow> readable h s0 (\<lambda>_. True) ?p F od)
     (case r of Inl Missing \<Rightarrow> refuse SOURCE_MISSING (js ''no regular file at the attachment source'') hash
       | Inl k \<Rightarrow> throw_m (notRegularSource k hash)
       | Inr (fd, k) \<Rightarrow> if k > m
           then bind_m (close_m fd) (\<lambda>_. refuse SOURCE_SIZE_MISMATCH (js ''declared '' @ show_nat m @ js '' bytes, source has '' @ show_nat k) hash)
           else return_m fd) ?Q (\<lambda>_. plain h s0 F)"
  proof (cases r)
    case (Inl k)
    show ?thesis unfolding Inl sum.case by (cases k) (auto intro: triple_refuse triple_throw)
  next
    case (Inr od)
    show ?thesis unfolding Inr sum.case by (cases od) (simp only: prod.case got)
  qed
qed

section \<open>The whole operation\<close>

lemma triple_state: "(\<And>x. triple P (f x) Q E) \<Longrightarrow> triple P (\<lambda>s. f (g s) s) Q E"
  by (simp add: triple_def)

lemma checkSha256_triple: "triple P (checkSha256 v) (\<lambda>hash s. hash = v \<and> isSha256 v \<and> P s) (\<lambda>_. P)"
  unfolding checkSha256_def by (intro triple_if triple_throw triple_return) simp_all

lemma checkSize_triple: "triple P (checkSize v sha) (\<lambda>n s. v = Whole (int n) \<and> P s) (\<lambda>_. P)"
  unfolding checkSize_def by (cases v) (auto intro!: triple_refuse triple_return)

lemma checkIncomingSize_triple:
  "triple P (checkIncomingSize st v sha) (\<lambda>n s. (v = Whole (int n) \<and> n \<le> bs_maxBlobBytes st) \<and> P s) (\<lambda>_. P)"
  unfolding checkIncomingSize_def
  by (intro triple_bind [OF checkSize_triple] triple_if triple_refuse triple_return) auto

definition put_result :: "blob_host \<Rightarrow> blob_store \<Rightarrow> put_source \<Rightarrow> medium \<Rightarrow> (nat \<Rightarrow> descriptor option) \<Rightarrow> blob_descriptor \<times> put_outcome \<Rightarrow> medium \<Rightarrow> bool" where
  "put_result h st src s0 F r s \<longleftrightarrow> (\<exists>n. isSha256 (src_sha256 src) \<and> src_sizeBytes src = Whole (int n) \<and> n \<le> bs_maxBlobBytes st \<and>
     fst r = blob_described (src_sha256 src) n \<and> base h s0 (with_object h (\<lambda>_. True) (src_sha256 src) n) F s)"

lemma publish_guarded_triple:
  assumes "peaceful h" "isSha256 hash" "F tfd = None" "F sfd = None" "sfd \<noteq> tfd"
  shows "triple (writing h s0 t i [] (F(tfd \<mapsto> Descriptor i True, sfd \<mapsto> d))) (publish_guarded h sfd tfd (temporaryPath t) hash n)
    (\<lambda>r s. fst r = blob_described hash n \<and> base h s0 (with_object h (\<lambda>_. True) hash n) F s) (\<lambda>_. plain h s0 F)"
proof -
  have fail: "triple (plain h s0 (if tempOpen then F(tfd \<mapsto> Descriptor i True) else F))
      (bind_m (if tempOpen then close_m tfd else return_m ()) (\<lambda>_. bind_m (removeQuietly h (temporaryPath t)) (\<lambda>_. throw_m e)))
      Q (\<lambda>_. plain h s0 F)" for tempOpen e Q
    using assms(3) by (intro triple_bind [where R = "\<lambda>_. plain h s0 F"] triple_bind [OF removeQuietly_triple [OF assms(1) frame_True]] triple_throw)
      (auto intro!: close_base triple_return simp: shared_def fun_upd_idem)
  show ?thesis unfolding publish_guarded_def
    by (rule triple_try [OF publish_temp_triple [where G = F and tfd = tfd and src = sfd, OF assms]])
      (simp_all only: split_paired_all prod.case sum.case fail triple_return)
qed

lemma store_from_triple:
  assumes "peaceful h" "isSha256 hash" "F sfd = None"
  shows "triple (plain h s0 (F(sfd \<mapsto> Descriptor j False))) (store_from h sfd hash n t)
    (\<lambda>r s. fst r = blob_described hash n \<and> base h s0 (with_object h (\<lambda>_. True) hash n) F s) (\<lambda>_. plain h s0 F)"
  unfolding store_from_def
proof (rule triple_try [OF create_triple [OF assms(1)]])
  fix tfd
  show "triple (\<lambda>s. (F(sfd \<mapsto> Descriptor j False)) tfd = None \<and>
        (\<exists>i. writing h s0 t i [] (F(sfd \<mapsto> Descriptor j False, tfd \<mapsto> Descriptor i True)) s))
      (case Inr tfd of Inl e \<Rightarrow> bind_m (close_m sfd) (\<lambda>_. throw_m (Operational e))
         | Inr tempFd \<Rightarrow> publish_guarded h sfd tempFd (temporaryPath t) hash n)
      (\<lambda>r s. fst r = blob_described hash n \<and> base h s0 (with_object h (\<lambda>_. True) hash n) F s) (\<lambda>_. plain h s0 F)"
    unfolding sum.case
  proof (intro triple_fact triple_ex)
    fix i
    assume "(F(sfd \<mapsto> Descriptor j False)) tfd = None"
    then have fds: "F tfd = None" "sfd \<noteq> tfd" by (auto simp: fun_upd_def split: if_splits)
    show "triple (writing h s0 t i [] (F(sfd \<mapsto> Descriptor j False, tfd \<mapsto> Descriptor i True))) (publish_guarded h sfd tfd (temporaryPath t) hash n)
      (\<lambda>r s. fst r = blob_described hash n \<and> base h s0 (with_object h (\<lambda>_. True) hash n) F s) (\<lambda>_. plain h s0 F)"
      unfolding fun_upd_twist [OF fds(2)]
      by (rule publish_guarded_triple [where F = F and tfd = tfd and sfd = sfd, OF assms(1,2) fds(1) assms(3) fds(2)])
  qed
qed (use assms(3) in \<open>auto intro!: triple_bind [OF close_base [where F' = F]] triple_throw simp: shared_def fun_upd_idem\<close>)

lemma put_new_triple:
  assumes "peaceful h" "isSha256 hash"
  shows "triple (plain h s0 F) (bind_m (ensure_directories h hash) (\<lambda>_. bind_m (open_source h src hash n) (\<lambda>sourceFd s.
         store_from h sourceFd hash n (temp_name h s) s)))
     (\<lambda>r s. fst r = blob_described hash n \<and> base h s0 (with_object h (\<lambda>_. True) hash n) F s) (\<lambda>_. plain h s0 F)"
proof (rule triple_bind [OF ensure_directories_keeps [OF assms(1)] triple_bind [OF open_source_triple [OF assms(1)]]])
  fix sfd
  have "triple (plain h s0 (F(sfd \<mapsto> Descriptor j False))) (\<lambda>s. store_from h sfd hash n (temp_name h s) s)
     (\<lambda>r s. fst r = blob_described hash n \<and> base h s0 (with_object h (\<lambda>_. True) hash n) F s) (\<lambda>_. plain h s0 F)" if "F sfd = None" for j
    by (rule triple_state) (rule store_from_triple [where F = F and sfd = sfd, OF assms that])
  then show "triple (\<lambda>s. F sfd = None \<and> (\<exists>i. plain h s0 (F(sfd \<mapsto> Descriptor i False)) s)) (\<lambda>s. store_from h sfd hash n (temp_name h s) s)
     (\<lambda>r s. fst r = blob_described hash n \<and> base h s0 (with_object h (\<lambda>_. True) hash n) F s) (\<lambda>_. plain h s0 F)"
    by (intro triple_fact triple_ex)
qed

lemma put_triple:
  assumes "peaceful h"
  shows "triple (plain h s0 F) (put h st src) (put_result h st src s0 F) (\<lambda>_. plain h s0 F)"
  unfolding put_def
proof (rule triple_bind [OF checkSha256_triple], rule triple_fact, rule triple_fact, rule triple_bind [OF checkIncomingSize_triple], rule triple_fact,
    rule triple_bind [OF existing_triple [OF assms frame_True]])
  fix hash n r
  assume hash: "hash = src_sha256 src" "isSha256 (src_sha256 src)" and n: "src_sizeBytes src = Whole (int n) \<and> n \<le> bs_maxBlobBytes st"
  have result: "put_result h st src s0 F r s" if "fst r = blob_described hash n \<and> base h s0 (with_object h (\<lambda>_. True) hash n) F s" for r s
    unfolding put_result_def using that hash n by blast
  show "triple (case r of None \<Rightarrow> plain h s0 F | Some d \<Rightarrow> \<lambda>s. d = blob_described hash n \<and> base h s0 (with_object h (\<lambda>_. True) hash n) F s)
     (case r of Some d \<Rightarrow> return_m (d, existing_blob) | None \<Rightarrow>
         bind_m (ensure_directories h hash) (\<lambda>_. bind_m (open_source h src hash n) (\<lambda>sourceFd s. store_from h sourceFd hash n (temp_name h s) s)))
     (put_result h st src s0 F) (\<lambda>_. plain h s0 F)"
  proof (cases r)
    case None
    have "isSha256 hash" using hash by simp
    note new = put_new_triple [OF assms this]
    show ?thesis unfolding None option.case by (rule triple_weaken [OF new _ result]) assumption
  next
    case (Some d)
    show ?thesis unfolding Some option.case by (rule triple_return, rule result) simp
  qed
qed

end
