(* ===== verification/Blob_Properties.thy ===== *)
theory Blob_Properties
  imports Blob_Put
begin

text \<open>
  The store as a whole: any sequence of operations, with other clients acting between any two system calls,
  leaves a content-addressed store; what \<open>put\<close> returns is in the store.
\<close>

section \<open>The other operations\<close>

lemma blob_verify_keeps:
  assumes "peaceful h"
  shows "triple (plain h s0 F) (blob_verify h sha v) (\<lambda>_. plain h s0 F) (\<lambda>_. plain h s0 F)"
  unfolding blob_verify_def
  by (intro triple_bind [OF checkSha256_triple] triple_fact triple_bind [OF checkSize_triple] triple_bind [OF existing_triple [OF assms frame_True]])
    (auto intro!: triple_refuse triple_return simp: base_def split: option.splits)

lemma blob_stat_keeps:
  assumes "peaceful h"
  shows "triple (plain h s0 F) (blob_stat_op h sha) (\<lambda>_. plain h s0 F) (\<lambda>_. plain h s0 F)"
  unfolding blob_stat_op_def using plain_stable [OF assms]
  by (intro triple_bind [OF checkSha256_triple] triple_fact triple_bind [OF checkObjectDirectories_keeps] triple_try [OF look_calls(1)])
    (auto intro!: triple_refuse triple_return triple_throw)

lemma check_expected_keeps: "triple P (check_expected v sha) (\<lambda>_. P) (\<lambda>_. P)"
  unfolding check_expected_def by (cases v) (auto intro!: triple_return triple_bind [OF checkSize_triple] triple_fact)

definition gone :: "blob_host \<Rightarrow> jstring \<Rightarrow> medium \<Rightarrow> bool" where
  "gone h hash s \<longleftrightarrow> (alone h \<longrightarrow> entry_at s (objectPath hash) = None)"

lemma frame_gone: "frame h (gone h hash)"
proof -
  have "shared (\<lambda>s. entry_at s (objectPath hash) = None)" by (rule sharedI) simp
  from frame_alone [OF frame_True this, of h] show ?thesis by (simp add: gone_def [abs_def])
qed

definition removal_done :: "blob_host \<Rightarrow> medium \<Rightarrow> jstring \<Rightarrow> (nat \<Rightarrow> descriptor option) \<Rightarrow> removal \<Rightarrow> medium \<Rightarrow> bool" where
  "removal_done h s0 hash F r = (case r of removed \<Rightarrow> base h s0 (gone h hash) F | missing \<Rightarrow> plain h s0 F)"

lemma unlink_verified_triple:
  assumes "peaceful h"
  shows "triple (plain h s0 F) (unlink_verified h hash was) (removal_done h s0 hash F) (\<lambda>_. plain h s0 F)"
proof -
  have "triple (plain h s0 F) (io (sys_unlink h (objectPath hash))) (\<lambda>_. base h s0 (gone h hash) F) (\<lambda>_. plain h s0 F)"
    by (rule triple_io [OF unlink_triple [OF assms frame_True]]) (auto simp: gone_def)
  note unlink = triple_bind [OF this]
  have "triple (base h s0 (gone h hash) F) (syncDirectory h (objectDirectory hash)) (\<lambda>_. base h s0 (gone h hash) F) (\<lambda>_. plain h s0 F)"
    by (rule triple_weaken [OF syncDirectory_keeps [OF assms frame_gone]]) (auto simp: base_def)
  note sync = triple_bind [OF this]
  note st = plain_stable [OF assms]
  show ?thesis unfolding unlink_verified_def
    by (rule triple_try [OF look_calls(1) [OF st]])
      (auto intro!: triple_if triple_return triple_throw triple_refuse triple_bind [OF checkObjectDirectories_keeps [OF st]] unlink sync
        simp: removal_done_def)
qed

lemma remove_opened_triple:
  assumes "peaceful h"
  shows "triple (readable h s0 (\<lambda>_. True) p F (fd, k)) (remove_opened h hash wanted fd) (removal_done h s0 hash F) (\<lambda>_. plain h s0 F)"
  unfolding readable_def fst_conv
proof (intro triple_fact triple_ex)
  fix i
  assume none: "F fd = None"
  let ?R = "\<lambda>s. True \<and> (alone h \<longrightarrow> opened_file p i (snd (fd, k)) s)"
  have fr: "frame h ?R" by (rule frame_alone [OF frame_True shared_opened_file])
  have close: "triple (base h s0 ?R (F(fd \<mapsto> Descriptor i False))) (close_m fd) (\<lambda>_. plain h s0 F) (\<lambda>_. plain h s0 F)"
    by (rule close_opened [OF fr]) (rule none)
  have sha: "triple (base h s0 ?R (F(fd \<mapsto> Descriptor i False))) (blob_sha256Fd h fd) (\<lambda>_. plain h s0 F) (\<lambda>_. plain h s0 F)"
    by (rule triple_weaken [OF sha256Fd_triple [of h ?R F fd, OF assms fr none]]) (auto simp: base_def)
  show "triple (base h s0 ?R (F(fd \<mapsto> Descriptor i False))) (remove_opened h hash wanted fd) (removal_done h s0 hash F) (\<lambda>_. plain h s0 F)"
    unfolding remove_opened_def
    by (rule triple_try [OF look_calls(2) [OF base_stable [OF assms fr]]]; unfold sum.case)
      (intro triple_if triple_bind [OF close] triple_bind [OF sha] triple_throw triple_refuse unlink_verified_triple [OF assms]; assumption)+
qed

lemma removeObject_triple:
  assumes "peaceful h"
  shows "triple (plain h s0 F) (removeObject h sha v) (removal_done h s0 sha F) (\<lambda>_. plain h s0 F)"
  unfolding removeObject_def
proof (rule triple_bind [OF checkSha256_triple], rule triple_fact, rule triple_fact, rule triple_bind [OF check_expected_keeps],
    rule triple_bind [OF checkObjectDirectories_keeps [OF plain_stable [OF assms]]], rule triple_bind [OF entryKind_keeps [OF plain_stable [OF assms]]],
    rule triple_if)
  fix hash wanted kind
  assume "hash = sha"
  then show "triple (plain h s0 F) (bind_m (openObject h hash) (\<lambda>od. remove_opened h hash wanted (fst od))) (removal_done h s0 sha F) (\<lambda>_. plain h s0 F)"
    by (auto intro!: triple_bind [OF openObject_triple [OF assms frame_True]] remove_opened_triple [OF assms])
qed (simp add: triple_return removal_done_def)

lemma removeTemporaryFile_keeps:
  assumes "peaceful h"
  shows "triple (plain h s0 F) (removeTemporaryFile h name) (\<lambda>_. plain h s0 F) (\<lambda>_. plain h s0 F)"
proof -
  note st = plain_stable [OF assms]
  have name: "triple P (checkTemporaryName name) (\<lambda>_. P) (\<lambda>_. P)" for P
    unfolding checkTemporaryName_def by (intro triple_if triple_throw triple_return)
  have unlink: "triple (plain h s0 F) (sys_unlink h (temporaryPath name)) (\<lambda>_. plain h s0 F) (\<lambda>_. plain h s0 F)"
    by (rule unlink_triple [OF assms frame_True]) auto
  show ?thesis unfolding removeTemporaryFile_def
    by (intro triple_bind [OF name] triple_bind [OF entryKind_keeps [OF st]] triple_if triple_return triple_throw triple_try [OF unlink])
      (auto intro: triple_return triple_throw)
qed

section \<open>Sequences of operations\<close>

datatype blob_request =
    Put put_source
  | Verify jstring jnumber
  | Stat jstring
  | RemoveObject jstring "jnumber option"
  | RemoveTemporaryFile jstring

text \<open>The medium after a request, whether it returned or threw.\<close>

fun perform :: "blob_host \<Rightarrow> blob_store \<Rightarrow> blob_request \<Rightarrow> medium \<Rightarrow> medium" where
  "perform h st (Put src) s = snd (put h st src s)"
| "perform h st (Verify sha n) s = snd (blob_verify h sha n s)"
| "perform h st (Stat sha) s = snd (blob_stat_op h sha s)"
| "perform h st (RemoveObject sha n) s = snd (removeObject h sha n s)"
| "perform h st (RemoveTemporaryFile name) s = snd (removeTemporaryFile h name s)"

lemma triple_snd:
  assumes "triple P m Q E" "P s" "\<And>a s. Q a s \<Longrightarrow> X s" "\<And>e s. E e s \<Longrightarrow> X s"
  shows "X (snd (m s))"
proof -
  obtain r s' where r: "m s = (r, s')" by fastforce
  from tripleD [OF assms(1,2) r] assms(3,4) r show ?thesis by (cases r) auto
qed

lemma perform_plain:
  assumes "peaceful h" "plain h s0 F s"
  shows "plain h s0 F (perform h st q s)"
proof (cases q)
  case (Put src)
  show ?thesis unfolding Put perform.simps by (rule triple_snd [OF put_triple [OF assms(1)] assms(2)]) (auto simp: put_result_def base_def)
next
  case (Verify sha n)
  show ?thesis unfolding Verify perform.simps by (rule triple_snd [OF blob_verify_keeps [OF assms(1)] assms(2)])
next
  case (Stat sha)
  show ?thesis unfolding Stat perform.simps by (rule triple_snd [OF blob_stat_keeps [OF assms(1)] assms(2)])
next
  case (RemoveObject sha n)
  show ?thesis unfolding RemoveObject perform.simps
    by (rule triple_snd [OF removeObject_triple [OF assms(1)] assms(2)]) (auto simp: removal_done_def base_def split: removal.splits)
next
  case (RemoveTemporaryFile name)
  show ?thesis unfolding RemoveTemporaryFile perform.simps by (rule triple_snd [OF removeTemporaryFile_keeps [OF assms(1)] assms(2)])
qed

lemma performs_plain:
  assumes "peaceful h" "plain h s0 F s"
  shows "plain h s0 F (fold (perform h st) qs s)"
  using assms(2) by (induction qs arbitrary: s) (simp_all add: perform_plain [OF assms(1)])

text \<open>
  C21. The store stays content-addressed: whatever is asked of it in whatever order, with any system call failing and
  with other clients and producers acting between any two calls, all that happens to the medium is store steps,
  so every object holds the bytes its name is the digest of; and every descriptor is given back.
\<close>

theorem store_stays_content_addressed:
  assumes "peaceful h" "wf_medium s" "content_addressed h s"
  shows "content_addressed h (fold (perform h st) qs s) \<and> steps h s (fold (perform h st) qs s) \<and>
    md_fds (fold (perform h st) qs s) = md_fds s"
proof -
  have "plain h s (md_fds s) s" using assms(2) by (simp add: base_def)
  from performs_plain [OF assms(1) this, of st qs] have "steps h s (fold (perform h st) qs s)" "md_fds (fold (perform h st) qs s) = md_fds s"
    by (auto simp: base_def)
  with steps_addressed [OF _ assms(3) wf_entries [OF assms(2)]] show ?thesis by blast
qed

lemma alone_peaceful: "alone h \<Longrightarrow> peaceful h"
  by (simp add: alone_def peaceful_def keeps_own_def)

text \<open>
  C22. A put that returns has stored: when nobody else touches the medium, after a \<open>put\<close> that returned, new or
  existing, the object of the declared hash is there with the declared number of bytes, which hash to it, and the
  declared size was within the limit of the store; after a \<open>removeObject\<close> that answered \<open>removed\<close> it is not there.
\<close>

theorem put_returns_stored:
  assumes "alone h" "wf_medium s"
  shows "(\<forall>d outcome s'. put h st src s = (Inr (d, outcome), s') \<longrightarrow>
      (\<exists>n. src_sizeBytes src = Whole (int n) \<and> n \<le> bs_maxBlobBytes st \<and> d = blob_described (src_sha256 src) n \<and>
         has_object h (src_sha256 src) n s')) \<and>
    (\<forall>sha v s'. removeObject h sha v s = (Inr removed, s') \<longrightarrow> entry_at s' (objectPath sha) = None)"
proof -
  note p = alone_peaceful [OF assms(1)]
  have b: "plain h s (md_fds s) s" using assms(2) by (simp add: base_def)
  have "\<exists>n. src_sizeBytes src = Whole (int n) \<and> n \<le> bs_maxBlobBytes st \<and> d = blob_described (src_sha256 src) n \<and> has_object h (src_sha256 src) n s'"
    if "put h st src s = (Inr (d, outcome), s')" for d outcome s'
    using tripleD [OF put_triple [OF p] b that] assms(1) by (auto simp: put_result_def base_def)
  moreover have "entry_at s' (objectPath sha) = None" if "removeObject h sha v s = (Inr removed, s')" for sha v s'
    using tripleD [OF removeObject_triple [OF p] b that] assms(1) by (simp add: removal_done_def base_def gone_def)
  ultimately show ?thesis by blast
qed

section \<open>A medium with one source\<close>

definition some_hash :: jstring where
  "some_hash = replicate 64 0x61"

definition quiet_medium :: medium where
  "quiet_medium = \<lparr>md_entries = [(Elsewhere (js ''a''), FileAt 0)], md_content = \<lambda>i. if i = 0 then [1, 2] else [], md_mtime = \<lambda>_. 0,
     md_next = 1, md_fds = \<lambda>_. None, md_nextfd = 3, md_tick = 0\<rparr>"

definition quiet_host :: blob_host where
  "quiet_host = \<lparr>bh_sha256 = \<lambda>_. some_hash, bh_fault = \<lambda>_. None, bh_env = \<lambda>_ s. s, bh_random = \<lambda>_. replicate 32 0x30,
     bh_chunks = \<lambda>_ b. (map (\<lambda>c. [c]) b, None), bh_taken = \<lambda>_. 0, bh_posix = True\<rparr>"

definition quiet_source :: put_source where
  "quiet_source = \<lparr>src_path = js ''a'', src_sha256 = some_hash, src_sizeBytes = Whole 2\<rparr>"

lemma quiet_alone: "alone quiet_host"
  by (simp add: alone_def quiet_host_def)

lemma quiet_wf: "wf_medium quiet_medium"
  by (simp add: wf_medium_def quiet_medium_def entry_at_def)

theorem store_stays_content_addressed_witness:
  "content_addressed quiet_host (fold (perform quiet_host \<lparr>bs_maxBlobBytes = 10\<rparr>) [Put quiet_source, RemoveObject some_hash None] quiet_medium)"
  using store_stays_content_addressed [OF alone_peaceful [OF quiet_alone] quiet_wf, of "\<lparr>bs_maxBlobBytes = 10\<rparr>" "[Put quiet_source, RemoveObject some_hash None]"]
  by (simp add: content_addressed_def quiet_medium_def entry_at_def)

lemma quiet_put: "case put quiet_host \<lparr>bs_maxBlobBytes = 10\<rparr> quiet_source quiet_medium of (Inr (d, outcome), s) \<Rightarrow> outcome = stored | _ \<Rightarrow> False"
  by code_simp

theorem put_returns_stored_witness:
  "\<exists>d s. put quiet_host \<lparr>bs_maxBlobBytes = 10\<rparr> quiet_source quiet_medium = (Inr (d, stored), s) \<and> bd_sizeBytes d = 2 \<and>
     has_object quiet_host some_hash 2 s"
proof -
  obtain d s where p: "put quiet_host \<lparr>bs_maxBlobBytes = 10\<rparr> quiet_source quiet_medium = (Inr (d, stored), s)"
    using quiet_put by (auto split: prod.splits sum.splits)
  with put_returns_stored [OF quiet_alone quiet_wf, of "\<lparr>bs_maxBlobBytes = 10\<rparr>" quiet_source]
  show ?thesis by (fastforce simp: quiet_source_def blob_described_def)
qed

end
