(* ===== verification/Blob_Walk.thy ===== *)
theory Blob_Walk
  imports Blob_Pages Blob_Properties
begin

text \<open>
  The listings from the outside: their bounds, which hold whatever the medium and the other clients do, and the
  walk over the whole store that follows \<open>next\<close> from page to page.
\<close>

section \<open>Bounds\<close>

definition limit_of :: "jnumber option \<Rightarrow> nat" where
  "limit_of limit = (case limit of None \<Rightarrow> DEFAULT_LIST_LIMIT | Some (Whole n) \<Rightarrow> min (nat n) MAX_LIST_LIMIT | Some (Other _) \<Rightarrow> 0)"

text \<open>What an operation returns, when it returns, satisfies \<open>P\<close>.\<close>

definition returns :: "('e, 'a) medium_op \<Rightarrow> ('a \<Rightarrow> bool) \<Rightarrow> bool" where
  "returns m P \<longleftrightarrow> triple (\<lambda>_. True) m (\<lambda>a _. P a) (\<lambda>_ _. True)"

lemma returns_return [intro]: "P a \<Longrightarrow> returns (return_m a) P"
  by (simp add: returns_def triple_return)

lemma returns_throw [intro, simp]: "returns (throw_m e) P"
  by (simp add: returns_def triple_throw)

lemma returns_any [simp]: "returns m (\<lambda>_. True)"
  by (auto simp: returns_def triple_def split: sum.splits)

lemma returns_bind:
  assumes "returns m R" "\<And>a. R a \<Longrightarrow> returns (f a) P"
  shows "returns (bind_m m f) P"
  unfolding returns_def
proof (rule triple_bind [OF assms(1) [unfolded returns_def]])
  show "triple (\<lambda>_. R a) (f a) (\<lambda>x _. P x) (\<lambda>_ _. True)" for a
    using assms(2) [of a] by (cases "R a") (auto simp: returns_def triple_def)
qed

lemma returns_then: "(\<And>a. returns (f a) P) \<Longrightarrow> returns (bind_m m f) P"
  by (rule returns_bind [OF returns_any])

lemma returnsD: "returns m P \<Longrightarrow> m s = (Inr a, s') \<Longrightarrow> P a"
  by (auto simp: returns_def triple_def dest!: spec [of _ s])

definition few :: "cas_problem list \<Rightarrow> bool" where
  "few problems \<longleftrightarrow> length problems \<le> MAX_PROBLEMS + 1"

lemma few_record [simp]: "few problems \<Longrightarrow> few (record_problem p problems)"
  by (auto simp: few_def record_problem_def)

lemma few_shard_names: "few problems \<Longrightarrow> few (snd (shard_names d es problems))"
  by (induction d es problems rule: shard_names.induct) (auto split: prod.splits)

lemma returns_shards: "few problems \<Longrightarrow> returns (shards h d problems) (\<lambda>(names, problems). few problems)"
  unfolding shards_def by (rule returns_then) (auto simp: split_def few_shard_names)

lemma returns_limit: "returns (boundedLimit limit) (\<lambda>n. n = limit_of limit \<and> 1 \<le> n \<and> n \<le> MAX_LIST_LIMIT)"
  by (auto simp: boundedLimit_def limit_of_def DEFAULT_LIST_LIMIT_def MAX_LIST_LIMIT_def split: option.splits jnumber.splits)

text \<open>A page within its bounds: at most \<open>limit\<close> objects, a bounded list of problems, and a \<open>next\<close> only on a full page.\<close>

definition bounded_page :: "nat \<Rightarrow> object_page \<Rightarrow> bool" where
  "bounded_page limit pg \<longleftrightarrow> length (op_objects pg) \<le> limit \<and> few (op_problems pg) \<and>
     (op_next pg \<noteq> None \<longrightarrow> length (op_objects pg) = limit \<and> op_next pg = Some (oe_sha256 (List.last (op_objects pg))))"

lemma bounded_noted [simp]: "bounded_page limit pg \<Longrightarrow> bounded_page limit (noted p pg)"
  by (simp add: bounded_page_def noted_def)

lemma bounded_empty: "few problems \<Longrightarrow> bounded_page limit (empty_page\<lparr>op_problems := problems\<rparr>)"
  by (simp add: bounded_page_def empty_page_def)

lemma bounded_more: "bounded_page limit pg \<Longrightarrow> op_next pg = None \<Longrightarrow> length (op_objects pg) \<noteq> limit \<Longrightarrow>
    bounded_page limit (pg\<lparr>op_objects := op_objects pg @ [e]\<rparr>)"
  by (simp add: bounded_page_def)

text \<open>A page that is not yet full carries no \<open>next\<close>, and what it lists is beyond the cursor.\<close>

definition open_page :: "jstring option \<Rightarrow> nat \<Rightarrow> object_page \<Rightarrow> bool" where
  "open_page after limit pg \<longleftrightarrow> bounded_page limit pg \<and> (op_next pg \<noteq> None \<longrightarrow> op_full pg) \<and>
     (\<forall>e \<in> set (op_objects pg). isSha256 (oe_sha256 e) \<and> \<not> passed after (oe_sha256 e))"

lemma returns_leaf:
  assumes "open_page after limit pg" "op_next pg = None"
  shows "returns (list_leaf h after limit f g es pg) (open_page after limit)"
  using assms
proof (induction es arbitrary: pg)
  case (Cons e es)
  obtain name kind where e: "e = (name, kind)" by fastforce
  have note1: "returns (list_leaf h after limit f g es (noted p pg)) (open_page after limit)" for p
    by (rule Cons.IH) (use Cons.prems in \<open>auto simp: open_page_def noted_def bounded_page_def\<close>)
  have more: "returns (list_leaf h after limit f g es (pg\<lparr>op_objects := op_objects pg @ [x]\<rparr>)) (open_page after limit)"
    if "length (op_objects pg) \<noteq> limit" "isSha256 (oe_sha256 x)" "\<not> passed after (oe_sha256 x)" for x
    by (rule Cons.IH) (use Cons.prems bounded_more that in \<open>auto simp: open_page_def\<close>)
  have full: "open_page after limit (pg\<lparr>op_next := (case op_objects pg of [] \<Rightarrow> None | os \<Rightarrow> Some (oe_sha256 (List.last os))), op_full := True\<rparr>)"
    if "length (op_objects pg) = limit"
    using Cons.prems that by (auto simp: open_page_def bounded_page_def split: list.splits)
  show ?case unfolding e list_leaf.simps Let_def
    using note1 more full Cons.IH [OF Cons.prems] by (auto intro!: returns_then split: sum.splits)
qed (auto simp: returns_return)

lemma returns_second: "open_page after limit pg \<Longrightarrow> returns (list_second h after limit f gs pg) (open_page after limit)"
proof (induction gs arbitrary: pg)
  case (Cons g gs)
  have "returns (bind_m (entriesOf h [OBJECTS_DIR, f, g]) (\<lambda>es. bind_m (list_leaf h after limit f g (sort_key fst es) pg) (\<lambda>pg. list_second h after limit f gs pg)))
     (open_page after limit)" if "\<not> op_full pg"
    using that Cons.prems by (intro returns_then returns_bind [OF returns_leaf Cons.IH]) (auto simp: open_page_def)
  with Cons show ?case by auto
qed auto

lemma returns_first: "open_page after limit pg \<Longrightarrow> returns (list_first h after limit fs pg) (open_page after limit)"
proof (induction fs arbitrary: pg)
  case (Cons f fs)
  have "returns (bind_m (shards h [OBJECTS_DIR, f] (op_problems pg)) (\<lambda>(seconds, problems).
      bind_m (list_second h after limit f seconds (pg\<lparr>op_problems := problems\<rparr>)) (\<lambda>pg. list_first h after limit fs pg))) (open_page after limit)"
    using Cons.prems
    by (intro returns_bind [OF returns_shards]) (auto simp: open_page_def bounded_page_def intro!: returns_bind [OF returns_second Cons.IH])
  with Cons show ?case by auto
qed auto

lemma returns_after: "returns (check_after after) (\<lambda>a. a = after)"
  by (cases after) (auto simp: check_after_def checkSha256_def intro!: returns_return returns_bind [where R = "\<lambda>a. a = the after"])

lemma returns_listObjects:
  "returns (listObjects h limit after) (\<lambda>pg. open_page after (limit_of limit) pg \<and> 1 \<le> limit_of limit \<and> limit_of limit \<le> MAX_LIST_LIMIT)"
proof -
  have e: "few []" by (simp add: few_def)
  have first: "open_page after n (empty_page\<lparr>op_problems := ps\<rparr>)" if "few ps" for n ps
    using bounded_empty [OF that] by (simp add: open_page_def empty_page_def)
  show ?thesis unfolding listObjects_def
  proof (rule returns_bind [OF returns_limit], rule returns_bind [OF returns_after], intro returns_then)
    fix n after' k
    assume n: "n = limit_of limit \<and> 1 \<le> n \<and> n \<le> MAX_LIST_LIMIT" and after: "after' = after"
    have "returns (bind_m (shards h [OBJECTS_DIR] []) (\<lambda>(firsts, problems). list_first h after n firsts (empty_page\<lparr>op_problems := problems\<rparr>))) (open_page after n)"
      by (rule returns_bind [OF returns_shards [OF e]]) (auto intro: returns_first first)
    with n first [OF e] after show "returns (if k = Missing then return_m empty_page
        else if k \<noteq> Folder then throw_m (unsafeEntry [OBJECTS_DIR] k)
        else bind_m (shards h [OBJECTS_DIR] []) (\<lambda>(firsts, problems). list_first h after' n firsts (empty_page\<lparr>op_problems := problems\<rparr>)))
        (\<lambda>pg. open_page after (limit_of limit) pg \<and> 1 \<le> limit_of limit \<and> limit_of limit \<le> MAX_LIST_LIMIT)"
      by (auto simp: empty_page_def)
  qed
qed

text \<open>The cursor of the next page is a hash beyond the cursor of this one, and there are only so many hashes.\<close>

lemma next_advances:
  assumes "listObjects h limit after s = (Inr pg, s')" "op_next pg = Some a"
  shows "isSha256 a \<and> \<not> passed after a"
proof -
  from returnsD [OF returns_listObjects assms(1)] have "open_page after (limit_of limit) pg" "1 \<le> limit_of limit" by auto
  with assms(2) have "a = oe_sha256 (List.last (op_objects pg))" "op_objects pg \<noteq> []"
    "\<forall>e \<in> set (op_objects pg). isSha256 (oe_sha256 e) \<and> \<not> passed after (oe_sha256 e)" by (auto simp: open_page_def bounded_page_def)
  then show ?thesis using last_in_set by blast
qed

lemma finite_after: "finite {x. isSha256 x \<and> \<not> passed after x}"
proof (rule finite_subset)
  show "{x. isSha256 x \<and> \<not> passed after x} \<subseteq> {xs. set xs \<subseteq> UNIV \<and> length xs = 64}" by (auto simp: isSha256_def)
  show "finite {xs :: jstring. set xs \<subseteq> UNIV \<and> length xs = 64}" by (rule finite_lists_length_eq) simp
qed

section \<open>Temporary files\<close>

text \<open>What the listing of temporary files may name: a temporary name, last modified before the cutoff.\<close>

definition abandoned :: "int option \<Rightarrow> temporary_file \<Rightarrow> bool" where
  "abandoned before f \<longleftrightarrow> TEMPORARY_NAME (tf_name f) \<and> (\<forall>b. before = Some b \<longrightarrow> tf_modifiedAt f < b)"

lemma abandoned_name: "abandoned before \<lparr>tf_name = name, tf_sizeBytes = n, tf_modifiedAt = t\<rparr> \<longleftrightarrow> TEMPORARY_NAME name \<and> (\<forall>b. before = Some b \<longrightarrow> t < b)"
  by (simp add: abandoned_def)

lemma returns_temporary:
  assumes "list_all (abandoned before) (fst acc)" "few (snd acc)"
  shows "returns (list_temporary h before es acc) (\<lambda>(files, problems). list_all (abandoned before) files \<and> few problems)"
  using assms
proof (induction es arbitrary: acc)
  case (Cons e es)
  obtain name kind where e: "e = (name, kind)" by fastforce
  have odd: "returns (list_temporary h before es (fst acc, record_problem p (snd acc))) (\<lambda>(files, problems). list_all (abandoned before) files \<and> few problems)" for p
    by (rule Cons.IH) (use Cons.prems in auto)
  have more: "returns (list_temporary h before es (fst acc @ [\<lparr>tf_name = name, tf_sizeBytes = n, tf_modifiedAt = t\<rparr>], snd acc))
      (\<lambda>(files, problems). list_all (abandoned before) files \<and> few problems)"
    if "TEMPORARY_NAME name" "\<not> (case before of None \<Rightarrow> False | Some b \<Rightarrow> t \<ge> b)" for n t
    by (rule Cons.IH) (use Cons.prems that in \<open>auto simp: abandoned_name\<close>)
  show ?case unfolding e list_temporary.simps
    using odd more Cons.IH [OF Cons.prems] by (auto intro!: returns_then split: sum.splits)
qed (auto simp: returns_return split_def)

lemma sorted_take_by: "sorted (map g xs) \<Longrightarrow> sorted (map g (take n xs))"
  by (metis sorted_wrt_take take_map)

lemma returns_listTemporaryFiles:
  "returns (listTemporaryFiles h limit before) (\<lambda>(files, problems).
     length files \<le> limit_of limit \<and> limit_of limit \<le> MAX_LIST_LIMIT \<and> few problems \<and> list_all (abandoned (Option.bind before id)) files \<and>
     sorted (map (\<lambda>f. (tf_modifiedAt f, tf_name f)) files))"
proof -
  have "returns (bind_m (entriesOf h [TEMP_DIR]) (\<lambda>es. bind_m (list_temporary h (Option.bind before id) (sort_key fst es) ([], [])) (\<lambda>(files, problems).
        return_m (take n (sort_key (\<lambda>f. (tf_modifiedAt f, tf_name f)) files), problems))))
     (\<lambda>(files, problems). length files \<le> n \<and> few problems \<and> list_all (abandoned (Option.bind before id)) files \<and> sorted (map (\<lambda>f. (tf_modifiedAt f, tf_name f)) files))" for n
    by (intro returns_then returns_bind [OF returns_temporary])
      (auto simp: few_def list_all_iff sorted_take_by dest!: in_set_takeD)
  then show ?thesis unfolding listTemporaryFiles_def
    by (intro returns_bind [OF returns_limit]) (auto simp: few_def intro!: returns_then returns_return)
qed

section \<open>The walk\<close>

lemma yields_limit:
  assumes "limit = None \<or> (\<exists>n\<ge>1. limit = Some (Whole n) \<and> is_safe_int n)"
  shows "yields s (boundedLimit limit) (limit_of limit)" "1 \<le> limit_of limit"
  using assms by (auto simp: boundedLimit_def limit_of_def DEFAULT_LIST_LIMIT_def MAX_LIST_LIMIT_def intro: yields_return)

lemma yields_after: "(\<And>a. after = Some a \<Longrightarrow> isSha256 a) \<Longrightarrow> yields s (check_after after) after"
  by (cases after) (auto simp: check_after_def checkSha256_def intro: yields_return yields_bind)

lemma yields_listObjects:
  assumes "undisturbed h" "limit = None \<or> (\<exists>n\<ge>1. limit = Some (Whole n) \<and> is_safe_int n)" "\<And>a. after = Some a \<Longrightarrow> isSha256 a"
    "entry_at s (Below [OBJECTS_DIR]) \<in> {None, Some DirAt}"
  shows "\<exists>pg. yields s (listObjects h limit after) pg \<and> shows_page s (limit_of limit) (all_objects s after) pg"
proof -
  obtain pg where "yields s (bind_m (blob_entryKind h (Below [OBJECTS_DIR])) (\<lambda>kind.
     if kind = Missing then return_m empty_page
     else if kind \<noteq> Folder then throw_m (unsafeEntry [OBJECTS_DIR] kind)
     else bind_m (shards h [OBJECTS_DIR] []) (\<lambda>(firsts, problems). list_first h after (limit_of limit) firsts (empty_page\<lparr>op_problems := problems\<rparr>)))) pg"
    "shows_page s (limit_of limit) (all_objects s after) pg"
    using objects_page [OF assms(1) yields_limit(2) [OF assms(2)] assms(3,4)] by blast
  then show ?thesis unfolding listObjects_def
    by (blast intro: yields_bind [OF yields_limit(1) [OF assms(2)]] yields_bind [OF yields_after [OF assms(3)]])
qed

text \<open>Objects after the last one of a page are the ones the page left out.\<close>

lemma strict_sorted_unique: "sorted_wrt (<) xs \<Longrightarrow> sorted_wrt (<) ys \<Longrightarrow> set xs = set ys \<Longrightarrow> xs = (ys :: jstring list)"
  by (rule sorted_distinct_set_unique) (auto simp: strict_sorted_iff)

lemma strict_drop_set:
  assumes "sorted_wrt (<) (xs :: jstring list)" "0 < n" "n < length xs"
  shows "set (drop n xs) = {x \<in> set xs. \<not> x \<le> List.last (take n xs)}"
proof -
  let ?l = "List.last (take n xs)"
  have xs: "sorted_wrt (<) (take n xs @ drop n xs)" using assms(1) by simp
  have ne: "take n xs \<noteq> []" using assms by auto
  have l: "?l \<in> set (take n xs)" using ne by simp
  have "x \<le> ?l" if "x \<in> set (take n xs)" for x
  proof -
    have "take n xs = butlast (take n xs) @ [?l]" using ne by simp
    moreover have "sorted_wrt (<) (take n xs)" using assms(1) by (rule sorted_wrt_take)
    ultimately have "\<forall>y \<in> set (butlast (take n xs)). y < ?l" by (metis sorted_wrt_append list.set_intros(1))
    then show ?thesis using that \<open>take n xs = _\<close> by (metis UnE less_imp_le set_append empty_iff insert_iff list.set order_refl)
  qed
  moreover have "?l < x" if "x \<in> set (drop n xs)" for x using xs l that unfolding sorted_wrt_append by blast
  moreover have "set xs = set (take n xs) \<union> set (drop n xs)" by (metis append_take_drop_id set_append)
  ultimately show ?thesis by (auto simp: not_le) (metis leD)
qed

lemma all_objects_resume:
  assumes "0 < n" "n < length (all_objects s after)"
  shows "all_objects s (Some (List.last (take n (all_objects s after)))) = drop n (all_objects s after)"
proof (rule strict_sorted_unique [OF all_objects_strict])
  let ?l = "List.last (take n (all_objects s after))"
  show "sorted_wrt (<) (drop n (all_objects s after))" by (rule sorted_wrt_drop [OF all_objects_strict])
  have "?l \<in> set (take n (all_objects s after))" using assms by (intro last_in_set) auto
  then have "\<not> passed after ?l" by (meson all_objects_iff in_set_takeD)
  then have "passed after x \<Longrightarrow> x \<le> ?l" for x by (auto simp: passed_def split: option.splits)
  then show "set (all_objects s (Some ?l)) = set (drop n (all_objects s after))"
    unfolding strict_drop_set [OF all_objects_strict assms] by (auto simp: all_objects_iff passed_def)
qed

text \<open>The walk of a client: pages are fetched until one carries no \<open>next\<close>; the fuel bounds the number of pages.\<close>

fun walk_objects :: "blob_host \<Rightarrow> jnumber option \<Rightarrow> nat \<Rightarrow> jstring option \<Rightarrow> medium \<Rightarrow> object_page list option" where
  "walk_objects h limit 0 after s = None"
| "walk_objects h limit (Suc n) after s =
     (case listObjects h limit after s of
        (Inl _, _) \<Rightarrow> None
      | (Inr pg, s') \<Rightarrow>
          (case op_next pg of
             None \<Rightarrow> Some [pg]
           | Some a \<Rightarrow> map_option (\<lambda>pgs. pg # pgs) (walk_objects h limit n (Some a) s')))"

lemma walk_all:
  assumes "undisturbed h" "limit = None \<or> (\<exists>n\<ge>1. limit = Some (Whole n) \<and> is_safe_int n)" "entry_at s (Below [OBJECTS_DIR]) \<in> {None, Some DirAt}"
  shows "(\<And>a. after = Some a \<Longrightarrow> isSha256 a) \<Longrightarrow> length (all_objects s after) < n \<Longrightarrow>
    \<exists>pgs. walk_objects h limit n after (s\<lparr>md_tick := k\<rparr>) = Some pgs \<and> concat (map op_objects pgs) = map (object_of s) (all_objects s after)"
proof (induction n arbitrary: after k)
  case (Suc n)
  let ?l = "limit_of limit" and ?os = "all_objects s after"
  obtain pg k' where pg: "listObjects h limit after (s\<lparr>md_tick := k\<rparr>) = (Inr pg, s\<lparr>md_tick := k'\<rparr>)" "shows_page s ?l ?os pg"
    using yields_listObjects [OF assms(1,2) Suc.prems(1) assms(3)] unfolding yields_def by blast
  note l = yields_limit(2) [OF assms(2)]
  show ?case
  proof (cases "?l < length ?os")
    case False
    then show ?thesis using pg by (intro exI [of _ "[pg]"]) (simp add: shows_page_def)
  next
    case True
    let ?a = "List.last (take ?l ?os)"
    have "?a \<in> set (take ?l ?os)" using l True by (intro last_in_set) auto
    then have sha: "isSha256 ?a" by (meson all_objects_iff canonical_object_def in_set_takeD)
    have rest: "all_objects s (Some ?a) = drop ?l ?os" using all_objects_resume [OF _ True] l by simp
    obtain pgs where "walk_objects h limit n (Some ?a) (s\<lparr>md_tick := k'\<rparr>) = Some pgs" "concat (map op_objects pgs) = map (object_of s) (drop ?l ?os)"
      using Suc.IH [of "Some ?a" k'] sha rest Suc.prems(2) l True by force
    then show ?thesis using pg True
      by (intro exI [of _ "pg # pgs"]) (simp add: shows_page_def flip: map_append)
  qed
qed simp

section \<open>What the listings promise\<close>

text \<open>
  C30. The listings are bounded, whatever lies on the medium and whatever the other clients and the file system do: a
  page has at most as many entries as asked for and never more than \<open>MAX_LIST_LIMIT\<close>, the problems stop
  one after \<open>MAX_PROBLEMS\<close>, a page of objects names a \<open>next\<close> only when it is full and then the hash of its last
  object, and the temporary files are temporary names older than the cutoff, oldest first.
\<close>

theorem listings_bounded:
  "(listObjects h limit after s = (Inr pg, s') \<longrightarrow>
      length (op_objects pg) \<le> limit_of limit \<and> limit_of limit \<le> MAX_LIST_LIMIT \<and> length (op_problems pg) \<le> MAX_PROBLEMS + 1 \<and>
      (\<forall>a. op_next pg = Some a \<longrightarrow> op_objects pg \<noteq> [] \<and> length (op_objects pg) = limit_of limit \<and> a = oe_sha256 (List.last (op_objects pg)))) \<and>
   (listTemporaryFiles h limit before s = (Inr (files, problems), s') \<longrightarrow>
      length files \<le> limit_of limit \<and> limit_of limit \<le> MAX_LIST_LIMIT \<and> length problems \<le> MAX_PROBLEMS + 1 \<and>
      list_all (abandoned (Option.bind before id)) files \<and> sorted (map (\<lambda>f. (tf_modifiedAt f, tf_name f)) files))"
  (is "?objects \<and> ?files")
proof
  show ?objects
  proof (intro impI)
    assume "listObjects h limit after s = (Inr pg, s')"
    from returnsD [OF returns_listObjects this] have "bounded_page (limit_of limit) pg" "1 \<le> limit_of limit" "limit_of limit \<le> MAX_LIST_LIMIT"
      by (simp_all add: open_page_def)
    then show "length (op_objects pg) \<le> limit_of limit \<and> limit_of limit \<le> MAX_LIST_LIMIT \<and> length (op_problems pg) \<le> MAX_PROBLEMS + 1 \<and>
      (\<forall>a. op_next pg = Some a \<longrightarrow> op_objects pg \<noteq> [] \<and> length (op_objects pg) = limit_of limit \<and> a = oe_sha256 (List.last (op_objects pg)))"
      by (fastforce simp: bounded_page_def few_def)
  qed
  show ?files using returnsD [OF returns_listTemporaryFiles [of h limit before], of s] by (fastforce simp: few_def)
qed

text \<open>
  C29. Following \<open>next\<close> from page to page lists the store: on a medium nobody else touches and whose calls
  do not fail, with an objects directory that is absent or a real one, the pages fetched with any valid limit end after at most one more than there are objects, and together they show every object of the layout
  exactly once, in the order of the hashes, with its size and time, and nothing else.
\<close>

theorem objects_walk_complete:
  assumes "undisturbed h" "limit = None \<or> (\<exists>n\<ge>1. limit = Some (Whole n) \<and> is_safe_int n)" "entry_at s (Below [OBJECTS_DIR]) \<in> {None, Some DirAt}"
  shows "finite {x. canonical_object s x} \<and>
    (\<exists>pgs. walk_objects h limit (Suc (card {x. canonical_object s x})) None s = Some pgs \<and>
       concat (map op_objects pgs) = map (object_of s) (sorted_list_of_set {x. canonical_object s x}))"
proof -
  have set: "set (all_objects s None) = {x. canonical_object s x}" by (auto simp: all_objects_iff passed_def)
  have "distinct (all_objects s None)" "sorted (all_objects s None)" using all_objects_strict [of s None] by (simp_all add: strict_sorted_iff)
  with sorted_list_of_set.idem_if_sorted_distinct [of "all_objects s None"] distinct_card [of "all_objects s None"]
  have all: "all_objects s None = sorted_list_of_set {x. canonical_object s x}" "length (all_objects s None) = card {x. canonical_object s x}"
    unfolding set by simp_all
  from walk_all [OF assms, of None "Suc (card {x. canonical_object s x})" "md_tick s"] all set finite_set [of "all_objects s None"]
  show ?thesis by simp
qed

section \<open>A store of two objects\<close>

definition other_hash :: jstring where
  "other_hash = replicate 64 0x62"

definition two_objects :: medium where
  "two_objects = quiet_medium\<lparr>md_entries :=
     [(Below [OBJECTS_DIR], DirAt), (Below [OBJECTS_DIR, shard1 other_hash], DirAt), (Below (objectDirectory other_hash), DirAt),
      (objectPath other_hash, FileAt 0), (Below [OBJECTS_DIR, shard1 some_hash], DirAt), (Below (objectDirectory some_hash), DirAt),
      (objectPath some_hash, FileAt 0)]\<rparr>"

lemma two_listed: "case listObjects quiet_host (Some (Whole 1)) None two_objects of
    (Inr pg, s) \<Rightarrow> map oe_sha256 (op_objects pg) = [some_hash] \<and> op_next pg = Some some_hash | _ \<Rightarrow> False"
  by code_simp

theorem listings_bounded_witness:
  "\<exists>pg s. listObjects quiet_host (Some (Whole 1)) None two_objects = (Inr pg, s) \<and> op_next pg = Some some_hash \<and>
     length (op_objects pg) = limit_of (Some (Whole 1))"
proof -
  obtain pg s where pg: "listObjects quiet_host (Some (Whole 1)) None two_objects = (Inr pg, s)" "op_next pg = Some some_hash"
    using two_listed by (auto split: prod.splits sum.splits)
  with listings_bounded [of quiet_host "Some (Whole 1)" None two_objects pg s] show ?thesis by blast
qed

lemma two_canonical: "canonical_object two_objects some_hash \<and> canonical_object two_objects other_hash"
proof -
  have "isSha256 some_hash \<and> isSha256 other_hash" by code_simp
  moreover have "entry_at two_objects (objectPath some_hash) = Some (FileAt 0) \<and> entry_at two_objects (objectPath other_hash) = Some (FileAt 0)" by code_simp
  moreover have "entry_at two_objects (Below (objectDirectory some_hash)) = Some DirAt \<and> entry_at two_objects (Below (objectDirectory other_hash)) = Some DirAt" by code_simp
  moreover have "entry_at two_objects (Below [OBJECTS_DIR, shard1 some_hash]) = Some DirAt \<and> entry_at two_objects (Below [OBJECTS_DIR, shard1 other_hash]) = Some DirAt" by code_simp
  moreover have "entry_at two_objects (Below [OBJECTS_DIR]) = Some DirAt" by code_simp
  ultimately show ?thesis unfolding canonical_object_def by blast
qed

theorem objects_walk_complete_witness:
  "\<exists>pgs. walk_objects quiet_host (Some (Whole 1)) (Suc (card {x. canonical_object two_objects x})) None two_objects = Some pgs \<and>
     object_of two_objects some_hash \<in> set (concat (map op_objects pgs)) \<and> object_of two_objects other_hash \<in> set (concat (map op_objects pgs))"
proof -
  have "undisturbed quiet_host" using quiet_alone by (simp add: undisturbed_def quiet_host_def)
  moreover have "entry_at two_objects (Below [OBJECTS_DIR]) \<in> {None, Some DirAt}" using two_canonical by (simp add: canonical_object_def)
  ultimately obtain pgs where "finite {x. canonical_object two_objects x}"
    "walk_objects quiet_host (Some (Whole 1)) (Suc (card {x. canonical_object two_objects x})) None two_objects = Some pgs"
    "concat (map op_objects pgs) = map (object_of two_objects) (sorted_list_of_set {x. canonical_object two_objects x})"
    using objects_walk_complete [of quiet_host "Some (Whole 1)" two_objects]
    by (auto simp: is_safe_int_def MAX_SAFE_INTEGER_def simp del: walk_objects.simps)
  moreover from this(1,3) two_canonical have "set (concat (map op_objects pgs)) = object_of two_objects ` {x. canonical_object two_objects x}"
    by (simp only: set_map set_sorted_list_of_set)
  ultimately show ?thesis using two_canonical by blast
qed

end
