(* ===== verification/Locks.thy ===== *)
theory Locks
  imports Json
begin

text \<open>
  The lease on the maintenance lock (\<open>src/ts/packages/postgres/src/locks.ts\<close>): a connection takes the lock, does the
  work, and goes back to the pool only with the lock proven to be gone.
\<close>

section \<open>The database as a lock sees it\<close>

record db_error =
  de_code :: "jstring option"
  de_message :: jstring

text \<open>What the pool and the database answer the statements around the work.\<close>

record lock_answers =
  la_connect :: "db_error option"
  la_begin :: "db_error option"
  la_config :: "db_error option"
  la_acquire :: "db_error option"
  la_commit :: "db_error option"
  la_release :: "db_error + bool option"

text \<open>What became of the connection; a discarded one is closed, and with it ends the session that holds the lock.\<close>

datatype connection_end = NeverConnected | BackInPool | DiscardedFor jstring

text \<open>The statements sent on the connection before and after the work.\<close>

datatype lock_mode = Shared | Exclusive

datatype lock_statement = BEGIN | SET_LOCK_TIMEOUT int | ACQUIRE lock_mode | COMMIT | ROLLBACK | WORK | RELEASE lock_mode

datatype 'e lock_failure = LockTimeoutInvalid | MaintenanceBusy int | LockStatement db_error | WorkFailed 'e

definition LOCK_NOT_AVAILABLE :: jstring where
  "LOCK_NOT_AVAILABLE = js ''55P03''"

section \<open>Acquiring and releasing\<close>

definition acquireLock :: "lock_answers \<Rightarrow> lock_mode \<Rightarrow> int option \<Rightarrow> db_error option \<times> lock_statement list" where
  "acquireLock la mode timeout =
     (case timeout of
        None \<Rightarrow> (la_acquire la, [ACQUIRE mode])
      | Some ms \<Rightarrow>
          (case la_begin la of
             Some e \<Rightarrow> (Some e, [BEGIN])
           | None \<Rightarrow>
          (case la_config la of
             Some e \<Rightarrow> (Some e, [BEGIN, SET_LOCK_TIMEOUT ms, ROLLBACK])
           | None \<Rightarrow>
          (case la_acquire la of
             Some e \<Rightarrow> (Some e, [BEGIN, SET_LOCK_TIMEOUT ms, ACQUIRE mode, ROLLBACK])
           | None \<Rightarrow>
          (case la_commit la of
             Some e \<Rightarrow> (Some e, [BEGIN, SET_LOCK_TIMEOUT ms, ACQUIRE mode, COMMIT, ROLLBACK])
           | None \<Rightarrow> (None, [BEGIN, SET_LOCK_TIMEOUT ms, ACQUIRE mode, COMMIT]))))))"

definition releaseLock :: "lock_answers \<Rightarrow> connection_end" where
  "releaseLock la =
     (case la_release la of
        Inl e \<Rightarrow> DiscardedFor (de_message e)
      | Inr (Some True) \<Rightarrow> BackInPool
      | Inr _ \<Rightarrow> DiscardedFor (js ''the maintenance lock was not held when it was released''))"

text \<open>The work is a computation on a state \<open>'w\<close> that returns or throws.\<close>

definition withLock :: "lock_answers \<Rightarrow> lock_mode \<Rightarrow> int option \<Rightarrow> ('w \<Rightarrow> ('e + 'a) \<times> 'w) \<Rightarrow> 'w \<Rightarrow>
    ('e lock_failure + 'a) \<times> connection_end \<times> lock_statement list \<times> 'w" where
  "withLock la mode timeout work w =
     (case la_connect la of
        Some e \<Rightarrow> (Inl (LockStatement e), NeverConnected, [], w)
      | None \<Rightarrow>
     (case acquireLock la mode timeout of
        (Some e, sent) \<Rightarrow>
          (Inl (case timeout of
                  Some ms \<Rightarrow> if de_code e = Some LOCK_NOT_AVAILABLE then MaintenanceBusy ms else LockStatement e
                | None \<Rightarrow> LockStatement e), DiscardedFor (de_message e), sent, w)
      | (None, sent) \<Rightarrow>
          (case work w of (r, w') \<Rightarrow>
             (case r of Inl e \<Rightarrow> Inl (WorkFailed e) | Inr a \<Rightarrow> Inr a, releaseLock la, sent @ [WORK, RELEASE mode], w'))))"

definition withIngestionLock :: "lock_answers \<Rightarrow> ('w \<Rightarrow> ('e + 'a) \<times> 'w) \<Rightarrow> 'w \<Rightarrow> ('e lock_failure + 'a) \<times> connection_end \<times> lock_statement list \<times> 'w" where
  "withIngestionLock la work w = withLock la Shared None work w"

definition checkTimeout :: "jnumber \<Rightarrow> int option" where
  "checkTimeout v = (case v of Whole n \<Rightarrow> if \<not> is_safe_int n \<or> n < 1 then None else Some n | Other _ \<Rightarrow> None)"

definition withMaintenanceLock :: "lock_answers \<Rightarrow> jnumber option \<Rightarrow> ('w \<Rightarrow> ('e + 'a) \<times> 'w) \<Rightarrow> 'w \<Rightarrow>
    ('e lock_failure + 'a) \<times> connection_end \<times> lock_statement list \<times> 'w" where
  "withMaintenanceLock la lockTimeoutMs work w =
     (case lockTimeoutMs of
        None \<Rightarrow> withLock la Exclusive None work w
      | Some v \<Rightarrow>
          (case checkTimeout v of
             None \<Rightarrow> (Inl LockTimeoutInvalid, NeverConnected, [], w)
           | Some ms \<Rightarrow> withLock la Exclusive (Some ms) work w))"

section \<open>The lease\<close>

lemma acquire_before_work: "acquireLock la mode timeout = (None, sent) \<Longrightarrow> ACQUIRE mode \<in> set sent \<and> la_acquire la = None \<and> WORK \<notin> set sent"
  by (auto simp: acquireLock_def split: option.splits)

lemma acquire_no_work: "acquireLock la mode timeout = (e, sent) \<Longrightarrow> WORK \<notin> set sent"
  by (auto simp: acquireLock_def split: option.splits)

text \<open>
  C27. A lease is exact: the work runs at most once, only after the lock was taken, and its state changes only then; what
  it returned or threw is passed on; and the connection goes back to the pool only when the work ran and the
  database answered that the lock was held and is gone: every other connection that was opened is
  discarded.
\<close>

theorem lease_is_exact:
  assumes "withMaintenanceLock la timeout work w = (r, e, sent, w')"
  shows "(if WORK \<in> set sent
      then \<exists>before. sent = before @ [WORK, RELEASE Exclusive] \<and> WORK \<notin> set before \<and> ACQUIRE Exclusive \<in> set before \<and> la_acquire la = None \<and> snd (work w) = w' \<and>
        (case fst (work w) of Inl f \<Rightarrow> r = Inl (WorkFailed f) | Inr a \<Rightarrow> r = Inr a) \<and>
        (e = BackInPool \<longleftrightarrow> la_release la = Inr (Some True)) \<and> e \<noteq> NeverConnected
      else w' = w \<and> e \<noteq> BackInPool \<and> (\<exists>f. r = Inl f) \<and> (e = NeverConnected \<longleftrightarrow> sent = []))"
proof -
  have main: "?thesis" if "withLock la Exclusive t work w = (r, e, sent, w')" for t
  proof (cases "la_connect la")
    case (Some x)
    then show ?thesis using that by (auto simp: withLock_def)
  next
    case None
    obtain x before where a: "acquireLock la Exclusive t = (x, before)" by fastforce
    have ne: "before \<noteq> []" using a by (auto simp: acquireLock_def split: option.splits)
    obtain r' w'' where wk: "work w = (r', w'')" by fastforce
    show ?thesis
    proof (cases x)
      case (Some f)
      then show ?thesis using that None a ne acquire_no_work [OF a] by (auto simp: withLock_def)
    next
      case ok: None
      have "releaseLock la \<noteq> NeverConnected" "releaseLock la = BackInPool \<longleftrightarrow> la_release la = Inr (Some True)"
        by (auto simp: releaseLock_def split: sum.splits option.splits bool.splits)
      then show ?thesis using that None a ok wk acquire_before_work [of la Exclusive t before] by (auto simp: withLock_def split: sum.splits)
    qed
  qed
  show ?thesis
  proof (cases timeout)
    case None
    then show ?thesis using main assms by (simp add: withMaintenanceLock_def)
  next
    case (Some v)
    then show ?thesis using main assms by (cases "checkTimeout v") (auto simp: withMaintenanceLock_def)
  qed
qed

definition granting :: lock_answers where
  "granting = \<lparr>la_connect = None, la_begin = None, la_config = None, la_acquire = None, la_commit = None, la_release = Inr (Some True)\<rparr>"

theorem lease_is_exact_witness:
  "\<exists>r sent. withMaintenanceLock granting (Some (Whole 5)) (\<lambda>w. (Inr w :: nat + nat, Suc w)) 3 = (r, BackInPool, sent, 4) \<and> r = Inr 3"
proof -
  obtain r e sent w' where p: "withMaintenanceLock granting (Some (Whole 5)) (\<lambda>w. (Inr w :: nat + nat, Suc w)) 3 = (r, e, sent, w')"
    using prod_cases4 by blast
  have "WORK \<in> set sent" using p by (auto simp: withMaintenanceLock_def withLock_def acquireLock_def granting_def checkTimeout_def is_safe_int_def MAX_SAFE_INTEGER_def)
  with lease_is_exact [OF p] p show ?thesis by (auto simp: granting_def)
qed

end
