(* ===== verification/Retention.thy ===== *)
theory Retention
  imports Blob_Walk Locks
begin

text \<open>
  Lifecycle maintenance (\<open>src/ts/packages/postgres/src/retention.ts\<close>): expired runs are deleted from the archive, blobs no
  run references are reclaimed from the catalog and from the blob store, and abandoned temporary files are
  swept.  The SQL of the module is given its meaning on the rows of the tables it names.
\<close>

section \<open>The archive\<close>

text \<open>
  The tables of \<open>migrations.ts\<close> a pass reads or writes, with the columns it uses.  Of the source lines only their
  run matters here.
\<close>

record run_row =
  rw_project :: jstring
  rw_run :: jstring
  rw_sequence :: int
  rw_ingestedAt :: int

record run_archive =
  qe_runs :: "run_row list"
  qe_run_retention :: "((jstring \<times> jstring) \<times> int) list"
  qe_run_source_lines :: "(jstring \<times> jstring) list"
  qe_run_blobs :: "((jstring \<times> jstring) \<times> jstring) list"
  qe_blobs :: "(jstring \<times> nat) list"

definition run_key :: "run_row \<Rightarrow> jstring \<times> jstring" where
  "run_key r = (rw_project r, rw_run r)"

text \<open>The answer of the n-th statement may be an error, which says nothing on whether the statement was executed.\<close>

record maintenance_host =
  mh_blobs :: blob_host
  mh_fault :: "nat \<Rightarrow> (jstring \<times> bool) option"
  mh_others :: "nat \<Rightarrow> run_archive \<Rightarrow> run_archive"

record world =
  w_archive :: run_archive
  w_statements :: nat
  w_medium :: medium

datatype maintenance_error = InvalidOption jstring | StatementFailed jstring | StoreFailed blob_error

type_synonym 'a world_op = "world \<Rightarrow> (maintenance_error + 'a) \<times> world"

definition statement :: "maintenance_host \<Rightarrow> (run_archive \<Rightarrow> 'a \<times> run_archive) \<Rightarrow> 'a world_op" where
  "statement h f w =
     (let n = w_statements w; a = mh_others h n (w_archive w) in
      case mh_fault h n of
        None \<Rightarrow> (case f a of (x, a') \<Rightarrow> (Inr x, w\<lparr>w_archive := a', w_statements := n + 1\<rparr>))
      | Some (m, executed) \<Rightarrow>
          (Inl (StatementFailed m), w\<lparr>w_archive := (if executed then snd (f a) else a), w_statements := n + 1\<rparr>))"

definition query :: "maintenance_host \<Rightarrow> (run_archive \<Rightarrow> 'a) \<Rightarrow> 'a world_op" where
  "query h f = statement h (\<lambda>a. (f a, a))"

definition return_w :: "'a \<Rightarrow> 'a world_op" where
  "return_w a w = (Inr a, w)"

definition bind_w :: "'a world_op \<Rightarrow> ('a \<Rightarrow> 'b world_op) \<Rightarrow> 'b world_op" where
  "bind_w m f w = (case m w of (Inl e, w') \<Rightarrow> (Inl e, w') | (Inr a, w') \<Rightarrow> f a w')"

text \<open>A call of the blob store.\<close>

definition blobs_call :: "'a blob_op \<Rightarrow> world \<Rightarrow> (blob_error + 'a) \<times> world" where
  "blobs_call m w = (case m (w_medium w) of (r, s) \<Rightarrow> (r, w\<lparr>w_medium := s\<rparr>))"

section \<open>Options and reports\<close>

definition LIMIT_runs :: nat where "LIMIT_runs = 100"
definition LIMIT_blobs :: nat where "LIMIT_blobs = 500"
definition LIMIT_uncataloguedBlobs :: nat where "LIMIT_uncataloguedBlobs = 500"
definition LIMIT_temporaryFiles :: nat where "LIMIT_temporaryFiles = 500"
definition LIMIT_legacy :: nat where "LIMIT_legacy = 100"
definition LIMIT_bytesExamined :: nat where "LIMIT_bytesExamined = 2 * 1024 * 1024 * 1024"
definition CAS_PAGE :: nat where "CAS_PAGE = 200"

text \<open>A \<open>Date\<close> is its time, or \<open>None\<close> when it is invalid.\<close>

record maintenance_options =
  mo_asOf :: "int option"
  mo_lockTimeoutMs :: "jnumber option"
  mo_tempBefore :: "int option option"
  mo_maxRuns :: "jnumber option"
  mo_maxBlobs :: "jnumber option"
  mo_afterSha256 :: "jstring option"
  mo_orphanObjectsBefore :: "int option option"
  mo_maxUncataloguedBlobs :: "jnumber option"
  mo_maxBytesExamined :: "jnumber option"
  mo_maxTemporaryFiles :: "jnumber option"
  mo_maxLegacyReported :: "jnumber option"

record expired_run =
  er_project :: jstring
  er_run :: jstring
  er_expiresAt :: int
  er_sequence :: int
  er_sourceLines :: nat
  er_blobRelations :: nat

record legacy_run =
  lr_project :: jstring
  lr_run :: jstring
  lr_ingestedAt :: int
  lr_blobRelations :: nat

datatype blob_origin = catalogued | uncatalogued

datatype reclaim_outcome = blob_removed | planned | object_absent | object_retained

record reclaimed_blob =
  rb_sha256 :: jstring
  rb_sizeBytes :: nat
  rb_origin :: blob_origin
  rb_outcome :: reclaim_outcome
  rb_catalogRowRemoved :: bool

datatype sweep_outcome = file_removed | file_planned | file_absent

datatype maintenance_code =
    RUN_DELETE_FAILED | RUN_DELETE_DECLINED | BLOB_UNSAFE | BLOB_DELETE_FAILED | CATALOG_DELETE_FAILED | CATALOG_ROW_RETAINED
  | BLOB_WAS_CHANGED | CAS_ENTRY_UNSAFE | TEMPORARY_ENTRY_UNSAFE | TEMPORARY_DELETE_FAILED

record maintenance_problem =
  mp_code :: maintenance_code
  mp_sha256 :: "jstring option"
  mp_path :: "jstring option"
  mp_message :: jstring

record maintenance_report =
  mr_asOf :: int
  mr_dryRun :: bool
  mr_expiredRuns :: "expired_run list"
  mr_sourceLinesReleased :: nat
  mr_blobRelationsReleased :: nat
  mr_legacyRuns :: "legacy_run list"
  mr_legacyRunCount :: nat
  mr_blobs :: "reclaimed_blob list"
  mr_bytesReclaimed :: nat
  mr_temporaryFiles :: "(temporary_file \<times> sweep_outcome) list"
  mr_temporaryBytesReclaimed :: nat
  mr_problems :: "maintenance_problem list"
  mr_truncatedRuns :: bool
  mr_truncatedBlobs :: bool
  mr_truncatedTemporaryFiles :: bool

definition invalid :: "jstring \<Rightarrow> 'a world_op" where
  "invalid m w = (Inl (InvalidOption m), w)"

definition checkDate :: "int option \<Rightarrow> string \<Rightarrow> int world_op" where
  "checkDate v name = (case v of None \<Rightarrow> invalid (js name @ js '' must be a valid Date'') | Some t \<Rightarrow> return_w t)"

definition check_date_option :: "int option option \<Rightarrow> string \<Rightarrow> int option world_op" where
  "check_date_option v name = (case v of None \<Rightarrow> return_w None | Some d \<Rightarrow> bind_w (checkDate d name) (\<lambda>t. return_w (Some t)))"

definition limit :: "jnumber option \<Rightarrow> nat \<Rightarrow> string \<Rightarrow> nat world_op" where
  "limit v fallback name =
     (case v of
        None \<Rightarrow> return_w fallback
      | Some (Whole n) \<Rightarrow>
          if \<not> is_safe_int n \<or> n < 1 then invalid (js name @ js '' must be a whole number of at least one'') else return_w (nat n)
      | Some (Other _) \<Rightarrow> invalid (js name @ js '' must be a whole number of at least one''))"

section \<open>Problems\<close>

definition cas_code_text :: "cas_code \<Rightarrow> jstring" where
  "cas_code_text c = (case c of MALFORMED_NAME \<Rightarrow> js ''MALFORMED_NAME'' | WRONG_SHARD \<Rightarrow> js ''WRONG_SHARD''
     | NOT_REGULAR \<Rightarrow> js ''NOT_REGULAR'' | UNEXPECTED_ENTRY \<Rightarrow> js ''UNEXPECTED_ENTRY'')"

definition casProblem :: "cas_problem \<Rightarrow> maintenance_problem" where
  "casProblem p = \<lparr>mp_code = CAS_ENTRY_UNSAFE, mp_sha256 = None, mp_path = Some (cp_path p), mp_message = cas_code_text (cp_code p) @ js '': '' @ cp_message p\<rparr>"

fun errno_text :: "io_error \<Rightarrow> jstring option" where
  "errno_text ENOENT = Some (js ''ENOENT'')"
| "errno_text ENOTDIR = Some (js ''ENOTDIR'')"
| "errno_text ELOOP = Some (js ''ELOOP'')"
| "errno_text EMLINK = Some (js ''EMLINK'')"
| "errno_text (OtherErrno c) = Some c"
| "errno_text (Thrown _) = None"

fun safeMessage :: "blob_error \<Rightarrow> jstring" where
  "safeMessage (BlobStoreError _ m _) = m"
| "safeMessage (BlobTypeError _) = js ''the object could not be removed''"
| "safeMessage (Operational e) =
     (case errno_text e of None \<Rightarrow> js ''the object could not be removed'' | Some c \<Rightarrow> js ''the object could not be removed ('' @ c @ js '')'')"

fun blobProblemCode :: "blob_error \<Rightarrow> maintenance_code" where
  "blobProblemCode (BlobStoreError c _ _) = (if c = BLOB_CHANGED then BLOB_WAS_CHANGED else BLOB_UNSAFE)"
| "blobProblemCode _ = BLOB_DELETE_FAILED"

definition blobProblem :: "blob_error \<Rightarrow> jstring \<Rightarrow> maintenance_problem" where
  "blobProblem e sha = \<lparr>mp_code = blobProblemCode e, mp_sha256 = Some sha, mp_path = None, mp_message = safeMessage e\<rparr>"

text \<open>The message of an error of the database.\<close>

fun message_of :: "maintenance_error \<Rightarrow> jstring" where
  "message_of (StatementFailed m) = m"
| "message_of (InvalidOption m) = m"
| "message_of (StoreFailed e) = safeMessage e"

section \<open>Expired runs\<close>

definition expired_at :: "int \<Rightarrow> run_archive \<Rightarrow> jstring \<times> jstring \<Rightarrow> bool" where
  "expired_at asOf a k \<longleftrightarrow> list_ex (\<lambda>(k', t). k' = k \<and> t \<le> asOf) (qe_run_retention a)"

definition expired_rows :: "int \<Rightarrow> run_archive \<Rightarrow> expired_run list" where
  "expired_rows asOf a = sort_key (\<lambda>r. (er_expiresAt r, er_sequence r))
     (concat (map (\<lambda>r. map (\<lambda>(k, t).
          \<lparr>er_project = rw_project r, er_run = rw_run r, er_expiresAt = t, er_sequence = rw_sequence r,
           er_sourceLines = length (filter (\<lambda>k. k = run_key r) (qe_run_source_lines a)),
           er_blobRelations = length (filter (\<lambda>(k, _). k = run_key r) (qe_run_blobs a))\<rparr>)
        (filter (\<lambda>(k, t). k = run_key r \<and> t \<le> asOf) (qe_run_retention a))) (qe_runs a)))"

definition selectExpired :: "maintenance_host \<Rightarrow> int \<Rightarrow> nat \<Rightarrow> (expired_run list \<times> bool) world_op" where
  "selectExpired h asOf most =
     bind_w (query h (\<lambda>a. take (most + 1) (expired_rows asOf a))) (\<lambda>rows.
     return_w (take most rows, length rows > most))"

definition expired_key :: "expired_run \<Rightarrow> jstring \<times> jstring" where
  "expired_key r = (er_project r, er_run r)"

text \<open>A run goes with its source lines, its blob relations and its retention fact (\<open>ON DELETE CASCADE\<close>).\<close>

definition delete_runs :: "(jstring \<times> jstring) set \<Rightarrow> run_archive \<Rightarrow> run_archive" where
  "delete_runs ks a = a\<lparr>qe_runs := filter (\<lambda>r. run_key r \<notin> ks) (qe_runs a),
     qe_run_retention := filter (\<lambda>(k, _). k \<notin> ks) (qe_run_retention a),
     qe_run_source_lines := filter (\<lambda>k. k \<notin> ks) (qe_run_source_lines a),
     qe_run_blobs := filter (\<lambda>(k, _). k \<notin> ks) (qe_run_blobs a)\<rparr>"

definition still_expired :: "int \<Rightarrow> (jstring \<times> jstring) set \<Rightarrow> run_archive \<Rightarrow> (jstring \<times> jstring) list" where
  "still_expired asOf ks a = map run_key (filter (\<lambda>r. run_key r \<in> ks \<and> expired_at asOf a (run_key r)) (qe_runs a))"

text \<open>
  One transaction: what the \<open>DELETE\<close> found is deleted by \<open>COMMIT\<close>; the rows are locked in between.  The \<open>ROLLBACK\<close>
  after an error changes nothing, and its own error is ignored.
\<close>

definition deleteRuns :: "maintenance_host \<Rightarrow> expired_run list \<Rightarrow> int \<Rightarrow> (jstring \<times> jstring) list world_op" where
  "deleteRuns h runs asOf =
     bind_w (query h (\<lambda>a. ())) (\<lambda>_.
     \<lambda>w. (case bind_w (query h (still_expired asOf (set (map expired_key runs)))) (\<lambda>deleted.
               bind_w (statement h (\<lambda>a. ((), delete_runs (set deleted) a))) (\<lambda>_. return_w deleted)) w of
            (Inr deleted, w) \<Rightarrow> (Inr deleted, w)
          | (Inl e, w) \<Rightarrow> (Inl e, snd (query h (\<lambda>a. ()) w))))"

text \<open>The set of keys that went is a set of strings with a null between project and run.\<close>

definition went_key :: "jstring \<times> jstring \<Rightarrow> jstring" where
  "went_key k = fst k @ [0] @ snd k"

definition plain_problem :: "maintenance_code \<Rightarrow> jstring \<Rightarrow> maintenance_problem" where
  "plain_problem c m = \<lparr>mp_code = c, mp_sha256 = None, mp_path = None, mp_message = m\<rparr>"

definition expire_runs :: "maintenance_host \<Rightarrow> bool \<Rightarrow> int \<Rightarrow> expired_run list \<Rightarrow> world \<Rightarrow> (expired_run list \<times> maintenance_problem list) \<times> world" where
  "expire_runs h destructive asOf runs w =
     (if destructive \<and> runs \<noteq> []
      then (case deleteRuns h runs asOf w of
              (Inr deleted, w) \<Rightarrow>
                let went = set (map went_key deleted) in
                ((filter (\<lambda>r. went_key (expired_key r) \<in> went) runs,
                  map (\<lambda>r. plain_problem RUN_DELETE_DECLINED (js ''run '' @ er_run r @ js '' in project '' @ er_project r @ js '' was no longer eligible when the batch ran''))
                    (filter (\<lambda>r. went_key (expired_key r) \<notin> went) runs)), w)
            | (Inl e, w) \<Rightarrow>
                (([], [plain_problem RUN_DELETE_FAILED (js ''no run of this batch of '' @ show_nat (length runs) @ js '' was deleted: '' @ message_of e)]), w))
      else ((runs, []), w))"

section \<open>One blob\<close>

definition referenced :: "run_archive \<Rightarrow> jstring \<Rightarrow> bool" where
  "referenced a sha \<longleftrightarrow> list_ex (\<lambda>(_, x). x = sha) (qe_run_blobs a)"

definition delete_catalogued :: "jstring \<Rightarrow> run_archive \<Rightarrow> bool \<times> run_archive" where
  "delete_catalogued sha a =
     (if referenced a sha then (False, a)
      else (list_ex (\<lambda>(x, _). x = sha) (qe_blobs a), a\<lparr>qe_blobs := filter (\<lambda>(x, _). x \<noteq> sha) (qe_blobs a)\<rparr>))"

definition reclaimed :: "jstring \<Rightarrow> nat \<Rightarrow> blob_origin \<Rightarrow> reclaim_outcome \<Rightarrow> bool \<Rightarrow> reclaimed_blob" where
  "reclaimed sha bytes origin result row = \<lparr>rb_sha256 = sha, rb_sizeBytes = bytes, rb_origin = origin, rb_outcome = result, rb_catalogRowRemoved = row\<rparr>"

definition remove_bytes :: "maintenance_host \<Rightarrow> jstring \<Rightarrow> nat \<Rightarrow> blob_origin \<Rightarrow> bool \<Rightarrow> world \<Rightarrow> (reclaimed_blob option \<times> maintenance_problem list) \<times> world" where
  "remove_bytes h sha bytes origin row w =
     (case blobs_call (removeObject (mh_blobs h) sha (Some (Whole (int bytes)))) w of
        (Inl e, w) \<Rightarrow> ((Some (reclaimed sha bytes origin object_retained row), [blobProblem e sha]), w)
      | (Inr r, w) \<Rightarrow> ((Some (reclaimed sha bytes origin (if r = removed then blob_removed else object_absent) row), []), w))"

definition reclaim :: "maintenance_host \<Rightarrow> jstring \<Rightarrow> nat \<Rightarrow> blob_origin \<Rightarrow> bool \<Rightarrow> world \<Rightarrow> (reclaimed_blob option \<times> maintenance_problem list) \<times> world" where
  "reclaim h sha bytes origin destructive w =
     (if \<not> destructive
      then (case blobs_call (blob_verify (mh_blobs h) sha (Whole (int bytes))) w of
              (Inr _, w) \<Rightarrow> ((Some (reclaimed sha bytes origin planned False), []), w)
            | (Inl e, w) \<Rightarrow>
                (case e of
                   BlobStoreError c _ _ \<Rightarrow>
                     if c = BLOB_MISSING then ((Some (reclaimed sha bytes origin object_absent False), []), w) else ((None, [blobProblem e sha]), w)
                 | _ \<Rightarrow> ((None, [blobProblem e sha]), w)))
      else if origin = catalogued
      then (case statement h (delete_catalogued sha) w of
              (Inl e, w) \<Rightarrow> ((None, [\<lparr>mp_code = CATALOG_DELETE_FAILED, mp_sha256 = Some sha, mp_path = None, mp_message = message_of e\<rparr>]), w)
            | (Inr rowRemoved, w) \<Rightarrow>
                if \<not> rowRemoved
                then ((None, [\<lparr>mp_code = CATALOG_ROW_RETAINED, mp_sha256 = Some sha, mp_path = None,
                       mp_message = js ''a run referenced the blob while it was being reclaimed; nothing was removed''\<rparr>]), w)
                else remove_bytes h sha bytes origin True w)
      else remove_bytes h sha bytes origin False w)"

section \<open>The sweep over blobs\<close>

record sweep =
  sw_bytes :: int
  sw_examined :: nat
  sw_remaining :: nat
  sw_truncated :: bool
  sw_done :: bool
  sw_blobs :: "reclaimed_blob list"
  sw_problems :: "maintenance_problem list"

text \<open>A candidate is examined: it is charged to the budget whatever comes of it.\<close>

definition examine :: "maintenance_host \<Rightarrow> bool \<Rightarrow> jstring \<Rightarrow> nat \<Rightarrow> blob_origin \<Rightarrow> sweep \<Rightarrow> world \<Rightarrow> sweep \<times> world" where
  "examine h destructive sha bytes origin sw w =
     (case reclaim h sha bytes origin destructive w of ((r, ps), w) \<Rightarrow>
        (sw\<lparr>sw_bytes := sw_bytes sw - int bytes, sw_examined := sw_examined sw + 1,
            sw_blobs := sw_blobs sw @ (case r of None \<Rightarrow> [] | Some b \<Rightarrow> [b]), sw_problems := sw_problems sw @ ps\<rparr>, w))"

definition over_budget :: "sweep \<Rightarrow> nat \<Rightarrow> bool" where
  "over_budget sw bytes \<longleftrightarrow> sw_examined sw > 0 \<and> sw_bytes sw < int bytes"

definition unreferenced_rows :: "nat \<Rightarrow> jstring option \<Rightarrow> run_archive \<Rightarrow> (jstring \<times> nat) list" where
  "unreferenced_rows n after a =
     take n (sort_key fst (filter (\<lambda>(sha, _). \<not> referenced a sha \<and> \<not> passed after sha) (qe_blobs a)))"

fun sweep_catalogued :: "maintenance_host \<Rightarrow> bool \<Rightarrow> (jstring \<times> nat) list \<Rightarrow> sweep \<Rightarrow> world \<Rightarrow> sweep \<times> world" where
  "sweep_catalogued h destructive [] sw w = (sw, w)"
| "sweep_catalogued h destructive ((sha, bytes) # rows) sw w =
     (if over_budget sw bytes then (sw\<lparr>sw_truncated := True\<rparr>, w)
      else case examine h destructive sha bytes catalogued sw w of (sw, w) \<Rightarrow> sweep_catalogued h destructive rows sw w)"

fun sweep_objects :: "maintenance_host \<Rightarrow> bool \<Rightarrow> int \<Rightarrow> jstring list \<Rightarrow> object_entry list \<Rightarrow> sweep \<Rightarrow> world \<Rightarrow> sweep \<times> world" where
  "sweep_objects h destructive before known [] sw w = (sw, w)"
| "sweep_objects h destructive before known (obj # objs) sw w =
     (if oe_sha256 obj \<in> set known then sweep_objects h destructive before known objs sw w
      else if oe_modifiedAt obj \<ge> before then sweep_objects h destructive before known objs sw w
      else if sw_remaining sw = 0 \<or> over_budget sw (oe_sizeBytes obj) then (sw\<lparr>sw_truncated := True, sw_done := True\<rparr>, w)
      else case examine h destructive (oe_sha256 obj) (oe_sizeBytes obj) uncatalogued (sw\<lparr>sw_remaining := sw_remaining sw - 1\<rparr>) w of
             (sw, w) \<Rightarrow> sweep_objects h destructive before known objs sw w)"

definition known_hashes :: "jstring list \<Rightarrow> run_archive \<Rightarrow> jstring list" where
  "known_hashes hashes a = map fst (filter (\<lambda>(sha, _). sha \<in> set hashes) (qe_blobs a))"

lemma cursor_advances:
  assumes "(Inr pg, w1) = blobs_call (listObjects b lim cursor) w" "op_next pg = Some nxt"
  shows "card {x. isSha256 x \<and> \<not> passed (Some nxt) x} < card {x. isSha256 x \<and> \<not> passed cursor x}"
proof -
  from assms(1) have "listObjects b lim cursor (w_medium w) = (Inr pg, w_medium w1)"
    by (auto simp: blobs_call_def split: prod.splits)
  from next_advances [OF this assms(2)] have "{x. isSha256 x \<and> \<not> passed (Some nxt) x} \<subset> {x. isSha256 x \<and> \<not> passed cursor x}"
    by (auto simp: passed_def split: option.splits)
  then show ?thesis by (rule psubset_card_mono [OF finite_after])
qed

text \<open>The loop over the pages; each cursor is a hash beyond the one before, so it ends.\<close>

function sweep_pages :: "maintenance_host \<Rightarrow> bool \<Rightarrow> int \<Rightarrow> jstring option \<Rightarrow> sweep \<Rightarrow> sweep world_op" where
  "sweep_pages h destructive before cursor sw w =
     (case blobs_call (listObjects (mh_blobs h) (Some (Whole (int CAS_PAGE))) cursor) w of
        (Inl e, w1) \<Rightarrow> (Inl (StoreFailed e), w1)
      | (Inr pg, w1) \<Rightarrow>
          (case query h (known_hashes (map oe_sha256 (op_objects pg))) w1 of
             (Inl e, w2) \<Rightarrow> (Inl e, w2)
           | (Inr known, w2) \<Rightarrow>
               (case sweep_objects h destructive before known (op_objects pg)
                       (sw\<lparr>sw_problems := sw_problems sw @ map casProblem (op_problems pg)\<rparr>) w2 of
                  (sw', w3) \<Rightarrow>
                    if sw_done sw' then (Inr sw', w3)
                    else (case op_next pg of None \<Rightarrow> (Inr sw', w3) | Some nxt \<Rightarrow> sweep_pages h destructive before (Some nxt) sw' w3))))"
  by pat_completeness auto
termination
proof (relation "measure (\<lambda>(h, destructive, before, cursor, sw, w). card {x. isSha256 x \<and> \<not> passed cursor x})")
  show "((h, destructive, before, Some nxt, sw', w3), h, destructive, before, cursor, sw, w) \<in>
      measure (\<lambda>(h, destructive, before, cursor, sw, w). card {x. isSha256 x \<and> \<not> passed cursor x})"
    if "(r, w1) = blobs_call (listObjects (mh_blobs h) (Some (Whole (int CAS_PAGE))) cursor) w" "r = Inr pg" "op_next pg = Some nxt"
    for h destructive before cursor sw sw' w w1 w3 r pg nxt
    using cursor_advances [of pg w1 "mh_blobs h" "Some (Whole (int CAS_PAGE))" cursor w nxt] that by simp
qed simp

section \<open>Temporary files\<close>

definition temporary_problem :: "cas_problem \<Rightarrow> maintenance_problem" where
  "temporary_problem p = (casProblem p)\<lparr>mp_code := TEMPORARY_ENTRY_UNSAFE\<rparr>"

fun sweep_temporary :: "maintenance_host \<Rightarrow> bool \<Rightarrow> temporary_file list \<Rightarrow> world \<Rightarrow> ((temporary_file \<times> sweep_outcome) list \<times> maintenance_problem list) \<times> world" where
  "sweep_temporary h destructive [] w = (([], []), w)"
| "sweep_temporary h destructive (f # fs) w =
     (if \<not> destructive
      then (case sweep_temporary h destructive fs w of ((swept, ps), w) \<Rightarrow> (((f, file_planned) # swept, ps), w))
      else case blobs_call (removeTemporaryFile (mh_blobs h) (tf_name f)) w of
             (Inr r, w) \<Rightarrow>
               (case sweep_temporary h destructive fs w of ((swept, ps), w) \<Rightarrow> (((f, if r = removed then file_removed else file_absent) # swept, ps), w))
           | (Inl e, w) \<Rightarrow>
               (case sweep_temporary h destructive fs w of ((swept, ps), w) \<Rightarrow>
                  ((swept, \<lparr>mp_code = (case e of BlobStoreError _ _ _ \<Rightarrow> TEMPORARY_ENTRY_UNSAFE | _ \<Rightarrow> TEMPORARY_DELETE_FAILED),
                            mp_sha256 = None, mp_path = Some (slashed [TEMP_DIR, tf_name f]), mp_message = safeMessage e\<rparr> # ps), w)))"

text \<open>The number handed to the listing: one more than the limit, which may leave the safe range.\<close>

definition one_more :: "nat \<Rightarrow> jnumber" where
  "one_more n = (if is_safe_int (int n + 1) then Whole (int n + 1) else Other (show_nat (n + 1)))"

definition sweep_temporaries :: "maintenance_host \<Rightarrow> bool \<Rightarrow> int option \<Rightarrow> nat \<Rightarrow>
    ((temporary_file \<times> sweep_outcome) list \<times> maintenance_problem list \<times> bool) world_op" where
  "sweep_temporaries h destructive before maxTemps w =
     (case before of
        None \<Rightarrow> (Inr ([], [], False), w)
      | Some b \<Rightarrow>
          (case blobs_call (listTemporaryFiles (mh_blobs h) (Some (one_more maxTemps)) (Some (Some b))) w of
             (Inl e, w) \<Rightarrow> (Inl (StoreFailed e), w)
           | (Inr (files, problems), w) \<Rightarrow>
               (case sweep_temporary h destructive (take maxTemps files) w of
                  ((swept, ps), w) \<Rightarrow> (Inr (swept, map temporary_problem problems @ ps, length files > maxTemps), w))))"

section \<open>A pass\<close>

definition managed :: "run_archive \<Rightarrow> jstring \<times> jstring \<Rightarrow> bool" where
  "managed a k \<longleftrightarrow> list_ex (\<lambda>(k', _). k' = k) (qe_run_retention a)"

definition legacyRuns :: "maintenance_host \<Rightarrow> nat \<Rightarrow> (legacy_run list \<times> nat) world_op" where
  "legacyRuns h most =
     bind_w (query h (\<lambda>a. length (filter (\<lambda>r. \<not> managed a (run_key r)) (qe_runs a)))) (\<lambda>total.
     bind_w (query h (\<lambda>a. take most (map (\<lambda>r. \<lparr>lr_project = rw_project r, lr_run = rw_run r, lr_ingestedAt = rw_ingestedAt r,
           lr_blobRelations = length (filter (\<lambda>(k, _). k = run_key r) (qe_run_blobs a))\<rparr>)
         (sort_key rw_sequence (filter (\<lambda>r. \<not> managed a (run_key r)) (qe_runs a)))))) (\<lambda>rows.
     return_w (rows, total)))"

definition report_of :: "int \<Rightarrow> bool \<Rightarrow> expired_run list \<Rightarrow> legacy_run list \<times> nat \<Rightarrow> reclaimed_blob list \<Rightarrow> (temporary_file \<times> sweep_outcome) list \<Rightarrow>
    maintenance_problem list \<Rightarrow> bool \<Rightarrow> bool \<Rightarrow> bool \<Rightarrow> maintenance_report" where
  "report_of asOf destructive runs legacy blobs files problems runsTruncated blobsTruncated tempsTruncated =
     \<lparr>mr_asOf = asOf, mr_dryRun = (\<not> destructive), mr_expiredRuns = runs,
      mr_sourceLinesReleased = sum_list (map er_sourceLines runs), mr_blobRelationsReleased = sum_list (map er_blobRelations runs),
      mr_legacyRuns = fst legacy, mr_legacyRunCount = snd legacy, mr_blobs = blobs,
      mr_bytesReclaimed = sum_list (map rb_sizeBytes (filter (\<lambda>b. rb_outcome b = blob_removed \<or> rb_outcome b = planned) blobs)),
      mr_temporaryFiles = files, mr_temporaryBytesReclaimed = sum_list (map (tf_sizeBytes \<circ> fst) files),
      mr_problems = problems, mr_truncatedRuns = runsTruncated, mr_truncatedBlobs = blobsTruncated, mr_truncatedTemporaryFiles = tempsTruncated\<rparr>"

record pass_limits =
  pl_asOf :: int
  pl_tempBefore :: "int option"
  pl_orphansBefore :: "int option"
  pl_maxRuns :: nat
  pl_maxBlobs :: nat
  pl_maxUncatalogued :: nat
  pl_maxBytes :: nat
  pl_maxTemps :: nat
  pl_maxLegacy :: nat
  pl_after :: "jstring option"

text \<open>The head of \<open>pass\<close>: the options are checked before anything is read.\<close>

definition pass_options :: "maintenance_options \<Rightarrow> pass_limits world_op" where
  "pass_options mo =
     bind_w (checkDate (mo_asOf mo) ''asOf'') (\<lambda>asOf.
     bind_w (check_date_option (mo_tempBefore mo) ''tempBefore'') (\<lambda>tempBefore.
     bind_w (check_date_option (mo_orphanObjectsBefore mo) ''orphanObjectsBefore'') (\<lambda>orphansBefore.
     bind_w (limit (mo_maxRuns mo) LIMIT_runs ''maxRuns'') (\<lambda>maxRuns.
     bind_w (limit (mo_maxBlobs mo) LIMIT_blobs ''maxBlobs'') (\<lambda>maxBlobs.
     bind_w (limit (mo_maxUncataloguedBlobs mo) LIMIT_uncataloguedBlobs ''maxUncataloguedBlobs'') (\<lambda>maxUncatalogued.
     bind_w (limit (mo_maxBytesExamined mo) LIMIT_bytesExamined ''maxBytesExamined'') (\<lambda>maxBytes.
     bind_w (limit (mo_maxTemporaryFiles mo) LIMIT_temporaryFiles ''maxTemporaryFiles'') (\<lambda>maxTemps.
     bind_w (limit (mo_maxLegacyReported mo) LIMIT_legacy ''maxLegacyReported'') (\<lambda>maxLegacy.
     if (case mo_afterSha256 mo of None \<Rightarrow> False | Some a \<Rightarrow> \<not> isSha256 a)
     then invalid (js ''afterSha256 must be 64 lower-case hex characters'')
     else return_w \<lparr>pl_asOf = asOf, pl_tempBefore = tempBefore, pl_orphansBefore = orphansBefore, pl_maxRuns = maxRuns, pl_maxBlobs = maxBlobs,
            pl_maxUncatalogued = maxUncatalogued, pl_maxBytes = maxBytes, pl_maxTemps = maxTemps, pl_maxLegacy = maxLegacy, pl_after = mo_afterSha256 mo\<rparr>)))))))))"

definition sweep_blobs :: "maintenance_host \<Rightarrow> bool \<Rightarrow> pass_limits \<Rightarrow> maintenance_problem list \<Rightarrow> sweep world_op" where
  "sweep_blobs h destructive pl problems =
     bind_w (query h (unreferenced_rows (pl_maxBlobs pl + 1) (pl_after pl))) (\<lambda>rows.
     \<lambda>w. case sweep_catalogued h destructive (take (pl_maxBlobs pl) rows)
               \<lparr>sw_bytes = int (pl_maxBytes pl), sw_examined = 0, sw_remaining = pl_maxUncatalogued pl, sw_truncated = length rows > pl_maxBlobs pl,
                sw_done = False, sw_blobs = [], sw_problems = problems\<rparr> w of
           (sw, w) \<Rightarrow>
             (case pl_orphansBefore pl of
                None \<Rightarrow> (Inr sw, w)
              | Some before \<Rightarrow> sweep_pages h destructive before None sw w))"

definition pass :: "maintenance_host \<Rightarrow> bool \<Rightarrow> maintenance_options \<Rightarrow> maintenance_report world_op" where
  "pass h destructive mo =
     bind_w (pass_options mo) (\<lambda>pl.
     bind_w (selectExpired h (pl_asOf pl) (pl_maxRuns pl)) (\<lambda>(selected, runsTruncated).
     \<lambda>w. case expire_runs h destructive (pl_asOf pl) selected w of
           ((expired, problems), w) \<Rightarrow>
             bind_w (sweep_blobs h destructive pl problems) (\<lambda>sw.
             bind_w (sweep_temporaries h destructive (pl_tempBefore pl) (pl_maxTemps pl)) (\<lambda>(files, ps, tempsTruncated).
             bind_w (legacyRuns h (pl_maxLegacy pl)) (\<lambda>legacy.
             return_w (report_of (pl_asOf pl) destructive expired legacy (sw_blobs sw) files (sw_problems sw @ ps)
               runsTruncated (sw_truncated sw) tempsTruncated)))) w))"

definition preview :: "maintenance_host \<Rightarrow> maintenance_options \<Rightarrow> maintenance_report world_op" where
  "preview h mo = pass h False mo"

definition run_maintenance :: "maintenance_host \<Rightarrow> lock_answers \<Rightarrow> maintenance_options \<Rightarrow> world \<Rightarrow>
    (maintenance_error lock_failure + maintenance_report) \<times> connection_end \<times> lock_statement list \<times> world" where
  "run_maintenance h la mo w = withMaintenanceLock la (mo_lockTimeoutMs mo) (pass h True mo) w"

end
