(* ===== verification/Blob_Frame.thy ===== *)
theory Blob_Frame
  imports Blob_Walk
begin

text \<open>
  What the operations of maintenance leave alone: a fact on the entries and the bytes that others do not disturb
  survives every look, and survives a removal when it does not speak of the entry removed.
\<close>

definition spares :: "blob_host \<Rightarrow> place set \<Rightarrow> (medium \<Rightarrow> bool) \<Rightarrow> bool" where
  "spares h ps P \<longleftrightarrow> frame h P \<and> (\<forall>p \<in> ps. \<forall>s. P s \<longrightarrow> P (drop_entry p s))"

text \<open>An operation that keeps \<open>P\<close>, whether it returns or throws.\<close>

definition keeps :: "(medium \<Rightarrow> bool) \<Rightarrow> ('e, 'a) medium_op \<Rightarrow> bool" where
  "keeps P m \<longleftrightarrow> triple P m (\<lambda>_. P) (\<lambda>_. P)"

named_theorems keeping

lemma keeps_return [keeping]: "keeps P (return_m a)"
  by (simp add: keeps_def triple_return)

lemma keeps_throw [keeping]: "keeps P (throw_m e)"
  by (simp add: keeps_def triple_throw)

lemma keeps_refuse [keeping]: "keeps P (refuse c m sha)"
  by (simp add: keeps_def triple_refuse)

lemma keeps_bind [keeping]: "keeps P m \<Longrightarrow> (\<And>a. keeps P (f a)) \<Longrightarrow> keeps P (bind_m m f)"
  unfolding keeps_def by (rule triple_bind)

lemma keeps_attempt [keeping]: "keeps P m \<Longrightarrow> keeps P (attempt_m m)"
  unfolding keeps_def triple_def attempt_m_def by (fastforce split: sum.splits prod.splits)

lemma keeps_io [keeping]: "keeps P m \<Longrightarrow> keeps P (io m)"
  unfolding keeps_def by (rule triple_io)

lemma keeps_if [keeping]: "keeps P m \<Longrightarrow> keeps P m' \<Longrightarrow> keeps P (if c then m else m')"
  by simp

lemma keeps_sum [keeping]: "(\<And>e. keeps P (f e)) \<Longrightarrow> (\<And>a. keeps P (g a)) \<Longrightarrow> keeps P (case r of Inl e \<Rightarrow> f e | Inr a \<Rightarrow> g a)"
  by (cases r) auto

lemma keeps_option [keeping]: "keeps P m \<Longrightarrow> (\<And>a. keeps P (g a)) \<Longrightarrow> keeps P (case r of None \<Rightarrow> m | Some a \<Rightarrow> g a)"
  by (cases r) auto

lemma keeps_prod [keeping]: "(\<And>a b. keeps P (f a b)) \<Longrightarrow> keeps P (case r of (a, b) \<Rightarrow> f a b)"
  by (cases r) auto

lemma keepsD: "keeps P m \<Longrightarrow> P s \<Longrightarrow> P (snd (m s))"
  unfolding keeps_def by (rule triple_snd [where P = P and Q = "\<lambda>_. P" and E = "\<lambda>_. P"]) auto

section \<open>Calls\<close>

lemma keeps_close:
  assumes "frame h P"
  shows "keeps P (close_m fd :: ('e, unit) medium_op)"
proof -
  have "P (s\<lparr>md_fds := (md_fds s)(fd := None)\<rparr>)" if "P s" for s
    by (rule sharedD [OF frame_shared [OF assms] _ _ that]) simp_all
  then show ?thesis unfolding keeps_def by (rule triple_close)
qed

lemma keeps_looks:
  assumes "frame h P"
  shows "keeps P (sys_lstat h p)" "keeps P (sys_fstat h fd)" "keeps P (sys_touch h fd)" "keeps P (sys_readdir h d)" "keeps P (sys_read h fd)"
  using look_calls [of h P] assms by (simp_all add: keeps_def frame_def)

lemma keeps_open:
  assumes "frame h P"
  shows "keeps P (sys_open h p)"
proof -
  have new: "P (snd (new_fd d s))" if "P s" for d s
    by (rule sharedD [OF frame_shared [OF assms] _ _ that]) (simp_all add: new_fd_def)
  have "stable h P" using assms by (simp add: frame_def)
  then show ?thesis unfolding keeps_def sys_open_def
    by (rule triple_sys_call) (use new in \<open>auto simp: triple_def split_def split: option.splits dir_entry.splits\<close>)
qed

lemma keeps_unlink:
  assumes "spares h ps P" "p \<in> ps"
  shows "keeps P (sys_unlink h p)"
proof -
  have "stable h P" using assms(1) by (simp add: spares_def frame_def)
  then show ?thesis unfolding keeps_def sys_unlink_def
    by (rule triple_sys_call) (use assms in \<open>auto simp: triple_def spares_def split: option.splits dir_entry.splits\<close>)
qed

section \<open>Operations\<close>

lemma keeps_checks: "keeps P (checkSha256 v)" "keeps P (checkSize n sha)" "keeps P (check_expected e sha)" "keeps P (checkTemporaryName name)"
    "keeps P (boundedLimit limit)" "keeps P (check_after after)"
  unfolding checkSha256_def checkSize_def check_expected_def checkTemporaryName_def boundedLimit_def check_after_def
  by (auto intro!: keeping split: jnumber.splits option.splits)

lemma keeps_object_looks:
  assumes "frame h P"
  shows "keeps P (blob_entryKind h p)" "keeps P (checkObjectDirectories h hash)" "keeps P (blob_openRegular h p)" "keeps P (blob_sha256Fd h fd)"
    "keeps P (openObject h hash)" "keeps P (syncDirectory h d)"
proof -
  note look = keeps_looks [OF assms] keeps_open [OF assms] keeps_close [OF assms]
  show kind: "keeps P (blob_entryKind h p)" for p unfolding blob_entryKind_def by (intro keeping look)
  have "keeps P (check_directories h ds)" for ds by (induction ds) (auto intro!: keeping kind)
  then show dirs: "keeps P (checkObjectDirectories h hash)" unfolding checkObjectDirectories_def by blast
  show reg: "keeps P (blob_openRegular h p)" for p unfolding blob_openRegular_def by (intro keeping look)
  show "keeps P (blob_sha256Fd h fd)" unfolding blob_sha256Fd_def by (intro keeping look)
  show "keeps P (openObject h hash)" unfolding openObject_def
    by (intro keeping dirs kind reg) (auto intro!: keeping split: entry_kind.splits)
  show "keeps P (syncDirectory h d)" unfolding syncDirectory_def by (intro keeping look)
qed

lemma keeps_verify:
  assumes "frame h P"
  shows "keeps P (blob_verify h sha n)"
proof -
  note object = keeps_object_looks [OF assms] keeps_close [OF assms] keeps_checks
  have "keeps P (existing h hash m)" for hash m unfolding existing_def by (intro keeping object)
  then show ?thesis unfolding blob_verify_def by (intro keeping object)
qed

lemma keeps_removeObject:
  assumes "spares h ps P" "objectPath sha \<in> ps"
  shows "keeps P (removeObject h sha n)"
proof -
  have f: "frame h P" using assms(1) by (simp add: spares_def)
  note object = keeps_object_looks [OF f] keeps_close [OF f] keeps_looks [OF f] keeps_checks keeps_unlink [OF assms]
  have opened: "keeps P (remove_opened h sha wanted fd)" for wanted fd
    unfolding remove_opened_def unlink_verified_def by (intro keeping object)
  have hash: "triple P (checkSha256 sha) (\<lambda>hash s. hash = sha \<and> P s) (\<lambda>_. P)"
    unfolding checkSha256_def by (intro triple_if triple_throw triple_return) auto
  have "keeps P (bind_m (check_expected n sha) (\<lambda>wanted. bind_m (checkObjectDirectories h sha) (\<lambda>_.
     bind_m (blob_entryKind h (objectPath sha)) (\<lambda>kind. if kind = Missing then return_m missing
       else bind_m (openObject h sha) (\<lambda>od. remove_opened h sha wanted (fst od))))))"
    by (intro keeping object opened)
  then show ?thesis unfolding keeps_def removeObject_def
    by (intro triple_bind [OF hash] triple_fact) (simp only:)
qed

lemma keeps_removeTemporaryFile:
  assumes "spares h ps P" "temporaryPath name \<in> ps"
  shows "keeps P (removeTemporaryFile h name)"
proof -
  have f: "frame h P" using assms(1) by (simp add: spares_def)
  show ?thesis unfolding removeTemporaryFile_def by (intro keeping keeps_checks keeps_object_looks [OF f] keeps_unlink [OF assms])
qed

section \<open>Listings\<close>

lemma keeps_listObjects:
  assumes "frame h P"
  shows "keeps P (listObjects h limit after)"
proof -
  note look = keeps_looks [OF assms] keeps_object_looks [OF assms] keeps_checks
  have es: "keeps P (entriesOf h d)" for d unfolding entriesOf_def by (intro keeping look)
  have sh: "keeps P (shards h d ps)" for d ps unfolding shards_def by (intro keeping es)
  have leaf: "keeps P (list_leaf h a l f g ns pg)" for a l f g ns pg
  proof (induction ns arbitrary: pg)
    case (Cons e ns)
    obtain name kind where e: "e = (name, kind)" by fastforce
    show ?case unfolding e list_leaf.simps Let_def by (intro keeping look Cons.IH)
  qed (simp add: keeps_return)
  have second: "keeps P (list_second h a l f gs pg)" for a l f gs pg
  proof (induction gs arbitrary: pg)
    case (Cons g gs)
    show ?case unfolding list_second.simps by (intro keeping es leaf Cons.IH)
  qed (simp add: keeps_return)
  have "keeps P (list_first h a l fs pg)" for a l fs pg
  proof (induction fs arbitrary: pg)
    case (Cons f fs)
    show ?case unfolding list_first.simps by (intro keeping sh second Cons.IH)
  qed (simp add: keeps_return)
  then show ?thesis unfolding listObjects_def by (intro keeping look sh)
qed

lemma keeps_listTemporaryFiles:
  assumes "frame h P"
  shows "keeps P (listTemporaryFiles h limit before)"
proof -
  note look = keeps_looks [OF assms] keeps_object_looks [OF assms] keeps_checks
  have es: "keeps P (entriesOf h d)" for d unfolding entriesOf_def by (intro keeping look)
  have "keeps P (list_temporary h b ns acc)" for b ns acc
  proof (induction ns arbitrary: acc)
    case (Cons e ns)
    obtain name kind where e: "e = (name, kind)" by fastforce
    show ?case unfolding e list_temporary.simps by (intro keeping look Cons.IH)
  qed (simp add: keeps_return)
  then show ?thesis unfolding listTemporaryFiles_def by (intro keeping look es)
qed

end
