(* ===== verification/Retention_Pass.thy ===== *)
theory Retention_Pass
  imports Retention Blob_Frame
begin

text \<open>
  What holds throughout a pass: the contract of an invariant, as a locale over the steps a pass is made of, and
  that a pass keeps whatever satisfies it.
\<close>

section \<open>Steps of a pass\<close>

declare sweep_pages.simps [simp del]

lemma query_world: "snd (query h f w) = w\<lparr>w_archive := mh_others h (w_statements w) (w_archive w), w_statements := w_statements w + 1\<rparr>"
  by (simp add: query_def statement_def Let_def split: option.splits prod.splits)

lemma statement_world: "snd (statement h f w) \<in>
    {w\<lparr>w_archive := mh_others h (w_statements w) (w_archive w), w_statements := w_statements w + 1\<rparr>,
     w\<lparr>w_archive := snd (f (mh_others h (w_statements w) (w_archive w))), w_statements := w_statements w + 1\<rparr>}"
  by (auto simp: statement_def Let_def split: option.splits prod.splits)

lemma statement_Inr: "statement h f w = (Inr x, w') \<Longrightarrow>
    w' = w\<lparr>w_archive := snd (f (mh_others h (w_statements w) (w_archive w))), w_statements := w_statements w + 1\<rparr> \<and>
    x = fst (f (mh_others h (w_statements w) (w_archive w)))"
  by (auto simp: statement_def Let_def split: option.splits prod.splits)

lemma query_Inr: "query h f w = (Inr x, w') \<Longrightarrow> x = f (w_archive w') \<and> w' = snd (query h f w)"
  unfolding query_def using statement_Inr [of h "\<lambda>a. (f a, a)" w x w'] by auto

lemma blobs_call_world: "snd (blobs_call m w) = w\<lparr>w_medium := snd (m (w_medium w))\<rparr>"
  by (simp add: blobs_call_def split_def)

lemma bind_w_cases:
  assumes "\<And>e w'. m w = (Inl e, w') \<Longrightarrow> I w'" "\<And>a w'. m w = (Inr a, w') \<Longrightarrow> I (snd (f a w'))"
  shows "I (snd (bind_w m f w))"
  using assms by (auto simp: bind_w_def split: prod.splits sum.splits)

text \<open>The options are checked without a look at the world.\<close>

lemma bind_w_pure: "(\<And>w. snd (m w) = w) \<Longrightarrow> (\<And>a w. snd (f a w) = w) \<Longrightarrow> snd (bind_w m f w) = w"
  by (auto simp: bind_w_def split: prod.splits sum.splits) (metis snd_conv)+

lemma pure_steps: "snd (return_w a w) = w" "snd (invalid m w) = w" "snd (checkDate v n w) = w" "snd (check_date_option d n w) = w" "snd (limit v' k n w) = w"
  by (auto simp: return_w_def invalid_def checkDate_def check_date_option_def limit_def split: option.splits jnumber.splits intro!: bind_w_pure)

lemma pass_options_pure: "snd (pass_options mo w) = w"
  unfolding pass_options_def by (intro bind_w_pure) (auto simp: pure_steps)

lemma bind_w_Inr: "bind_w m f w = (Inr b, w'') \<longleftrightarrow> (\<exists>a w'. m w = (Inr a, w') \<and> f a w' = (Inr b, w''))"
  by (auto simp: bind_w_def split: prod.splits sum.splits)

text \<open>A step after which \<open>I\<close> holds when it held before, whether the step returned or threw.\<close>

definition through :: "(world \<Rightarrow> bool) \<Rightarrow> (world \<Rightarrow> 'r \<times> world) \<Rightarrow> bool" where
  "through I m \<longleftrightarrow> (\<forall>w. I w \<longrightarrow> I (snd (m w)))"

named_theorems stepping

lemma throughD: "through I m \<Longrightarrow> I w \<Longrightarrow> m w = (r, w') \<Longrightarrow> I w'"
  by (auto simp: through_def dest!: spec [of _ w])

lemma through_return [stepping]: "through I (return_w a)" "through I (Pair r)"
  by (simp_all add: through_def return_w_def)

lemma through_bind [stepping]:
  assumes "through I m" "\<And>a. through I (f a)"
  shows "through I (bind_w m f)"
  unfolding through_def
proof (intro allI impI, rule bind_w_cases)
  show "I w'" if "I w" "m w = (Inl e, w')" for w e w' by (rule throughD [OF assms(1) that])
  show "I (snd (f a w'))" if "I w" "m w = (Inr a, w')" for w a w' using assms(2) throughD [OF assms(1) that] by (simp add: through_def)
qed

lemma through_then [stepping]: "through I m \<Longrightarrow> (\<And>a. through I (g a)) \<Longrightarrow> through I (\<lambda>w. case m w of (a, w') \<Rightarrow> g a w')"
  unfolding through_def by (auto simp: split_def)

lemma through_cases [stepping]:
  "through I m \<Longrightarrow> (\<And>e. through I (f e)) \<Longrightarrow> (\<And>a. through I (g a)) \<Longrightarrow> through I (\<lambda>w. case m w of (Inl e, w') \<Rightarrow> f e w' | (Inr a, w') \<Rightarrow> g a w')"
  unfolding through_def by (auto simp: split_def split: sum.splits)

lemma through_prod [stepping]: "(\<And>a b. through I (f a b)) \<Longrightarrow> through I (case p of (a, b) \<Rightarrow> f a b)"
  by (cases p) simp

section \<open>Invariants of a pass\<close>

definition catalogued_in :: "run_archive \<Rightarrow> jstring \<Rightarrow> bool" where
  "catalogued_in a sha \<longleftrightarrow> sha \<in> fst ` set (qe_blobs a)"

text \<open>
  The steps that may change what an invariant speaks of: others act on the archive; a store call looks; and, in a
  destructive pass, a batch of runs is deleted, a catalog row goes, an object with no row goes, a temporary file
  goes.  \<open>J\<close> is what holds until the batch is deleted.
\<close>

locale pass_invariant =
  fixes h :: maintenance_host and destructive :: bool and asOf :: int and most :: nat and J :: "world \<Rightarrow> bool" and I :: "world \<Rightarrow> bool"
  assumes others: "I w \<Longrightarrow> I (w\<lparr>w_archive := mh_others h n (w_archive w), w_statements := k\<rparr>)"
    and looks: "frame (mh_blobs h) (\<lambda>s. I (w\<lparr>w_medium := s\<rparr>))"
    and before: "J w \<Longrightarrow> I w"
    and waiting: "J w \<Longrightarrow> J (w\<lparr>w_archive := mh_others h n (w_archive w), w_statements := k\<rparr>)"
    and runs: "destructive \<Longrightarrow> J w \<Longrightarrow> ks = set (map expired_key (take most (expired_rows asOf (w_archive w0)))) \<Longrightarrow> J w0 \<Longrightarrow>
      I (w\<lparr>w_archive := delete_runs (set (still_expired asOf ks (w_archive w))) (mh_others h n (w_archive w)), w_statements := k\<rparr>)"
    and row: "destructive \<Longrightarrow> I w \<Longrightarrow> I (w\<lparr>w_archive := snd (delete_catalogued sha (mh_others h n (w_archive w))), w_statements := k\<rparr>)"
    and object: "destructive \<Longrightarrow> I w \<Longrightarrow> \<not> catalogued_in (w_archive w) sha \<Longrightarrow> I (w\<lparr>w_medium := drop_entry (objectPath sha) (w_medium w)\<rparr>)"
    and temporary: "destructive \<Longrightarrow> I w \<Longrightarrow> I (w\<lparr>w_medium := drop_entry (temporaryPath name) (w_medium w)\<rparr>)"
begin

lemma query_keeps: "I w \<Longrightarrow> I (snd (query h f w))"
  unfolding query_world by (rule others)

lemma call_keeps:
  assumes "I w" "keeps (\<lambda>s. I (w\<lparr>w_medium := s\<rparr>)) m"
  shows "I (snd (blobs_call m w))"
  using keepsD [OF assms(2), of "w_medium w"] assms(1) by (simp add: blobs_call_world)

lemma remove_bytes_keeps:
  assumes "destructive" "I w" "\<not> catalogued_in (w_archive w) sha"
  shows "I (snd (remove_bytes h sha n origin b w))"
proof -
  have "spares (mh_blobs h) {objectPath sha} (\<lambda>s. I (w\<lparr>w_medium := s\<rparr>))"
    using looks object [of "w\<lparr>w_medium := s\<rparr>" sha for s] assms(1,3) by (auto simp: spares_def)
  from call_keeps [OF assms(2) keeps_removeObject [OF this], of sha "Some (Whole (int n))"] show ?thesis
    by (auto simp: remove_bytes_def split: prod.splits sum.splits)
qed

lemma reclaim_keeps:
  assumes "I w" "origin = catalogued \<or> \<not> catalogued_in (w_archive w) sha"
  shows "I (snd (reclaim h sha n origin destructive w))"
proof (cases destructive)
  case False
  have "I (snd (blobs_call (blob_verify (mh_blobs h) sha (Whole (int n))) w))" by (rule call_keeps [OF assms(1) keeps_verify [OF looks]])
  with False show ?thesis by (auto simp: reclaim_def split: prod.splits sum.splits blob_error.splits)
next
  case True
  show ?thesis
  proof (cases "origin = catalogued")
    case cat: True
    obtain r w1 where s: "statement h (delete_catalogued sha) w = (r, w1)" by fastforce
    have w1: "I w1" using statement_world [of h "delete_catalogued sha" w] row [OF True assms(1)] others [OF assms(1)] s by auto
    have "\<not> catalogued_in (w_archive w1) sha" if "r = Inr True"
      using statement_Inr [of h "delete_catalogued sha" w True w1] s that by (auto simp: delete_catalogued_def catalogued_in_def split: if_splits)
    then show ?thesis using s True cat w1 remove_bytes_keeps [OF True w1] by (auto simp: reclaim_def split: sum.splits)
  next
    case unc: False
    then show ?thesis using True assms remove_bytes_keeps [OF True assms(1)] by (simp add: reclaim_def)
  qed
qed

lemma examine_keeps:
  "I w \<Longrightarrow> origin = catalogued \<or> \<not> catalogued_in (w_archive w) sha \<Longrightarrow> I (snd (examine h destructive sha n origin sw w))"
  using reclaim_keeps [of w origin sha n] by (auto simp: examine_def split: prod.splits)

lemma sweep_catalogued_keeps: "I w \<Longrightarrow> I (snd (sweep_catalogued h destructive rows sw w))"
proof (induction rows arbitrary: sw w)
  case (Cons e rows)
  obtain sha n where e: "e = (sha, n)" by fastforce
  then show ?case using Cons examine_keeps [OF Cons.prems, of catalogued sha n sw] by (auto split: prod.splits)
qed simp

lemma uncatalogued_archive: "w_archive (snd (examine h destructive sha n uncatalogued sw w)) = w_archive w"
  by (auto simp: examine_def reclaim_def remove_bytes_def blobs_call_def split: prod.splits sum.splits blob_error.splits)

lemma sweep_objects_keeps:
  assumes "I w" "\<forall>e \<in> set es. catalogued_in (w_archive w) (oe_sha256 e) \<longrightarrow> oe_sha256 e \<in> set known"
  shows "I (snd (sweep_objects h destructive before known es sw w))"
  using assms
proof (induction es arbitrary: sw w)
  case (Cons e es)
  show ?case
  proof (cases "oe_sha256 e \<in> set known \<or> oe_modifiedAt e \<ge> before \<or> sw_remaining sw = 0 \<or> over_budget sw (oe_sizeBytes e)")
    case True
    then show ?thesis using Cons by auto
  next
    case False
    let ?x = "examine h destructive (oe_sha256 e) (oe_sizeBytes e) uncatalogued (sw\<lparr>sw_remaining := sw_remaining sw - 1\<rparr>) w"
    have "I (snd ?x)" using Cons.prems False by (intro examine_keeps) auto
    with Cons.IH [of "snd ?x" "fst ?x"] uncatalogued_archive Cons.prems(2) False show ?thesis by (auto split: prod.splits)
  qed
qed simp

lemma sweep_pages_keeps: "I w \<Longrightarrow> I (snd (sweep_pages h destructive before cursor sw w))"
proof (induction "card {x. isSha256 x \<and> \<not> passed cursor x}" arbitrary: cursor sw w rule: less_induct)
  case less
  let ?list = "listObjects (mh_blobs h) (Some (Whole (int CAS_PAGE))) cursor"
  obtain r1 w1 where 1: "blobs_call ?list w = (r1, w1)" by fastforce
  have I1: "I w1" using call_keeps [OF less.prems keeps_listObjects [OF looks]] 1 by (metis snd_conv)
  show ?case
  proof (cases r1)
    case (Inl e)
    have "sweep_pages h destructive before cursor sw w = (Inl (StoreFailed e), w1)"
      by (subst sweep_pages.simps) (simp only: 1 Inl prod.case sum.case)
    then show ?thesis using I1 by simp
  next
    case (Inr pg)
    obtain r2 w2 where 2: "query h (known_hashes (map oe_sha256 (op_objects pg))) w1 = (r2, w2)" by fastforce
    have I2: "I w2" using query_keeps [OF I1] 2 by (metis snd_conv)
    show ?thesis
    proof (cases r2)
      case (Inl e)
      have "sweep_pages h destructive before cursor sw w = (Inl e, w2)"
        by (subst sweep_pages.simps) (simp only: 1 2 Inr Inl prod.case sum.case)
      then show ?thesis using I2 by simp
    next
      case known: (Inr known)
      have "known = known_hashes (map oe_sha256 (op_objects pg)) (w_archive w2)" using query_Inr [of h _ w1 known w2] 2 known by simp
      then have "\<forall>e \<in> set (op_objects pg). catalogued_in (w_archive w2) (oe_sha256 e) \<longrightarrow> oe_sha256 e \<in> set known"
        by (auto simp: known_hashes_def catalogued_in_def image_iff Bex_def)
      note I3 = sweep_objects_keeps [OF I2 this]
      obtain sw' w3 where 3: "sweep_objects h destructive before known (op_objects pg)
          (sw\<lparr>sw_problems := sw_problems sw @ map casProblem (op_problems pg)\<rparr>) w2 = (sw', w3)" by fastforce
      have I3: "I w3" using I3 3 by (metis snd_conv)
      have next1: "I (snd (sweep_pages h destructive before (Some nxt) sw' w3))" if "op_next pg = Some nxt" for nxt
        by (rule less.hyps [OF cursor_advances [of pg w1 "mh_blobs h" "Some (Whole (int CAS_PAGE))" cursor w] I3]) (simp_all add: 1 Inr that)
      have "sweep_pages h destructive before cursor sw w =
          (if sw_done sw' then (Inr sw', w3) else (case op_next pg of None \<Rightarrow> (Inr sw', w3) | Some nxt \<Rightarrow> sweep_pages h destructive before (Some nxt) sw' w3))"
        by (subst sweep_pages.simps) (simp only: 1 2 3 Inr known prod.case sum.case)
      then show ?thesis using I3 next1 by (cases "op_next pg") simp_all
    qed
  qed
qed

lemma waits: "J w \<Longrightarrow> J (snd (query h f w))"
  unfolding query_world by (rule waiting)

lemma selectExpired_keeps:
  assumes "J w" "selectExpired h asOf n w = (r, w1)"
  shows "J w1 \<and> (\<forall>rows t. r = Inr (rows, t) \<longrightarrow> (\<exists>w0. J w0 \<and> rows = take n (expired_rows asOf (w_archive w0))))"
proof -
  obtain q w2 where q: "query h (\<lambda>a. take (n + 1) (expired_rows asOf a)) w = (q, w2)" by fastforce
  have "J w2" using waits [OF assms(1)] q by (metis snd_conv)
  then show ?thesis using assms(2) q query_Inr [of h "\<lambda>a. take (n + 1) (expired_rows asOf a)" w _ w2]
    by (auto simp: selectExpired_def bind_w_def return_w_def min_def split: sum.splits)
qed

lemma deleteRuns_keeps:
  assumes "destructive" "J w" "J w0" "rows = take most (expired_rows asOf (w_archive w0))"
  shows "I (snd (deleteRuns h rows asOf w))"
proof -
  let ?ks = "set (map expired_key rows)"
  have commit: "I (snd (bind_w (query h (still_expired asOf ?ks)) (\<lambda>deleted.
      bind_w (statement h (\<lambda>a. ((), delete_runs (set deleted) a))) (\<lambda>_. return_w deleted)) w))" if "J w" for w
  proof (rule bind_w_cases)
    fix deleted w1
    assume q: "query h (still_expired asOf ?ks) w = (Inr deleted, w1)"
    then have d: "deleted = still_expired asOf ?ks (w_archive w1)" and J1: "J w1" using query_Inr [OF q] waits [OF that] by auto
    have "I (snd (statement h (\<lambda>a. ((), delete_runs (set deleted) a)) w1))"
      using statement_world [of h "\<lambda>a. ((), delete_runs (set deleted) a)" w1] before [OF waiting [OF J1]] runs [OF assms(1) J1 _ assms(3), of ?ks] assms(4) d
      by auto
    then show "I (snd (bind_w (statement h (\<lambda>a. ((), delete_runs (set deleted) a))) (\<lambda>_. return_w deleted) w1))"
      by (auto simp: bind_w_def return_w_def split: prod.splits sum.splits)
  next
    fix e w1
    assume "query h (still_expired asOf ?ks) w = (Inl e, w1)"
    then show "I w1" using before [OF waits [OF that]] by (metis snd_conv)
  qed
  show ?thesis unfolding deleteRuns_def
  proof (rule bind_w_cases)
    fix e w1
    assume "query h (\<lambda>a. ()) w = (Inl e, w1)"
    then show "I w1" using before [OF waits [OF assms(2)]] by (metis snd_conv)
  next
    fix u w1
    assume "query h (\<lambda>a. ()) w = (Inr u, w1)"
    then have "J w1" using waits [OF assms(2)] by (metis snd_conv)
    from commit [OF this] show "I (snd (case bind_w (query h (still_expired asOf ?ks)) (\<lambda>deleted.
        bind_w (statement h (\<lambda>a. ((), delete_runs (set deleted) a))) (\<lambda>_. return_w deleted)) w1 of
          (Inl e, w) \<Rightarrow> (Inl e, snd (query h (\<lambda>a. ()) w)) | (Inr deleted, w) \<Rightarrow> (Inr deleted, w)))"
      using query_keeps by (auto split: prod.splits sum.splits)
  qed
qed

lemma expire_runs_keeps:
  assumes "J w" "J w0" "rows = take most (expired_rows asOf (w_archive w0))"
  shows "I (snd (expire_runs h destructive asOf rows w))"
  using deleteRuns_keeps [OF _ assms] before [OF assms(1)] by (auto simp: expire_runs_def Let_def split: prod.splits sum.splits)

lemma sweep_blobs_through: "through I (sweep_blobs h destructive pl ps)"
proof -
  have q: "through I (query h f)" for f :: "run_archive \<Rightarrow> (jstring \<times> nat) list" by (simp add: through_def query_keeps)
  have c: "through I (sweep_catalogued h destructive rows sw)" for rows sw by (simp add: through_def sweep_catalogued_keeps)
  have g: "through I (\<lambda>w. case b of None \<Rightarrow> (Inr sw, w) | Some before \<Rightarrow> sweep_pages h destructive before None sw w)" for b sw
    using sweep_pages_keeps by (cases b) (simp_all add: through_def)
  show ?thesis unfolding sweep_blobs_def by (rule through_bind [OF q], rule through_then [OF c g])
qed

lemma sweep_temporary_keeps: "I w \<Longrightarrow> I (snd (sweep_temporary h destructive fs w))"
proof (induction fs arbitrary: w)
  case (Cons f fs)
  show ?case
  proof (cases destructive)
    case False
    then show ?thesis using Cons by (auto simp: split_def)
  next
    case True
    have "spares (mh_blobs h) {temporaryPath (tf_name f)} (\<lambda>s. I (w\<lparr>w_medium := s\<rparr>))"
      using looks temporary [OF True, of "w\<lparr>w_medium := s\<rparr>" "tf_name f" for s] by (auto simp: spares_def)
    from call_keeps [OF Cons.prems keeps_removeTemporaryFile [OF this]]
    have c: "I (snd (blobs_call (removeTemporaryFile (mh_blobs h) (tf_name f)) w))" by simp
    obtain r w1 where w1: "blobs_call (removeTemporaryFile (mh_blobs h) (tf_name f)) w = (r, w1)" by fastforce
    show ?thesis using Cons.IH [of w1] c w1 True by (cases r) (auto simp: split_def)
  qed
qed simp

lemma sweep_temporaries_through: "through I (sweep_temporaries h destructive before n)"
proof (cases before)
  case (Some b)
  have l: "through I (blobs_call (listTemporaryFiles (mh_blobs h) (Some (one_more n)) (Some (Some b))))"
    unfolding through_def by (intro allI impI call_keeps keeps_listTemporaryFiles looks)
  have "through I (sweep_temporary h destructive fs)" for fs by (simp add: through_def sweep_temporary_keeps)
  then have "through I (\<lambda>w. case sweep_temporary h destructive (take n fs) w of ((swept, ps), w) \<Rightarrow> (Inr (swept, map temporary_problem p @ ps, length fs > n), w))" for fs p
    by (auto simp: through_def split_def)
  with l Some show ?thesis unfolding through_def sweep_temporaries_def by (auto simp: split_def split: sum.splits)
qed (simp add: sweep_temporaries_def [abs_def] through_def)

lemma legacyRuns_through: "through I (legacyRuns h n)"
  unfolding legacyRuns_def by (intro stepping) (simp_all add: through_def query_keeps)

theorem pass_keeps:
  assumes "J w" "\<And>pl w'. pass_options mo w = (Inr pl, w') \<Longrightarrow> pl_asOf pl = asOf \<and> pl_maxRuns pl = most"
  shows "I (snd (pass h destructive mo w))"
  unfolding pass_def
proof (rule bind_w_cases)
  fix e w'
  assume "pass_options mo w = (Inl e, w')"
  then show "I w'" using pass_options_pure [of mo w] before [OF assms(1)] by simp
next
  fix pl w'
  assume pl: "pass_options mo w = (Inr pl, w')"
  then have J: "J w'" using pass_options_pure [of mo w] assms(1) by simp
  have tail: "through I (bind_w (sweep_blobs h destructive pl problems) (\<lambda>sw.
       bind_w (sweep_temporaries h destructive (pl_tempBefore pl) (pl_maxTemps pl)) (\<lambda>(files, ps, tempsTruncated).
       bind_w (legacyRuns h (pl_maxLegacy pl)) (\<lambda>legacy.
       return_w (report_of (pl_asOf pl) destructive expired legacy (sw_blobs sw) files (sw_problems sw @ ps) t (sw_truncated sw) tempsTruncated)))))" for problems expired t
    by (intro through_bind sweep_blobs_through sweep_temporaries_through legacyRuns_through through_prod through_return)
  show "I (snd (bind_w (selectExpired h (pl_asOf pl) (pl_maxRuns pl)) (\<lambda>(selected, runsTruncated). \<lambda>w.
      case expire_runs h destructive (pl_asOf pl) selected w of
           ((expired, problems), w) \<Rightarrow>
             bind_w (sweep_blobs h destructive pl problems) (\<lambda>sw.
             bind_w (sweep_temporaries h destructive (pl_tempBefore pl) (pl_maxTemps pl)) (\<lambda>(files, ps, tempsTruncated).
             bind_w (legacyRuns h (pl_maxLegacy pl)) (\<lambda>legacy.
             return_w (report_of (pl_asOf pl) destructive expired legacy (sw_blobs sw) files (sw_problems sw @ ps)
               runsTruncated (sw_truncated sw) tempsTruncated)))) w) w'))"
  proof (rule bind_w_cases)
    show "I w1" if "selectExpired h (pl_asOf pl) (pl_maxRuns pl) w' = (Inl e, w1)" for e w1
      using selectExpired_keeps [OF J] that assms(2) [OF pl] before by simp
  next
    fix sel w1
    assume sel: "selectExpired h (pl_asOf pl) (pl_maxRuns pl) w' = (Inr sel, w1)"
    obtain rows t where rows: "sel = (rows, t)" by fastforce
    obtain w0 where s: "J w1" "J w0" "rows = take most (expired_rows asOf (w_archive w0))"
      using selectExpired_keeps [OF J] sel assms(2) [OF pl] rows by blast
    obtain expired problems w2 where e: "expire_runs h destructive (pl_asOf pl) rows w1 = ((expired, problems), w2)" by (metis surj_pair)
    have "I w2" using expire_runs_keeps [OF s] e assms(2) [OF pl] by simp
    with tail [of problems expired t] show "I (snd ((case sel of (selected, runsTruncated) \<Rightarrow> \<lambda>w.
      case expire_runs h destructive (pl_asOf pl) selected w of
           ((expired, problems), w) \<Rightarrow>
             bind_w (sweep_blobs h destructive pl problems) (\<lambda>sw.
             bind_w (sweep_temporaries h destructive (pl_tempBefore pl) (pl_maxTemps pl)) (\<lambda>(files, ps, tempsTruncated).
             bind_w (legacyRuns h (pl_maxLegacy pl)) (\<lambda>legacy.
             return_w (report_of (pl_asOf pl) destructive expired legacy (sw_blobs sw) files (sw_problems sw @ ps)
               runsTruncated (sw_truncated sw) tempsTruncated)))) w) w1))"
      by (simp only: rows e prod.case through_def)
  qed
qed

end

text \<open>The batch is chosen by the options, so an invariant for every batch is one of every pass.\<close>

lemma every_pass_keeps:
  assumes "\<And>asOf most. pass_invariant h destructive asOf most I I" "I w"
  shows "I (snd (pass h destructive mo w))"
proof -
  obtain r w' where r: "pass_options mo w = (r, w')" by fastforce
  let ?pl = "case r of Inr pl \<Rightarrow> pl"
  show ?thesis by (rule pass_invariant.pass_keeps [OF assms(1) [of "pl_asOf ?pl" "pl_maxRuns ?pl"] assms(2)]) (simp add: r)
qed

end
