(* ===== verification/Retention_Properties.thy ===== *)
theory Retention_Properties
  imports Retention_Pass
begin

text \<open>
  What maintenance promises: bytes a run still references stay, an expired batch goes as a whole or not at all, a
  preview changes nothing, and a report keeps within the limits of its pass.
\<close>

section \<open>Referenced bytes\<close>


text \<open>
  What the exclusive lock gives: no other session adds a reference or takes the catalog row of a referenced
  blob, and nobody else takes an object away.
\<close>

definition exclusive :: "maintenance_host \<Rightarrow> bool" where
  "exclusive h \<longleftrightarrow>
     (\<forall>n a sha. referenced (mh_others h n a) sha \<longrightarrow>
        referenced a sha \<and> (\<forall>m. (sha, m) \<in> set (qe_blobs a) \<longrightarrow> (sha, m) \<in> set (qe_blobs (mh_others h n a)))) \<and>
     (\<forall>n s sha m. has_object (mh_blobs h) sha m s \<longrightarrow> has_object (mh_blobs h) sha m (bh_env (mh_blobs h) n s))"


lemma delete_runs_blobs [simp]: "qe_blobs (delete_runs ks a) = qe_blobs a"
  by (simp add: delete_runs_def)















section \<open>A preview\<close>

definition unshared :: "maintenance_host \<Rightarrow> bool" where
  "unshared h \<longleftrightarrow> (\<forall>n a. mh_others h n a = a) \<and>
     (\<forall>n s. entry_at (bh_env (mh_blobs h) n s) = entry_at s \<and> md_content (bh_env (mh_blobs h) n s) = md_content s)"

definition same_world :: "world \<Rightarrow> world \<Rightarrow> bool" where
  "same_world w w' \<longleftrightarrow> w_archive w' = w_archive w \<and> entry_at (w_medium w') = entry_at (w_medium w) \<and> md_content (w_medium w') = md_content (w_medium w)"

lemma same_frame: "frame (mh_blobs h) (\<lambda>s. unshared h \<longrightarrow> same_world w0 (w\<lparr>w_medium := s\<rparr>))"
  unfolding frame_def
proof
  show "shared (\<lambda>s. unshared h \<longrightarrow> same_world w0 (w\<lparr>w_medium := s\<rparr>))" by (rule sharedI) (simp add: same_world_def)
  show "stable (mh_blobs h) (\<lambda>s. unshared h \<longrightarrow> same_world w0 (w\<lparr>w_medium := s\<rparr>))"
    by (simp add: stable_def same_world_def unshared_def)
qed

interpretation looking: pass_invariant h False asOf most "\<lambda>w. unshared h \<longrightarrow> same_world w0 w" "\<lambda>w. unshared h \<longrightarrow> same_world w0 w"
  for h asOf most w0
  by unfold_locales (rule same_frame | simp add: same_world_def unshared_def)+

text \<open>
  C25. A preview changes nothing: no row of the archive, no entry and no byte of the store, whatever fails on the way;
  any difference is somebody else's.
\<close>

theorem preview_changes_nothing:
  assumes "unshared h"
  shows "same_world w (snd (preview h mo w))"
  using every_pass_keeps [OF looking.pass_invariant_axioms, of h w w mo] assms by (simp add: preview_def same_world_def)

section \<open>The batch of expired runs\<close>

text \<open>The tables that speak of runs.\<close>

definition run_tables :: "run_archive \<Rightarrow> run_row list \<times> ((jstring \<times> jstring) \<times> int) list \<times> (jstring \<times> jstring) list \<times> ((jstring \<times> jstring) \<times> jstring) list" where
  "run_tables a = (qe_runs a, qe_run_retention a, qe_run_source_lines a, qe_run_blobs a)"

definition expired_batch :: "int \<Rightarrow> nat \<Rightarrow> run_archive \<Rightarrow> (jstring \<times> jstring) set" where
  "expired_batch asOf most a = set (map expired_key (take most (expired_rows asOf a)))"

lemma expired_rows_tables: "run_tables a = run_tables a' \<Longrightarrow> expired_rows asOf a = expired_rows asOf a'"
  by (simp add: run_tables_def expired_rows_def)

lemma expired_rows_key: "k \<in> set (map expired_key (expired_rows asOf a)) \<longleftrightarrow> k \<in> set (map run_key (qe_runs a)) \<and> expired_at asOf a k"
proof -
  have "set (map expired_key (expired_rows asOf a)) = (\<Union>r \<in> set (qe_runs a). (\<lambda>x. run_key r) ` {x \<in> set (qe_run_retention a). fst x = run_key r \<and> snd x \<le> asOf})"
    unfolding expired_rows_def set_map set_sort set_concat image_UN
    by (simp add: image_image expired_key_def run_key_def split_def)
  then show ?thesis by (auto simp: expired_at_def list_ex_iff split_def)
qed

lemma batch_expired: "k \<in> expired_batch asOf most a \<Longrightarrow> k \<in> set (map run_key (qe_runs a)) \<and> expired_at asOf a k"
proof -
  assume "k \<in> expired_batch asOf most a"
  then have "k \<in> set (map expired_key (expired_rows asOf a))" unfolding expired_batch_def take_map [symmetric] by (rule in_set_takeD)
  then show ?thesis by (simp only: expired_rows_key)
qed

lemma batch_card: "card (expired_batch asOf most a) \<le> most"
proof -
  have "card (expired_batch asOf most a) \<le> length (map expired_key (take most (expired_rows asOf a)))" unfolding expired_batch_def by (rule card_length)
  then show ?thesis by simp
qed

lemma still_expired_batch: "set (still_expired asOf (expired_batch asOf most a) a) = expired_batch asOf most a"
proof
  show "expired_batch asOf most a \<subseteq> set (still_expired asOf (expired_batch asOf most a) a)"
  proof
    fix k
    assume k: "k \<in> expired_batch asOf most a"
    then obtain r where "r \<in> set (qe_runs a)" "k = run_key r" "expired_at asOf a k" using batch_expired [OF k] by auto
    with k show "k \<in> set (still_expired asOf (expired_batch asOf most a) a)" by (simp add: still_expired_def)
  qed
qed (auto simp: still_expired_def)

lemma tables_still_expired: "run_tables a = run_tables a' \<Longrightarrow> still_expired asOf ks a = still_expired asOf ks a'"
  by (simp add: run_tables_def still_expired_def expired_at_def)

lemma tables_delete: "run_tables a = run_tables a' \<Longrightarrow> run_tables (delete_runs ks a) = run_tables (delete_runs ks a')"
  by (simp add: run_tables_def delete_runs_def)

lemma tables_row: "run_tables (snd (delete_catalogued sha a)) = run_tables a"
  by (simp add: run_tables_def delete_catalogued_def)

definition batch_state :: "maintenance_host \<Rightarrow> bool \<Rightarrow> int \<Rightarrow> nat \<Rightarrow> run_archive \<Rightarrow> world \<Rightarrow> bool" where
  "batch_state h destructive asOf most a w \<longleftrightarrow> ((\<forall>n a. mh_others h n a = a) \<longrightarrow>
     run_tables (w_archive w) = run_tables a \<or> destructive \<and> run_tables (w_archive w) = run_tables (delete_runs (expired_batch asOf most a) a))"

lemma frame_archive: "frame b (\<lambda>s. P (w_archive (w\<lparr>w_medium := s\<rparr>)))"
  by (simp add: frame_def shared_def stable_def)

interpretation batched: pass_invariant h destructive asOf most "\<lambda>w. (\<forall>n a. mh_others h n a = a) \<longrightarrow> run_tables (w_archive w) = run_tables a"
    "batch_state h destructive asOf most a"
  for h destructive asOf most a
proof unfold_locales
  fix w w0 :: world and n k ks
  assume d: destructive and w: "(\<forall>n a. mh_others h n a = a) \<longrightarrow> run_tables (w_archive w) = run_tables a"
    and ks: "ks = set (map expired_key (take most (expired_rows asOf (w_archive w0))))"
    and w0: "(\<forall>n a. mh_others h n a = a) \<longrightarrow> run_tables (w_archive w0) = run_tables a"
  have "run_tables (delete_runs (set (still_expired asOf ks (w_archive w))) (w_archive w)) = run_tables (delete_runs (expired_batch asOf most a) a)"
    if q: "\<forall>n a. mh_others h n a = a"
  proof -
    have w0a: "run_tables (w_archive w0) = run_tables a" using w0 q by blast
    have b: "ks = expired_batch asOf most a" unfolding ks expired_batch_def expired_rows_tables [OF w0a] by (rule refl)
    have wa: "run_tables (w_archive w) = run_tables a" using w q by blast
    show ?thesis unfolding b tables_still_expired [OF wa] still_expired_batch by (rule tables_delete [OF wa])
  qed
  then show "batch_state h destructive asOf most a
      (w\<lparr>w_archive := delete_runs (set (still_expired asOf ks (w_archive w))) (mh_others h n (w_archive w)), w_statements := k\<rparr>)"
    using d by (simp add: batch_state_def)
qed (auto simp: batch_state_def tables_row frame_def shared_def stable_def)

text \<open>
  C24. Only expired runs go, and a batch goes whole: when no other session writes, after a pass the runs, their retention,
  source lines and blob relations are those of before, or, in a destructive pass, those of before without exactly the
  selected batch; the batch is the earliest expired runs, at most \<open>maxRuns\<close>, each with an expiry at or before
  \<open>asOf\<close>, so a run that has not expired, or has no expiry at all, always stays.
\<close>

theorem expired_batch_atomic:
  assumes "\<forall>n a. mh_others h n a = a" "pass_options mo w = (Inr pl, w)"
  defines "ks \<equiv> expired_batch (pl_asOf pl) (pl_maxRuns pl) (w_archive w)"
  shows "(run_tables (w_archive (snd (pass h destructive mo w))) = run_tables (w_archive w) \<or>
      destructive \<and> run_tables (w_archive (snd (pass h destructive mo w))) = run_tables (delete_runs ks (w_archive w))) \<and>
    card ks \<le> pl_maxRuns pl \<and> (\<forall>k \<in> ks. expired_at (pl_asOf pl) (w_archive w) k)"
proof -
  have "batch_state h destructive (pl_asOf pl) (pl_maxRuns pl) (w_archive w) (snd (pass h destructive mo w))"
    by (rule batched.pass_keeps) (use assms(2) in auto)
  then show ?thesis using assms(1) batch_card batch_expired unfolding ks_def batch_state_def by blast
qed

section \<open>A small archive\<close>

definition sample_maintenance :: maintenance_host where
  "sample_maintenance = \<lparr>mh_blobs = quiet_host, mh_fault = \<lambda>_. None, mh_others = \<lambda>_ a. a\<rparr>"

definition sample_options :: maintenance_options where
  "sample_options = \<lparr>mo_asOf = Some 10, mo_lockTimeoutMs = Some (Whole 50), mo_tempBefore = None, mo_maxRuns = Some (Whole 1), mo_maxBlobs = None,
     mo_afterSha256 = None, mo_orphanObjectsBefore = None, mo_maxUncataloguedBlobs = None, mo_maxBytesExamined = None,
     mo_maxTemporaryFiles = None, mo_maxLegacyReported = None\<rparr>"

text \<open>One expired run, one that is not, which references an object of the store.\<close>

definition sample_world :: world where
  "sample_world = \<lparr>w_archive = \<lparr>qe_runs = [\<lparr>rw_project = js ''p'', rw_run = js ''old'', rw_sequence = 1, rw_ingestedAt = 0\<rparr>,
       \<lparr>rw_project = js ''p'', rw_run = js ''new'', rw_sequence = 2, rw_ingestedAt = 0\<rparr>],
     qe_run_retention = [((js ''p'', js ''old''), 5), ((js ''p'', js ''new''), 20)], qe_run_source_lines = [(js ''p'', js ''old''), (js ''p'', js ''new'')],
     qe_run_blobs = [((js ''p'', js ''new''), some_hash)], qe_blobs = [(some_hash, 2)]\<rparr>, w_statements = 0, w_medium = two_objects\<rparr>"

lemma sample_exclusive: "exclusive sample_maintenance" "unshared sample_maintenance"
  by (auto simp: exclusive_def unshared_def sample_maintenance_def quiet_host_def)



theorem preview_changes_nothing_witness: "same_world sample_world (snd (preview sample_maintenance sample_options sample_world))"
  by (rule preview_changes_nothing) (rule sample_exclusive)

theorem expired_batch_atomic_witness:
  "\<exists>pl. pass_options sample_options sample_world = (Inr pl, sample_world) \<and>
     card (expired_batch (pl_asOf pl) (pl_maxRuns pl) (w_archive sample_world)) \<le> 1 \<and>
     (\<forall>k \<in> expired_batch (pl_asOf pl) (pl_maxRuns pl) (w_archive sample_world). expired_at 10 (w_archive sample_world) k)"
proof -
  have o: "\<exists>pl. pass_options sample_options sample_world = (Inr pl, sample_world) \<and> pl_asOf pl = 10 \<and> pl_maxRuns pl = 1"
    by (simp add: pass_options_def sample_options_def bind_w_def checkDate_def check_date_option_def limit_def return_w_def is_safe_int_def MAX_SAFE_INTEGER_def)
  then obtain pl where pl: "pass_options sample_options sample_world = (Inr pl, sample_world)" "pl_asOf pl = 10" "pl_maxRuns pl = 1" by blast
  have "\<forall>n a. mh_others sample_maintenance n a = a" by (simp add: sample_maintenance_def)
  from expired_batch_atomic [OF this pl(1), of True] pl show ?thesis by simp
qed

end
