(* ===== verification/Retention_Bounds.thy ===== *)
theory Retention_Bounds
  imports Retention_Properties
begin

text \<open>
  A report within its limits, the byte budget with its one exception, and a truncation that is not reported.
\<close>

section \<open>The budget\<close>

definition reclaimed_bytes :: "reclaimed_blob list \<Rightarrow> nat" where
  "reclaimed_bytes bs = sum_list (map rb_sizeBytes bs)"

text \<open>After the first object the budget is never overdrawn, and what is listed was charged to it.\<close>

definition within :: "nat \<Rightarrow> sweep \<Rightarrow> bool" where
  "within most sw \<longleftrightarrow> (sw_examined sw \<le> 1 \<or> 0 \<le> sw_bytes sw) \<and> int (reclaimed_bytes (sw_blobs sw)) \<le> int most - sw_bytes sw \<and>
     length (sw_blobs sw) \<le> sw_examined sw"

definition charged :: "sweep \<Rightarrow> nat" where
  "charged sw = sw_examined sw + sw_remaining sw"

lemma reclaim_size: "reclaim h sha n origin d w = ((Some b, ps), w') \<Longrightarrow> rb_sizeBytes b = n"
  by (auto simp: reclaim_def remove_bytes_def reclaimed_def split: prod.splits sum.splits if_splits blob_error.splits)

lemma within_examine:
  assumes "within most sw" "\<not> over_budget sw n" "examine h d sha n origin sw w = (sw', w')"
  shows "within most sw' \<and> sw_examined sw' = sw_examined sw + 1 \<and> sw_remaining sw' = sw_remaining sw"
proof -
  obtain r ps w1 where r: "reclaim h sha n origin d w = ((r, ps), w1)" by (metis surj_pair)
  show ?thesis using assms r reclaim_size [of h sha n origin d w _ ps w1]
    by (cases r) (auto simp: within_def over_budget_def examine_def reclaimed_bytes_def)
qed

lemma within_catalogued:
  "within most sw \<Longrightarrow> sweep_catalogued h d rows sw w = (sw', w') \<Longrightarrow> within most sw' \<and> charged sw' \<le> charged sw + length rows"
proof (induction rows arbitrary: sw w)
  case (Cons e rows)
  obtain sha n where e: "e = (sha, n)" by fastforce
  show ?case
  proof (cases "over_budget sw n")
    case True
    then show ?thesis using Cons.prems by (auto simp: e within_def charged_def)
  next
    case False
    obtain sw1 w1 where x: "examine h d sha n catalogued sw w = (sw1, w1)" by fastforce
    have "within most sw1" "charged sw1 = charged sw + 1" using within_examine [OF Cons.prems(1) False x] by (auto simp: charged_def)
    with Cons.IH [of sw1 w1] Cons.prems(2) False x show ?thesis by (simp add: e)
  qed
qed simp

lemma within_objects:
  "within most sw \<Longrightarrow> sweep_objects h d before known es sw w = (sw', w') \<Longrightarrow> within most sw' \<and> charged sw' = charged sw"
proof (induction es arbitrary: sw w)
  case (Cons e es)
  show ?case
  proof (cases "oe_sha256 e \<in> set known \<or> oe_modifiedAt e \<ge> before \<or> sw_remaining sw = 0 \<or> over_budget sw (oe_sizeBytes e)")
    case True
    then show ?thesis using Cons by (auto simp: within_def charged_def split: if_splits)
  next
    case False
    let ?sw = "sw\<lparr>sw_remaining := sw_remaining sw - 1\<rparr>"
    obtain sw1 w1 where x: "examine h d (oe_sha256 e) (oe_sizeBytes e) uncatalogued ?sw w = (sw1, w1)" by fastforce
    have "within most ?sw" "\<not> over_budget ?sw (oe_sizeBytes e)" using Cons.prems(1) False by (auto simp: within_def over_budget_def)
    from within_examine [OF this x] False have "within most sw1" "charged sw1 = charged sw" by (auto simp: charged_def)
    with Cons.IH [of sw1 w1] Cons.prems(2) False x show ?thesis by simp
  qed
qed simp

lemma within_pages:
  "within most sw \<Longrightarrow> sweep_pages h d before cursor sw w = (Inr sw', w') \<Longrightarrow> within most sw' \<and> charged sw' = charged sw"
proof (induction "card {x. isSha256 x \<and> \<not> passed cursor x}" arbitrary: cursor sw w rule: less_induct)
  case less
  obtain pg w1 known w2 where 1: "blobs_call (listObjects (mh_blobs h) (Some (Whole (int CAS_PAGE))) cursor) w = (Inr pg, w1)"
    and 2: "query h (known_hashes (map oe_sha256 (op_objects pg))) w1 = (Inr known, w2)"
    using less.prems(2) by (subst (asm) sweep_pages.simps) (auto split: prod.splits sum.splits)
  obtain sw1 w3 where 3: "sweep_objects h d before known (op_objects pg)
      (sw\<lparr>sw_problems := sw_problems sw @ map casProblem (op_problems pg)\<rparr>) w2 = (sw1, w3)" by fastforce
  have "within most (sw\<lparr>sw_problems := sw_problems sw @ map casProblem (op_problems pg)\<rparr>)" using less.prems(1) by (simp add: within_def)
  from within_objects [OF this 3] have sw1: "within most sw1" "charged sw1 = charged sw" by (auto simp: charged_def)
  have "sweep_pages h d before cursor sw w =
      (if sw_done sw1 then (Inr sw1, w3) else (case op_next pg of None \<Rightarrow> (Inr sw1, w3) | Some nxt \<Rightarrow> sweep_pages h d before (Some nxt) sw1 w3))"
    by (subst sweep_pages.simps) (simp only: 1 2 3 prod.case sum.case)
  moreover have "within most sw' \<and> charged sw' = charged sw1" if "op_next pg = Some nxt" "sweep_pages h d before (Some nxt) sw1 w3 = (Inr sw', w')" for nxt
    by (rule less.hyps [OF cursor_advances [of pg w1 "mh_blobs h" "Some (Whole (int CAS_PAGE))" cursor w] sw1(1) that(2)]) (simp_all add: 1 that(1))
  ultimately show ?case using less.prems(2) sw1 by (auto split: if_splits option.splits)
qed

lemma within_sweep:
  assumes "sweep_blobs h d pl ps w = (Inr sw, w')"
  shows "within (pl_maxBytes pl) sw \<and> charged sw \<le> pl_maxBlobs pl + pl_maxUncatalogued pl"
proof -
  obtain rows w1 where q: "query h (unreferenced_rows (pl_maxBlobs pl + 1) (pl_after pl)) w = (Inr rows, w1)"
    using assms by (auto simp: sweep_blobs_def bind_w_Inr)
  define sw0 where "sw0 = \<lparr>sw_bytes = int (pl_maxBytes pl), sw_examined = 0, sw_remaining = pl_maxUncatalogued pl, sw_truncated = length rows > pl_maxBlobs pl,
                sw_done = False, sw_blobs = [], sw_problems = ps\<rparr>"
  obtain sw1 w2 where c: "sweep_catalogued h d (take (pl_maxBlobs pl) rows) sw0 w1 = (sw1, w2)" by fastforce
  have "within (pl_maxBytes pl) sw0" "charged sw0 = pl_maxUncatalogued pl" by (auto simp: sw0_def within_def charged_def reclaimed_bytes_def)
  with within_catalogued [OF _ c] have sw1: "within (pl_maxBytes pl) sw1" "charged sw1 \<le> pl_maxBlobs pl + pl_maxUncatalogued pl" by fastforce+
  have "(case pl_orphansBefore pl of None \<Rightarrow> (Inr sw1, w2) | Some before \<Rightarrow> sweep_pages h d before None sw1 w2) = (Inr sw, w')"
    using assms q c by (simp add: sweep_blobs_def bind_w_def sw0_def)
  then show ?thesis using sw1 within_pages [OF sw1(1)] by (auto split: option.splits)
qed

section \<open>The report\<close>

lemma swept_length: "length (fst (fst (sweep_temporary h d fs w))) \<le> length fs"
proof (induction fs arbitrary: w)
  case (Cons f fs)
  show ?case using Cons.IH by (auto simp: split_def split: sum.splits intro: le_SucI)
qed simp

lemma temporaries_length:
  assumes "sweep_temporaries h d before n w = (Inr (files, ps, t), w')"
  shows "length files \<le> n"
proof (cases before)
  case None
  then show ?thesis using assms by (simp add: sweep_temporaries_def)
next
  case (Some b)
  then obtain listed w1 ps1 where "sweep_temporary h d (take n listed) w1 = ((files, ps1), w')"
    using assms by (auto simp: sweep_temporaries_def split: prod.splits sum.splits)
  with swept_length [of h d "take n listed" w1] show ?thesis by simp
qed

lemma expired_length: "length (fst (fst (expire_runs h d asOf rows w))) \<le> length rows"
  by (auto simp: expire_runs_def Let_def split: prod.splits sum.splits)

lemma pass_parts:
  assumes "pass h d mo w = (Inr rep, w')"
  obtains pl w0 rows t w1 expired ps w2 sw w3 files ps' t' w4 legacy where
    "pass_options mo w = (Inr pl, w0)" "selectExpired h (pl_asOf pl) (pl_maxRuns pl) w0 = (Inr (rows, t), w1)"
    "expire_runs h d (pl_asOf pl) rows w1 = ((expired, ps), w2)" "sweep_blobs h d pl ps w2 = (Inr sw, w3)"
    "sweep_temporaries h d (pl_tempBefore pl) (pl_maxTemps pl) w3 = (Inr (files, ps', t'), w4)"
    "legacyRuns h (pl_maxLegacy pl) w4 = (Inr legacy, w')"
    "rep = report_of (pl_asOf pl) d expired legacy (sw_blobs sw) files (sw_problems sw @ ps') t (sw_truncated sw) t'"
proof -
  from assms obtain pl w0 rows t w1 where p: "pass_options mo w = (Inr pl, w0)" "selectExpired h (pl_asOf pl) (pl_maxRuns pl) w0 = (Inr (rows, t), w1)"
    "(case expire_runs h d (pl_asOf pl) rows w1 of ((expired, problems), w) \<Rightarrow>
         bind_w (sweep_blobs h d pl problems) (\<lambda>sw.
         bind_w (sweep_temporaries h d (pl_tempBefore pl) (pl_maxTemps pl)) (\<lambda>(files, ps, tempsTruncated).
         bind_w (legacyRuns h (pl_maxLegacy pl)) (\<lambda>legacy.
         return_w (report_of (pl_asOf pl) d expired legacy (sw_blobs sw) files (sw_problems sw @ ps) t (sw_truncated sw) tempsTruncated)))) w) = (Inr rep, w')"
    unfolding pass_def bind_w_Inr by (auto simp: split_def)
  obtain expired ps w2 where e: "expire_runs h d (pl_asOf pl) rows w1 = ((expired, ps), w2)" by (metis surj_pair)
  from p(3) [unfolded e prod.case bind_w_Inr] obtain sw w3 files ps' t' w4 legacy where
    "sweep_blobs h d pl ps w2 = (Inr sw, w3)" "sweep_temporaries h d (pl_tempBefore pl) (pl_maxTemps pl) w3 = (Inr (files, ps', t'), w4)"
    "legacyRuns h (pl_maxLegacy pl) w4 = (Inr legacy, w')"
    "rep = report_of (pl_asOf pl) d expired legacy (sw_blobs sw) files (sw_problems sw @ ps') t (sw_truncated sw) t'"
    by (auto simp: split_def bind_w_Inr return_w_def)
  with p(1,2) e that show thesis by blast
qed

text \<open>
  C26. A report keeps within the limits of its pass: no more runs, blobs, temporary files or legacy runs than the options
  allow, and the bytes of the blobs it lists are within \<open>maxBytesExamined\<close> unless it lists a single blob.
\<close>

theorem report_within_limits:
  assumes "pass h destructive mo w = (Inr rep, w')"
  shows "\<exists>pl. pass_options mo w = (Inr pl, w) \<and> length (mr_expiredRuns rep) \<le> pl_maxRuns pl \<and>
    length (mr_blobs rep) \<le> pl_maxBlobs pl + pl_maxUncatalogued pl \<and>
    (length (mr_blobs rep) \<le> 1 \<or> reclaimed_bytes (mr_blobs rep) \<le> pl_maxBytes pl) \<and>
    mr_bytesReclaimed rep \<le> reclaimed_bytes (mr_blobs rep) \<and>
    length (mr_temporaryFiles rep) \<le> pl_maxTemps pl \<and> length (mr_legacyRuns rep) \<le> pl_maxLegacy pl"
  using assms
proof (rule pass_parts, goal_cases)
  case (1 pl w0 rows t w1 expired ps w2 sw w3 files ps' t' w4 legacy)
  have "w0 = w" using pass_options_pure [of mo w] 1(1) by simp
  moreover have "length expired \<le> pl_maxRuns pl"
    using expired_length [of h destructive "pl_asOf pl" rows w1] 1(2,3) by (auto simp: selectExpired_def bind_w_Inr return_w_def)
  moreover have "within (pl_maxBytes pl) sw" "charged sw \<le> pl_maxBlobs pl + pl_maxUncatalogued pl" using within_sweep [OF 1(4)] by auto
  moreover have "length files \<le> pl_maxTemps pl" by (rule temporaries_length [OF 1(5)])
  moreover have "length (fst legacy) \<le> pl_maxLegacy pl"
    using 1(6) by (auto simp: legacyRuns_def bind_w_Inr return_w_def dest!: query_Inr)
  moreover have "sum_list (map rb_sizeBytes (filter P bs)) \<le> sum_list (map rb_sizeBytes bs)" for P bs by (induction bs) auto
  ultimately show ?case using 1(1) unfolding 1(7)
    by (intro exI [of _ pl]) (auto simp: report_of_def within_def charged_def reclaimed_bytes_def)
qed

section \<open>A truncation that is not reported\<close>

text \<open>
  C28. With \<open>maxTemporaryFiles\<close> of 10000 or more a sweep of temporary files never reports that a limit stopped it: the
  listing it asks for one file more is itself cut at \<open>MAX_LIST_LIMIT\<close>, so the comparison that would show the
  truncation never succeeds.
\<close>

theorem temporary_truncation_unreported:
  assumes "mo_maxTemporaryFiles mo = Some (Whole n)" "int MAX_LIST_LIMIT \<le> n" "pass h destructive mo w = (Inr rep, w')"
  shows "\<not> mr_truncatedTemporaryFiles rep"
  using assms(3)
proof (rule pass_parts, goal_cases)
  case (1 pl w0 rows t w1 expired ps w2 sw w3 files ps' t' w4 legacy)
  have "pl_maxTemps pl = nat n"
    using 1(1) assms(1) by (auto simp: pass_options_def bind_w_Inr limit_def return_w_def invalid_def split: if_splits option.splits)
  then have n: "MAX_LIST_LIMIT \<le> pl_maxTemps pl" using assms(2) by simp
  have "\<not> t'"
  proof (cases "pl_tempBefore pl")
    case None
    then show ?thesis using 1(5) by (simp add: sweep_temporaries_def)
  next
    case (Some b)
    let ?l = "listTemporaryFiles (mh_blobs h) (Some (one_more (pl_maxTemps pl))) (Some (Some b))"
    obtain listed problems s where l: "?l (w_medium w3) = (Inr (listed, problems), s)" and t': "t' = (length listed > pl_maxTemps pl)"
      using 1(5) Some by (auto simp: sweep_temporaries_def blobs_call_def split: prod.splits sum.splits)
    from returnsD [OF returns_listTemporaryFiles l] have "length listed \<le> MAX_LIST_LIMIT" by auto
    with n t' show ?thesis by simp
  qed
  then show ?case unfolding 1(7) by (simp add: report_of_def)
qed

text \<open>A pass over the small archive that sweeps temporary files, with a large limit on them.\<close>

definition sweeping_options :: maintenance_options where
  "sweeping_options = sample_options\<lparr>mo_tempBefore := Some (Some 3), mo_maxTemporaryFiles := Some (Whole 20000)\<rparr>"

lemma sample_statement: "statement sample_maintenance f w = (Inr (fst (f (w_archive w))), w\<lparr>w_archive := snd (f (w_archive w)), w_statements := w_statements w + 1\<rparr>)"
  by (simp add: statement_def sample_maintenance_def split_def Let_def)

lemma sample_query: "query sample_maintenance f w = (Inr (f (w_archive w)), w\<lparr>w_statements := w_statements w + 1\<rparr>)"
  by (simp add: query_def sample_statement)

definition old_run :: expired_run where
  "old_run = \<lparr>er_project = js ''p'', er_run = js ''old'', er_expiresAt = 5, er_sequence = 1, er_sourceLines = 1, er_blobRelations = 0\<rparr>"

lemma sample_rows:
  "expired_rows 10 (w_archive sample_world) = [old_run]" "still_expired 10 {(js ''p'', js ''old'')} (w_archive sample_world) = [(js ''p'', js ''old'')]"
  "filter (\<lambda>(sha, _). \<not> referenced (delete_runs {(js ''p'', js ''old'')} (w_archive sample_world)) sha \<and> \<not> passed None sha)
     (qe_blobs (delete_runs {(js ''p'', js ''old'')} (w_archive sample_world))) = []"
  by code_simp+

lemma sample_listing: "\<exists>s. listTemporaryFiles quiet_host (Some (one_more 20000)) (Some (Some 3)) two_objects = (Inr ([], []), s)"
proof -
  have "entry_at two_objects (Below [TEMP_DIR]) = None" by code_simp
  moreover have "undisturbed quiet_host" using quiet_alone by (simp add: undisturbed_def quiet_host_def)
  ultimately have "yields two_objects (blob_entryKind quiet_host (Below [TEMP_DIR])) Missing"
    using yields_entryKind [of quiet_host two_objects "Below [TEMP_DIR]"] by simp
  then have "\<exists>s. blob_entryKind quiet_host (Below [TEMP_DIR]) two_objects = (Inr Missing, s)"
    unfolding yields_def by (metis (no_types) medium.surjective medium.update_convs(7))
  then show ?thesis
    by (auto simp: listTemporaryFiles_def bind_m_def boundedLimit_def one_more_def is_safe_int_def MAX_SAFE_INTEGER_def return_m_def)
qed

lemma sample_deletes:
  "deleteRuns sample_maintenance [old_run] 10 w =
     (Inr [(js ''p'', js ''old'')], w\<lparr>w_archive := delete_runs {(js ''p'', js ''old'')} (w_archive sample_world), w_statements := w_statements w + 3\<rparr>)"
  if "w_archive w = w_archive sample_world"
  using that sample_rows(2) by (simp add: deleteRuns_def bind_w_def sample_query sample_statement return_w_def expired_key_def old_run_def)

lemma sample_pass:
  "\<exists>rep w. pass sample_maintenance True sweeping_options sample_world = (Inr rep, w) \<and> map er_run (mr_expiredRuns rep) = [js ''old'']"
proof -
  obtain s where s: "listTemporaryFiles quiet_host (Some (one_more 20000)) (Some (Some 3)) two_objects = (Inr ([], []), s)" using sample_listing by blast
  have opts: "pass_options sweeping_options sample_world = (Inr \<lparr>pl_asOf = 10, pl_tempBefore = Some 3, pl_orphansBefore = None, pl_maxRuns = 1, pl_maxBlobs = LIMIT_blobs,
      pl_maxUncatalogued = LIMIT_uncataloguedBlobs, pl_maxBytes = LIMIT_bytesExamined, pl_maxTemps = 20000, pl_maxLegacy = LIMIT_legacy, pl_after = None\<rparr>, sample_world)"
    by (simp add: pass_options_def sweeping_options_def sample_options_def bind_w_def checkDate_def check_date_option_def limit_def return_w_def
        is_safe_int_def MAX_SAFE_INTEGER_def)
  have med: "w_medium sample_world = two_objects" "mh_blobs sample_maintenance = quiet_host" by (simp_all add: sample_world_def sample_maintenance_def)
  have rows: "unreferenced_rows n None (delete_runs {(js ''p'', js ''old'')} (w_archive sample_world)) = []" for n
    unfolding unreferenced_rows_def sample_rows(3) by simp
  show ?thesis
    by (simp add: pass_def bind_w_def opts selectExpired_def sample_query sample_rows(1) return_w_def expire_runs_def sample_deletes Let_def
        sweep_blobs_def rows sweep_temporaries_def blobs_call_def med s legacyRuns_def report_of_def went_key_def expired_key_def)
      (simp add: old_run_def)
qed

theorem report_within_limits_witness:
  "\<exists>rep w pl. pass sample_maintenance True sweeping_options sample_world = (Inr rep, w) \<and> map er_run (mr_expiredRuns rep) = [js ''old''] \<and>
     pass_options sweeping_options sample_world = (Inr pl, sample_world) \<and> length (mr_expiredRuns rep) \<le> pl_maxRuns pl"
proof -
  obtain rep w where p: "pass sample_maintenance True sweeping_options sample_world = (Inr rep, w)" "map er_run (mr_expiredRuns rep) = [js ''old'']"
    using sample_pass by (elim exE conjE) (rule that)
  from report_within_limits [OF p(1)] obtain pl where "pass_options sweeping_options sample_world = (Inr pl, sample_world)"
    "length (mr_expiredRuns rep) \<le> pl_maxRuns pl" by (elim exE conjE) (rule that)
  with p show ?thesis by (intro exI conjI)
qed

theorem temporary_truncation_unreported_witness:
  "\<exists>rep w. pass sample_maintenance True sweeping_options sample_world = (Inr rep, w) \<and> \<not> mr_truncatedTemporaryFiles rep"
proof -
  obtain rep w where p: "pass sample_maintenance True sweeping_options sample_world = (Inr rep, w)" using sample_pass by blast
  have "mo_maxTemporaryFiles sweeping_options = Some (Whole 20000)" "int MAX_LIST_LIMIT \<le> 20000"
    by (simp_all add: sweeping_options_def MAX_LIST_LIMIT_def)
  from temporary_truncation_unreported [OF this p] p show ?thesis by blast
qed

end
