(* ===== verification/Spec2Isabelle.thy ===== *)
theory Spec2Isabelle
  imports Validator_Findings Projector_Findings Ingest_Properties Read_Model_Order File_Sink_Properties
    Cursor_Properties Delivery_Properties Blob_Walk Retention_Bounds
begin

text \<open>
  \<^bold>\<open>qe-report: the event protocol and the programs around it\<close>

  A test run is reported as JSON lines: every producer session appends events to its own file,
  and a run is the set of these files plus attachments.  The TypeScript packages under
  \<open>src/ts/packages\<close> define the events and their codec (\<open>protocol\<close>), decide whether a run obeys
  the protocol (\<open>validator\<close>), derive the state of the run from the accepted events (\<open>read-model\<close>),
  write the files (\<open>sdk\<close>) and move them to a server (\<open>http-client\<close>, \<open>http-api\<close>, \<open>postgres\<close>,
  \<open>blob-fs\<close>).

  \<^bold>\<open>Theories and the code they model\<close>

  \<^item> \<open>Prelude\<close>: JavaScript strings as lists of 16-bit units, results that carry a thrown error, the
    insertion-ordered \<open>Map\<close> with its interface locale \<open>ordered_map\<close>.
  \<^item> \<open>Json\<close>, \<open>Canonical\<close>: JSON values and \<open>JSON.stringify\<close>; \<open>canonical\<close> of \<open>validator/src/validator.ts\<close>
    with its explicit stack.
  \<^item> \<open>Protocol_Model\<close>, \<open>Timestamp\<close>: \<open>protocol/src/model.ts\<close>, \<open>version.ts\<close>, \<open>errors.ts\<close> and the
    regular expressions of the codec.
  \<^item> \<open>Codec_Read\<close>, \<open>Codec_Write\<close>: \<open>eventFromObject\<close> and \<open>eventToObject\<close> of \<open>protocol/src/codec.ts\<close>,
    every event type and every refusal with its pointer.
  \<^item> \<open>Lifecycle\<close>: the abstract specification, a stateless predicate on the history of a run.
  \<^item> \<open>Validator\<close>, \<open>Validator_Report\<close>: the class \<open>RunValidator\<close> with its whole state, the checks of
    \<open>finish\<close>, the three entry points and the printed diagnostic.
  \<^item> \<open>Projector\<close>: \<open>read-model/src/projector.ts\<close>, the projection of a validated run;
    \<open>History_Order\<close> and \<open>Project_Id\<close>: \<open>history-order.ts\<close> and \<open>project-id.ts\<close>; \<open>Read_Model\<close>: assembly and
    queries of \<open>read-model.ts\<close>; \<open>Ingest\<close>: \<open>discovery.ts\<close>, \<open>ingest.ts\<close> and \<open>buildReadModel\<close>.
  \<^item> \<open>Safe_Name\<close>, \<open>Run_Directory\<close>: the names a producer gives its directory and its file
    (\<open>sdk/src/safe-name.ts\<close>, \<open>session-file.ts\<close>, \<open>run-directory.ts\<close>), with the path functions of the platform;
    \<open>Pattern\<close>: the part of ECMAScript matching and replacing the redactor uses; \<open>Redactor\<close>:
    \<open>redactor.ts\<close>, \<open>environment.ts\<close>, \<open>media-types.ts\<close>; \<open>Session\<close>: the class \<open>ReportSession\<close> of \<open>session.ts\<close>, its
    state a record, its sink a record of operations; \<open>File_Sink\<close>: \<open>file-sink.ts\<close>, the sink that writes
    the run directory.
  \<^item> \<open>Instants\<close>: the deadline parsers of \<open>http-api/src/instants.ts\<close> and \<open>http-client/src/instants.ts\<close>, with
    \<open>toISOString\<close>; \<open>Encoding\<close>: UTF-8 and base64url; \<open>Cursors\<close>: \<open>http-api/src/run-ref.ts\<close> and \<open>cursors.ts\<close>.
  \<^item> \<open>Upload_Plan\<close>: \<open>http-client/src/local-run.ts\<close> and \<open>multipart.ts\<close>, what is sent of a run directory;
    \<open>Transport\<close>: \<open>transport.ts\<close>, the callbacks of one exchange as steps on the state they share; \<open>Delivery\<close>:
    \<open>target.ts\<close>, \<open>retry.ts\<close> and \<open>client.ts\<close>, the loop of attempts.
  \<^item> \<open>Blob_Medium\<close>: the file system below the blob store, entries by path and files by inode, with the calls
    the store makes; each call may fail, and other clients act before it.  \<open>Blob_Store\<close>:
    \<open>blob-fs/src/file-blob-store.ts\<close>, \<open>fs-safety.ts\<close> and \<open>sha256.ts\<close>; \<open>Blob_Listing\<close>: the two listings of the same file.
  \<^item> \<open>Locks\<close>: \<open>postgres/src/locks.ts\<close>, the lease on the maintenance lock; \<open>Retention\<close>: \<open>postgres/src/retention.ts\<close>, a pass
    over the run archive, whose SQL statements are functions on the rows of its tables, and over the blob store.

  \<^bold>\<open>What is shown\<close>

  \<^item> \<open>Codec_Roundtrip\<close>: reading and writing are inverse on well-formed events, whatever is read is
    well formed, unknown events keep their payload.
  \<^item> \<open>Canonical\<close>: the iterative walk is the sorted \<open>JSON.stringify\<close>, and ignores property order.
  \<^item> \<open>Validator_Rules\<close>, \<open>Validator_Invariant\<close>, \<open>Validator_Sound\<close>, \<open>Validator_Feed\<close>,
    \<open>Validator_Decides\<close>, \<open>Validator_Verdict\<close>, \<open>Validator_Finish\<close>: the state of the validator is a function of the
    accepted history, and no error is recorded exactly when the history obeys \<open>Lifecycle\<close>.
  \<^item> \<open>Validator_Properties\<close>: the resulting properties of whole validations; \<open>Validator_Findings\<close>: two
    places where the code does not do what its comments say.
  \<^item> \<open>Projector_Replay\<close>, \<open>Projector_Valid\<close>, \<open>Projector_Complete\<close>, \<open>Projector_Steps\<close>, \<open>Projector_Properties\<close>:
    a valid run projects, the projection is determined by its set of events and agrees with the
    validator on completeness, and the flakiness rule is the documented one; \<open>Projector_Findings\<close>: a
    result is kept exactly when it sorts after the start of its attempt, so a valid and complete run
    whose result stands in a session that sorts first is projected with an open execution.
  \<^item> \<open>History_Properties\<close>: history order is the order of the instants, leap seconds included.
  \<^item> \<open>Read_Model_Facts\<close> (with the locale \<open>text_key\<close>, interpreted for run and history keys),
    \<open>Read_Model_Catalog\<close>, \<open>Read_Model_Properties\<close>, \<open>Read_Model_Order\<close>: no run is lost, histories and the blob
    catalog are complete and ordered, the order of the runs does not matter when a directory identifies
    its run, and a run that contradicts itself is accepted.
  \<^item> \<open>Ingest_Properties\<close>: the outcomes of ingestion, what discovery finds, and that a build accounts for
    every directory.
  \<^item> \<open>Safe_Name\<close>, \<open>Run_Directory\<close>: names are portable and stay below \<open>runs\<close>; \<open>Redactor_Properties\<close>: redaction
    keeps the type of an event, and the replacement of key and value removes the value after a sensitive
    key, quoted or up to its delimiter, wherever in a text the key is first mentioned.
  \<^item> \<open>Session_Log\<close> (with the locale \<open>event_log\<close>, the contract of a sink), \<open>Session_Properties\<close>, \<open>Session_Runs\<close>:
    the operations of a session in any order leave a trace of the abstract lifecycle, over every sink
    (interpretation \<open>tracked\<close>); \<open>Event_Text\<close>, \<open>File_Sink_Properties\<close>: over the file sink on a reliable
    disk (interpretation \<open>file_log\<close>) the event file is that trace line by line, and attachments are
    stored by content.
  \<^item> \<open>Instants_Properties\<close>: producer and service read the same deadlines, and the text sent is read as the
    instant it was made from; \<open>Cursors\<close>, \<open>Cursor_Properties\<close>: references and cursors are read back only where
    they were issued.
  \<^item> \<open>Upload_Properties\<close>: the body of an attempt is complete and as planned, or visibly short;
    \<open>Delivery_Properties\<close>: a delivery ends within its policy, repeats only what may be repeated, and
    sends the key only to the checked target.
  \<^item> \<open>Blob_Rules\<close> (what may happen to the medium as the inductive relation \<open>store_step\<close>, and triples whose
    assertions survive the steps of others), \<open>Blob_Calls\<close>, \<open>Blob_Put\<close>, \<open>Blob_Properties\<close>: the store stays
    content-addressed under failures and interference, and what it answers is so; \<open>Blob_Pages\<close>,
    \<open>Blob_Walk\<close>: the listings are bounded and paging visits every object once.
  \<^item> \<open>Blob_Frame\<close>: what looks and removals leave alone; \<open>Retention_Pass\<close> (with the locale \<open>pass_invariant\<close>, the
    steps an invariant of a pass has to survive), \<open>Retention_Properties\<close> (its interpretations \<open>leased\<close>, \<open>looking\<close>
    and \<open>batched\<close>): maintenance never costs a run its bytes, a preview changes nothing, a batch of expired
    runs goes whole or not at all; \<open>Retention_Bounds\<close>: a report is within the limits of its pass, and one
    truncation is not reported; \<open>Locks\<close>: the lease is exact.

  \<^bold>\<open>Parameters\<close>

  The engine's \<open>JSON.parse\<close>, the Ajv functions compiled from the JSON schema, SHA-256 and the
  file system are parameters of the model (records \<open>host\<close>, \<open>file_system\<close> and \<open>ingest_env\<close>); so are the clock, the id generator, the
  text functions of the engine (\<open>text_host\<close>) and the operating system below the file sink (\<open>disk\<close>), which answers
  its n-th call and may refuse any of them.  The client adds the answers of the directory it reads
  (\<open>local_files\<close>), the parsing of URLs (\<open>url_host\<close>) and what an attempt meets (\<open>delivery_host\<close>); a delivery is
  \<open>None\<close> only where an exchange never settles, which its timer excludes.  The blob store runs on \<open>blob_host\<close>: the
  digest, the failure of the n-th call, the other clients, random names, and the chunks a stream delivers.
  The validator's \<open>file_system\<close> is a function of the path or the descriptor, so nothing changes between two of
  its calls; the \<open>disk\<close> of the file sink has no other process writing below the attachments directory; and the
  clock, the ids and the problem callback of a session return, they do not throw.
  Its paths are flat: an entry is found under its whole path, so a directory that is a link has
  nothing below it, and a call that creates an entry does not ask for the parent directory, whose absence is
  among the failures a call may have; inode numbers are not used again and there is one device; closing a
  descriptor does not fail.  Maintenance adds \<open>maintenance_host\<close>, which lets the n-th
  statement fail, executed or not, and other sessions act before it, and \<open>lock_answers\<close>.  Loops need no fuel: the
  loop over pages ends because each cursor is a hash beyond the one before.

  \<^bold>\<open>Not modelled\<close>

  The rest of \<open>postgres\<close> (storing, materialising, indexing and querying runs, migrations, keys) consists of SQL
  statements whose effect PostgreSQL decides, and of row conversions; \<open>http-api\<close> beyond locators, cursors and
  instants is routing and plumbing over it.  \<open>playwright\<close> translates callbacks of a runner that is not part of
  the repository, \<open>equivalence\<close> is a test harness, the command lines parse arguments and print, and the Java
  adapters are another program.  The compilation of the JSON schema is done by Ajv.
\<close>

end
